(* ===== verification/Prelude.thy ===== *)
theory Prelude
  imports Main "HOL-Library.AList" "HOL-Library.List_Lexorder" "HOL-Library.Char_ord"
    "HOL-Library.Product_Lexorder" "HOL-Library.Multiset"
begin

text \<open>
  Shared vocabulary of the development: results of fallible Python code (an exception is a value
  \<open>Inl e\<close>), insertion-ordered dictionaries, sets that the code enumerates or sorts, and the
  generic lemmas about them that the component theories use.

  A Python \<open>dict\<close> keeps insertion order and assigning to an existing key keeps its position, which
  is exactly \<^const>\<open>AList.update\<close> on an association list with distinct keys. A Python \<open>set\<close>
  has no order: where the code iterates over one, the model takes a list that enumerates it, and
  where the code sorts it, the model sorts the list.
\<close>

named_theorems res_simps \<open>elimination of the result monad\<close>
named_theorems dict_simps \<open>lookup and update of insertion-ordered dictionaries\<close>

section \<open>Results\<close>

type_synonym ('e, 'a) res = "'e + 'a"

definition res_bind :: "('e, 'a) res \<Rightarrow> ('a \<Rightarrow> ('e, 'b) res) \<Rightarrow> ('e, 'b) res" where
  "res_bind r f = (case r of Inl e \<Rightarrow> Inl e | Inr x \<Rightarrow> f x)"

definition res_map :: "('a \<Rightarrow> 'b) \<Rightarrow> ('e, 'a) res \<Rightarrow> ('e, 'b) res" where
  "res_map f r = (case r of Inl e \<Rightarrow> Inl e | Inr x \<Rightarrow> Inr (f x))"

definition res_guard :: "bool \<Rightarrow> 'e \<Rightarrow> ('e, unit) res" where
  "res_guard b e = (if b then Inr () else Inl e)"

definition res_of_option :: "'e \<Rightarrow> 'a option \<Rightarrow> ('e, 'a) res" where
  "res_of_option e x = (case x of None \<Rightarrow> Inl e | Some y \<Rightarrow> Inr y)"

definition res_wrap :: "('e \<Rightarrow> 'g) \<Rightarrow> ('e, 'a) res \<Rightarrow> ('g, 'a) res" where
  "res_wrap w r = (case r of Inl e \<Rightarrow> Inl (w e) | Inr x \<Rightarrow> Inr x)"

text \<open>A loop whose body may raise: it stops at the first exception.\<close>

fun res_mapM :: "('a \<Rightarrow> ('e, 'b) res) \<Rightarrow> 'a list \<Rightarrow> ('e, 'b list) res" where
  "res_mapM f [] = Inr []"
| "res_mapM f (x # xs) = res_bind (f x) (\<lambda>y. res_map (Cons y) (res_mapM f xs))"

fun res_foldM :: "('s \<Rightarrow> 'a \<Rightarrow> ('e, 's) res) \<Rightarrow> 's \<Rightarrow> 'a list \<Rightarrow> ('e, 's) res" where
  "res_foldM f s [] = Inr s"
| "res_foldM f s (x # xs) = res_bind (f s x) (\<lambda>s'. res_foldM f s' xs)"

text \<open>A validation loop: the first element that fails decides the exception.\<close>

fun res_all :: "('a \<Rightarrow> ('e, unit) res) \<Rightarrow> 'a list \<Rightarrow> ('e, unit) res" where
  "res_all f [] = Inr ()"
| "res_all f (x # xs) = res_bind (f x) (\<lambda>_. res_all f xs)"

definition is_ok :: "('e, 'a) res \<Rightarrow> bool" where
  "is_ok r = (case r of Inl _ \<Rightarrow> False | Inr _ \<Rightarrow> True)"

lemma res_bind_Inr [simp]: "res_bind (Inr x) f = f x"
  by (simp add: res_bind_def)

lemma res_bind_Inl [simp]: "res_bind (Inl e) f = Inl e"
  by (simp add: res_bind_def)

lemma res_map_Inr [simp]: "res_map f (Inr x) = Inr (f x)"
  by (simp add: res_map_def)

lemma res_map_Inl [simp]: "res_map f (Inl e) = Inl e"
  by (simp add: res_map_def)

lemma res_wrap_Inr [simp]: "res_wrap w (Inr x) = Inr x"
  by (simp add: res_wrap_def)

lemma res_wrap_Inl [simp]: "res_wrap w (Inl e) = Inl (w e)"
  by (simp add: res_wrap_def)

lemma res_of_option_simps [simp]:
  "res_of_option e None = Inl e" "res_of_option e (Some y) = Inr y"
  by (simp_all add: res_of_option_def)

lemma res_guard_simps [simp]:
  "res_guard True e = Inr ()" "res_guard False e = Inl e"
  by (simp_all add: res_guard_def)

lemma is_ok_simps [simp]: "is_ok (Inr x)" "\<not> is_ok (Inl e)"
  by (simp_all add: is_ok_def)

lemma res_bind_eq_Inr [res_simps]:
  "res_bind r f = Inr y \<longleftrightarrow> (\<exists>x. r = Inr x \<and> f x = Inr y)"
  by (cases r) auto

lemma res_bind_eq_Inl [res_simps]:
  "res_bind r f = Inl e \<longleftrightarrow> r = Inl e \<or> (\<exists>x. r = Inr x \<and> f x = Inl e)"
  by (cases r) auto

lemma res_map_eq_Inr [res_simps]: "res_map f r = Inr y \<longleftrightarrow> (\<exists>x. r = Inr x \<and> y = f x)"
  by (cases r) auto

lemma res_map_eq_Inl [res_simps]: "res_map f r = Inl e \<longleftrightarrow> r = Inl e"
  by (cases r) auto

lemma res_wrap_eq_Inr [res_simps]: "res_wrap w r = Inr y \<longleftrightarrow> r = Inr y"
  by (cases r) auto

lemma res_wrap_eq_Inl [res_simps]: "res_wrap w r = Inl g \<longleftrightarrow> (\<exists>e. r = Inl e \<and> g = w e)"
  by (cases r) auto

lemma res_of_option_eq_Inr [res_simps]: "res_of_option e x = Inr y \<longleftrightarrow> x = Some y"
  by (cases x) auto

lemma res_of_option_eq_Inl [res_simps]: "res_of_option e x = Inl g \<longleftrightarrow> x = None \<and> g = e"
  by (cases x) auto

lemma res_guard_eq_Inr [res_simps]: "res_guard b e = Inr u \<longleftrightarrow> b"
  by (cases b) auto

lemma res_guard_eq_Inl [res_simps]: "res_guard b e = Inl g \<longleftrightarrow> \<not> b \<and> g = e"
  by (cases b) auto

lemma is_ok_iff [res_simps]: "is_ok r \<longleftrightarrow> (\<exists>x. r = Inr x)"
  by (cases r) auto

lemma res_all_ok [res_simps]: "res_all f xs = Inr u \<longleftrightarrow> (\<forall>x\<in>set xs. f x = Inr ())"
  by (induction xs) (auto simp: res_bind_eq_Inr)

lemma res_mapM_Inr_iff: "res_mapM f xs = Inr ys \<longleftrightarrow> list_all2 (\<lambda>x y. f x = Inr y) xs ys"
  by (induction xs arbitrary: ys)
     (auto simp: res_bind_eq_Inr res_map_eq_Inr list_all2_Cons1)

lemma res_mapM_length: "res_mapM f xs = Inr ys \<Longrightarrow> length ys = length xs"
  by (simp add: res_mapM_Inr_iff list_all2_lengthD)

lemma res_mapM_total: "(\<And>x. x \<in> set xs \<Longrightarrow> f x = Inr (g x)) \<Longrightarrow> res_mapM f xs = Inr (map g xs)"
  by (induction xs) auto

lemma res_mapM_ex: "(\<And>x. x \<in> set xs \<Longrightarrow> \<exists>y. f x = Inr y) \<Longrightarrow> \<exists>ys. res_mapM f xs = Inr ys"
  by (induction xs) (auto simp: res_bind_eq_Inr res_map_eq_Inr)

lemma res_mapM_set:
  "res_mapM f xs = Inr ys \<Longrightarrow> y \<in> set ys \<Longrightarrow> \<exists>x\<in>set xs. f x = Inr y"
  by (force simp: res_mapM_Inr_iff list_all2_conv_all_nth in_set_conv_nth)

lemma res_mapM_mem:
  "res_mapM f xs = Inr ys \<Longrightarrow> x \<in> set xs \<Longrightarrow> \<exists>y\<in>set ys. f x = Inr y"
  by (force simp: res_mapM_Inr_iff list_all2_conv_all_nth in_set_conv_nth)

text \<open>An invariant of a raising loop: it holds of the result when there is one.\<close>

lemma res_foldM_invariant:
  assumes "res_foldM f s xs = Inr t" and "P s"
    and "\<And>s x s'. x \<in> set xs \<Longrightarrow> P s \<Longrightarrow> f s x = Inr s' \<Longrightarrow> P s'"
  shows "P t"
  using assms
proof (induction xs arbitrary: s)
  case Nil
  then show ?case by simp
next
  case (Cons x xs)
  then obtain s' where s': "f s x = Inr s'" "res_foldM f s' xs = Inr t"
    by (auto simp: res_bind_eq_Inr)
  with Cons.prems(2,3) have "P s'" by (metis list.set_intros(1))
  with s'(2) Cons.prems(3) show ?case by (intro Cons.IH) auto
qed

lemma res_foldM_append:
  "res_foldM f s (xs @ ys) = res_bind (res_foldM f s xs) (\<lambda>t. res_foldM f t ys)"
proof (induction xs arbitrary: s)
  case Nil
  then show ?case by simp
next
  case (Cons x xs)
  then show ?case by (cases "f s x") simp_all
qed

section \<open>Insertion-ordered dictionaries\<close>

type_synonym ('k, 'v) dict = "('k \<times> 'v) list"

abbreviation dget :: "('k, 'v) dict \<Rightarrow> 'k \<Rightarrow> 'v option" where
  "dget d k \<equiv> map_of d k"

abbreviation dset :: "'k \<Rightarrow> 'v \<Rightarrow> ('k, 'v) dict \<Rightarrow> ('k, 'v) dict" where
  "dset k v d \<equiv> AList.update k v d"

abbreviation dkeys :: "('k, 'v) dict \<Rightarrow> 'k list" where
  "dkeys d \<equiv> map fst d"

definition dhas :: "'k \<Rightarrow> ('k, 'v) dict \<Rightarrow> bool" where
  "dhas k d = (k \<in> set (dkeys d))"

text \<open>\<open>d.get(k, default)\<close>\<close>

definition dget_or :: "'v \<Rightarrow> ('k, 'v) dict \<Rightarrow> 'k \<Rightarrow> 'v" where
  "dget_or dflt d k = (case dget d k of None \<Rightarrow> dflt | Some v \<Rightarrow> v)"

definition wf_dict :: "('k, 'v) dict \<Rightarrow> bool" where
  "wf_dict d = distinct (dkeys d)"

text \<open>\<open>{k: f(v) for k, v in d.items()}\<close> keeps keys and order.\<close>

definition dmap :: "('k \<Rightarrow> 'v \<Rightarrow> 'w) \<Rightarrow> ('k, 'v) dict \<Rightarrow> ('k, 'w) dict" where
  "dmap f d = map (\<lambda>(k, v). (k, f k v)) d"

text \<open>\<open>{**d, **e}\<close>: later entries win.\<close>

definition dmerge :: "('k, 'v) dict \<Rightarrow> ('k, 'v) dict \<Rightarrow> ('k, 'v) dict" where
  "dmerge d e = fold (\<lambda>(k, v). dset k v) e d"

lemma dhas_iff: "dhas k d \<longleftrightarrow> (\<exists>v. dget d k = Some v)"
  unfolding dhas_def by (metis map_of_eq_None_iff not_None_eq set_map)

lemma dkeys_get: "k \<in> set (dkeys d) \<longleftrightarrow> (\<exists>v. dget d k = Some v)"
  unfolding dhas_def [symmetric] by (rule dhas_iff)

lemma not_dhas_iff [dict_simps]: "\<not> dhas k d \<longleftrightarrow> dget d k = None"
  by (simp add: dhas_iff)

lemma dget_dset [dict_simps]: "dget (dset k v d) k' = (if k' = k then Some v else dget d k')"
  by (simp add: update_conv')

lemma dset_keys [dict_simps]: "set (dkeys (dset k v d)) = insert k (set (dkeys d))"
  using dom_update [of k v d] by (simp add: dom_map_of_conv_image_fst)

lemma wf_dict_dset [intro]: "wf_dict d \<Longrightarrow> wf_dict (dset k v d)"
  by (simp add: wf_dict_def distinct_update)

lemma wf_dict_Nil [simp]: "wf_dict []"
  by (simp add: wf_dict_def)

lemma wf_dict_Cons [simp]: "wf_dict ((k, v) # d) \<longleftrightarrow> k \<notin> set (dkeys d) \<and> wf_dict d"
  by (simp add: wf_dict_def)

lemma wf_dict_get: "wf_dict d \<Longrightarrow> (k, v) \<in> set d \<longleftrightarrow> dget d k = Some v"
  by (simp add: wf_dict_def)

lemma dset_fresh: "k \<notin> set (dkeys d) \<Longrightarrow> dset k v d = d @ [(k, v)]"
  by (induction d) auto

lemma dset_keys_order: "dkeys (dset k v d) = (if k \<in> set (dkeys d) then dkeys d else dkeys d @ [k])"
  by (induction d) auto

lemma dmap_keys [simp]: "dkeys (dmap f d) = dkeys d"
  by (simp add: dmap_def case_prod_beta comp_def)

lemma dget_dmap [dict_simps]: "dget (dmap f d) k = map_option (f k) (dget d k)"
  by (induction d) (auto simp: dmap_def)

lemma wf_dict_dmap [simp]: "wf_dict (dmap f d) = wf_dict d"
  by (simp add: wf_dict_def)

lemma dget_dmerge [dict_simps]:
  "wf_dict e \<Longrightarrow> dget (dmerge d e) k = (case dget e k of None \<Rightarrow> dget d k | Some v \<Rightarrow> Some v)"
proof (induction e arbitrary: d)
  case Nil
  then show ?case by (simp add: dmerge_def)
next
  case (Cons kv e)
  obtain k' v where kv: "kv = (k', v)" by (cases kv)
  from Cons.prems kv have "k' \<notin> set (dkeys e)" "wf_dict e" by auto
  then have "dget e k' = None" by (simp add: map_of_eq_None_iff)
  moreover have "dget (dmerge (dset k' v d) e) k =
      (case dget e k of None \<Rightarrow> dget (dset k' v d) k | Some w \<Rightarrow> Some w)"
    using \<open>wf_dict e\<close> by (rule Cons.IH)
  ultimately show ?case
    by (auto simp: dmerge_def kv dget_dset split: option.splits)
qed

lemma dget_or_dset [dict_simps]:
  "dget_or x (dset k v d) k' = (if k' = k then v else dget_or x d k')"
  by (simp add: dget_or_def dget_dset)

section \<open>Sets as lists\<close>

text \<open>\<open>sorted(set(xs))\<close>\<close>

definition sorted_set :: "'a::linorder list \<Rightarrow> 'a list" where
  "sorted_set xs = sort (remdups xs)"

text \<open>\<open>sorted(s & t)\<close> and \<open>sorted(s - t)\<close>\<close>

definition sorted_inter :: "'a::linorder list \<Rightarrow> 'a list \<Rightarrow> 'a list" where
  "sorted_inter xs ys = sorted_set (filter (\<lambda>x. x \<in> set ys) xs)"

definition sorted_diff :: "'a::linorder list \<Rightarrow> 'a list \<Rightarrow> 'a list" where
  "sorted_diff xs ys = sorted_set (filter (\<lambda>x. x \<notin> set ys) xs)"

lemma set_sorted_set [simp]: "set (sorted_set xs) = set xs"
  by (simp add: sorted_set_def)

lemma sorted_sorted_set [simp]: "sorted (sorted_set xs)"
  by (simp add: sorted_set_def)

lemma distinct_sorted_set [simp]: "distinct (sorted_set xs)"
  by (simp add: sorted_set_def)

lemma set_sorted_inter [simp]: "set (sorted_inter xs ys) = set xs \<inter> set ys"
  by (auto simp: sorted_inter_def)

lemma set_sorted_diff [simp]: "set (sorted_diff xs ys) = set xs - set ys"
  by (auto simp: sorted_diff_def)

lemma sorted_set_cong: "set xs = set ys \<Longrightarrow> sorted_set xs = sorted_set ys"
  by (rule sorted_distinct_set_unique) simp_all

lemma sorted_set_eq_iff: "sorted_set xs = sorted_set ys \<longleftrightarrow> set xs = set ys"
  by (metis set_sorted_set sorted_set_cong)

lemma sorted_set_idem [simp]: "sorted_set (sorted_set xs) = sorted_set xs"
  by (rule sorted_set_cong) simp

section \<open>Lists\<close>

text \<open>Keep the first occurrence of every element, in order (\<open>if x not in seen: ...\<close>).\<close>

fun dedup_acc :: "'a list \<Rightarrow> 'a list \<Rightarrow> 'a list" where
  "dedup_acc acc [] = acc"
| "dedup_acc acc (x # xs) = dedup_acc (if x \<in> set acc then acc else acc @ [x]) xs"

definition dedup :: "'a list \<Rightarrow> 'a list" where
  "dedup xs = dedup_acc [] xs"

lemma set_dedup_acc: "set (dedup_acc acc xs) = set acc \<union> set xs"
  by (induction xs arbitrary: acc) auto

lemma distinct_dedup_acc: "distinct acc \<Longrightarrow> distinct (dedup_acc acc xs)"
  by (induction xs arbitrary: acc) auto

lemma set_dedup [simp]: "set (dedup xs) = set xs"
  by (simp add: dedup_def set_dedup_acc)

lemma distinct_dedup [simp]: "distinct (dedup xs)"
  by (simp add: dedup_def distinct_dedup_acc)

lemma dedup_acc_mono: "\<exists>zs. dedup_acc acc xs = acc @ zs"
  by (induction xs arbitrary: acc) (auto, metis append_assoc)

text \<open>\<open>{k: f(k) for k in keys}\<close>: a repeated key keeps its first position.\<close>

definition dict_of :: "('k \<Rightarrow> 'v) \<Rightarrow> 'k list \<Rightarrow> ('k, 'v) dict" where
  "dict_of f ks = fold (\<lambda>k. dset k (f k)) ks []"

lemma dict_of_acc:
  "dkeys (fold (\<lambda>k. dset k (f k)) ks d) = dedup_acc (dkeys d) ks"
  "dget (fold (\<lambda>k. dset k (f k)) ks d) j = (if j \<in> set ks then Some (f j) else dget d j)"
  by (induction ks arbitrary: d) (auto simp: dset_keys_order dget_dset)

lemma dict_of_keys [simp]: "dkeys (dict_of f ks) = dedup ks"
  by (simp add: dict_of_def dedup_def dict_of_acc)

lemma dget_dict_of [dict_simps]: "dget (dict_of f ks) j = (if j \<in> set ks then Some (f j) else None)"
  by (simp add: dict_of_def dict_of_acc)

lemma wf_dict_of [simp]: "wf_dict (dict_of f ks)"
  by (simp add: wf_dict_def)

lemma dict_of_member: "(k, v) \<in> set (dict_of f ks) \<longleftrightarrow> k \<in> set ks \<and> v = f k"
  by (auto simp: wf_dict_get dget_dict_of)

lemma dedup_acc_fresh: "distinct (acc @ xs) \<Longrightarrow> dedup_acc acc xs = acc @ xs"
  by (induction xs arbitrary: acc) auto

lemma dedup_distinct: "distinct xs \<Longrightarrow> dedup xs = xs"
  by (simp add: dedup_def dedup_acc_fresh)

lemma length_dedup_le: "length (dedup xs) \<le> length xs"
  by (metis distinct_card distinct_dedup card_length set_dedup)

lemma length_dedup_iff: "length (dedup xs) = length xs \<longleftrightarrow> distinct xs"
  by (metis card_distinct dedup_distinct distinct_card distinct_dedup set_dedup)

text \<open>\<open>next((x for x in xs if p(x)), None)\<close> is \<^const>\<open>List.find\<close>.\<close>

lemma find_SomeD: "List.find P xs = Some x \<Longrightarrow> x \<in> set xs \<and> P x"
  by (auto simp: find_Some_iff in_set_conv_nth)

end
