(* ===== verification/PyText.thy ===== *)
theory PyText
  imports Prelude "HOL-Library.Sublist"
begin

text \<open>
  The Python text operations the program uses, on \<^typ>\<open>string\<close> (a list of 8-bit characters, so
  the model covers text whose code points are below 256; within that range Python's \<open>\d\<close> and
  \<open>str.isdigit\<close> on the codes handled here are the ten ASCII digits): \<open>startswith\<close>, \<open>endswith\<close>,
  \<open>split\<close>, \<open>partition\<close>, \<open>strip\<close>, \<open>int()\<close>, the format specifications \<open>:04d\<close> and \<open>:02d\<close>,
  and the fixed-width regular expressions of the period grammars, where \<open>$\<close> also matches before a
  final newline. The lemmas give the round trip between a number and its zero-padded text and show
  that equal-width digit texts are ordered as their numbers.
\<close>

named_theorems text_simps \<open>text operations of the source language\<close>

section \<open>Searching and splitting\<close>

definition startswith :: "string \<Rightarrow> string \<Rightarrow> bool" where
  "startswith s p = (take (length p) s = p)"

definition endswith :: "string \<Rightarrow> string \<Rightarrow> bool" where
  "endswith s p = (length p \<le> length s \<and> drop (length s - length p) s = p)"

text \<open>\<open>s[:-len(p)]\<close> for a suffix \<open>p\<close>.\<close>

definition strip_suffix :: "string \<Rightarrow> string \<Rightarrow> string" where
  "strip_suffix s p = take (length s - length p) s"

text \<open>\<open>s.split(sep, 1)\<close> when \<open>sep in s\<close>, else \<^const>\<open>None\<close>.\<close>

fun split_first :: "string \<Rightarrow> string \<Rightarrow> (string \<times> string) option" where
  "split_first sep [] = (if sep = [] then Some ([], []) else None)"
| "split_first sep (c # cs) =
     (if startswith (c # cs) sep then Some ([], drop (length sep) (c # cs))
      else map_option (\<lambda>(a, b). (c # a, b)) (split_first sep cs))"

definition contains :: "string \<Rightarrow> string \<Rightarrow> bool" where
  "contains sep s = (split_first sep s \<noteq> None)"

text \<open>\<open>s.split(c)\<close> for a one-character separator.\<close>

fun split_on :: "char \<Rightarrow> string \<Rightarrow> string list" where
  "split_on c [] = [[]]"
| "split_on c (x # xs) =
     (if x = c then [] # split_on c xs
      else (case split_on c xs of [] \<Rightarrow> [[x]] | w # ws \<Rightarrow> (x # w) # ws))"

definition is_space :: "char \<Rightarrow> bool" where
  "is_space c = (c \<in> {CHR '' '', CHR 0x09, CHR 0x0A, CHR 0x0B, CHR 0x0C, CHR 0x0D,
      CHR 0x1C, CHR 0x1D, CHR 0x1E, CHR 0x1F, CHR 0x85, CHR 0xA0})"

definition strip :: "string \<Rightarrow> string" where
  "strip s = rev (dropWhile is_space (rev (dropWhile is_space s)))"

text \<open>\<open>sep.join(xs)\<close>\<close>

fun join :: "string \<Rightarrow> string list \<Rightarrow> string" where
  "join sep [] = []"
| "join sep [x] = x"
| "join sep (x # y # ys) = x @ sep @ join sep (y # ys)"

lemma startswith_append [simp]: "startswith (p @ s) p"
  by (simp add: startswith_def)

lemma startswithD: "startswith s p \<Longrightarrow> s = p @ drop (length p) s"
  by (metis append_take_drop_id startswith_def)

lemma startswith_iff: "startswith s p \<longleftrightarrow> (\<exists>t. s = p @ t)"
  by (metis startswithD startswith_append)

lemma endswith_append [simp]: "endswith (s @ p) p"
  by (simp add: endswith_def)

lemma endswithD: "endswith s p \<Longrightarrow> s = strip_suffix s p @ p"
  by (metis append_take_drop_id endswith_def strip_suffix_def)

lemma endswith_iff: "endswith s p \<longleftrightarrow> (\<exists>t. s = t @ p)"
  by (metis endswithD endswith_append)

lemma strip_suffix_append [simp]: "strip_suffix (s @ p) p = s"
  by (simp add: strip_suffix_def)

lemma split_first_SomeD: "split_first sep s = Some (a, b) \<Longrightarrow> s = a @ sep @ b"
proof (induction s arbitrary: a b)
  case Nil
  then show ?case by (simp split: if_splits)
next
  case (Cons c cs)
  then show ?case
    by (auto split: if_splits dest: startswithD)
qed

lemma split_first_length:
  "split_first sep s = Some (a, b) \<Longrightarrow> length a + length b + length sep = length s"
  by (drule split_first_SomeD) simp

lemma contains_iff: "contains sep s \<longleftrightarrow> sublist sep s"
proof
  assume "contains sep s"
  then obtain a b where "split_first sep s = Some (a, b)" by (auto simp: contains_def)
  then show "sublist sep s" by (metis split_first_SomeD sublist_appendI)
next
  assume "sublist sep s"
  then show "contains sep s"
  proof (induction s)
    case Nil
    then show ?case by (simp add: contains_def)
  next
    case (Cons c cs)
    from Cons.prems consider "prefix sep (c # cs)" | "sublist sep cs"
      by (auto simp: sublist_Cons_right)
    then show ?case
    proof cases
      case 1
      then have "startswith (c # cs) sep" by (auto simp: startswith_iff prefix_def)
      then show ?thesis by (simp add: contains_def)
    next
      case 2
      then have "contains sep cs" by (rule Cons.IH)
      then show ?thesis by (auto simp: contains_def)
    qed
  qed
qed

lemma not_contains_split: "\<not> contains sep s \<Longrightarrow> split_first sep s = None"
  by (cases "split_first sep s") (auto simp: contains_def)

text \<open>
  The split at the first separator finds the intended one when no separator starts inside the left
  part, even one that overlaps the separator itself.
\<close>

lemma split_first_append:
  assumes "\<And>i. i < length a \<Longrightarrow> \<not> startswith (drop i (a @ sep @ b)) sep"
  shows "split_first sep (a @ sep @ b) = Some (a, b)"
  using assms
proof (induction a)
  case Nil
  show ?case
  proof (cases "sep @ b")
    case Nil
    then show ?thesis by simp
  next
    case (Cons c cs)
    then have "startswith (c # cs) sep" "drop (length sep) (c # cs) = b"
      by (metis startswith_append) (metis Cons append_eq_conv_conj)
    then show ?thesis using Cons by simp
  qed
next
  case (Cons c a)
  have "\<not> startswith (c # (a @ sep @ b)) sep"
    using Cons.prems [of 0] by simp
  moreover have "split_first sep (a @ sep @ b) = Some (a, b)"
  proof (rule Cons.IH)
    fix i assume "i < length a"
    then show "\<not> startswith (drop i (a @ sep @ b)) sep" using Cons.prems [of "Suc i"] by simp
  qed
  ultimately show ?case by simp
qed

lemma split_on_not_Nil [simp]: "split_on c s \<noteq> []"
  by (induction s) (auto split: list.splits)

lemma split_on_no_sep: "c \<notin> set s \<Longrightarrow> split_on c s = [s]"
  by (induction s) auto

lemma split_on_append: "c \<notin> set a \<Longrightarrow> split_on c (a @ c # b) = a # split_on c b"
  by (induction a) auto

section \<open>Decimal numbers\<close>

definition is_digit :: "char \<Rightarrow> bool" where
  "is_digit c = (48 \<le> (of_char c :: nat) \<and> (of_char c :: nat) \<le> 57)"

definition digit_val :: "char \<Rightarrow> nat" where
  "digit_val c = of_char c - 48"

definition digit_char :: "nat \<Rightarrow> char" where
  "digit_char d = char_of (48 + d)"

definition digit_text :: "string \<Rightarrow> bool" where
  "digit_text s = list_all is_digit s"

definition num_val :: "string \<Rightarrow> nat" where
  "num_val s = foldl (\<lambda>n c. 10 * n + digit_val c) 0 s"

text \<open>\<open>f"{n:0wd}"\<close>: at least \<open>w\<close> characters, zero padded, the sign counted in the width.\<close>

fun nat_text :: "nat \<Rightarrow> string" where
  "nat_text n = (if n < 10 then [digit_char n] else nat_text (n div 10) @ [digit_char (n mod 10)])"

declare nat_text.simps [simp del]

definition pad_nat :: "nat \<Rightarrow> nat \<Rightarrow> string" where
  "pad_nat w n = replicate (w - length (nat_text n)) (CHR ''0'') @ nat_text n"

definition fmt_int :: "nat \<Rightarrow> int \<Rightarrow> string" where
  "fmt_int w i = (if i < 0 then CHR ''-'' # pad_nat (w - 1) (nat (- i)) else pad_nat w (nat i))"

text \<open>
  \<open>int(s)\<close>: surrounding white space, one sign, digits with single underscores between digits;
  anything else is a \<open>ValueError\<close>, here \<^const>\<open>None\<close>.
\<close>

definition int_digits :: "string \<Rightarrow> string option" where
  "int_digits s =
     (if s \<noteq> [] \<and> list_all (\<lambda>w. w \<noteq> [] \<and> digit_text w) (split_on (CHR ''_'') s)
      then Some (concat (split_on (CHR ''_'') s)) else None)"

definition py_int :: "string \<Rightarrow> int option" where
  "py_int s =
     (case strip s of
        [] \<Rightarrow> None
      | c # cs \<Rightarrow>
          if c = CHR ''-'' then map_option (\<lambda>d. - int (num_val d)) (int_digits cs)
          else if c = CHR ''+'' then map_option (\<lambda>d. int (num_val d)) (int_digits cs)
          else map_option (\<lambda>d. int (num_val d)) (int_digits (c # cs)))"

lemma is_digit_digit_char [simp]: "d < 10 \<Longrightarrow> is_digit (digit_char d)"
  by (simp add: is_digit_def digit_char_def)

lemma digit_val_digit_char [simp]: "d < 10 \<Longrightarrow> digit_val (digit_char d) = d"
  by (simp add: digit_val_def digit_char_def)

lemma digit_char_digit_val [simp]: "is_digit c \<Longrightarrow> digit_char (digit_val c) = c"
  by (simp add: is_digit_def digit_val_def digit_char_def)

lemma digit_val_less: "is_digit c \<Longrightarrow> digit_val c < 10"
  unfolding is_digit_def digit_val_def by linarith

lemma digit_char_0: "digit_char 0 = CHR ''0''"
  by (simp add: digit_char_def) (code_simp)

lemma digit_val_zero [simp]: "digit_val (CHR ''0'') = 0"
  by code_simp

lemma is_digit_zero [simp]: "is_digit (CHR ''0'')"
  by code_simp

lemma digit_text_Nil [simp]: "digit_text []"
  by (simp add: digit_text_def)

lemma digit_text_Cons [simp]: "digit_text (c # s) \<longleftrightarrow> is_digit c \<and> digit_text s"
  by (simp add: digit_text_def)

lemma digit_text_append [simp]: "digit_text (s @ t) \<longleftrightarrow> digit_text s \<and> digit_text t"
  by (simp add: digit_text_def)

lemma digit_text_replicate_zero [simp]: "digit_text (replicate k (CHR ''0''))"
  by (induction k) auto

lemma num_val_Nil [simp]: "num_val [] = 0"
  by (simp add: num_val_def)

lemma num_val_foldl: "foldl (\<lambda>n c. 10 * n + digit_val c) a s = a * 10 ^ length s + num_val s"
proof (induction s arbitrary: a)
  case Nil
  then show ?case by simp
next
  case (Cons c s)
  have "num_val (c # s) = digit_val c * 10 ^ length s + num_val s"
    using Cons.IH [of "digit_val c"] by (simp add: num_val_def)
  moreover have "foldl (\<lambda>n c. 10 * n + digit_val c) a (c # s)
      = (10 * a + digit_val c) * 10 ^ length s + num_val s"
    using Cons.IH [of "10 * a + digit_val c"] by simp
  ultimately show ?case by (simp add: algebra_simps)
qed

lemma num_val_Cons: "num_val (c # s) = digit_val c * 10 ^ length s + num_val s"
  using num_val_foldl [of "digit_val c" s] by (simp add: num_val_def)

lemma num_val_append: "num_val (s @ t) = num_val s * 10 ^ length t + num_val t"
  using num_val_foldl [of "num_val s" t] by (simp add: num_val_def)

lemma num_val_bound: "digit_text s \<Longrightarrow> num_val s < 10 ^ length s"
proof (induction s)
  case Nil
  then show ?case by simp
next
  case (Cons c s)
  then have "digit_val c < 10" "num_val s < 10 ^ length s" by (auto dest: digit_val_less)
  then have "digit_val c * 10 ^ length s + num_val s < (digit_val c + 1) * 10 ^ length s" by simp
  also have "\<dots> \<le> 10 * 10 ^ length s" using \<open>digit_val c < 10\<close> by (intro mult_right_mono) auto
  finally show ?case by (simp add: num_val_Cons)
qed

lemma num_val_replicate_zero [simp]: "num_val (replicate k (CHR ''0'')) = 0"
  by (induction k) (auto simp: num_val_Cons)

lemma digit_text_nat_text [simp]: "digit_text (nat_text n)"
proof (induction n rule: nat_text.induct)
  case (1 n)
  then show ?case by (subst nat_text.simps) auto
qed

lemma num_val_nat_text [simp]: "num_val (nat_text n) = n"
proof (induction n rule: nat_text.induct)
  case (1 n)
  then show ?case by (subst nat_text.simps) (auto simp: num_val_append num_val_Cons)
qed

lemma nat_text_digit: "n < 10 \<Longrightarrow> nat_text n = [digit_char n]"
  by (subst nat_text.simps) simp

lemma nat_text_not_Nil [simp]: "nat_text n \<noteq> []"
  by (subst nat_text.simps) simp

lemma length_nat_text: "0 < w \<Longrightarrow> n < 10 ^ w \<Longrightarrow> length (nat_text n) \<le> w"
proof (induction n arbitrary: w rule: nat_text.induct)
  case (1 n)
  show ?case
  proof (cases "n < 10")
    case True
    with "1.prems" show ?thesis by (subst nat_text.simps) simp
  next
    case False
    with "1.prems" obtain v where v: "w = Suc v" "0 < v"
      by (cases w; cases "w - 1") auto
    with "1.prems" have "n div 10 < 10 ^ v" by auto
    with "1.IH" [OF False \<open>0 < v\<close>] v False show ?thesis by (subst nat_text.simps) simp
  qed
qed

lemma digit_text_pad_nat [simp]: "digit_text (pad_nat w n)"
  by (simp add: pad_nat_def)

lemma num_val_pad_nat [simp]: "num_val (pad_nat w n) = n"
  by (simp add: pad_nat_def num_val_append)

lemma length_pad_nat: "0 < w \<Longrightarrow> n < 10 ^ w \<Longrightarrow> length (pad_nat w n) = w"
  by (simp add: pad_nat_def length_nat_text)

lemma pad_nat_not_Nil [simp]: "pad_nat w n \<noteq> []"
  by (simp add: pad_nat_def)

text \<open>Texts of digits of one width are determined by, and ordered as, their numbers.\<close>

lemma num_val_inj:
  "digit_text s \<Longrightarrow> digit_text t \<Longrightarrow> length s = length t \<Longrightarrow> num_val s = num_val t \<Longrightarrow> s = t"
proof (induction s arbitrary: t)
  case Nil
  then show ?case by simp
next
  case (Cons c s)
  then obtain d u where t: "t = d # u" by (cases t) auto
  let ?B = "10 ^ length s :: nat"
  have lens: "length u = length s" using Cons.prems t by simp
  have b: "num_val s < ?B" "num_val u < ?B"
    using Cons.prems t num_val_bound [of s] num_val_bound [of u] lens by auto
  have eq: "digit_val c * ?B + num_val s = digit_val d * ?B + num_val u"
    using Cons.prems t lens by (simp add: num_val_Cons)
  have "digit_val c = digit_val d"
    using arg_cong [OF eq, of "\<lambda>x. x div ?B"] b by simp
  moreover from this eq have "num_val s = num_val u" by simp
  ultimately show ?case
    using Cons.IH [of u] Cons.prems t lens digit_char_digit_val by (metis digit_text_Cons)
qed

lemma is_digit_less_iff:
  "is_digit c \<Longrightarrow> is_digit d \<Longrightarrow> c < d \<longleftrightarrow> digit_val c < digit_val d"
  by (simp add: is_digit_def digit_val_def less_char_def; linarith)

lemma num_val_less_iff:
  "digit_text s \<Longrightarrow> digit_text t \<Longrightarrow> length s = length t \<Longrightarrow> s < t \<longleftrightarrow> num_val s < num_val t"
proof (induction s arbitrary: t)
  case Nil
  then show ?case by simp
next
  case (Cons c s)
  then obtain d u where t: "t = d # u" by (cases t) auto
  let ?B = "10 ^ length s :: nat"
  have lens: "length u = length s" using Cons.prems t by simp
  have b: "num_val s < ?B" "num_val u < ?B"
    using Cons.prems t num_val_bound [of s] num_val_bound [of u] lens by auto
  have digs: "is_digit c" "is_digit d" using Cons.prems t by auto
  have IH: "s < u \<longleftrightarrow> num_val s < num_val u" using Cons.IH [of u] Cons.prems t lens by simp
  consider "digit_val c < digit_val d" | "digit_val d < digit_val c" | "digit_val c = digit_val d"
    by linarith
  then show ?case
  proof cases
    case 1
    then have "(digit_val c + 1) * ?B \<le> digit_val d * ?B" by (intro mult_right_mono) auto
    then show ?thesis using 1 b digs lens t
      by (simp add: num_val_Cons is_digit_less_iff algebra_simps)
  next
    case 2
    then have "(digit_val d + 1) * ?B \<le> digit_val c * ?B" by (intro mult_right_mono) auto
    moreover have "\<not> c < d" "c \<noteq> d" using 2 digs by (auto simp: is_digit_less_iff)
    ultimately show ?thesis using b lens t
      by (simp add: num_val_Cons algebra_simps)
  next
    case 3
    then have "c = d" using digs digit_char_digit_val by metis
    then show ?thesis using IH lens t by (simp add: num_val_Cons)
  qed
qed

lemma append_less_iff:
  fixes a b c d :: "'a::linorder list"
  assumes "length a = length c"
  shows "a @ b < c @ d \<longleftrightarrow> a < c \<or> (a = c \<and> b < d)"
  using assms
proof (induction a arbitrary: c)
  case Nil
  then show ?case by simp
next
  case (Cons x a)
  then obtain y c' where "c = y # c'" by (cases c) auto
  with Cons show ?case by auto
qed

lemma num_val_pad: "digit_text s \<Longrightarrow> 0 < length s \<Longrightarrow> pad_nat (length s) (num_val s) = s"
  by (rule num_val_inj) (simp_all add: length_pad_nat num_val_bound)

lemma is_digit_not_space: "is_digit c \<Longrightarrow> \<not> is_space c"
  by (auto simp: is_digit_def is_space_def)

lemma is_digit_neq:
  "is_digit c \<Longrightarrow> c \<noteq> CHR ''_''" "is_digit c \<Longrightarrow> c \<noteq> CHR ''-''" "is_digit c \<Longrightarrow> c \<noteq> CHR ''+''"
  by (auto simp: is_digit_def)

lemma strip_digit_text: "digit_text s \<Longrightarrow> strip s = s"
proof -
  assume d: "digit_text s"
  then have "dropWhile is_space s = s"
    by (cases s) (auto dest: is_digit_not_space)
  moreover have "dropWhile is_space (rev s) = rev s"
    using d by (cases "rev s") (auto simp: digit_text_def list_all_iff dest: is_digit_not_space
        intro!: dropWhile_eq_self_iff [THEN iffD2])
  ultimately show ?thesis by (simp add: strip_def)
qed

lemma digit_text_no_underscore: "digit_text s \<Longrightarrow> CHR ''_'' \<notin> set s"
  by (auto simp: digit_text_def list_all_iff dest: is_digit_neq)

lemma py_int_digit_text:
  assumes "digit_text s" and "s \<noteq> []"
  shows "py_int s = Some (int (num_val s))"
proof -
  obtain c cs where s: "s = c # cs" using assms by (cases s) auto
  with assms have "c \<noteq> CHR ''-''" "c \<noteq> CHR ''+''" by (auto dest: is_digit_neq)
  moreover have "int_digits s = Some s"
    using assms by (simp add: int_digits_def split_on_no_sep digit_text_no_underscore)
  ultimately show ?thesis using assms(1) s
    by (simp add: py_int_def strip_digit_text)
qed

section \<open>Fixed-width patterns\<close>

text \<open>
  The regular expressions \<open>^...$\<close> the program applies with \<open>re.match\<close> to codes of fixed shape.
  \<^term>\<open>RDigits n\<close> is a captured group of \<open>n\<close> digits, \<^term>\<open>RClass lo hi\<close> a captured one-character class,
  \<^term>\<open>RLit c\<close> a literal character. \<open>$\<close> matches at the end and before a final newline.
\<close>

datatype rpat = RDigits nat | RClass char char | RLit char

definition at_end :: "string \<Rightarrow> bool" where
  "at_end s = (s = [] \<or> s = [CHR 0x0A])"

fun re_match :: "rpat list \<Rightarrow> string \<Rightarrow> string list option" where
  "re_match [] s = (if at_end s then Some [] else None)"
| "re_match (RLit c # ps) s =
     (case s of [] \<Rightarrow> None | x # xs \<Rightarrow> if x = c then re_match ps xs else None)"
| "re_match (RClass lo hi # ps) s =
     (case s of [] \<Rightarrow> None
      | x # xs \<Rightarrow> if lo \<le> x \<and> x \<le> hi then map_option (Cons [x]) (re_match ps xs) else None)"
| "re_match (RDigits n # ps) s =
     (if n \<le> length s \<and> digit_text (take n s)
      then map_option (Cons (take n s)) (re_match ps (drop n s)) else None)"

text \<open>The text a pattern and its captured groups stand for.\<close>

fun re_text :: "rpat list \<Rightarrow> string list \<Rightarrow> string" where
  "re_text (RLit c # ps) gs = c # re_text ps gs"
| "re_text (RClass lo hi # ps) (g # gs) = g @ re_text ps gs"
| "re_text (RDigits n # ps) (g # gs) = g @ re_text ps gs"
| "re_text _ _ = []"

lemma re_match_text:
  "re_match ps s = Some gs \<Longrightarrow> s = re_text ps gs \<or> s = re_text ps gs @ [CHR 0x0A]"
proof (induction ps s arbitrary: gs rule: re_match.induct)
  case (1 s)
  then show ?case by (auto simp: at_end_def split: if_splits)
next
  case (2 c ps s)
  then show ?case by (auto split: list.splits if_splits)
next
  case (3 lo hi ps s)
  then obtain x xs gs' where "s = x # xs" "re_match ps xs = Some gs'" "gs = [x] # gs'" "lo \<le> x \<and> x \<le> hi"
    by (auto split: list.splits if_splits)
  then show ?case using "3.IH" [of x xs gs'] by auto
next
  case (4 n ps s)
  from "4.prems" obtain gs' where gs: "gs = take n s # gs'" "re_match ps (drop n s) = Some gs'"
    and c: "n \<le> length s \<and> digit_text (take n s)"
    by (auto split: if_splits)
  have "drop n s = re_text ps gs' \<or> drop n s = re_text ps gs' @ [CHR 0x0A]"
    using c gs(2) by (rule "4.IH")
  then show ?case using gs(1) by (metis append.assoc append_take_drop_id re_text.simps(3))
qed

lemma re_match_length:
  "re_match ps s = Some gs \<Longrightarrow> length gs = length (filter (\<lambda>p. case p of RLit _ \<Rightarrow> False | _ \<Rightarrow> True) ps)"
  by (induction ps s arbitrary: gs rule: re_match.induct) (auto split: list.splits if_splits)

end
