(* ===== verification/Periods.thy ===== *)
theory Periods
  imports PyText
begin

text \<open>
  Period codes and their arithmetic: the grammars of \<open>engine/period_codes.py\<close>, the shifts of
  \<open>engine/resolver.py\<close> (\<open>shift_period\<close>, \<open>shift_year\<close>, \<open>step_period\<close>) and the inverse shift of a
  result axis in \<open>engine/retriever.py\<close> (\<open>_shift_time_value\<close>). A code is the text the program
  passes around; \<open>int()\<close> of a slice may raise, which is an error value here. The lemmas show that
  the code order is the calendar order within a grain, that shifts compose and invert on calendar
  codes, and that the inverse remap undoes the shift of a prior-year or prior-period query.
\<close>

section \<open>Grains and grammars\<close>

(* engine/period_codes.py:29-35 Grain *)
datatype grain = DATE | WEEK | MONTH | QUARTER | YEAR

datatype period_error =
    ValueError
  | IndexError
  | CalendarBased grain

(* engine/period_codes.py:29-35 Grain.value *)
fun grain_value :: "grain \<Rightarrow> string" where
  "grain_value DATE = ''date''"
| "grain_value WEEK = ''week''"
| "grain_value MONTH = ''month''"
| "grain_value QUARTER = ''quarter''"
| "grain_value YEAR = ''year''"

(* engine/period_codes.py:38-57 _GRAMMARS *)
definition GRAMMARS :: "(grain \<times> rpat list) list" where
  "GRAMMARS =
     [(DATE, [RDigits 4, RLit (CHR ''-''), RDigits 2, RLit (CHR ''-''), RDigits 2]),
      (WEEK, [RDigits 4, RLit (CHR ''-''), RLit (CHR ''W''), RDigits 2]),
      (MONTH, [RDigits 4, RLit (CHR ''-''), RDigits 2]),
      (QUARTER, [RDigits 4, RLit (CHR ''-''), RLit (CHR ''Q''), RClass (CHR ''1'') (CHR ''4'')]),
      (YEAR, [RDigits 4])]"

(* engine/period_codes.py:60-65 PeriodCode *)
record period_code =
  pc_grain :: grain
  pc_raw :: string
  pc_components :: "int list"

(* engine/period_codes.py:74-77 detect_grain *)
fun detect_from :: "(grain \<times> rpat list) list \<Rightarrow> string \<Rightarrow> grain option" where
  "detect_from [] code = None"
| "detect_from ((g, ps) # rest) code =
     (if re_match ps code \<noteq> None then Some g else detect_from rest code)"

(* engine/period_codes.py:72-77 detect_grain *)
definition detect_grain :: "string \<Rightarrow> grain option" where
  "detect_grain code = detect_from GRAMMARS code"

text \<open>The named groups of every grammar are its components in big-endian order.\<close>

(* engine/period_codes.py:82-87 parse *)
fun parse_from :: "(grain \<times> rpat list) list \<Rightarrow> string \<Rightarrow> period_code option" where
  "parse_from [] code = None"
| "parse_from ((g, ps) # rest) code =
     (case re_match ps code of
        Some gs \<Rightarrow> Some \<lparr>pc_grain = g, pc_raw = code, pc_components = map (\<lambda>w. int (num_val w)) gs\<rparr>
      | None \<Rightarrow> parse_from rest code)"

(* engine/period_codes.py:80-87 parse *)
definition parse_period :: "string \<Rightarrow> period_code option" where
  "parse_period code = parse_from GRAMMARS code"

(* engine/period_codes.py:67-69 PeriodCode.year *)
definition pc_year :: "period_code \<Rightarrow> int" where
  "pc_year p = hd (pc_components p)"

(* engine/resolver.py:180-184 _GRAIN_RANK *)
fun grain_rank :: "grain \<Rightarrow> nat" where
  "grain_rank DATE = 0"
| "grain_rank WEEK = 1"
| "grain_rank MONTH = 2"
| "grain_rank QUARTER = 3"
| "grain_rank YEAR = 4"

lemma grain_rank_inj [simp]: "grain_rank g = grain_rank h \<longleftrightarrow> g = h"
  by (cases g; cases h) simp_all

text \<open>The fineness order of the grains, finest first (\<open>_GRAIN_RANK\<close>).\<close>

instantiation grain :: linorder
begin

definition less_eq_grain :: "grain \<Rightarrow> grain \<Rightarrow> bool" where
  "less_eq_grain g h = (grain_rank g \<le> grain_rank h)"

definition less_grain :: "grain \<Rightarrow> grain \<Rightarrow> bool" where
  "less_grain g h = (grain_rank g < grain_rank h)"

instance
  by standard (auto simp: less_eq_grain_def less_grain_def)

end

text \<open>The pattern of a grain, and the number of characters its codes have.\<close>

fun grammar_of :: "grain \<Rightarrow> rpat list" where
  "grammar_of DATE = [RDigits 4, RLit (CHR ''-''), RDigits 2, RLit (CHR ''-''), RDigits 2]"
| "grammar_of WEEK = [RDigits 4, RLit (CHR ''-''), RLit (CHR ''W''), RDigits 2]"
| "grammar_of MONTH = [RDigits 4, RLit (CHR ''-''), RDigits 2]"
| "grammar_of QUARTER = [RDigits 4, RLit (CHR ''-''), RLit (CHR ''Q''), RClass (CHR ''1'') (CHR ''4'')]"
| "grammar_of YEAR = [RDigits 4]"

fun rpat_width :: "rpat \<Rightarrow> nat" where
  "rpat_width (RDigits n) = n"
| "rpat_width (RClass _ _) = 1"
| "rpat_width (RLit _) = 1"

definition pattern_width :: "rpat list \<Rightarrow> nat" where
  "pattern_width ps = sum_list (map rpat_width ps)"

text \<open>A code without the final newline that \<open>$\<close> lets through.\<close>

definition plain_code :: "string \<Rightarrow> bool" where
  "plain_code s = (s = [] \<or> last s \<noteq> CHR 0x0A)"

lemma re_match_width:
  "re_match ps s = Some gs \<Longrightarrow> length s = pattern_width ps \<or> (length s = Suc (pattern_width ps) \<and> last s = CHR 0x0A)"
proof (induction ps s arbitrary: gs rule: re_match.induct)
  case (1 s)
  then show ?case by (auto simp: pattern_width_def at_end_def split: if_splits)
next
  case (2 c ps s)
  then obtain x xs where s: "s = x # xs" "x = c" "re_match ps xs = Some gs"
    by (auto split: list.splits if_splits)
  with "2.IH" [of x xs gs] show ?case by (auto simp: pattern_width_def)
next
  case (3 lo hi ps s)
  then obtain x xs gs' where s: "s = x # xs" "lo \<le> x \<and> x \<le> hi" "re_match ps xs = Some gs'"
    by (auto split: list.splits if_splits)
  with "3.IH" [of x xs gs'] show ?case by (auto simp: pattern_width_def)
next
  case (4 n ps s)
  then obtain gs' where n: "n \<le> length s \<and> digit_text (take n s)" "re_match ps (drop n s) = Some gs'"
    by (auto split: if_splits)
  then have "length (drop n s) = pattern_width ps
      \<or> (length (drop n s) = Suc (pattern_width ps) \<and> last (drop n s) = CHR 0x0A)"
    by (intro "4.IH")
  with n show ?case by (auto simp: pattern_width_def)
qed

lemma re_match_plain_width:
  "re_match ps s = Some gs \<Longrightarrow> plain_code s \<Longrightarrow> pattern_width ps > 0 \<Longrightarrow> length s = pattern_width ps"
  by (auto dest!: re_match_width simp: plain_code_def)

text \<open>Two codes of one pattern compare as the lists of their groups' numbers.\<close>

lemma num_val_single: "num_val [x] = digit_val x"
  by (simp add: num_val_Cons)

lemma class_digit: "CHR ''1'' \<le> x \<Longrightarrow> x \<le> CHR ''4'' \<Longrightarrow> is_digit x"
proof -
  assume "CHR ''1'' \<le> x" "x \<le> CHR ''4''"
  then have "(49::nat) \<le> of_char x" "of_char x \<le> (52::nat)"
    by (simp_all add: less_eq_char_def)
  then show ?thesis by (simp add: is_digit_def)
qed

definition digit_class :: "rpat \<Rightarrow> bool" where
  "digit_class p = (case p of RClass lo hi \<Rightarrow> lo = CHR ''1'' \<and> hi = CHR ''4'' | _ \<Rightarrow> True)"

lemma re_match_less_iff:
  assumes "re_match ps s = Some gs" and "re_match ps t = Some hs"
    and "length s = pattern_width ps" and "length t = pattern_width ps"
    and "list_all digit_class ps"
  shows "s < t \<longleftrightarrow> map (\<lambda>w. int (num_val w)) gs < map (\<lambda>w. int (num_val w)) hs"
  using assms
proof (induction ps s arbitrary: t gs hs rule: re_match.induct)
  case (1 s)
  then show ?case by (auto simp: pattern_width_def split: if_splits)
next
  case (2 c ps s)
  from "2.prems" obtain xs where s: "s = c # xs" "re_match ps xs = Some gs"
    by (auto split: list.splits if_splits)
  from "2.prems" obtain ys where t: "t = c # ys" "re_match ps ys = Some hs"
    by (auto split: list.splits if_splits)
  have "xs < ys \<longleftrightarrow> map (\<lambda>w. int (num_val w)) gs < map (\<lambda>w. int (num_val w)) hs"
    using "2.prems" s t by (intro "2.IH" [of c xs]) (auto simp: pattern_width_def)
  with s t show ?case by simp
next
  case (3 lo hi ps s)
  from "3.prems" obtain x xs gs' where s: "s = x # xs" "re_match ps xs = Some gs'" "gs = [x] # gs'"
    "lo \<le> x \<and> x \<le> hi" by (auto split: list.splits if_splits)
  from "3.prems" obtain y ys hs' where t: "t = y # ys" "re_match ps ys = Some hs'" "hs = [y] # hs'"
    "lo \<le> y \<and> y \<le> hi" by (auto split: list.splits if_splits)
  have "is_digit x" "is_digit y"
    using "3.prems"(5) s(4) t(4) by (auto simp: digit_class_def intro: class_digit)
  moreover have "xs < ys \<longleftrightarrow> map (\<lambda>w. int (num_val w)) gs' < map (\<lambda>w. int (num_val w)) hs'"
    using "3.prems" s t by (intro "3.IH" [of x xs]) (auto simp: pattern_width_def)
  moreover have "digit_val x = digit_val y \<longleftrightarrow> x = y"
    using \<open>is_digit x\<close> \<open>is_digit y\<close> by (metis digit_char_digit_val)
  ultimately show ?case using s t
    by (simp add: is_digit_less_iff num_val_single)
next
  case (4 n ps s)
  from "4.prems" obtain gs' where s: "n \<le> length s" "digit_text (take n s)"
    "re_match ps (drop n s) = Some gs'" "gs = take n s # gs'" by (auto split: if_splits)
  from "4.prems" obtain hs' where t: "n \<le> length t" "digit_text (take n t)"
    "re_match ps (drop n t) = Some hs'" "hs = take n t # hs'" by (auto split: if_splits)
  have "drop n s < drop n t \<longleftrightarrow> map (\<lambda>w. int (num_val w)) gs' < map (\<lambda>w. int (num_val w)) hs'"
    using "4.prems" s t by (intro "4.IH") (auto simp: pattern_width_def)
  moreover have "take n s < take n t \<longleftrightarrow> num_val (take n s) < num_val (take n t)"
    using s t by (intro num_val_less_iff) auto
  moreover have "num_val (take n s) = num_val (take n t) \<longleftrightarrow> take n s = take n t"
    using s t num_val_inj [of "take n s" "take n t"] by auto
  moreover have "s < t \<longleftrightarrow> take n s < take n t \<or> (take n s = take n t \<and> drop n s < drop n t)"
    using append_less_iff [of "take n s" "take n t" "drop n s" "drop n t"] s t by simp
  ultimately show ?case using s t by simp
qed

lemma detect_grain_matches: "detect_grain s = Some g \<Longrightarrow> \<exists>gs. re_match (grammar_of g) s = Some gs"
  by (auto simp: detect_grain_def GRAMMARS_def split: if_splits)

lemma parse_period_matches:
  "parse_period s = Some p \<Longrightarrow>
     \<exists>gs. re_match (grammar_of (pc_grain p)) s = Some gs
        \<and> pc_components p = map (\<lambda>w. int (num_val w)) gs \<and> pc_raw p = s"
  by (auto simp: parse_period_def GRAMMARS_def split: option.splits)

lemma detect_grain_parse: "detect_grain s = map_option pc_grain (parse_period s)"
  by (auto simp: detect_grain_def parse_period_def GRAMMARS_def split: option.splits)

lemma grammar_of_digit_class: "list_all digit_class (grammar_of g)"
  by (cases g) (simp_all add: digit_class_def)

lemma grammar_width_pos: "pattern_width (grammar_of g) > 0"
  by (cases g) (simp_all add: pattern_width_def)

section \<open>Shifting codes\<close>

text \<open>The f-strings that print a code: \<open>{year:04d}-{month:02d}\<close>, \<open>{year:04d}-Q{quarter}\<close>, \<open>{year:04d}\<close>.\<close>

definition month_code :: "int \<Rightarrow> int \<Rightarrow> string" where
  "month_code y m = fmt_int 4 y @ ''-'' @ fmt_int 2 m"

definition quarter_code :: "int \<Rightarrow> int \<Rightarrow> string" where
  "quarter_code y q = fmt_int 4 y @ ''-Q'' @ fmt_int 0 q"

definition year_code :: "int \<Rightarrow> string" where
  "year_code y = fmt_int 4 y"

definition int_of :: "string \<Rightarrow> (period_error, int) res" where
  "int_of s = res_of_option ValueError (py_int s)"

(* engine/resolver.py:160-165 shift_period *)
definition shift_period :: "string \<Rightarrow> int \<Rightarrow> (period_error, string) res" where
  "shift_period period months =
     res_bind (int_of (take 4 period)) (\<lambda>year.
     res_bind (int_of (take 2 (drop 5 period))) (\<lambda>month.
       let total_months = year * 12 + (month - 1) + months;
           new_year = total_months div 12;
           new_month = total_months mod 12
       in Inr (month_code new_year (new_month + 1))))"

(* engine/resolver.py:168-173 shift_year *)
definition shift_year :: "string \<Rightarrow> int \<Rightarrow> (period_error, string) res" where
  "shift_year code years =
     res_bind (int_of (take 4 code)) (\<lambda>y. Inr (fmt_int 4 (y + years) @ drop 4 code))"

(* engine/resolver.py:176-179 _STEP_MONTHS *)
fun STEP_MONTHS :: "grain \<Rightarrow> int option" where
  "STEP_MONTHS MONTH = Some 1"
| "STEP_MONTHS QUARTER = Some 3"
| "STEP_MONTHS YEAR = Some 12"
| "STEP_MONTHS _ = None"

(* engine/resolver.py:187-208 step_period *)
fun step_period :: "string \<Rightarrow> grain \<Rightarrow> int \<Rightarrow> (period_error, string) res" where
  "step_period code MONTH steps = shift_period code steps"
| "step_period code QUARTER steps =
     res_bind (int_of (take 4 code)) (\<lambda>year.
     res_bind (res_guard (6 < length code) IndexError) (\<lambda>_.
     res_bind (int_of [code ! 6]) (\<lambda>quarter.
       let t = year * 4 + (quarter - 1) + steps;
           new_year = t div 4; new_q = t mod 4
       in Inr (quarter_code new_year (new_q + 1)))))"
| "step_period code YEAR steps =
     res_bind (int_of code) (\<lambda>y. Inr (year_code (y + steps)))"
| "step_period code g steps = Inl (CalendarBased g)"

text \<open>
  The inverse shift of one result axis (\<open>_shift_time_value\<close>): months for \<open>period\<close>, the month of the
  quarter or year start for the coarser axes, whole years for \<open>week\<close> and \<open>day\<close>; any other axis is
  left alone.
\<close>

(* engine/retriever.py:1008-1044 _shift_time_value *)
definition shift_time_value :: "string \<Rightarrow> string \<Rightarrow> int \<Rightarrow> (period_error, string) res" where
  "shift_time_value value dim_name offset_months =
     (if dim_name = ''week'' \<or> dim_name = ''day'' then shift_year value (offset_months div 12)
      else if dim_name = ''period'' then shift_period value offset_months
      else if dim_name = ''quarter'' then
        (case re_match (grammar_of QUARTER) value of
           Some [y, q] \<Rightarrow>
             let start_month = (int (num_val q) - 1) * 3 + 1 in
             res_bind (shift_period (month_code (int (num_val y)) start_month) offset_months)
               (\<lambda>shifted.
             res_bind (int_of (take 4 shifted)) (\<lambda>new_year.
             res_bind (int_of (take 2 (drop 5 shifted))) (\<lambda>new_month.
               Inr (quarter_code new_year ((new_month - 1) div 3 + 1)))))
         | _ \<Rightarrow> Inr value)
      else if dim_name = ''fiscal_year'' then
        (case re_match (grammar_of YEAR) value of
           Some [y] \<Rightarrow>
             res_bind (shift_period (month_code (int (num_val y)) 1) offset_months)
               (\<lambda>shifted. Inr (take 4 shifted))
         | _ \<Rightarrow> Inr value)
      else Inr value)"

section \<open>Calendar codes\<close>

text \<open>The month a calendar month code denotes, counted from January of year 0, and back.\<close>

definition month_index :: "int \<Rightarrow> int \<Rightarrow> int" where
  "month_index y m = y * 12 + (m - 1)"

definition index_code :: "int \<Rightarrow> string" where
  "index_code t = month_code (t div 12) (t mod 12 + 1)"

abbreviation year_range :: "int \<Rightarrow> bool" where
  "year_range y \<equiv> 0 \<le> y \<and> y < 10000"

lemma fmt4: "year_range y \<Longrightarrow> length (fmt_int 4 y) = 4 \<and> digit_text (fmt_int 4 y) \<and> num_val (fmt_int 4 y) = nat y"
  using length_pad_nat [of 4 "nat y"] by (auto simp: fmt_int_def)

lemma fmt2: "0 \<le> m \<and> m < 100 \<Longrightarrow> length (fmt_int 2 m) = 2 \<and> digit_text (fmt_int 2 m) \<and> num_val (fmt_int 2 m) = nat m"
  using length_pad_nat [of 2 "nat m"] by (auto simp: fmt_int_def)

lemma fmt0_digit: "0 \<le> q \<and> q < 10 \<Longrightarrow> fmt_int 0 q = [digit_char (nat q)]"
  using nat_text_digit [of "nat q"] by (auto simp: fmt_int_def pad_nat_def)

lemma int_of_digits: "digit_text s \<Longrightarrow> s \<noteq> [] \<Longrightarrow> int_of s = Inr (int (num_val s))"
  by (simp add: int_of_def py_int_digit_text)

lemma int_of_fmt4 [simp]: "year_range y \<Longrightarrow> int_of (fmt_int 4 y) = Inr y"
  using fmt4 [of y] by (subst int_of_digits) auto

lemma int_of_fmt2 [simp]: "0 \<le> m \<and> m < 100 \<Longrightarrow> int_of (fmt_int 2 m) = Inr m"
  using fmt2 [of m] by (subst int_of_digits) auto

lemma int_of_digit_char [simp]: "d < 10 \<Longrightarrow> int_of [digit_char d] = Inr (int d)"
  by (subst int_of_digits) (simp_all add: num_val_single)

lemma length_fmt [simp]:
  "year_range y \<Longrightarrow> length (fmt_int 4 y) = 4"
  "0 \<le> m \<and> m < 100 \<Longrightarrow> length (fmt_int 2 m) = 2"
  using fmt4 fmt2 by auto

lemma month_code_parts [simp]:
  assumes "year_range y" and "0 \<le> m \<and> m < 100"
  shows "int_of (take 4 (month_code y m)) = Inr y"
    and "int_of (take 2 (drop 5 (month_code y m))) = Inr m"
    and "take 4 (month_code y m) = fmt_int 4 y"
proof -
  have "take 4 (month_code y m) = fmt_int 4 y" "take 2 (drop 5 (month_code y m)) = fmt_int 2 m"
    using fmt4 [OF assms(1)] fmt2 [OF assms(2)] by (simp_all add: month_code_def)
  then show "int_of (take 4 (month_code y m)) = Inr y"
    and "int_of (take 2 (drop 5 (month_code y m))) = Inr m"
    and "take 4 (month_code y m) = fmt_int 4 y"
    using assms by simp_all
qed

lemma shift_period_month_code:
  assumes "year_range y" and "0 \<le> m \<and> m < 100"
  shows "shift_period (month_code y m) k = Inr (index_code (month_index y m + k))"
  using assms by (simp add: shift_period_def index_code_def month_index_def Let_def)

lemma index_code_month_index: "1 \<le> m \<and> m \<le> 12 \<Longrightarrow> index_code (month_index y m) = month_code y m"
proof -
  assume m: "1 \<le> m \<and> m \<le> 12"
  have "(y * 12 + (m - 1)) div 12 = y" "(y * 12 + (m - 1)) mod 12 = m - 1"
    using m by (simp_all add: mod_pos_pos_trivial)
  then show ?thesis by (simp add: index_code_def month_index_def)
qed

lemma index_range: "0 \<le> t \<and> t < 120000 \<Longrightarrow> year_range (t div 12) \<and> 1 \<le> t mod 12 + 1 \<and> t mod 12 + 1 \<le> 12"
  by (auto simp: pos_imp_zdiv_nonneg_iff)

lemma shift_period_index_code:
  assumes "0 \<le> t \<and> t < 120000"
  shows "shift_period (index_code t) k = Inr (index_code (t + k))"
proof -
  have "shift_period (index_code t) k = Inr (index_code (month_index (t div 12) (t mod 12 + 1) + k))"
    unfolding index_code_def [of t] using index_range [OF assms]
    by (intro shift_period_month_code) auto
  moreover have "month_index (t div 12) (t mod 12 + 1) = t"
    by (simp add: month_index_def)
  ultimately show ?thesis by simp
qed

lemma re_match_month_code:
  assumes "year_range y" and "0 \<le> m \<and> m < 100"
  shows "re_match (grammar_of MONTH) (month_code y m) = Some [fmt_int 4 y, fmt_int 2 m]"
  using fmt4 [OF assms(1)] fmt2 [OF assms(2)] by (simp add: month_code_def at_end_def)

lemma num_val_fmt [simp]:
  "year_range y \<Longrightarrow> num_val (fmt_int 4 y) = nat y"
  "0 \<le> m \<and> m < 100 \<Longrightarrow> num_val (fmt_int 2 m) = nat m"
  using fmt4 fmt2 by auto

lemma digit_char_class: "1 \<le> q \<and> q \<le> 4 \<Longrightarrow> CHR ''1'' \<le> digit_char (nat q) \<and> digit_char (nat q) \<le> CHR ''4''"
proof -
  assume "1 \<le> q \<and> q \<le> 4"
  then have "q \<in> {1, 2, 3, 4}" by auto
  then show ?thesis by (auto simp: digit_char_def less_eq_char_def)
qed

lemma re_match_quarter_code:
  assumes "year_range y" and "1 \<le> q \<and> q \<le> 4"
  shows "re_match (grammar_of QUARTER) (quarter_code y q) = Some [fmt_int 4 y, [digit_char (nat q)]]"
  using fmt4 [OF assms(1)] assms(2) digit_char_class [OF assms(2)]
  by (simp add: quarter_code_def fmt0_digit at_end_def)

lemma re_match_year_code:
  "year_range y \<Longrightarrow> re_match (grammar_of YEAR) (year_code y) = Some [fmt_int 4 y]"
  using fmt4 [of y] by (simp add: year_code_def at_end_def)

lemma quarter_of_start_month:
  fixes y q k :: int
  shows "month_index y ((q - 1) * 3 + 1) + 3 * k
    = month_index ((y * 4 + (q - 1) + k) div 4) ((y * 4 + (q - 1) + k) mod 4 * 3 + 1)"
proof -
  have "12 * (t div 4) + 3 * (t mod 4) = 3 * t" for t :: int by presburger
  from this [of "y * 4 + (q - 1) + k"] show ?thesis
    unfolding month_index_def by (simp add: algebra_simps)
qed

text \<open>A shifted quarter axis: three months per step, whatever the year borrow.\<close>

lemma shift_time_value_quarter:
  assumes "year_range y" and "1 \<le> q \<and> q \<le> 4" and "year_range ((y * 4 + (q - 1) + k) div 4)"
  shows "shift_time_value (quarter_code y q) ''quarter'' (3 * k) =
    Inr (quarter_code ((y * 4 + (q - 1) + k) div 4) ((y * 4 + (q - 1) + k) mod 4 + 1))"
proof -
  define d m where "d = (y * 4 + (q - 1) + k) div 4" and "m = (y * 4 + (q - 1) + k) mod 4 * 3 + 1"
  have m: "0 \<le> m \<and> m < 100" "1 \<le> m \<and> m \<le> 12" "(m - 1) div 3 = (y * 4 + (q - 1) + k) mod 4"
    by (auto simp: m_def)
  have "shift_period (month_code y ((q - 1) * 3 + 1)) (3 * k) = Inr (index_code (month_index d m))"
    using assms quarter_of_start_month [of y q k]
    by (subst shift_period_month_code) (auto simp: d_def m_def)
  then have sp: "shift_period (month_code y ((q - 1) * 3 + 1)) (3 * k) = Inr (month_code d m)"
    using m(2) by (simp add: index_code_month_index)
  have "nat q < 10" using assms(2) by auto
  then have q: "int (digit_val (digit_char (nat q))) = q" using assms(2) by simp
  show ?thesis
    using assms(1,3) m q sp re_match_quarter_code [OF assms(1,2)]
    by (simp add: shift_time_value_def num_val_single d_def [symmetric] Let_def del: grammar_of.simps)
qed

lemma shift_time_value_year:
  assumes "year_range y" and "year_range (y + k)"
  shows "shift_time_value (year_code y) ''fiscal_year'' (12 * k) = Inr (year_code (y + k))"
proof -
  have "shift_period (month_code y 1) (12 * k) = Inr (index_code (month_index (y + k) 1))"
    using assms(1) by (subst shift_period_month_code) (auto simp: month_index_def algebra_simps)
  then have "shift_period (month_code y 1) (12 * k) = Inr (month_code (y + k) 1)"
    by (simp add: index_code_month_index)
  then show ?thesis
    using assms re_match_year_code [OF assms(1)]
    by (simp add: shift_time_value_def del: grammar_of.simps) (simp add: year_code_def)
qed

lemma shift_year_prefix:
  "year_range y \<Longrightarrow> shift_year (fmt_int 4 y @ r) k = Inr (fmt_int 4 (y + k) @ r)"
  by (simp add: shift_year_def)

lemma step_period_quarter:
  assumes "year_range y" and "1 \<le> q \<and> q \<le> 4"
  shows "step_period (quarter_code y q) QUARTER k =
    Inr (quarter_code ((y * 4 + (q - 1) + k) div 4) ((y * 4 + (q - 1) + k) mod 4 + 1))"
proof -
  have "length (quarter_code y q) = 7" "quarter_code y q ! 6 = digit_char (nat q)"
    using fmt4 [OF assms(1)] assms(2) by (simp_all add: quarter_code_def fmt0_digit nth_append)
  moreover have "take 4 (quarter_code y q) = fmt_int 4 y"
    using assms(1) by (simp add: quarter_code_def)
  moreover have "int_of [digit_char (nat q)] = Inr q"
    using assms(2) int_of_digit_char [of "nat q"] by auto
  ultimately show ?thesis
    using assms by (simp add: Let_def)
qed

lemma step_period_year: "year_range y \<Longrightarrow> step_period (year_code y) YEAR k = Inr (year_code (y + k))"
  by (simp add: year_code_def)

lemma num_val_pad_text: "digit_text s \<Longrightarrow> length s = w \<Longrightarrow> 0 < w \<Longrightarrow> fmt_int w (int (num_val s)) = s"
  using num_val_pad [of s] by (auto simp: fmt_int_def)

text \<open>
  A code that denotes a calendar member: it matches its grain's grammar with no stray newline, its
  month is a month, and its year leaves room for a step back.
\<close>

definition calendar_code :: "grain \<Rightarrow> string \<Rightarrow> bool" where
  "calendar_code g s =
     (case parse_period s of
        None \<Rightarrow> False
      | Some p \<Rightarrow> pc_grain p = g \<and> plain_code s \<and> 1 \<le> pc_year p
          \<and> (g = MONTH \<longrightarrow> (case pc_components p of [y, m] \<Rightarrow> 1 \<le> m \<and> m \<le> 12 | _ \<Rightarrow> False)))"

text \<open>The result axis whose values are codes of a grain.\<close>

fun axis_of :: "grain \<Rightarrow> string" where
  "axis_of DATE = ''day''"
| "axis_of WEEK = ''week''"
| "axis_of MONTH = ''period''"
| "axis_of QUARTER = ''quarter''"
| "axis_of YEAR = ''fiscal_year''"

lemma re_match_digits4:
  assumes "re_match (RDigits 4 # ps) s = Some gs"
  obtains r gs' where "s = fmt_int 4 (int (num_val (take 4 s))) @ r" "drop 4 s = r"
    "gs = take 4 s # gs'" "re_match ps r = Some gs'" "year_range (int (num_val (take 4 s)))"
proof -
  from assms obtain gs' where m: "4 \<le> length s" "digit_text (take 4 s)"
    "re_match ps (drop 4 s) = Some gs'" "gs = take 4 s # gs'" by (auto split: if_splits)
  then have "fmt_int 4 (int (num_val (take 4 s))) = take 4 s"
    by (intro num_val_pad_text) auto
  moreover have "num_val (take 4 s) < 10 ^ 4"
    using m num_val_bound [of "take 4 s"] by simp
  ultimately show ?thesis using m that [of "drop 4 s" gs'] by auto
qed

lemma calendar_code_year:
  assumes "calendar_code g s"
  obtains y r where "s = fmt_int 4 y @ r" "year_range y" "1 \<le> y"
proof -
  from assms obtain p where p: "parse_period s = Some p" "pc_grain p = g" "1 \<le> pc_year p"
    by (auto simp: calendar_code_def split: option.splits)
  from parse_period_matches [OF p(1)] obtain gs where
    gs: "re_match (grammar_of g) s = Some gs" "pc_components p = map (\<lambda>w. int (num_val w)) gs"
    using p(2) by auto
  obtain ps where "grammar_of g = RDigits 4 # ps" by (cases g) auto
  with gs(1) obtain r gs' where r: "s = fmt_int 4 (int (num_val (take 4 s))) @ r"
    "gs = take 4 s # gs'" "year_range (int (num_val (take 4 s)))"
    by (metis re_match_digits4)
  then have "pc_year p = int (num_val (take 4 s))" using gs(2) by (simp add: pc_year_def)
  with that [OF r(1) r(3)] p(3) show ?thesis by simp
qed

lemma plain_code_at_end: "plain_code (a @ r) \<Longrightarrow> at_end r \<Longrightarrow> r = []"
  by (auto simp: plain_code_def at_end_def)

lemma calendar_code_month:
  assumes "calendar_code MONTH s"
  obtains y m where "s = month_code y m" "year_range y" "1 \<le> y" "1 \<le> m \<and> m \<le> 12"
proof -
  from assms obtain p where p: "parse_period s = Some p" "pc_grain p = MONTH" "1 \<le> pc_year p"
    "plain_code s" and pm: "case pc_components p of [y, m] \<Rightarrow> 1 \<le> m \<and> m \<le> 12 | _ \<Rightarrow> False"
    by (auto simp: calendar_code_def split: option.splits)
  from parse_period_matches [OF p(1)] obtain gs where
    gs: "re_match (grammar_of MONTH) s = Some gs" "pc_components p = map (\<lambda>w. int (num_val w)) gs"
    using p(2) by auto
  from gs(1) [unfolded grammar_of.simps] obtain r gs' where
    r: "s = fmt_int 4 (int (num_val (take 4 s))) @ r" "gs = take 4 s # gs'"
    "re_match [RLit (CHR ''-''), RDigits 2] r = Some gs'" "year_range (int (num_val (take 4 s)))"
    by (rule re_match_digits4)
  from r(3) obtain t where t: "r = CHR ''-'' # t" "2 \<le> length t" "digit_text (take 2 t)"
    "gs' = [take 2 t]" "at_end (drop 2 t)" by (auto split: list.splits if_splits)
  have "s = (fmt_int 4 (int (num_val (take 4 s))) @ CHR ''-'' # take 2 t) @ drop 2 t"
    using r(1) t(1) by simp
  then have "drop 2 t = []" using p(4) t(5) by (metis plain_code_at_end)
  then have "s = fmt_int 4 (int (num_val (take 4 s))) @ ''-'' @ take 2 t"
    using \<open>s = (fmt_int 4 (int (num_val (take 4 s))) @ CHR ''-'' # take 2 t) @ drop 2 t\<close>
    by (metis append_Cons append_Nil append_Nil2 append_assoc)
  moreover have "fmt_int 2 (int (num_val (take 2 t))) = take 2 t"
    using t(2,3) by (intro num_val_pad_text) auto
  ultimately have "s = month_code (int (num_val (take 4 s))) (int (num_val (take 2 t)))"
    by (simp only: month_code_def)
  moreover have "1 \<le> int (num_val (take 2 t)) \<and> int (num_val (take 2 t)) \<le> 12"
    "1 \<le> int (num_val (take 4 s))"
    using pm gs(2) r(2) t(4) p(3) by (simp_all add: pc_year_def)
  ultimately show ?thesis using that r(4) by blast
qed

lemma calendar_code_quarter:
  assumes "calendar_code QUARTER s"
  obtains y q where "s = quarter_code y q" "year_range y" "1 \<le> y" "1 \<le> q \<and> q \<le> 4"
proof -
  from assms obtain p where p: "parse_period s = Some p" "pc_grain p = QUARTER" "1 \<le> pc_year p"
    "plain_code s" by (auto simp: calendar_code_def split: option.splits)
  from parse_period_matches [OF p(1)] obtain gs where
    gs: "re_match (grammar_of QUARTER) s = Some gs" "pc_components p = map (\<lambda>w. int (num_val w)) gs"
    using p(2) by auto
  from gs(1) [unfolded grammar_of.simps] obtain r gs' where
    r: "s = fmt_int 4 (int (num_val (take 4 s))) @ r" "gs = take 4 s # gs'"
    "re_match [RLit (CHR ''-''), RLit (CHR ''Q''), RClass (CHR ''1'') (CHR ''4'')] r = Some gs'"
    "year_range (int (num_val (take 4 s)))"
    by (rule re_match_digits4)
  from r(3) obtain x t where t: "r = CHR ''-'' # CHR ''Q'' # x # t" "at_end t"
    "CHR ''1'' \<le> x" "x \<le> CHR ''4''" by (auto split: list.splits if_splits)
  have "s = (fmt_int 4 (int (num_val (take 4 s))) @ CHR ''-'' # CHR ''Q'' # [x]) @ t"
    using r(1) t(1) by simp
  then have "t = []" using p(4) t(2) by (metis plain_code_at_end)
  have x: "is_digit x" using t(3,4) by (rule class_digit)
  have "(49::nat) \<le> of_char x" "of_char x \<le> (52::nat)"
    using t(3,4) by (simp_all add: less_eq_char_def)
  then have v: "1 \<le> int (digit_val x) \<and> int (digit_val x) \<le> 4" by (auto simp: digit_val_def)
  have "s = quarter_code (int (num_val (take 4 s))) (int (digit_val x))"
    using r(1) t \<open>t = []\<close> x v by (simp add: quarter_code_def fmt0_digit)
  moreover have "1 \<le> int (num_val (take 4 s))"
    using gs(2) r(2) p(3) by (simp add: pc_year_def)
  ultimately show ?thesis using that r(4) v by blast
qed

lemma calendar_code_yearly:
  assumes "calendar_code YEAR s"
  obtains y where "s = year_code y" "year_range y" "1 \<le> y"
proof -
  from assms obtain p where p: "parse_period s = Some p" "pc_grain p = YEAR" "1 \<le> pc_year p"
    "plain_code s" by (auto simp: calendar_code_def split: option.splits)
  from parse_period_matches [OF p(1)] obtain gs where
    gs: "re_match (grammar_of YEAR) s = Some gs" "pc_components p = map (\<lambda>w. int (num_val w)) gs"
    using p(2) by auto
  from gs(1) [unfolded grammar_of.simps] obtain r gs' where
    r: "s = fmt_int 4 (int (num_val (take 4 s))) @ r" "gs = take 4 s # gs'"
    "re_match [] r = Some gs'" "year_range (int (num_val (take 4 s)))"
    by (rule re_match_digits4)
  have "at_end r" using r(3) by (auto split: if_splits)
  then have "r = []" using r(1) p(4) by (metis plain_code_at_end)
  then have "s = year_code (int (num_val (take 4 s)))" using r(1) by (simp add: year_code_def)
  moreover have "1 \<le> int (num_val (take 4 s))"
    using gs(2) r(2) p(3) by (simp add: pc_year_def)
  ultimately show ?thesis using that r(4) by blast
qed

section \<open>Properties\<close>

text \<open>
  Period codes are big-endian and zero padded, so for two codes of one grain the text order the
  SQL range filters and the resolver's \<open>period_start > period_end\<close> check use is the order of the
  parsed components (year first), at every grain. Codes with the stray final newline that \<open>$\<close> lets
  through are excluded.
\<close>

theorem period_codes_sort_by_time:
  assumes "parse_period a = Some p" and "parse_period b = Some q"
    and "pc_grain p = pc_grain q" and "plain_code a" and "plain_code b"
  shows "a < b \<longleftrightarrow> pc_components p < pc_components q"
proof -
  from parse_period_matches [OF assms(1)] obtain gs where
    g: "re_match (grammar_of (pc_grain p)) a = Some gs"
       "pc_components p = map (\<lambda>w. int (num_val w)) gs" by blast
  from parse_period_matches [OF assms(2)] obtain hs where
    h: "re_match (grammar_of (pc_grain p)) b = Some hs"
       "pc_components q = map (\<lambda>w. int (num_val w)) hs" using assms(3) by auto
  show ?thesis
    using re_match_less_iff [OF g(1) h(1)] re_match_plain_width [OF g(1) assms(4)]
      re_match_plain_width [OF h(1) assms(5)] g h grammar_of_digit_class grammar_width_pos by simp
qed

theorem period_codes_sort_by_time_witness:
  "(''2025-06'' < ''2025-11'') = ([2025, 6] < [2025, 11 :: int])"
proof -
  let ?p = "\<lparr>pc_grain = MONTH, pc_raw = ''2025-06'', pc_components = [2025, 6]\<rparr>"
  let ?q = "\<lparr>pc_grain = MONTH, pc_raw = ''2025-11'', pc_components = [2025, 11]\<rparr>"
  have "parse_period ''2025-06'' = Some ?p" "parse_period ''2025-11'' = Some ?q" by code_simp+
  moreover have "plain_code ''2025-06''" "plain_code ''2025-11''" by code_simp+
  ultimately show ?thesis
    using period_codes_sort_by_time [of "''2025-06''" ?p "''2025-11''" ?q] by simp
qed

text \<open>
  The retriever's inverse remap undoes the resolver's prior-period step: stepping a calendar
  month, quarter or year code back by one and shifting the resulting axis value forward by the
  month equivalent that the data query carries gives the original code, across year borrows.
\<close>

theorem prior_period_remap_inverse:
  assumes "calendar_code g c" and "step_period c g (- 1) = Inr d" and "STEP_MONTHS g = Some n"
  shows "shift_time_value d (axis_of g) n = Inr c"
proof (cases g)
  case MONTH
  with assms(1) obtain y m where c: "c = month_code y m" "year_range y" "1 \<le> y" "1 \<le> m \<and> m \<le> 12"
    by (auto elim: calendar_code_month)
  then have "d = index_code (month_index y m - 1)"
    using assms(2) MONTH by (auto simp: shift_period_month_code)
  moreover have "0 \<le> month_index y m - 1 \<and> month_index y m - 1 < 120000"
    using c by (auto simp: month_index_def)
  ultimately show ?thesis
    using c assms(3) MONTH
    by (simp add: shift_time_value_def shift_period_index_code index_code_month_index)
next
  case QUARTER
  with assms(1) obtain y q where c: "c = quarter_code y q" "year_range y" "1 \<le> y" "1 \<le> q \<and> q \<le> 4"
    by (auto elim: calendar_code_quarter)
  define t where "t = y * 4 + (q - 1) + - 1"
  have d: "d = quarter_code (t div 4) (t mod 4 + 1)"
    using assms(2) c QUARTER by (simp only: step_period_quarter [OF c(2,4)] t_def) simp
  have t: "year_range (t div 4)" "1 \<le> t mod 4 + 1 \<and> t mod 4 + 1 \<le> 4"
    "t div 4 * 4 + (t mod 4 + 1 - 1) + 1 = y * 4 + (q - 1)"
    using c by (auto simp: t_def pos_imp_zdiv_nonneg_iff)
  have "(y * 4 + (q - 1)) div 4 = y" "(y * 4 + (q - 1)) mod 4 = q - 1"
    using c(4) by (simp_all add: mod_pos_pos_trivial)
  then show ?thesis
    using shift_time_value_quarter [OF t(1,2), of 1] assms(3) QUARTER c(1,2) unfolding d t(3) by simp
next
  case YEAR
  with assms(1) obtain y where c: "c = year_code y" "year_range y" "1 \<le> y"
    by (auto elim: calendar_code_yearly)
  then have "d = year_code (y - 1)"
    using assms(2) YEAR step_period_year [of y "- 1"] by simp
  then show ?thesis
    using shift_time_value_year [of "y - 1" 1] c assms(3) YEAR by simp
qed (use assms in simp_all)

theorem prior_period_remap_inverse_witness:
  "shift_time_value ''2024-Q4'' ''quarter'' 3 = Inr ''2025-Q1''"
proof -
  have "calendar_code QUARTER ''2025-Q1''" "step_period ''2025-Q1'' QUARTER (- 1) = Inr ''2024-Q4''"
    by code_simp+
  from prior_period_remap_inverse [OF this] show ?thesis by simp
qed

text \<open>
  The same for prior year, at all five grains: decrementing the year token of a calendar code
  and shifting the axis value by twelve months gives the original code.
\<close>

theorem prior_year_remap_inverse:
  assumes "calendar_code g c" and "shift_year c (- 1) = Inr d"
  shows "shift_time_value d (axis_of g) 12 = Inr c"
proof -
  from assms(1) obtain y r where yr: "c = fmt_int 4 y @ r" "year_range y" "1 \<le> y"
    by (rule calendar_code_year)
  then have d: "d = fmt_int 4 (y - 1) @ r"
    using assms(2) shift_year_prefix [of y r "- 1"] by simp
  have inverse: "shift_year d 1 = Inr c"
    using shift_year_prefix [of "y - 1" r 1] yr d by simp
  show ?thesis
  proof (cases g)
    case MONTH
    with assms(1) obtain y' m where c: "c = month_code y' m" "year_range y'" "1 \<le> m \<and> m \<le> 12"
      by (auto elim: calendar_code_month)
    then have "y' = y" "r = ''-'' @ fmt_int 2 m"
      using yr fmt4 [of y] fmt4 [of y'] by (auto simp: month_code_def)
    then have "d = month_code (y - 1) m" using d by (simp add: month_code_def)
    then show ?thesis
      using c yr MONTH index_code_month_index [of m y]
      by (simp add: shift_time_value_def shift_period_month_code month_index_def \<open>y' = y\<close> algebra_simps)
  next
    case QUARTER
    with assms(1) obtain y' q where c: "c = quarter_code y' q" "year_range y'" "1 \<le> q \<and> q \<le> 4"
      by (auto elim: calendar_code_quarter)
    then have "y' = y" "r = ''-Q'' @ fmt_int 0 q"
      using yr fmt4 [of y] fmt4 [of y'] by (auto simp: quarter_code_def)
    then have dq: "d = quarter_code (y - 1) q" using d by (simp add: quarter_code_def)
    have "((y - 1) * 4 + (q - 1) + 4) div 4 = y" "((y - 1) * 4 + (q - 1) + 4) mod 4 = q - 1"
      using c(3) by presburger+
    then show ?thesis
      using shift_time_value_quarter [of "y - 1" q 4] c yr QUARTER \<open>y' = y\<close> unfolding dq by simp
  next
    case YEAR
    with assms(1) obtain y' where c: "c = year_code y'" "year_range y'"
      by (auto elim: calendar_code_yearly)
    then have "fmt_int 4 y @ r = fmt_int 4 y' @ []" using yr by (simp add: year_code_def)
    then have "fmt_int 4 y = fmt_int 4 y'" "r = []"
      using fmt4 [OF yr(2)] fmt4 [OF c(2)]
        append_eq_append_conv [of "fmt_int 4 y" "fmt_int 4 y'" r "[]"] by metis+
    then have "y' = y" "r = []"
      using fmt4 [OF yr(2)] fmt4 [OF c(2)] yr(2) c(2) eq_nat_nat_iff [of y' y] by metis+
    then have "d = year_code (y - 1)" using d by (simp add: year_code_def)
    then show ?thesis
      using shift_time_value_year [of "y - 1" 1] c yr YEAR \<open>y' = y\<close> by simp
  qed (use inverse in \<open>simp_all add: shift_time_value_def\<close>)
qed

theorem prior_year_remap_inverse_witness:
  "shift_time_value ''2024-W37'' ''week'' 12 = Inr ''2025-W37''"
proof -
  have "calendar_code WEEK ''2025-W37''" "shift_year ''2025-W37'' (- 1) = Inr ''2024-W37''"
    by code_simp+
  from prior_year_remap_inverse [OF this] show ?thesis by simp
qed

end
