(* ===== verification/Graphs.thy ===== *)
theory Graphs
  imports Prelude
begin

text \<open>
  Dependency ordering. The program runs Kahn's algorithm in three places, each with its own queue
  discipline: \<open>_has_cycle\<close> of \<open>engine/catalogue.py\<close> pops the newest ready node and reports what is
  left, \<open>_resolve_metric_dependencies\<close> of \<open>engine/resolver.py\<close> sorts the queue before every pop, and
  \<open>_topological_sort_dependencies\<close> sorts it after every push and raises when a node is left.

  The locale \<open>kahn\<close> states what the three loops share: how one iteration pops, relaxes the
  successors of the popped node and pushes the nodes that became ready. Its lemmas give the
  invariant, the order of the output and the link between left-over nodes and cycles; the three
  loops are its interpretations. A dependency set is a list that enumerates it.
\<close>

section \<open>The relaxation step\<close>

type_synonym 'a degrees = "('a, int) dict"

type_synonym 'a graph = "('a, 'a list) dict"

text \<open>\<open>in_degree[k] -= 1\<close>, and \<open>queue.append(k)\<close> when that makes it zero.\<close>

definition decrement :: "'a \<Rightarrow> 'a degrees \<times> 'a list \<Rightarrow> 'a degrees \<times> 'a list" where
  "decrement k st =
     (let d = dget_or 0 (fst st) k - 1
      in (dset k d (fst st), if d = 0 then snd st @ [k] else snd st))"

definition decrement_all :: "'a list \<Rightarrow> 'a degrees \<times> 'a list \<Rightarrow> 'a degrees \<times> 'a list" where
  "decrement_all ks st = fold decrement ks st"

text \<open>The weight of a state drops with every pop and no decrement raises it.\<close>

definition weight :: "'a degrees \<times> 'a list \<Rightarrow> nat" where
  "weight st = length (snd st) + sum_list (map (nat \<circ> snd) (fst st))"

lemma weight_dset:
  "sum_list (map (nat \<circ> snd) (dset k d deg)) + nat (dget_or 0 deg k)
     = sum_list (map (nat \<circ> snd) deg) + nat d"
proof (induction deg)
  case Nil
  then show ?case by (simp add: dget_or_def)
next
  case (Cons p deg)
  then show ?case by (cases p) (simp add: dget_or_def)
qed

lemma weight_decrement: "weight (decrement k st) \<le> weight st"
proof -
  obtain deg q where st: "st = (deg, q)" by (cases st)
  define d where "d = dget_or 0 deg k"
  have eq: "sum_list (map (nat \<circ> snd) (dset k (d - 1) deg)) + nat d
      = sum_list (map (nat \<circ> snd) deg) + nat (d - 1)"
    using weight_dset [of k "d - 1" deg] by (simp add: d_def)
  define A where "A = sum_list (map (nat \<circ> snd) (dset k (d - 1) deg))"
  define B where "B = sum_list (map (nat \<circ> snd) deg)"
  have eq: "A + nat d = B + nat (d - 1)" using eq by (simp only: A_def B_def)
  have "length (if d - 1 = 0 then q @ [k] else q) + A \<le> length q + B"
    using eq by (cases "d = 1") auto
  moreover have "decrement k st = (dset k (d - 1) deg, if d - 1 = 0 then q @ [k] else q)"
    by (simp add: st decrement_def d_def Let_def)
  ultimately show ?thesis unfolding weight_def A_def B_def st by (simp only: fst_conv snd_conv)
qed

lemma weight_decrement_all: "weight (decrement_all ks st) \<le> weight st"
proof (induction ks arbitrary: st)
  case Nil
  then show ?case by (simp add: decrement_all_def)
next
  case (Cons k ks)
  have "weight (decrement_all ks (decrement k st)) \<le> weight st"
    by (rule le_trans [OF Cons.IH weight_decrement])
  then show ?case by (simp add: decrement_all_def)
qed

lemma decrement_all_effect_aux:
  "distinct ks \<Longrightarrow> set ks \<subseteq> set (dkeys deg) \<Longrightarrow>
     snd (decrement_all ks (deg, q)) = q @ filter (\<lambda>k. dget_or 0 deg k = 1) ks
     \<and> (\<forall>k. dget_or 0 (fst (decrement_all ks (deg, q))) k = dget_or 0 deg k - (if k \<in> set ks then 1 else 0))
     \<and> dkeys (fst (decrement_all ks (deg, q))) = dkeys deg"
proof (induction ks arbitrary: deg q)
  case Nil
  then show ?case by (simp add: decrement_all_def)
next
  case (Cons j ks)
  let ?d = "dget_or 0 deg j - 1"
  let ?q = "if ?d = 0 then q @ [j] else q"
  have unfold: "decrement_all (j # ks) (deg, q) = decrement_all ks (dset j ?d deg, ?q)"
    by (simp add: decrement_all_def decrement_def Let_def)
  have keys: "dkeys (dset j ?d deg) = dkeys deg"
    using Cons.prems by (simp add: dset_keys_order)
  have same: "filter (\<lambda>k. dget_or 0 (dset j ?d deg) k = 1) ks = filter (\<lambda>k. dget_or 0 deg k = 1) ks"
    using Cons.prems by (intro filter_cong) (auto simp: dget_or_dset)
  have "set ks \<subseteq> set (dkeys (dset j ?d deg))" "distinct ks"
    unfolding keys using Cons.prems by auto
  note IH = Cons.IH [OF this(2,1), of ?q, unfolded same keys]
  have other: "dget_or 0 (dset j ?d deg) k - (if k \<in> set ks then 1 else 0)
      = dget_or 0 deg k - (if k \<in> set (j # ks) then 1 else 0)" for k
    using Cons.prems by (auto simp: dget_or_dset)
  show ?case unfolding unfold using IH other by simp
qed

lemma decrement_all_effect:
  assumes "distinct ks" and "set ks \<subseteq> set (dkeys deg)"
  shows "snd (decrement_all ks (deg, q)) = q @ filter (\<lambda>k. dget_or 0 deg k = 1) ks"
    and "dget_or 0 (fst (decrement_all ks (deg, q))) k = dget_or 0 deg k - (if k \<in> set ks then 1 else 0)"
    and "dkeys (fst (decrement_all ks (deg, q))) = dkeys deg"
  using decrement_all_effect_aux [OF assms, of q] by blast+

section \<open>The contract of the loops\<close>

definition ready_invariant :: "'a list \<Rightarrow> ('a \<Rightarrow> 'a list) \<Rightarrow> 'a degrees \<Rightarrow> 'a list \<Rightarrow> 'a list \<Rightarrow> bool" where
  "ready_invariant nodes succs deg q out \<longleftrightarrow>
     dkeys deg = nodes \<and> distinct (out @ q) \<and> set (out @ q) \<subseteq> set nodes
     \<and> (\<forall>k\<in>set nodes. dget_or 0 deg k = int (card {u \<in> set nodes - set out. k \<in> set (succs u)}))
     \<and> (\<forall>k\<in>set nodes. dget_or 0 deg k = 0 \<longleftrightarrow> k \<in> set (out @ q))
     \<and> (\<forall>xs k ys. out = xs @ k # ys \<longrightarrow> (\<forall>u\<in>set nodes. k \<in> set (succs u) \<longrightarrow> u \<in> set xs))"

lemma ready_invariantD:
  assumes "ready_invariant nodes succs deg q out"
  shows "dkeys deg = nodes" and "distinct (out @ q)" and "set (out @ q) \<subseteq> set nodes"
    and "k \<in> set nodes \<Longrightarrow> dget_or 0 deg k = int (card {u \<in> set nodes - set out. k \<in> set (succs u)})"
    and "k \<in> set nodes \<Longrightarrow> dget_or 0 deg k = 0 \<longleftrightarrow> k \<in> set (out @ q)"
  using assms unfolding ready_invariant_def by blast+

text \<open>The edges of a graph, from a node to the nodes that its removal relaxes.\<close>

definition edges :: "'a list \<Rightarrow> ('a \<Rightarrow> 'a list) \<Rightarrow> ('a \<times> 'a) set" where
  "edges nodes succs = {(u, k). u \<in> set nodes \<and> k \<in> set nodes \<and> k \<in> set (succs u)}"

locale kahn =
  fixes nodes :: "'a list"
    and succs :: "'a \<Rightarrow> 'a list"
    and pop :: "'a list \<Rightarrow> 'a \<times> 'a list"
    and settle :: "'a list \<Rightarrow> 'a list"
    and note_node :: "'o \<Rightarrow> 'a \<Rightarrow> 'o"
    and run :: "'a degrees \<Rightarrow> 'a list \<Rightarrow> 'o \<Rightarrow> 'a degrees \<times> 'o"
  assumes nodes_distinct: "distinct nodes"
    and succs_distinct: "distinct (succs u)"
    and succs_nodes: "set (succs u) \<subseteq> set nodes"
    and pop_member: "q \<noteq> [] \<Longrightarrow> mset q = add_mset (fst (pop q)) (mset (snd (pop q)))"
    and settle_members: "mset (settle q) = mset q"
    and run_empty: "run deg [] r = (deg, r)"
    and run_step: "q \<noteq> [] \<Longrightarrow> dkeys deg = nodes \<Longrightarrow>
          run deg q r =
            (let x = fst (pop q); st = decrement_all (succs x) (deg, snd (pop q))
             in run (fst st) (settle (snd st)) (note_node r x))"
begin

lemma pop_facts:
  assumes "q \<noteq> []"
  shows "set q = insert (fst (pop q)) (set (snd (pop q)))"
    and "distinct q \<longleftrightarrow> fst (pop q) \<notin> set (snd (pop q)) \<and> distinct (snd (pop q))"
    and "length q = Suc (length (snd (pop q)))"
proof -
  note m = pop_member [OF assms]
  show "set q = insert (fst (pop q)) (set (snd (pop q)))"
    using arg_cong [OF m, of set_mset] by simp
  have "mset q = mset (fst (pop q) # snd (pop q))" using m by simp
  then show "distinct q \<longleftrightarrow> fst (pop q) \<notin> set (snd (pop q)) \<and> distinct (snd (pop q))"
    using mset_eq_imp_distinct_iff [of q "fst (pop q) # snd (pop q)"] by simp
  show "length q = Suc (length (snd (pop q)))"
    using arg_cong [OF m, of size] by simp
qed

lemma settle_facts: "set (settle q) = set q" "distinct (settle q) = distinct q"
  using settle_members [of q] mset_eq_imp_distinct_iff mset_eq_setD by blast+

lemma step_invariant:
  assumes inv: "ready_invariant nodes succs deg q out" and "q \<noteq> []"
    and x: "x = fst (pop q)" and st: "st = decrement_all (succs x) (deg, snd (pop q))"
  shows "ready_invariant nodes succs (fst st) (settle (snd st)) (out @ [x])"
proof -
  note pop = pop_facts [OF \<open>q \<noteq> []\<close>, folded x]
  note inv = inv [unfolded ready_invariant_def]
  have sub: "set (succs x) \<subseteq> set (dkeys deg)" using inv succs_nodes by simp
  note eff = decrement_all_effect [OF succs_distinct sub, where q = "snd (pop q)", folded st]
  have xn: "x \<in> set nodes" "x \<notin> set out" using inv pop(1) by auto
  have deg0: "dget_or 0 deg k = int (card {u \<in> set nodes - set out. k \<in> set (succs u)})"
    if "k \<in> set nodes" for k using inv that by blast
  have deg: "dget_or 0 (fst st) k = int (card {u \<in> set nodes - set (out @ [x]). k \<in> set (succs u)})"
    if "k \<in> set nodes" for k
  proof -
    let ?A = "{u \<in> set nodes - set out. k \<in> set (succs u)}"
    have eq: "{u \<in> set nodes - set (out @ [x]). k \<in> set (succs u)} = ?A - {x}" by auto
    show ?thesis
    proof (cases "k \<in> set (succs x)")
      case True
      then have "x \<in> ?A" using xn by simp
      then have "card ?A = Suc (card (?A - {x}))" by (intro card_Suc_Diff1 [symmetric]) simp_all
      then show ?thesis unfolding eq eff(2) deg0 [OF that] using True by simp
    next
      case False
      then have "?A - {x} = ?A" by auto
      then show ?thesis unfolding eq eff(2) deg0 [OF that] using False by simp
    qed
  qed
  have zero: "dget_or 0 deg k = 0 \<longleftrightarrow> k \<in> set (out @ q)" if "k \<in> set nodes" for k
    using inv that by blast
  have snd: "set (snd st) = set (snd (pop q)) \<union> {k \<in> set (succs x). dget_or 0 deg k = 1}"
    using eff(1) by auto
  have ready: "dget_or 0 (fst st) k = 0 \<longleftrightarrow> k \<in> set ((out @ [x]) @ settle (snd st))"
    if "k \<in> set nodes" for k
  proof (cases "k \<in> set (succs x)")
    case True
    have "x \<in> {u \<in> set nodes - set out. k \<in> set (succs u)}" using True xn by simp
    then have "card {u \<in> set nodes - set out. k \<in> set (succs u)} \<noteq> 0" by (auto simp: card_eq_0_iff)
    then have "dget_or 0 deg k \<noteq> 0" using deg0 [OF that] by simp
    then have "k \<notin> set (out @ q)" using zero [OF that] by simp
    then show ?thesis using True snd pop(1) by (auto simp: eff(2) settle_facts)
  next
    case False
    then show ?thesis using zero [OF that] snd pop(1) by (auto simp: eff(2) settle_facts)
  qed
  have "distinct ((out @ [x]) @ settle (snd st))"
  proof -
    let ?new = "filter (\<lambda>k. dget_or 0 deg k = 1) (succs x)"
    have unready: "k \<notin> set (out @ q)" if "k \<in> set ?new" for k
    proof -
      have "k \<in> set nodes" "dget_or 0 deg k \<noteq> 0" using that succs_nodes [of x] by auto
      then show ?thesis using zero by blast
    qed
    have base: "distinct (out @ q)" "distinct (x # snd (pop q))" "distinct ?new"
      using inv pop(2) succs_distinct by auto
    have "distinct ((out @ [x]) @ (snd (pop q) @ ?new))"
      using base unready pop(1) unfolding distinct_append by fastforce
    then show ?thesis using eff(1) by (simp add: settle_facts)
  qed
  moreover have "set ((out @ [x]) @ settle (snd st)) \<subseteq> set nodes"
    using inv pop(1) snd xn succs_nodes [of x] by (auto simp: settle_facts)
  moreover have "u \<in> set xs"
    if o: "out @ [x] = xs @ k # ys" and "u \<in> set nodes" and "k \<in> set (succs u)" for xs k ys u
  proof (cases ys rule: rev_cases)
    case Nil
    then have "out = xs" "x = k" using o by auto
    have "dget_or 0 deg x = 0" using zero [OF xn(1)] pop(1) by simp
    then have "{u \<in> set nodes - set out. x \<in> set (succs u)} = {}" using deg0 [OF xn(1)] by simp
    then show ?thesis using that \<open>out = xs\<close> \<open>x = k\<close> by blast
  next
    case (snoc zs z)
    then have "out = xs @ k # zs" using o by auto
    then show ?thesis using inv that by blast
  qed
  ultimately show ?thesis
    unfolding ready_invariant_def using eff(3) inv deg ready by auto
qed

lemma run_invariant:
  assumes "ready_invariant nodes succs deg q out" and "run deg q r = (deg', r')"
  shows "\<exists>ys. ready_invariant nodes succs deg' [] (out @ ys) \<and> r' = foldl note_node r ys"
  using assms
proof (induction "weight (deg, q)" arbitrary: deg q out r rule: less_induct)
  case less
  show ?case
  proof (cases "q = []")
    case True
    then have "ready_invariant nodes succs deg' [] (out @ []) \<and> r' = foldl note_node r []"
      using less.prems run_empty by simp
    then show ?thesis by blast
  next
    case False
    define x where "x = fst (pop q)"
    define st where "st = decrement_all (succs x) (deg, snd (pop q))"
    have "weight (deg, snd (pop q)) < weight (deg, q)"
      using pop_facts(3) [OF False] by (simp add: weight_def)
    moreover have "weight (fst st, settle (snd st)) = weight st"
      using arg_cong [OF settle_members [of "snd st"], of size] by (simp add: weight_def)
    ultimately have lt: "weight (fst st, settle (snd st)) < weight (deg, q)"
      using weight_decrement_all [of "succs x" "(deg, snd (pop q))"] by (simp add: st_def)
    have inv: "ready_invariant nodes succs (fst st) (settle (snd st)) (out @ [x])"
      using step_invariant [OF less.prems(1) False x_def st_def] .
    have "run (fst st) (settle (snd st)) (note_node r x) = (deg', r')"
      using run_step [OF False] less.prems by (simp add: ready_invariant_def Let_def st_def x_def)
    from less.hyps [OF lt inv this] obtain ys where
      "ready_invariant nodes succs deg' [] ((out @ [x]) @ ys)" "r' = foldl note_node (note_node r x) ys"
      by blast
    then have "ready_invariant nodes succs deg' [] (out @ (x # ys)) \<and> r' = foldl note_node r (x # ys)"
      by simp
    then show ?thesis by blast
  qed
qed

lemma initial_invariant:
  assumes "dkeys deg = nodes"
    and "\<And>k. k \<in> set nodes \<Longrightarrow> dget_or 0 deg k = int (card {u \<in> set nodes. k \<in> set (succs u)})"
    and "mset q = mset (filter (\<lambda>k. dget_or 0 deg k = 0) nodes)"
  shows "ready_invariant nodes succs deg q []"
proof -
  have "set q = set (filter (\<lambda>k. dget_or 0 deg k = 0) nodes)"
    using assms(3) by (rule mset_eq_setD)
  moreover have "distinct q"
    using mset_eq_imp_distinct_iff [OF assms(3)] nodes_distinct by simp
  ultimately show ?thesis using assms(1,2) by (auto simp: ready_invariant_def)
qed

text \<open>Every node the loop leaves behind depends on another one that it leaves behind.\<close>

lemma left_over:
  assumes "ready_invariant nodes succs deg [] out" and "k \<in> set nodes - set out"
  shows "\<exists>u \<in> set nodes - set out. k \<in> set (succs u)"
proof -
  have "dget_or 0 deg k = 0 \<longleftrightarrow> k \<in> set (out @ [])"
    and "dget_or 0 deg k = int (card {u \<in> set nodes - set out. k \<in> set (succs u)})"
    using assms unfolding ready_invariant_def by blast+
  moreover from assms(2) have "k \<notin> set (out @ [])" by simp
  ultimately have "card {u \<in> set nodes - set out. k \<in> set (succs u)} \<noteq> 0" by simp
  then have "{u \<in> set nodes - set out. k \<in> set (succs u)} \<noteq> {}" by (metis card.empty)
  then show ?thesis by blast
qed

lemma complete_acyclic:
  assumes inv: "ready_invariant nodes succs deg [] out" and all: "set out = set nodes"
  shows "acyclic (edges nodes succs)"
proof (rule acyclicI_order [where f = "\<lambda>x. length nodes - length (takeWhile ((\<noteq>) x) out)"])
  fix u k
  assume "(u, k) \<in> edges nodes succs"
  then have uk: "u \<in> set nodes" "k \<in> set nodes" "k \<in> set (succs u)" by (auto simp: edges_def)
  have "k \<in> set out" using uk(2) all by simp
  then obtain xs ys where ys: "out = xs @ k # ys" "k \<notin> set xs"
    by (meson split_list_first)
  then have xs: "takeWhile ((\<noteq>) k) out = xs"
    unfolding ys(1) by (subst takeWhile_append2) auto
  have "u \<in> set xs" using inv ys(1) uk unfolding ready_invariant_def by blast
  then obtain vs ws where vs: "xs = vs @ u # ws" "u \<notin> set vs"
    by (meson split_list_first)
  then have "takeWhile ((\<noteq>) u) out = vs" unfolding ys(1) vs(1) append_assoc
    by (subst takeWhile_append2) auto
  then have "length (takeWhile ((\<noteq>) u) out) < length xs" using vs by simp
  moreover have "length xs < length nodes"
  proof -
    have "distinct out" using inv by (simp add: ready_invariant_def)
    then have "length out = length nodes"
      using all nodes_distinct by (metis distinct_card)
    then show ?thesis unfolding ys(1) by simp
  qed
  ultimately show "length nodes - length (takeWhile ((\<noteq>) k) out)
      < length nodes - length (takeWhile ((\<noteq>) u) out)"
    by (simp add: xs)
qed

lemma acyclic_complete:
  assumes inv: "ready_invariant nodes succs deg [] out" and "acyclic (edges nodes succs)"
  shows "set out = set nodes"
proof (rule ccontr)
  let ?R = "set nodes - set out"
  assume "set out \<noteq> set nodes"
  then have ne: "?R \<noteq> {}" using inv by (auto simp: ready_invariant_def)
  have "finite (edges nodes succs)"
    by (rule finite_subset [of _ "set nodes \<times> set nodes"]) (auto simp: edges_def)
  then have "wf (edges nodes succs)" using assms(2) by (rule finite_acyclic_wf)
  then obtain k where "k \<in> ?R" "\<And>u. (u, k) \<in> edges nodes succs \<Longrightarrow> u \<notin> ?R"
    using ne by (metis wfE_min ex_in_conv)
  moreover obtain u where "u \<in> ?R" "k \<in> set (succs u)"
    using left_over [OF inv \<open>k \<in> ?R\<close>] by blast
  ultimately show False by (auto simp: edges_def)
qed

lemma output_order:
  assumes "ready_invariant nodes succs deg [] out" and "out = xs @ k # ys"
    and "u \<in> set nodes" and "k \<in> set (succs u)"
  shows "u \<in> set xs"
  using assms unfolding ready_invariant_def by blast

end

section \<open>The three loops\<close>

subsection \<open>\<open>_has_cycle\<close> of the catalogue\<close>

text \<open>\<open>in_degree\<close> counts, for every node, the nodes whose dependency set holds it.\<close>

(* engine/catalogue.py:467-470 _has_cycle *)
definition bump :: "'a \<Rightarrow> 'a degrees \<Rightarrow> 'a degrees" where
  "bump k deg = (if dhas k deg then dset k (dget_or 0 deg k + 1) deg else deg)"

definition zero_degrees :: "'a list \<Rightarrow> 'a degrees" where
  "zero_degrees ks = map (\<lambda>k. (k, 0)) ks"

(* engine/catalogue.py:466-470 _has_cycle *)
definition incoming :: "'a graph \<Rightarrow> 'a degrees" where
  "incoming g = fold (\<lambda>(_, deps). fold bump deps) g (zero_degrees (dkeys g))"

text \<open>The keys of degree zero, in the order of the dictionary.\<close>

(* engine/catalogue.py:472-472 _has_cycle *)
definition ready :: "'a degrees \<Rightarrow> 'a list" where
  "ready deg = map fst (filter (\<lambda>p. snd p = 0) deg)"

(* engine/catalogue.py:477-482 _has_cycle *)
fun relax_deps :: "'a list \<Rightarrow> 'a degrees \<times> 'a list \<Rightarrow> 'a degrees \<times> 'a list" where
  "relax_deps [] st = st"
| "relax_deps (dep # deps) st =
     (if dhas dep (fst st) then relax_deps deps (decrement dep st) else relax_deps deps st)"

lemma weight_relax_deps: "weight (relax_deps deps st) \<le> weight st"
proof (induction deps st rule: relax_deps.induct)
  case (2 dep deps st)
  then show ?case using weight_decrement [of dep st] by (auto intro: le_trans)
qed simp

lemma weight_pop: "q \<noteq> [] \<Longrightarrow> length q' < length q \<Longrightarrow> weight (deg, q') < weight (deg, q)"
  by (simp add: weight_def)

(* engine/catalogue.py:473-482 _has_cycle *)
function cycle_loop :: "'a graph \<Rightarrow> 'a degrees \<Rightarrow> 'a list \<Rightarrow> nat \<Rightarrow> 'a degrees \<times> nat" where
  "cycle_loop g deg queue visited =
     (if queue = [] then (deg, visited)
      else
        let node = last queue;
            st = relax_deps (dget_or [] g node) (deg, butlast queue)
        in cycle_loop g (fst st) (snd st) (visited + 1))"
  by pat_completeness auto
termination
proof (relation "measure (\<lambda>(g, deg, queue, visited). weight (deg, queue))", simp)
  fix g :: "'a graph" and deg queue visited node st
  assume "queue \<noteq> []" and "node = last queue" and st: "st = relax_deps (dget_or [] g node) (deg, butlast queue)"
  have "weight st \<le> weight (deg, butlast queue)" unfolding st by (rule weight_relax_deps)
  also have "\<dots> < weight (deg, queue)"
    using \<open>queue \<noteq> []\<close> by (intro weight_pop) (simp_all add: length_butlast)
  finally show "((g, fst st, snd st, visited + 1), g, deg, queue, visited)
      \<in> measure (\<lambda>(g, deg, queue, visited). weight (deg, queue))" by simp
qed

declare cycle_loop.simps [simp del]

(* engine/catalogue.py:464-485 _has_cycle *)
definition has_cycle :: "'a graph \<Rightarrow> 'a list option" where
  "has_cycle g =
     (let deg = fst (cycle_loop g (incoming g) (ready (incoming g)) 0);
          cycle_nodes = map fst (filter (\<lambda>p. 0 < snd p) deg)
      in if cycle_nodes = [] then None else Some cycle_nodes)"

subsection \<open>The sort of the metrics and of the computed scenarios\<close>

text \<open>Here \<open>in_degree\<close> counts a node's own dependencies.\<close>

(* engine/resolver.py:306-310 _resolve_metric_dependencies *)
definition outgoing :: "'a graph \<Rightarrow> 'a degrees" where
  "outgoing g =
     fold (\<lambda>(key, deps). fold (\<lambda>_ deg. dset key (dget_or 0 deg key + 1) deg) deps)
       g (zero_degrees (dkeys g))"

(* engine/resolver.py:320-324 _resolve_metric_dependencies *)
fun relax_dependents :: "'a \<Rightarrow> 'a graph \<Rightarrow> 'a degrees \<times> 'a list \<Rightarrow> 'a degrees \<times> 'a list" where
  "relax_dependents node [] st = st"
| "relax_dependents node ((key, deps) # g) st =
     relax_dependents node g (if node \<in> set deps then decrement key st else st)"

lemma weight_relax_dependents: "weight (relax_dependents node g st) \<le> weight st"
proof (induction node g st rule: relax_dependents.induct)
  case (2 node key deps g st)
  then show ?case using weight_decrement [of key st] by (auto intro: le_trans)
qed simp

(* engine/resolver.py:314-324 _resolve_metric_dependencies *)
function metric_loop :: "'a::linorder graph \<Rightarrow> 'a degrees \<Rightarrow> 'a list \<Rightarrow> 'a list \<Rightarrow> 'a degrees \<times> 'a list" where
  "metric_loop g deg queue sorted_keys =
     (if queue = [] then (deg, sorted_keys)
      else
        let queue' = sort queue;
            node = hd queue';
            st = relax_dependents node g (deg, tl queue')
        in metric_loop g (fst st) (snd st) (sorted_keys @ [node]))"
  by pat_completeness auto
termination
proof (relation "measure (\<lambda>(g, deg, queue, out). weight (deg, queue))", simp)
  fix g :: "'a graph" and deg queue out queue' node st
  assume "queue \<noteq> []" and q: "queue' = sort queue" and "node = hd queue'"
    and st: "st = relax_dependents node g (deg, tl queue')"
  have "weight st \<le> weight (deg, tl queue')" unfolding st by (rule weight_relax_dependents)
  also have "\<dots> < weight (deg, queue)"
    using \<open>queue \<noteq> []\<close> q by (intro weight_pop) simp_all
  finally show "((g, fst st, snd st, out @ [node]), g, deg, queue, out)
      \<in> measure (\<lambda>(g, deg, queue, out). weight (deg, queue))" by simp
qed

declare metric_loop.simps [simp del]

(* engine/resolver.py:306-324 _resolve_metric_dependencies *)
definition metric_sort :: "'a::linorder graph \<Rightarrow> 'a list" where
  "metric_sort g = snd (metric_loop g (outgoing g) (ready (outgoing g)) [])"

(* engine/resolver.py:348-357 _topological_sort_dependencies *)
function topo_loop :: "'a::linorder graph \<Rightarrow> 'a degrees \<Rightarrow> 'a list \<Rightarrow> 'a list \<Rightarrow> 'a degrees \<times> 'a list" where
  "topo_loop g deg queue result =
     (if queue = [] then (deg, result)
      else
        let node = hd queue;
            st = relax_dependents node g (deg, tl queue)
        in topo_loop g (fst st) (sort (snd st)) (result @ [node]))"
  by pat_completeness auto
termination
proof (relation "measure (\<lambda>(g, deg, queue, out). weight (deg, queue))", simp)
  fix g :: "'a graph" and deg queue out node st
  assume "queue \<noteq> []" and "node = hd queue" and st: "st = relax_dependents node g (deg, tl queue)"
  have "weight (fst st, sort (snd st)) = weight st" by (simp add: weight_def)
  also have "\<dots> \<le> weight (deg, tl queue)" unfolding st by (rule weight_relax_dependents)
  also have "\<dots> < weight (deg, queue)"
    using \<open>queue \<noteq> []\<close> by (intro weight_pop) simp_all
  finally show "((g, fst st, sort (snd st), out @ [node]), g, deg, queue, out)
      \<in> measure (\<lambda>(g, deg, queue, out). weight (deg, queue))" by simp
qed

declare topo_loop.simps [simp del]

datatype sort_error = CircularDependency

(* engine/resolver.py:338-341 _topological_sort_dependencies *)
definition dependency_graph :: "('a \<Rightarrow> 'a list) \<Rightarrow> 'a list \<Rightarrow> 'a graph" where
  "dependency_graph dependency_fn computed_keys =
     dict_of (\<lambda>key. filter (\<lambda>d. d \<in> set computed_keys) (remdups (dependency_fn key))) computed_keys"

(* engine/resolver.py:333-361 _topological_sort_dependencies *)
definition topological_sort_dependencies ::
  "'a::linorder list \<Rightarrow> ('a \<Rightarrow> 'a list) \<Rightarrow> (sort_error, 'a list) res" where
  "topological_sort_dependencies computed_keys dependency_fn =
     (let dep_graph = dependency_graph dependency_fn computed_keys;
          in_degree = outgoing dep_graph;
          result = snd (topo_loop dep_graph in_degree (sort (ready in_degree)) [])
      in if length result \<noteq> length computed_keys then Inl CircularDependency else Inr result)"

section \<open>The loops meet the contract\<close>

lemma dependency_graph_keys [simp]: "dkeys (dependency_graph f ks) = dedup ks"
  by (simp add: dependency_graph_def)

lemma dependency_graph_get:
  "dget_or [] (dependency_graph f ks) k
     = (if k \<in> set ks then filter (\<lambda>d. d \<in> set ks) (remdups (f k)) else [])"
  by (simp add: dependency_graph_def dget_or_def dget_dict_of)

lemma dependency_graph_member:
  "(k, deps) \<in> set (dependency_graph f ks)
     \<longleftrightarrow> k \<in> set ks \<and> deps = filter (\<lambda>d. d \<in> set ks) (remdups (f k))"
  by (simp add: dependency_graph_def dict_of_member)

lemma zero_degrees_simps [simp]:
  "dkeys (zero_degrees ks) = ks" "dget_or 0 (zero_degrees ks) k = 0"
  by (induction ks) (auto simp: zero_degrees_def dget_or_def)

lemma ready_filter: "distinct (dkeys deg) \<Longrightarrow> ready deg = filter (\<lambda>k. dget_or 0 deg k = 0) (dkeys deg)"
proof -
  assume d: "distinct (dkeys deg)"
  have "filter (\<lambda>p. snd p = 0) deg = filter ((\<lambda>k. dget_or 0 deg k = 0) \<circ> fst) deg"
    using d by (intro filter_cong) (auto simp: dget_or_def)
  then show ?thesis by (simp add: ready_def filter_map)
qed

lemma bump_all:
  assumes "distinct deps"
  shows "dkeys (fold bump deps deg) = dkeys deg
    \<and> dget_or 0 (fold bump deps deg) k = dget_or 0 deg k + (if k \<in> set deps \<and> dhas k deg then 1 else 0)"
  using assms
proof (induction deps arbitrary: deg)
  case Nil
  then show ?case by simp
next
  case (Cons d deps)
  have keys: "dkeys (bump d deg) = dkeys deg" by (auto simp: bump_def dset_keys_order dhas_def)
  then have has: "dhas k (bump d deg) = dhas k deg" by (simp only: dhas_def)
  have get: "dget_or 0 (bump d deg) k = dget_or 0 deg k + (if k = d \<and> dhas k deg then 1 else 0)"
    by (simp add: bump_def dget_or_dset)
  have IH: "dkeys (fold bump deps (bump d deg)) = dkeys (bump d deg)
      \<and> dget_or 0 (fold bump deps (bump d deg)) k
        = dget_or 0 (bump d deg) k + (if k \<in> set deps \<and> dhas k (bump d deg) then 1 else 0)"
    using Cons.prems by (intro Cons.IH) simp
  show ?case using Cons.prems IH by (auto simp only: keys has get fold_simps comp_apply split: if_splits) auto
qed

lemma incoming_acc:
  assumes "\<And>n deps. (n, deps) \<in> set g \<Longrightarrow> distinct deps"
  shows "dkeys (fold (\<lambda>(_, deps). fold bump deps) g deg) = dkeys deg
    \<and> (k \<in> set (dkeys deg) \<longrightarrow> dget_or 0 (fold (\<lambda>(_, deps). fold bump deps) g deg) k
        = dget_or 0 deg k + int (length (filter (\<lambda>p. k \<in> set (snd p)) g)))"
  using assms
proof (induction g arbitrary: deg)
  case Nil
  then show ?case by simp
next
  case (Cons p g)
  obtain n deps where p: "p = (n, deps)" by (cases p)
  have "distinct deps" using Cons.prems p by (metis list.set_intros(1))
  note b = bump_all [OF this, of deg]
  have "dkeys (fold (\<lambda>(_, deps). fold bump deps) g (fold bump deps deg)) = dkeys (fold bump deps deg)
      \<and> (k \<in> set (dkeys (fold bump deps deg)) \<longrightarrow>
          dget_or 0 (fold (\<lambda>(_, deps). fold bump deps) g (fold bump deps deg)) k
            = dget_or 0 (fold bump deps deg) k + int (length (filter (\<lambda>p. k \<in> set (snd p)) g)))"
    using Cons.prems by (intro Cons.IH) auto
  then show ?case using b by (auto simp: p dhas_def)
qed

lemma filter_card:
  "distinct (map fst g) \<Longrightarrow> length (filter P g) = card {u. \<exists>v. (u, v) \<in> set g \<and> P (u, v)}"
proof -
  assume "distinct (map fst g)"
  then have "distinct (map fst (filter P g))" by (rule distinct_map_filter)
  then have "length (filter P g) = card (set (map fst (filter P g)))"
    by (metis distinct_card length_map)
  moreover have "set (map fst (filter P g)) = {u. \<exists>v. (u, v) \<in> set g \<and> P (u, v)}"
    by force
  ultimately show ?thesis by simp
qed

lemma incoming_degree:
  assumes "k \<in> set ks"
  shows "dget_or 0 (incoming (dependency_graph f ks)) k
    = int (card {u \<in> set ks. k \<in> set (dget_or [] (dependency_graph f ks) u)})"
proof -
  let ?g = "dependency_graph f ks"
  have "\<And>n deps. (n, deps) \<in> set ?g \<Longrightarrow> distinct deps" by (auto simp: dependency_graph_member)
  then have "dget_or 0 (incoming ?g) k = int (length (filter (\<lambda>p. k \<in> set (snd p)) ?g))"
    using assms incoming_acc [of ?g "zero_degrees (dkeys ?g)" k] by (simp add: incoming_def)
  also have "length (filter (\<lambda>p. k \<in> set (snd p)) ?g)
      = card {u. \<exists>v. (u, v) \<in> set ?g \<and> k \<in> set (snd (u, v))}"
    by (rule filter_card) simp
  also have "{u. \<exists>v. (u, v) \<in> set ?g \<and> k \<in> set (snd (u, v))} = {u \<in> set ks. k \<in> set (dget_or [] ?g u)}"
    by (auto simp: dependency_graph_member dependency_graph_get)
  finally show ?thesis .
qed

lemma incoming_keys: "dkeys (incoming (dependency_graph f ks)) = dedup ks"
  using incoming_acc [of "dependency_graph f ks" "zero_degrees (dedup ks)"]
  by (auto simp: incoming_def dependency_graph_member)

lemma relax_deps_decrement:
  "relax_deps deps (deg, q) = decrement_all (filter (\<lambda>d. d \<in> set (dkeys deg)) deps) (deg, q)"
proof (induction deps arbitrary: deg q)
  case Nil
  then show ?case by (simp add: decrement_all_def)
next
  case (Cons d deps)
  obtain deg' q' where st: "decrement d (deg, q) = (deg', q')" by fastforce
  have "dkeys deg' = dkeys deg" if "d \<in> set (dkeys deg)"
  proof -
    have "deg' = dset d (dget_or 0 deg d - 1) deg" using st by (simp add: decrement_def Let_def)
    then show ?thesis using that by (simp only: dset_keys_order if_True)
  qed
  then have "decrement_all (filter (\<lambda>d. d \<in> set (dkeys deg')) deps) (deg', q')
      = decrement_all (filter (\<lambda>d. d \<in> set (dkeys deg)) deps) (deg', q')" if "dhas d deg"
    using that by (simp only: dhas_def)
  then show ?case using Cons.IH [of deg' q'] Cons.IH [of deg q] st
    by (simp add: dhas_def decrement_all_def)
qed

lemma relax_dependents_decrement:
  "relax_dependents node g st = decrement_all (map fst (filter (\<lambda>p. node \<in> set (snd p)) g)) st"
  by (induction node g st rule: relax_dependents.induct) (auto simp: decrement_all_def)

text \<open>The nodes relaxed with a popped node: its dependencies, or the keys that depend on it.\<close>

definition dependencies_of :: "('a \<Rightarrow> 'a list) \<Rightarrow> 'a list \<Rightarrow> 'a \<Rightarrow> 'a list" where
  "dependencies_of f ks u = dget_or [] (dependency_graph f ks) u"

definition dependents_of :: "('a \<Rightarrow> 'a list) \<Rightarrow> 'a list \<Rightarrow> 'a \<Rightarrow> 'a list" where
  "dependents_of f ks u = map fst (filter (\<lambda>p. u \<in> set (snd p)) (dependency_graph f ks))"

lemma set_dependencies_of:
  "set (dependencies_of f ks u) = (if u \<in> set ks then set (f u) \<inter> set ks else {})"
  by (auto simp: dependencies_of_def dependency_graph_get)

lemma set_dependents_of:
  "set (dependents_of f ks u) = (if u \<in> set ks then {k \<in> set ks. u \<in> set (f k)} else {})"
proof -
  have "k \<in> set (dependents_of f ks u) \<longleftrightarrow> (\<exists>deps. (k, deps) \<in> set (dependency_graph f ks) \<and> u \<in> set deps)" for k
    by (force simp: dependents_of_def)
  then show ?thesis unfolding set_eq_iff by (simp add: dependency_graph_member)
qed

lemma distinct_dependents_of: "distinct (dependents_of f ks u)"
  unfolding dependents_of_def by (rule distinct_map_filter) simp

section \<open>Interpretations\<close>

text \<open>A loop of the form of the contract, whatever the discipline of its queue.\<close>

lemma relax_dependencies_of:
  "dkeys deg = dedup ks \<Longrightarrow>
     relax_deps (dget_or [] (dependency_graph f ks) u) (deg, q)
       = decrement_all (dependencies_of f ks u) (deg, q)"
  by (simp add: relax_deps_decrement dependencies_of_def dependency_graph_get comp_def)

lemma relax_dependents_of:
  "relax_dependents u (dependency_graph f ks) st = decrement_all (dependents_of f ks u) st"
  by (simp only: relax_dependents_decrement dependents_of_def)

lemma loop_empty:
  "cycle_loop g deg [] n = (deg, n)" "metric_loop g' deg' [] out = (deg', out)"
  "topo_loop g' deg' [] out = (deg', out)"
  by (simp_all add: cycle_loop.simps metric_loop.simps topo_loop.simps)

lemma dependencies_nodes: "set (dependencies_of f ks u) \<subseteq> set ks"
  by (simp add: set_dependencies_of)

lemma dependents_nodes: "set (dependents_of f ks u) \<subseteq> set ks"
  by (auto simp: set_dependents_of)

lemma distinct_dependencies_of: "distinct (dependencies_of f ks u)"
  by (simp add: dependencies_of_def dependency_graph_get)

interpretation cycles: kahn "dedup ks" "dependencies_of f ks" "\<lambda>q. (last q, butlast q)" "\<lambda>q. q"
    "\<lambda>n _. n + 1" "cycle_loop (dependency_graph f ks)" for f ks
proof unfold_locales
  fix q :: "'a list"
  assume "q \<noteq> []"
  then show "mset q = add_mset (fst (last q, butlast q)) (mset (snd (last q, butlast q)))"
    by (metis append_butlast_last_id fst_conv mset.simps(1,2) mset_append snd_conv union_mset_add_mset_right add_0_right)
next
  fix q :: "'a list" and deg :: "'a degrees" and r :: nat
  assume "q \<noteq> []" "dkeys deg = dedup ks"
  then show "cycle_loop (dependency_graph f ks) deg q r =
     (let x = fst (last q, butlast q); st = decrement_all (dependencies_of f ks x) (deg, snd (last q, butlast q))
      in cycle_loop (dependency_graph f ks) (fst st) (snd st) (r + 1))"
    by (subst cycle_loop.simps) (simp add: Let_def relax_dependencies_of)
qed (simp_all add: loop_empty distinct_dependencies_of dependencies_nodes)

interpretation metric_order: kahn "dedup ks" "dependents_of f ks" "\<lambda>q. (hd (sort q), tl (sort q))"
    "\<lambda>q. q" "\<lambda>out x. out @ [x]" "metric_loop (dependency_graph f ks)"
    for f :: "'a::linorder \<Rightarrow> 'a list" and ks
proof unfold_locales
  fix q :: "'a list"
  assume "q \<noteq> []"
  then show "mset q = add_mset (fst (hd (sort q), tl (sort q))) (mset (snd (hd (sort q), tl (sort q))))"
    by (metis fst_conv hd_Cons_tl mset.simps(2) mset_sort set_empty2 set_sort snd_conv)
next
  fix q :: "'a list" and deg :: "'a degrees" and r :: "'a list"
  assume "q \<noteq> []"
  then show "metric_loop (dependency_graph f ks) deg q r =
     (let x = fst (hd (sort q), tl (sort q)); st = decrement_all (dependents_of f ks x) (deg, snd (hd (sort q), tl (sort q)))
      in metric_loop (dependency_graph f ks) (fst st) (snd st) (r @ [x]))"
    by (subst metric_loop.simps) (simp only: Let_def if_False relax_dependents_of fst_conv snd_conv)
qed (simp_all only: loop_empty distinct_dependents_of dependents_nodes distinct_dedup set_dedup mset_sort)

interpretation topo_order: kahn "dedup ks" "dependents_of f ks" "\<lambda>q. (hd q, tl q)"
    sort "\<lambda>out x. out @ [x]" "topo_loop (dependency_graph f ks)"
    for f :: "'a::linorder \<Rightarrow> 'a list" and ks
proof unfold_locales
  fix q :: "'a list"
  assume "q \<noteq> []"
  then show "mset q = add_mset (fst (hd q, tl q)) (mset (snd (hd q, tl q)))"
    by (cases q) simp_all
next
  fix q :: "'a list" and deg :: "'a degrees" and r :: "'a list"
  assume "q \<noteq> []"
  then show "topo_loop (dependency_graph f ks) deg q r =
     (let x = fst (hd q, tl q); st = decrement_all (dependents_of f ks x) (deg, snd (hd q, tl q))
      in topo_loop (dependency_graph f ks) (fst st) (sort (snd st)) (r @ [x]))"
    by (subst topo_loop.simps) (simp only: Let_def if_False relax_dependents_of fst_conv snd_conv)
qed (simp_all only: loop_empty distinct_dependents_of dependents_nodes distinct_dedup set_dedup mset_sort)

section \<open>Correctness\<close>

text \<open>\<open>depends f ks\<close>: the dependency relation restricted to the given keys.\<close>

definition depends :: "('a \<Rightarrow> 'a list) \<Rightarrow> 'a list \<Rightarrow> ('a \<times> 'a) set" where
  "depends f ks = {(k, d). k \<in> set ks \<and> d \<in> set ks \<and> d \<in> set (f k)}"

text \<open>Every key comes after all of its dependencies among the given keys.\<close>

definition dependencies_first :: "('a \<Rightarrow> 'a list) \<Rightarrow> 'a list \<Rightarrow> 'a list \<Rightarrow> bool" where
  "dependencies_first f ks out \<longleftrightarrow>
     (\<forall>xs k ys. out = xs @ k # ys \<longrightarrow> set (f k) \<inter> set ks \<subseteq> set xs)"

lemma edges_dependencies: "edges (dedup ks) (dependencies_of f ks) = depends f ks"
  by (auto simp: edges_def depends_def set_dependencies_of split: if_splits)

lemma edges_dependents: "edges (dedup ks) (dependents_of f ks) = (depends f ks)\<inverse>"
  by (auto simp: edges_def depends_def set_dependents_of split: if_splits)

lemma outgoing_acc:
  assumes "distinct (map fst g)"
  shows "dkeys (fold (\<lambda>(key, deps). fold (\<lambda>_ deg. dset key (dget_or 0 deg key + 1) deg) deps) g deg)
      = dedup_acc (dkeys deg) (map fst (filter (\<lambda>p. snd p \<noteq> []) g))
    \<and> dget_or 0 (fold (\<lambda>(key, deps). fold (\<lambda>_ deg. dset key (dget_or 0 deg key + 1) deg) deps) g deg) k
      = dget_or 0 deg k + (case map_of g k of None \<Rightarrow> 0 | Some deps \<Rightarrow> int (length deps))"
  using assms
proof (induction g arbitrary: deg)
  case Nil
  then show ?case by simp
next
  case (Cons p g)
  obtain key deps where p: "p = (key, deps)" by (cases p)
  let ?d = "fold (\<lambda>_ deg. dset key (dget_or 0 deg key + 1) deg) deps deg"
  have inner: "dkeys (fold (\<lambda>_ deg. dset key (dget_or (0::int) deg key + 1) deg) ds e)
        = (if ds = [] \<or> key \<in> set (dkeys e) then dkeys e else dkeys e @ [key])
      \<and> dget_or 0 (fold (\<lambda>_ deg. dset key (dget_or 0 deg key + 1) deg) ds e) k
        = dget_or 0 e k + (if k = key then int (length ds) else 0)" for ds :: "'b list" and e
  proof (induction ds arbitrary: e)
    case Nil
    then show ?case by simp
  next
    case (Cons d ds)
    show ?case using Cons.IH [of "dset key (dget_or 0 e key + 1) e"]
      by (auto simp only: fold_simps comp_apply dset_keys_order dget_or_dset split: if_splits) auto
  qed
  note i = inner [of deps deg]
  have none: "map_of g key = None" using Cons.prems p by (simp add: map_of_eq_None_iff)
  have "distinct (map fst g)" using Cons.prems by simp
  note IH = Cons.IH [OF this, of ?d]
  show ?case
  proof
    show "dkeys (fold (\<lambda>(key, deps). fold (\<lambda>_ deg. dset key (dget_or 0 deg key + 1) deg) deps) (p # g) deg)
        = dedup_acc (dkeys deg) (map fst (filter (\<lambda>p. snd p \<noteq> []) (p # g)))"
      using IH i by (simp only: p fold_simps comp_apply prod.case) simp
    show "dget_or 0 (fold (\<lambda>(key, deps). fold (\<lambda>_ deg. dset key (dget_or 0 deg key + 1) deg) deps) (p # g) deg) k
        = dget_or 0 deg k + (case map_of (p # g) k of None \<Rightarrow> 0 | Some deps \<Rightarrow> int (length deps))"
      using IH i none by (simp only: p fold_simps comp_apply prod.case) simp
  qed
qed

lemma dedup_acc_id: "set xs \<subseteq> set acc \<Longrightarrow> dedup_acc acc xs = acc"
  by (induction xs) auto

lemma outgoing_keys: "dkeys (outgoing (dependency_graph f ks)) = dedup ks"
proof -
  have "set (map fst (filter (\<lambda>p. snd p \<noteq> []) (dependency_graph f ks))) \<subseteq> set (dedup ks)"
    by (auto simp: dependency_graph_member)
  then show ?thesis
    using outgoing_acc [of "dependency_graph f ks" "zero_degrees (dedup ks)"]
    by (simp add: outgoing_def dedup_acc_id)
qed

lemma outgoing_degree:
  assumes "k \<in> set ks"
  shows "dget_or 0 (outgoing (dependency_graph f ks)) k
    = int (card {u \<in> set (dedup ks). k \<in> set (dependents_of f ks u)})"
proof -
  let ?deps = "filter (\<lambda>d. d \<in> set ks) (remdups (f k))"
  have "dget_or 0 (outgoing (dependency_graph f ks)) k = int (length ?deps)"
    using assms outgoing_acc [of "dependency_graph f ks" "zero_degrees (dedup ks)" k]
    by (simp add: outgoing_def dependency_graph_def dget_dict_of)
  also have "length ?deps = card (set ?deps)" by (rule distinct_card [symmetric]) simp
  also have "set ?deps = {u \<in> set (dedup ks). k \<in> set (dependents_of f ks u)}"
    using assms by (auto simp: set_dependents_of)
  finally show ?thesis .
qed

lemma cycle_loop_left:
  obtains out where
    "ready_invariant (dedup ks) (dependencies_of f ks)
       (fst (cycle_loop (dependency_graph f ks) (incoming (dependency_graph f ks))
              (ready (incoming (dependency_graph f ks))) 0)) [] out"
proof -
  let ?g = "dependency_graph f ks"
  have "ready_invariant (dedup ks) (dependencies_of f ks) (incoming ?g) (ready (incoming ?g)) []"
    by (rule cycles.initial_invariant)
       (simp_all add: incoming_keys incoming_degree ready_filter dependencies_of_def)
  from cycles.run_invariant [OF this surjective_pairing, of 0] that show thesis by auto
qed

lemma sort_result:
  fixes f :: "'a::linorder \<Rightarrow> 'a list"
  assumes "ready_invariant (dedup ks) (dependents_of f ks) deg [] out"
  shows "distinct out" and "set out \<subseteq> set ks" and "dependencies_first f ks out"
    and "set out = set ks \<longleftrightarrow> acyclic (depends f ks)"
proof -
  show "distinct out" "set out \<subseteq> set ks" using ready_invariantD(2,3) [OF assms] by simp_all
  show "dependencies_first f ks out"
    unfolding dependencies_first_def
  proof (intro allI impI subsetI)
    fix xs k ys u
    assume out: "out = xs @ k # ys" and u: "u \<in> set (f k) \<inter> set ks"
    then have "k \<in> set ks" using \<open>set out \<subseteq> set ks\<close> by auto
    then show "u \<in> set xs"
      using topo_order.output_order [OF assms out, of u] u by (auto simp: set_dependents_of)
  qed
  show "set out = set ks \<longleftrightarrow> acyclic (depends f ks)"
    using topo_order.complete_acyclic [OF assms] topo_order.acyclic_complete [OF assms]
    unfolding edges_dependents acyclic_converse set_dedup by blast
qed

lemma outgoing_invariant:
  fixes f :: "'a::linorder \<Rightarrow> 'a list"
  assumes "mset q = mset (ready (outgoing (dependency_graph f ks)))"
  shows "ready_invariant (dedup ks) (dependents_of f ks) (outgoing (dependency_graph f ks)) q []"
  by (rule topo_order.initial_invariant)
     (simp_all add: assms outgoing_keys outgoing_degree ready_filter)

lemma foldl_snoc: "foldl (\<lambda>out x. out @ [x]) acc ys = acc @ ys"
  by (induction ys arbitrary: acc) simp_all

lemma metric_sort_invariant:
  "\<exists>deg. ready_invariant (dedup ks) (dependents_of f ks) deg [] (metric_sort (dependency_graph f ks))"
proof -
  let ?g = "dependency_graph f ks"
  obtain deg' r' where run: "metric_loop ?g (outgoing ?g) (ready (outgoing ?g)) [] = (deg', r')" by fastforce
  from metric_order.run_invariant [OF outgoing_invariant [OF refl] run]
  show ?thesis unfolding metric_sort_def run by (auto simp: foldl_snoc)
qed

lemmas metric_sort_correct = sort_result [OF someI_ex [OF metric_sort_invariant]]

lemma topo_sort_invariant:
  "\<exists>deg. ready_invariant (dedup ks) (dependents_of f ks) deg []
     (snd (topo_loop (dependency_graph f ks) (outgoing (dependency_graph f ks))
       (sort (ready (outgoing (dependency_graph f ks)))) []))"
proof -
  let ?g = "dependency_graph f ks"
  obtain deg' r' where run: "topo_loop ?g (outgoing ?g) (sort (ready (outgoing ?g))) [] = (deg', r')" by fastforce
  from topo_order.run_invariant [OF outgoing_invariant [of "sort (ready (outgoing ?g))", OF mset_sort] run]
  show ?thesis unfolding run by (auto simp: foldl_snoc)
qed

lemma positive_keys:
  fixes deg :: "'a degrees"
  assumes "distinct (dkeys deg)"
  shows "map fst (filter (\<lambda>p. 0 < snd p) deg) = [] \<longleftrightarrow> (\<forall>k \<in> set (dkeys deg). dget_or 0 deg k \<le> 0)"
proof -
  have get: "snd p = dget_or 0 deg (fst p)" if "p \<in> set deg" for p
    using that map_of_is_SomeI [OF assms, of "fst p" "snd p"] by (simp add: dget_or_def)
  have "map fst (filter (\<lambda>p. 0 < snd p) deg) = [] \<longleftrightarrow> (\<forall>p \<in> set deg. snd p \<le> 0)"
    by (simp add: filter_empty_conv not_less)
  also have "\<dots> \<longleftrightarrow> (\<forall>p \<in> set deg. dget_or 0 deg (fst p) \<le> 0)" using get by metis
  finally show ?thesis by simp
qed

lemma has_cycle_None_iff:
  "has_cycle (dependency_graph f ks) = None \<longleftrightarrow> acyclic (depends f ks)"
proof -
  let ?g = "dependency_graph f ks"
  let ?deg = "fst (cycle_loop ?g (incoming ?g) (ready (incoming ?g)) 0)"
  obtain out where inv: "ready_invariant (dedup ks) (dependencies_of f ks) ?deg [] out"
    by (rule cycle_loop_left)
  note facts = ready_invariantD [OF inv]
  have keys: "dkeys ?deg = dedup ks" by (rule facts(1))
  have sub: "set out \<subseteq> set ks" using facts(3) by simp
  have zero: "dget_or 0 ?deg k = 0 \<longleftrightarrow> k \<in> set out" if "k \<in> set ks" for k
    using facts(5) [of k] that by simp
  have pos: "0 \<le> dget_or 0 ?deg k" if "k \<in> set ks" for k
    using facts(4) [of k] that by simp
  have "has_cycle ?g = None \<longleftrightarrow> (\<forall>k \<in> set ks. dget_or 0 ?deg k \<le> 0)"
    unfolding has_cycle_def Let_def using positive_keys [of ?deg] keys by simp
  also have "\<dots> \<longleftrightarrow> set out = set ks"
    using zero pos sub by force
  also have "\<dots> \<longleftrightarrow> acyclic (depends f ks)"
    using cycles.complete_acyclic [OF inv] cycles.acyclic_complete [OF inv]
    unfolding edges_dependencies set_dedup by blast
  finally show ?thesis .
qed

text \<open>
  The catalogue's cycle check is exact. For any dependency map it reports no cycle if and only if
  the dependencies among the keys are acyclic.
\<close>

theorem has_cycle_exact:
  "has_cycle (dependency_graph f ks) = None \<longleftrightarrow> acyclic (depends f ks)"
  by (rule has_cycle_None_iff)

lemma topological_sort_facts:
  assumes "distinct ks"
  shows "case topological_sort_dependencies ks f of
      Inr out \<Rightarrow> distinct out \<and> set out = set ks \<and> dependencies_first f ks out \<and> acyclic (depends f ks)
    | Inl e \<Rightarrow> \<not> acyclic (depends f ks)"
proof -
  let ?g = "dependency_graph f ks"
  define out where "out = snd (topo_loop ?g (outgoing ?g) (sort (ready (outgoing ?g))) [])"
  obtain deg where "ready_invariant (dedup ks) (dependents_of f ks) deg [] out"
    using topo_sort_invariant [of ks f] by (auto simp: out_def)
  note r = sort_result [OF this]
  have "length out = length ks \<longleftrightarrow> set out = set ks"
    using r(1,2) assms by (metis card_subset_eq distinct_card finite_set)
  then show ?thesis
    using r by (auto simp: topological_sort_dependencies_def Let_def out_def [symmetric])
qed

text \<open>
  C13: Sorting the computed scenarios. On distinct keys the result lists every key once, each after
  the keys it depends on; the sort fails exactly when the dependencies among the keys are circular.
\<close>

theorem topological_sort_correct:
  assumes "distinct ks"
  shows "case topological_sort_dependencies ks f of
      Inr out \<Rightarrow> distinct out \<and> set out = set ks \<and> dependencies_first f ks out \<and> acyclic (depends f ks)
    | Inl e \<Rightarrow> \<not> acyclic (depends f ks)"
  using topological_sort_facts [OF assms] .

theorem topological_sort_correct_witness:
  "topological_sort_dependencies [''c'', ''a'', ''b''] (\<lambda>k. if k = ''c'' then [''b'', ''a''] else if k = ''b'' then [''a''] else [])
     = Inr [''a'', ''b'', ''c'']
   \<and> dependencies_first (\<lambda>k. if k = ''c'' then [''b'', ''a''] else if k = ''b'' then [''a''] else [])
       [''c'', ''a'', ''b''] [''a'', ''b'', ''c'']"
proof -
  let ?f = "\<lambda>k::string. if k = ''c'' then [''b'', ''a''] else if k = ''b'' then [''a''] else []"
  have run: "topological_sort_dependencies [''c'', ''a'', ''b''] ?f = Inr [''a'', ''b'', ''c'']"
    by code_simp
  show ?thesis using topological_sort_correct [of "[''c'', ''a'', ''b'']" ?f] by (simp add: run)
qed

end
