(* ===== verification/Expressions.thy ===== *)
theory Expressions
  imports PyText
begin

text \<open>
  Formulas: the part of Python's expression syntax the program distinguishes, the names of a formula
  (\<open>_extract_names_from_formula\<close> and \<open>_metric_refs\<close> of \<open>engine/catalogue.py\<close>) and its evaluation
  (\<open>_eval_node\<close> and \<open>evaluate_expression\<close> of \<open>engine/transformer.py\<close>).

  \<open>ast.parse(formula, mode="eval")\<close> is the parameter \<open>parse\<close>, where \<^const>\<open>None\<close> is a
  \<open>SyntaxError\<close>. Floats are a type \<open>'f\<close> with the operations the evaluator applies, so no rounding
  behaviour is assumed; \<open>float(n)\<close> of an integer may overflow. \<^const>\<open>None\<close> as a value is
  Python's \<open>None\<close>. The lemmas show which formulas cannot raise, that a result depends only on the
  formula's own variables, and that \<^const>\<open>None\<close> propagates.
\<close>

named_theorems eval_simps \<open>evaluation of formulas\<close>

section \<open>Syntax\<close>

datatype unaryop = USub | UAdd | OtherUnary string

datatype binop = Add | Sub | Mult | Div | OtherBin string

datatype 'f const = CInt int | CFloat 'f | CBool bool | COther string

text \<open>
  \<open>Call func args keywords\<close> keeps the values of the keyword arguments; \<open>OtherNode\<close> stands for every
  other node type, with the expressions below it.
\<close>

datatype 'f expr =
    Constant "'f const"
  | Name string
  | UnaryOp unaryop "'f expr"
  | BinOp "'f expr" binop "'f expr"
  | Call "'f expr" "'f expr list" "'f expr list"
  | IfExp "'f expr" "'f expr" "'f expr"
  | Attribute "'f expr" string
  | OtherNode string "'f expr list"

record 'f arith =
  of_integer :: "int \<Rightarrow> 'f option"
  add :: "'f \<Rightarrow> 'f \<Rightarrow> 'f"
  sub :: "'f \<Rightarrow> 'f \<Rightarrow> 'f"
  mul :: "'f \<Rightarrow> 'f \<Rightarrow> 'f"
  divide_by :: "'f \<Rightarrow> 'f \<Rightarrow> 'f"
  neg :: "'f \<Rightarrow> 'f"
  absolute :: "'f \<Rightarrow> 'f"
  is_zero :: "'f \<Rightarrow> bool"

type_synonym 'f parser = "string \<Rightarrow> 'f expr option"

type_synonym 'f variables = "(string, 'f option) dict"

text \<open>\<open>ast.walk\<close>: every expression node; the program only tests membership.\<close>

fun walk :: "'f expr \<Rightarrow> 'f expr list" where
  "walk (Constant c) = [Constant c]"
| "walk (Name x) = [Name x]"
| "walk (UnaryOp u e) = UnaryOp u e # walk e"
| "walk (BinOp l b r) = BinOp l b r # walk l @ walk r"
| "walk (Call f args kws) = Call f args kws # walk f @ concat (map walk args) @ concat (map walk kws)"
| "walk (IfExp t b e) = IfExp t b e # walk t @ walk b @ walk e"
| "walk (Attribute e a) = Attribute e a # walk e"
| "walk (OtherNode n es) = OtherNode n es # concat (map walk es)"

definition names_of :: "'f expr \<Rightarrow> string list" where
  "names_of e = remdups (concat (map (\<lambda>n. case n of Name x \<Rightarrow> [x] | _ \<Rightarrow> []) (walk e)))"

datatype formula_error = InvalidFormula string

(* engine/catalogue.py:440-454 _extract_names_from_formula *)
definition extract_names_from_formula :: "'f parser \<Rightarrow> string \<Rightarrow> (formula_error, string list) res" where
  "extract_names_from_formula parse formula =
     res_map names_of (res_of_option (InvalidFormula formula) (parse formula))"

(* engine/catalogue.py:457-457 _PYTHON_BUILTINS *)
definition PYTHON_BUILTINS :: "string list" where
  "PYTHON_BUILTINS = [''abs'', ''round'', ''min'', ''max'', ''sum'', ''len'', ''int'', ''float'', ''bool'']"

(* engine/catalogue.py:460-461 _metric_refs *)
definition metric_refs :: "'f parser \<Rightarrow> string \<Rightarrow> (formula_error, string list) res" where
  "metric_refs parse formula =
     res_map (filter (\<lambda>x. x \<notin> set PYTHON_BUILTINS)) (extract_names_from_formula parse formula)"

section \<open>Evaluation\<close>

(* engine/transformer.py:20-22 ExpressionError *)
datatype expression_error =
    UnsupportedConstant string
  | UnknownVariable string
  | UnsupportedUnary string
  | UnsupportedBinary string
  | AttributeCall
  | UnsupportedFunction string
  | AbsArguments
  | AttributeAccess
  | UnsupportedNode string
  | InvalidSyntax string
  | OverflowError int

definition float_of :: "'f arith \<Rightarrow> int \<Rightarrow> (expression_error, 'f option) res" where
  "float_of a n = res_map Some (res_of_option (OverflowError n) (of_integer a n))"

(* engine/transformer.py:31-34 _eval_node *)
fun eval_constant :: "'f arith \<Rightarrow> 'f const \<Rightarrow> (expression_error, 'f option) res" where
  "eval_constant a (CInt n) = float_of a n"
| "eval_constant a (CFloat x) = Inr (Some x)"
| "eval_constant a (CBool b) = float_of a (if b then 1 else 0)"
| "eval_constant a (COther t) = Inl (UnsupportedConstant t)"

(* engine/transformer.py:36-41 _eval_node *)
definition eval_name :: "'f variables \<Rightarrow> string \<Rightarrow> (expression_error, 'f option) res" where
  "eval_name variables x = res_of_option (UnknownVariable x) (dget variables x)"

(* engine/transformer.py:44-55 _eval_node *)
fun eval_unary :: "'f arith \<Rightarrow> unaryop \<Rightarrow> (expression_error, 'f option) res \<Rightarrow> (expression_error, 'f option) res" where
  "eval_unary a USub operand = res_map (map_option (neg a)) operand"
| "eval_unary a UAdd operand = operand"
| "eval_unary a (OtherUnary n) operand = Inl (UnsupportedUnary n)"

(* engine/transformer.py:61-78 _eval_node *)
definition eval_binary :: "'f arith \<Rightarrow> binop \<Rightarrow> 'f option \<Rightarrow> 'f option \<Rightarrow> (expression_error, 'f option) res" where
  "eval_binary a b left right =
     (case (left, right) of
        (Some x, Some y) \<Rightarrow>
          (case b of
             Add \<Rightarrow> Inr (Some (add a x y))
           | Sub \<Rightarrow> Inr (Some (sub a x y))
           | Mult \<Rightarrow> Inr (Some (mul a x y))
           | Div \<Rightarrow> Inr (if is_zero a y then None else Some (divide_by a x y))
           | OtherBin n \<Rightarrow> Inl (UnsupportedBinary n))
      | _ \<Rightarrow> Inr None)"

(* engine/transformer.py:25-116 _eval_node *)
fun eval_node :: "'f arith \<Rightarrow> 'f variables \<Rightarrow> 'f expr \<Rightarrow> (expression_error, 'f option) res" where
  "eval_node a variables (Constant c) = eval_constant a c"
| "eval_node a variables (Name x) = eval_name variables x"
| "eval_node a variables (UnaryOp u e) = eval_unary a u (eval_node a variables e)"
| "eval_node a variables (BinOp l b r) =
     res_bind (eval_node a variables l) (\<lambda>left.
     res_bind (eval_node a variables r) (\<lambda>right.
       eval_binary a b left right))"
| "eval_node a variables (Call f args kws) =
     (case f of
        Name func_name \<Rightarrow>
          if func_name \<noteq> ''abs'' then Inl (UnsupportedFunction func_name)
          else (case args of
                  [arg] \<Rightarrow> if kws \<noteq> [] then Inl AbsArguments
                           else res_map (map_option (absolute a)) (eval_node a variables arg)
                | _ \<Rightarrow> Inl AbsArguments)
      | _ \<Rightarrow> Inl AttributeCall)"
| "eval_node a variables (IfExp test body orelse) =
     res_bind (eval_node a variables test) (\<lambda>test_val.
       case test_val of
         Some t \<Rightarrow> if is_zero a t then eval_node a variables orelse else eval_node a variables body
       | None \<Rightarrow> eval_node a variables orelse)"
| "eval_node a variables (Attribute e x) = Inl AttributeAccess"
| "eval_node a variables (OtherNode n es) = Inl (UnsupportedNode n)"

definition has_attribute :: "'f expr \<Rightarrow> bool" where
  "has_attribute e = (\<exists>n\<in>set (walk e). case n of Attribute _ _ \<Rightarrow> True | _ \<Rightarrow> False)"

(* engine/transformer.py:119-152 evaluate_expression *)
definition evaluate_expression ::
  "'f arith \<Rightarrow> 'f parser \<Rightarrow> string \<Rightarrow> 'f variables \<Rightarrow> (expression_error, 'f option) res" where
  "evaluate_expression a parse formula variables =
     res_bind (res_of_option (InvalidSyntax formula) (parse formula)) (\<lambda>tree.
     res_bind (res_guard (\<not> has_attribute tree) AttributeAccess) (\<lambda>_.
       eval_node a variables tree))"

section \<open>Formulas that cannot raise\<close>

text \<open>The constructs the evaluator's documentation lists.\<close>

fun supported :: "'f arith \<Rightarrow> 'f expr \<Rightarrow> bool" where
  "supported a (Constant c) = is_ok (eval_constant a c)"
| "supported a (Name x) = True"
| "supported a (UnaryOp u e) = ((u = USub \<or> u = UAdd) \<and> supported a e)"
| "supported a (BinOp l b r) = (b \<in> {Add, Sub, Mult, Div} \<and> supported a l \<and> supported a r)"
| "supported a (Call f args kws) = (f = Name ''abs'' \<and> kws = [] \<and> length args = 1 \<and> list_all (supported a) args)"
| "supported a (IfExp t b e) = (supported a t \<and> supported a b \<and> supported a e)"
| "supported a (Attribute e x) = False"
| "supported a (OtherNode n es) = False"

text \<open>The names a formula reads as variables: the function position of a call is not one.\<close>

fun variables_of :: "'f expr \<Rightarrow> string set" where
  "variables_of (Constant c) = {}"
| "variables_of (Name x) = {x}"
| "variables_of (UnaryOp u e) = variables_of e"
| "variables_of (BinOp l b r) = variables_of l \<union> variables_of r"
| "variables_of (Call f args kws) = \<Union> (set (map variables_of args))"
| "variables_of (IfExp t b e) = variables_of t \<union> variables_of b \<union> variables_of e"
| "variables_of (Attribute e x) = {}"
| "variables_of (OtherNode n es) = {}"

lemma walk_no_attribute: "supported a e \<Longrightarrow> \<not> has_attribute e"
  by (induction e rule: walk.induct) (auto simp: has_attribute_def list_all_iff)

lemma variables_walk: "x \<in> variables_of e \<Longrightarrow> Name x \<in> set (walk e)"
  by (induction e rule: walk.induct) auto

lemma variables_names: "variables_of e \<subseteq> set (names_of e)"
  by (force simp: names_of_def dest: variables_walk)

lemma eval_binary_total: "b \<in> {Add, Sub, Mult, Div} \<Longrightarrow> \<exists>v. eval_binary a b l r = Inr v"
  by (auto simp: eval_binary_def split: option.splits)

text \<open>A supported formula whose variables are all known never raises.\<close>

lemma eval_node_total:
  "supported a e \<Longrightarrow> (\<And>x. x \<in> variables_of e \<Longrightarrow> dget variables x \<noteq> None) \<Longrightarrow>
     \<exists>v. eval_node a variables e = Inr v"
proof (induction a variables e rule: eval_node.induct)
  case (1 a variables c)
  then show ?case by (simp add: is_ok_iff)
next
  case (2 a variables x)
  then show ?case by (auto simp: eval_name_def)
next
  case (3 a variables u e)
  then obtain v where "eval_node a variables e = Inr v" by auto
  then show ?case using "3.prems"(1) by auto
next
  case (4 a variables l b r)
  then obtain x y where xy: "eval_node a variables l = Inr x" "eval_node a variables r = Inr y" by force
  then show ?case using "4.prems"(1) eval_binary_total [of b a x y] by simp
next
  case (5 a variables f args kws)
  then obtain arg where arg: "f = Name ''abs''" "args = [arg]" "kws = []"
    by (cases args) auto
  then obtain v where "eval_node a variables arg = Inr v" using 5 by fastforce
  then show ?case using arg by simp
next
  case (6 a variables t b e)
  then obtain x where x: "eval_node a variables t = Inr x" by force
  show ?case
  proof (cases "\<exists>v. x = Some v \<and> \<not> is_zero a v")
    case True
    then have "\<exists>v. eval_node a variables b = Inr v" using 6 x by force
    then show ?thesis using True x by auto
  next
    case False
    then have "\<exists>v. eval_node a variables e = Inr v" using 6 x by (cases x) force+
    then show ?thesis using False x by (cases x) auto
  qed
qed simp_all

text \<open>The result depends only on the formula's own variables.\<close>

lemma eval_node_cong:
  "(\<And>x. x \<in> variables_of e \<Longrightarrow> dget env1 x = dget env2 x) \<Longrightarrow> eval_node a env1 e = eval_node a env2 e"
proof (induction a env1 e rule: eval_node.induct)
  case (4 a variables l b r)
  then have "eval_node a variables l = eval_node a env2 l" "eval_node a variables r = eval_node a env2 r"
    by auto
  then show ?case by simp
next
  case (5 a variables f args kws)
  then show ?case by (auto split: expr.splits list.splits)
next
  case (6 a variables t b e)
  have t: "eval_node a variables t = eval_node a env2 t" using 6 by simp
  show ?case
  proof (cases "eval_node a env2 t")
    case (Inl err)
    then show ?thesis using t by simp
  next
    case (Inr v)
    then show ?thesis using 6 t by (auto split: option.splits)
  qed
qed (simp_all add: eval_name_def)

text \<open>
  No operation but the conditional turns \<^const>\<open>None\<close> into a number: outside conditionals a number
  comes from numbers only.
\<close>

fun conditional_free :: "'f expr \<Rightarrow> bool" where
  "conditional_free (UnaryOp u e) = conditional_free e"
| "conditional_free (BinOp l b r) = (conditional_free l \<and> conditional_free r)"
| "conditional_free (Call f args kws) = list_all conditional_free args"
| "conditional_free (IfExp t b e) = False"
| "conditional_free _ = True"

lemma res_map_option:
  "res_map (map_option f) r = Inr (Some v) \<longleftrightarrow> (\<exists>w. r = Inr (Some w) \<and> v = f w)"
  by (cases r) (auto simp: map_option_case split: option.splits)

lemma eval_node_numbers:
  "eval_node a env e = Inr (Some v) \<Longrightarrow> conditional_free e \<Longrightarrow> x \<in> variables_of e \<Longrightarrow> \<exists>w. dget env x = Some (Some w)"
proof (induction a env e arbitrary: v rule: eval_node.induct)
  case (3 a variables u e)
  then have "\<exists>w. eval_node a variables e = Inr (Some w)"
    by (cases u) (auto simp: res_map_option)
  then show ?case using 3 by auto
next
  case (4 a variables l b r)
  then obtain p q where "eval_node a variables l = Inr p" "eval_node a variables r = Inr q"
    "eval_binary a b p q = Inr (Some v)"
    by (auto simp: res_bind_eq_Inr)
  moreover from this(3) obtain p' q' where "p = Some p'" "q = Some q'"
    by (auto simp: eval_binary_def split: option.splits)
  ultimately show ?case using 4 by auto
next
  case (5 a variables f args kws)
  then obtain arg w where arg: "f = Name ''abs''" "args = [arg]" "kws = []"
    "eval_node a variables arg = Inr (Some w)"
    by (auto simp: res_map_option split: expr.splits list.splits if_splits)
  then show ?case using 5 by auto
qed (auto simp: eval_name_def res_of_option_eq_Inr)

lemma evaluate_expression_total:
  assumes "parse formula = Some e" and "supported a e"
    and "\<And>x. x \<in> variables_of e \<Longrightarrow> dget variables x \<noteq> None"
  shows "\<exists>v. evaluate_expression a parse formula variables = Inr v"
  using assms walk_no_attribute [OF assms(2)] eval_node_total [OF assms(2,3)]
  by (simp add: evaluate_expression_def)

lemma evaluate_expression_cong:
  assumes "\<And>e x. parse formula = Some e \<Longrightarrow> x \<in> variables_of e \<Longrightarrow> dget env1 x = dget env2 x"
  shows "evaluate_expression a parse formula env1 = evaluate_expression a parse formula env2"
proof (cases "parse formula")
  case None
  then show ?thesis by (simp add: evaluate_expression_def)
next
  case (Some e)
  then have "eval_node a env1 e = eval_node a env2 e" using assms by (intro eval_node_cong) blast
  then show ?thesis using Some by (simp add: evaluate_expression_def)
qed

end
