(* ===== verification/CatalogueModel.thy ===== *)
theory CatalogueModel
  imports Periods Expressions
begin

text \<open>
  The data of \<open>engine/catalogue.py\<close>: metrics, dimensions, statements, domains and plan datasets,
  one record or datatype per class, and the \<open>Catalogue\<close> that holds them in insertion-ordered
  dictionaries. Optional fields are options; \<open>Literal\<close> types are datatypes. A YAML scalar of type
  \<open>Any\<close> is a \<open>scalar\<close>, with a float kept as its text.
\<close>

section \<open>Literals\<close>

datatype aggregation = AggSum | AggCount | AggCountDistinct | AggAvg | AggMin | AggMax

datatype rollup_method = RollSum | RollAvg | RollClosing

datatype metric_format = FmtCurrency | FmtPercent | FmtNumber

datatype metric_style = StyleHeader | StyleDefault | StyleSubtotal | StyleTotal | StyleRatio

datatype variance_effect = Natural | Inverse | Neutral

datatype backend_kind = ClickHouse | Ibis

datatype sign = SignRaw | SignAbs | SignNegate

datatype predicate_op =
    OpEq | OpNeq | OpIn | OpNotIn | OpGt | OpGte | OpLt | OpLte | OpIsNull | OpIsNotNull

datatype ragged_source_type = Generated | Provided

datatype extendability = SourceMastered | Admin | PlannerExtendable

datatype scalar = SBool bool | SInt int | SFloat string | SText string

(* engine/catalogue.py:39-39 _PREDICATE_VALUE_OPS *)
definition PREDICATE_VALUE_OPS :: "predicate_op list" where
  "PREDICATE_VALUE_OPS = [OpEq, OpNeq, OpGt, OpGte, OpLt, OpLte]"

(* engine/catalogue.py:40-40 _PREDICATE_VALUES_OPS *)
definition PREDICATE_VALUES_OPS :: "predicate_op list" where
  "PREDICATE_VALUES_OPS = [OpIn, OpNotIn]"

(* engine/catalogue.py:41-41 _PREDICATE_NULL_OPS *)
definition PREDICATE_NULL_OPS :: "predicate_op list" where
  "PREDICATE_NULL_OPS = [OpIsNull, OpIsNotNull]"

text \<open>\<open>[a-zA-Z_]\<close> and \<open>[a-zA-Z0-9_]\<close>, and \<open>$\<close>, which also matches before a final newline.\<close>

definition ident_start :: "char \<Rightarrow> bool" where
  "ident_start c = ((CHR ''a'' \<le> c \<and> c \<le> CHR ''z'') \<or> (CHR ''A'' \<le> c \<and> c \<le> CHR ''Z'') \<or> c = CHR ''_'')"

definition ident_char :: "char \<Rightarrow> bool" where
  "ident_char c = (ident_start c \<or> is_digit c)"

(* engine/catalogue.py:42-42 _SAFE_IDENTIFIER_RE *)
definition safe_identifier :: "string \<Rightarrow> bool" where
  "safe_identifier s =
     (case s of [] \<Rightarrow> False
      | c # cs \<Rightarrow> ident_start c \<and>
          (list_all ident_char cs
           \<or> (cs \<noteq> [] \<and> last cs = CHR 0x0A \<and> list_all ident_char (butlast cs))))"

section \<open>Metrics\<close>

(* engine/catalogue.py:49-58 MetricPredicate *)
record metric_predicate =
  mp_column :: string
  mp_op :: predicate_op
  mp_value :: "scalar option"
  mp_values :: "scalar list"

(* engine/catalogue.py:61-81 BaseMetric *)
record base_metric =
  bm_key :: string
  bm_label :: string
  source_column :: string
  bm_aggregation :: aggregation
  bm_rollup_method :: rollup_method
  bm_sign :: sign
  bm_format :: metric_format
  bm_fs_group :: string
  bm_domain :: string
  bm_style :: metric_style
  bm_indent :: int
  bm_separator_above :: bool
  bm_hide_if_zero :: bool
  bm_scale_exempt :: bool
  bm_variance_effect :: variance_effect
  bm_where :: "metric_predicate list"

(* engine/catalogue.py:84-99 DerivedMetric *)
record derived_metric =
  dm_key :: string
  dm_label :: string
  formula :: string
  dm_format :: metric_format
  dm_fs_group :: string
  dm_style :: metric_style
  dm_indent :: int
  dm_separator_above :: bool
  dm_hide_if_zero :: bool
  dm_scale_exempt :: bool
  dm_variance_effect :: variance_effect

(* engine/catalogue.py:102-102 Metric *)
datatype metric = BaseMetric base_metric | DerivedMetric derived_metric

fun is_base :: "metric \<Rightarrow> bool" where
  "is_base (BaseMetric _) = True"
| "is_base (DerivedMetric _) = False"

fun metric_key :: "metric \<Rightarrow> string" where
  "metric_key (BaseMetric m) = bm_key m"
| "metric_key (DerivedMetric m) = dm_key m"

section \<open>Dimensions\<close>

(* engine/catalogue.py:110-124 DimensionAttribute *)
record dimension_attribute =
  at_label :: string
  at_values :: "string list"
  at_references :: string
  at_unique :: bool

(* engine/catalogue.py:127-133 DimensionSource *)
record dimension_source =
  ds_table :: string
  ds_key_column :: string
  attribute_mapping :: "(string, string) dict"

(* engine/catalogue.py:136-142 DerivedFrom *)
record derived_from =
  df_dimension :: string
  df_source_column :: string

(* engine/catalogue.py:145-149 ParentRelationship *)
record parent_relationship =
  pr_source_column :: string

(* engine/catalogue.py:152-158 RaggedLevel *)
record ragged_level =
  rl_dimension :: string
  display_prefix :: string
  node_prefix :: string

(* engine/catalogue.py:161-178 RaggedSource *)
record ragged_source =
  rs_type :: ragged_source_type
  node_table :: string
  edge_table :: string
  child_column :: string
  parent_column :: string

(* engine/catalogue.py:181-195 TransitiveResolution *)
record transitive_resolution =
  tr_leaf_dimension :: string
  tr_source_table :: string
  leaf_key_column :: string
  filter_column :: string

(* engine/catalogue.py:198-239 Dimension *)
record dimension =
  dim_key :: string
  dim_label :: string
  dim_grain :: "grain option"
  attributes :: "(string, dimension_attribute) dict"
  display_attribute :: string
  sort_attribute :: string
  dim_extendability :: extendability
  member_table :: string
  required_member_attributes :: "string list"
  dim_source :: "dimension_source option"
  dim_derived_from :: "derived_from option"
  parents :: "(string, parent_relationship) dict"
  ragged :: bool
  root_label :: string
  dim_leaf_dimension :: string
  ragged_levels :: "ragged_level list"
  dim_ragged_source :: "ragged_source option"
  transitive :: "(string, transitive_resolution) dict"

(* engine/catalogue.py:241-243 Dimension.is_leaf *)
definition is_leaf :: "dimension \<Rightarrow> bool" where
  "is_leaf d = (dim_source d \<noteq> None)"

(* engine/catalogue.py:245-247 Dimension.is_derived *)
definition is_derived :: "dimension \<Rightarrow> bool" where
  "is_derived d = (dim_derived_from d \<noteq> None)"

(* engine/catalogue.py:249-251 Dimension.is_ragged *)
definition is_ragged :: "dimension \<Rightarrow> bool" where
  "is_ragged d = ragged d"

(* engine/catalogue.py:253-257 Dimension.source_table *)
definition source_table :: "dimension \<Rightarrow> string" where
  "source_table d = (case dim_source d of Some s \<Rightarrow> ds_table s | None \<Rightarrow> [])"

(* engine/catalogue.py:259-263 Dimension.key_column *)
definition key_column :: "dimension \<Rightarrow> string" where
  "key_column d = (case dim_source d of Some s \<Rightarrow> ds_key_column s | None \<Rightarrow> [])"

(* engine/catalogue.py:265-266 Dimension.is_hierarchical *)
definition is_hierarchical :: "dimension \<Rightarrow> bool" where
  "is_hierarchical d = (is_ragged d \<or> parents d \<noteq> [])"

(* engine/catalogue.py:269-289 CubeDimension *)
record cube_dimension =
  cd_key :: string
  cd_label :: string
  cd_source :: string
  source_inline :: bool
  filterable :: bool

section \<open>Statements, domains and plan datasets\<close>

(* engine/catalogue.py:296-303 Statement *)
record statement =
  st_name :: string
  st_label :: string
  lines :: "string list option"
  concat_of :: "string list option"

(* engine/catalogue.py:306-321 DomainCatalogue *)
record domain_catalogue =
  dc_domain :: string
  source_view :: string
  dc_metrics :: "metric list"
  dc_dimensions :: "cube_dimension list"
  versioned :: bool
  native_grain_column :: string
  backend :: string
  dc_backend_kind :: backend_kind
  inspect_enabled :: bool
  inspect_columns :: "string list"

(* engine/catalogue.py:328-341 PlanDatasetDimension *)
record plan_dimension =
  pd_key :: string
  pd_source :: string
  pd_level :: string
  pd_values :: "string list"

(* engine/catalogue.py:344-357 PlanMetricMetadata *)
record plan_metric_metadata =
  pm_label :: string
  pm_unit :: string
  pm_precision :: int
  contributes_to :: "string list"

(* engine/catalogue.py:360-378 PlanDataset *)
record plan_dataset =
  ps_key :: string
  ps_label :: string
  ps_table :: string
  value_column :: string
  value_type :: string
  ps_unit :: string
  ps_precision :: int
  ps_domain :: string
  ps_dimensions :: "plan_dimension list"
  metric_metadata :: "(string, plan_metric_metadata) dict"

(* engine/catalogue.py:381-391 MappingDataset *)
record mapping_dataset =
  ms_key :: string
  ms_label :: string
  ms_table :: string
  source_dataset :: string
  source_coordinates :: "string list"
  target_columns :: "(string, string) dict"
  seed_rows :: "(string, string) dict list"

(* engine/catalogue.py:423-433 Catalogue *)
record catalogue =
  metrics :: "(string, metric) dict"
  statements :: "(string, statement) dict"
  domains :: "(string, domain_catalogue) dict"
  dimensions :: "(string, dimension) dict"
  plan_datasets :: "(string, plan_dataset) dict"
  mapping_datasets :: "(string, mapping_dataset) dict"

section \<open>The seed rows of a mapping dataset\<close>

datatype seed_error = MissingColumns nat "string list" | DuplicateSeed nat nat

text \<open>\<open>previous = seen.get(identity)\<close>: the last earlier row with these coordinates.\<close>

definition seed_identity :: "mapping_dataset \<Rightarrow> (string, string) dict \<Rightarrow> string list" where
  "seed_identity m row = map (dget_or [] row) (''scenario'' # source_coordinates m)"

fun check_seed_rows ::
  "mapping_dataset \<Rightarrow> nat \<Rightarrow> (string list, nat) dict \<Rightarrow> (string, string) dict list \<Rightarrow> (seed_error, unit) res" where
  "check_seed_rows m i seen [] = Inr ()"
| "check_seed_rows m i seen (row # rows) =
     (let required = ''scenario'' # source_coordinates m @ dkeys (target_columns m);
          missing = sorted_diff required (dkeys row)
      in if missing \<noteq> [] then Inl (MissingColumns i missing)
         else case dget seen (seed_identity m row) of
                Some previous \<Rightarrow> Inl (DuplicateSeed previous i)
              | None \<Rightarrow> check_seed_rows m (i + 1) (dset (seed_identity m row) i seen) rows)"

(* engine/catalogue.py:393-416 MappingDataset.validate_seed_rows *)
definition validate_seed_rows :: "mapping_dataset \<Rightarrow> (seed_error, unit) res" where
  "validate_seed_rows m = check_seed_rows m 0 [] (seed_rows m)"

lemma check_seed_rows_ok:
  "check_seed_rows m i seen rows = Inr () \<Longrightarrow>
     distinct (map (seed_identity m) rows)
     \<and> (\<forall>row\<in>set rows. dget seen (seed_identity m row) = None
          \<and> insert ''scenario'' (set (source_coordinates m) \<union> set (dkeys (target_columns m))) \<subseteq> set (dkeys row))"
proof (induction m i seen rows rule: check_seed_rows.induct)
  case (1 m i seen)
  then show ?case by simp
next
  case (2 m i seen row rows)
  let ?required = "''scenario'' # source_coordinates m @ dkeys (target_columns m)"
  have missing: "sorted_diff ?required (dkeys row) = []"
    and fresh: "dget seen (seed_identity m row) = None"
    and rest: "check_seed_rows m (i + 1) (dset (seed_identity m row) i seen) rows = Inr ()"
    using "2.prems" by (auto simp: Let_def split: if_splits option.splits)
  have "set ?required \<subseteq> set (dkeys row)"
    using arg_cong [OF missing, of set] by auto
  moreover have "dget seen (seed_identity m r) = None \<and> seed_identity m r \<noteq> seed_identity m row"
    if "r \<in> set rows" for r
    using "2.IH" [OF refl refl _ fresh rest] missing that by (auto simp: dget_dset split: if_splits)
  ultimately show ?case
    using "2.IH" [OF refl refl _ fresh rest] missing fresh by (auto simp: image_iff) metis
qed

end
