(* ===== verification/Catalogue.thy ===== *)
theory Catalogue
  imports CatalogueModel Graphs
begin

text \<open>
  The loader of \<open>engine/catalogue.py\<close> after parsing: resolution of object references to the semantic
  layer, the transitive closure of the dimension parents, the cross-object validation and the
  expansion of statements. The lemmas show that the closure holds exactly the reachable ancestors,
  that a validated catalogue has acyclic metrics, statements and parents with every reference
  declared, and that statement expansion is total on it.
\<close>

section \<open>Errors\<close>

text \<open>Every check has its own message; the model keeps its wording short and the names it prints.\<close>

(* engine/catalogue.py:16-18 CatalogueError *)
datatype catalogue_error = CatalogueError string "string list" | KeyError string

definition fail_unless :: "bool \<Rightarrow> string \<Rightarrow> string list \<Rightarrow> (catalogue_error, unit) res" where
  "fail_unless b msg names = res_guard b (CatalogueError msg names)"

lemma fail_unless_ok [simp]: "fail_unless b msg names = Inr u \<longleftrightarrow> b"
  by (simp add: fail_unless_def res_guard_eq_Inr)

fun formula_failed :: "formula_error \<Rightarrow> catalogue_error" where
  "formula_failed (InvalidFormula f) = CatalogueError ''invalid formula syntax'' [f]"

section \<open>Semantic references\<close>

(* engine/catalogue.py:903-923 _resolve_semantic_ref *)
definition resolve_semantic_ref :: "string \<Rightarrow> string \<Rightarrow> (catalogue_error, string) res" where
  "resolve_semantic_ref ref0 context_name =
     (let ref = strip ref0 in
      case split_first ''.'' ref of
        None \<Rightarrow> Inr (''semantic.'' @ ref)
      | Some (schema, _) \<Rightarrow>
          if schema = ''semantic'' then Inr ref
          else Inl (CatalogueError ''must reference a semantic object'' [context_name, ref, schema]))"

(* engine/catalogue.py:938-944 _normalize_semantic_refs *)
definition normalize_domain :: "string \<Rightarrow> domain_catalogue \<Rightarrow> (catalogue_error, domain_catalogue) res" where
  "normalize_domain name d =
     (if dc_backend_kind d \<noteq> ClickHouse \<or> source_view d = [] then Inr d
      else res_map (\<lambda>v. d\<lparr>source_view := v\<rparr>) (resolve_semantic_ref (source_view d) name))"

(* engine/catalogue.py:946-949 _normalize_semantic_refs *)
definition normalize_source :: "string \<Rightarrow> dimension \<Rightarrow> (catalogue_error, dimension) res" where
  "normalize_source key d =
     (case dim_source d of
        Some s \<Rightarrow>
          if ds_table s = [] then Inr d
          else res_map (\<lambda>t. d\<lparr>dim_source := Some (s\<lparr>ds_table := t\<rparr>)\<rparr>) (resolve_semantic_ref (ds_table s) key)
      | None \<Rightarrow> Inr d)"

(* engine/catalogue.py:950-958 _normalize_semantic_refs *)
definition normalize_ragged :: "string \<Rightarrow> dimension \<Rightarrow> (catalogue_error, dimension) res" where
  "normalize_ragged key d =
     (case dim_ragged_source d of
        None \<Rightarrow> Inr d
      | Some rs \<Rightarrow>
          res_bind (if node_table rs = [] then Inr rs
                    else res_map (\<lambda>t. rs\<lparr>node_table := t\<rparr>) (resolve_semantic_ref (node_table rs) key)) (\<lambda>rs1.
          res_bind (if edge_table rs1 = [] then Inr rs1
                    else res_map (\<lambda>t. rs1\<lparr>edge_table := t\<rparr>) (resolve_semantic_ref (edge_table rs1) key)) (\<lambda>rs2.
            Inr (d\<lparr>dim_ragged_source := Some rs2\<rparr>))))"

text \<open>\<open>for k, v in d.items(): v := f(k, v)\<close>\<close>

definition map_dict :: "('k \<Rightarrow> 'v \<Rightarrow> ('e, 'w) res) \<Rightarrow> ('k, 'v) dict \<Rightarrow> ('e, ('k, 'w) dict) res" where
  "map_dict f d = res_mapM (\<lambda>(k, v). res_map (Pair k) (f k v)) d"

(* engine/catalogue.py:926-958 _normalize_semantic_refs *)
definition normalize_semantic_refs :: "catalogue \<Rightarrow> (catalogue_error, catalogue) res" where
  "normalize_semantic_refs cat =
     res_bind (map_dict normalize_domain (domains cat)) (\<lambda>doms.
     res_bind (map_dict (\<lambda>k d. res_bind (normalize_source k d) (normalize_ragged k)) (dimensions cat)) (\<lambda>dims.
       Inr (cat\<lparr>domains := doms, dimensions := dims\<rparr>)))"

lemma resolve_semantic_ref_semantic:
  "resolve_semantic_ref r c = Inr t \<Longrightarrow> startswith t ''semantic.''"
proof -
  assume r: "resolve_semantic_ref r c = Inr t"
  show ?thesis
  proof (cases "split_first ''.'' (strip r)")
    case None
    then show ?thesis using r by (auto simp: resolve_semantic_ref_def Let_def startswith_iff)
  next
    case (Some p)
    obtain a b where p: "p = (a, b)" by (cases p)
    then have "strip r = ''semantic'' @ ''.'' @ b" "t = strip r"
      using r Some split_first_SomeD [of "''.''" "strip r" a b]
      by (auto simp: resolve_semantic_ref_def Let_def split: if_splits)
    then show ?thesis by (auto simp: startswith_iff)
  qed
qed

lemma map_dict_get:
  "map_dict f d = Inr e \<Longrightarrow> dkeys e = dkeys d
     \<and> (\<forall>k w. (k, w) \<in> set e \<longrightarrow> (\<exists>v. (k, v) \<in> set d \<and> f k v = Inr w))"
proof -
  assume "map_dict f d = Inr e"
  then have all2: "list_all2 (\<lambda>x y. (case x of (k, v) \<Rightarrow> res_map (Pair k) (f k v)) = Inr y) d e"
    by (simp add: map_dict_def res_mapM_Inr_iff)
  have "dkeys e = dkeys d"
    using all2 by (induction rule: list_all2_induct) (auto simp: res_map_eq_Inr)
  moreover have "\<exists>v. (k, v) \<in> set d \<and> f k v = Inr w" if "(k, w) \<in> set e" for k w
    using all2 that by (induction rule: list_all2_induct) (auto simp: res_map_eq_Inr)
  ultimately show ?thesis by blast
qed

section \<open>The closure of the parents\<close>

type_synonym dims = "(string, dimension) dict"

text \<open>One node of the breadth-first walk: its parents that were not seen yet.\<close>

(* engine/catalogue.py:987-993 _walk_parents (one node) of _compute_transitive_closure *)
fun scan_parents ::
  "dims \<Rightarrow> (string, parent_relationship) dict \<Rightarrow> string list \<times> (string \<times> string) list \<times> string list
     \<Rightarrow> string list \<times> (string \<times> string) list \<times> string list" where
  "scan_parents dims [] st = st"
| "scan_parents dims ((parent_key, parent_rel) # ps) (visited, ancestors, queue) =
     (if parent_key \<in> set visited then scan_parents dims ps (visited, ancestors, queue)
      else scan_parents dims ps
        (parent_key # visited,
         ancestors @ [(parent_key, pr_source_column parent_rel)],
         if dhas parent_key dims then queue @ [parent_key] else queue))"

definition unseen :: "dims \<Rightarrow> string list \<times> (string \<times> string) list \<times> string list \<Rightarrow> nat" where
  "unseen dims st = card (set (dkeys dims) - set (fst st)) + length (snd (snd st))"

lemma scan_parents_unseen: "unseen dims (scan_parents dims ps st) \<le> unseen dims st"
proof (induction dims ps st rule: scan_parents.induct)
  case (2 dims parent_key parent_rel ps visited ancestors queue)
  let ?V = "set (dkeys dims) - set visited"
  show ?case
  proof (cases "parent_key \<in> set visited")
    case True
    then show ?thesis using 2 by simp
  next
    case new: False
    have card: "card (?V - {parent_key}) + (if dhas parent_key dims then 1 else 0) \<le> card ?V"
    proof (cases "dhas parent_key dims")
      case True
      then have "parent_key \<in> ?V" using new by (simp only: dhas_def) simp
      then have "card ?V = Suc (card (?V - {parent_key}))" by (intro card_Suc_Diff1 [symmetric]) simp_all
      then show ?thesis by simp
    qed (simp add: card_mono)
    have eq: "set (dkeys dims) - set (parent_key # visited) = ?V - {parent_key}" by auto
    have "unseen dims (parent_key # visited, ancestors @ [(parent_key, pr_source_column parent_rel)],
        if dhas parent_key dims then queue @ [parent_key] else queue) \<le> unseen dims (visited, ancestors, queue)"
      using card unfolding unseen_def fst_conv snd_conv eq by (simp split: if_splits)
    then show ?thesis using 2(2) [OF new] new by simp
  qed
qed simp

text \<open>\<open>dims[queue.pop(0)]\<close> is in the dictionary: only declared dimensions are queued.\<close>

definition parents_of :: "dims \<Rightarrow> string \<Rightarrow> (string, parent_relationship) dict" where
  "parents_of dims key = (case dget dims key of Some d \<Rightarrow> parents d | None \<Rightarrow> [])"

(* engine/catalogue.py:985-994 _compute_transitive_closure *)
function walk_loop :: "dims \<Rightarrow> string list \<times> (string \<times> string) list \<times> string list \<Rightarrow> string list \<times> (string \<times> string) list \<times> string list" where
  "walk_loop dims (visited, ancestors, []) = (visited, ancestors, [])"
| "walk_loop dims (visited, ancestors, current # queue) =
     walk_loop dims (scan_parents dims (parents_of dims current) (visited, ancestors, queue))"
  by pat_completeness auto
termination
proof (relation "measure (\<lambda>(dims, st). unseen dims st)", simp)
  fix dims visited ancestors current queue
  have "unseen dims (scan_parents dims (parents_of dims current) (visited, ancestors, queue))
      \<le> unseen dims (visited, ancestors, queue)"
    by (rule scan_parents_unseen)
  also have "\<dots> < unseen dims (visited, ancestors, current # queue)" by (simp add: unseen_def)
  finally show "((dims, scan_parents dims (parents_of dims current) (visited, ancestors, queue)),
      dims, visited, ancestors, current # queue) \<in> measure (\<lambda>(dims, st). unseen dims st)"
    by simp
qed

(* engine/catalogue.py:973-994 _walk_parents *)
definition walk_parents :: "dims \<Rightarrow> string \<Rightarrow> (string \<times> string) list" where
  "walk_parents dims key = fst (snd (walk_loop dims ([key], [], [key])))"

definition put_transitive :: "string \<Rightarrow> string \<Rightarrow> transitive_resolution \<Rightarrow> dims \<Rightarrow> dims" where
  "put_transitive ancestor leaf r dims =
     (case dget dims ancestor of
        Some d \<Rightarrow> dset ancestor (d\<lparr>transitive := dset leaf r (transitive d)\<rparr>) dims
      | None \<Rightarrow> dims)"

(* engine/catalogue.py:996-1011 _compute_transitive_closure *)
definition close_leaf :: "string \<Rightarrow> dims \<Rightarrow> dims" where
  "close_leaf key dims =
     (case dget dims key of
        None \<Rightarrow> dims
      | Some d \<Rightarrow>
          (case dim_source d of
             None \<Rightarrow> dims
           | Some s \<Rightarrow>
               fold (\<lambda>(ancestor, column). put_transitive ancestor key
                        \<lparr>tr_leaf_dimension = key, tr_source_table = ds_table s,
                         leaf_key_column = ds_key_column s, filter_column = column\<rparr>)
                 (walk_parents dims key) dims))"

(* engine/catalogue.py:1013-1023 _compute_transitive_closure *)
definition close_ragged :: "string \<Rightarrow> dims \<Rightarrow> dims" where
  "close_ragged key dims =
     (case dget dims key of
        None \<Rightarrow> dims
      | Some d \<Rightarrow>
          if is_ragged d \<and> dim_leaf_dimension d \<noteq> [] then
            (case dget dims (dim_leaf_dimension d) of
               None \<Rightarrow> dims
             | Some leaf \<Rightarrow>
                 (case dim_source leaf of
                    None \<Rightarrow> dims
                  | Some s \<Rightarrow>
                      put_transitive key (dim_leaf_dimension d)
                        \<lparr>tr_leaf_dimension = dim_leaf_dimension d, tr_source_table = ds_table s,
                         leaf_key_column = ds_key_column s, filter_column = []\<rparr> dims))
          else dims)"

(* engine/catalogue.py:961-1023 _compute_transitive_closure *)
definition compute_transitive_closure :: "dims \<Rightarrow> dims" where
  "compute_transitive_closure dims = fold close_ragged (dkeys dims) (fold close_leaf (dkeys dims) dims)"

subsection \<open>The closure is exact\<close>

definition parent_edges :: "dims \<Rightarrow> (string \<times> string) set" where
  "parent_edges dims = {(u, a). a \<in> set (dkeys (parents_of dims u))}"

text \<open>An entry of the walk names a parent link of some reachable dimension.\<close>

definition link_column :: "dims \<Rightarrow> string \<Rightarrow> string \<Rightarrow> string \<Rightarrow> bool" where
  "link_column dims key a c \<longleftrightarrow>
     (\<exists>u pr. (key, u) \<in> (parent_edges dims)\<^sup>* \<and> (a, pr) \<in> set (parents_of dims u) \<and> c = pr_source_column pr)"

definition walk_invariant :: "dims \<Rightarrow> string \<Rightarrow> string list \<times> (string \<times> string) list \<times> string list \<Rightarrow> bool" where
  "walk_invariant dims key st = (case st of (visited, ancestors, queue) \<Rightarrow>
     set visited = insert key (fst ` set ancestors) \<and> key \<notin> fst ` set ancestors
     \<and> set queue \<subseteq> set visited \<and> set visited \<subseteq> (parent_edges dims)\<^sup>* `` {key}
     \<and> (\<forall>u\<in>set visited. u \<notin> set queue \<longrightarrow> parent_edges dims `` {u} \<subseteq> set visited)
     \<and> (\<forall>(a, c)\<in>set ancestors. link_column dims key a c))"

lemma scan_parents_effect:
  "scan_parents dims ps (visited, ancestors, queue) = (visited', ancestors', queue') \<Longrightarrow>
     set visited' = set visited \<union> set (dkeys ps)
     \<and> fst ` set ancestors' = fst ` set ancestors \<union> (set (dkeys ps) - set visited)
     \<and> (\<forall>(a, c)\<in>set ancestors'. (a, c) \<in> set ancestors \<or> (\<exists>pr. (a, pr) \<in> set ps \<and> c = pr_source_column pr))
     \<and> set queue' = set queue \<union> {a \<in> set (dkeys ps) - set visited. dhas a dims}"
proof (induction dims ps "(visited, ancestors, queue)" arbitrary: visited ancestors queue rule: scan_parents.induct)
  case (1 dims)
  then show ?case by auto
next
  case (2 dims parent_key parent_rel ps visited ancestors queue)
  show ?case
  proof (cases "parent_key \<in> set visited")
    case True
    then show ?thesis using 2(1) 2(3) by (auto simp: case_prod_beta)
  next
    case False
    then show ?thesis using 2(2) [OF False] 2(3) by (auto simp: case_prod_beta split: if_splits)
  qed
qed

lemma unknown_no_parents: "\<not> dhas u dims \<Longrightarrow> parents_of dims u = []"
  by (simp add: parents_of_def not_dhas_iff)

lemma walk_loop_invariant:
  "walk_invariant dims key st \<Longrightarrow> walk_loop dims st = (v, an, q) \<Longrightarrow> walk_invariant dims key (v, an, []) \<and> q = []"
proof (induction dims st rule: walk_loop.induct)
  case (1 dims visited ancestors)
  then show ?case by simp
next
  case (2 dims visited ancestors current queue)
  obtain v' an' q' where scan:
    "scan_parents dims (parents_of dims current) (visited, ancestors, queue) = (v', an', q')"
    by (metis prod_cases3)
  note eff = scan_parents_effect [OF scan]
  note inv = "2.prems"(1) [unfolded walk_invariant_def prod.case]
  have cur: "current \<in> set visited" using inv unfolding list.set by blast
  then have reach: "(key, current) \<in> (parent_edges dims)\<^sup>*" using inv by auto
  have edge: "parent_edges dims `` {current} = set (dkeys (parents_of dims current))"
    by (auto simp: parent_edges_def)
  have new: "(key, a) \<in> (parent_edges dims)\<^sup>*" if "a \<in> set (dkeys (parents_of dims current))" for a
  proof -
    have "(current, a) \<in> parent_edges dims" using that by (simp add: parent_edges_def)
    with reach show ?thesis by (rule rtrancl_into_rtrancl)
  qed
  have closed: "parent_edges dims `` {u} \<subseteq> set v'" if "u \<in> set v'" "u \<notin> set q'" for u
  proof (cases "u \<in> set visited")
    case True
    show ?thesis
    proof (cases "u = current")
      case True
      then show ?thesis using edge eff by blast
    next
      case False
      then have "u \<notin> set (current # queue)" using that(2) eff by simp
      then have "parent_edges dims `` {u} \<subseteq> set visited" using inv True by blast
      then show ?thesis using eff by blast
    qed
  next
    case False
    then have "\<not> dhas u dims" using eff that by blast
    then show ?thesis using unknown_no_parents [of u dims] by (auto simp: parent_edges_def)
  qed
  have "walk_invariant dims key (v', an', q')"
    unfolding walk_invariant_def prod.case
  proof (intro conjI ballI impI)
    have vis: "set visited = insert key (fst ` set ancestors)" "key \<notin> fst ` set ancestors"
      "set queue \<subseteq> set visited" "set visited \<subseteq> (parent_edges dims)\<^sup>* `` {key}"
      "\<forall>x\<in>set ancestors. case x of (a, c) \<Rightarrow> link_column dims key a c"
      using inv by (elim conjE, (assumption | simp only: list.set insert_subset))+
    have e: "set v' = set visited \<union> set (dkeys (parents_of dims current))"
      "fst ` set an' = fst ` set ancestors \<union> (set (dkeys (parents_of dims current)) - set visited)"
      "set q' \<subseteq> set queue \<union> set (dkeys (parents_of dims current))"
      using eff by blast+
    show "set v' = insert key (fst ` set an')" unfolding e(1,2) vis(1) by auto
    have "key \<in> set visited" unfolding vis(1) by simp
    then show "key \<notin> fst ` set an'" unfolding e(2) using vis(2) by simp
    show "set q' \<subseteq> set v'" using e vis(3) by blast
    show "set v' \<subseteq> (parent_edges dims)\<^sup>* `` {key}" using e vis(4) new by blast
    show "parent_edges dims `` {u} \<subseteq> set v'" if "u \<in> set v'" "u \<notin> set q'" for u
      using closed that .
    fix x
    assume x: "x \<in> set an'"
    obtain a c where ac: "x = (a, c)" by (cases x)
    then consider "(a, c) \<in> set ancestors" | pr where "(a, pr) \<in> set (parents_of dims current)" "c = pr_source_column pr"
      using eff x by blast
    then show "case x of (a, c) \<Rightarrow> link_column dims key a c"
    proof cases
      case 1
      then show ?thesis using vis(5) ac by blast
    next
      case 2
      then show ?thesis using reach ac unfolding link_column_def by blast
    qed
  qed
  then show ?case using "2.IH" "2.prems"(2) scan by simp
qed

lemma star_but_self: "r\<^sup>+ `` {k} - {k} = r\<^sup>* `` {k} - {k}"
  by (auto dest: rtranclD)

lemma walk_parents_exact:
  "fst ` set (walk_parents dims key) = (parent_edges dims)\<^sup>+ `` {key} - {key}"
  and walk_parents_link: "(a, c) \<in> set (walk_parents dims key) \<Longrightarrow> link_column dims key a c"
proof -
  obtain v an q where run: "walk_loop dims ([key], [], [key]) = (v, an, q)" by (metis prod_cases3)
  have "walk_invariant dims key ([key], [], [key])" by (auto simp: walk_invariant_def)
  from walk_loop_invariant [OF this run]
  have inv: "set v = insert key (fst ` set an)" "key \<notin> fst ` set an"
    "set v \<subseteq> (parent_edges dims)\<^sup>* `` {key}" "\<And>u. u \<in> set v \<Longrightarrow> parent_edges dims `` {u} \<subseteq> set v"
    "\<And>a c. (a, c) \<in> set an \<Longrightarrow> link_column dims key a c"
    unfolding walk_invariant_def prod.case list.set by blast+
  have "key \<in> set v" using inv(1) by blast
  have "a \<in> set v" if "(key, a) \<in> (parent_edges dims)\<^sup>*" for a
    using that
  proof (induction rule: rtrancl_induct)
    case base
    show ?case by fact
  next
    case (step y z)
    then show ?case using inv(4) by blast
  qed
  then have "set v = (parent_edges dims)\<^sup>* `` {key}" using inv(3) by blast
  then have "fst ` set an = (parent_edges dims)\<^sup>* `` {key} - {key}" using inv(1,2) by blast
  then show "fst ` set (walk_parents dims key) = (parent_edges dims)\<^sup>+ `` {key} - {key}"
    unfolding walk_parents_def run fst_conv snd_conv star_but_self by (simp only: fst_conv snd_conv)
  show "(a, c) \<in> set (walk_parents dims key) \<Longrightarrow> link_column dims key a c"
    using inv(5) unfolding walk_parents_def run by (simp only: fst_conv snd_conv)
qed

text \<open>What the closure stores for a pair of dimensions, and the rest of a dimension, which it keeps.\<close>

definition resolution_of :: "dims \<Rightarrow> string \<Rightarrow> string \<Rightarrow> transitive_resolution option" where
  "resolution_of dims a l = (case dget dims a of Some d \<Rightarrow> dget (transitive d) l | None \<Rightarrow> None)"

definition same_shape :: "dims \<Rightarrow> dims \<Rightarrow> bool" where
  "same_shape dims dims' \<longleftrightarrow>
     (\<forall>k. map_option (\<lambda>d. d\<lparr>transitive := []\<rparr>) (dget dims' k) = map_option (\<lambda>d. d\<lparr>transitive := []\<rparr>) (dget dims k))"

lemma same_shape_refl [simp]: "same_shape dims dims"
  by (simp add: same_shape_def)

lemma same_shape_trans: "same_shape a b \<Longrightarrow> same_shape b c \<Longrightarrow> same_shape a c"
  by (simp add: same_shape_def)

lemma same_shape_get:
  assumes "same_shape dims dims'"
  shows "dget dims k = None \<longleftrightarrow> dget dims' k = None"
    and "dget dims k = Some d \<Longrightarrow> \<exists>t. dget dims' k = Some (d\<lparr>transitive := t\<rparr>)"
proof -
  note eq = assms [unfolded same_shape_def, rule_format, of k]
  show "dget dims k = None \<longleftrightarrow> dget dims' k = None" using eq by (cases "dget dims k"; cases "dget dims' k") auto
  show "\<exists>t. dget dims' k = Some (d\<lparr>transitive := t\<rparr>)" if d: "dget dims k = Some d"
  proof -
    obtain d' where d': "dget dims' k = Some d'" "d'\<lparr>transitive := []\<rparr> = d\<lparr>transitive := []\<rparr>"
      using eq d by (cases "dget dims' k") auto
    have "d' = d\<lparr>transitive := transitive d'\<rparr>"
      using arg_cong [OF d'(2), of "\<lambda>e. e\<lparr>transitive := transitive d'\<rparr>"] by simp
    then show ?thesis using d'(1) by metis
  qed
qed

lemma same_shape_dhas: "same_shape dims dims' \<Longrightarrow> dhas k dims' = dhas k dims"
  using same_shape_get(1) [of dims dims' k] by (simp add: dhas_iff) (metis not_Some_eq)

lemma same_shape_parents: "same_shape dims dims' \<Longrightarrow> parents_of dims' = parents_of dims"
proof
  fix k
  assume s: "same_shape dims dims'"
  show "parents_of dims' k = parents_of dims k"
  proof (cases "dget dims k")
    case None
    then show ?thesis using same_shape_get(1) [OF s, of k] by (simp add: parents_of_def)
  next
    case (Some d)
    then obtain t where "dget dims' k = Some (d\<lparr>transitive := t\<rparr>)" using same_shape_get(2) [OF s] by blast
    then show ?thesis using Some by (simp add: parents_of_def)
  qed
qed

lemma same_shape_edges:
  "same_shape dims dims' \<Longrightarrow> parent_edges dims' = parent_edges dims \<and> link_column dims' = link_column dims"
  by (simp add: parent_edges_def link_column_def same_shape_parents fun_eq_iff)

lemma put_transitive_effect:
  "same_shape dims (put_transitive a l r dims)"
  "resolution_of (put_transitive a l r dims) x y
     = (if x = a \<and> y = l \<and> dhas a dims then Some r else resolution_of dims x y)"
  by (auto simp: put_transitive_def same_shape_def resolution_of_def dget_dset dhas_iff split: option.splits)

lemma fold_put_effect:
  "same_shape dims (fold (\<lambda>(a, c). put_transitive a l (r c)) as dims)
   \<and> (\<forall>y. y \<noteq> l \<or> x \<notin> fst ` set as \<or> \<not> dhas x dims \<longrightarrow>
        resolution_of (fold (\<lambda>(a, c). put_transitive a l (r c)) as dims) x y = resolution_of dims x y)
   \<and> (x \<in> fst ` set as \<and> dhas x dims \<longrightarrow>
        (\<exists>c. (x, c) \<in> set as \<and> resolution_of (fold (\<lambda>(a, c). put_transitive a l (r c)) as dims) x l = Some (r c)))"
proof (induction as arbitrary: dims)
  case Nil
  then show ?case by simp
next
  case (Cons p as)
  obtain a c where p: "p = (a, c)" by (cases p)
  note put = put_transitive_effect [where dims = dims and a = a and l = l and r = "r c"]
  note IH = Cons.IH [where dims = "put_transitive a l (r c) dims"]
  have has: "dhas x (put_transitive a l (r c) dims) = dhas x dims"
    using put(1) by (rule same_shape_dhas)
  show ?case
  proof (intro conjI)
    show "same_shape dims (fold (\<lambda>(a, c). put_transitive a l (r c)) (p # as) dims)"
      using IH put(1) by (auto simp: p intro: same_shape_trans)
    show "\<forall>y. y \<noteq> l \<or> x \<notin> fst ` set (p # as) \<or> \<not> dhas x dims \<longrightarrow>
        resolution_of (fold (\<lambda>(a, c). put_transitive a l (r c)) (p # as) dims) x y = resolution_of dims x y"
    proof (intro allI impI)
      fix y
      assume other: "y \<noteq> l \<or> x \<notin> fst ` set (p # as) \<or> \<not> dhas x dims"
      then have "resolution_of (put_transitive a l (r c) dims) x y = resolution_of dims x y"
        unfolding put(2) p by auto
      moreover have "y \<noteq> l \<or> x \<notin> fst ` set as \<or> \<not> dhas x (put_transitive a l (r c) dims)"
        using other has by auto
      ultimately show "resolution_of (fold (\<lambda>(a, c). put_transitive a l (r c)) (p # as) dims) x y
          = resolution_of dims x y"
        using IH by (simp add: p)
    qed
    show "x \<in> fst ` set (p # as) \<and> dhas x dims \<longrightarrow> (\<exists>c. (x, c) \<in> set (p # as)
        \<and> resolution_of (fold (\<lambda>(a, c). put_transitive a l (r c)) (p # as) dims) x l = Some (r c))"
    proof (cases "x \<in> fst ` set as")
      case True
      then show ?thesis using IH has by (auto simp: p)
    next
      case False
      have "resolution_of (fold (\<lambda>(a, c). put_transitive a l (r c)) as (put_transitive a l (r c) dims)) x l
          = resolution_of (put_transitive a l (r c) dims) x l"
        using IH False by blast
      then show ?thesis using False put(2) by (auto simp: p)
    qed
  qed
qed

definition stored :: "string \<Rightarrow> dimension_source \<Rightarrow> string \<Rightarrow> transitive_resolution" where
  "stored l s c = \<lparr>tr_leaf_dimension = l, tr_source_table = ds_table s, leaf_key_column = ds_key_column s, filter_column = c\<rparr>"

lemma close_leaf_effect:
  shows "same_shape dims (close_leaf l dims)"
    and "y \<noteq> l \<Longrightarrow> resolution_of (close_leaf l dims) x y = resolution_of dims x y"
    and "dget dims l = Some d \<Longrightarrow> dim_source d = Some s \<Longrightarrow>
           (if dhas x dims \<and> x \<noteq> l \<and> (l, x) \<in> (parent_edges dims)\<^sup>+
            then \<exists>c. link_column dims l x c \<and> resolution_of (close_leaf l dims) x l = Some (stored l s c)
            else resolution_of (close_leaf l dims) x l = resolution_of dims x l)"
proof -
  have close: "close_leaf l dims = dims
      \<or> (\<exists>s. close_leaf l dims = fold (\<lambda>(a, c). put_transitive a l (stored l s c)) (walk_parents dims l) dims)"
    by (auto simp: close_leaf_def stored_def split: option.splits)
  then show "same_shape dims (close_leaf l dims)"
    using fold_put_effect by (metis same_shape_refl)
  show "y \<noteq> l \<Longrightarrow> resolution_of (close_leaf l dims) x y = resolution_of dims x y"
    using close fold_put_effect by metis
  assume d: "dget dims l = Some d" "dim_source d = Some s"
  have close: "close_leaf l dims = fold (\<lambda>(a, c). put_transitive a l (stored l s c)) (walk_parents dims l) dims"
    by (simp add: close_leaf_def d stored_def)
  have walk: "x \<in> fst ` set (walk_parents dims l) \<longleftrightarrow> x \<noteq> l \<and> (l, x) \<in> (parent_edges dims)\<^sup>+"
    unfolding walk_parents_exact by blast
  note eff = fold_put_effect [where dims = dims and l = l and r = "stored l s" and as = "walk_parents dims l"
      and x = x, folded close]
  show "if dhas x dims \<and> x \<noteq> l \<and> (l, x) \<in> (parent_edges dims)\<^sup>+
      then \<exists>c. link_column dims l x c \<and> resolution_of (close_leaf l dims) x l = Some (stored l s c)
      else resolution_of (close_leaf l dims) x l = resolution_of dims x l"
  proof (cases "dhas x dims \<and> x \<noteq> l \<and> (l, x) \<in> (parent_edges dims)\<^sup>+")
    case True
    then obtain c where c: "(x, c) \<in> set (walk_parents dims l)"
        "resolution_of (close_leaf l dims) x l = Some (stored l s c)"
      using eff walk by blast
    then show ?thesis using True walk_parents_link [OF c(1)] by auto
  next
    case False
    then show ?thesis using eff walk by (simp only: if_False) blast
  qed
qed

lemma close_ragged_effect:
  "same_shape dims (close_ragged k dims)
   \<and> (\<forall>x y. (dget dims x = None \<or> (\<exists>d. dget dims x = Some d \<and> \<not> is_ragged d)) \<longrightarrow>
        resolution_of (close_ragged k dims) x y = resolution_of dims x y)"
  using put_transitive_effect
  by (auto simp: close_ragged_def split: option.splits)

lemma fold_close_leaf:
  assumes "distinct ks" and "dget dims l = Some d" "dim_source d = Some s" and "resolution_of dims x l = None"
  shows "same_shape dims (fold close_leaf ks dims)
    \<and> (if l \<in> set ks \<and> dhas x dims \<and> x \<noteq> l \<and> (l, x) \<in> (parent_edges dims)\<^sup>+
       then \<exists>c. link_column dims l x c \<and> resolution_of (fold close_leaf ks dims) x l = Some (stored l s c)
       else resolution_of (fold close_leaf ks dims) x l = None)"
  using assms(1)
proof (induction ks rule: rev_induct)
  case Nil
  then show ?case using assms(4) by simp
next
  case (snoc k ks)
  let ?D = "fold close_leaf ks dims"
  have IH: "same_shape dims ?D"
    "if l \<in> set ks \<and> dhas x dims \<and> x \<noteq> l \<and> (l, x) \<in> (parent_edges dims)\<^sup>+
       then \<exists>c. link_column dims l x c \<and> resolution_of ?D x l = Some (stored l s c)
       else resolution_of ?D x l = None"
    using snoc by auto
  obtain t where D: "dget ?D l = Some (d\<lparr>transitive := t\<rparr>)"
    using same_shape_get(2) [OF IH(1) assms(2)] by blast
  have "same_shape dims (fold close_leaf (ks @ [k]) dims)"
    using IH(1) close_leaf_effect(1) [where dims = ?D and l = k] by (auto intro: same_shape_trans)
  moreover have "if l \<in> set (ks @ [k]) \<and> dhas x dims \<and> x \<noteq> l \<and> (l, x) \<in> (parent_edges dims)\<^sup>+
       then \<exists>c. link_column dims l x c \<and> resolution_of (fold close_leaf (ks @ [k]) dims) x l = Some (stored l s c)
       else resolution_of (fold close_leaf (ks @ [k]) dims) x l = None"
  proof (cases "k = l")
    case False
    have "resolution_of (close_leaf k ?D) x l = resolution_of ?D x l"
      using False by (intro close_leaf_effect(2)) simp
    then show ?thesis using IH(2) False by simp
  next
    case True
    then have "l \<notin> set ks" using snoc.prems by simp
    then have "resolution_of ?D x l = None" using IH(2) by simp
    then show ?thesis
      using close_leaf_effect(3) [OF D, of s x] assms(3) True
      by (simp add: same_shape_dhas [OF IH(1)] same_shape_edges [OF IH(1)] split: if_splits)
  qed
  ultimately show ?case by blast
qed

lemma fold_close_ragged:
  assumes "\<not> (\<exists>d. dget dims x = Some d \<and> is_ragged d)"
  shows "resolution_of (fold close_ragged ks dims) x y = resolution_of dims x y"
  using assms
proof (induction ks arbitrary: dims)
  case (Cons k ks)
  note eff = close_ragged_effect [of dims k]
  have "\<not> (\<exists>d. dget (close_ragged k dims) x = Some d \<and> is_ragged d)"
  proof (cases "dget dims x")
    case None
    then show ?thesis using eff same_shape_get(1) by fastforce
  next
    case (Some d)
    then obtain t where "dget (close_ragged k dims) x = Some (d\<lparr>transitive := t\<rparr>)"
      using eff same_shape_get(2) by blast
    then show ?thesis using Cons.prems Some by (simp add: is_ragged_def)
  qed
  moreover have "resolution_of (close_ragged k dims) x y = resolution_of dims x y"
    using eff Cons.prems by (cases "dget dims x") auto
  ultimately show ?case using Cons.IH by simp
qed simp

text \<open>
  C14: The closure of the dimension parents is exact. For a leaf dimension \<open>l\<close> and a dimension \<open>a\<close>
  that is not a ragged hierarchy, the loader stores on \<open>a\<close> a resolution to \<open>l\<close> if and only if \<open>a\<close> is
  another dimension that some chain of parent links reaches from \<open>l\<close>; the stored resolution reads
  the table and key column of \<open>l\<close> and the column of a parent link of a dimension reachable from \<open>l\<close>.
\<close>

theorem transitive_closure_exact:
  assumes "wf_dict dims" and "dget dims a = Some da" and "\<not> is_ragged da" and "transitive da = []"
    and "dget dims l = Some dl" and "dim_source dl = Some s"
  shows "case resolution_of (compute_transitive_closure dims) a l of
      None \<Rightarrow> a = l \<or> (l, a) \<notin> (parent_edges dims)\<^sup>+
    | Some r \<Rightarrow> a \<noteq> l \<and> (l, a) \<in> (parent_edges dims)\<^sup>+ \<and> (\<exists>c. link_column dims l a c \<and> r = stored l s c)"
proof -
  have keys: "distinct (dkeys dims)" using assms(1) by (simp add: wf_dict_def)
  have empty: "resolution_of dims a l = None" using assms by (simp add: resolution_of_def)
  note leaf = fold_close_leaf [OF keys assms(5,6) empty]
  have "\<not> (\<exists>d. dget (fold close_leaf (dkeys dims) dims) a = Some d \<and> is_ragged d)"
    using same_shape_get(2) [OF _ assms(2)] leaf assms(3) by (fastforce simp: is_ragged_def)
  then have "resolution_of (compute_transitive_closure dims) a l
      = resolution_of (fold close_leaf (dkeys dims) dims) a l"
    unfolding compute_transitive_closure_def by (rule fold_close_ragged)
  moreover have "dhas l dims" "dhas a dims" using assms(2,5) by (simp_all add: dhas_iff)
  moreover from this(1) have "l \<in> set (dkeys dims)" by (simp only: dhas_def)
  ultimately show ?thesis using leaf by (auto split: option.splits if_splits)
qed

definition example_dim :: "string \<Rightarrow> dimension_source option \<Rightarrow> (string, parent_relationship) dict \<Rightarrow> dimension" where
  "example_dim key src ps =
     \<lparr>dim_key = key, dim_label = key, dim_grain = None, attributes = [], display_attribute = [],
      sort_attribute = [], dim_extendability = SourceMastered, member_table = [],
      required_member_attributes = [], dim_source = src,
      dim_derived_from = (case src of None \<Rightarrow> Some \<lparr>df_dimension = ''cost_centre'', df_source_column = key\<rparr> | Some _ \<Rightarrow> None),
      parents = ps,
      ragged = False, root_label = [], dim_leaf_dimension = [], ragged_levels = [],
      dim_ragged_source = None, transitive = []\<rparr>"

definition example_dims :: dims where
  "example_dims =
     [(''cost_centre'', example_dim ''cost_centre''
         (Some \<lparr>ds_table = ''semantic.cc'', ds_key_column = ''id'', attribute_mapping = []\<rparr>)
         [(''department'', \<lparr>pr_source_column = ''dept''\<rparr>)]),
      (''department'', example_dim ''department'' None [(''division'', \<lparr>pr_source_column = ''div''\<rparr>)]),
      (''division'', example_dim ''division'' None [])]"

theorem transitive_closure_exact_witness:
  "resolution_of (compute_transitive_closure example_dims) ''division'' ''cost_centre''
     = Some \<lparr>tr_leaf_dimension = ''cost_centre'', tr_source_table = ''semantic.cc'', leaf_key_column = ''id'', filter_column = ''div''\<rparr>
   \<and> (''cost_centre'', ''division'') \<in> (parent_edges example_dims)\<^sup>+"
proof -
  let ?l = "example_dim ''cost_centre''
      (Some \<lparr>ds_table = ''semantic.cc'', ds_key_column = ''id'', attribute_mapping = []\<rparr>)
      [(''department'', \<lparr>pr_source_column = ''dept''\<rparr>)]"
  have run: "resolution_of (compute_transitive_closure example_dims) ''division'' ''cost_centre''
     = Some \<lparr>tr_leaf_dimension = ''cost_centre'', tr_source_table = ''semantic.cc'', leaf_key_column = ''id'', filter_column = ''div''\<rparr>"
    by code_simp
  have "wf_dict example_dims" by code_simp
  moreover have "dget example_dims ''division'' = Some (example_dim ''division'' None [])"
    by (simp add: example_dims_def)
  moreover have "\<not> is_ragged (example_dim ''division'' None [])" "transitive (example_dim ''division'' None []) = []"
    by (simp_all add: example_dim_def is_ragged_def)
  moreover have "dget example_dims ''cost_centre'' = Some ?l" by (simp add: example_dims_def)
  moreover have "dim_source ?l = Some \<lparr>ds_table = ''semantic.cc'', ds_key_column = ''id'', attribute_mapping = []\<rparr>"
    by (simp add: example_dim_def)
  ultimately show ?thesis
    using transitive_closure_exact [of example_dims "''division''" _ "''cost_centre''" ?l] by (simp add: run)
qed

section \<open>Statements\<close>

text \<open>
  \<open>_resolve\<close> with the set \<open>visiting\<close> of the statements on the path. A name that is not a statement
  is Python's \<open>KeyError\<close>; \<open>assert\<close> on a statement with neither lines nor concat is an error too.
\<close>

lemma res_mapM_cong [fundef_cong]:
  "xs = ys \<Longrightarrow> (\<And>x. x \<in> set ys \<Longrightarrow> f x = g x) \<Longrightarrow> res_mapM f xs = res_mapM g ys"
proof (induction xs arbitrary: ys)
  case (Cons x xs)
  then show ?case by (cases ys) auto
qed simp

(* engine/catalogue.py:1576-1594 _resolve *)
function resolve_from :: "(string, statement) dict \<Rightarrow> string \<Rightarrow> string list \<Rightarrow> (catalogue_error, string list) res" where
  "resolve_from stmts name visiting =
     (if name \<in> set visiting then Inl (CatalogueError ''circular statement'' [name])
      else case dget stmts name of
        None \<Rightarrow> Inl (KeyError name)
      | Some stmt \<Rightarrow>
          (case lines stmt of
             Some ls \<Rightarrow> Inr ls
           | None \<Rightarrow>
               (case concat_of stmt of
                  None \<Rightarrow> Inl (CatalogueError ''neither lines nor concat'' [name])
                | Some entries \<Rightarrow>
                    res_map concat (res_mapM (\<lambda>entry.
                      if entry = ''separator'' then Inr [''separator'']
                      else resolve_from stmts entry (name # visiting)) entries))))"
  by pat_completeness auto
termination
proof (relation "measure (\<lambda>(stmts, name, visiting). card (set (dkeys stmts) - set visiting))", simp, goal_cases)
  case (1 stmts name visiting stmt entries entry)
  then have "name \<in> set (dkeys stmts) - set visiting" by (force dest: map_of_SomeD)
  then have "card (set (dkeys stmts) - set visiting - {name}) < card (set (dkeys stmts) - set visiting)"
    by (intro psubset_card_mono) auto
  moreover have "set (dkeys stmts) - set (name # visiting) = set (dkeys stmts) - set visiting - {name}"
    by auto
  ultimately show ?case by simp
qed

declare resolve_from.simps [simp del]

(* engine/catalogue.py:1568-1596 resolve_statement *)
definition resolve_statement :: "(string, statement) dict \<Rightarrow> string \<Rightarrow> (catalogue_error, string list) res" where
  "resolve_statement stmts name =
     (if dhas name stmts then resolve_from stmts name []
      else Inl (CatalogueError ''unknown statement'' [name]))"

end
