(* ===== verification/Validation.thy ===== *)
theory Validation
  imports Catalogue Complex_Main
begin

text \<open>
  \<open>validate_catalogue\<close> of \<open>engine/catalogue.py\<close>, section by section in the order of the source, and
  \<open>resolve_statement\<close> on a validated catalogue. The checks of one section stop at the first failure
  and report the names the message prints. The lemmas show what a validated catalogue guarantees:
  the references of formulas, statements and parents are declared and none of the three graphs is
  circular, so the expansion of a statement never fails and yields metric keys and separators only.
\<close>

abbreviation check_that :: "bool \<Rightarrow> string \<Rightarrow> string list \<Rightarrow> (catalogue_error, unit) res" where
  "check_that \<equiv> fail_unless"

text \<open>Checks in sequence; the first failure is the result.\<close>

fun checks :: "(catalogue_error, unit) res list \<Rightarrow> (catalogue_error, unit) res" where
  "checks [] = Inr ()"
| "checks (c # cs) = res_bind c (\<lambda>_. checks cs)"

lemma checks_ok [simp]: "checks cs = Inr u \<longleftrightarrow> (\<forall>c\<in>set cs. c = Inr ())"
  by (induction cs) (auto simp: res_bind_eq_Inr)

declare checks.simps [simp del]

definition all_items :: "('k \<Rightarrow> 'v \<Rightarrow> (catalogue_error, unit) res) \<Rightarrow> ('k, 'v) dict \<Rightarrow> (catalogue_error, unit) res" where
  "all_items f d = res_all (\<lambda>(k, v). f k v) d"

lemma all_items_ok [simp]: "all_items f d = Inr u \<longleftrightarrow> (\<forall>(k, v)\<in>set d. f k v = Inr ())"
  by (auto simp: all_items_def res_all_ok)

section \<open>Metrics\<close>

(* engine/catalogue.py:1082-1105 validate_catalogue *)
definition check_predicate :: "string \<Rightarrow> metric_predicate \<Rightarrow> (catalogue_error, unit) res" where
  "check_predicate key pred = checks
     [check_that (mp_column pred \<noteq> []) ''predicate missing column'' [key],
      check_that (safe_identifier (mp_column pred)) ''invalid predicate column'' [key, mp_column pred],
      check_that (\<not> (mp_op pred \<in> set PREDICATE_VALUE_OPS \<and> mp_value pred = None))
        ''must define value'' [key, mp_column pred],
      check_that (\<not> (mp_op pred \<in> set PREDICATE_VALUES_OPS \<and> mp_values pred = []))
        ''must define non-empty values'' [key, mp_column pred],
      check_that (\<not> (mp_op pred \<in> set PREDICATE_NULL_OPS \<and> (mp_value pred \<noteq> None \<or> mp_values pred \<noteq> [])))
        ''must not define value or values'' [key, mp_column pred]]"

(* engine/catalogue.py:1079-1105 validate_catalogue *)
fun check_metric :: "string \<Rightarrow> metric \<Rightarrow> (catalogue_error, unit) res" where
  "check_metric key (BaseMetric m) = res_all (check_predicate key) (bm_where m)"
| "check_metric key (DerivedMetric m) = Inr ()"

(* engine/catalogue.py:1110-1119 validate_catalogue *)
fun metric_dependencies :: "'f parser \<Rightarrow> string list \<Rightarrow> string \<Rightarrow> metric \<Rightarrow> (catalogue_error, string list) res" where
  "metric_dependencies parse keys key (BaseMetric m) = Inr []"
| "metric_dependencies parse keys key (DerivedMetric m) =
     res_bind (res_wrap formula_failed (metric_refs parse (formula m))) (\<lambda>refs.
       let unknown = sorted_diff refs keys
       in if unknown \<noteq> [] then Inl (CatalogueError ''formula references unknown metric keys'' (key # unknown))
          else Inr (filter (\<lambda>r. r \<in> set keys) refs))"

definition no_cycle :: "string \<Rightarrow> string graph \<Rightarrow> (catalogue_error, unit) res" where
  "no_cycle msg g = (case has_cycle g of None \<Rightarrow> Inr () | Some cyc \<Rightarrow> Inl (CatalogueError msg (sort cyc)))"

(* engine/catalogue.py:1107-1125 validate_catalogue *)
definition check_formula_graph :: "'f parser \<Rightarrow> (string, metric) dict \<Rightarrow> (catalogue_error, unit) res" where
  "check_formula_graph parse ms =
     res_bind (map_dict (metric_dependencies parse (dkeys ms)) ms)
       (no_cycle ''circular dependency in metric formulas'')"

section \<open>Statements\<close>

(* engine/catalogue.py:1127-1153 validate_catalogue *)
definition check_statement ::
  "(string, metric) dict \<Rightarrow> (string, statement) dict \<Rightarrow> string \<Rightarrow> statement \<Rightarrow> (catalogue_error, unit) res" where
  "check_statement ms stmts name stmt = checks
     [check_that (\<not> (lines stmt \<noteq> None \<and> concat_of stmt \<noteq> None)) ''both lines and concat'' [name],
      check_that (\<not> (lines stmt = None \<and> concat_of stmt = None)) ''neither lines nor concat'' [name],
      (case lines stmt of
         None \<Rightarrow> Inr ()
       | Some ls \<Rightarrow> res_all (\<lambda>e. check_that (e = ''separator'' \<or> dhas e ms) ''line is not a metric key'' [name, e]) ls),
      (case concat_of stmt of
         None \<Rightarrow> Inr ()
       | Some es \<Rightarrow> res_all (\<lambda>e. check_that (e = ''separator'' \<or> dhas e stmts) ''entry is not a statement'' [name, e]) es)]"

definition statement_entries :: "(string, statement) dict \<Rightarrow> string \<Rightarrow> string list" where
  "statement_entries stmts name =
     (case dget stmts name of
        None \<Rightarrow> []
      | Some s \<Rightarrow> (case concat_of s of None \<Rightarrow> [] | Some es \<Rightarrow> filter (\<lambda>e. e \<noteq> ''separator'') es))"

(* engine/catalogue.py:1155-1167 validate_catalogue *)
definition check_statement_graph :: "(string, statement) dict \<Rightarrow> (catalogue_error, unit) res" where
  "check_statement_graph stmts =
     no_cycle ''circular dependency in statement concat''
       (dict_of (\<lambda>name. remdups (statement_entries stmts name)) (dkeys stmts))"

section \<open>Dimensions\<close>

(* engine/catalogue.py:1173-1182 validate_catalogue *)
definition check_dimension_type :: "string \<Rightarrow> dimension \<Rightarrow> (catalogue_error, unit) res" where
  "check_dimension_type key d =
     (let type_count = length (filter id [is_leaf d, is_derived d, is_ragged d]) in
      checks [check_that (type_count \<noteq> 0) ''must have one of source, derived_from or ragged'' [key],
              check_that (type_count \<le> 1) ''multiple types set'' [key]])"

(* engine/catalogue.py:1184-1197 validate_catalogue *)
definition check_leaf :: "string \<Rightarrow> dimension \<Rightarrow> (catalogue_error, unit) res" where
  "check_leaf key d =
     (case dim_source d of
        None \<Rightarrow> Inr ()
      | Some s \<Rightarrow> checks
          [check_that (ds_table s \<noteq> []) ''source missing table'' [key],
           check_that (ds_key_column s \<noteq> []) ''source missing key_column'' [key],
           res_all (\<lambda>a. check_that (dhas a (attributes d)) ''attribute_mapping key not in attributes'' [key, a])
             (dkeys (attribute_mapping s))])"

(* engine/catalogue.py:1199-1219 validate_catalogue *)
definition check_display :: "string \<Rightarrow> dimension \<Rightarrow> (catalogue_error, unit) res" where
  "check_display key d =
     (let unknown = sorted_diff (required_member_attributes d) (dkeys (attributes d)) in
      checks
       [check_that (display_attribute d = [] \<or> dhas (display_attribute d) (attributes d))
          ''display_attribute is not defined'' [key, display_attribute d],
        check_that (sort_attribute d = [] \<or> dhas (sort_attribute d) (attributes d))
          ''sort_attribute is not defined'' [key, sort_attribute d],
        check_that (unknown = []) ''unknown required attributes'' (key # unknown),
        check_that (dim_extendability d = SourceMastered \<or> is_leaf d) ''only leaf dimensions can be extendable'' [key]])"

(* engine/catalogue.py:1220-1252 validate_catalogue *)
definition check_attribute :: "dims \<Rightarrow> string \<Rightarrow> dimension \<Rightarrow> string \<Rightarrow> dimension_attribute \<Rightarrow> (catalogue_error, unit) res" where
  "check_attribute dims key d attr a = checks
     [check_that (distinct (at_values a)) ''values must be unique'' [key, attr],
      check_that (at_values a = [] \<or> at_references a = []) ''declare values or references'' [key, attr],
      (if at_references a = [] then Inr ()
       else case dget dims (at_references a) of
              None \<Rightarrow> Inl (CatalogueError ''references unknown dimension'' [key, attr, at_references a])
            | Some target \<Rightarrow> check_that (\<not> is_ragged target) ''references must target a leaf or derived dimension'' [key, attr]),
      (if \<not> at_unique a then Inr ()
       else case dim_source d of
              None \<Rightarrow> Inl (CatalogueError ''unique is supported only on leaf dimensions'' [key, attr])
            | Some s \<Rightarrow> check_that (dhas attr (attribute_mapping s)) ''unique requires an attribute_mapping column'' [key, attr])]"

(* engine/catalogue.py:1254-1266 validate_catalogue *)
definition check_derived :: "dims \<Rightarrow> string \<Rightarrow> dimension \<Rightarrow> (catalogue_error, unit) res" where
  "check_derived dims key d =
     (case dim_derived_from d of
        None \<Rightarrow> Inr ()
      | Some df \<Rightarrow> checks
          [check_that (dhas (df_dimension df) dims) ''derived_from references unknown dimension'' [key, df_dimension df],
           check_that (df_source_column df \<noteq> []) ''derived_from missing source_column'' [key]])"

(* engine/catalogue.py:1268-1274 validate_catalogue *)
definition check_parents :: "dims \<Rightarrow> string \<Rightarrow> dimension \<Rightarrow> (catalogue_error, unit) res" where
  "check_parents dims key d =
     res_all (\<lambda>p. check_that (dhas p dims) ''parent references unknown dimension'' [key, p]) (dkeys (parents d))"

definition missing_fields :: "ragged_source \<Rightarrow> string list" where
  "missing_fields rs = map fst (filter (\<lambda>(_, v). v = [])
     [(''node_table'', node_table rs), (''edge_table'', edge_table rs),
      (''child_column'', child_column rs), (''parent_column'', parent_column rs)])"

(* engine/catalogue.py:1307-1324 validate_catalogue *)
definition check_levels :: "dims \<Rightarrow> string \<Rightarrow> dimension \<Rightarrow> (catalogue_error, unit) res" where
  "check_levels dims key d =
     (if ragged_levels d = [] then Inl (CatalogueError ''must have at least one level'' [key])
      else checks
        [check_that (rl_dimension (last (ragged_levels d)) = dim_leaf_dimension d)
           ''last level must match leaf_dimension'' [key, rl_dimension (last (ragged_levels d))],
         res_all (\<lambda>rl. check_that (dhas (rl_dimension rl) dims) ''level references unknown dimension'' [key, rl_dimension rl])
           (ragged_levels d)])"

(* engine/catalogue.py:1276-1324 validate_catalogue *)
definition check_ragged :: "dims \<Rightarrow> string \<Rightarrow> dimension \<Rightarrow> (catalogue_error, unit) res" where
  "check_ragged dims key d =
     (if \<not> is_ragged d then Inr ()
      else if dim_leaf_dimension d = [] then Inl (CatalogueError ''missing leaf_dimension'' [key])
      else case dget dims (dim_leaf_dimension d) of
             None \<Rightarrow> Inl (CatalogueError ''leaf_dimension not found'' [key, dim_leaf_dimension d])
           | Some leaf \<Rightarrow>
               res_bind (check_that (is_leaf leaf) ''leaf_dimension is not a leaf'' [key, dim_leaf_dimension d]) (\<lambda>_.
                 case dim_ragged_source d of
                   None \<Rightarrow> check_levels dims key d
                 | Some rs \<Rightarrow>
                     if rs_type rs = Provided then
                       check_that (missing_fields rs = []) ''source type provided requires'' (key # missing_fields rs)
                     else check_levels dims key d))"

(* engine/catalogue.py:1169-1324 validate_catalogue *)
definition check_dimension :: "dims \<Rightarrow> string \<Rightarrow> dimension \<Rightarrow> (catalogue_error, unit) res" where
  "check_dimension dims key d = checks
     [check_dimension_type key d, check_leaf key d, check_display key d,
      all_items (check_attribute dims key d) (attributes d),
      check_derived dims key d, check_parents dims key d, check_ragged dims key d]"

(* engine/catalogue.py:1326-1335 validate_catalogue *)
definition check_parent_graph :: "dims \<Rightarrow> (catalogue_error, unit) res" where
  "check_parent_graph dims =
     no_cycle ''circular dependency in dimension parents''
       (dict_of (\<lambda>key. remdups (dkeys (parents_of dims key))) (dkeys dims))"

section \<open>Domains\<close>

(* engine/catalogue.py:1339-1349 validate_catalogue *)
fun check_inspect :: "string \<Rightarrow> string list \<Rightarrow> string list \<Rightarrow> (catalogue_error, unit) res" where
  "check_inspect name seen [] = Inr ()"
| "check_inspect name seen (col # cols) =
     (if \<not> safe_identifier col then Inl (CatalogueError ''invalid inspect column'' [name, col])
      else if col \<in> set seen then Inl (CatalogueError ''duplicate inspect column'' [name, col])
      else check_inspect name (col # seen) cols)"

(* engine/catalogue.py:1354-1366 validate_catalogue *)
fun check_average :: "string \<Rightarrow> metric \<Rightarrow> (catalogue_error, unit) res" where
  "check_average name (BaseMetric m) =
     check_that (\<not> (bm_rollup_method m = RollAvg \<and> bm_aggregation m \<noteq> AggSum)) ''average rollup requires sum'' [bm_key m, name]"
| "check_average name (DerivedMetric m) = Inr ()"

(* engine/catalogue.py:1373-1386 validate_catalogue *)
fun check_federated_metric :: "string \<Rightarrow> metric \<Rightarrow> (catalogue_error, unit) res" where
  "check_federated_metric name (BaseMetric m) = checks
     [check_that (bm_aggregation m = AggSum) ''unsupported aggregation'' [bm_key m, name],
      check_that (bm_rollup_method m = RollSum) ''unsupported rollup_method'' [bm_key m, name]]"
| "check_federated_metric name (DerivedMetric m) = Inr ()"

(* engine/catalogue.py:1388-1410 validate_catalogue *)
definition check_cube_dimension :: "dims \<Rightarrow> string \<Rightarrow> backend_kind \<Rightarrow> cube_dimension \<Rightarrow> (catalogue_error, unit) res" where
  "check_cube_dimension dims name kind cd =
     (if source_inline cd then checks
        [check_that (kind = Ibis) ''source_inline needs a federated domain'' [name, cd_key cd],
         check_that (\<not> filterable cd) ''source_inline must not be filterable'' [name, cd_key cd]]
      else checks
        [check_that (cd_source cd \<noteq> []) ''must define source'' [name, cd_key cd],
         check_that (dhas (cd_key cd) dims) ''unknown catalogue dimension'' [name, cd_key cd]])"

(* engine/catalogue.py:1337-1410 validate_catalogue *)
definition check_domain :: "dims \<Rightarrow> string \<Rightarrow> domain_catalogue \<Rightarrow> (catalogue_error, unit) res" where
  "check_domain dims name dc = checks
     [check_inspect name [] (inspect_columns dc),
      check_that (\<not> (inspect_enabled dc \<and> inspect_columns dc = [])) ''inspect_columns is empty'' [name],
      res_all (check_average name) (dc_metrics dc),
      (if dc_backend_kind dc = Ibis then checks
         [check_that (\<not> versioned dc) ''federated domains must not be versioned'' [name],
          res_all (check_federated_metric name) (dc_metrics dc)]
       else Inr ()),
      res_all (check_cube_dimension dims name (dc_backend_kind dc)) (dc_dimensions dc)]"

section \<open>Plan and mapping datasets\<close>

(* engine/catalogue.py:1438-1473 validate_catalogue *)
definition check_plan_dimension :: "dims \<Rightarrow> string \<Rightarrow> plan_dimension \<Rightarrow> (catalogue_error, unit) res" where
  "check_plan_dimension dims ds d = checks
     [check_that (\<not> (pd_source d = [] \<and> pd_values d = [])) ''must have source or values'' [ds, pd_key d],
      check_that (\<not> (pd_source d \<noteq> [] \<and> pd_values d \<noteq> [])) ''cannot have both source and values'' [ds, pd_key d],
      (if pd_values d = [] then Inr () else checks
         [check_that (\<not> (\<exists>v\<in>set (pd_values d). strip v = [])) ''inline values must be non-empty'' [ds, pd_key d],
          check_that (distinct (pd_values d)) ''inline values must be unique'' [ds, pd_key d]]),
      check_that (pd_source d = [] \<or> dhas (pd_source d) dims) ''unknown master dimension'' [ds, pd_key d, pd_source d],
      check_that (\<not> (pd_level d \<noteq> [] \<and> pd_source d \<noteq> []) \<or> dhas (pd_level d) dims) ''unknown level'' [ds, pd_key d, pd_level d]]"

(* engine/catalogue.py:1431-1473 validate_catalogue *)
fun check_plan_dimensions :: "dims \<Rightarrow> string \<Rightarrow> string list \<Rightarrow> plan_dimension list \<Rightarrow> (catalogue_error, unit) res" where
  "check_plan_dimensions dims ds seen [] = Inr ()"
| "check_plan_dimensions dims ds seen (d # rest) =
     (if pd_key d \<in> set seen then Inl (CatalogueError ''duplicate dimension key'' [ds, pd_key d])
      else res_bind (check_plan_dimension dims ds d) (\<lambda>_.
        check_plan_dimensions dims ds (pd_key d # seen) rest))"

(* engine/catalogue.py:1501-1513 validate_catalogue *)
definition check_metadata :: "(string, domain_catalogue) dict \<Rightarrow> string \<Rightarrow> string \<Rightarrow> plan_metric_metadata \<Rightarrow> (catalogue_error, unit) res" where
  "check_metadata doms ds key m =
     (let unknown = sorted_diff (contributes_to m) (dkeys doms) in checks
       [check_that (strip (pm_label m) \<noteq> [] \<and> strip (pm_unit m) \<noteq> []) ''label and unit must be non-empty'' [ds, key],
        check_that (unknown = []) ''unknown contributes_to domains'' (ds # key # unknown)])"

(* engine/catalogue.py:1475-1513 validate_catalogue *)
definition check_metric_metadata :: "(string, domain_catalogue) dict \<Rightarrow> string \<Rightarrow> plan_dataset \<Rightarrow> (catalogue_error, unit) res" where
  "check_metric_metadata doms key ds =
     (if metric_metadata ds = [] then Inr ()
      else case List.find (\<lambda>d. pd_key d = ''metric'') (ps_dimensions ds) of
        None \<Rightarrow> Inl (CatalogueError ''metric_metadata requires an inline metric dimension'' [key])
      | Some d \<Rightarrow>
          if pd_values d = [] then Inl (CatalogueError ''metric_metadata requires an inline metric dimension'' [key])
          else let missing = sorted_diff (pd_values d) (dkeys (metric_metadata ds));
                   unknown = sorted_diff (dkeys (metric_metadata ds)) (pd_values d)
               in if missing \<noteq> [] \<or> unknown \<noteq> []
                  then Inl (CatalogueError ''metric_metadata does not match the metric dimension'' (key # missing @ unknown))
                  else all_items (check_metadata doms key) (metric_metadata ds))"

(* engine/catalogue.py:1412-1513 validate_catalogue *)
definition check_plan_dataset :: "catalogue \<Rightarrow> string \<Rightarrow> plan_dataset \<Rightarrow> (catalogue_error, unit) res" where
  "check_plan_dataset cat key ds = checks
     [check_that (ps_table ds \<noteq> []) ''missing table'' [key],
      check_that (value_column ds \<noteq> []) ''missing value_column'' [key],
      check_that (ps_dimensions ds \<noteq> []) ''must have at least one dimension'' [key],
      (if ps_domain ds = [] then Inr ()
       else case dget (domains cat) (ps_domain ds) of
              None \<Rightarrow> Inl (CatalogueError ''unknown domain'' [key, ps_domain ds])
            | Some dc \<Rightarrow> check_that (dc_backend_kind dc = ClickHouse) ''must target ClickHouse domains'' [key, ps_domain ds]),
      check_plan_dimensions (dimensions cat) key [] (ps_dimensions ds),
      check_metric_metadata (domains cat) key ds]"

(* engine/catalogue.py:1531-1555 validate_catalogue *)
definition check_coordinate :: "dims \<Rightarrow> (string, plan_dimension) dict \<Rightarrow> string \<Rightarrow> string \<Rightarrow> (catalogue_error, unit) res" where
  "check_coordinate dims source_dims key coordinate =
     (if dhas coordinate source_dims then Inr ()
      else
        let bad = Inl (CatalogueError ''source coordinate is not a plan dimension or attribute'' [key, coordinate])
        in case split_first ''.'' coordinate of
             None \<Rightarrow> bad
           | Some (dimension_key, attribute) \<Rightarrow>
               (case dget source_dims dimension_key of
                  None \<Rightarrow> bad
                | Some plan_dim \<Rightarrow>
                    (case (if pd_source plan_dim = [] then None else dget dims (pd_source plan_dim)) of
                       None \<Rightarrow> bad
                     | Some master \<Rightarrow>
                         if \<not> dhas attribute (attributes master) then bad
                         else check_that
                           (\<not> (dim_extendability master = PlannerExtendable
                               \<and> attribute \<notin> set (required_member_attributes master)))
                           ''attribute coordinate must be required'' [key, coordinate, dim_key master])))"

text \<open>\<open>column.replace(".", "__")\<close>\<close>

definition sql_column :: "string \<Rightarrow> string" where
  "sql_column c = concat (map (\<lambda>x. if x = CHR ''.'' then ''__'' else [x]) c)"

(* engine/catalogue.py:1515-1565 validate_catalogue *)
definition check_mapping_dataset :: "catalogue \<Rightarrow> string \<Rightarrow> mapping_dataset \<Rightarrow> (catalogue_error, unit) res" where
  "check_mapping_dataset cat key m =
     (case dget (plan_datasets cat) (source_dataset m) of
        None \<Rightarrow> Inl (CatalogueError ''unknown plan dataset'' [key, source_dataset m])
      | Some src \<Rightarrow>
          let source_dims = fold (\<lambda>d. dset (pd_key d) d) (ps_dimensions src) [] in checks
            [check_that (source_coordinates m \<noteq> []) ''needs source_coordinates'' [key],
             check_that (distinct (source_coordinates m)) ''duplicate source coordinates'' [key],
             res_all (check_coordinate (dimensions cat) source_dims key) (source_coordinates m),
             check_that (target_columns m \<noteq> []) ''needs target_columns'' [key],
             res_all (\<lambda>c. check_that (safe_identifier (sql_column c)) ''unsafe column'' [key, c])
               (source_coordinates m @ dkeys (target_columns m))])"

section \<open>The whole check\<close>

(* engine/catalogue.py:1068-1078 validate_catalogue *)
definition validate_catalogue :: "'f parser \<Rightarrow> catalogue \<Rightarrow> (catalogue_error, unit) res" where
  "validate_catalogue parse cat = checks
     [all_items check_metric (metrics cat),
      check_formula_graph parse (metrics cat),
      all_items (check_statement (metrics cat) (statements cat)) (statements cat),
      check_statement_graph (statements cat),
      all_items (check_dimension (dimensions cat)) (dimensions cat),
      check_parent_graph (dimensions cat),
      all_items (check_domain (dimensions cat)) (domains cat),
      all_items (check_plan_dataset cat) (plan_datasets cat),
      all_items (check_mapping_dataset cat) (mapping_datasets cat)]"

text \<open>The part of \<open>load_catalogue\<close> that follows parsing.\<close>

(* engine/catalogue.py:886-900 load_catalogue *)
definition finish_catalogue :: "'f parser \<Rightarrow> catalogue \<Rightarrow> (catalogue_error, catalogue) res" where
  "finish_catalogue parse cat =
     res_bind (normalize_semantic_refs cat) (\<lambda>cat1.
       let cat2 = cat1\<lparr>dimensions := compute_transitive_closure (dimensions cat1)\<rparr>
       in res_map (\<lambda>_. cat2) (validate_catalogue parse cat2))"

section \<open>What a validated catalogue guarantees\<close>

lemma no_cycle_ok: "no_cycle msg g = Inr u \<longleftrightarrow> has_cycle g = None"
  by (auto simp: no_cycle_def split: option.splits)

lemma dict_of_wf: "wf_dict d \<Longrightarrow> (\<And>k v. (k, v) \<in> set d \<Longrightarrow> v = f k) \<Longrightarrow> d = dict_of f (dkeys d)"
proof -
  assume "wf_dict d" and vals: "\<And>k v. (k, v) \<in> set d \<Longrightarrow> v = f k"
  then have d: "distinct (dkeys d)" by (simp add: wf_dict_def)
  have "dict_of f ks = map (\<lambda>k. (k, f k)) ks" if "distinct ks" for ks
  proof -
    have "fold (\<lambda>k. dset k (f k)) xs e = e @ map (\<lambda>k. (k, f k)) xs"
      if "distinct (dkeys e @ xs)" for xs e
      using that
    proof (induction xs arbitrary: e)
      case (Cons x xs)
      then have "dset x (f x) e = e @ [(x, f x)]" by (intro dset_fresh) simp
      then show ?case using Cons.IH [of "e @ [(x, f x)]"] Cons.prems by simp
    qed simp
    then show ?thesis using that by (simp add: dict_of_def)
  qed
  then have "dict_of f (dkeys d) = map (\<lambda>k. (k, f k)) (dkeys d)" using d by blast
  also have "\<dots> = map (\<lambda>p. p) d"
    unfolding map_map using vals by (intro map_cong) auto
  finally show ?thesis by simp
qed

text \<open>A graph whose dependencies are all keys is the restricted graph of the cycle check.\<close>

lemma closed_graph:
  "(\<And>k. k \<in> set ks \<Longrightarrow> set (f k) \<subseteq> set ks) \<Longrightarrow> dict_of (\<lambda>k. remdups (f k)) ks = dependency_graph f ks"
proof -
  assume closed: "\<And>k. k \<in> set ks \<Longrightarrow> set (f k) \<subseteq> set ks"
  have "filter (\<lambda>d. d \<in> set ks) (remdups (f k)) = remdups (f k)" if "k \<in> set ks" for k
    using closed [OF that] by (auto simp: filter_id_conv)
  then show ?thesis
    unfolding dependency_graph_def dict_of_def by (intro fold_cong) auto
qed

text \<open>The names a metric's formula refers to.\<close>

definition formula_refs :: "'f parser \<Rightarrow> (string, metric) dict \<Rightarrow> string \<Rightarrow> string list" where
  "formula_refs parse ms key =
     (case dget ms key of
        Some (DerivedMetric m) \<Rightarrow> (case metric_refs parse (formula m) of Inr refs \<Rightarrow> refs | Inl _ \<Rightarrow> [])
      | _ \<Rightarrow> [])"

lemma metric_refs_distinct: "metric_refs parse f = Inr refs \<Longrightarrow> distinct refs"
  by (auto simp: metric_refs_def extract_names_from_formula_def names_of_def res_map_eq_Inr)

lemma formula_refs_distinct [simp]: "distinct (formula_refs parse ms key)"
  by (auto simp: formula_refs_def metric_refs_distinct split: option.splits metric.splits sum.splits)

lemma sorted_diff_empty: "sorted_diff xs ys = [] \<longleftrightarrow> set xs \<subseteq> set ys"
  by (metis Diff_eq_empty_iff set_empty set_sorted_diff)

lemma metric_dependencies_ok:
  assumes "metric_dependencies parse keys key m = Inr deps" and "dget ms key = Some m"
  shows "deps = formula_refs parse ms key" and "set (formula_refs parse ms key) \<subseteq> set keys"
    and "m = DerivedMetric d \<Longrightarrow> \<exists>e. parse (formula d) = Some e"
proof -
  have "deps = formula_refs parse ms key \<and> set (formula_refs parse ms key) \<subseteq> set keys"
  proof (cases m)
    case (BaseMetric b)
    then show ?thesis using assms by (simp add: formula_refs_def)
  next
    case (DerivedMetric d)
    then obtain refs where refs: "metric_refs parse (formula d) = Inr refs"
      using assms(1) by (auto simp: res_bind_eq_Inr res_wrap_eq_Inr)
    then have "formula_refs parse ms key = refs" using assms(2) DerivedMetric by (simp add: formula_refs_def)
    then show ?thesis
      using assms(1) DerivedMetric refs by (auto simp: Let_def sorted_diff_empty filter_id_conv split: if_splits)
  qed
  then show "deps = formula_refs parse ms key" "set (formula_refs parse ms key) \<subseteq> set keys" by simp_all
  show "m = DerivedMetric d \<Longrightarrow> \<exists>e. parse (formula d) = Some e"
    using assms(1) by (auto simp: res_bind_eq_Inr res_wrap_eq_Inr metric_refs_def extract_names_from_formula_def
        res_map_eq_Inr res_of_option_eq_Inr)
qed

lemma validated_metrics:
  assumes "check_formula_graph parse ms = Inr ()" and "wf_dict ms"
  shows "acyclic (depends (formula_refs parse ms) (dkeys ms))"
    and "key \<in> set (dkeys ms) \<Longrightarrow> set (formula_refs parse ms key) \<subseteq> set (dkeys ms)"
    and "dget ms key = Some (DerivedMetric d) \<Longrightarrow> \<exists>e. parse (formula d) = Some e"
proof -
  obtain g where g: "map_dict (metric_dependencies parse (dkeys ms)) ms = Inr g" "has_cycle g = None"
    using assms(1) by (auto simp: check_formula_graph_def res_bind_eq_Inr no_cycle_ok)
  note keys = map_dict_get [OF g(1)]
  have entry: "metric_dependencies parse (dkeys ms) k m = Inr deps \<Longrightarrow> dget ms k = Some m \<Longrightarrow>
      deps = formula_refs parse ms k \<and> set (formula_refs parse ms k) \<subseteq> set (dkeys ms)" for k m deps
    using metric_dependencies_ok(1,2) by blast
  have known: "set (formula_refs parse ms k) \<subseteq> set (dkeys ms)"
    and parsed: "dget ms k = Some (DerivedMetric d) \<Longrightarrow> \<exists>e. parse (formula d) = Some e"
    if k: "k \<in> set (dkeys ms)" for k d
  proof -
    obtain m where m: "dget ms k = Some m"
      using k dkeys_get [of k ms] by blast
    have "k \<in> set (dkeys g)" using k keys by simp
    then obtain deps where "(k, deps) \<in> set g" by auto
    then obtain m' where "(k, m') \<in> set ms" "metric_dependencies parse (dkeys ms) k m' = Inr deps"
      using keys by blast
    then have md: "metric_dependencies parse (dkeys ms) k m = Inr deps"
      using m assms(2) by (simp add: wf_dict_get)
    show "set (formula_refs parse ms k) \<subseteq> set (dkeys ms)" using entry md m by blast
    show "dget ms k = Some (DerivedMetric d) \<Longrightarrow> \<exists>e. parse (formula d) = Some e"
      using metric_dependencies_ok(3) [OF md m] m by simp
  qed
  have "wf_dict g" using keys assms(2) by (simp add: wf_dict_def)
  moreover have "v = formula_refs parse ms k" if "(k, v) \<in> set g" for k v
  proof -
    obtain m where "(k, m) \<in> set ms" "metric_dependencies parse (dkeys ms) k m = Inr v"
      using keys \<open>(k, v) \<in> set g\<close> by blast
    then show ?thesis using entry assms(2) by (simp add: wf_dict_get)
  qed
  ultimately have "g = dict_of (formula_refs parse ms) (dkeys ms)"
    using dict_of_wf [of g "formula_refs parse ms"] keys by simp
  then have "g = dependency_graph (formula_refs parse ms) (dkeys ms)"
    using closed_graph [of "dkeys ms" "formula_refs parse ms"] known by (simp add: distinct_remdups_id)
  then show "acyclic (depends (formula_refs parse ms) (dkeys ms))"
    using g(2) has_cycle_None_iff by metis
  show "key \<in> set (dkeys ms) \<Longrightarrow> set (formula_refs parse ms key) \<subseteq> set (dkeys ms)" by (rule known)
  show "dget ms key = Some (DerivedMetric d) \<Longrightarrow> \<exists>e. parse (formula d) = Some e"
    using parsed [of key d] by (auto simp only: dkeys_get)
qed

lemma validated_statements:
  assumes "validate_catalogue parse cat = Inr ()" and "wf_dict (statements cat)"
  shows "dget (statements cat) n = Some s \<Longrightarrow> check_statement (metrics cat) (statements cat) n s = Inr ()"
    and "acyclic (depends (statement_entries (statements cat)) (dkeys (statements cat)))"
proof -
  let ?S = "statements cat"
  have ok: "check_statement (metrics cat) ?S n s = Inr ()" if "dget ?S n = Some s" for n s
    using assms that by (auto simp: validate_catalogue_def dest!: map_of_SomeD)
  then show "dget ?S n = Some s \<Longrightarrow> check_statement (metrics cat) ?S n s = Inr ()" .
  have "set (statement_entries ?S n) \<subseteq> set (dkeys ?S)" for n
  proof (cases "dget ?S n")
    case (Some s)
    then show ?thesis using ok [OF Some]
      by (auto simp: check_statement_def statement_entries_def res_all_ok dhas_def split: option.splits)
  qed (simp add: statement_entries_def)
  then have "dict_of (\<lambda>k. remdups (statement_entries ?S k)) (dkeys ?S) = dependency_graph (statement_entries ?S) (dkeys ?S)"
    by (intro closed_graph)
  moreover have "has_cycle (dict_of (\<lambda>k. remdups (statement_entries ?S k)) (dkeys ?S)) = None"
    using assms(1) by (simp add: validate_catalogue_def check_statement_graph_def no_cycle_ok)
  ultimately show "acyclic (depends (statement_entries ?S) (dkeys ?S))"
    using has_cycle_None_iff by metis
qed

lemma resolve_from_total:
  assumes valid: "\<And>n s. dget stmts n = Some s \<Longrightarrow> check_statement ms stmts n s = Inr ()"
    and acyc: "acyclic (depends (statement_entries stmts) (dkeys stmts))"
  shows "dhas name stmts \<Longrightarrow>
     (\<And>v. v \<in> set visiting \<Longrightarrow> (v, name) \<in> (depends (statement_entries stmts) (dkeys stmts))\<^sup>+) \<Longrightarrow>
     \<exists>ls. resolve_from stmts name visiting = Inr ls \<and> (\<forall>l\<in>set ls. l = ''separator'' \<or> dhas l ms)"
  using assms
proof (induction stmts name visiting rule: resolve_from.induct)
  case (1 stmts name visiting)
  let ?D = "depends (statement_entries stmts) (dkeys stmts)"
  have fresh: "name \<notin> set visiting" using 1(3,5) by (auto simp: acyclic_def)
  obtain s where s: "dget stmts name = Some s" using 1(2) by (auto simp: dhas_iff)
  note ok = 1(4) [OF s]
  show ?case
  proof (cases "lines s")
    case (Some ls)
    then show ?thesis using s fresh ok
      by (simp add: resolve_from.simps [of stmts name] check_statement_def res_all_ok)
  next
    case None
    then obtain es where es: "concat_of s = Some es"
      using ok by (auto simp: check_statement_def)
    let ?f = "\<lambda>entry. if entry = ''separator'' then Inr [''separator''] else resolve_from stmts entry (name # visiting)"
    have step: "\<exists>ls. ?f e = Inr ls \<and> (\<forall>l\<in>set ls. l = ''separator'' \<or> dhas l ms)" if "e \<in> set es" for e
    proof (cases "e = ''separator''")
      case False
      then have has: "dhas e stmts"
        using ok es that by (auto simp: check_statement_def res_all_ok)
      have edge: "(name, e) \<in> ?D"
        using has that False es s 1(2) by (auto simp: depends_def statement_entries_def dhas_def)
      have "\<exists>ls. resolve_from stmts e (name # visiting) = Inr ls \<and> (\<forall>l\<in>set ls. l = ''separator'' \<or> dhas l ms)"
      proof (rule 1(1) [OF fresh s None es that False has])
        show "(v, e) \<in> ?D\<^sup>+" if "v \<in> set (name # visiting)" for v
          using that 1(3) edge by (auto intro: trancl_into_trancl)
      qed (use 1(4,5) in auto)
      then show ?thesis using False by simp
    qed simp
    define g where "g e = (case ?f e of Inr ls \<Rightarrow> ls | Inl _ \<Rightarrow> [])" for e
    have g: "?f e = Inr (g e) \<and> (\<forall>l\<in>set (g e). l = ''separator'' \<or> dhas l ms)" if "e \<in> set es" for e
      using step [OF that] unfolding g_def by fastforce
    have "res_mapM ?f es = Inr (map g es)" using g by (intro res_mapM_total) blast
    then show ?thesis using s fresh None es g
      by (auto simp: resolve_from.simps [of stmts name] simp del: resolve_from.simps)
  qed
qed

text \<open>
  C15: On a catalogue that passed validation, expanding any declared statement succeeds, and every
  entry of the flat list is a separator or the key of a declared metric.
\<close>

theorem validated_statement_resolves:
  assumes "validate_catalogue parse cat = Inr ()" and "wf_dict (statements cat)"
    and "dhas name (statements cat)"
  shows "\<exists>ls. resolve_statement (statements cat) name = Inr ls
    \<and> (\<forall>l\<in>set ls. l = ''separator'' \<or> dhas l (metrics cat))"
  using resolve_from_total [OF validated_statements [OF assms(1,2)] assms(3), of "[]"] assms(3)
  by (simp add: resolve_statement_def)

section \<open>An example catalogue\<close>

text \<open>Two base metrics, a difference and a ratio, and nested statements.\<close>

definition example_base :: "string \<Rightarrow> metric" where
  "example_base key = BaseMetric
     \<lparr>bm_key = key, bm_label = key, source_column = ''amount'', bm_aggregation = AggSum,
      bm_rollup_method = RollSum, bm_sign = SignRaw, bm_format = FmtCurrency, bm_fs_group = ''pl'',
      bm_domain = ''pnl'', bm_style = StyleDefault, bm_indent = 0, bm_separator_above = False,
      bm_hide_if_zero = False, bm_scale_exempt = False, bm_variance_effect = Natural,
      bm_where = [\<lparr>mp_column = ''account'', mp_op = OpEq, mp_value = Some (SText key), mp_values = []\<rparr>]\<rparr>"

definition example_derived :: "string \<Rightarrow> string \<Rightarrow> metric" where
  "example_derived key f = DerivedMetric
     \<lparr>dm_key = key, dm_label = key, formula = f, dm_format = FmtCurrency, dm_fs_group = ''pl'',
      dm_style = StyleTotal, dm_indent = 0, dm_separator_above = False, dm_hide_if_zero = False,
      dm_scale_exempt = False, dm_variance_effect = Natural\<rparr>"

definition example_catalogue :: catalogue where
  "example_catalogue =
     \<lparr>metrics = [(''ratio'', example_derived ''ratio'' ''margin / revenue''),
                 (''margin'', example_derived ''margin'' ''revenue - cost''),
                 (''revenue'', example_base ''revenue''), (''cost'', example_base ''cost'')],
      statements = [(''summary'', \<lparr>st_name = ''summary'', st_label = ''Summary'', lines = None,
                        concat_of = Some [''top'', ''separator'', ''bottom'']\<rparr>),
                    (''top'', \<lparr>st_name = ''top'', st_label = ''Top'', lines = Some [''revenue'', ''cost''], concat_of = None\<rparr>),
                    (''bottom'', \<lparr>st_name = ''bottom'', st_label = ''Bottom'', lines = Some [''margin''], concat_of = None\<rparr>)],
      domains = [], dimensions = example_dims, plan_datasets = [], mapping_datasets = []\<rparr>"

definition example_parse :: "rat parser" where
  "example_parse f =
     (if f = ''revenue - cost'' then Some (BinOp (Name ''revenue'') Sub (Name ''cost''))
      else if f = ''margin / revenue'' then Some (BinOp (Name ''margin'') Div (Name ''revenue''))
      else None)"

lemma example_valid: "validate_catalogue example_parse example_catalogue = Inr ()"
  by code_simp

theorem validated_statement_resolves_witness:
  "resolve_statement (statements example_catalogue) ''summary''
     = Inr [''revenue'', ''cost'', ''separator'', ''margin'']
   \<and> dhas ''margin'' (metrics example_catalogue)"
proof -
  have run: "resolve_statement (statements example_catalogue) ''summary''
      = Inr [''revenue'', ''cost'', ''separator'', ''margin'']"
    by code_simp
  have "wf_dict (statements example_catalogue)" "dhas ''summary'' (statements example_catalogue)"
    by code_simp+
  from validated_statement_resolves [OF example_valid this] show ?thesis by (simp add: run)
qed

end
