(* ===== verification/Permissions.thy ===== *)
theory Permissions
  imports PyText
begin

text \<open>
  Permissions, \<open>auth.py\<close>: the scope data model, the choice of the profile entry that governs a
  scenario, the scope each class of tools gets, and the loading and refreshing of a caller's
  permissions. The rows of the platform database and the scenario kinds are arguments; what the code
  does with them is the model.
\<close>

section \<open>Scopes\<close>

(* auth.py:62-70 DimensionScope *)
record dimension_scope =
  dims_allow :: "(string, string list) dict option"
  dims_deny :: "(string, string list) dict option"

(* auth.py:73-77 DomainScope *)
record domain_scope =
  doms_allow :: "string list option"
  doms_deny :: "string list option"

(* auth.py:80-84 ScopeSpec *)
record scope_spec =
  sc_dimensions :: "dimension_scope option"
  sc_domains :: "domain_scope option"

(* auth.py:90-99 ScenarioPermissions *)
record scenario_permissions =
  effective_role :: string
  tool_scopes :: "(string, scope_spec option) dict"

(* auth.py:102-107 UserPermissions *)
record user_permissions =
  perm_user :: string
  perm_admin :: bool
  perm_scenarios :: "(string, scenario_permissions) dict"

(* auth.py:39-39 ROLE_RANK *)
definition ROLE_RANK :: "(string, nat) dict" where
  "ROLE_RANK = [(''analyst'', 0), (''planner'', 1), (''manager'', 2)]"

(* auth.py:42-48 TOOL_TYPE_MIN_RANK *)
definition TOOL_TYPE_MIN_RANK :: "(string, nat) dict" where
  "TOOL_TYPE_MIN_RANK = [(''read'', 0), (''write'', 1), (''plan_manager'', 2)]"

(* auth.py:115-120 CATEGORY_TOKENS *)
definition CATEGORY_TOKENS :: "(string, string list) dict" where
  "CATEGORY_TOKENS = [(''ACTUAL'', [''ACTUAL'']), (''BUDGET'', [''BUDGET'']), (''FORECAST'', [''FORECAST'']),
     (''PLAN'', [''BUDGET'', ''FORECAST''])]"

section \<open>Profiles\<close>

text \<open>
  A profile definition maps scenario patterns to role blocks. An axis of a block has an allow and a
  deny clause, each possibly absent; an empty axis dictionary is falsy and reads as an absent one.
\<close>

record 'a raw_axis =
  ax_allow :: "'a option"
  ax_deny :: "'a option"

record raw_block =
  raw_domains :: "string list raw_axis option"
  raw_dimensions :: "(string, string list) dict raw_axis option"

type_synonym role_blocks = "(string, raw_block option) dict"
type_synonym profile = "(string, (string, role_blocks) dict) dict"

definition axis_of :: "('a option \<Rightarrow> 'a option \<Rightarrow> 's) \<Rightarrow> 'a raw_axis option \<Rightarrow> 's option" where
  "axis_of mk raw =
     (case raw of
        None \<Rightarrow> None
      | Some ax \<Rightarrow> if ax_allow ax = None \<and> ax_deny ax = None then None else Some (mk (ax_allow ax) (ax_deny ax)))"

(* auth.py:129-160 _parse_scope *)
definition parse_scope :: "raw_block option \<Rightarrow> scope_spec option" where
  "parse_scope block =
     (case block of
        None \<Rightarrow> None
      | Some b \<Rightarrow>
          let domains = axis_of (\<lambda>a d. \<lparr>doms_allow = a, doms_deny = d\<rparr>) (raw_domains b);
              dims = axis_of (\<lambda>a d. \<lparr>dims_allow = a, dims_deny = d\<rparr>) (raw_dimensions b)
          in if domains = None \<and> dims = None then None
             else Some \<lparr>sc_dimensions = dims, sc_domains = domains\<rparr>)"

(* auth.py:163-178 _pattern_match_rank *)
definition pattern_match_rank :: "string \<Rightarrow> string \<Rightarrow> string \<Rightarrow> int option" where
  "pattern_match_rank pattern sid knd =
     (if pattern = sid then Some 4
      else if pattern = ''*'' then Some 1
      else case dget CATEGORY_TOKENS pattern of
             None \<Rightarrow> None
           | Some members \<Rightarrow> if knd \<notin> set members then None else if pattern = ''PLAN'' then Some 2 else Some 3)"

(* auth.py:189-197 _resolve_profile_for_scenario *)
fun best_entry :: "string \<Rightarrow> string \<Rightarrow> int \<times> 'e option \<Rightarrow> (string \<times> 'e) list \<Rightarrow> 'e option" where
  "best_entry sid knd (best_rank, best) [] = best"
| "best_entry sid knd (best_rank, best) ((pattern, e) # rest) =
     (case pattern_match_rank pattern sid knd of
        None \<Rightarrow> best_entry sid knd (best_rank, best) rest
      | Some rank \<Rightarrow> if rank \<le> best_rank then best_entry sid knd (best_rank, best) rest
                     else best_entry sid knd (rank, Some e) rest)"

(* auth.py:181-197 _resolve_profile_for_scenario *)
definition resolve_profile_for_scenario :: "profile \<Rightarrow> string \<Rightarrow> string \<Rightarrow> role_blocks option" where
  "resolve_profile_for_scenario p sid knd = best_entry sid knd (- 1, None) (dget_or [] p ''scenarios'')"

(* auth.py:200-216 _resolve_profile_blocks *)
definition resolve_profile_blocks :: "profile \<Rightarrow> string \<Rightarrow> string \<Rightarrow> (string, scope_spec option) dict option" where
  "resolve_profile_blocks p sid knd =
     (case resolve_profile_for_scenario p sid knd of
        None \<Rightarrow> None
      | Some e \<Rightarrow>
          let blocks = dmap (\<lambda>_. parse_scope) (filter (\<lambda>(role, _). dhas role ROLE_RANK) e)
          in if blocks = [] then None else Some blocks)"

text \<open>\<open>max(xs, key=f)\<close> and \<open>min(xs, key=f)\<close>: the first extremal element.\<close>

fun first_max :: "('a \<Rightarrow> 'b::linorder) \<Rightarrow> 'a \<Rightarrow> 'a list \<Rightarrow> 'a" where
  "first_max f best [] = best"
| "first_max f best (x # xs) = first_max f (if f best < f x then x else best) xs"

fun first_min :: "('a \<Rightarrow> 'b::linorder) \<Rightarrow> 'a \<Rightarrow> 'a list \<Rightarrow> 'a" where
  "first_min f best [] = best"
| "first_min f best (x # xs) = first_min f (if f x < f best then x else best) xs"

definition role_rank :: "string \<Rightarrow> nat" where
  "role_rank role = dget_or 0 ROLE_RANK role"

(* auth.py:239-246 _compute_tool_scopes *)
definition add_tool_scope ::
  "(string, scope_spec option) dict \<Rightarrow> nat \<Rightarrow> (string \<times> nat) \<Rightarrow> (string, scope_spec option) dict
     \<Rightarrow> (string, scope_spec option) dict" where
  "add_tool_scope blocks eff = (\<lambda>(tool_type, min_rank) acc.
     if eff < min_rank then acc
     else case filter (\<lambda>r. min_rank \<le> role_rank r) (dkeys blocks) of
            [] \<Rightarrow> acc
          | c # cs \<Rightarrow> dset tool_type (dget_or None blocks (first_min role_rank c cs)) acc)"

(* auth.py:219-248 _compute_tool_scopes *)
definition compute_tool_scopes ::
  "(string, scope_spec option) dict \<Rightarrow> string \<times> (string, scope_spec option) dict" where
  "compute_tool_scopes blocks =
     (case dkeys blocks of
        [] \<Rightarrow> (''analyst'', [])
      | r # rs \<Rightarrow>
          let eff = first_max role_rank r rs
          in (eff, fold (add_tool_scope blocks (role_rank eff)) TOOL_TYPE_MIN_RANK []))"

section \<open>Loading and refreshing\<close>

datatype auth_error =
    AuthError string
  | AccountDisabledError string
  | BackendError string

record user_row =
  row_admin :: bool
  row_disabled :: bool

(* auth.py:341-353 load_permissions *)
definition scenario_grants :: "profile \<Rightarrow> (string, string) dict \<Rightarrow> (string, scenario_permissions) dict" where
  "scenario_grants p kinds =
     fold (\<lambda>(sid, knd) acc.
        case resolve_profile_blocks p sid knd of
          None \<Rightarrow> acc
        | Some blocks \<Rightarrow>
            let (role, scopes) = compute_tool_scopes blocks
            in dset sid \<lparr>effective_role = role, tool_scopes = scopes\<rparr> acc) kinds []"

text \<open>
  \<open>users\<close> and \<open>assigned\<close> are the rows the two queries return: the user's row if there is one, and the
  definitions of the profiles assigned to the user and not expired. The scenario kinds are only
  loaded when there is a profile, and loading them may fail.
\<close>

(* auth.py:298-359 load_permissions *)
definition load_permissions ::
  "(string \<Rightarrow> user_row option) \<Rightarrow> (string \<Rightarrow> profile list) \<Rightarrow> (auth_error, (string, string) dict) res \<Rightarrow> string
     \<Rightarrow> (auth_error, user_permissions) res" where
  "load_permissions users assigned kinds uid =
     (case users uid of
        None \<Rightarrow> Inl (AuthError uid)
      | Some u \<Rightarrow>
          if row_disabled u then Inl (AccountDisabledError uid)
          else (case assigned uid of
                  [] \<Rightarrow> Inr \<lparr>perm_user = uid, perm_admin = row_admin u, perm_scenarios = []\<rparr>
                | p # _ \<Rightarrow> res_map (\<lambda>ks. \<lparr>perm_user = uid, perm_admin = row_admin u, perm_scenarios = scenario_grants p ks\<rparr>)
                            (if p = [] then Inr [] else kinds)))"

(* auth.py:441-462 refresh_permissions *)
definition refresh_permissions ::
  "(string \<Rightarrow> (auth_error, user_permissions) res) \<Rightarrow> user_permissions option
     \<Rightarrow> user_permissions option \<times> (auth_error, user_permissions option) res" where
  "refresh_permissions load ctx =
     (case ctx of
        None \<Rightarrow> (None, Inr None)
      | Some held \<Rightarrow>
          (case load (perm_user held) of
             Inl e \<Rightarrow> (Some (held\<lparr>perm_admin := False, perm_scenarios := []\<rparr>), Inl e)
           | Inr fresh \<Rightarrow>
               let now = held\<lparr>perm_admin := perm_admin fresh, perm_scenarios := perm_scenarios fresh\<rparr>
               in (Some now, Inr (Some now))))"

(* auth.py:256-295 resolve_user_id *)
definition resolve_user_id ::
  "string \<Rightarrow> string \<Rightarrow> string list \<Rightarrow> (string \<Rightarrow> string \<Rightarrow> string list) \<Rightarrow> (string, string) dict
     \<Rightarrow> (auth_error, string option) res" where
  "resolve_user_id claim_env column_env allowlist find_users claims =
     (let claim_name = strip claim_env;
          found = (if claim_name \<noteq> [] then dget_or [] claims claim_name
                   else if dget_or [] claims ''precis_user_id'' \<noteq> [] then dget_or [] claims ''precis_user_id''
                   else dget_or [] claims ''preferred_username'');
          column = (if strip column_env = [] then ''id'' else strip column_env)
      in if found = [] then Inr None
         else if column = ''id'' then Inr (Some found)
         else if column \<notin> set allowlist then Inl (AuthError column)
         else Inr (case find_users column found of [] \<Rightarrow> None | uid # _ \<Rightarrow> Some uid))"

section \<open>Which entry governs a scenario\<close>

definition matches :: "string \<Rightarrow> string \<Rightarrow> string \<times> 'e \<Rightarrow> int \<Rightarrow> bool" where
  "matches sid knd pe rank \<longleftrightarrow> pattern_match_rank (fst pe) sid knd = Some rank"

lemma pattern_rank_pos: "pattern_match_rank pattern sid knd = Some rank \<Longrightarrow> 1 \<le> rank"
  by (auto simp: pattern_match_rank_def split: if_splits option.splits)

text \<open>The first entry of the highest rank above \<open>r0\<close>, when there is one.\<close>

definition governs :: "string \<Rightarrow> string \<Rightarrow> int \<Rightarrow> (string \<times> 'e) list \<Rightarrow> 'e \<Rightarrow> bool" where
  "governs sid knd r0 p e \<longleftrightarrow> (\<exists>ys pat zs rank. p = ys @ (pat, e) # zs \<and> pattern_match_rank pat sid knd = Some rank \<and> r0 < rank
     \<and> (\<forall>pe\<in>set ys. \<forall>k. matches sid knd pe k \<longrightarrow> k < rank) \<and> (\<forall>pe\<in>set zs. \<forall>k. matches sid knd pe k \<longrightarrow> k \<le> rank))"

lemma governs_here:
  assumes "pattern_match_rank pat sid knd = Some rank" and "r0 < rank"
    and "\<forall>pe\<in>set rest. \<forall>k. matches sid knd pe k \<longrightarrow> k \<le> rank"
  shows "governs sid knd r0 ((pat, e) # rest) e"
  unfolding governs_def by (rule exI [of _ "[]"]) (use assms in auto)

lemma governs_later:
  assumes "governs sid knd r1 rest e'" and "r0 \<le> r1" and "\<And>k. matches sid knd pe k \<Longrightarrow> k \<le> r1"
  shows "governs sid knd r0 (pe # rest) e'"
proof -
  obtain ys pat zs rank where d: "rest = ys @ (pat, e') # zs" "pattern_match_rank pat sid knd = Some rank" "r1 < rank"
    "\<forall>pe\<in>set ys. \<forall>k. matches sid knd pe k \<longrightarrow> k < rank" "\<forall>pe\<in>set zs. \<forall>k. matches sid knd pe k \<longrightarrow> k \<le> rank"
    using assms(1) unfolding governs_def by blast
  have "\<forall>q\<in>set (pe # ys). \<forall>k. matches sid knd q k \<longrightarrow> k < rank"
    using d(3,4) assms(3) by fastforce
  then show ?thesis
    unfolding governs_def using d assms(2) by (intro exI [of _ "pe # ys"] exI [of _ pat] exI [of _ zs] exI [of _ rank]) simp
qed

lemma best_entry_spec:
  "(best_entry sid knd (r0, b0) p = b0 \<and> (\<forall>pe\<in>set p. \<forall>k. matches sid knd pe k \<longrightarrow> k \<le> r0))
    \<or> (\<exists>e. best_entry sid knd (r0, b0) p = Some e \<and> governs sid knd r0 p e)"
proof (induction p arbitrary: r0 b0)
  case (Cons pe rest)
  obtain pat e where pe: "pe = (pat, e)" by (cases pe)
  show ?case
  proof (cases "\<exists>rank. pattern_match_rank pat sid knd = Some rank \<and> r0 < rank")
    case True
    then obtain rank where rank: "pattern_match_rank pat sid knd = Some rank" "r0 < rank" by blast
    then have eq: "best_entry sid knd (r0, b0) (pe # rest) = best_entry sid knd (rank, Some e) rest"
      by (simp add: pe)
    from Cons.IH [of rank "Some e"] show ?thesis
    proof (elim disjE conjE exE)
      assume "best_entry sid knd (rank, Some e) rest = Some e" "\<forall>pe\<in>set rest. \<forall>k. matches sid knd pe k \<longrightarrow> k \<le> rank"
      moreover from this(2) have "governs sid knd r0 (pe # rest) e" unfolding pe by (rule governs_here [OF rank])
      ultimately show ?thesis unfolding eq by blast
    next
      fix e' assume e': "best_entry sid knd (rank, Some e) rest = Some e'" "governs sid knd rank rest e'"
      have "governs sid knd r0 (pe # rest) e'"
        by (rule governs_later [OF e'(2)]) (use rank in \<open>auto simp: matches_def pe\<close>)
      then show ?thesis using e'(1) unfolding eq by blast
    qed
  next
    case False
    then have eq: "best_entry sid knd (r0, b0) (pe # rest) = best_entry sid knd (r0, b0) rest"
      by (auto simp: pe split: option.splits)
    have small: "matches sid knd pe k \<Longrightarrow> k \<le> r0" for k using False by (auto simp: matches_def pe)
    have "governs sid knd r0 (pe # rest) e'" if "governs sid knd r0 rest e'" for e'
      by (rule governs_later [OF that]) (use small in simp_all)
    then show ?thesis using Cons.IH [of r0 b0] small unfolding eq by auto
  qed
qed simp


section \<open>Which block gives a tool its scope\<close>

lemma first_min_spec:
  "first_min f b xs \<in> set (b # xs) \<and> (\<forall>x\<in>set (b # xs). f (first_min f b xs) \<le> f x)"
proof (induction xs arbitrary: b)
  case (Cons x xs)
  from Cons.IH [of "if f x < f b then x else b"] show ?case
    by (auto split: if_splits)
qed simp

lemma first_max_spec:
  "first_max f b xs \<in> set (b # xs) \<and> (\<forall>x\<in>set (b # xs). f x \<le> f (first_max f b xs))"
proof (induction xs arbitrary: b)
  case (Cons x xs)
  from Cons.IH [of "if f b < f x then x else b"] show ?case
    by (auto split: if_splits)
qed simp

definition scope_at :: "(string, scope_spec option) dict \<Rightarrow> nat \<Rightarrow> nat \<Rightarrow> scope_spec option option" where
  "scope_at blocks eff m =
     (if eff < m then None
      else case filter (\<lambda>r. m \<le> role_rank r) (dkeys blocks) of
             [] \<Rightarrow> None
           | c # cs \<Rightarrow> Some (dget_or None blocks (first_min role_rank c cs)))"

lemma add_tool_scope_at:
  "add_tool_scope blocks eff (t, m) acc = (case scope_at blocks eff m of None \<Rightarrow> acc | Some sc \<Rightarrow> dset t sc acc)"
  by (simp add: add_tool_scope_def scope_at_def split: list.splits)

lemma tool_scopes_get:
  "dget (fold (add_tool_scope blocks eff) TOOL_TYPE_MIN_RANK []) tool =
     (case dget TOOL_TYPE_MIN_RANK tool of None \<Rightarrow> None | Some m \<Rightarrow> scope_at blocks eff m)"
  by (simp add: TOOL_TYPE_MIN_RANK_def add_tool_scope_at dget_dset split: option.splits)

text \<open>
  The scope of a class of tools. For a profile's blocks on a scenario, a tool class is granted
  exactly when some declared role reaches its minimum rank, and its scope is the one of a declared
  role with the lowest rank that does: a planner block pins the scope of write tools even when a
  manager block is there, and a missing level falls up to the next declared one.
\<close>

theorem tool_scope_of_lowest_sufficient_role:
  assumes "dget TOOL_TYPE_MIN_RANK tool = Some m"
  shows "(case dget (snd (compute_tool_scopes blocks)) tool of
      None \<Rightarrow> \<forall>r\<in>set (dkeys blocks). role_rank r < m
    | Some sc \<Rightarrow> \<exists>r. r \<in> set (dkeys blocks) \<and> m \<le> role_rank r \<and> dget blocks r = Some sc
        \<and> (\<forall>r'\<in>set (dkeys blocks). m \<le> role_rank r' \<longrightarrow> role_rank r \<le> role_rank r'))"
proof (cases "dkeys blocks")
  case Nil
  then show ?thesis by (simp add: compute_tool_scopes_def)
next
  case (Cons r rs)
  let ?eff = "role_rank (first_max role_rank r rs)"
  let ?cands = "filter (\<lambda>r. m \<le> role_rank r) (dkeys blocks)"
  have get: "dget (snd (compute_tool_scopes blocks)) tool =
      (if ?eff < m then None else (case ?cands of [] \<Rightarrow> None | c # cs \<Rightarrow> Some (dget_or None blocks (first_min role_rank c cs))))"
    using assms Cons by (simp add: compute_tool_scopes_def Let_def tool_scopes_get scope_at_def)
  have max: "\<forall>x\<in>set (dkeys blocks). role_rank x \<le> ?eff" "first_max role_rank r rs \<in> set (dkeys blocks)"
    using first_max_spec [of role_rank r rs] unfolding Cons by blast+
  show ?thesis
  proof (cases ?cands)
    case Nil
    then have "\<forall>x\<in>set (dkeys blocks). role_rank x < m" by (auto simp: filter_empty_conv)
    then show ?thesis using get Nil by simp
  next
    case cands: (Cons c cs)
    let ?r = "first_min role_rank c cs"
    have min: "?r \<in> set ?cands" "\<forall>x\<in>set ?cands. role_rank ?r \<le> role_rank x"
      using first_min_spec [of role_rank c cs] unfolding cands by blast+
    have "c \<in> set ?cands" unfolding cands by simp
    then have "c \<in> set (dkeys blocks)" "m \<le> role_rank c" by simp_all
    then have "\<not> ?eff < m" using max(1) by (meson dual_order.trans not_less)
    moreover obtain sc where sc: "dget blocks ?r = Some sc" using min(1) dkeys_get [of ?r blocks] by auto
    ultimately have "dget (snd (compute_tool_scopes blocks)) tool = Some sc"
      using get cands by (simp add: dget_or_def)
    moreover have "?r \<in> set (dkeys blocks)" "m \<le> role_rank ?r"
      "\<forall>r'\<in>set (dkeys blocks). m \<le> role_rank r' \<longrightarrow> role_rank ?r \<le> role_rank r'"
      using min by simp_all
    ultimately show ?thesis using sc by (simp only: option.case) blast
  qed
qed

definition example_block :: scope_spec where
  "example_block = \<lparr>sc_dimensions = None, sc_domains = None\<rparr>"

theorem tool_scope_of_lowest_sufficient_role_witness:
  "dget (snd (compute_tool_scopes [(''manager'', None), (''planner'', Some example_block)])) ''write'' = Some (Some example_block)"
  using tool_scope_of_lowest_sufficient_role [of "''write''" 1 "[(''manager'', None), (''planner'', Some example_block)]"]
  by (auto simp: TOOL_TYPE_MIN_RANK_def role_rank_def ROLE_RANK_def dget_or_def split: option.splits if_splits)

section \<open>What a loaded caller holds\<close>

lemma scope_at_None:
  "scope_at blocks eff m = None \<longleftrightarrow> eff < m \<or> (\<forall>r\<in>set (dkeys blocks). \<not> m \<le> role_rank r)"
proof (cases "filter (\<lambda>r. m \<le> role_rank r) (dkeys blocks)")
  case Nil
  then show ?thesis by (simp add: scope_at_def filter_empty_conv)
next
  case (Cons c cs)
  then have "c \<in> set (filter (\<lambda>r. m \<le> role_rank r) (dkeys blocks))" by simp
  then have "c \<in> set (dkeys blocks)" "m \<le> role_rank c" by simp_all
  then have "\<exists>r\<in>set (dkeys blocks). m \<le> role_rank r" by blast
  then show ?thesis using Cons by (simp add: scope_at_def)
qed

lemma scope_at_mono: "m' \<le> m \<Longrightarrow> scope_at blocks eff m \<noteq> None \<Longrightarrow> scope_at blocks eff m' \<noteq> None"
  unfolding scope_at_None by (meson dual_order.trans not_less)

lemma tool_scopes_downward:
  assumes "dget TOOL_TYPE_MIN_RANK low = Some m'" and "dget TOOL_TYPE_MIN_RANK high = Some m" and "m' \<le> m"
    and "dhas high (snd (compute_tool_scopes blocks))"
  shows "dhas low (snd (compute_tool_scopes blocks))"
proof (cases "dkeys blocks")
  case Nil
  then show ?thesis using assms(4) by (simp add: compute_tool_scopes_def dhas_def)
next
  case (Cons r rs)
  then have "dget (snd (compute_tool_scopes blocks)) t = scope_at blocks (role_rank (first_max role_rank r rs)) k"
    if "dget TOOL_TYPE_MIN_RANK t = Some k" for t k
    using that by (simp add: compute_tool_scopes_def Let_def tool_scopes_get)
  from this [OF assms(1)] this [OF assms(2)] show ?thesis
    using assms(4) scope_at_mono [OF assms(3)] unfolding dhas_iff by (metis not_None_eq)
qed

lemma scenario_grants_get:
  assumes "wf_dict kinds"
  shows "dget (scenario_grants p kinds) sid = Some sp \<Longrightarrow>
    \<exists>knd blocks. dget kinds sid = Some knd \<and> resolve_profile_blocks p sid knd = Some blocks
      \<and> sp = \<lparr>effective_role = fst (compute_tool_scopes blocks), tool_scopes = snd (compute_tool_scopes blocks)\<rparr>"
proof -
  let ?step = "\<lambda>(sid, knd) acc. case resolve_profile_blocks p sid knd of
      None \<Rightarrow> acc
    | Some blocks \<Rightarrow> let (role, scopes) = compute_tool_scopes blocks
                     in dset sid \<lparr>effective_role = role, tool_scopes = scopes\<rparr> acc"
  have "dget (fold ?step ks acc) sid = Some sp \<Longrightarrow> dget acc sid = Some sp
      \<or> (\<exists>knd blocks. (sid, knd) \<in> set ks \<and> resolve_profile_blocks p sid knd = Some blocks
          \<and> sp = \<lparr>effective_role = fst (compute_tool_scopes blocks), tool_scopes = snd (compute_tool_scopes blocks)\<rparr>)"
    for ks acc
  proof (induction ks arbitrary: acc)
    case (Cons k ks)
    obtain s knd where k: "k = (s, knd)" by (cases k)
    from Cons.IH [of "?step k acc"] Cons.prems show ?case
      by (auto simp: k dget_dset split_def Let_def split: option.splits if_splits)
  qed simp
  from this [of kinds "[]"] show "dget (scenario_grants p kinds) sid = Some sp \<Longrightarrow> ?thesis"
    using assms by (auto simp: scenario_grants_def wf_dict_get)
qed

text \<open>
  Grants need a profile entry. Loaded permissions hold a scenario only if the user exists and is
  not disabled, an active profile is assigned, the scenario has a kind and an entry of the profile
  matches it; whoever may use its write tools may use its read tools, and a plan manager both.
\<close>

theorem grants_need_a_profile_entry:
  assumes "load_permissions users assigned (Inr kinds) uid = Inr ps" and "wf_dict kinds"
    and "dget (perm_scenarios ps) sid = Some sp"
  shows "(\<exists>u p rest knd pat e. users uid = Some u \<and> \<not> row_disabled u \<and> perm_admin ps = row_admin u
      \<and> assigned uid = p # rest \<and> dget kinds sid = Some knd
      \<and> (pat, e) \<in> set (dget_or [] p ''scenarios'') \<and> pattern_match_rank pat sid knd \<noteq> None)
    \<and> (dhas ''plan_manager'' (tool_scopes sp) \<longrightarrow> dhas ''write'' (tool_scopes sp))
    \<and> (dhas ''write'' (tool_scopes sp) \<longrightarrow> dhas ''read'' (tool_scopes sp))"
proof -
  obtain u where u: "users uid = Some u" "\<not> row_disabled u" "perm_admin ps = row_admin u"
    using assms(1) by (auto simp: load_permissions_def res_map_eq_Inr split: option.splits if_splits list.splits)
  have "assigned uid \<noteq> []"
    using assms(1,3) u by (auto simp: load_permissions_def)
  then obtain p rest where p: "assigned uid = p # rest" by (cases "assigned uid") auto
  define ks where "ks = (if p = [] then [] else kinds)"
  have sp: "dget (scenario_grants p ks) sid = Some sp"
    using assms(1,3) u p by (auto simp: load_permissions_def ks_def split: if_splits)
  moreover have "wf_dict ks" using assms(2) by (simp add: ks_def)
  ultimately obtain knd blocks where b: "dget ks sid = Some knd" "resolve_profile_blocks p sid knd = Some blocks"
      "tool_scopes sp = snd (compute_tool_scopes blocks)"
    using scenario_grants_get by (metis scenario_permissions.select_convs(2))
  have "dget kinds sid = Some knd" using b(1) by (auto simp: ks_def split: if_splits)
  moreover obtain e where "resolve_profile_for_scenario p sid knd = Some e"
    using b(2) by (auto simp: resolve_profile_blocks_def split: option.splits)
  then have "best_entry sid knd (- 1, None) (dget_or [] p ''scenarios'') = Some e"
    by (simp add: resolve_profile_for_scenario_def)
  then have "governs sid knd (- 1) (dget_or [] p ''scenarios'') e"
    using best_entry_spec [of sid knd "- 1" None "dget_or [] p ''scenarios''"] by auto
  then obtain pat where "(pat, e) \<in> set (dget_or [] p ''scenarios'')" "pattern_match_rank pat sid knd \<noteq> None"
    unfolding governs_def by fastforce
  moreover have "dhas ''plan_manager'' (tool_scopes sp) \<longrightarrow> dhas ''write'' (tool_scopes sp)"
    "dhas ''write'' (tool_scopes sp) \<longrightarrow> dhas ''read'' (tool_scopes sp)"
    unfolding b(3)
    using tool_scopes_downward [of "''write''" 1 "''plan_manager''" 2 blocks]
      tool_scopes_downward [of "''read''" 0 "''write''" 1 blocks] by (auto simp: TOOL_TYPE_MIN_RANK_def)
  ultimately show ?thesis using u p by blast
qed

definition example_profile :: profile where
  "example_profile = [(''scenarios'', [(''PLAN'', [(''planner'', None)]), (''*'', [(''analyst'', None)])])]"


theorem grants_need_a_profile_entry_witness:
  "dhas ''read'' (tool_scopes \<lparr>effective_role = ''planner'', tool_scopes = [(''read'', None), (''write'', None)]\<rparr>)"
proof -
  let ?users = "\<lambda>uid. if uid = ''ana'' then Some \<lparr>row_admin = False, row_disabled = False\<rparr> else None"
  let ?assigned = "\<lambda>uid :: string. [example_profile]"
  let ?kinds = "[(''B26'', ''BUDGET'')]"
  let ?sp = "\<lparr>effective_role = ''planner'', tool_scopes = [(''read'', None), (''write'', None)]\<rparr>"
  have "load_permissions ?users ?assigned (Inr ?kinds) ''ana''
      = Inr \<lparr>perm_user = ''ana'', perm_admin = False, perm_scenarios = [(''B26'', ?sp)]\<rparr>" by code_simp
  from grants_need_a_profile_entry [OF this, of "''B26''" ?sp] show ?thesis by (simp add: dhas_def)
qed

end
