(* ===== verification/ScenarioRegistry.thy ===== *)
theory ScenarioRegistry
  imports Permissions PyText
begin

text \<open>
  The scenario registry, \<open>engine/scenario_registry.py\<close>: real scenarios with their aliases and ids, the
  keys the platform generates from them (\<open>x_py\<close>, \<open>x_pp\<close>, \<open>x_vs_y\<close>, \<open>x_vs_y_pct\<close>), the reporting
  vocabulary and its visibility filter. Metadata rows are dictionaries of fields, as in the code.

  The lemmas show that a registry built from rows holds only its real scenarios, that the
  dependencies of any reference are ids of the registry, that the key of a resolved reference
  resolves to the same reference when aliases and ids stay clear of the generated syntax, and that
  the filtered vocabulary lists only keys whose data lies in the allowed scenarios.
\<close>

section \<open>References\<close>

(* engine/scenario_registry.py:21-24 COMPATIBILITY_ALIASES *)
definition COMPATIBILITY_ALIASES :: "(string, string) dict" where
  "COMPATIBILITY_ALIASES = [(''prior_year'', ''actuals_py''), (''prior_period'', ''actuals_pp'')]"

(* engine/scenario_registry.py:26-26 RESERVED_ALIAS_FRAGMENTS *)
definition RESERVED_ALIAS_FRAGMENTS :: "string list" where
  "RESERVED_ALIAS_FRAGMENTS = [''_vs_'']"

(* engine/scenario_registry.py:27-27 RESERVED_ALIAS_SUFFIXES *)
definition RESERVED_ALIAS_SUFFIXES :: "string list" where
  "RESERVED_ALIAS_SUFFIXES = [''_py'', ''_pp'', ''_pct'']"

(* engine/scenario_registry.py:93-106 ScenarioRegistryError *)
datatype registry_error =
    UnknownScenario string
  | InvalidAlias string string
  | NonWritable string
  | MissingColumn string
  | WrongRefType string

(* engine/scenario_registry.py:109-129 RealScenarioRef *)
record real_ref =
  rr_key :: string
  scenario_id :: string
  sc_alias :: string
  rr_name :: string
  rr_description :: string
  kind :: string
  status :: string
  base_scenario :: "string option"
  variant_of :: "string option"
  horizon_start :: string
  horizon_end :: string
  actuals_cutoff :: "string option"
  granularity :: string
  owner_user_id :: string
  locks :: string
  updated_at :: "string option"

datatype shift_op = YearShift | PeriodStep

(* engine/scenario_registry.py:132-142 ShiftedScenarioRef *)
record shifted_ref =
  sh_key :: string
  sh_base :: real_ref
  time_offset_months :: int
  sh_label :: string
  sh_description :: string
  sh_op :: shift_op

datatype operand = OReal real_ref | OShifted shifted_ref

(* engine/scenario_registry.py:145-162 VarianceScenarioRef *)
record variance_ref =
  va_key :: string
  va_left :: operand
  va_right :: operand
  va_label :: string
  va_description :: string

(* engine/scenario_registry.py:165-170 ScenarioRef *)
datatype scenario_ref =
    Real real_ref
  | Shifted shifted_ref
  | Variance variance_ref
  | VariancePct variance_ref

fun operand_key :: "operand \<Rightarrow> string" where
  "operand_key (OReal r) = rr_key r"
| "operand_key (OShifted s) = sh_key s"

fun ref_key :: "scenario_ref \<Rightarrow> string" where
  "ref_key (Real r) = rr_key r"
| "ref_key (Shifted s) = sh_key s"
| "ref_key (Variance v) = va_key v"
| "ref_key (VariancePct v) = va_key v"

(* engine/scenario_registry.py:495-498 _label *)
fun operand_label :: "operand \<Rightarrow> string" where
  "operand_label (OReal r) = rr_name r"
| "operand_label (OShifted s) = sh_label s"

fun operand_id :: "operand \<Rightarrow> string" where
  "operand_id (OReal r) = scenario_id r"
| "operand_id (OShifted s) = scenario_id (sh_base s)"

(* engine/scenario_registry.py:487-492 _dependencies *)
fun dependencies :: "scenario_ref \<Rightarrow> string list" where
  "dependencies (Real r) = [scenario_id r]"
| "dependencies (Shifted s) = [scenario_id (sh_base s)]"
| "dependencies (Variance v) = remdups [operand_id (va_left v), operand_id (va_right v)]"
| "dependencies (VariancePct v) = remdups [operand_id (va_left v), operand_id (va_right v)]"

section \<open>Building a registry\<close>

record registry =
  aliases :: "(string, real_ref) dict"
  ids :: "(string, real_ref) dict"

(* engine/scenario_registry.py:443-459 _validate_alias *)
definition validate_alias :: "string \<Rightarrow> (registry_error, unit) res" where
  "validate_alias a =
     (if a = [] then Inl (InvalidAlias ''required'' a)
      else if list_ex (\<lambda>f. contains f a) RESERVED_ALIAS_FRAGMENTS then Inl (InvalidAlias ''generated key syntax'' a)
      else if list_ex (endswith a) RESERVED_ALIAS_SUFFIXES then Inl (InvalidAlias ''generated suffix'' a)
      else if dhas a COMPATIBILITY_ALIASES then Inl (InvalidAlias ''compatibility'' a)
      else Inr ())"

(* engine/scenario_registry.py:180-191 ScenarioRegistry.__init__ *)
definition add_scenario :: "registry \<Rightarrow> real_ref \<Rightarrow> (registry_error, registry) res" where
  "add_scenario reg s =
     res_bind (validate_alias (sc_alias s)) (\<lambda>_.
       if dhas (sc_alias s) (aliases reg) then Inl (InvalidAlias ''duplicate alias'' (sc_alias s))
       else if dhas (scenario_id s) (ids reg) then Inl (InvalidAlias ''duplicate scenario_id'' (scenario_id s))
       else Inr \<lparr>aliases = dset (sc_alias s) s (aliases reg), ids = dset (scenario_id s) s (ids reg)\<rparr>)"

(* engine/scenario_registry.py:176-194 ScenarioRegistry.__init__ *)
definition make_registry :: "real_ref list \<Rightarrow> (registry_error, registry) res" where
  "make_registry scenarios = res_foldM add_scenario \<lparr>aliases = [], ids = []\<rparr> scenarios"

type_synonym row = "(string, string option) dict"

text \<open>\<open>row.get(c)\<close>, and \<open>str(row.get(c) or d)\<close>.\<close>

definition cell :: "row \<Rightarrow> string \<Rightarrow> string option" where
  "cell row c = (case dget row c of Some v \<Rightarrow> v | None \<Rightarrow> None)"

definition text_or :: "row \<Rightarrow> string \<Rightarrow> string \<Rightarrow> string" where
  "text_or row c d = (case cell row c of Some v \<Rightarrow> if v = [] then d else v | None \<Rightarrow> d)"

(* engine/scenario_registry.py:462-484 _real_from_row *)
definition real_from_row :: "row \<Rightarrow> (registry_error, real_ref) res" where
  "real_from_row row =
     (case dget row ''scenario_id'' of
        None \<Rightarrow> Inl (MissingColumn ''scenario_id'')
      | Some v \<Rightarrow>
          let sid = (case v of Some t \<Rightarrow> t | None \<Rightarrow> ''None''); al = text_or row ''alias'' [] in
          Inr \<lparr>rr_key = al, scenario_id = sid, sc_alias = al,
               rr_name = text_or row ''name'' (if al = [] then sid else al),
               rr_description = text_or row ''description'' [], kind = text_or row ''kind'' [],
               status = text_or row ''status'' [], base_scenario = cell row ''base_scenario'',
               variant_of = cell row ''variant_of'', horizon_start = text_or row ''horizon_start'' [],
               horizon_end = text_or row ''horizon_end'' [], actuals_cutoff = cell row ''actuals_cutoff'',
               granularity = text_or row ''granularity'' ''monthly'',
               owner_user_id = text_or row ''owner_user_id'' [], locks = text_or row ''locks'' ''[]'',
               updated_at = cell row ''updated_at''\<rparr>)"

(* engine/scenario_registry.py:196-199 ScenarioRegistry.from_rows *)
definition from_rows :: "row list \<Rightarrow> (registry_error, registry) res" where
  "from_rows rows = res_bind (res_mapM real_from_row rows) make_registry"

(* engine/scenario_registry.py:201-203 ScenarioRegistry.real_scenarios *)
definition real_scenarios :: "registry \<Rightarrow> real_ref list" where
  "real_scenarios reg = sort_key sc_alias (map snd (aliases reg))"

section \<open>Resolving keys\<close>

(* engine/scenario_registry.py:217-219 ScenarioRegistry.resolve_key *)
definition lookup_real :: "registry \<Rightarrow> string \<Rightarrow> real_ref option" where
  "lookup_real reg key = (case dget (aliases reg) key of Some r \<Rightarrow> Some r | None \<Rightarrow> dget (ids reg) key)"

text \<open>\<open>f"{base.name} shifted by {offset} month{'' if abs(offset) == 1 else 's'}."\<close>\<close>

definition make_shifted :: "real_ref \<Rightarrow> string \<Rightarrow> int \<Rightarrow> string \<Rightarrow> shift_op \<Rightarrow> shifted_ref" where
  "make_shifted base sfx offset label_suffix op =
     \<lparr>sh_key = sc_alias base @ sfx, sh_base = base, time_offset_months = offset,
      sh_label = rr_name base @ '' '' @ label_suffix,
      sh_description = rr_name base @ '' shifted by '' @ fmt_int 0 offset @ '' month''
        @ (if \<bar>offset\<bar> = 1 then [] else ''s'') @ ''.'',
      sh_op = op\<rparr>"

(* engine/scenario_registry.py:382-404 ScenarioRegistry._resolve_shifted *)
definition resolve_shifted :: "registry \<Rightarrow> string \<Rightarrow> shifted_ref option" where
  "resolve_shifted reg key =
     (if endswith key ''_py'' then
        map_option (\<lambda>b. make_shifted b ''_py'' (- 12) ''PY'' YearShift) (dget (aliases reg) (strip_suffix key ''_py''))
      else if endswith key ''_pp'' then
        map_option (\<lambda>b. make_shifted b ''_pp'' (- 1) ''PP'' PeriodStep) (dget (aliases reg) (strip_suffix key ''_pp''))
      else None)"

fun as_operand :: "scenario_ref \<Rightarrow> operand option" where
  "as_operand (Real r) = Some (OReal r)"
| "as_operand (Shifted s) = Some (OShifted s)"
| "as_operand _ = None"

(* engine/scenario_registry.py:424-440 ScenarioRegistry._resolve_variance *)
definition make_variance :: "bool \<Rightarrow> operand \<Rightarrow> operand \<Rightarrow> scenario_ref" where
  "make_variance is_pct left right =
     (let label = operand_label left @ '' vs '' @ operand_label right;
          description = label @ '': '' @ operand_label left @ '' minus '' @ operand_label right @ ''.''
      in if is_pct
         then VariancePct \<lparr>va_key = operand_key left @ ''_vs_'' @ operand_key right @ ''_pct'',
                va_left = left, va_right = right, va_label = label @ '' %'',
                va_description = description @ '' Percentage variance vs comparator.''\<rparr>
         else Variance \<lparr>va_key = operand_key left @ ''_vs_'' @ operand_key right,
                va_left = left, va_right = right, va_label = label, va_description = description\<rparr>)"

text \<open>\<open>key[:-4] if key.endswith("_pct") else key\<close>, split at the first \<open>_vs_\<close>.\<close>

(* engine/scenario_registry.py:406-412 ScenarioRegistry._resolve_variance *)
definition variance_parts :: "string \<Rightarrow> (bool \<times> string \<times> string) option" where
  "variance_parts key =
     (let is_pct = endswith key ''_pct'';
          body = (if is_pct then strip_suffix key ''_pct'' else key)
      in map_option (\<lambda>(l, r). (is_pct, l, r)) (split_first ''_vs_'' body))"

lemma variance_parts_length:
  assumes "variance_parts key = Some (p, l, r)"
  shows "length l < length key" and "length r < length key"
proof -
  obtain body where b: "split_first ''_vs_'' body = Some (l, r)" "length body \<le> length key"
    using assms by (auto simp: variance_parts_def Let_def strip_suffix_def split: if_splits)
  then have "length l + length r + 4 = length body" by (auto dest: split_first_length)
  then show "length l < length key" "length r < length key" using b(2) by simp_all
qed

definition compat :: "string \<Rightarrow> string" where
  "compat key0 = dget_or key0 COMPATIBILITY_ALIASES key0"

lemma compat_length: "length (compat key0) \<le> length key0"
  by (simp add: compat_def COMPATIBILITY_ALIASES_def dget_or_def)

(* engine/scenario_registry.py:210-229 ScenarioRegistry.resolve_key *)
function resolve_key :: "registry \<Rightarrow> string \<Rightarrow> (registry_error, scenario_ref) res" where
  "resolve_key reg key0 =
     (if key0 = [] then Inl (UnknownScenario key0)
      else
        let key = compat key0 in
        case lookup_real reg key of
          Some r \<Rightarrow> Inr (Real r)
        | None \<Rightarrow>
            (case resolve_shifted reg key of
               Some s \<Rightarrow> Inr (Shifted s)
             | None \<Rightarrow>
                 (case variance_parts key of
                    None \<Rightarrow> Inl (UnknownScenario key0)
                  | Some (is_pct, l, r) \<Rightarrow>
                      (case (resolve_key reg l, resolve_key reg r) of
                         (Inr left, Inr right) \<Rightarrow>
                           (case (as_operand left, as_operand right) of
                              (Some lo, Some ro) \<Rightarrow> Inr (make_variance is_pct lo ro)
                            | _ \<Rightarrow> Inl (UnknownScenario key0))
                       | _ \<Rightarrow> Inl (UnknownScenario key0)))))"
  by pat_completeness auto
termination
  by (relation "measure (\<lambda>(reg, key0). length key0)")
     (auto dest: variance_parts_length intro: less_le_trans compat_length)

declare resolve_key.simps [simp del]

(* engine/scenario_registry.py:205-208 ScenarioRegistry.normalize_key *)
definition normalize_key :: "registry \<Rightarrow> string \<Rightarrow> (registry_error, string) res" where
  "normalize_key reg key0 = res_map ref_key (resolve_key reg key0)"

(* engine/scenario_registry.py:235-243 ScenarioRegistry.resolve_writable *)
definition resolve_writable :: "registry \<Rightarrow> string \<Rightarrow> (registry_error, real_ref) res" where
  "resolve_writable reg key0 =
     res_bind (resolve_key reg key0) (\<lambda>ref.
       case ref of Real r \<Rightarrow> Inr r | _ \<Rightarrow> Inl (NonWritable key0))"

(* engine/scenario_registry.py:245-248 ScenarioRegistry.expand_dependencies *)
definition expand_dependencies :: "registry \<Rightarrow> string \<Rightarrow> (registry_error, string list) res" where
  "expand_dependencies reg key0 = res_map dependencies (resolve_key reg key0)"

(* engine/scenario_registry.py:250-255 ScenarioRegistry.get_kind_map *)
definition get_kind_map :: "registry \<Rightarrow> (string, string) dict" where
  "get_kind_map reg =
     fold (\<lambda>r. dset (scenario_id r) (kind r)) (filter (\<lambda>r. kind r \<noteq> []) (map snd (aliases reg))) []"

(* engine/scenario_registry.py:266-275 ScenarioRegistry.list_variants *)
definition list_variants :: "registry \<Rightarrow> string \<Rightarrow> (registry_error, real_ref list) res" where
  "list_variants reg parent =
     res_map (\<lambda>p. sort_key sc_alias (filter (\<lambda>s. variant_of s = Some (scenario_id p)) (map snd (aliases reg))))
       (resolve_writable reg parent)"

(* engine/scenario_registry.py:277-285 ScenarioRegistry.label_for *)
fun ref_label :: "scenario_ref \<Rightarrow> string" where
  "ref_label (Real r) = rr_name r"
| "ref_label (Shifted s) = sh_label s"
| "ref_label (Variance v) = va_label v"
| "ref_label (VariancePct v) = va_label v"

(* engine/scenario_registry.py:287-291 ScenarioRegistry.display_format_for *)
definition display_format_for :: "registry \<Rightarrow> string \<Rightarrow> string \<Rightarrow> (registry_error, string) res" where
  "display_format_for reg key0 metric_format =
     res_map (\<lambda>ref. case ref of VariancePct _ \<Rightarrow> ''percent'' | _ \<Rightarrow> metric_format) (resolve_key reg key0)"

(* engine/scenario_registry.py:293-295 ScenarioRegistry.color_code_for *)
definition color_code_for :: "registry \<Rightarrow> string \<Rightarrow> (registry_error, bool) res" where
  "color_code_for reg key0 =
     res_map (\<lambda>ref. case ref of Variance _ \<Rightarrow> True | VariancePct _ \<Rightarrow> True | _ \<Rightarrow> False) (resolve_key reg key0)"

section \<open>The reporting vocabulary\<close>

datatype field = FNone | FText string | FInt int | FFlag bool | FTexts "string list"

type_synonym meta_row = "(string, field) dict"

type_synonym vocabulary = "(string, meta_row list) dict"

definition optional_text :: "string option \<Rightarrow> field" where
  "optional_text v = (case v of None \<Rightarrow> FNone | Some t \<Rightarrow> FText t)"

(* engine/scenario_registry.py:501-520 _real_metadata_row *)
definition real_metadata_row :: "real_ref \<Rightarrow> meta_row" where
  "real_metadata_row s =
     [(''scenario'', FText (rr_key s)), (''alias'', FText (sc_alias s)), (''scenario_id'', FText (scenario_id s)),
      (''label'', FText (rr_name s)), (''name'', FText (rr_name s)), (''description'', FText (rr_description s)),
      (''type'', FText ''real''), (''status'', FText (status s)), (''kind'', FText (kind s)),
      (''base_scenario'', optional_text (base_scenario s)), (''variant_of'', optional_text (variant_of s)),
      (''horizon_start'', FText (horizon_start s)), (''horizon_end'', FText (horizon_end s)),
      (''actuals_cutoff'', optional_text (actuals_cutoff s)), (''granularity'', FText (granularity s)),
      (''owner_user_id'', FText (owner_user_id s)), (''updated_at'', optional_text (updated_at s))]"

(* engine/scenario_registry.py:523-534 _shifted_metadata_row *)
fun shifted_metadata_row :: "scenario_ref \<Rightarrow> (registry_error, meta_row) res" where
  "shifted_metadata_row (Shifted s) = Inr
     [(''scenario'', FText (sh_key s)), (''label'', FText (sh_label s)), (''description'', FText (sh_description s)),
      (''type'', FText ''shifted''), (''base'', FText (sc_alias (sh_base s))),
      (''base_scenario_id'', FText (scenario_id (sh_base s))), (''time_offset_months'', FInt (time_offset_months s))]"
| "shifted_metadata_row ref = Inl (WrongRefType ''Expected shifted scenario ref'')"

definition comparison_row :: "string \<Rightarrow> string \<Rightarrow> registry \<Rightarrow> variance_ref \<Rightarrow> (registry_error, meta_row) res" where
  "comparison_row node_type fmt reg v =
     res_map (\<lambda>deps.
       [(''scenario'', FText (va_key v)), (''label'', FText (va_label v)), (''description'', FText (va_description v)),
        (''type'', FText node_type), (''left'', FText (operand_key (va_left v))), (''right'', FText (operand_key (va_right v))),
        (''scenario_ids'', FTexts (sort deps)), (''color_code'', FFlag True), (''display_format'', FText fmt)])
       (expand_dependencies reg (va_key v))"

(* engine/scenario_registry.py:537-550 _comparison_metadata_row *)
fun comparison_metadata_row :: "registry \<Rightarrow> scenario_ref \<Rightarrow> (registry_error, meta_row) res" where
  "comparison_metadata_row reg (Variance v) = comparison_row ''variance'' [] reg v"
| "comparison_metadata_row reg (VariancePct v) = comparison_row ''variance_pct'' ''percent'' reg v"
| "comparison_metadata_row reg ref = Inl (WrongRefType ''Expected comparison scenario ref'')"

(* engine/scenario_registry.py:338-342 ScenarioRegistry.to_reporting_vocabulary *)
definition shifted_rows :: "registry \<Rightarrow> (registry_error, meta_row list) res" where
  "shifted_rows reg =
     res_mapM (\<lambda>key. res_bind (resolve_key reg key) shifted_metadata_row)
       (concat (map (\<lambda>r. [sc_alias r @ ''_py'', sc_alias r @ ''_pp'']) (real_scenarios reg)))"

(* engine/scenario_registry.py:344-371 ScenarioRegistry.to_reporting_vocabulary *)
definition comparison_keys :: "registry \<Rightarrow> string list" where
  "comparison_keys reg =
     (let refs = map sc_alias (real_scenarios reg) in
      concat (map (\<lambda>l. concat (map (\<lambda>r.
        if l = r then [] else [l @ ''_vs_'' @ r, l @ ''_vs_'' @ r @ ''_pct'']) refs)) refs)
      @ concat (map (\<lambda>r. [r @ ''_vs_'' @ r @ ''_py'', r @ ''_vs_'' @ r @ ''_py_pct'']) refs))"

definition comparison_rows :: "registry \<Rightarrow> (registry_error, meta_row list) res" where
  "comparison_rows reg =
     res_mapM (\<lambda>key. res_bind (resolve_key reg key) (comparison_metadata_row reg)) (comparison_keys reg)"

(* engine/scenario_registry.py:333-380 ScenarioRegistry.to_reporting_vocabulary *)
definition to_reporting_vocabulary :: "registry \<Rightarrow> (registry_error, vocabulary) res" where
  "to_reporting_vocabulary reg =
     res_bind (shifted_rows reg) (\<lambda>shifted.
     res_bind (comparison_rows reg) (\<lambda>comparisons. Inr
       [(''real'', map real_metadata_row (real_scenarios reg)),
        (''shifted'', shifted),
        (''comparisons'', comparisons),
        (''compatibility_aliases'',
           map (\<lambda>(k, v). [(''scenario'', FText k), (''resolves_to'', FText v)]) COMPATIBILITY_ALIASES)]))"

section \<open>Visibility\<close>

(* engine/scenario_registry.py:30-44 readable_scenario_ids *)
definition readable_scenario_ids :: "user_permissions option \<Rightarrow> string list option" where
  "readable_scenario_ids ps =
     (case ps of
        None \<Rightarrow> None
      | Some p \<Rightarrow> if perm_admin p then None
                  else Some (map fst (filter (\<lambda>(_, sp). dhas ''read'' (tool_scopes sp)) (perm_scenarios p))))"

definition text_in :: "meta_row \<Rightarrow> string \<Rightarrow> string list \<Rightarrow> bool" where
  "text_in row c allowed = (case dget row c of Some (FText t) \<Rightarrow> t \<in> set allowed | _ \<Rightarrow> False)"

definition texts_at :: "meta_row \<Rightarrow> string \<Rightarrow> string list" where
  "texts_at row c = (case dget row c of Some (FTexts ts) \<Rightarrow> ts | _ \<Rightarrow> [])"

definition text_at :: "meta_row \<Rightarrow> string \<Rightarrow> string list" where
  "text_at row c = (case dget row c of Some (FText t) \<Rightarrow> if t = [] then [] else [t] | _ \<Rightarrow> [])"

(* engine/scenario_registry.py:47-90 filter_reporting_vocabulary *)
definition filter_reporting_vocabulary :: "vocabulary \<Rightarrow> string list option \<Rightarrow> vocabulary" where
  "filter_reporting_vocabulary vocab allowed_ids =
     (case allowed_ids of
        None \<Rightarrow> vocab
      | Some allowed \<Rightarrow>
          let real_rows = filter (\<lambda>row. text_in row ''scenario_id'' allowed) (dget_or [] vocab ''real'');
              shifted = filter (\<lambda>row. text_in row ''base_scenario_id'' allowed) (dget_or [] vocab ''shifted'');
              comparison = filter (\<lambda>row. texts_at row ''scenario_ids'' \<noteq> []
                                      \<and> set (texts_at row ''scenario_ids'') \<subseteq> set allowed) (dget_or [] vocab ''comparisons'');
              visible = concat (map (\<lambda>row. concat (map (text_at row) [''scenario'', ''alias'', ''scenario_id'']))
                                 (real_rows @ shifted));
              compatibility = filter (\<lambda>row. text_in row ''resolves_to'' visible) (dget_or [] vocab ''compatibility_aliases'')
          in [(''real'', real_rows), (''shifted'', shifted), (''comparisons'', comparison),
              (''compatibility_aliases'', compatibility)])"

section \<open>The registry invariant\<close>

text \<open>Aliases and ids index the same scenarios, every alias has passed the check.\<close>

definition wf_registry :: "registry \<Rightarrow> bool" where
  "wf_registry reg \<longleftrightarrow>
     wf_dict (aliases reg) \<and> wf_dict (ids reg)
     \<and> (\<forall>a r. dget (aliases reg) a = Some r \<longrightarrow>
           sc_alias r = a \<and> validate_alias a = Inr () \<and> dget (ids reg) (scenario_id r) = Some r)
     \<and> (\<forall>i r. dget (ids reg) i = Some r \<longrightarrow> scenario_id r = i \<and> dget (aliases reg) (sc_alias r) = Some r)"

lemma wf_lookup:
  assumes "wf_registry reg"
  shows "dget (aliases reg) a = Some r \<Longrightarrow> sc_alias r = a" "dget (aliases reg) a = Some r \<Longrightarrow> validate_alias a = Inr ()"
    and "dget (aliases reg) a = Some r \<Longrightarrow> dget (ids reg) (scenario_id r) = Some r"
    and "dget (ids reg) i = Some r \<Longrightarrow> scenario_id r = i"
    and "dget (ids reg) i = Some r \<Longrightarrow> dget (aliases reg) (sc_alias r) = Some r"
  using assms unfolding wf_registry_def by blast+

lemma add_scenario_wf: "wf_registry reg \<Longrightarrow> add_scenario reg s = Inr reg' \<Longrightarrow> wf_registry reg'"
proof -
  assume wf: "wf_registry reg" and add: "add_scenario reg s = Inr reg'"
  then have ok: "validate_alias (sc_alias s) = Inr ()" "dget (aliases reg) (sc_alias s) = None"
      "dget (ids reg) (scenario_id s) = None"
      "reg' = \<lparr>aliases = dset (sc_alias s) s (aliases reg), ids = dset (scenario_id s) s (ids reg)\<rparr>"
    by (auto simp: add_scenario_def res_bind_eq_Inr dhas_iff split: if_splits)
  note look = wf_lookup [OF wf]
  have "wf_dict (aliases reg)" "wf_dict (ids reg)" using wf by (simp_all add: wf_registry_def)
  moreover have "scenario_id r \<noteq> scenario_id s" if "dget (aliases reg) a = Some r" for a r
    using look(3) [OF that] ok(3) by auto
  moreover have "sc_alias r \<noteq> sc_alias s" if "dget (ids reg) i = Some r" for i r
    using look(5) [OF that] ok(2) by auto
  ultimately show ?thesis
    unfolding wf_registry_def ok(4) using look ok(1) by (simp add: dget_dset wf_dict_dset)
qed

lemma wf_registry_empty: "wf_registry \<lparr>aliases = [], ids = []\<rparr>"
  by (simp add: wf_registry_def)

lemma make_registry_wf: "make_registry rs = Inr reg \<Longrightarrow> wf_registry reg"
  unfolding make_registry_def
  by (erule res_foldM_invariant [where P = wf_registry]) (auto intro: add_scenario_wf wf_registry_empty)

text \<open>Every reference the registry returns is made of its own scenarios.\<close>

fun operand_from :: "registry \<Rightarrow> operand \<Rightarrow> bool" where
  "operand_from reg (OReal r) = (dget (aliases reg) (sc_alias r) = Some r)"
| "operand_from reg (OShifted s) = (dget (aliases reg) (sc_alias (sh_base s)) = Some (sh_base s)
     \<and> (s = make_shifted (sh_base s) ''_py'' (- 12) ''PY'' YearShift \<or> s = make_shifted (sh_base s) ''_pp'' (- 1) ''PP'' PeriodStep))"

fun ref_from :: "registry \<Rightarrow> scenario_ref \<Rightarrow> bool" where
  "ref_from reg (Real r) = operand_from reg (OReal r)"
| "ref_from reg (Shifted s) = operand_from reg (OShifted s)"
| "ref_from reg (Variance v) = (operand_from reg (va_left v) \<and> operand_from reg (va_right v)
     \<and> make_variance False (va_left v) (va_right v) = Variance v)"
| "ref_from reg (VariancePct v) = (operand_from reg (va_left v) \<and> operand_from reg (va_right v)
     \<and> make_variance True (va_left v) (va_right v) = VariancePct v)"

lemma make_variance_sides:
  "ref_from reg (make_variance p l r) \<longleftrightarrow> operand_from reg l \<and> operand_from reg r"
  "as_operand (make_variance p l r) = None"
  by (auto simp: make_variance_def Let_def)

lemma lookup_real_from: "wf_registry reg \<Longrightarrow> lookup_real reg k = Some r \<Longrightarrow> operand_from reg (OReal r)"
  by (auto simp: lookup_real_def wf_registry_def split: option.splits)

lemma resolve_shifted_from: "wf_registry reg \<Longrightarrow> resolve_shifted reg k = Some s \<Longrightarrow> operand_from reg (OShifted s)"
proof -
  assume wf: "wf_registry reg" and s: "resolve_shifted reg k = Some s"
  then obtain b y where "dget (aliases reg) y = Some b"
    "s = make_shifted b ''_py'' (- 12) ''PY'' YearShift \<or> s = make_shifted b ''_pp'' (- 1) ''PP'' PeriodStep"
    by (auto simp: resolve_shifted_def split: if_splits)
  moreover from this(2) have "sh_base s = b" by (auto simp: make_shifted_def)
  ultimately show ?thesis using wf_lookup(1) [OF wf, of y b] by simp
qed

lemma as_operand_from: "ref_from reg ref \<Longrightarrow> as_operand ref = Some p \<Longrightarrow> operand_from reg p"
  by (cases ref) auto

lemma resolve_key_cases:
  assumes "resolve_key reg key0 = Inr ref"
  obtains (real) r where "lookup_real reg (compat key0) = Some r" "ref = Real r"
  | (shifted) s where "lookup_real reg (compat key0) = None" "resolve_shifted reg (compat key0) = Some s" "ref = Shifted s"
  | (variance) p l r left right lo ro where "lookup_real reg (compat key0) = None"
      "resolve_shifted reg (compat key0) = None" "variance_parts (compat key0) = Some (p, l, r)"
      "resolve_key reg l = Inr left" "resolve_key reg r = Inr right"
      "as_operand left = Some lo" "as_operand right = Some ro" "ref = make_variance p lo ro"
  using assms
  by (subst (asm) resolve_key.simps)
     (auto simp: Let_def split: if_splits option.splits sum.splits prod.splits)

lemma resolve_key_from:
  "wf_registry reg \<Longrightarrow> resolve_key reg key0 = Inr ref \<Longrightarrow> ref_from reg ref"
proof (induction "length key0" arbitrary: key0 ref rule: less_induct)
  case less
  from less.prems(2) show ?case
  proof (cases rule: resolve_key_cases)
    case (real r)
    then show ?thesis using lookup_real_from [OF less.prems(1)] by simp
  next
    case (shifted s)
    then show ?thesis using resolve_shifted_from [OF less.prems(1)] by simp
  next
    case (variance p l r left right lo ro)
    have "length l < length key0" "length r < length key0"
      using variance_parts_length [OF variance(3)] compat_length [of key0] by simp_all
    then have "ref_from reg left" "ref_from reg right"
      using less.hyps less.prems(1) variance(4,5) by blast+
    then show ?thesis using variance(6,7,8) by (simp add: make_variance_sides as_operand_from)
  qed
qed

lemma operand_id_known: "wf_registry reg \<Longrightarrow> operand_from reg p \<Longrightarrow> dhas (operand_id p) (ids reg)"
  by (cases p) (auto simp: wf_registry_def dhas_iff)

lemma dependencies_known: "wf_registry reg \<Longrightarrow> ref_from reg ref \<Longrightarrow> i \<in> set (dependencies ref) \<Longrightarrow> dhas i (ids reg)"
  by (cases ref) (auto dest: operand_id_known [of reg "OReal r" for r] operand_id_known [of reg "OShifted s" for s]
      operand_id_known [of reg "va_left v" for v] operand_id_known [of reg "va_right v" for v]
      simp del: operand_from.simps simp: operand_id_known split: if_splits)

section \<open>Canonical keys\<close>

text \<open>
  Aliases and ids that stay clear of the generated syntax. The alias check of the code covers the
  first half of this; an alias that ends in \<open>_vs\<close>, the alias \<open>pct\<close> and an id that looks generated
  are let through, and the keys built from them are misread.
\<close>

definition clean_registry :: "registry \<Rightarrow> bool" where
  "clean_registry reg \<longleftrightarrow> wf_registry reg
     \<and> (\<forall>a r. dget (aliases reg) a = Some r \<longrightarrow> rr_key r = a \<and> \<not> endswith a ''_vs'' \<and> a \<noteq> ''pct'')
     \<and> (\<forall>i r. dget (ids reg) i = Some r \<longrightarrow>
           \<not> contains ''_vs_'' i \<and> \<not> endswith i ''_py'' \<and> \<not> endswith i ''_pp'')"

definition plain_key :: "string \<Rightarrow> bool" where
  "plain_key k \<longleftrightarrow> k \<noteq> [] \<and> \<not> contains ''_vs_'' k \<and> \<not> endswith k ''_vs'' \<and> \<not> endswith k ''_pct'' \<and> k \<noteq> ''pct''"

lemma endswith_append_iff: "length p \<le> length y \<Longrightarrow> endswith (x @ y) p \<longleftrightarrow> endswith y p"
  by (auto simp: endswith_def)

lemma compat_other: "k \<noteq> ''prior_year'' \<Longrightarrow> k \<noteq> ''prior_period'' \<Longrightarrow> compat k = k"
  by (simp add: compat_def COMPATIBILITY_ALIASES_def dget_or_def)

lemma compat_suffix: "last k \<noteq> CHR ''r'' \<Longrightarrow> last k \<noteq> CHR ''d'' \<Longrightarrow> compat k = k"
  by (rule compat_other) auto

lemma compat_contains: "contains ''_vs_'' k \<Longrightarrow> compat k = k"
  by (rule compat_other) (auto simp: contains_def startswith_def)

lemma valid_alias:
  assumes "validate_alias a = Inr ()"
  shows "a \<noteq> []" "\<not> contains ''_vs_'' a" "\<not> endswith a ''_py''" "\<not> endswith a ''_pp''" "\<not> endswith a ''_pct''" "compat a = a"
  using assms
  by (auto simp: validate_alias_def RESERVED_ALIAS_FRAGMENTS_def RESERVED_ALIAS_SUFFIXES_def compat_def
      dget_or_def dhas_iff split: if_splits option.splits)

lemma vs_not_across:
  assumes "\<not> contains ''_vs_'' a" and "\<not> endswith a ''_vs''" and "y = ''_py'' \<or> y = ''_pp''"
  shows "\<not> contains ''_vs_'' (a @ y)"
proof
  assume "contains ''_vs_'' (a @ y)"
  then have "sublist ''_vs_'' (a @ y)" by (simp add: contains_iff)
  moreover have "\<not> sublist ''_vs_'' a" using assms(1) by (simp add: contains_iff)
  moreover have "\<not> sublist ''_vs_'' y" using assms(3) by (auto dest: sublist_length_le)
  ultimately obtain u v where uv: "''_vs_'' = u @ v" "suffix u a" "prefix v y" by (auto simp: sublist_append)
  then have "u = ''_vs'' \<or> u = ''_vs_''" using assms(3) by (auto simp: Cons_eq_append_conv)
  then show False
    using uv(2) assms(2) \<open>\<not> sublist ''_vs_'' a\<close> by (auto simp: endswith_iff suffix_def sublist_altdef)
qed

lemma split_variance:
  assumes "\<not> contains ''_vs_'' k" and "\<not> endswith k ''_vs''"
  shows "split_first ''_vs_'' (k @ ''_vs_'' @ r) = Some (k, r)"
proof (rule split_first_append, rule notI)
  fix i
  assume i: "i < length k" and st: "startswith (drop i (k @ ''_vs_'' @ r)) ''_vs_''"
  define t where "t = drop i k"
  have k: "k = take i k @ t" and "t \<noteq> []" using i by (simp_all add: t_def)
  have st: "startswith (t @ ''_vs_'' @ r) ''_vs_''" using st i by (simp add: t_def)
  consider a where "t = [a]" | a b where "t = [a, b]" | a b c where "t = [a, b, c]"
    | a b c d u where "t = a # b # c # d # u"
    using \<open>t \<noteq> []\<close> by (metis neq_Nil_conv)
  then show False
  proof cases
    case 3
    then have "t = ''_vs''" using st by (simp add: startswith_def)
    then show False using assms(2) k by (metis endswith_iff)
  next
    case (4 a b c d u)
    then have "t = ''_vs_'' @ u" using st by (simp add: startswith_def)
    then have "k = take i k @ ''_vs_'' @ u" using k by simp
    then have "sublist ''_vs_'' k" by (metis sublist_appendI)
    then show False using assms(1) by (simp add: contains_iff)
  qed (use st in \<open>simp_all add: startswith_def\<close>)
qed

lemma cleanD:
  assumes "clean_registry reg"
  shows "wf_registry reg"
    and "dget (aliases reg) a = Some r \<Longrightarrow> rr_key r = a \<and> sc_alias r = a \<and> plain_key a \<and> \<not> endswith a ''_py'' \<and> \<not> endswith a ''_pp''"
    and "dget (ids reg) i = Some r \<Longrightarrow> \<not> contains ''_vs_'' i \<and> \<not> endswith i ''_py'' \<and> \<not> endswith i ''_pp''"
proof -
  show wf: "wf_registry reg" using assms by (simp add: clean_registry_def)
  show "dget (ids reg) i = Some r \<Longrightarrow> \<not> contains ''_vs_'' i \<and> \<not> endswith i ''_py'' \<and> \<not> endswith i ''_pp''"
    using assms unfolding clean_registry_def by blast
  assume a: "dget (aliases reg) a = Some r"
  have "validate_alias a = Inr ()" "sc_alias r = a" using wf_lookup(1,2) [OF wf a] by auto
  moreover have "rr_key r = a \<and> \<not> endswith a ''_vs'' \<and> a \<noteq> ''pct''"
    using assms a unfolding clean_registry_def by blast
  ultimately show "rr_key r = a \<and> sc_alias r = a \<and> plain_key a \<and> \<not> endswith a ''_py'' \<and> \<not> endswith a ''_pp''"
    using valid_alias by (auto simp: plain_key_def)
qed

lemma generated_not_real:
  assumes "clean_registry reg" and "contains ''_vs_'' k \<or> endswith k ''_py'' \<or> endswith k ''_pp''"
  shows "lookup_real reg k = None"
proof -
  have "dget (aliases reg) k = None"
    using cleanD(2) [OF assms(1), of k] assms(2) by (cases "dget (aliases reg) k") (auto simp: plain_key_def)
  moreover have "dget (ids reg) k = None"
    using cleanD(3) [OF assms(1), of k] assms(2) by (cases "dget (ids reg) k") auto
  ultimately show ?thesis by (simp add: lookup_real_def)
qed

lemma plain_key_suffix:
  assumes "plain_key a" and "y = ''_py'' \<or> y = ''_pp''"
  shows "plain_key (a @ y)"
proof -
  have "\<not> endswith (a @ y) ''_vs''" using assms(2) by (auto simp: endswith_append_iff endswith_def)
  moreover have "\<not> endswith (a @ y) ''_pct''"
  proof
    assume "endswith (a @ y) ''_pct''"
    then have "last (a @ y) = CHR ''t''" by (auto simp: endswith_iff)
    then show False using assms(2) by auto
  qed
  moreover have "a @ y \<noteq> ''pct''"
  proof
    assume "a @ y = ''pct''"
    then have "last (a @ y) = CHR ''t''" by simp
    then show False using assms(2) by auto
  qed
  ultimately show ?thesis using assms vs_not_across [of a y] by (auto simp: plain_key_def)
qed

lemma resolve_operand:
  assumes "clean_registry reg" and "operand_from reg p"
  shows "plain_key (operand_key p)"
    and "\<exists>ref. resolve_key reg (operand_key p) = Inr ref \<and> as_operand ref = Some p"
proof -
  have "plain_key (operand_key p) \<and> (\<exists>ref. resolve_key reg (operand_key p) = Inr ref \<and> as_operand ref = Some p)"
  proof (cases p)
    case (OReal r)
    then have r: "dget (aliases reg) (sc_alias r) = Some r" using assms(2) by simp
    note facts = cleanD(2) [OF assms(1) r]
    have "compat (rr_key r) = rr_key r"
      using wf_lookup(2) [OF cleanD(1) [OF assms(1)] r] valid_alias(6) facts by simp
    then have "resolve_key reg (rr_key r) = Inr (Real r)"
      using facts r by (subst resolve_key.simps) (simp add: plain_key_def lookup_real_def Let_def)
    then show ?thesis using OReal facts by simp
  next
    case (OShifted s)
    then obtain y off lab op where s: "dget (aliases reg) (sc_alias (sh_base s)) = Some (sh_base s)"
      "s = make_shifted (sh_base s) y off lab op"
      "(y, off, lab, op) = (''_py'', - 12, ''PY'', YearShift) \<or> (y, off, lab, op) = (''_pp'', - 1, ''PP'', PeriodStep)"
      using assms(2) by auto
    let ?a = "sc_alias (sh_base s)"
    have key: "sh_key s = ?a @ y" using s(2) by (metis (no_types) make_shifted_def shifted_ref.select_convs(1))
    have "plain_key ?a" using cleanD(2) [OF assms(1) s(1)] by simp
    then have plain: "plain_key (?a @ y)" using s(3) by (auto intro: plain_key_suffix)
    have ends: "endswith (?a @ y) ''_py'' \<or> endswith (?a @ y) ''_pp''" using s(3) by auto
    then have none: "lookup_real reg (?a @ y) = None" using generated_not_real [OF assms(1)] by blast
    have same: "compat (?a @ y) = ?a @ y" using s(3) by (intro compat_suffix) auto
    have "resolve_shifted reg (?a @ y) = Some s"
    proof -
      have "\<not> endswith (?a @ ''_pp'') ''_py''" by (auto simp: endswith_append_iff endswith_def)
      then show ?thesis using s strip_suffix_append [of ?a y] by (auto simp: resolve_shifted_def)
    qed
    then have "resolve_key reg (?a @ y) = Inr (Shifted s)"
      using plain none same by (subst resolve_key.simps) (simp add: plain_key_def Let_def)
    then show ?thesis using OShifted key plain by simp
  qed
  then show "plain_key (operand_key p)"
    "\<exists>ref. resolve_key reg (operand_key p) = Inr ref \<and> as_operand ref = Some p" by blast+
qed

lemma variance_not_shifted:
  assumes clean: "clean_registry reg" and k: "\<not> endswith r ''_pct''" and rk: "plain_key r"
  shows "resolve_shifted reg (l @ ''_vs_'' @ r) = None"
proof -
  have none: "dget (aliases reg) (strip_suffix (l @ ''_vs_'' @ r) y) = None"
    if e: "endswith (l @ ''_vs_'' @ r) y" and y: "y = ''_py'' \<or> y = ''_pp''" for y
  proof -
    obtain t where t: "l @ ''_vs_'' @ r = t @ y" using e by (auto simp: endswith_iff)
    have "endswith t ''_vs'' \<or> contains ''_vs_'' t"
    proof (cases "length y \<le> length r")
      case True
      then have "endswith r y" using e endswith_append_iff [of y r "l @ ''_vs_''"] by simp
      then obtain u where "r = u @ y" by (auto simp: endswith_iff)
      then have "t = l @ ''_vs_'' @ u" using t by simp
      then have "sublist ''_vs_'' t" by (metis sublist_appendI)
      then show ?thesis by (simp add: contains_iff)
    next
      case False
      then have "length r < 3" "r \<noteq> []" using y rk by (auto simp: plain_key_def)
      then consider c where "r = [c]" | b c where "r = [b, c]"
        by (cases r; cases "tl r") auto
      then show ?thesis
      proof cases
        case (1 c)
        then have "(l @ ''_v'') @ [CHR ''s'', CHR ''_'', c] = t @ y" using t by simp
        then have "[CHR ''s'', CHR ''_'', c] = y" using y by (auto simp: append_eq_append_conv_if split: if_splits)
        then show ?thesis using y by auto
      next
        case (2 b c)
        then have "(l @ ''_vs'') @ [CHR ''_'', b, c] = t @ y" using t by simp
        then have "t = l @ ''_vs''" using y by (subst (asm) append_eq_append_conv) auto
        then show ?thesis by (auto simp: endswith_iff)
      qed
    qed
    moreover have "strip_suffix (l @ ''_vs_'' @ r) y = t" unfolding t by simp
    ultimately show ?thesis
      using cleanD(2) [OF clean, of t] by (cases "dget (aliases reg) t") (auto simp: plain_key_def)
  qed
  then show ?thesis by (simp add: resolve_shifted_def)
qed

lemma variance_parts_key:
  assumes "plain_key l" and "plain_key r"
  shows "variance_parts (l @ ''_vs_'' @ r) = Some (False, l, r)"
    and "variance_parts (l @ ''_vs_'' @ r @ ''_pct'') = Some (True, l, r)"
proof -
  have split: "split_first ''_vs_'' (l @ ''_vs_'' @ r) = Some (l, r)"
    using assms(1) by (intro split_variance) (auto simp: plain_key_def)
  have "\<not> endswith (l @ ''_vs_'' @ r) ''_pct''"
  proof
    assume e: "endswith (l @ ''_vs_'' @ r) ''_pct''"
    show False
    proof (cases "4 \<le> length r")
      case True
      then have "endswith r ''_pct''" using e endswith_append_iff [of "''_pct''" r "l @ ''_vs_''"] by simp
      then show False using assms(2) by (simp add: plain_key_def)
    next
      case False
      obtain t where t: "l @ ''_vs_'' @ r = t @ ''_pct''" using e by (auto simp: endswith_iff)
      from False obtain n where n: "drop n ''_vs_'' @ r = ''_pct''"  "n \<le> 4" "length (drop n ''_vs_'' @ r) = 4"
      proof -
        have len: "length (drop (length r) ''_vs_'' @ r) = 4" using False by simp
        have "(l @ take (length r) ''_vs_'') @ (drop (length r) ''_vs_'' @ r) = t @ ''_pct''"
          using t append_take_drop_id [of "length r" "''_vs_''"] by (metis append.assoc)
        then have "drop (length r) ''_vs_'' @ r = ''_pct''"
          using len by (subst (asm) append_eq_append_conv) auto
        then show thesis using that [of "length r"] len False by simp
      qed
      moreover have "length r < 4" "r \<noteq> []" using False assms(2) by (simp_all add: plain_key_def)
      moreover have "n = length r" using n(3) n(2) \<open>length r < 4\<close> by simp
      moreover have "length r = 1 \<or> length r = 2 \<or> length r = 3"
        using \<open>length r < 4\<close> \<open>r \<noteq> []\<close> length_0_conv [of r] by linarith
      ultimately have "r = ''pct''" by auto
      then show False using assms(2) by (simp add: plain_key_def)
    qed
  qed
  then show "variance_parts (l @ ''_vs_'' @ r) = Some (False, l, r)"
    unfolding variance_parts_def Let_def by (simp only: if_False split option.map prod.case)
  have "endswith ((l @ ''_vs_'' @ r) @ ''_pct'') ''_pct''" "strip_suffix ((l @ ''_vs_'' @ r) @ ''_pct'') ''_pct'' = l @ ''_vs_'' @ r"
    by (rule endswith_append strip_suffix_append)+
  then show "variance_parts (l @ ''_vs_'' @ r @ ''_pct'') = Some (True, l, r)"
    unfolding variance_parts_def Let_def append_assoc by (simp only: if_True split option.map prod.case)
qed

lemma variance_key:
  "ref_key (make_variance p lo ro) = operand_key lo @ ''_vs_'' @ operand_key ro @ (if p then ''_pct'' else [])"
  by (simp add: make_variance_def Let_def)

lemma resolve_variance_key:
  assumes clean: "clean_registry reg" and ops: "operand_from reg lo" "operand_from reg ro"
  shows "resolve_key reg (ref_key (make_variance p lo ro)) = Inr (make_variance p lo ro)"
proof -
  let ?k = "ref_key (make_variance p lo ro)"
  let ?l = "operand_key lo" and ?r = "operand_key ro"
  note l = resolve_operand [OF clean ops(1)] and r = resolve_operand [OF clean ops(2)]
  have "sublist ''_vs_'' ?k" unfolding variance_key by (metis sublist_appendI)
  then have vs: "contains ''_vs_'' ?k" by (simp add: contains_iff)
  have parts: "variance_parts ?k = Some (p, ?l, ?r)"
    using variance_parts_key [OF l(1) r(1)] by (simp add: variance_key)
  have shifted: "resolve_shifted reg ?k = None"
  proof (cases p)
    case True
    have "\<not> endswith ((?l @ ''_vs_'' @ ?r) @ ''_pct'') ''_py''" "\<not> endswith ((?l @ ''_vs_'' @ ?r) @ ''_pct'') ''_pp''"
      by (subst endswith_append_iff; simp add: endswith_def)+
    then show ?thesis using True by (simp add: variance_key resolve_shifted_def)
  next
    case False
    then show ?thesis
      using variance_not_shifted [OF clean _ r(1)] r(1) by (simp add: variance_key plain_key_def)
  qed
  obtain left right where "resolve_key reg ?l = Inr left" "as_operand left = Some lo"
    "resolve_key reg ?r = Inr right" "as_operand right = Some ro"
    using l(2) r(2) by blast
  moreover have "?k \<noteq> []" by (simp add: variance_key)
  ultimately show ?thesis
    using parts shifted generated_not_real [OF clean] vs compat_contains [OF vs]
    by (subst resolve_key.simps) (simp add: Let_def)
qed

lemma resolve_canonical:
  assumes clean: "clean_registry reg" and "ref_from reg ref"
  shows "resolve_key reg (ref_key ref) = Inr ref"
proof (cases ref)
  case (Real r)
  then have frm: "operand_from reg (OReal r)" using assms(2) by simp
  obtain ref' where "resolve_key reg (rr_key r) = Inr ref'" "as_operand ref' = Some (OReal r)"
    using resolve_operand(2) [OF clean frm] by auto
  then show ?thesis using Real by (cases ref') auto
next
  case (Shifted s)
  then have frm: "operand_from reg (OShifted s)" using assms(2) by simp
  obtain ref' where "resolve_key reg (sh_key s) = Inr ref'" "as_operand ref' = Some (OShifted s)"
    using resolve_operand(2) [OF clean frm] by auto
  then show ?thesis using Shifted by (cases ref') auto
next
  case (Variance v)
  then have "ref = make_variance False (va_left v) (va_right v)"
    "operand_from reg (va_left v)" "operand_from reg (va_right v)" using assms(2) by auto
  then show ?thesis using resolve_variance_key [OF clean] by simp
next
  case (VariancePct v)
  then have "ref = make_variance True (va_left v) (va_right v)"
    "operand_from reg (va_left v)" "operand_from reg (va_right v)" using assms(2) by auto
  then show ?thesis using resolve_variance_key [OF clean] by simp
qed

text \<open>
  Public keys are canonical. In a registry whose aliases and ids stay clear of the generated
  syntax, whatever reference a user-supplied text resolves to (by alias, id, compatibility name or
  generated key), the key of that reference resolves to the very same reference.
\<close>

theorem resolved_key_is_canonical:
  assumes "clean_registry reg" and "resolve_key reg v = Inr ref"
  shows "resolve_key reg (ref_key ref) = Inr ref"
  using resolve_canonical [OF assms(1)] resolve_key_from [OF cleanD(1) [OF assms(1)] assms(2)] by blast

lemma make_registry_members:
  "make_registry rs = Inr reg \<Longrightarrow> dget (ids reg) i = Some r \<Longrightarrow> r \<in> set rs"
proof -
  assume "make_registry rs = Inr reg" "dget (ids reg) i = Some r"
  moreover have "\<forall>i r. dget (ids reg) i = Some r \<longrightarrow> r \<in> set rs"
    if "res_foldM add_scenario \<lparr>aliases = [], ids = []\<rparr> rs = Inr reg"
    using that
    by (rule res_foldM_invariant)
       (auto simp: add_scenario_def res_bind_eq_Inr dget_dset split: if_splits)
  ultimately show ?thesis by (simp add: make_registry_def)
qed

definition example_real :: "string \<Rightarrow> string \<Rightarrow> real_ref" where
  "example_real sid al =
     \<lparr>rr_key = al, scenario_id = sid, sc_alias = al, rr_name = al, rr_description = [], kind = [], status = [],
      base_scenario = None, variant_of = None, horizon_start = [], horizon_end = [], actuals_cutoff = None,
      granularity = ''monthly'', owner_user_id = [], locks = ''[]'', updated_at = None\<rparr>"

definition example_registry :: registry where
  "example_registry =
     \<lparr>aliases = [(''actuals'', example_real ''ACT'' ''actuals''), (''budget'', example_real ''B26'' ''budget'')],
      ids = [(''ACT'', example_real ''ACT'' ''actuals''), (''B26'', example_real ''B26'' ''budget'')]\<rparr>"

lemma example_registry_made:
  "make_registry [example_real ''ACT'' ''actuals'', example_real ''B26'' ''budget''] = Inr example_registry"
  by code_simp

lemma example_registry_clean: "clean_registry example_registry"
proof -
  have "\<not> endswith ''actuals'' ''_vs''" "\<not> endswith ''budget'' ''_vs''" "\<not> contains ''_vs_'' ''ACT''"
    "\<not> contains ''_vs_'' ''B26''" "\<not> endswith ''ACT'' ''_py''" "\<not> endswith ''B26'' ''_py''"
    "\<not> endswith ''ACT'' ''_pp''" "\<not> endswith ''B26'' ''_pp''"
    by code_simp+
  then show ?thesis
    using make_registry_wf [OF example_registry_made]
    by (simp add: clean_registry_def) (simp add: example_registry_def example_real_def)
qed

theorem resolved_key_is_canonical_witness:
  "normalize_key example_registry ''prior_year'' = Inr ''actuals_py''
   \<and> normalize_key example_registry ''ACT_vs_B26'' = Inr ''actuals_vs_budget''
   \<and> resolve_key example_registry ''actuals_vs_budget'' = resolve_key example_registry ''ACT_vs_B26''"
proof -
  have run: "normalize_key example_registry ''prior_year'' = Inr ''actuals_py''"
    "normalize_key example_registry ''ACT_vs_B26'' = Inr ''actuals_vs_budget''" by code_simp+
  then obtain ref where ref: "resolve_key example_registry ''ACT_vs_B26'' = Inr ref" "ref_key ref = ''actuals_vs_budget''"
    by (auto simp: normalize_key_def res_map_eq_Inr)
  from resolved_key_is_canonical [OF example_registry_clean ref(1)] show ?thesis
    using run ref by simp
qed

text \<open>
  The dependencies of any reference a registry resolves are ids of the real scenarios it was
  built from; no text makes the registry name data it does not hold.
\<close>

theorem dependencies_are_real_ids:
  assumes "make_registry rs = Inr reg" and "expand_dependencies reg v = Inr ds"
  shows "set ds \<subseteq> scenario_id ` set rs"
proof
  fix i
  assume i: "i \<in> set ds"
  note wf = make_registry_wf [OF assms(1)]
  obtain ref where ref: "resolve_key reg v = Inr ref" "ds = dependencies ref"
    using assms(2) by (auto simp: expand_dependencies_def res_map_eq_Inr)
  then have "dhas i (ids reg)" using dependencies_known [OF wf resolve_key_from [OF wf ref(1)]] i by simp
  then obtain r where r: "dget (ids reg) i = Some r" by (auto simp: dhas_iff)
  then show "i \<in> scenario_id ` set rs"
    using make_registry_members [OF assms(1) r] wf_lookup(4) [OF wf r] by auto
qed

theorem dependencies_are_real_ids_witness:
  "expand_dependencies example_registry ''budget_vs_actuals_py_pct'' = Inr [''B26'', ''ACT'']
   \<and> set [''B26'', ''ACT''] \<subseteq> scenario_id ` set [example_real ''ACT'' ''actuals'', example_real ''B26'' ''budget'']"
proof -
  have "expand_dependencies example_registry ''budget_vs_actuals_py_pct'' = Inr [''B26'', ''ACT'']"
    by code_simp
  with dependencies_are_real_ids [OF example_registry_made this] show ?thesis by simp
qed

section \<open>The vocabulary of a registry\<close>

lemma real_scenarios_from:
  "wf_registry reg \<Longrightarrow> r \<in> set (real_scenarios reg) \<longleftrightarrow> dget (aliases reg) (sc_alias r) = Some r"
proof -
  assume wf: "wf_registry reg"
  then have "wf_dict (aliases reg)" by (simp add: wf_registry_def)
  then show ?thesis using wf_lookup(1) [OF wf]
    by (force simp: real_scenarios_def wf_dict_get [symmetric])
qed

definition py_of :: "real_ref \<Rightarrow> operand" where
  "py_of r = OShifted (make_shifted r ''_py'' (- 12) ''PY'' YearShift)"

lemma shifted_key_resolves:
  assumes "clean_registry reg" and "r \<in> set (real_scenarios reg)" and "y = ''_py'' \<or> y = ''_pp''"
  shows "\<exists>s. resolve_key reg (sc_alias r @ y) = Inr (Shifted s) \<and> sh_base s = r \<and> sh_key s = sc_alias r @ y"
proof -
  have r: "dget (aliases reg) (sc_alias r) = Some r"
    using real_scenarios_from [OF cleanD(1) [OF assms(1)]] assms(2) by blast
  obtain s where s: "operand_from reg (OShifted s)" "sh_base s = r" "sh_key s = sc_alias r @ y"
  proof (cases "y = ''_py''")
    case True
    then show ?thesis using that [of "make_shifted r ''_py'' (- 12) ''PY'' YearShift"] r by (simp add: make_shifted_def)
  next
    case False
    then show ?thesis using that [of "make_shifted r ''_pp'' (- 1) ''PP'' PeriodStep"] r assms(3)
      by (simp add: make_shifted_def)
  qed
  have "resolve_key reg (ref_key (Shifted s)) = Inr (Shifted s)"
    using resolve_canonical [OF assms(1), of "Shifted s"] s(1) by simp
  then show ?thesis using s by auto
qed

lemma comparison_key_shape:
  assumes "wf_registry reg" and "clean_registry reg" and "k \<in> set (comparison_keys reg)"
  shows "\<exists>p lo ro. operand_from reg lo \<and> operand_from reg ro \<and> k = ref_key (make_variance p lo ro)"
proof -
  have mem: "r \<in> set (real_scenarios reg) \<Longrightarrow> operand_from reg (OReal r) \<and> operand_from reg (py_of r)
      \<and> operand_key (OReal r) = sc_alias r \<and> operand_key (py_of r) = sc_alias r @ ''_py''" for r
    using real_scenarios_from [OF assms(1), of r] cleanD(2) [OF assms(2), of "sc_alias r" r]
    by (auto simp: py_of_def make_shifted_def)
  from assms(3) consider l r where "l \<in> set (real_scenarios reg)" "r \<in> set (real_scenarios reg)"
      "k = sc_alias l @ ''_vs_'' @ sc_alias r \<or> k = sc_alias l @ ''_vs_'' @ sc_alias r @ ''_pct''"
    | r where "r \<in> set (real_scenarios reg)"
      "k = sc_alias r @ ''_vs_'' @ sc_alias r @ ''_py'' \<or> k = sc_alias r @ ''_vs_'' @ sc_alias r @ ''_py_pct''"
    by (auto simp: comparison_keys_def Let_def split: if_splits)
  then show ?thesis
  proof cases
    case (1 l r)
    then have "k = ref_key (make_variance False (OReal l) (OReal r)) \<or> k = ref_key (make_variance True (OReal l) (OReal r))"
      using mem unfolding variance_key by auto
    then show ?thesis using mem 1 by blast
  next
    case (2 r)
    then have "k = ref_key (make_variance False (OReal r) (py_of r)) \<or> k = ref_key (make_variance True (OReal r) (py_of r))"
      using mem unfolding variance_key by auto
    then show ?thesis using mem 2 by blast
  qed
qed

lemma comparison_metadata_total:
  assumes "clean_registry reg" and "operand_from reg lo" "operand_from reg ro"
  shows "\<exists>row. comparison_metadata_row reg (make_variance p lo ro) = Inr row"
  using resolve_variance_key [OF assms, of p]
  by (cases p) (auto simp: make_variance_def Let_def comparison_row_def expand_dependencies_def)

lemma vocabulary_ok: "is_ok (to_reporting_vocabulary example_registry)"
  by code_simp

text \<open>
  The vocabulary of a clean registry can always be listed: every generated shifted and comparison
  key resolves to a reference of the kind its row describes.
\<close>

theorem vocabulary_listed:
  assumes "clean_registry reg"
  shows "\<exists>vocab. to_reporting_vocabulary reg = Inr vocab"
proof -
  note wf = cleanD(1) [OF assms]
  have "\<exists>row. res_bind (resolve_key reg k) shifted_metadata_row = Inr row"
    if "k \<in> set (concat (map (\<lambda>r. [sc_alias r @ ''_py'', sc_alias r @ ''_pp'']) (real_scenarios reg)))" for k
    using that shifted_key_resolves [OF assms] by fastforce
  then have shifted: "\<exists>rows. shifted_rows reg = Inr rows"
    unfolding shifted_rows_def by (rule res_mapM_ex)
  have "\<exists>row. res_bind (resolve_key reg k) (comparison_metadata_row reg) = Inr row"
    if k: "k \<in> set (comparison_keys reg)" for k
  proof -
    obtain p lo ro where ops: "operand_from reg lo" "operand_from reg ro" "k = ref_key (make_variance p lo ro)"
      using comparison_key_shape [OF wf assms k] by blast
    then show ?thesis
      using resolve_variance_key [OF assms ops(1,2), of p] comparison_metadata_total [OF assms ops(1,2), of p] by simp
  qed
  then have "\<exists>rows. comparison_rows reg = Inr rows"
    unfolding comparison_rows_def by (rule res_mapM_ex)
  then show ?thesis using shifted by (auto simp: to_reporting_vocabulary_def)
qed

theorem vocabulary_listed_witness: "is_ok (to_reporting_vocabulary example_registry)"
  using vocabulary_listed [OF example_registry_clean] by (auto simp: is_ok_iff)

text \<open>
  The alias check lets through an alias that ends in \<open>_vs\<close>, and the registry that holds it
  cannot list its vocabulary: the generated comparison key is split inside the alias.
\<close>

theorem alias_vs_breaks_vocabulary:
  "case make_registry [example_real ''S1'' ''plan_vs'', example_real ''S2'' ''actuals''] of
     Inl e \<Rightarrow> False
   | Inr reg \<Rightarrow> to_reporting_vocabulary reg = Inl (UnknownScenario ''plan_vs_vs_actuals'')"
  by code_simp

text \<open>
  C12: Visibility. Every key listed for a user in the filtered vocabulary of a clean registry, whether
  real, shifted or a comparison, depends only on scenarios the user may read.
\<close>

theorem filtered_vocabulary_is_readable:
  assumes "clean_registry reg" and "to_reporting_vocabulary reg = Inr vocab"
    and "section \<in> {''real'', ''shifted'', ''comparisons''}"
    and "row \<in> set (dget_or [] (filter_reporting_vocabulary vocab (Some allowed)) section)"
    and "dget row ''scenario'' = Some (FText k)"
  shows "case expand_dependencies reg k of Inr ds \<Rightarrow> set ds \<subseteq> set allowed | Inl e \<Rightarrow> False"
proof -
  note wf = cleanD(1) [OF assms(1)]
  obtain shifted comparisons where rows: "shifted_rows reg = Inr shifted" "comparison_rows reg = Inr comparisons"
    "vocab = [(''real'', map real_metadata_row (real_scenarios reg)), (''shifted'', shifted), (''comparisons'', comparisons),
       (''compatibility_aliases'', map (\<lambda>(k, v). [(''scenario'', FText k), (''resolves_to'', FText v)]) COMPATIBILITY_ALIASES)]"
    using assms(2) by (auto simp: to_reporting_vocabulary_def res_bind_eq_Inr)
  have get: "dget_or [] vocab ''real'' = map real_metadata_row (real_scenarios reg)"
    "dget_or [] vocab ''shifted'' = shifted" "dget_or [] vocab ''comparisons'' = comparisons"
    by (simp_all add: rows(3) dget_or_def)
  consider (real) "row \<in> set (filter (\<lambda>row. text_in row ''scenario_id'' allowed) (map real_metadata_row (real_scenarios reg)))"
    | (shifted) "row \<in> set (filter (\<lambda>row. text_in row ''base_scenario_id'' allowed) shifted)"
    | (comparison) "row \<in> set (filter (\<lambda>row. texts_at row ''scenario_ids'' \<noteq> []
         \<and> set (texts_at row ''scenario_ids'') \<subseteq> set allowed) comparisons)"
    using assms(3,4) get
    by (auto simp: filter_reporting_vocabulary_def Let_def dget_or_def)
  then show ?thesis
  proof cases
    case real
    then obtain r where r: "r \<in> set (real_scenarios reg)" "row = real_metadata_row r" "scenario_id r \<in> set allowed"
      by (auto simp: text_in_def real_metadata_row_def)
    then have "k = rr_key r" "ref_from reg (Real r)"
      using assms(5) real_scenarios_from [OF wf] by (simp_all add: real_metadata_row_def)
    then show ?thesis using resolve_canonical [OF assms(1), of "Real r"] r(3)
      by (simp add: expand_dependencies_def)
  next
    case shifted
    then obtain key where key: "res_bind (resolve_key reg key) shifted_metadata_row = Inr row"
      using rows(1) unfolding shifted_rows_def by (auto dest: res_mapM_set)
    then obtain ref where ref: "resolve_key reg key = Inr ref" "shifted_metadata_row ref = Inr row"
      by (auto simp: res_bind_eq_Inr)
    then obtain s where s: "resolve_key reg key = Inr (Shifted s)" "shifted_metadata_row (Shifted s) = Inr row"
      by (cases ref) simp_all
    then have "k = sh_key s" "scenario_id (sh_base s) \<in> set allowed"
      using assms(5) shifted by (auto simp: text_in_def)
    then show ?thesis
      using resolve_canonical [OF assms(1) resolve_key_from [OF wf s(1)]] by (simp add: expand_dependencies_def)
  next
    case comparison
    then obtain key where "res_bind (resolve_key reg key) (comparison_metadata_row reg) = Inr row"
      using rows(2) unfolding comparison_rows_def by (auto dest: res_mapM_set)
    then obtain ref where "comparison_metadata_row reg ref = Inr row" by (auto simp: res_bind_eq_Inr)
    then obtain v t f where "comparison_row t f reg v = Inr row"
      by (cases ref) auto
    then obtain ds where "expand_dependencies reg (va_key v) = Inr ds"
      "dget row ''scenario'' = Some (FText (va_key v))" "texts_at row ''scenario_ids'' = sort ds"
      by (auto simp: comparison_row_def res_map_eq_Inr texts_at_def)
    then show ?thesis using assms(5) comparison by simp
  qed
qed

theorem filtered_vocabulary_is_readable_witness:
  "case to_reporting_vocabulary example_registry of
     Inl e \<Rightarrow> False
   | Inr vocab \<Rightarrow>
       map (\<lambda>row. dget row ''scenario'')
         (dget_or [] (filter_reporting_vocabulary vocab (Some [''ACT''])) ''comparisons'')
         = [Some (FText ''actuals_vs_actuals_py''), Some (FText ''actuals_vs_actuals_py_pct'')]
       \<and> expand_dependencies example_registry ''actuals_vs_actuals_py'' = Inr [''ACT'']"
proof -
  obtain vocab where vocab: "to_reporting_vocabulary example_registry = Inr vocab"
    using vocabulary_ok by (auto simp: is_ok_iff)
  have run: "case to_reporting_vocabulary example_registry of Inl e \<Rightarrow> False | Inr vocab \<Rightarrow>
       map (\<lambda>row. dget row ''scenario'')
         (dget_or [] (filter_reporting_vocabulary vocab (Some [''ACT''])) ''comparisons'')
         = [Some (FText ''actuals_vs_actuals_py''), Some (FText ''actuals_vs_actuals_py_pct'')]"
    by code_simp
  then have "map (\<lambda>row. dget row ''scenario'')
      (dget_or [] (filter_reporting_vocabulary vocab (Some [''ACT''])) ''comparisons'')
      = [Some (FText ''actuals_vs_actuals_py''), Some (FText ''actuals_vs_actuals_py_pct'')]"
    by (simp add: vocab)
  then obtain row where row: "row \<in> set (dget_or [] (filter_reporting_vocabulary vocab (Some [''ACT''])) ''comparisons'')"
    "dget row ''scenario'' = Some (FText ''actuals_vs_actuals_py'')"
    by (auto simp: map_eq_Cons_conv) (metis list.set_intros(1))
  from filtered_vocabulary_is_readable [OF example_registry_clean vocab _ row]
  have "case expand_dependencies example_registry ''actuals_vs_actuals_py'' of
      Inr ds \<Rightarrow> set ds \<subseteq> set [''ACT''] | Inl e \<Rightarrow> False" by simp
  moreover have "expand_dependencies example_registry ''actuals_vs_actuals_py'' = Inr [''ACT'']" by code_simp
  ultimately show ?thesis using run vocab by simp
qed

end
