(* ===== verification/Resolver.thy ===== *)
theory Resolver
  imports Transformer ScenarioRegistry
begin

text \<open>
  The request resolver, \<open>engine/resolver.py\<close>: a report request becomes an execution plan. The model
  follows the stages of \<open>resolve\<close>: the period bounds and their grain, the blocks, the scenario keys
  with their modifiers, one data query per real or shifted key, the computed scenarios in dependency
  order, the metrics with their dependencies, the checks of the breakdown dimensions and the merging
  of equal queries.

  Sets whose order Python leaves open are lists here; every place where the order reaches the plan
  sorts first, as the code does. The extension hook that attaches query data is a parameter.
\<close>

section \<open>Plan data\<close>

(* engine/resolver.py:32-41 ResolvedBlock *)
record resolved_block =
  rb_alias :: string
  rb_scenario_key :: string
  rb_metric_keys :: "string list"
  display_items :: "string list"
  is_statement :: bool
  display_format :: string
  color_code :: bool

(* engine/resolver.py:44-63 DataQuery *)
record data_query =
  dq_scenario_key :: string
  dq_scenario_id :: string
  dq_period_start :: string
  dq_period_end :: string
  dq_metric_keys :: "string list"
  dq_domain :: string
  modifiers :: "(string, string) dict"
  time_offset :: int
  period_column :: string
  native_column :: string
  calendar_table :: string
  calendar_key :: string
  query_extension :: "(string, string) dict"

(* engine/resolver.py:66-71 ComputedScenarioEval *)
record computed_eval =
  ce_scenario_key :: string
  ce_formula :: string
  ce_dependencies :: "string list"

(* engine/resolver.py:74-84 GrainSpec *)
record grain_spec =
  detail :: bool
  subtotals :: bool
  grand_total :: bool

(* engine/resolver.py:87-100 ExecutionPlan *)
record execution_plan =
  blocks :: "resolved_block list"
  data_queries :: "data_query list"
  computed_evals :: "computed_eval list"
  plan_dimensions :: "string list"
  plan_period_start :: string
  plan_period_end :: string
  all_metric_keys :: "string list"
  all_base_metric_keys :: "string list"
  all_derived_metric_keys :: "string list"
  plan_grains :: grain_spec

text \<open>A request: the optional context and legacy filters, the blocks, and the options.\<close>

record request =
  rq_context :: "(string, string) dict option"
  rq_filters :: "(string, string) dict option"
  rq_blocks :: "(string, string) dict list option"
  rq_dimensions :: "string list"
  rq_strict_dimensions :: bool
  rq_grains :: "(string, bool) dict option"

(* engine/resolver.py:103-105 ResolverError *)
datatype resolver_error =
    ResolverError string "string list"
  | PeriodFailed period_error
  | CatalogueFailed catalogue_error
  | RegistryFailed registry_error
  | RecursionLimit

definition bad :: "string \<Rightarrow> string list \<Rightarrow> (resolver_error, 'a) res" where
  "bad msg names = Inl (ResolverError msg names)"

lemma bad_not_ok [simp]: "bad msg names \<noteq> Inr x" "Inr x \<noteq> bad msg names"
  by (simp_all add: bad_def)

section \<open>Periods\<close>

(* engine/resolver.py:409-417 resolve *)
definition bounds_in :: "string \<Rightarrow> (string, string) dict \<Rightarrow> (resolver_error, string \<times> string) res" where
  "bounds_in place d =
     (case dget d ''period_start'' of
        None \<Rightarrow> bad ''period_start is required'' [place]
      | Some s \<Rightarrow>
          (case dget d ''period_end'' of
             None \<Rightarrow> bad ''period_end is required'' [place]
           | Some e \<Rightarrow> Inr (s, e)))"

(* engine/resolver.py:406-428 resolve *)
definition period_bounds :: "request \<Rightarrow> (resolver_error, string \<times> string) res" where
  "period_bounds rq =
     (case rq_context rq of
        Some c \<Rightarrow> bounds_in ''context'' c
      | None \<Rightarrow> (case rq_filters rq of
                   Some f \<Rightarrow> bounds_in ''filters'' f
                 | None \<Rightarrow> bad ''Request must have a context dict'' []))"

(* engine/resolver.py:430-448 resolve *)
definition filter_grain_of :: "string \<Rightarrow> string \<Rightarrow> (resolver_error, grain) res" where
  "filter_grain_of period_start period_end =
     (case (detect_grain period_start, detect_grain period_end) of
        (None, _) \<Rightarrow> bad ''Invalid period format for period_start'' [period_start]
      | (Some g, None) \<Rightarrow> bad ''Invalid period format for period_end'' [period_end]
      | (Some g, Some h) \<Rightarrow>
          if g \<noteq> h then bad ''must be the same grain'' [grain_value g, grain_value h]
          else if period_end < period_start then bad ''period_start must be <= period_end'' [period_start, period_end]
          else Inr g)"

(* engine/resolver.py:121-140 _period_column_for_grain *)
definition grain_options :: "catalogue \<Rightarrow> string \<Rightarrow> (string, grain) dict" where
  "grain_options cat domain =
     (let put = (\<lambda>column g opts. case g of None \<Rightarrow> opts | Some gr \<Rightarrow> dset column gr opts);
          grain_at = (\<lambda>key. case dget (dimensions cat) key of None \<Rightarrow> None | Some d \<Rightarrow> dim_grain d);
          opts1 = (case dget (dimensions cat) ''period'' of
             None \<Rightarrow> []
           | Some pd \<Rightarrow> fold (\<lambda>p. put p (grain_at p)) (dkeys (parents pd)) (put ''period'' (dim_grain pd) []))
      in case dget (domains cat) domain of
           None \<Rightarrow> opts1
         | Some dc \<Rightarrow> fold (\<lambda>cd. put (if cd_source cd = [] then cd_key cd else cd_source cd) (grain_at (cd_key cd)))
                        (dc_dimensions dc) opts1)"

(* engine/resolver.py:110-147 _period_column_for_grain *)
definition period_column_for_grain :: "catalogue \<Rightarrow> string \<Rightarrow> grain \<Rightarrow> (resolver_error, string) res" where
  "period_column_for_grain cat domain g =
     (let opts = grain_options cat domain in
      case List.find (\<lambda>p. snd p = g) opts of
        Some (column, _) \<Rightarrow> Inr column
      | None \<Rightarrow> bad ''Period filter grain is not supported for domain''
                  (grain_value g # domain # sorted_set (map (grain_value \<circ> snd) opts)))"

(* engine/resolver.py:150-157 _calendar_for_grain *)
definition calendar_for_grain :: "catalogue \<Rightarrow> grain \<Rightarrow> (string \<times> string) option" where
  "calendar_for_grain cat g =
     (case List.find (\<lambda>d. dim_grain d = Some g \<and> dim_source d \<noteq> None) (map snd (dimensions cat)) of
        None \<Rightarrow> None
      | Some d \<Rightarrow> map_option (\<lambda>s. (ds_table s, ds_key_column s)) (dim_source d))"

section \<open>Scenario modifiers\<close>

(* engine/resolver.py:211-217 _VALID_MODIFIERS *)
definition VALID_MODIFIERS :: "string list" where
  "VALID_MODIFIERS = [''uncommitted'', ''uncommitted_delta'', ''commit'', ''commit_delta'', ''fork'']"

(* engine/resolver.py:235-249 parse_scenario_modifiers *)
fun parse_modifier_parts :: "(string, string) dict \<Rightarrow> string list \<Rightarrow> (resolver_error, (string, string) dict) res" where
  "parse_modifier_parts mods [] = Inr mods"
| "parse_modifier_parts mods (part # parts) =
     (let (key, v) = (case split_first ''='' part of Some (k, v) \<Rightarrow> (k, v) | None \<Rightarrow> (part, []))
      in if key \<notin> set VALID_MODIFIERS then bad ''Unknown scenario modifier'' [key]
         else parse_modifier_parts (dset key v mods) parts)"

(* engine/resolver.py:220-251 parse_scenario_modifiers *)
definition parse_scenario_modifiers :: "string \<Rightarrow> (resolver_error, string \<times> (string, string) dict) res" where
  "parse_scenario_modifiers ref =
     (if CHR ''&'' \<notin> set ref then Inr (ref, [])
      else let parts = split_on (CHR ''&'') ref
           in res_map (Pair (hd parts)) (parse_modifier_parts [] (tl parts)))"

(* engine/resolver.py:254-261 strip_scenario_modifiers *)
definition strip_scenario_modifiers :: "string \<Rightarrow> string" where
  "strip_scenario_modifiers ref = takeWhile (\<lambda>c. c \<noteq> CHR ''&'') ref"

section \<open>Metric dependencies\<close>

(* engine/resolver.py:278-293 _resolve_metric_dependencies *)
function collect_metrics ::
  "'f parser \<Rightarrow> (string, metric) dict \<Rightarrow> string list \<Rightarrow> string list \<Rightarrow> (resolver_error, string list) res" where
  "collect_metrics parse ms all_keys to_visit =
     (if to_visit = [] then Inr all_keys
      else
        let key = last to_visit; rest = butlast to_visit in
        if key \<in> set all_keys then collect_metrics parse ms all_keys rest
        else case dget ms key of
          None \<Rightarrow> bad ''Unknown metric key'' [key]
        | Some (BaseMetric m) \<Rightarrow> collect_metrics parse ms (key # all_keys) rest
        | Some (DerivedMetric m) \<Rightarrow>
            (case metric_refs parse (formula m) of
               Inl e \<Rightarrow> Inl (CatalogueFailed (formula_failed e))
             | Inr refs \<Rightarrow> collect_metrics parse ms (key # all_keys)
                 (rest @ filter (\<lambda>r. r \<notin> set (key # all_keys)) refs)))"
  by pat_completeness auto
termination
proof (relation "measures [\<lambda>(parse, ms, all_keys, to_visit). card (set (dkeys ms) - set all_keys),
    \<lambda>(parse, ms, all_keys, to_visit). length to_visit]", goal_cases)
  have less: "card (set (dkeys ms) - set (key # all_keys)) < card (set (dkeys ms) - set all_keys)"
    if "dget ms key = Some m" "key \<notin> set all_keys" for ms :: "(string, metric) dict" and key all_keys m
  proof -
    have "key \<in> set (dkeys ms) - set all_keys" using that dkeys_get [of key ms] by simp
    then show ?thesis by (intro psubset_card_mono) auto
  qed
  { case 1 show ?case by simp }
  { case 2 then show ?case by simp }
  { case 3 then show ?case using less by simp }
  { case 4 then show ?case using less by simp }
qed

declare collect_metrics.simps [simp del]

(* engine/resolver.py:268-329 _resolve_metric_dependencies *)
definition resolve_metric_dependencies ::
  "'f parser \<Rightarrow> (string, metric) dict \<Rightarrow> string list \<Rightarrow> (resolver_error, string list \<times> string list \<times> string list) res" where
  "resolve_metric_dependencies parse ms metric_keys =
     res_map (\<lambda>all_keys.
        let sorted_keys = metric_sort (dependency_graph (formula_refs parse ms) all_keys)
        in (sorted_keys,
            filter (\<lambda>k. derived_of ms k = None) sorted_keys,
            filter (\<lambda>k. derived_of ms k \<noteq> None) sorted_keys))
       (collect_metrics parse ms [] metric_keys)"

section \<open>Blocks\<close>

(* engine/resolver.py:364-373 _resolve_registry_ref *)
definition registry_ref :: "registry \<Rightarrow> string \<Rightarrow> scenario_ref option" where
  "registry_ref reg key = (case resolve_key reg key of Inr r \<Rightarrow> Some r | Inl _ \<Rightarrow> None)"

definition comma_keys :: "string \<Rightarrow> string list" where
  "comma_keys s = filter (\<lambda>k. k \<noteq> []) (map strip (split_on (CHR '','') s))"

(* engine/resolver.py:483-527 resolve *)
definition parse_model ::
  "catalogue \<Rightarrow> string \<Rightarrow> (resolver_error, string list \<times> string list \<times> bool) res" where
  "parse_model cat model_ref =
     (if startswith model_ref ''metric:'' then
        let key = drop 7 model_ref in
        if dhas key (metrics cat) then Inr ([key], [key], False) else bad ''unknown metric key'' [key]
      else if startswith model_ref ''metrics:'' then
        let keys = comma_keys (drop 8 model_ref) in
        if keys = [] then bad ''metrics: requires at least one metric key'' []
        else res_bind (res_all (\<lambda>k. if dhas k (metrics cat) then Inr () else bad ''unknown metric key'' [k]) keys)
               (\<lambda>_. Inr (keys, keys, False))
      else if startswith model_ref ''statement:'' then
        let name = drop 10 model_ref in
        if \<not> dhas name (statements cat) then bad ''unknown statement'' [name]
        else res_bind (res_wrap CatalogueFailed (resolve_statement (statements cat) name)) (\<lambda>items.
               Inr (items, filter (\<lambda>i. i \<noteq> ''separator'') items, True))
      else bad ''model reference must start with metric:, metrics: or statement:'' [model_ref])"

(* engine/resolver.py:464-542 resolve *)
definition resolve_block :: "catalogue \<Rightarrow> registry \<Rightarrow> (string, string) dict \<Rightarrow> (resolver_error, resolved_block) res" where
  "resolve_block cat reg raw =
     (case (dget raw ''model'', dget raw ''scenario'') of
        (None, _) \<Rightarrow> bad ''Block is missing model'' []
      | (Some _, None) \<Rightarrow> bad ''Block is missing scenario'' []
      | (Some model_ref, Some scenario_ref) \<Rightarrow>
          res_bind (parse_scenario_modifiers scenario_ref) (\<lambda>(base_key, _).
            case registry_ref reg base_key of
              None \<Rightarrow> bad ''unknown scenario'' [base_key]
            | Some _ \<Rightarrow>
                res_bind (parse_model cat model_ref) (\<lambda>(items, keys, stmt).
                res_bind (res_wrap RegistryFailed (display_format_for reg base_key [])) (\<lambda>fmt.
                res_bind (res_wrap RegistryFailed (color_code_for reg base_key)) (\<lambda>color.
                  Inr \<lparr>rb_alias = dget_or scenario_ref raw ''alias'', rb_scenario_key = scenario_ref,
                       rb_metric_keys = keys, display_items = items, is_statement = stmt,
                       display_format = fmt, color_code = color\<rparr>)))))"

(* engine/resolver.py:450-464 resolve *)
definition resolve_blocks :: "catalogue \<Rightarrow> registry \<Rightarrow> request \<Rightarrow> (resolver_error, resolved_block list) res" where
  "resolve_blocks cat reg rq =
     (case rq_blocks rq of
        None \<Rightarrow> bad ''Request must have a blocks list'' []
      | Some raw \<Rightarrow> if raw = [] then bad ''Request must have at least one block'' []
                    else res_mapM (resolve_block cat reg) raw)"

section \<open>Scenario keys\<close>

(* engine/resolver.py:574-578 _registry_or_error *)
definition registry_or_error :: "registry \<Rightarrow> string \<Rightarrow> (resolver_error, scenario_ref) res" where
  "registry_or_error reg base_key = res_of_option (ResolverError ''Unknown scenario'' [base_key]) (registry_ref reg base_key)"

fun variance_sides :: "scenario_ref \<Rightarrow> (string \<times> string) option" where
  "variance_sides (Variance v) = Some (operand_key (va_left v), operand_key (va_right v))"
| "variance_sides (VariancePct v) = Some (operand_key (va_left v), operand_key (va_right v))"
| "variance_sides _ = None"

text \<open>The base scenario and the modifiers of a full key.\<close>

(* engine/resolver.py:556-572 _base_key *)
definition scenario_of :: "registry \<Rightarrow> string \<Rightarrow> (resolver_error, scenario_ref \<times> (string, string) dict) res" where
  "scenario_of reg key =
     res_bind (parse_scenario_modifiers key) (\<lambda>(base, mods).
     res_map (\<lambda>sc. (sc, mods)) (registry_or_error reg base))"

text \<open>
  The recursion over generated comparisons. Python's recursion is bounded by its stack; here the
  bound is explicit, and a bound of two is shown below to suffice for every registry the loader
  builds, because the sides of a comparison are real or shifted.
\<close>

(* engine/resolver.py:603-624 _collect_computed_deps *)
fun collect_computed_deps :: "nat \<Rightarrow> registry \<Rightarrow> string \<Rightarrow> string list \<Rightarrow> (resolver_error, string list) res" where
  "collect_computed_deps 0 reg key visited = (if key \<in> set visited then Inr visited else Inl RecursionLimit)"
| "collect_computed_deps (Suc n) reg key visited =
     (if key \<in> set visited then Inr visited
      else res_bind (scenario_of reg key) (\<lambda>(sc, mods).
        case variance_sides sc of
          None \<Rightarrow> Inr (key # visited)
        | Some (l, r) \<Rightarrow>
            if mods \<noteq> [] then bad ''Scenario modifiers are not supported on computed scenarios'' [key]
            else res_bind (collect_computed_deps n reg l (key # visited)) (\<lambda>v.
                   collect_computed_deps n reg r v)))"

(* engine/resolver.py:626-628 resolve *)
definition expanded_keys :: "registry \<Rightarrow> string list \<Rightarrow> (resolver_error, string list) res" where
  "expanded_keys reg keys = res_foldM (\<lambda>visited key. collect_computed_deps 2 reg key visited) [] keys"

(* engine/resolver.py:580-584 _computed_deps_for *)
definition computed_deps_for :: "registry \<Rightarrow> string \<Rightarrow> string list" where
  "computed_deps_for reg key =
     (case scenario_of reg key of
        Inr (sc, _) \<Rightarrow> (case variance_sides sc of Some (l, r) \<Rightarrow> remdups [l, r] | None \<Rightarrow> [])
      | Inl _ \<Rightarrow> [])"

definition is_computed :: "registry \<Rightarrow> string \<Rightarrow> bool" where
  "is_computed reg key =
     (case scenario_of reg key of Inr (sc, _) \<Rightarrow> variance_sides sc \<noteq> None | Inl _ \<Rightarrow> False)"

(* engine/resolver.py:586-593 _computed_formula_for *)
definition computed_formula_for :: "registry \<Rightarrow> string \<Rightarrow> (resolver_error, string) res" where
  "computed_formula_for reg key =
     res_bind (scenario_of reg key) (\<lambda>(sc, _).
       case sc of
         VariancePct v \<Rightarrow>
           let l = operand_key (va_left v); r = operand_key (va_right v)
           in Inr (''('' @ l @ '' - '' @ r @ '') / abs('' @ r @ '') * 100'')
       | Variance v \<Rightarrow> Inr (operand_key (va_left v) @ '' - '' @ operand_key (va_right v))
       | _ \<Rightarrow> bad ''Scenario is not computed'' [key])"

section \<open>Data queries\<close>

definition base_query :: "string \<Rightarrow> string \<Rightarrow> string \<Rightarrow> string \<Rightarrow> (string, string) dict \<Rightarrow> (string, string) dict \<Rightarrow> data_query" where
  "base_query key sid ps pe mods x =
     \<lparr>dq_scenario_key = key, dq_scenario_id = sid, dq_period_start = ps, dq_period_end = pe,
      dq_metric_keys = [], dq_domain = ''pnl'', modifiers = mods, time_offset = 0, period_column = ''period'',
      native_column = ''period'', calendar_table = [], calendar_key = [], query_extension = x\<rparr>"

(* engine/resolver.py:657-674 resolve *)
definition check_breakdown :: "catalogue \<Rightarrow> string list \<Rightarrow> grain \<Rightarrow> (resolver_error, unit) res" where
  "check_breakdown cat dims_asked filter_grain =
     res_all (\<lambda>dn. case dget (dimensions cat) dn of
        None \<Rightarrow> Inr ()
      | Some d \<Rightarrow> (case dim_grain d of
           None \<Rightarrow> Inr ()
         | Some g \<Rightarrow> if grain_rank g < grain_rank filter_grain
                     then bad ''breakdown finer than the filter grain'' [grain_value g, grain_value filter_grain]
                     else Inr ())) dims_asked"

text \<open>The window, month-equivalent offset and calendar of a shifted scenario.\<close>

(* engine/resolver.py:675-701 resolve *)
definition shifted_window ::
  "catalogue \<Rightarrow> grain \<Rightarrow> shift_op \<Rightarrow> string \<Rightarrow> string \<Rightarrow> (resolver_error, string \<times> string \<times> int \<times> string \<times> string) res" where
  "shifted_window cat g op ps pe =
     (case op of
        YearShift \<Rightarrow>
          res_bind (res_wrap PeriodFailed (shift_year ps (- 1))) (\<lambda>s.
          res_bind (res_wrap PeriodFailed (shift_year pe (- 1))) (\<lambda>e. Inr (s, e, - 12, [], [])))
      | PeriodStep \<Rightarrow>
          if g = WEEK \<or> g = DATE then
            (case calendar_for_grain cat g of
               None \<Rightarrow> bad ''Prior-period needs a calendar dimension'' [grain_value g]
             | Some (table, key) \<Rightarrow> Inr (ps, pe, 0, table, key))
          else
            res_bind (res_wrap PeriodFailed (step_period ps g (- 1))) (\<lambda>s.
            res_bind (res_wrap PeriodFailed (step_period pe g (- 1))) (\<lambda>e.
              Inr (s, e, - (case STEP_MONTHS g of Some m \<Rightarrow> m | None \<Rightarrow> 1), [], []))))"

(* engine/resolver.py:643-715 resolve *)
definition build_query ::
  "catalogue \<Rightarrow> registry \<Rightarrow> (scenario_ref \<Rightarrow> (string, string) dict) \<Rightarrow> string list \<Rightarrow> grain \<Rightarrow> string \<Rightarrow> string \<Rightarrow> string
     \<Rightarrow> (resolver_error, data_query) res" where
  "build_query cat reg ext dims_asked g ps pe key =
     res_bind (scenario_of reg key) (\<lambda>(sc, mods).
       case sc of
         Real r \<Rightarrow> Inr (base_query key (scenario_id r) ps pe mods (ext sc))
       | Shifted sh \<Rightarrow>
           res_bind (check_breakdown cat dims_asked g) (\<lambda>_.
           res_bind (shifted_window cat g (sh_op sh) ps pe) (\<lambda>(s, e, months, table, ckey).
             Inr ((base_query key (scenario_id (sh_base sh)) s e mods (ext sc))
                    \<lparr>time_offset := months, calendar_table := table, calendar_key := ckey\<rparr>)))
       | _ \<Rightarrow> bad ''Scenario does not resolve to a data query'' [key])"

(* engine/resolver.py:717-729 resolve *)
definition build_evals :: "registry \<Rightarrow> string list \<Rightarrow> (resolver_error, computed_eval list) res" where
  "build_evals reg computed_keys =
     res_bind (res_wrap (\<lambda>_. ResolverError ''Circular dependency detected in computed scenarios'' [])
         (topological_sort_dependencies computed_keys (computed_deps_for reg))) (\<lambda>sorted_computed.
       res_mapM (\<lambda>key. res_map (\<lambda>f. \<lparr>ce_scenario_key = key, ce_formula = f,
                                    ce_dependencies = sort (computed_deps_for reg key)\<rparr>)
                  (computed_formula_for reg key)) sorted_computed)"

section \<open>Breakdown dimensions\<close>

(* engine/resolver.py:772-781 _add_parents *)
function add_parents :: "dims \<Rightarrow> string list \<Rightarrow> string list \<Rightarrow> string list \<Rightarrow> string list" where
  "add_parents ds [] visited valid = valid"
| "add_parents ds (k # ks) visited valid =
     (if k \<in> set visited then add_parents ds ks visited valid
      else let ps = dkeys (parents_of ds k)
           in add_parents ds (ps @ ks) (k # visited) (valid @ ps))"
  by pat_completeness auto
termination
proof (relation "measures [\<lambda>(ds, ks, visited, valid). card (set (dkeys ds) - set visited),
    \<lambda>(ds, ks, visited, valid). length ks]", goal_cases)
  case (3 ds k ks visited valid ps)
  show ?case
  proof (cases "k \<in> set (dkeys ds)")
    case True
    then have "k \<in> set (dkeys ds) - set visited" using 3 by simp
    then have "card (set (dkeys ds) - set (k # visited)) < card (set (dkeys ds) - set visited)"
      by (intro psubset_card_mono) auto
    then show ?thesis by simp
  next
    case False
    then have "parents_of ds k = []" using unknown_no_parents [of k ds] unfolding dhas_def by blast
    moreover have "set (dkeys ds) - set (k # visited) = set (dkeys ds) - set visited" using False by auto
    ultimately show ?thesis using 3 by simp
  qed
qed simp_all

(* engine/resolver.py:768-788 resolve *)
definition valid_dim_keys :: "catalogue \<Rightarrow> domain_catalogue \<Rightarrow> string list" where
  "valid_dim_keys cat dc =
     (let own = map cd_key (dc_dimensions dc);
          with_parents = fold (\<lambda>k valid. add_parents (dimensions cat) [k] [] valid) own own
      in fold (\<lambda>(dname, d) valid. if is_ragged d \<and> dim_leaf_dimension d \<in> set valid then valid @ [dname] else valid)
           (dimensions cat) with_parents)"

(* engine/resolver.py:789-825 resolve *)
definition check_dimension_in ::
  "catalogue \<Rightarrow> domain_catalogue \<Rightarrow> bool \<Rightarrow> string \<Rightarrow> (resolver_error, unit) res" where
  "check_dimension_in cat dc strict dim_name =
     (if dim_name \<in> set (valid_dim_keys cat dc) then Inr ()
      else let alt = map fst (filter (\<lambda>(_, d). dim_name \<in> set (map cd_key (dc_dimensions d))) (domains cat))
           in if strict then bad ''Dimension is not available in the domain'' (dim_name # dc_domain dc # alt)
              else if alt = [] then bad ''Dimension does not exist in any domain'' [dim_name]
              else Inr ())"

(* engine/resolver.py:763-825 resolve *)
definition check_dimensions :: "catalogue \<Rightarrow> string \<Rightarrow> bool \<Rightarrow> string list \<Rightarrow> (resolver_error, unit) res" where
  "check_dimensions cat domain strict dims_asked =
     (case dget (domains cat) domain of
        None \<Rightarrow> Inr ()
      | Some dc \<Rightarrow> res_all (check_dimension_in cat dc strict) dims_asked)"

section \<open>The plan\<close>

(* engine/resolver.py:741-746 resolve *)
definition infer_domain :: "(string, metric) dict \<Rightarrow> string list \<Rightarrow> string" where
  "infer_domain ms base_keys =
     (case base_keys of
        [] \<Rightarrow> ''pnl''
      | k # _ \<Rightarrow> (case dget ms k of Some (BaseMetric m) \<Rightarrow> bm_domain m | _ \<Rightarrow> ''pnl''))"

(* engine/resolver.py:827-833 resolve *)
definition assign_query :: "string list \<Rightarrow> string \<Rightarrow> string \<Rightarrow> string \<Rightarrow> data_query \<Rightarrow> data_query" where
  "assign_query base_keys domain pcol ncol q =
     q\<lparr>dq_metric_keys := base_keys, dq_domain := domain, period_column := pcol, native_column := ncol\<rparr>"

definition query_identity :: "data_query \<Rightarrow> string \<times> string \<times> string \<times> (string \<times> string) list \<times> string \<times> string" where
  "query_identity q = (dq_scenario_id q, dq_period_start q, dq_period_end q, sort (modifiers q),
     calendar_table q, calendar_key q)"

text \<open>Queries in the order of their keys; the first of equal ones is kept.\<close>

(* engine/resolver.py:835-853 resolve *)
fun dedup_queries :: "(string \<times> string \<times> string \<times> (string \<times> string) list \<times> string \<times> string) list
    \<Rightarrow> data_query list \<Rightarrow> data_query list" where
  "dedup_queries seen [] = []"
| "dedup_queries seen (q # qs) =
     (if query_identity q \<in> set seen then dedup_queries seen qs
      else q # dedup_queries (query_identity q # seen) qs)"

(* engine/resolver.py:855-863 resolve *)
definition grain_spec_of :: "(string, bool) dict option \<Rightarrow> grain_spec" where
  "grain_spec_of raw =
     (case raw of
        None \<Rightarrow> \<lparr>detail = True, subtotals = False, grand_total = False\<rparr>
      | Some d \<Rightarrow> \<lparr>detail = dget_or True d ''detail'', subtotals = dget_or False d ''subtotals'',
                   grand_total = dget_or False d ''grand_total''\<rparr>)"

(* engine/resolver.py:630-646 resolve *)
definition plan_queries ::
  "catalogue \<Rightarrow> registry \<Rightarrow> (scenario_ref \<Rightarrow> (string, string) dict) \<Rightarrow> string list \<Rightarrow> grain \<Rightarrow> string \<Rightarrow> string
     \<Rightarrow> string list \<Rightarrow> (resolver_error, data_query list) res" where
  "plan_queries cat reg ext dims_asked g ps pe expanded =
     res_mapM (build_query cat reg ext dims_asked g ps pe)
       (filter (\<lambda>k. \<not> is_computed reg k) (sorted_set expanded))"

(* engine/resolver.py:748-758 resolve *)
definition plan_columns :: "catalogue \<Rightarrow> string \<Rightarrow> grain \<Rightarrow> (resolver_error, string \<times> string) res" where
  "plan_columns cat domain g =
     res_bind (if g = MONTH then Inr ''period'' else period_column_for_grain cat domain g) (\<lambda>pcol.
       Inr (pcol, case dget (domains cat) domain of Some dc \<Rightarrow> native_grain_column dc | None \<Rightarrow> ''period''))"

(* engine/resolver.py:380-402 resolve *)
definition resolve ::
  "'f parser \<Rightarrow> catalogue \<Rightarrow> registry \<Rightarrow> (scenario_ref \<Rightarrow> (string, string) dict) \<Rightarrow> request
     \<Rightarrow> (resolver_error, execution_plan) res" where
  "resolve parse cat reg ext rq =
     res_bind (period_bounds rq) (\<lambda>(ps, pe).
     res_bind (filter_grain_of ps pe) (\<lambda>g.
     res_bind (resolve_blocks cat reg rq) (\<lambda>bs.
     res_bind (expanded_keys reg (remdups (map rb_scenario_key bs))) (\<lambda>expanded.
     res_bind (plan_queries cat reg ext (rq_dimensions rq) g ps pe expanded) (\<lambda>queries.
     res_bind (build_evals reg (filter (is_computed reg) (sorted_set expanded))) (\<lambda>evals.
     res_bind (resolve_metric_dependencies parse (metrics cat) (remdups (concat (map rb_metric_keys bs))))
       (\<lambda>(all_keys, base_keys, derived).
     let domain = infer_domain (metrics cat) base_keys in
     res_bind (plan_columns cat domain g) (\<lambda>(pcol, ncol).
     res_bind (check_dimensions cat domain (rq_strict_dimensions rq) (rq_dimensions rq)) (\<lambda>_.
       Inr \<lparr>blocks = bs,
            data_queries = dedup_queries [] (map (assign_query base_keys domain pcol ncol) queries),
            computed_evals = evals, plan_dimensions = rq_dimensions rq,
            plan_period_start = ps, plan_period_end = pe,
            all_metric_keys = all_keys, all_base_metric_keys = base_keys, all_derived_metric_keys = derived,
            plan_grains = grain_spec_of (rq_grains rq)\<rparr>)))))))))"

section \<open>Correctness of the metric dependencies\<close>

text \<open>What the collection returns: the closure of the requested keys under formula references.\<close>

definition closure_of :: "('a \<Rightarrow> 'a list) \<Rightarrow> 'a set \<Rightarrow> 'a list \<Rightarrow> bool" where
  "closure_of f start ks \<longleftrightarrow> distinct ks \<and> start \<subseteq> set ks \<and> (\<forall>k\<in>set ks. set (f k) \<subseteq> set ks)
     \<and> (\<forall>C. start \<subseteq> C \<longrightarrow> (\<forall>k\<in>C. set (f k) \<subseteq> C) \<longrightarrow> set ks \<subseteq> C)"

lemma closure_of_skip:
  assumes "closure_of f (set xs \<union> set ys) ks" and "set (f x) \<subseteq> set xs \<union> set ys" and "x \<in> start"
    and "set xs \<union> set ys \<subseteq> start \<union> set (f x)" and "start \<subseteq> set xs \<union> set ys"
  shows "closure_of f start ks"
  unfolding closure_of_def
proof (intro conjI allI impI)
  show "distinct ks" "start \<subseteq> set ks" "\<forall>k\<in>set ks. set (f k) \<subseteq> set ks"
    using assms(1,5) unfolding closure_of_def by blast+
  fix C assume C: "start \<subseteq> C" "\<forall>k\<in>C. set (f k) \<subseteq> C"
  then have "set xs \<union> set ys \<subseteq> C" using assms(3,4) by blast
  with assms(1) C(2) show "set ks \<subseteq> C" unfolding closure_of_def by blast
qed

lemma collect_metrics_correct:
  assumes "\<And>k. k \<in> set (dkeys ms) \<Longrightarrow> set (formula_refs parse ms k) \<subseteq> set (dkeys ms)"
    and "\<And>k d. dget ms k = Some (DerivedMetric d) \<Longrightarrow> \<exists>e. parse (formula d) = Some e"
    and "set all_keys \<union> set to_visit \<subseteq> set (dkeys ms)" and "distinct all_keys"
    and "\<And>k. k \<in> set all_keys \<Longrightarrow> set (formula_refs parse ms k) \<subseteq> set all_keys \<union> set to_visit"
  shows "\<exists>ks. collect_metrics parse ms all_keys to_visit = Inr ks
     \<and> closure_of (formula_refs parse ms) (set all_keys \<union> set to_visit) ks"
  using assms
proof (induction parse ms all_keys to_visit rule: collect_metrics.induct)
  case (1 parse ms all_keys to_visit)
  note step = collect_metrics.simps [of parse ms all_keys to_visit]
  let ?f = "formula_refs parse ms"
  show ?case
  proof (cases "to_visit = []")
    case True
    have sub: "\<forall>k\<in>set all_keys. set (?f k) \<subseteq> set all_keys" using "1.prems"(5) True by simp
    have "collect_metrics parse ms all_keys to_visit = Inr all_keys" using step True by simp
    moreover have "closure_of ?f (set all_keys \<union> set to_visit) all_keys"
      using sub "1.prems"(4) True unfolding closure_of_def by simp
    ultimately show ?thesis by blast
  next
    case False
    define key rest where "key = last to_visit" and "rest = butlast to_visit"
    then have split: "to_visit = rest @ [key]" using False by simp
    then have visit: "set to_visit = insert key (set rest)" by simp
    show ?thesis
    proof (cases "key \<in> set all_keys")
      case seen: True
      have same: "set all_keys \<union> set to_visit = set all_keys \<union> set rest"
        unfolding visit using seen by (simp add: insert_absorb)
      have sub: "set all_keys \<union> set rest \<subseteq> set (dkeys ms)" using "1.prems"(3) unfolding same .
      have refs: "set (?f k) \<subseteq> set all_keys \<union> set rest" if "k \<in> set all_keys" for k
        using "1.prems"(5) [OF that] unfolding same .
      have eq: "collect_metrics parse ms all_keys to_visit = collect_metrics parse ms all_keys rest"
        using step False seen by (simp add: key_def rest_def)
      show ?thesis unfolding eq same
        by (rule "1.IH"(1) [OF False key_def rest_def seen], erule "1.prems"(1), erule "1.prems"(2),
            rule sub, rule "1.prems"(4), erule refs)
    next
      case fresh: False
      have "key \<in> set (dkeys ms)" using "1.prems"(3) visit by blast
      then obtain m where m: "dget ms key = Some m" using dkeys_get by metis
      have known: "set (?f key) \<subseteq> set (dkeys ms)" by (rule "1.prems"(1)) fact
      show ?thesis
      proof (cases m)
        case (BaseMetric b)
        have none: "?f key = []" using m BaseMetric by (simp add: formula_refs_def)
        have same: "set all_keys \<union> set to_visit = set (key # all_keys) \<union> set rest" unfolding visit by simp
        have sub: "set (key # all_keys) \<union> set rest \<subseteq> set (dkeys ms)" using "1.prems"(3) unfolding same .
        have new: "distinct (key # all_keys)" using "1.prems"(4) fresh by simp
        have eq: "collect_metrics parse ms all_keys to_visit = collect_metrics parse ms (key # all_keys) rest"
          using step False fresh m BaseMetric by (simp add: key_def rest_def)
        have refs: "set (?f k) \<subseteq> set (key # all_keys) \<union> set rest" if "k \<in> set (key # all_keys)" for k
          using "1.prems"(5) [of k] that none unfolding same by (cases "k = key") simp_all
        show ?thesis unfolding eq same
          by (rule "1.IH"(2) [OF False key_def rest_def fresh m BaseMetric], erule "1.prems"(1),
              erule "1.prems"(2), rule sub, rule new, erule refs)
      next
        case (DerivedMetric d)
        then obtain e where "parse (formula d) = Some e" using "1.prems"(2) [of key d] m by blast
        then obtain refs where refs: "metric_refs parse (formula d) = Inr refs"
          by (auto simp: metric_refs_def extract_names_from_formula_def)
        then have f: "?f key = refs" using m DerivedMetric by (simp add: formula_refs_def)
        let ?push = "rest @ filter (\<lambda>r. r \<notin> set (key # all_keys)) refs"
        have eq: "collect_metrics parse ms all_keys to_visit = collect_metrics parse ms (key # all_keys) ?push"
          using step False fresh m DerivedMetric refs by (simp add: key_def rest_def Let_def)
        have all: "set (key # all_keys) \<union> set ?push = set all_keys \<union> set to_visit \<union> set refs"
          unfolding visit by auto
        have "\<exists>ks. collect_metrics parse ms (key # all_keys) ?push = Inr ks
            \<and> closure_of ?f (set (key # all_keys) \<union> set ?push) ks"
        proof (rule "1.IH"(3) [OF False key_def rest_def fresh m DerivedMetric refs])
          show "set (?f k) \<subseteq> set (dkeys ms)" if "k \<in> set (dkeys ms)" for k using that by (rule "1.prems"(1))
          show "\<exists>e. parse (formula d) = Some e" if "dget ms k = Some (DerivedMetric d)" for k d
            using that by (rule "1.prems"(2))
          show "set (key # all_keys) \<union> set ?push \<subseteq> set (dkeys ms)"
            unfolding all using "1.prems"(3) known f by simp
          show "distinct (key # all_keys)" using "1.prems"(4) fresh by simp
          show "set (?f k) \<subseteq> set (key # all_keys) \<union> set ?push" if "k \<in> set (key # all_keys)" for k
            unfolding all using "1.prems"(5) [of k] that f by (cases "k = key") auto
        qed
        then show ?thesis
          unfolding eq using closure_of_skip [of ?f "key # all_keys" ?push _ key "set all_keys \<union> set to_visit"]
          unfolding all f visit by blast
      qed
    qed
  qed
qed

lemma dependencies_first_cong:
  "set ks = set ks' \<Longrightarrow> dependencies_first f ks out = dependencies_first f ks' out"
  by (simp add: dependencies_first_def)

lemma acyclic_depends_mono: "set ks \<subseteq> set ks' \<Longrightarrow> acyclic (depends f ks') \<Longrightarrow> acyclic (depends f ks)"
  by (rule acyclic_subset) (auto simp: depends_def)

text \<open>
  C11: Metric dependencies of a report. For a validated catalogue and requested keys it knows, the
  expansion raises no error and returns the least set of metrics that contains the requested ones and
  every metric a formula in it refers to, each once and after the metrics its formula uses; the
  second and third results are the base and the derived metrics of that list, in its order.
\<close>

theorem metric_plan_correct:
  assumes "validate_catalogue parse cat = Inr ()" and "wf_dict (metrics cat)"
    and "set keys \<subseteq> set (dkeys (metrics cat))"
  shows "\<exists>ks. resolve_metric_dependencies parse (metrics cat) keys =
           Inr (ks, filter (\<lambda>k. derived_of (metrics cat) k = None) ks, filter (\<lambda>k. derived_of (metrics cat) k \<noteq> None) ks)
       \<and> closure_of (formula_refs parse (metrics cat)) (set keys) ks
       \<and> dependencies_first (formula_refs parse (metrics cat)) ks ks"
proof -
  let ?f = "formula_refs parse (metrics cat)"
  have graph: "check_formula_graph parse (metrics cat) = Inr ()"
    using assms(1) by (simp add: validate_catalogue_def)
  note facts = validated_metrics [OF graph assms(2)]
  have "\<exists>ks. collect_metrics parse (metrics cat) [] keys = Inr ks \<and> closure_of ?f (set [] \<union> set keys) ks"
    by (rule collect_metrics_correct) (use facts(2,3) assms(3) in simp_all)
  then obtain ks where ks: "collect_metrics parse (metrics cat) [] keys = Inr ks" "closure_of ?f (set keys) ks"
    by auto
  let ?s = "metric_sort (dependency_graph ?f ks)"
  have sub: "set ks \<subseteq> set (dkeys (metrics cat))"
    using ks(2) assms(3) facts(2) unfolding closure_of_def by blast
  have same: "set ?s = set ks"
    using metric_sort_correct(4) acyclic_depends_mono [OF sub facts(1)] by blast
  have "closure_of ?f (set keys) ?s"
    using ks(2) same metric_sort_correct(1) [of ?f ks] unfolding closure_of_def by simp
  moreover have "dependencies_first ?f ?s ?s"
    using metric_sort_correct(3) [of ?f ks] dependencies_first_cong [OF same, of ?f ?s] by blast
  ultimately show ?thesis by (simp add: resolve_metric_dependencies_def ks(1) Let_def)
qed

section \<open>Scenario keys of a plan\<close>

text \<open>Aliases that cannot be mistaken for an alias with modifiers.\<close>

definition plain_aliases :: "registry \<Rightarrow> bool" where
  "plain_aliases reg \<longleftrightarrow> (\<forall>a r. dget (aliases reg) a = Some r \<longrightarrow> CHR ''&'' \<notin> set a)"

definition sides_of :: "scenario_ref \<Rightarrow> string set" where
  "sides_of sc = (case variance_sides sc of None \<Rightarrow> {} | Some (l, r) \<Rightarrow> {l, r})"

lemma split_on_cons: "split_on c xs \<noteq> []"
  by (cases xs) (simp_all split: list.splits)

lemma hd_split_on: "hd (split_on c xs) = takeWhile (\<lambda>x. x \<noteq> c) xs"
proof (induction xs)
  case (Cons x xs)
  then show ?case using split_on_cons [of c xs] by (cases "split_on c xs") simp_all
qed simp

lemma takeWhile_without: "c \<notin> set xs \<Longrightarrow> takeWhile (\<lambda>x. x \<noteq> c) xs = xs"
  by (induction xs) auto

lemma scenario_of_resolves:
  assumes "scenario_of reg key = Inr (sc, mods)"
  shows "resolve_key reg (strip_scenario_modifiers key) = Inr sc"
proof -
  obtain base where base: "parse_scenario_modifiers key = Inr (base, mods)" "registry_or_error reg base = Inr sc"
    using assms by (auto simp: scenario_of_def res_bind_eq_Inr res_map_eq_Inr)
  have "base = strip_scenario_modifiers key"
  proof (cases "CHR ''&'' \<in> set key")
    case True
    then show ?thesis
      using base(1) hd_split_on [of "CHR ''&''" key]
      by (auto simp: parse_scenario_modifiers_def strip_scenario_modifiers_def res_map_eq_Inr Let_def)
  next
    case False
    then have "strip_scenario_modifiers key = key"
      unfolding strip_scenario_modifiers_def by (rule takeWhile_without)
    then show ?thesis using base(1) False by (simp add: parse_scenario_modifiers_def)
  qed
  then show ?thesis
    using base(2) by (auto simp: registry_or_error_def registry_ref_def res_of_option_eq_Inr split: sum.splits)
qed

lemma operand_key_plain:
  assumes "plain_aliases reg" and "clean_registry reg" and "operand_from reg p"
  shows "CHR ''&'' \<notin> set (operand_key p)"
proof (cases p)
  case (OReal r)
  then have r: "dget (aliases reg) (sc_alias r) = Some r" using assms(3) by simp
  have "rr_key r = sc_alias r" using cleanD(2) [OF assms(2) r] by simp
  then show ?thesis using assms(1) OReal r by (auto simp: plain_aliases_def)
next
  case (OShifted s)
  then have s: "dget (aliases reg) (sc_alias (sh_base s)) = Some (sh_base s)"
    "sh_key s = sc_alias (sh_base s) @ ''_py'' \<or> sh_key s = sc_alias (sh_base s) @ ''_pp''"
    using assms(3) unfolding OShifted operand_from.simps
    by (blast, metis make_shifted_def shifted_ref.select_convs(1))
  then show ?thesis using assms(1) OShifted by (auto simp: plain_aliases_def)
qed

lemma scenario_of_operand:
  assumes "plain_aliases reg" and "clean_registry reg" and "operand_from reg p"
  shows "\<exists>ref. scenario_of reg (operand_key p) = Inr (ref, []) \<and> as_operand ref = Some p"
proof -
  obtain ref where ref: "resolve_key reg (operand_key p) = Inr ref" "as_operand ref = Some p"
    using resolve_operand(2) [OF assms(2,3)] by blast
  have "parse_scenario_modifiers (operand_key p) = Inr (operand_key p, [])"
    using operand_key_plain [OF assms] by (simp add: parse_scenario_modifiers_def)
  then show ?thesis
    using ref by (auto simp: scenario_of_def registry_or_error_def registry_ref_def)
qed

lemma as_operand_sides: "as_operand ref = Some p \<Longrightarrow> variance_sides ref = None \<and> dependencies ref = [operand_id p]"
  by (cases ref) auto

text \<open>Both sides of a comparison are data scenarios whose ids are among its dependencies.\<close>

lemma side_resolves:
  assumes "plain_aliases reg" and "clean_registry reg" and "scenario_of reg key = Inr (sc, mods)" and "k \<in> sides_of sc"
  shows "\<exists>ref. scenario_of reg k = Inr (ref, []) \<and> variance_sides ref = None \<and> set (dependencies ref) \<subseteq> set (dependencies sc)"
proof -
  have "ref_from reg sc"
    using resolve_key_from cleanD(1) [OF assms(2)] scenario_of_resolves [OF assms(3)] by blast
  then obtain p where "operand_from reg p" "k = operand_key p" "operand_id p \<in> set (dependencies sc)"
    using assms(4) by (cases sc) (auto simp: sides_of_def)
  then show ?thesis
    using scenario_of_operand [OF assms(1,2)] as_operand_sides by fastforce
qed

declare collect_computed_deps.simps [simp del]

definition put_key :: "string \<Rightarrow> string list \<Rightarrow> string list" where
  "put_key k visited = (if k \<in> set visited then visited else k # visited)"

lemma set_put_key [simp]: "set (put_key k visited) = insert k (set visited)"
  by (auto simp: put_key_def)

lemma collect_data_key:
  "scenario_of reg k = Inr (ref, mods) \<Longrightarrow> variance_sides ref = None \<Longrightarrow>
     collect_computed_deps (Suc n) reg k visited = Inr (put_key k visited)"
  by (simp add: put_key_def collect_computed_deps.simps)

lemma collect_computed_deps_eq:
  assumes "plain_aliases reg" and "clean_registry reg" and "scenario_of reg key = Inr (sc, mods)"
    and "key \<notin> set visited"
  shows "collect_computed_deps 2 reg key visited =
     (case variance_sides sc of
        None \<Rightarrow> Inr (key # visited)
      | Some (l, r) \<Rightarrow> if mods \<noteq> [] then bad ''Scenario modifiers are not supported on computed scenarios'' [key]
                       else Inr (put_key r (put_key l (key # visited))))"
proof (cases "variance_sides sc")
  case None
  then show ?thesis using assms(3,4) by (simp add: numeral_2_eq_2 collect_computed_deps.simps)
next
  case (Some lr)
  obtain l r where lr: "lr = (l, r)" by (cases lr)
  have sides: "sides_of sc = {l, r}" using Some lr by (simp add: sides_of_def)
  have mem: "l \<in> sides_of sc" "r \<in> sides_of sc" unfolding sides by simp_all
  obtain lref where l: "scenario_of reg l = Inr (lref, [])" "variance_sides lref = None"
    using side_resolves [OF assms(1-3) mem(1)] by blast
  obtain rref where r: "scenario_of reg r = Inr (rref, [])" "variance_sides rref = None"
    using side_resolves [OF assms(1-3) mem(2)] by blast
  note data = collect_data_key [OF l] collect_data_key [OF r]
  show ?thesis
    unfolding numeral_2_eq_2 collect_computed_deps.simps(2) [of "Suc 0" reg key visited]
    using assms(3,4) Some lr data by simp
qed

lemma collect_step:
  assumes "plain_aliases reg" and "clean_registry reg" and "collect_computed_deps 2 reg key visited = Inr v"
  shows "set v = set visited \<and> key \<in> set visited
    \<or> (\<exists>sc mods. scenario_of reg key = Inr (sc, mods) \<and> set v = insert key (sides_of sc) \<union> set visited)"
proof (cases "key \<in> set visited")
  case True
  then show ?thesis using assms(3) by (simp add: numeral_2_eq_2 collect_computed_deps.simps)
next
  case False
  obtain sc mods where sc: "scenario_of reg key = Inr (sc, mods)"
    using assms(3) False by (auto simp: numeral_2_eq_2 collect_computed_deps.simps res_bind_eq_Inr)
  show ?thesis
    using collect_computed_deps_eq [OF assms(1,2) sc False] assms(3) sc
    by (auto simp: sides_of_def split: option.splits if_splits)
qed

text \<open>The expanded keys: the requested ones and the sides of the comparisons among them.\<close>

definition expands_to :: "registry \<Rightarrow> string list \<Rightarrow> string \<Rightarrow> bool" where
  "expands_to reg keys k \<longleftrightarrow> (\<exists>k0\<in>set keys. \<exists>sc mods. scenario_of reg k0 = Inr (sc, mods) \<and> (k = k0 \<or> k \<in> sides_of sc))"

lemma expanded_keys_correct:
  assumes reg: "plain_aliases reg" "clean_registry reg" and ex: "expanded_keys reg keys = Inr ex"
  shows "k \<in> set ex \<Longrightarrow> expands_to reg keys k"
    and "set keys \<subseteq> set ex"
    and "k \<in> set ex \<Longrightarrow> scenario_of reg k = Inr (sc, mods) \<Longrightarrow> sides_of sc \<subseteq> set ex"
proof -
  let ?P = "\<lambda>v. \<forall>k\<in>set v. expands_to reg keys k \<and> (\<forall>sc mods. scenario_of reg k = Inr (sc, mods) \<longrightarrow> sides_of sc \<subseteq> set v)"
  have "?P ex"
  proof (rule res_foldM_invariant [OF ex [unfolded expanded_keys_def]])
    fix v key v'
    assume key: "key \<in> set keys" and v: "?P v" and step: "collect_computed_deps 2 reg key v = Inr v'"
    from collect_step [OF reg step] show "?P v'"
    proof (elim disjE exE conjE)
      fix sc mods
      assume sc: "scenario_of reg key = Inr (sc, mods)" and v': "set v' = insert key (sides_of sc) \<union> set v"
      show "?P v'"
      proof
        fix k assume "k \<in> set v'"
        then consider "k = key" | "k \<in> sides_of sc" | "k \<in> set v" unfolding v' by blast
        then show "expands_to reg keys k \<and> (\<forall>sc mods. scenario_of reg k = Inr (sc, mods) \<longrightarrow> sides_of sc \<subseteq> set v')"
        proof cases
          case 1
          have "expands_to reg keys k" unfolding expands_to_def using key sc 1 by blast
          then show ?thesis using sc 1 unfolding v' by auto
        next
          case 2
          have "expands_to reg keys k" unfolding expands_to_def using key sc 2 by blast
          moreover obtain ref where "scenario_of reg k = Inr (ref, [])" "variance_sides ref = None"
            using side_resolves [OF reg sc 2] by blast
          ultimately show ?thesis by (simp add: sides_of_def)
        next
          case 3
          then show ?thesis using v unfolding v' by blast
        qed
      qed
    qed (use v in simp)
  qed simp
  then show "k \<in> set ex \<Longrightarrow> expands_to reg keys k"
    and "k \<in> set ex \<Longrightarrow> scenario_of reg k = Inr (sc, mods) \<Longrightarrow> sides_of sc \<subseteq> set ex" by blast+
  have "set xs \<subseteq> set t \<and> set s \<subseteq> set t"
    if "res_foldM (\<lambda>visited key. collect_computed_deps 2 reg key visited) s xs = Inr t" for s xs t
    using that
  proof (induction xs arbitrary: s)
    case (Cons x xs)
    then obtain u where u: "collect_computed_deps 2 reg x s = Inr u"
      "res_foldM (\<lambda>visited key. collect_computed_deps 2 reg key visited) u xs = Inr t"
      by (auto simp: res_bind_eq_Inr)
    then have "insert x (set s) \<subseteq> set u" using collect_step [OF reg u(1)] by auto
    then show ?case using Cons.IH [OF u(2)] by auto
  qed simp
  from this [OF ex [unfolded expanded_keys_def]] show "set keys \<subseteq> set ex" by simp
qed

section \<open>The queries of a plan\<close>

lemma dedup_queries_facts:
  "set (dedup_queries seen qs) \<subseteq> set qs"
  "q \<in> set qs \<Longrightarrow> query_identity q \<in> set seen \<union> query_identity ` set (dedup_queries seen qs)"
  "distinct (map query_identity (dedup_queries seen qs))
   \<and> set (map query_identity (dedup_queries seen qs)) \<inter> set seen = {}"
  by (induction seen qs rule: dedup_queries.induct) auto

lemma assign_query_identity [simp]:
  "query_identity (assign_query ks domain pcol ncol q) = query_identity q"
  "dq_scenario_id (assign_query ks domain pcol ncol q) = dq_scenario_id q"
  "dq_scenario_key (assign_query ks domain pcol ncol q) = dq_scenario_key q"
  "modifiers (assign_query ks domain pcol ncol q) = modifiers q"
  by (simp_all add: assign_query_def query_identity_def)

lemma build_query_facts:
  assumes "build_query cat reg ext dims_asked g ps pe key = Inr q"
  obtains sc mods where "scenario_of reg key = Inr (sc, mods)" "variance_sides sc = None"
    "set (dependencies sc) = {dq_scenario_id q}" "dq_scenario_key q = key" "modifiers q = mods"
proof -
  obtain sc mods where sc: "scenario_of reg key = Inr (sc, mods)"
    using assms by (auto simp: build_query_def res_bind_eq_Inr)
  with assms have "variance_sides sc = None \<and> set (dependencies sc) = {dq_scenario_id q}
      \<and> dq_scenario_key q = key \<and> modifiers q = mods"
    by (cases sc) (auto simp: build_query_def res_bind_eq_Inr base_query_def)
  then show ?thesis using that sc by blast
qed

lemma resolve_stages:
  assumes "resolve parse cat reg ext rq = Inr plan"
  obtains g expanded queries base_keys domain pcol ncol where
    "detect_grain (plan_period_start plan) = Some g"
    "expanded_keys reg (remdups (map rb_scenario_key (blocks plan))) = Inr expanded"
    "plan_queries cat reg ext (rq_dimensions rq) g (plan_period_start plan) (plan_period_end plan) expanded = Inr queries"
    "build_evals reg (filter (is_computed reg) (sorted_set expanded)) = Inr (computed_evals plan)"
    "data_queries plan = dedup_queries [] (map (assign_query base_keys domain pcol ncol) queries)"
proof -
  obtain bounds g bs expanded queries evals ks cols where st:
    "filter_grain_of (fst bounds) (snd bounds) = Inr g"
    "expanded_keys reg (remdups (map rb_scenario_key bs)) = Inr expanded"
    "plan_queries cat reg ext (rq_dimensions rq) g (fst bounds) (snd bounds) expanded = Inr queries"
    "build_evals reg (filter (is_computed reg) (sorted_set expanded)) = Inr evals"
    and plan: "Inr \<lparr>blocks = bs,
            data_queries = dedup_queries [] (map (assign_query (fst (snd ks)) (infer_domain (metrics cat) (fst (snd ks)))
              (fst cols) (snd cols)) queries),
            computed_evals = evals, plan_dimensions = rq_dimensions rq,
            plan_period_start = fst bounds, plan_period_end = snd bounds,
            all_metric_keys = fst ks, all_base_metric_keys = fst (snd ks), all_derived_metric_keys = snd (snd ks),
            plan_grains = grain_spec_of (rq_grains rq)\<rparr> = (Inr plan :: (resolver_error, execution_plan) res)"
    using assms unfolding resolve_def res_bind_eq_Inr Let_def split_def by (elim exE conjE)
  from st(1) have "detect_grain (fst bounds) = Some g"
    by (auto simp: filter_grain_of_def split: option.splits if_splits)
  with st(2-4) show ?thesis using plan by (intro that) auto
qed

text \<open>Examples: a month report of a comparison, and a year report of both prior-time scenarios.\<close>

definition month_period :: dimension where
  "month_period = (example_dim ''period'' None [(''fiscal_year'', \<lparr>pr_source_column = ''fiscal_year''\<rparr>)])
     \<lparr>dim_grain := Some MONTH\<rparr>"

definition year_dimension :: dimension where
  "year_dimension = (example_dim ''fiscal_year'' None [])\<lparr>dim_grain := Some YEAR\<rparr>"

definition calendar_catalogue :: catalogue where
  "calendar_catalogue = example_catalogue
     \<lparr>dimensions := [(''period'', month_period), (''fiscal_year'', year_dimension)]\<rparr>"

definition example_request :: "string \<Rightarrow> string \<Rightarrow> string list \<Rightarrow> request" where
  "example_request ps pe names =
     \<lparr>rq_context = Some [(''period_start'', ps), (''period_end'', pe)], rq_filters = None,
      rq_blocks = Some (map (\<lambda>s. [(''model'', ''metric:margin''), (''scenario'', s)]) names),
      rq_dimensions = [], rq_strict_dimensions = True, rq_grains = None\<rparr>"

definition example_plan :: "string \<Rightarrow> string \<Rightarrow> string list \<Rightarrow> (resolver_error, execution_plan) res" where
  "example_plan ps pe names =
     resolve example_parse calendar_catalogue example_registry (\<lambda>_. []) (example_request ps pe names)"

lemma example_registry_plain: "plain_aliases example_registry"
  by (simp add: plain_aliases_def example_registry_def)

theorem metric_plan_correct_witness:
  "resolve_metric_dependencies example_parse (metrics example_catalogue) [''ratio'']
     = Inr ([''cost'', ''revenue'', ''margin'', ''ratio''], [''cost'', ''revenue''], [''margin'', ''ratio''])
   \<and> closure_of (formula_refs example_parse (metrics example_catalogue)) {''ratio''}
       [''cost'', ''revenue'', ''margin'', ''ratio'']"
proof -
  have run: "resolve_metric_dependencies example_parse (metrics example_catalogue) [''ratio'']
     = Inr ([''cost'', ''revenue'', ''margin'', ''ratio''], [''cost'', ''revenue''], [''margin'', ''ratio''])"
    by code_simp
  have "wf_dict (metrics example_catalogue)" "set [''ratio''] \<subseteq> set (dkeys (metrics example_catalogue))"
    by (simp_all add: example_catalogue_def)
  from metric_plan_correct [OF example_valid this] show ?thesis by (auto simp: run)
qed

text \<open>The block a query of a plan is read for, and where its id and modifiers come from.\<close>

lemma plan_query_origin:
  assumes "plain_aliases reg" and "clean_registry reg"
    and plan: "resolve parse cat reg ext rq = Inr plan" and q: "q \<in> set (data_queries plan)"
  obtains b sc mods where "b \<in> set (blocks plan)" "scenario_of reg (rb_scenario_key b) = Inr (sc, mods)"
    "dq_scenario_id q \<in> set (dependencies sc)" "modifiers q = mods \<or> modifiers q = []"
proof -
  from plan obtain g ex qs ks dom pcol ncol where st:
    "expanded_keys reg (remdups (map rb_scenario_key (blocks plan))) = Inr ex"
    "plan_queries cat reg ext (rq_dimensions rq) g (plan_period_start plan) (plan_period_end plan) ex = Inr qs"
    "data_queries plan = dedup_queries [] (map (assign_query ks dom pcol ncol) qs)"
    by (elim resolve_stages)
  have "q \<in> set (map (assign_query ks dom pcol ncol) qs)"
    using q dedup_queries_facts(1) unfolding st(3) by blast
  then obtain q0 where q0: "q0 \<in> set qs" "dq_scenario_id q = dq_scenario_id q0" "modifiers q = modifiers q0" by auto
  obtain key where key: "key \<in> set ex"
    and built: "build_query cat reg ext (rq_dimensions rq) g (plan_period_start plan) (plan_period_end plan) key = Inr q0"
    using res_mapM_set [OF st(2) [unfolded plan_queries_def] q0(1)] by auto
  from built obtain sc mods where sc: "scenario_of reg key = Inr (sc, mods)" "set (dependencies sc) = {dq_scenario_id q0}"
      "modifiers q0 = mods"
    by (elim build_query_facts)
  obtain k0 sc0 mods0 where k0: "k0 \<in> set (map rb_scenario_key (blocks plan))"
      "scenario_of reg k0 = Inr (sc0, mods0)" "key = k0 \<or> key \<in> sides_of sc0"
    using expanded_keys_correct(1) [OF assms(1,2) st(1) key] unfolding expands_to_def set_remdups by blast
  have "set (dependencies sc) \<subseteq> set (dependencies sc0) \<and> (mods = mods0 \<or> mods = [])"
    using k0(2,3) sc(1) side_resolves [OF assms(1,2) k0(2), of key] by auto
  then have "dq_scenario_id q \<in> set (dependencies sc0)" "modifiers q = mods0 \<or> modifiers q = []"
    using sc(2,3) q0(2,3) by auto
  then show ?thesis using that k0(1,2) by auto
qed

text \<open>
  Only permitted data. Every query of an execution plan reads a scenario id that the registry
  lists among the dependencies of the scenario of one of the requested blocks (with its modifiers
  stripped): the ids the permission gate derives from the request bound what the engine reads.
\<close>

theorem plan_reads_requested_scenarios:
  assumes "plain_aliases reg" and "clean_registry reg"
    and "resolve parse cat reg ext rq = Inr plan" and "q \<in> set (data_queries plan)"
  shows "\<exists>b\<in>set (blocks plan). \<exists>ds. expand_dependencies reg (strip_scenario_modifiers (rb_scenario_key b)) = Inr ds
           \<and> dq_scenario_id q \<in> set ds"
proof -
  obtain b sc mods where "b \<in> set (blocks plan)" "scenario_of reg (rb_scenario_key b) = Inr (sc, mods)"
      "dq_scenario_id q \<in> set (dependencies sc)"
    using assms by (rule plan_query_origin)
  then show ?thesis
    by (intro bexI [of _ b] exI [of _ "dependencies sc"]) (simp_all add: expand_dependencies_def scenario_of_resolves)
qed

lemma unique_image: "x \<in> f ` A \<Longrightarrow> inj_on f A \<Longrightarrow> \<exists>!y. y \<in> A \<and> f y = x"
  by (auto dest: inj_onD)


lemma resolve_run:
  assumes "period_bounds rq = Inr (ps, pe)" and "filter_grain_of ps pe = Inr g"
    and "resolve_blocks cat reg rq = Inr bs"
    and "remdups (map rb_scenario_key bs) = names" and "expanded_keys reg names = Inr ex"
    and "plan_queries cat reg ext [] g ps pe ex = Inr qs"
    and "build_evals reg (filter (is_computed reg) (sorted_set ex)) = Inr evs"
    and "remdups (concat (map rb_metric_keys bs)) = mks"
    and "resolve_metric_dependencies parse (metrics cat) mks = Inr (ks, base, derived)"
    and "infer_domain (metrics cat) base = domain"
    and "plan_columns cat domain g = Inr (pcol, ncol)" and "rq_dimensions rq = []"
    and "dedup_queries [] (map (assign_query base domain pcol ncol) qs) = dqs" and "grain_spec_of (rq_grains rq) = gs"
  shows "resolve parse cat reg ext rq = Inr \<lparr>blocks = bs, data_queries = dqs,
      computed_evals = evs, plan_dimensions = [], plan_period_start = ps, plan_period_end = pe,
      all_metric_keys = ks, all_base_metric_keys = base, all_derived_metric_keys = derived, plan_grains = gs\<rparr>"
  using assms by (simp add: resolve_def Let_def check_dimensions_def split: option.splits)

definition example_block :: "string \<Rightarrow> bool \<Rightarrow> resolved_block" where
  "example_block key computed =
     \<lparr>rb_alias = key, rb_scenario_key = key, rb_metric_keys = [''margin''], display_items = [''margin''],
      is_statement = False, display_format = [], color_code = computed\<rparr>"

definition example_query :: "string \<Rightarrow> string \<Rightarrow> string \<Rightarrow> string \<Rightarrow> int \<Rightarrow> data_query" where
  "example_query key sid ps pe months = (base_query key sid ps pe [] [])\<lparr>time_offset := months\<rparr>"

definition example_result :: "string \<Rightarrow> string \<Rightarrow> resolved_block list \<Rightarrow> data_query list \<Rightarrow> computed_eval list \<Rightarrow> string
    \<Rightarrow> execution_plan" where
  "example_result ps pe bs qs evs pcol =
     \<lparr>blocks = bs, data_queries = map (assign_query [''cost'', ''revenue''] ''pnl'' pcol ''period'') qs,
      computed_evals = evs, plan_dimensions = [], plan_period_start = ps, plan_period_end = pe,
      all_metric_keys = [''cost'', ''revenue'', ''margin''], all_base_metric_keys = [''cost'', ''revenue''],
      all_derived_metric_keys = [''margin''], plan_grains = \<lparr>detail = True, subtotals = False, grand_total = False\<rparr>\<rparr>"

definition budget_comparison :: computed_eval where
  "budget_comparison = \<lparr>ce_scenario_key = ''actuals_vs_budget'', ce_formula = ''actuals - budget'',
     ce_dependencies = [''actuals'', ''budget'']\<rparr>"

lemma example_metrics:
  "resolve_metric_dependencies example_parse (metrics calendar_catalogue) [''margin'']
     = Inr ([''cost'', ''revenue'', ''margin''], [''cost'', ''revenue''], [''margin''])"
  by code_simp

lemma example_domain: "infer_domain (metrics calendar_catalogue) [''cost'', ''revenue''] = ''pnl''"
  by code_simp

lemma month_plan:
  "example_plan ''2025-01'' ''2025-03'' [''ACT'', ''actuals_vs_budget''] = Inr (example_result ''2025-01'' ''2025-03''
     [example_block ''ACT'' False, example_block ''actuals_vs_budget'' True]
     [example_query ''ACT'' ''ACT'' ''2025-01'' ''2025-03'' 0, example_query ''budget'' ''B26'' ''2025-01'' ''2025-03'' 0]
     [budget_comparison] ''period'')"
proof -
  let ?rq = "example_request ''2025-01'' ''2025-03'' [''ACT'', ''actuals_vs_budget'']"
  let ?bs = "[example_block ''ACT'' False, example_block ''actuals_vs_budget'' True]"
  let ?ex = "[''budget'', ''actuals'', ''actuals_vs_budget'', ''ACT'']"
  let ?qs = "[example_query ''ACT'' ''ACT'' ''2025-01'' ''2025-03'' 0,
     example_query ''actuals'' ''ACT'' ''2025-01'' ''2025-03'' 0, example_query ''budget'' ''B26'' ''2025-01'' ''2025-03'' 0]"
  have "period_bounds ?rq = Inr (''2025-01'', ''2025-03'')" "filter_grain_of ''2025-01'' ''2025-03'' = Inr MONTH"
    "resolve_blocks calendar_catalogue example_registry ?rq = Inr ?bs"
    "remdups (map rb_scenario_key ?bs) = [''ACT'', ''actuals_vs_budget'']" "expanded_keys example_registry [''ACT'', ''actuals_vs_budget''] = Inr ?ex"
    "plan_queries calendar_catalogue example_registry (\<lambda>_. []) [] MONTH ''2025-01'' ''2025-03'' ?ex = Inr ?qs"
    "build_evals example_registry (filter (is_computed example_registry) (sorted_set ?ex)) = Inr [budget_comparison]"
    "remdups (concat (map rb_metric_keys ?bs)) = [''margin'']"
    by code_simp+
  moreover have "plan_columns calendar_catalogue ''pnl'' MONTH = Inr (''period'', ''period'')" "rq_dimensions ?rq = []"
    "dedup_queries [] (map (assign_query [''cost'', ''revenue''] ''pnl'' ''period'' ''period'') ?qs)
      = map (assign_query [''cost'', ''revenue''] ''pnl'' ''period'' ''period'') [example_query ''ACT'' ''ACT'' ''2025-01'' ''2025-03'' 0,
          example_query ''budget'' ''B26'' ''2025-01'' ''2025-03'' 0]"
    "grain_spec_of (rq_grains ?rq) = \<lparr>detail = True, subtotals = False, grand_total = False\<rparr>"
    by code_simp+
  ultimately show ?thesis
    unfolding example_plan_def example_result_def using example_metrics example_domain by (intro resolve_run)
qed

lemma build_shifted:
  assumes "scenario_of reg key = Inr (Shifted sh, [])" and "shifted_window cat g (sh_op sh) ps pe = Inr (s, e, months, [], [])"
    and "scenario_id (sh_base sh) = sid"
  shows "build_query cat reg (\<lambda>_. []) [] g ps pe key = Inr (example_query key sid s e months)"
  using assms by (simp add: build_query_def check_breakdown_def example_query_def base_query_def)

lemma year_query:
  assumes "key = ''actuals_py'' \<and> y = ''_py'' \<and> off = (- 12 :: int) \<and> lab = ''PY'' \<and> op = YearShift
    \<or> key = ''actuals_pp'' \<and> y = ''_pp'' \<and> off = - 1 \<and> lab = ''PP'' \<and> op = PeriodStep"
  shows "build_query calendar_catalogue example_registry (\<lambda>_. []) [] YEAR ''2025'' ''2025'' key
    = Inr (example_query key ''ACT'' ''2024'' ''2024'' (- 12))"
proof (rule build_shifted)
  let ?sh = "make_shifted (example_real ''ACT'' ''actuals'') y off lab op"
  have "scenario_of example_registry ''actuals_py''
      = Inr (Shifted (make_shifted (example_real ''ACT'' ''actuals'') ''_py'' (- 12) ''PY'' YearShift), [])"
    "scenario_of example_registry ''actuals_pp''
      = Inr (Shifted (make_shifted (example_real ''ACT'' ''actuals'') ''_pp'' (- 1) ''PP'' PeriodStep), [])"
    by code_simp+
  then show "scenario_of example_registry key = Inr (Shifted ?sh, [])" using assms by auto
  have "shift_year ''2025'' (- 1) = Inr ''2024''" "step_period ''2025'' YEAR (- 1) = Inr ''2024''" by code_simp+
  then have "shifted_window calendar_catalogue YEAR YearShift ''2025'' ''2025'' = Inr (''2024'', ''2024'', - 12, [], [])"
    "shifted_window calendar_catalogue YEAR PeriodStep ''2025'' ''2025'' = Inr (''2024'', ''2024'', - 12, [], [])"
    by (simp_all add: shifted_window_def)
  then show "shifted_window calendar_catalogue YEAR (sh_op ?sh) ''2025'' ''2025'' = Inr (''2024'', ''2024'', - 12, [], [])"
    using assms by (auto simp: make_shifted_def)
  show "scenario_id (sh_base ?sh) = ''ACT''" by (simp add: make_shifted_def example_real_def)
qed

lemma year_plan:
  "example_plan ''2025'' ''2025'' [''actuals_py'', ''actuals_pp''] = Inr (example_result ''2025'' ''2025''
     [example_block ''actuals_py'' False, example_block ''actuals_pp'' False]
     [example_query ''actuals_pp'' ''ACT'' ''2024'' ''2024'' (- 12)] [] ''fiscal_year'')"
proof -
  let ?rq = "example_request ''2025'' ''2025'' [''actuals_py'', ''actuals_pp'']"
  let ?bs = "[example_block ''actuals_py'' False, example_block ''actuals_pp'' False]"
  let ?ex = "[''actuals_pp'', ''actuals_py'']"
  let ?qs = "[example_query ''actuals_pp'' ''ACT'' ''2024'' ''2024'' (- 12),
     example_query ''actuals_py'' ''ACT'' ''2024'' ''2024'' (- 12)]"
  have "period_bounds ?rq = Inr (''2025'', ''2025'')" "filter_grain_of ''2025'' ''2025'' = Inr YEAR"
    "resolve_blocks calendar_catalogue example_registry ?rq = Inr ?bs"
    "remdups (map rb_scenario_key ?bs) = [''actuals_py'', ''actuals_pp'']" "expanded_keys example_registry [''actuals_py'', ''actuals_pp''] = Inr ?ex"
    "build_evals example_registry (filter (is_computed example_registry) (sorted_set ?ex)) = Inr []"
    "remdups (concat (map rb_metric_keys ?bs)) = [''margin'']"
    by code_simp+
  moreover have "filter (\<lambda>k. \<not> is_computed example_registry k) (sorted_set ?ex) = ?ex" by code_simp
  then have "plan_queries calendar_catalogue example_registry (\<lambda>_. []) [] YEAR ''2025'' ''2025'' ?ex = Inr ?qs"
    using year_query [of "''actuals_py''" "''_py''" "- 12" "''PY''" YearShift]
      year_query [of "''actuals_pp''" "''_pp''" "- 1" "''PP''" PeriodStep] by (simp add: plan_queries_def)
  moreover have "plan_columns calendar_catalogue ''pnl'' YEAR = Inr (''fiscal_year'', ''period'')" "rq_dimensions ?rq = []"
    "dedup_queries [] (map (assign_query [''cost'', ''revenue''] ''pnl'' ''fiscal_year'' ''period'') ?qs)
      = map (assign_query [''cost'', ''revenue''] ''pnl'' ''fiscal_year'' ''period'') [example_query ''actuals_pp'' ''ACT'' ''2024'' ''2024'' (- 12)]"
    "grain_spec_of (rq_grains ?rq) = \<lparr>detail = True, subtotals = False, grand_total = False\<rparr>"
    by code_simp+
  ultimately show ?thesis
    unfolding example_plan_def example_result_def using example_metrics example_domain by (intro resolve_run)
qed


theorem plan_reads_requested_scenarios_witness:
  "dq_scenario_id (example_query ''budget'' ''B26'' ''2025-01'' ''2025-03'' 0) \<in> {''ACT'', ''B26''}"
proof -
  let ?q = "assign_query [''cost'', ''revenue''] ''pnl'' ''period'' ''period'' (example_query ''budget'' ''B26'' ''2025-01'' ''2025-03'' 0)"
  have deps: "expand_dependencies example_registry (strip_scenario_modifiers ''actuals_vs_budget'') = Inr [''ACT'', ''B26'']"
    "expand_dependencies example_registry (strip_scenario_modifiers ''ACT'') = Inr [''ACT'']"
    by code_simp+
  from plan_reads_requested_scenarios [OF example_registry_plain example_registry_clean
      month_plan [unfolded example_plan_def], of ?q]
  have "dq_scenario_id ?q \<in> {''ACT'', ''B26''}"
    using deps by (auto simp: example_result_def example_block_def)
  then show ?thesis by simp
qed

text \<open>
  A merged query loses a formula variable. A report that shows the actuals by their scenario id
  and compares them with the budget in a second column: both keys denote the same query, only the
  first is kept, and its rows stand under the id. The comparison's formula names the alias, so the
  transformation of any complete answer raises \<open>Unknown variable\<close> and the report fails.
\<close>

theorem merged_query_breaks_comparison:
  "\<exists>plan. example_plan ''2025-01'' ''2025-03'' [''ACT'', ''actuals_vs_budget''] = Inr plan
     \<and> map dq_scenario_key (data_queries plan) = [''ACT'', ''budget'']
     \<and> map ce_formula (computed_evals plan) = [''actuals - budget'']
     \<and> transform rat_arith variance_parse (metrics calendar_catalogue)
          (map (\<lambda>ev. \<lparr>ev_key = ce_scenario_key ev, ev_formula = ce_formula ev\<rparr>) (computed_evals plan))
          (all_base_metric_keys plan)
          (map (\<lambda>q. (dq_scenario_key q, [([], map (\<lambda>k. (k, Some 1)) (dq_metric_keys q))])) (data_queries plan))
        = Inl (UnknownVariable ''actuals'')"
proof -
  have "transform rat_arith variance_parse (metrics calendar_catalogue)
      [\<lparr>ev_key = ''actuals_vs_budget'', ev_formula = ''actuals - budget''\<rparr>] [''cost'', ''revenue'']
      [(''ACT'', [([], [(''cost'', Some 1), (''revenue'', Some 1)])]), (''budget'', [([], [(''cost'', Some 1), (''revenue'', Some 1)])])]
    = Inl (UnknownVariable ''actuals'')"
    by code_simp
  then show ?thesis
    by (simp add: month_plan example_result_def budget_comparison_def example_query_def base_query_def assign_query_def)
qed

text \<open>
  At the year grain the prior-year and the prior-period scenario of the same base have the same
  window, so a report of both keeps one query only; the other column has no data of its own.
\<close>

theorem year_report_merges_prior_scenarios:
  "\<exists>plan. example_plan ''2025'' ''2025'' [''actuals_py'', ''actuals_pp''] = Inr plan
     \<and> map rb_scenario_key (blocks plan) = [''actuals_py'', ''actuals_pp'']
     \<and> map dq_scenario_key (data_queries plan) = [''actuals_pp'']"
  by (simp add: year_plan example_result_def example_block_def example_query_def base_query_def assign_query_def)

end
