(* ===== verification/ScopeFilters.thy ===== *)
theory ScopeFilters
  imports Permissions Catalogue Periods
begin

text \<open>
  Dimension filters and security scope: \<open>engine/filter_resolver.py\<close> turns filter values into member
  ids of leaf dimensions, \<open>engine/scope_enforcer.py\<close> does the same for the allow and deny lists of a
  profile and confines a query to them, \<open>scope_resolver.py\<close> resolves scenario locks.

  The analytical database is a parameter: a table is the list of its rows, a row gives the text of
  each column. The queries of these files (\<open>SELECT DISTINCT\<close> one column under one equality, or over
  a range) are interpreted on it; a failing database call is outside the model.
\<close>

type_synonym warehouse = "string \<Rightarrow> (string \<Rightarrow> string) list"

datatype filter_error =
    UnknownFilterKey string
  | NoResolutionStrategy string
  | NoTransitiveResolution string
  | NoLeafDimension string
  | ZeroRecords string string
  | UnresolvedScopeDimension string
  | InlineScopeDimension "string list"
  | DomainDenied string
  | ScopesDiffer "(string, string list) dict"
  | NoScenarios
  | BadPeriod period_error

definition select_where :: "warehouse \<Rightarrow> string \<Rightarrow> string \<Rightarrow> string \<Rightarrow> string \<Rightarrow> string list" where
  "select_where wh table col wcol v = map (\<lambda>r. r col) (filter (\<lambda>r. r wcol = v) (wh table))"

section \<open>Filters\<close>

datatype resolution_type = RLeaf | RDerived | RRagged

(* engine/filter_resolver.py:45-72 _find_filter_target *)
definition find_filter_target :: "dims \<Rightarrow> string \<Rightarrow> (filter_error, dimension \<times> resolution_type) res" where
  "find_filter_target ds key =
     (case dget ds key of
        None \<Rightarrow> Inl (UnknownFilterKey key)
      | Some d \<Rightarrow> if is_leaf d then Inr (d, RLeaf) else if is_derived d then Inr (d, RDerived)
                  else if is_ragged d then Inr (d, RRagged) else Inl (NoResolutionStrategy key))"

(* engine/filter_resolver.py:79-97 _resolve_leaf_filter *)
definition resolve_leaf_filter :: "warehouse \<Rightarrow> dimension \<Rightarrow> string \<Rightarrow> (filter_error, string list) res" where
  "resolve_leaf_filter wh d v = Inr (take 1 (select_where wh (source_table d) (key_column d) (key_column d) v))"

(* engine/filter_resolver.py:100-127 _resolve_derived_filter *)
definition resolve_derived_filter :: "warehouse \<Rightarrow> dimension \<Rightarrow> string \<Rightarrow> (filter_error, string list) res" where
  "resolve_derived_filter wh d v =
     (case transitive d of
        [] \<Rightarrow> Inl (NoTransitiveResolution (dim_key d))
      | (_, r) # _ \<Rightarrow> Inr (remdups (select_where wh (tr_source_table r) (leaf_key_column r) (filter_column r) v)))"

(* engine/filter_resolver.py:130-162 _resolve_ragged_filter *)
definition resolve_ragged_filter :: "warehouse \<Rightarrow> dimension \<Rightarrow> string \<Rightarrow> (filter_error, string list) res" where
  "resolve_ragged_filter wh d v =
     (if dim_leaf_dimension d = [] then Inl (NoLeafDimension (dim_key d))
      else case dget (transitive d) (dim_leaf_dimension d) of
             None \<Rightarrow> Inl (NoTransitiveResolution (dim_key d))
           | Some r \<Rightarrow> Inr (select_where wh (''semantic.dim_'' @ dim_leaf_dimension d @ ''_'' @ dim_key d @ ''_rollup'')
                              (leaf_key_column r) ''node_id'' v))"

text \<open>The leaf dimension a target resolves to, and the resolution of one value.\<close>

fun target_leaf :: "dimension \<times> resolution_type \<Rightarrow> string" where
  "target_leaf (d, RLeaf) = dim_key d"
| "target_leaf (d, RDerived) = (case transitive d of [] \<Rightarrow> [] | (_, r) # _ \<Rightarrow> tr_leaf_dimension r)"
| "target_leaf (d, RRagged) = dim_leaf_dimension d"

fun resolve_target :: "warehouse \<Rightarrow> dimension \<times> resolution_type \<Rightarrow> string \<Rightarrow> (filter_error, string list) res" where
  "resolve_target wh (d, RLeaf) v = resolve_leaf_filter wh d v"
| "resolve_target wh (d, RDerived) v = resolve_derived_filter wh d v"
| "resolve_target wh (d, RRagged) v = resolve_ragged_filter wh d v"

(* engine/filter_resolver.py:182-192 _map_to_view_column *)
definition lookup_key :: "dimension \<Rightarrow> string" where
  "lookup_key d =
     (if is_leaf d then dim_key d
      else if is_derived d \<or> is_ragged d then
        (case transitive d of (_, r) # _ \<Rightarrow> tr_leaf_dimension r
         | [] \<Rightarrow> if is_ragged d then dim_leaf_dimension d else dim_key d)
      else dim_key d)"

(* engine/filter_resolver.py:169-204 _map_to_view_column *)
definition map_to_view_column :: "catalogue \<Rightarrow> string \<Rightarrow> dimension \<Rightarrow> string" where
  "map_to_view_column cat domain d =
     (let key = lookup_key d;
          fallback = (case dget (dimensions cat) key of
              Some leaf \<Rightarrow> (case dim_source leaf of Some s \<Rightarrow> ds_key_column s | None \<Rightarrow> key)
            | None \<Rightarrow> key)
      in case dget (domains cat) domain of
           None \<Rightarrow> fallback
         | Some dc \<Rightarrow> (case List.find (\<lambda>cd. cd_key cd = key) (dc_dimensions dc) of
                         Some cd \<Rightarrow> cd_source cd | None \<Rightarrow> fallback))"

(* engine/filter_resolver.py:211-251 resolve_single_value *)
definition resolve_single_value :: "catalogue \<Rightarrow> warehouse \<Rightarrow> string \<Rightarrow> string \<Rightarrow> (filter_error, string \<times> string list) res" where
  "resolve_single_value cat wh key v =
     res_bind (find_filter_target (dimensions cat) key) (\<lambda>t.
     res_bind (resolve_target wh t v) (\<lambda>leaves.
       if leaves = [] then Inl (ZeroRecords key v) else Inr (target_leaf t, leaves)))"

text \<open>The leaf sets of a request: per leaf dimension the dimension first used and the sets so far.\<close>

type_synonym leaf_sets = "(string, dimension \<times> string list list) dict"

(* engine/filter_resolver.py:289-327 resolve_filters *)
definition add_filter :: "catalogue \<Rightarrow> warehouse \<Rightarrow> leaf_sets \<Rightarrow> string \<times> string \<Rightarrow> (filter_error, leaf_sets) res" where
  "add_filter cat wh acc = (\<lambda>(key, v).
     res_bind (find_filter_target (dimensions cat) key) (\<lambda>t.
     res_bind (resolve_target wh t v) (\<lambda>leaves.
       if leaves = [] then Inl (ZeroRecords key v)
       else let leaf = target_leaf t in
            Inr (dset leaf (case dget acc leaf of
                              None \<Rightarrow> (fst t, [leaves])
                            | Some (d, sets) \<Rightarrow> (d, sets @ [leaves])) acc))))"

fun intersect_all :: "'a list list \<Rightarrow> 'a list" where
  "intersect_all [] = []"
| "intersect_all (s # sets) = fold (\<lambda>t acc. filter (\<lambda>x. x \<in> set t) acc) sets s"

(* engine/filter_resolver.py:254-343 resolve_filters *)
definition resolve_filters ::
  "catalogue \<Rightarrow> warehouse \<Rightarrow> string \<Rightarrow> (string, string) dict \<Rightarrow> (filter_error, (string, string list) dict) res" where
  "resolve_filters cat wh domain filters =
     (if filters = [] then Inr []
      else res_map (\<lambda>leaf_sets. fold (\<lambda>(_, d, sets).
               dset (map_to_view_column cat domain d) (sorted_set (intersect_all sets))) leaf_sets [])
             (res_foldM (add_filter cat wh) [] filters))"

section \<open>Scope\<close>

(* engine/scope_enforcer.py:56-75 check_domain_access *)
definition check_domain_access :: "scope_spec option \<Rightarrow> string \<Rightarrow> (filter_error, unit) res" where
  "check_domain_access scope domain =
     (case scope of
        None \<Rightarrow> Inr ()
      | Some sp \<Rightarrow> (case sc_domains sp of
          None \<Rightarrow> Inr ()
        | Some doms \<Rightarrow>
            if (case doms_deny doms of None \<Rightarrow> False | Some deny \<Rightarrow> domain \<in> set deny) then Inl (DomainDenied domain)
            else (case doms_allow doms of
                    None \<Rightarrow> Inr ()
                  | Some allow \<Rightarrow> if domain \<in> set allow then Inr () else Inl (DomainDenied domain))))"

(* engine/scope_enforcer.py:81-91 _all_leaf_ids *)
definition all_leaf_ids :: "catalogue \<Rightarrow> warehouse \<Rightarrow> string \<Rightarrow> string list" where
  "all_leaf_ids cat wh key =
     (case dget (dimensions cat) key of
        None \<Rightarrow> []
      | Some d \<Rightarrow> (case dim_source d of
          None \<Rightarrow> []
        | Some s \<Rightarrow> remdups (map (\<lambda>r. r (ds_key_column s)) (wh (ds_table s)))))"

text \<open>The members of one axis: the union over its values.\<close>

(* engine/scope_enforcer.py:110-136 _resolve_scope_members *)
definition axis_members :: "catalogue \<Rightarrow> warehouse \<Rightarrow> string \<times> string list \<Rightarrow> (filter_error, string \<times> string list) res" where
  "axis_members cat wh = (\<lambda>(key, vs).
     res_bind (find_filter_target (dimensions cat) key) (\<lambda>t.
       if snd t = RDerived \<and> transitive (fst t) = [] then Inl (UnresolvedScopeDimension key)
       else res_map (\<lambda>leaves. (target_leaf t, remdups (concat leaves))) (res_mapM (resolve_target wh t) vs)))"

(* engine/scope_enforcer.py:138-144 _resolve_scope_members *)
definition merge_axis :: "bool \<Rightarrow> (string, string list) dict \<Rightarrow> string \<times> string list \<Rightarrow> (string, string list) dict" where
  "merge_axis intersect_axes acc = (\<lambda>(leaf, ids).
     case dget acc leaf of
       None \<Rightarrow> dset leaf ids acc
     | Some held \<Rightarrow> dset leaf (if intersect_axes then filter (\<lambda>x. x \<in> set ids) held else remdups (held @ ids)) acc)"

(* engine/scope_enforcer.py:94-146 _resolve_scope_members *)
definition resolve_scope_members ::
  "catalogue \<Rightarrow> warehouse \<Rightarrow> bool \<Rightarrow> (string, string list) dict \<Rightarrow> (filter_error, (string, string list) dict) res" where
  "resolve_scope_members cat wh intersect_axes members =
     res_foldM (\<lambda>acc axis. res_map (merge_axis intersect_axes acc) (axis_members cat wh axis)) [] members"

(* engine/scope_enforcer.py:149-179 _reject_inline_dimension_scope *)
definition reject_inline_dimension_scope ::
  "scope_spec option \<Rightarrow> catalogue \<Rightarrow> string \<Rightarrow> (filter_error, unit) res" where
  "reject_inline_dimension_scope scope cat domain =
     (case (case scope of None \<Rightarrow> None | Some sp \<Rightarrow> sc_dimensions sp, dget (domains cat) domain) of
        (Some dims, Some dc) \<Rightarrow>
          let inline_keys = map cd_key (filter (\<lambda>cd. source_inline cd \<and> \<not> filterable cd) (dc_dimensions dc));
              keys_of = (\<lambda>side. case side of None \<Rightarrow> [] | Some d \<Rightarrow> dkeys d);
              blocked = sorted_inter (keys_of (dims_allow dims) @ keys_of (dims_deny dims)) inline_keys
          in if blocked = [] then Inr () else Inl (InlineScopeDimension blocked)
      | _ \<Rightarrow> Inr ())"

text \<open>A clause that is absent or empty restricts nothing.\<close>

definition clause :: "(string, string list) dict option \<Rightarrow> (string, string list) dict" where
  "clause side = (case side of None \<Rightarrow> [] | Some d \<Rightarrow> d)"

text \<open>
  Python enumerates the union of the two key sets in no fixed order; each key's set is computed from
  its own entries only, so the order matters only when two leaf dimensions share a view column.
\<close>

(* engine/scope_enforcer.py:470-505 resolve_scope_leaf_sets *)
definition resolve_scope_leaf_sets ::
  "scope_spec option \<Rightarrow> catalogue \<Rightarrow> warehouse \<Rightarrow> (filter_error, (string, string list) dict option) res" where
  "resolve_scope_leaf_sets scope cat wh =
     (case (case scope of None \<Rightarrow> None | Some sp \<Rightarrow> sc_dimensions sp) of
        None \<Rightarrow> Inr None
      | Some dims \<Rightarrow>
          if clause (dims_allow dims) = [] \<and> clause (dims_deny dims) = [] then Inr None
          else res_bind (resolve_scope_members cat wh True (clause (dims_allow dims))) (\<lambda>allow.
               res_bind (resolve_scope_members cat wh False (clause (dims_deny dims))) (\<lambda>deny.
                 Inr (Some (dict_of (\<lambda>leaf.
                   filter (\<lambda>x. x \<notin> set (dget_or [] deny leaf))
                     (case dget allow leaf of Some ids \<Rightarrow> ids | None \<Rightarrow> all_leaf_ids cat wh leaf))
                   (dkeys allow @ dkeys deny))))))"

(* engine/scope_enforcer.py:249-308 resolve_scope_filters *)
definition resolve_scope_filters ::
  "scope_spec option \<Rightarrow> catalogue \<Rightarrow> warehouse \<Rightarrow> string \<Rightarrow> (filter_error, (string, string list) dict) res" where
  "resolve_scope_filters scope cat wh domain =
     res_bind (reject_inline_dimension_scope scope cat domain) (\<lambda>_.
     res_map (\<lambda>leaf_sets. case leaf_sets of
         None \<Rightarrow> []
       | Some sets \<Rightarrow> fold (\<lambda>(leaf, ids) acc.
           case dget (dimensions cat) leaf of
             None \<Rightarrow> acc
           | Some d \<Rightarrow> dset (map_to_view_column cat domain d) (sorted_set ids) acc) sets [])
       (resolve_scope_leaf_sets scope cat wh))"

(* engine/scope_enforcer.py:316-345 merge_dimension_filters *)
definition merge_dimension_filters ::
  "(string, string list) dict option \<Rightarrow> (string, string list) dict \<Rightarrow> (string, string list) dict option" where
  "merge_dimension_filters user_filters scope_filters =
     (if scope_filters = [] then user_filters
      else case user_filters of
             None \<Rightarrow> Some scope_filters
           | Some user \<Rightarrow>
               let merged = fold (\<lambda>(col, ids) acc. case dget acc col of
                       Some held \<Rightarrow> dset col (sorted_inter held ids) acc
                     | None \<Rightarrow> dset col ids acc) scope_filters user
               in if merged = [] then None else Some merged)"

(* engine/scope_enforcer.py:376-396 enforce_cross_scenario_scope *)
definition scenario_filters ::
  "(string, string list) dict option \<Rightarrow> string \<Rightarrow> catalogue \<Rightarrow> warehouse \<Rightarrow> scope_spec option
     \<Rightarrow> (filter_error, (string, string list) dict option) res" where
  "scenario_filters user_filters domain cat wh scope =
     (if scope = None then Inr user_filters
      else res_bind (check_domain_access scope domain) (\<lambda>_.
           res_map (\<lambda>sf. if sf = [] then user_filters else merge_dimension_filters user_filters sf)
             (resolve_scope_filters scope cat wh domain)))"

(* engine/scope_enforcer.py:398-403 _normalise *)
definition normalise :: "(string, string list) dict option \<Rightarrow> (string \<times> string list) list" where
  "normalise f = (case f of None \<Rightarrow> [] | Some d \<Rightarrow> sort (map (\<lambda>(k, v). (k, sort v)) d))"

(* engine/scope_enforcer.py:428-447 enforce_cross_scenario_scope *)
definition narrow_hint :: "(string \<times> string list) list list \<Rightarrow> (string, string list) dict" where
  "narrow_hint fs =
     dict_of (\<lambda>key. sorted_set (intersect_all (map (\<lambda>f. dget_or [] f key) (filter (dhas key) fs))))
       (sorted_set (concat (map dkeys fs)))"

(* engine/scope_enforcer.py:353-462 enforce_cross_scenario_scope *)
definition enforce_cross_scenario_scope ::
  "(string, scope_spec option) dict \<Rightarrow> (string, string list) dict option \<Rightarrow> string \<Rightarrow> catalogue \<Rightarrow> warehouse
     \<Rightarrow> (filter_error, (string, string list) dict option) res" where
  "enforce_cross_scenario_scope scopes user_filters domain cat wh =
     res_bind (res_mapM (\<lambda>(_, scope). scenario_filters user_filters domain cat wh scope) scopes) (\<lambda>effective.
       if length (remdups (map normalise effective)) \<le> 1
       then (case effective of [] \<Rightarrow> Inl NoScenarios | f # _ \<Rightarrow> Inr f)
       else Inl (ScopesDiffer (narrow_hint (map normalise effective))))"

(* engine/scope_enforcer.py:508-529 resolve_write_scope *)
definition resolve_write_scope ::
  "scope_spec option \<Rightarrow> string \<Rightarrow> catalogue \<Rightarrow> warehouse \<Rightarrow> (filter_error, (string, string list) dict option) res" where
  "resolve_write_scope scope domain cat wh =
     (if scope = None then Inr None
      else res_bind (if domain = [] then Inr () else check_domain_access scope domain) (\<lambda>_.
           res_map (\<lambda>f. if f = [] then None else Some f)
             (resolve_scope_filters scope cat wh (if domain = [] then ''pnl'' else domain))))"

text \<open>The member sets a caller may discover: permitted by some readable scenario.\<close>

definition read_scope_dims :: "scenario_permissions \<Rightarrow> dimension_scope option option" where
  "read_scope_dims sp = (case dget (tool_scopes sp) ''read'' of
     None \<Rightarrow> None
   | Some scope \<Rightarrow> Some (case scope of None \<Rightarrow> None | Some sc \<Rightarrow>
       (case sc_dimensions sc of None \<Rightarrow> None
        | Some d \<Rightarrow> if clause (dims_allow d) = [] \<and> clause (dims_deny d) = [] then None else Some d)))"

(* engine/scope_enforcer.py:182-246 union_read_member_sets *)
definition union_read_member_sets ::
  "user_permissions option \<Rightarrow> catalogue \<Rightarrow> warehouse \<Rightarrow> (filter_error, (string, string list) dict option) res" where
  "union_read_member_sets ps cat wh =
     (case ps of
        None \<Rightarrow> Inr None
      | Some p \<Rightarrow>
          let scopes = List.map_filter read_scope_dims (map snd (perm_scenarios p)) in
          if perm_admin p \<or> None \<in> set scopes \<or> scopes = [] then Inr None
          else res_map (\<lambda>per_scope.
              if [] \<in> set (map (\<lambda>r. case r of None \<Rightarrow> [] | Some d \<Rightarrow> d) per_scope) then None
              else let sets = map (\<lambda>r. case r of None \<Rightarrow> [] | Some d \<Rightarrow> d) per_scope;
                       everywhere = filter (\<lambda>k. \<forall>r\<in>set sets. dhas k r) (dkeys (hd sets));
                       result = dict_of (\<lambda>k. remdups (concat (map (\<lambda>r. dget_or [] r k) sets))) everywhere
                   in if result = [] then None else Some result)
            (res_mapM (\<lambda>d. resolve_scope_leaf_sets (Some \<lparr>sc_dimensions = d, sc_domains = None\<rparr>) cat wh) scopes))"

section \<open>Locks\<close>

datatype lock_value = One string | Many "string list"

definition bound_text :: "(string, lock_value) dict \<Rightarrow> string \<Rightarrow> string" where
  "bound_text cond key = (case dget cond key of Some (One s) \<Rightarrow> s | _ \<Rightarrow> [])"

text \<open>
  \<open>_generate_monthly_range\<close>: the loop runs while \<open>(year, month) \<le> (end_year, end_month)\<close>; months
  are counted so that it visibly ends.
\<close>

(* scope_resolver.py:71-80 _generate_monthly_range *)
function month_loop :: "int \<Rightarrow> int \<Rightarrow> int \<Rightarrow> int \<Rightarrow> string list \<Rightarrow> string list" where
  "month_loop year month end_year end_month periods =
     (if year < end_year \<or> (year = end_year \<and> month \<le> end_month) then
        let periods' = periods @ [fmt_int 4 year @ ''-'' @ fmt_int 2 month]
        in if 12 < month + 1 then month_loop (year + 1) 1 end_year end_month periods'
           else month_loop year (month + 1) end_year end_month periods'
      else periods)"
  by pat_completeness auto
termination
  by (relation "measures [\<lambda>(y, m, ey, em, ps). nat (ey + 1 - y), \<lambda>(y, m, ey, em, ps). nat (max 13 (em + 1) - m)]") auto

declare month_loop.simps [simp del]

(* scope_resolver.py:69-80 _generate_monthly_range *)
definition generate_monthly_range :: "string \<Rightarrow> string \<Rightarrow> (period_error, string list) res" where
  "generate_monthly_range start endp =
     res_bind (int_of (take 4 start)) (\<lambda>y. res_bind (int_of (take 2 (drop 5 start))) (\<lambda>m.
     res_bind (int_of (take 4 endp)) (\<lambda>ey. res_bind (int_of (take 2 (drop 5 endp))) (\<lambda>em.
       Inr (month_loop y m ey em [])))))"

(* scope_resolver.py:39-66 _expand_period_range *)
definition expand_period_range :: "string \<Rightarrow> string \<Rightarrow> dims \<Rightarrow> warehouse \<Rightarrow> (filter_error, string list) res" where
  "expand_period_range period_from period_to ds wh =
     (case (case dget ds ''period'' of None \<Rightarrow> None | Some d \<Rightarrow> dim_source d) of
        None \<Rightarrow> res_wrap BadPeriod (generate_monthly_range period_from period_to)
      | Some s \<Rightarrow> Inr (sorted_set (filter (\<lambda>p. period_from \<le> p \<and> p \<le> period_to)
                       (map (\<lambda>r. r (ds_key_column s)) (wh (ds_table s))))))"

definition join_leaves :: "string \<Rightarrow> string list \<Rightarrow> (string, string list) dict \<Rightarrow> (string, string list) dict" where
  "join_leaves leaf ids acc = dset leaf (remdups (dget_or [] acc leaf @ ids)) acc"

text \<open>A value that cannot be resolved is logged and skipped.\<close>

(* scope_resolver.py:121-152 resolve_lock_condition *)
fun lock_entry :: "catalogue \<Rightarrow> warehouse \<Rightarrow> string \<times> lock_value \<Rightarrow> (string, string list) dict \<Rightarrow> (string, string list) dict" where
  "lock_entry cat wh (key, One v) acc =
     (if key \<in> {''period_from'', ''period_to'', ''_type''} then acc
      else case resolve_single_value cat wh key v of Inl _ \<Rightarrow> acc | Inr (leaf, ids) \<Rightarrow> join_leaves leaf ids acc)"
| "lock_entry cat wh (key, Many vs) acc =
     (if key \<in> {''period_from'', ''period_to'', ''_type''} then acc
      else let found = List.map_filter (\<lambda>v. case resolve_single_value cat wh key v of Inl _ \<Rightarrow> None | Inr x \<Rightarrow> Some x) vs
           in if found = [] then acc
              else join_leaves (fst (last found)) (concat (map snd found)) acc)"

(* scope_resolver.py:83-154 resolve_lock_condition *)
definition resolve_lock_condition ::
  "catalogue \<Rightarrow> warehouse \<Rightarrow> (string, lock_value) dict \<Rightarrow> (filter_error, (string, string list) dict) res" where
  "resolve_lock_condition cat wh cond =
     (let period_from = bound_text cond ''period_from''; period_to = bound_text cond ''period_to'' in
      res_map (\<lambda>start. fold (lock_entry cat wh) cond start)
        (if period_from \<noteq> [] \<and> period_to \<noteq> [] then
           res_map (\<lambda>ps. [(''period'', ps)]) (expand_period_range period_from period_to (dimensions cat) wh)
         else if period_from \<noteq> [] then Inr [(''period'', [period_from])]
         else if period_to \<noteq> [] then Inr [(''period'', [period_to])]
         else Inr []))"

(* scope_resolver.py:175-192 resolve_scenario_locks *)
definition resolve_scenario_locks ::
  "catalogue \<Rightarrow> warehouse \<Rightarrow> (string, lock_value) dict list \<Rightarrow> (filter_error, (string, string list) dict list) res" where
  "resolve_scenario_locks cat wh raw_locks =
     res_map (filter (\<lambda>r. r \<noteq> [])) (res_mapM (resolve_lock_condition cat wh) raw_locks)"

(* scope_resolver.py:216-226 is_cell_locked *)
fun matches_all :: "(string, string) dict \<Rightarrow> (string \<times> string list) list \<Rightarrow> bool" where
  "matches_all cell [] = True"
| "matches_all cell ((dim, locked) # rest) =
     (case dget cell dim of
        None \<Rightarrow> False
      | Some v \<Rightarrow> if v \<notin> set locked then False else matches_all cell rest)"

(* scope_resolver.py:200-228 is_cell_locked *)
fun is_cell_locked :: "(string, string) dict \<Rightarrow> (string, string list) dict list \<Rightarrow> bool" where
  "is_cell_locked cell [] = False"
| "is_cell_locked cell (c # cs) = (if matches_all cell c then True else is_cell_locked cell cs)"

section \<open>What a filter keeps\<close>

lemma intersect_all_iff:
  "sets \<noteq> [] \<Longrightarrow> x \<in> set (intersect_all sets) \<longleftrightarrow> (\<forall>s\<in>set sets. x \<in> set s)"
proof (cases sets)
  case (Cons s rest)
  have "x \<in> set (fold (\<lambda>t acc. filter (\<lambda>x. x \<in> set t) acc) rest acc) \<longleftrightarrow> x \<in> set acc \<and> (\<forall>t\<in>set rest. x \<in> set t)" for acc
    by (induction rest arbitrary: acc) auto
  then show ?thesis by (simp add: Cons)
qed simp

lemma add_filter_single:
  "add_filter cat wh acc (k, v) = res_bind (resolve_single_value cat wh k v) (\<lambda>(leaf, leaves).
     Inr (dset leaf (case dget acc leaf of
        None \<Rightarrow> (case find_filter_target (dimensions cat) k of Inr t \<Rightarrow> fst t | Inl _ \<Rightarrow> undefined, [leaves])
      | Some (d, sets) \<Rightarrow> (d, sets @ [leaves])) acc))"
  by (cases "find_filter_target (dimensions cat) k")
     (auto simp: add_filter_def resolve_single_value_def Let_def res_bind_def split: sum.splits option.splits)

text \<open>The leaf sets after some filters: for every leaf, the sets of its filters, never an empty list.\<close>

definition collected :: "catalogue \<Rightarrow> warehouse \<Rightarrow> (string \<times> string) list \<Rightarrow> leaf_sets \<Rightarrow> bool" where
  "collected cat wh fs acc \<longleftrightarrow> wf_dict acc
     \<and> (\<forall>k v. (k, v) \<in> set fs \<longrightarrow> is_ok (resolve_single_value cat wh k v))
     \<and> (\<forall>leaf d sets. dget acc leaf = Some (d, sets) \<longrightarrow> sets \<noteq> []
         \<and> (\<forall>ls. ls \<in> set sets \<longleftrightarrow> (\<exists>k v. (k, v) \<in> set fs \<and> resolve_single_value cat wh k v = Inr (leaf, ls))))
     \<and> (\<forall>k v leaf ls. (k, v) \<in> set fs \<longrightarrow> resolve_single_value cat wh k v = Inr (leaf, ls) \<longrightarrow> dhas leaf acc)"

lemma collected_filters:
  "res_foldM (add_filter cat wh) [] fs = Inr acc \<Longrightarrow> collected cat wh fs acc"
proof (induction fs arbitrary: acc rule: rev_induct)
  case Nil
  then show ?case by (simp add: collected_def)
next
  case (snoc kv fs)
  obtain k v where kv: "kv = (k, v)" by (cases kv)
  obtain acc0 where acc0: "res_foldM (add_filter cat wh) [] fs = Inr acc0" "add_filter cat wh acc0 (k, v) = Inr acc"
    using snoc.prems by (auto simp: res_foldM_append res_bind_eq_Inr kv)
  note IH = snoc.IH [OF acc0(1)]
  obtain leaf ls where r: "resolve_single_value cat wh k v = Inr (leaf, ls)"
    using acc0(2) unfolding add_filter_single by (auto simp: res_bind_eq_Inr)
  then obtain d sets where acc: "acc = dset leaf (d, sets) acc0"
    and sets: "sets = (case dget acc0 leaf of None \<Rightarrow> [ls] | Some (_, s) \<Rightarrow> s @ [ls])"
    using acc0(2) unfolding add_filter_single by (auto split: option.splits)
  have none: "dget acc0 leaf = None \<Longrightarrow> (k', v') \<in> set fs \<Longrightarrow> resolve_single_value cat wh k' v' \<noteq> Inr (leaf, ls')" for k' v' ls'
    using IH unfolding collected_def dhas_iff by (metis option.distinct(1))
  have here: "sets \<noteq> [] \<and> (\<forall>ls'. ls' \<in> set sets \<longleftrightarrow> (\<exists>k' v'. (k', v') \<in> set (fs @ [kv]) \<and> resolve_single_value cat wh k' v' = Inr (leaf, ls')))"
  proof (cases "dget acc0 leaf")
    case None
    then show ?thesis using none [OF None] r by (auto simp: sets kv)
  next
    case (Some ds)
    then obtain d0 s0 where s0: "dget acc0 leaf = Some (d0, s0)" by (cases ds) auto
    then have "\<forall>ls'. ls' \<in> set s0 \<longleftrightarrow> (\<exists>k' v'. (k', v') \<in> set fs \<and> resolve_single_value cat wh k' v' = Inr (leaf, ls'))"
      using IH unfolding collected_def by blast
    then show ?thesis using s0 r by (auto simp: sets kv)
  qed
  have other: "leaf' \<noteq> leaf \<Longrightarrow> (\<exists>k' v'. (k', v') \<in> set (fs @ [kv]) \<and> resolve_single_value cat wh k' v' = Inr (leaf', ls'))
      \<longleftrightarrow> (\<exists>k' v'. (k', v') \<in> set fs \<and> resolve_single_value cat wh k' v' = Inr (leaf', ls'))" for leaf' ls'
    using r by (auto simp: kv)
  show ?case
    unfolding collected_def
  proof (intro conjI allI impI)
    show "wf_dict acc" using IH unfolding acc collected_def by blast
    show "is_ok (resolve_single_value cat wh k' v')" if "(k', v') \<in> set (fs @ [kv])" for k' v'
      using that IH r by (auto simp: kv collected_def)
    show "dhas leaf' acc" if "(k', v') \<in> set (fs @ [kv])" "resolve_single_value cat wh k' v' = Inr (leaf', ls')" for k' v' leaf' ls'
      using that IH r unfolding collected_def dhas_iff acc dget_dset kv by fastforce
    fix leaf' d' sets' assume get: "dget acc leaf' = Some (d', sets')"
    show "sets' \<noteq> []" using get here IH unfolding acc dget_dset collected_def by (auto split: if_splits)
    fix ls'
    show "ls' \<in> set sets' \<longleftrightarrow> (\<exists>k' v'. (k', v') \<in> set (fs @ [kv]) \<and> resolve_single_value cat wh k' v' = Inr (leaf', ls'))"
    proof (cases "leaf' = leaf")
      case True
      then show ?thesis using get here unfolding acc dget_dset by simp
    next
      case False
      then have "dget acc0 leaf' = Some (d', sets')" using get unfolding acc dget_dset by simp
      then show ?thesis using other [OF False] IH unfolding collected_def by blast
    qed
  qed
qed

lemma fold_dset_get:
  "dget (fold (\<lambda>(k, w). dset (c k w) (g k w)) xs acc) col = Some y \<Longrightarrow>
     dget acc col = Some y \<or> (\<exists>k w. (k, w) \<in> set xs \<and> col = c k w \<and> y = g k w)"
proof (induction xs arbitrary: acc)
  case (Cons x xs)
  obtain k w where x: "x = (k, w)" by (cases x)
  from Cons.IH [of "dset (c k w) (g k w) acc"] Cons.prems show ?case
    by (auto simp: x dget_dset split: if_splits)
qed simp


section \<open>What a scope keeps\<close>

lemma resolve_scope_members_get:
  assumes "resolve_scope_members cat wh meet members = Inr acc"
  shows "(\<forall>kvs\<in>set members. is_ok (axis_members cat wh kvs))
    \<and> (\<forall>leaf. dget acc leaf = None \<longleftrightarrow> (\<forall>kvs\<in>set members. \<forall>ms. axis_members cat wh kvs \<noteq> Inr (leaf, ms)))
    \<and> (\<forall>leaf ids x. dget acc leaf = Some ids \<longrightarrow> (x \<in> set ids \<longleftrightarrow>
        (if meet then \<forall>kvs\<in>set members. \<forall>ms. axis_members cat wh kvs = Inr (leaf, ms) \<longrightarrow> x \<in> set ms
         else \<exists>kvs\<in>set members. \<exists>ms. axis_members cat wh kvs = Inr (leaf, ms) \<and> x \<in> set ms)))"
  using assms unfolding resolve_scope_members_def
proof (induction members arbitrary: acc rule: rev_induct)
  case Nil
  then show ?case by simp
next
  case (snoc axis members)
  let ?A = "axis_members cat wh"
  obtain acc0 leaf ms where a: "res_foldM (\<lambda>acc axis. res_map (merge_axis meet acc) (?A axis)) [] members = Inr acc0"
    "?A axis = Inr (leaf, ms)" "acc = merge_axis meet acc0 (leaf, ms)"
    using snoc.prems by (auto simp: res_foldM_append res_bind_eq_Inr res_map_eq_Inr)
  note IH = snoc.IH [OF a(1)]
  have same: "leaf' \<noteq> leaf \<Longrightarrow> dget acc leaf' = dget acc0 leaf'" for leaf'
    unfolding a(3) merge_axis_def by (auto simp: dget_dset split: option.splits)
  have some: "\<exists>ids. dget acc leaf = Some ids"
    unfolding a(3) merge_axis_def by (auto simp: dget_dset split: option.splits)
  have here: "x \<in> set ids \<longleftrightarrow> (case dget acc0 leaf of
        None \<Rightarrow> x \<in> set ms | Some held \<Rightarrow> if meet then x \<in> set held \<and> x \<in> set ms else x \<in> set held \<or> x \<in> set ms)"
    if "dget acc leaf = Some ids" for ids x
    using that unfolding a(3) merge_axis_def by (auto simp: dget_dset split: option.splits if_splits)
  show ?case
  proof (intro conjI allI impI)
    show "\<forall>kvs\<in>set (members @ [axis]). is_ok (?A kvs)" using IH a(2) by simp
    fix leaf'
    show "dget acc leaf' = None \<longleftrightarrow> (\<forall>kvs\<in>set (members @ [axis]). \<forall>ms. ?A kvs \<noteq> Inr (leaf', ms))"
    proof (cases "leaf' = leaf")
      case True
      then show ?thesis using some a(2) by auto
    next
      case False
      then show ?thesis using same IH a(2) by simp
    qed
    fix ids x assume get: "dget acc leaf' = Some ids"
    show "x \<in> set ids \<longleftrightarrow>
        (if meet then \<forall>kvs\<in>set (members @ [axis]). \<forall>ms. ?A kvs = Inr (leaf', ms) \<longrightarrow> x \<in> set ms
         else \<exists>kvs\<in>set (members @ [axis]). \<exists>ms. ?A kvs = Inr (leaf', ms) \<and> x \<in> set ms)"
    proof (cases "leaf' = leaf")
      case False
      then have "dget acc0 leaf' = Some ids" using same get by simp
      with IH have "x \<in> set ids \<longleftrightarrow>
        (if meet then \<forall>kvs\<in>set members. \<forall>ms. ?A kvs = Inr (leaf', ms) \<longrightarrow> x \<in> set ms
         else \<exists>kvs\<in>set members. \<exists>ms. ?A kvs = Inr (leaf', ms) \<and> x \<in> set ms)" by blast
      then show ?thesis using a(2) False by (cases meet) simp_all
    next
      case True
      show ?thesis
      proof (cases "dget acc0 leaf")
        case None
        then have "\<forall>kvs\<in>set members. \<forall>ms. ?A kvs \<noteq> Inr (leaf, ms)" using IH by blast
        then show ?thesis using here [OF get [unfolded True]] None a(2) True by (cases meet) auto
      next
        case (Some held)
        with IH have "x \<in> set held \<longleftrightarrow>
          (if meet then \<forall>kvs\<in>set members. \<forall>ms. ?A kvs = Inr (leaf, ms) \<longrightarrow> x \<in> set ms
           else \<exists>kvs\<in>set members. \<exists>ms. ?A kvs = Inr (leaf, ms) \<and> x \<in> set ms)" by blast
        then show ?thesis using here [OF get [unfolded True]] Some a(2) True by (cases meet) auto
      qed
    qed
  qed
qed

text \<open>
  Deny wins. The member set a scope leaves on a leaf dimension is exactly: the members on every
  allow axis that reaches the leaf (all members of the dimension when none does), without any member
  of any deny axis that reaches it. A leaf that no axis reaches is not restricted.
\<close>

theorem scope_sets_exact:
  assumes "resolve_scope_leaf_sets (Some sp) cat wh = Inr (Some sets)" and "sc_dimensions sp = Some dims"
  shows "(dget sets leaf = None \<longleftrightarrow> (\<forall>kvs\<in>set (clause (dims_allow dims)) \<union> set (clause (dims_deny dims)).
            \<forall>ms. axis_members cat wh kvs \<noteq> Inr (leaf, ms)))
    \<and> (\<forall>ids x. dget sets leaf = Some ids \<longrightarrow> (x \<in> set ids \<longleftrightarrow>
          (\<forall>kvs\<in>set (clause (dims_allow dims)). \<forall>ms. axis_members cat wh kvs = Inr (leaf, ms) \<longrightarrow> x \<in> set ms)
        \<and> ((\<forall>kvs\<in>set (clause (dims_allow dims)). \<forall>ms. axis_members cat wh kvs \<noteq> Inr (leaf, ms)) \<longrightarrow>
             x \<in> set (all_leaf_ids cat wh leaf))
        \<and> (\<forall>kvs\<in>set (clause (dims_deny dims)). \<forall>ms. axis_members cat wh kvs = Inr (leaf, ms) \<longrightarrow> x \<notin> set ms)))"
proof -
  obtain allow deny where al: "resolve_scope_members cat wh True (clause (dims_allow dims)) = Inr allow"
    and de: "resolve_scope_members cat wh False (clause (dims_deny dims)) = Inr deny"
    and sets: "sets = dict_of (\<lambda>leaf. filter (\<lambda>x. x \<notin> set (dget_or [] deny leaf))
          (case dget allow leaf of Some ids \<Rightarrow> ids | None \<Rightarrow> all_leaf_ids cat wh leaf)) (dkeys allow @ dkeys deny)"
    using assms by (auto simp: resolve_scope_leaf_sets_def res_bind_eq_Inr split: if_splits)
  note A = resolve_scope_members_get [OF al] and D = resolve_scope_members_get [OF de]
  have mem: "leaf \<in> set (dkeys allow @ dkeys deny) \<longleftrightarrow> dget allow leaf \<noteq> None \<or> dget deny leaf \<noteq> None"
    unfolding set_append Un_iff dkeys_get by auto
  have none: "dget sets leaf = None \<longleftrightarrow> dget allow leaf = None \<and> dget deny leaf = None"
    unfolding sets dget_dict_of mem by simp
  have "x \<notin> set (dget_or [] deny leaf) \<longleftrightarrow>
      (\<forall>kvs\<in>set (clause (dims_deny dims)). \<forall>ms. axis_members cat wh kvs = Inr (leaf, ms) \<longrightarrow> x \<notin> set ms)" for x
  proof (cases "dget deny leaf")
    case None
    then show ?thesis using D by (simp add: dget_or_def)
  next
    case (Some ids)
    then have "x \<in> set ids \<longleftrightarrow> (\<exists>kvs\<in>set (clause (dims_deny dims)). \<exists>ms. axis_members cat wh kvs = Inr (leaf, ms) \<and> x \<in> set ms)"
      using D by simp
    then show ?thesis using Some by (auto simp: dget_or_def)
  qed
  moreover have "x \<in> set (case dget allow leaf of Some ids \<Rightarrow> ids | None \<Rightarrow> all_leaf_ids cat wh leaf) \<longleftrightarrow>
      (\<forall>kvs\<in>set (clause (dims_allow dims)). \<forall>ms. axis_members cat wh kvs = Inr (leaf, ms) \<longrightarrow> x \<in> set ms)
    \<and> ((\<forall>kvs\<in>set (clause (dims_allow dims)). \<forall>ms. axis_members cat wh kvs \<noteq> Inr (leaf, ms)) \<longrightarrow>
             x \<in> set (all_leaf_ids cat wh leaf))" for x
  proof (cases "dget allow leaf")
    case None
    then have "\<forall>kvs\<in>set (clause (dims_allow dims)). \<forall>ms. axis_members cat wh kvs \<noteq> Inr (leaf, ms)"
      using A by blast
    then show ?thesis using None by simp
  next
    case (Some ids)
    then have "\<not> (\<forall>kvs\<in>set (clause (dims_allow dims)). \<forall>ms. axis_members cat wh kvs \<noteq> Inr (leaf, ms))"
      using A by (metis option.distinct(1))
    moreover have "x \<in> set ids \<longleftrightarrow> (\<forall>kvs\<in>set (clause (dims_allow dims)). \<forall>ms. axis_members cat wh kvs = Inr (leaf, ms) \<longrightarrow> x \<in> set ms)"
      using A Some by simp
    ultimately show ?thesis using Some by auto
  qed
  moreover have "dget sets leaf = Some ids \<Longrightarrow> x \<in> set ids \<longleftrightarrow>
      x \<notin> set (dget_or [] deny leaf) \<and> x \<in> set (case dget allow leaf of Some ids \<Rightarrow> ids | None \<Rightarrow> all_leaf_ids cat wh leaf)"
    for ids x
    unfolding sets dget_dict_of by (auto split: if_splits)
  ultimately have exact: "dget sets leaf = Some ids \<Longrightarrow> x \<in> set ids \<longleftrightarrow>
      (\<forall>kvs\<in>set (clause (dims_allow dims)). \<forall>ms. axis_members cat wh kvs = Inr (leaf, ms) \<longrightarrow> x \<in> set ms)
    \<and> ((\<forall>kvs\<in>set (clause (dims_allow dims)). \<forall>ms. axis_members cat wh kvs \<noteq> Inr (leaf, ms)) \<longrightarrow>
         x \<in> set (all_leaf_ids cat wh leaf))
    \<and> (\<forall>kvs\<in>set (clause (dims_deny dims)). \<forall>ms. axis_members cat wh kvs = Inr (leaf, ms) \<longrightarrow> x \<notin> set ms)" for ids x
    by (simp only: conj_ac)
  have "dget allow leaf = None \<longleftrightarrow> (\<forall>kvs\<in>set (clause (dims_allow dims)). \<forall>ms. axis_members cat wh kvs \<noteq> Inr (leaf, ms))"
    "dget deny leaf = None \<longleftrightarrow> (\<forall>kvs\<in>set (clause (dims_deny dims)). \<forall>ms. axis_members cat wh kvs \<noteq> Inr (leaf, ms))"
    using A D by blast+
  then show ?thesis unfolding none ball_Un using exact by blast
qed

section \<open>What a query is confined to\<close>

text \<open>Every column \<open>sf\<close> restricts is restricted by \<open>f\<close> at least as much.\<close>

definition confined :: "(string, string list) dict \<Rightarrow> (string, string list) dict \<Rightarrow> bool" where
  "confined f sf \<longleftrightarrow> (\<forall>col ids. dget sf col = Some ids \<longrightarrow> (\<exists>ids'. dget f col = Some ids' \<and> set ids' \<subseteq> set ids))"

lemma confined_refl: "confined f f"
  by (simp add: confined_def)

lemma confined_trans: "confined f g \<Longrightarrow> confined g h \<Longrightarrow> confined f h"
  unfolding confined_def by (meson order_trans)

lemma merge_fold:
  assumes "wf_dict sf"
  shows "dget (fold (\<lambda>(col, ids) acc. case dget acc col of
      Some held \<Rightarrow> dset col (sorted_inter held ids) acc | None \<Rightarrow> dset col ids acc) sf user) col =
    (case dget sf col of
       None \<Rightarrow> dget user col
     | Some ids \<Rightarrow> Some (case dget user col of None \<Rightarrow> ids | Some held \<Rightarrow> sorted_inter held ids))"
  using assms
proof (induction sf arbitrary: user)
  case (Cons p sf)
  obtain k ids where p: "p = (k, ids)" by (cases p)
  from Cons.prems have fresh: "dget sf k = None" "wf_dict sf" by (auto simp: p map_of_eq_None_iff)
  show ?case
    using fresh(1) Cons.IH [OF fresh(2)] by (auto simp: p dget_dset split: option.splits)
qed simp

lemma merge_confined:
  assumes "wf_dict sf" and "sf \<noteq> []" and "merge_dimension_filters user sf = m"
  shows "\<exists>f. m = Some f \<and> confined f sf \<and> confined f (clause user)"
proof (cases user)
  case None
  then show ?thesis using assms by (auto simp: merge_dimension_filters_def clause_def confined_def)
next
  case (Some u)
  let ?m = "fold (\<lambda>(col, ids) acc. case dget acc col of
      Some held \<Rightarrow> dset col (sorted_inter held ids) acc | None \<Rightarrow> dset col ids acc) sf u"
  note get = merge_fold [OF assms(1), of u]
  have "confined ?m sf" "confined ?m u"
    unfolding confined_def get by (auto split: option.splits)
  moreover obtain col ids rest where "sf = (col, ids) # rest" using assms(2) by (metis list.exhaust prod.exhaust)
  then have "dget sf col = Some ids" by simp
  then have "dget ?m col \<noteq> None" unfolding get by simp
  then have "?m \<noteq> []" by (metis map_of.simps(1))
  then have "m = Some ?m" using assms(2,3) Some by (simp add: merge_dimension_filters_def Let_def)
  ultimately show ?thesis using Some by (simp add: clause_def)
qed

lemma fold_put_wf:
  "wf_dict acc \<Longrightarrow> wf_dict (fold (\<lambda>(leaf, ids) acc. case f leaf of None \<Rightarrow> acc | Some d \<Rightarrow> dset (c d) (g ids) acc) sets acc)"
  by (induction sets arbitrary: acc) (auto simp: wf_dict_dset split: option.splits)

lemma scope_filters_wf: "resolve_scope_filters scope cat wh domain = Inr sf \<Longrightarrow> wf_dict sf"
  by (auto simp: resolve_scope_filters_def res_bind_eq_Inr res_map_eq_Inr fold_put_wf split: option.splits)

lemma normalise_confined:
  assumes "normalise f = normalise g" and "wf_dict (clause f)" and "wf_dict (clause g)"
  shows "confined (clause f) (clause g)"
  unfolding confined_def
proof (intro allI impI)
  fix col ids assume "dget (clause g) col = Some ids"
  then have "(col, sort ids) \<in> set (normalise g)"
    using assms(3) by (cases g) (auto simp: clause_def normalise_def wf_dict_get [symmetric] image_iff intro!: bexI)
  then have "(col, sort ids) \<in> set (normalise f)" using assms(1) by simp
  then obtain ids' where ids': "(col, ids') \<in> set (clause f)" "sort ids = sort ids'"
    by (cases f) (auto simp: clause_def normalise_def)
  then have "set ids' = set ids" by (metis set_sort)
  then show "\<exists>ids'. dget (clause f) col = Some ids' \<and> set ids' \<subseteq> set ids"
    using ids'(1) assms(2) by (auto simp: wf_dict_get)
qed

lemma merge_wf:
  assumes "wf_dict (clause user)" and "wf_dict sf"
  shows "wf_dict (clause (merge_dimension_filters user sf))"
proof -
  have "wf_dict acc \<Longrightarrow> wf_dict (fold (\<lambda>(col, ids) acc. case dget acc col of
      Some held \<Rightarrow> dset col (sorted_inter held ids) acc | None \<Rightarrow> dset col ids acc) xs acc)" for xs acc
    by (induction xs arbitrary: acc) (auto simp: wf_dict_dset split: option.splits)
  then show ?thesis using assms by (auto simp: merge_dimension_filters_def clause_def Let_def split: option.splits)
qed

lemma scenario_filters_facts:
  assumes "scenario_filters user domain cat wh (Some sp) = Inr f" and "wf_dict (clause user)"
  shows "check_domain_access (Some sp) domain = Inr ()"
    and "\<exists>sf. resolve_scope_filters (Some sp) cat wh domain = Inr sf \<and> confined (clause f) sf"
    and "confined (clause f) (clause user)" and "wf_dict (clause f)"
proof -
  obtain sf where sf: "check_domain_access (Some sp) domain = Inr ()" "resolve_scope_filters (Some sp) cat wh domain = Inr sf"
    "f = (if sf = [] then user else merge_dimension_filters user sf)"
    using assms(1) by (auto simp: scenario_filters_def res_bind_eq_Inr res_map_eq_Inr)
  note wf = scope_filters_wf [OF sf(2)]
  show "check_domain_access (Some sp) domain = Inr ()" by fact
  have "confined (clause f) sf \<and> confined (clause f) (clause user)"
  proof (cases "sf = []")
    case True
    then show ?thesis using sf(3) by (simp add: confined_refl) (simp add: confined_def)
  next
    case False
    from merge_confined [OF wf False refl, of user] show ?thesis using sf(3) False by (auto simp: clause_def)
  qed
  then show "\<exists>sf. resolve_scope_filters (Some sp) cat wh domain = Inr sf \<and> confined (clause f) sf"
    "confined (clause f) (clause user)" using sf(2) by blast+
  show "wf_dict (clause f)" unfolding sf(3) using merge_wf [OF assms(2) wf] assms(2) by simp
qed

lemma effective_wf:
  assumes "res_mapM (\<lambda>(_, scope). scenario_filters user domain cat wh scope) scopes = Inr effective"
    and "wf_dict (clause user)" and "g \<in> set effective"
  shows "wf_dict (clause g)"
proof -
  obtain x where x: "x \<in> set scopes" "(\<lambda>(_, scope). scenario_filters user domain cat wh scope) x = Inr g"
    using res_mapM_set [OF assms(1,3)] by blast
  then show ?thesis
    using scenario_filters_facts(4) [OF _ assms(2)] assms(2)
    by (cases "snd x") (auto simp: scenario_filters_def split_def)
qed

lemma enforced_wf:
  assumes "enforce_cross_scenario_scope scopes user domain cat wh = Inr f" and "wf_dict (clause user)"
  shows "wf_dict (clause f)"
  using assms by (auto simp: enforce_cross_scenario_scope_def res_bind_eq_Inr split: if_splits list.splits intro: effective_wf)

lemma enforced_scope:
  assumes "enforce_cross_scenario_scope scopes user domain cat wh = Inr f" and "wf_dict (clause user)"
    and "(sid, Some sp) \<in> set scopes"
  shows "check_domain_access (Some sp) domain = Inr ()
    \<and> (\<exists>sf. resolve_scope_filters (Some sp) cat wh domain = Inr sf \<and> confined (clause f) sf)
    \<and> confined (clause f) (clause user)"
proof -
  obtain effective where e: "res_mapM (\<lambda>(_, scope). scenario_filters user domain cat wh scope) scopes = Inr effective"
    and one: "length (remdups (map normalise effective)) \<le> 1" and f: "effective = f # tl effective"
    using assms(1) by (auto simp: enforce_cross_scenario_scope_def res_bind_eq_Inr split: if_splits list.splits)
  have wf: "wf_dict (clause g)" if "g \<in> set effective" for g
    using effective_wf [OF e assms(2) that] .
  obtain g where g: "g \<in> set effective" "scenario_filters user domain cat wh (Some sp) = Inr g"
    using res_mapM_mem [OF e assms(3)] by auto
  note facts = scenario_filters_facts [OF g(2) assms(2)]
  have "f \<in> set effective" by (subst f) simp
  moreover have "normalise f = normalise g"
  proof -
    have "card (set (map normalise effective)) \<le> 1" using one by (simp add: length_remdups_card_conv)
    moreover have "normalise f \<in> set (map normalise effective)" "normalise g \<in> set (map normalise effective)"
      using \<open>f \<in> set effective\<close> g(1) by auto
    ultimately show ?thesis by (metis List.finite_set card_le_Suc0_iff_eq One_nat_def)
  qed
  ultimately have "confined (clause f) (clause g)" using normalise_confined wf g(1) by blast
  then show "check_domain_access (Some sp) domain = Inr ()
    \<and> (\<exists>sf. resolve_scope_filters (Some sp) cat wh domain = Inr sf \<and> confined (clause f) sf)
    \<and> confined (clause f) (clause user)" using facts(1,2,3) confined_trans by blast
qed

text \<open>
  C19: A query stays inside every scope. When the per-scenario scopes of a request are accepted, the
  filters of the query confine it, for every scoped scenario, to the resolved scope of that scenario
  and to the user's own filters; and every one of those scopes permits the domain.
\<close>

theorem query_confined_to_every_scope:
  assumes "enforce_cross_scenario_scope scopes user domain cat wh = Inr f" and "wf_dict (clause user)"
    and "(sid, Some sp) \<in> set scopes"
  shows "check_domain_access (Some sp) domain = Inr ()
    \<and> (\<exists>sf. resolve_scope_filters (Some sp) cat wh domain = Inr sf \<and> confined (clause f) sf)
    \<and> confined (clause f) (clause user)"
  using assms by (rule enforced_scope)

section \<open>Locked cells\<close>

lemma matches_all_iff: "matches_all cell c \<longleftrightarrow> (\<forall>(dim, locked)\<in>set c. \<exists>v\<in>set locked. dget cell dim = Some v)"
  by (induction cell c rule: matches_all.induct) (auto split: option.splits)

text \<open>
  A cell is locked exactly when all dimensions of some resolved condition match it; a dimension
  the cell does not have never matches, a dimension the condition does not have always does.
\<close>

theorem cell_locked_iff:
  "is_cell_locked cell locks \<longleftrightarrow>
     (\<exists>c\<in>set locks. \<forall>(dim, locked)\<in>set c. \<exists>v\<in>set locked. dget cell dim = Some v)"
  by (induction cell locks rule: is_cell_locked.induct) (auto simp: matches_all_iff)

theorem cell_locked_iff_witness:
  "is_cell_locked [(''period'', ''2025-01''), (''account'', ''4000'')] [[(''period'', [''2024-12'', ''2025-01''])]]
   \<and> \<not> is_cell_locked [(''account'', ''4000'')] [[(''period'', [''2024-12'', ''2025-01''])]]"
  unfolding cell_locked_iff by simp

lemma month_loop_spec:
  assumes "1 \<le> m" and "m \<le> 12" and "1 \<le> em" and "em \<le> 12"
  shows "month_loop y m ey em ps =
     ps @ map (\<lambda>k. fmt_int 4 (k div 12) @ ''-'' @ fmt_int 2 (k mod 12 + 1)) [12 * y + (m - 1)..12 * ey + (em - 1)]"
  using assms
proof (induction y m ey em ps rule: month_loop.induct)
  case (1 y m ey em ps)
  note step = month_loop.simps [of y m ey em ps]
  show ?case
  proof (cases "y < ey \<or> (y = ey \<and> m \<le> em)")
    case True
    have here: "[12 * y + (m - 1)..12 * ey + (em - 1)] = (12 * y + (m - 1)) # [12 * y + m..12 * ey + (em - 1)]"
      using True 1 by (subst upto_rec1) auto
    have parts: "(12 * y + (m - 1)) div 12 = y" "(12 * y + (m - 1)) mod 12 + 1 = m" using 1 by auto
    show ?thesis
    proof (cases "12 < m + 1")
      case last: True
      then have m: "m = 12" using 1 by simp
      show ?thesis
        using "1.IH"(1) [OF True refl last] 1 step True last here parts by (simp add: m Let_def algebra_simps)
    next
      case False
      then show ?thesis
        using "1.IH"(2) [OF True refl False] 1 step True here parts by (simp add: Let_def)
    qed
  next
    case False
    then show ?thesis using step 1 by auto
  qed
qed

text \<open>
  The fallback expansion of a lock's period range enumerates, in order and once each, exactly the
  months from the start to the end; an end before the start gives none.
\<close>

theorem monthly_range_exact:
  assumes "int_of (take 4 start) = Inr y" and "int_of (take 2 (drop 5 start)) = Inr m"
    and "int_of (take 4 stop) = Inr ey" and "int_of (take 2 (drop 5 stop)) = Inr em"
    and "1 \<le> m" and "m \<le> 12" and "1 \<le> em" and "em \<le> 12"
  shows "generate_monthly_range start stop =
     Inr (map (\<lambda>k. fmt_int 4 (k div 12) @ ''-'' @ fmt_int 2 (k mod 12 + 1)) [12 * y + (m - 1)..12 * ey + (em - 1)])"
  using assms by (simp add: generate_monthly_range_def month_loop_spec)

theorem monthly_range_exact_witness:
  "generate_monthly_range ''2025-11'' ''2026-02'' = Inr [''2025-11'', ''2025-12'', ''2026-01'', ''2026-02'']"
proof -
  have "int_of (take 4 ''2025-11'') = Inr 2025" "int_of (take 2 (drop 5 ''2025-11'')) = Inr 11"
    "int_of (take 4 ''2026-02'') = Inr 2026" "int_of (take 2 (drop 5 ''2026-02'')) = Inr 2" by code_simp+
  note range = monthly_range_exact [OF this]
  have digits: "fmt_int 4 2025 = ''2025''" "fmt_int 4 2026 = ''2026''" "fmt_int 2 11 = ''11''"
    "fmt_int 2 12 = ''12''" "fmt_int 2 1 = ''01''" "fmt_int 2 2 = ''02''"
    by (simp_all add: fmt_int_def pad_nat_def nat_text.simps digit_char_def) code_simp+
  have interval: "[12 * 2025 + (11 - 1)..12 * 2026 + (2 - 1 :: int)] = [24310, 24311, 24312, 24313]" by simp
  have "generate_monthly_range ''2025-11'' ''2026-02''
      = Inr (map (\<lambda>k. fmt_int 4 (k div 12) @ ''-'' @ fmt_int 2 (k mod 12 + 1)) [24310, 24311, 24312, 24313])"
    by (rule range [unfolded interval]) simp_all
  also have "\<dots> = Inr [fmt_int 4 2025 @ ''-'' @ fmt_int 2 11, fmt_int 4 2025 @ ''-'' @ fmt_int 2 12,
      fmt_int 4 2026 @ ''-'' @ fmt_int 2 1, fmt_int 4 2026 @ ''-'' @ fmt_int 2 2]" by simp
  also have "\<dots> = Inr [''2025-11'', ''2025-12'', ''2026-01'', ''2026-02'']" by (simp add: digits)
  finally show ?thesis .
qed

section \<open>Examples\<close>

definition cost_row :: "string \<Rightarrow> string \<Rightarrow> string \<Rightarrow> string" where
  "cost_row cc dept col = (if col = ''id'' then cc else if col = ''dept'' then dept else [])"

definition example_warehouse :: warehouse where
  "example_warehouse table = (if table = ''semantic.cc''
     then [cost_row ''C1'' ''Cloud'', cost_row ''C2'' ''Cloud'', cost_row ''C3'' ''Ops''] else [])"

definition department_dim :: dimension where
  "department_dim = (example_dim ''department'' None [])
     \<lparr>dim_derived_from := Some \<lparr>df_dimension = ''cost_centre'', df_source_column = ''dept''\<rparr>,
      transitive := [(''cost_centre'', \<lparr>tr_leaf_dimension = ''cost_centre'', tr_source_table = ''semantic.cc'',
        leaf_key_column = ''id'', filter_column = ''dept''\<rparr>)]\<rparr>"

definition filter_catalogue :: catalogue where
  "filter_catalogue = \<lparr>metrics = [], statements = [], domains = [],
     dimensions = [(''cost_centre'', example_dim ''cost_centre''
         (Some \<lparr>ds_table = ''semantic.cc'', ds_key_column = ''id'', attribute_mapping = []\<rparr>) []),
       (''department'', department_dim)],
     plan_datasets = [], mapping_datasets = []\<rparr>"

definition cloud_scope :: scope_spec where
  "cloud_scope = \<lparr>sc_dimensions = Some \<lparr>dims_allow = Some [(''department'', [''Cloud''])],
     dims_deny = Some [(''cost_centre'', [''C2''])]\<rparr>,
     sc_domains = Some \<lparr>doms_allow = Some [''pnl''], doms_deny = None\<rparr>\<rparr>"


theorem scope_sets_exact_witness:
  "resolve_scope_leaf_sets (Some cloud_scope) filter_catalogue example_warehouse = Inr (Some [(''cost_centre'', [''C1''])])
   \<and> ''C1'' \<in> set [''C1'', ''C2'']"
proof -
  have run: "resolve_scope_leaf_sets (Some cloud_scope) filter_catalogue example_warehouse = Inr (Some [(''cost_centre'', [''C1''])])"
    by code_simp
  have dims: "sc_dimensions cloud_scope = Some \<lparr>dims_allow = Some [(''department'', [''Cloud''])],
     dims_deny = Some [(''cost_centre'', [''C2''])]\<rparr>" by (simp add: cloud_scope_def)
  have "axis_members filter_catalogue example_warehouse (''department'', [''Cloud'']) = Inr (''cost_centre'', [''C1'', ''C2''])"
    by code_simp
  then show ?thesis using scope_sets_exact [OF run dims, of "''cost_centre''"] run by (auto simp: clause_def)
qed

theorem query_confined_to_every_scope_witness:
  "enforce_cross_scenario_scope [(''ACT'', Some cloud_scope)] (Some [(''account'', [''4000''])]) ''pnl''
     filter_catalogue example_warehouse = Inr (Some [(''account'', [''4000'']), (''id'', [''C1''])])
   \<and> confined [(''account'', [''4000'']), (''id'', [''C1''])] [(''account'', [''4000''])]"
proof -
  have run: "enforce_cross_scenario_scope [(''ACT'', Some cloud_scope)] (Some [(''account'', [''4000''])]) ''pnl''
     filter_catalogue example_warehouse = Inr (Some [(''account'', [''4000'']), (''id'', [''C1''])])"
  proof -
    have leaf: "resolve_scope_leaf_sets (Some cloud_scope) filter_catalogue example_warehouse = Inr (Some [(''cost_centre'', [''C1''])])"
      "reject_inline_dimension_scope (Some cloud_scope) filter_catalogue ''pnl'' = Inr ()"
      "check_domain_access (Some cloud_scope) ''pnl'' = Inr ()" by code_simp+
    have "map_to_view_column filter_catalogue ''pnl'' (example_dim ''cost_centre''
        (Some \<lparr>ds_table = ''semantic.cc'', ds_key_column = ''id'', attribute_mapping = []\<rparr>) []) = ''id''"
      "merge_dimension_filters (Some [(''account'', [''4000''])]) [(''id'', [''C1''])] = Some [(''account'', [''4000'']), (''id'', [''C1''])]"
      by code_simp+
    with leaf show ?thesis
      by (simp add: enforce_cross_scenario_scope_def scenario_filters_def resolve_scope_filters_def
          filter_catalogue_def sorted_set_def)
  qed
  from query_confined_to_every_scope [OF run, of "''ACT''" cloud_scope] run show ?thesis
    by (simp add: clause_def)
qed

text \<open>
  Two keys of one lock condition on the same leaf dimension widen the lock instead of narrowing it:
  a condition that names a department and a cost centre outside it locks both, although the conditions
  of a lock are documented to hold together.
\<close>

theorem lock_keys_on_one_leaf_unite:
  "resolve_scenario_locks filter_catalogue example_warehouse
       [[(''department'', One ''Cloud''), (''cost_centre'', One ''C3'')]] = Inr [[(''cost_centre'', [''C1'', ''C2'', ''C3''])]]
   \<and> is_cell_locked [(''cost_centre'', ''C1'')] [[(''cost_centre'', [''C1'', ''C2'', ''C3''])]]
   \<and> is_cell_locked [(''cost_centre'', ''C3'')] [[(''cost_centre'', [''C1'', ''C2'', ''C3''])]]"
  by code_simp

end
