(* ===== verification/ToolArgs.thy ===== *)
theory ToolArgs
  imports PyText
begin

text \<open>
  Tool arguments as they arrive from a client (\<open>dispatch.py\<close>): JSON values, the coercions that repair
  doubly encoded parameters, the injection of report-context defaults and the extraction of scenario
  references. \<open>json.loads\<close> is a parameter (\<open>None\<close> when it raises), as is \<open>str\<close> of a value that is not
  a string.
\<close>

datatype json =
    JNull
  | JBool bool
  | JNum int
  | JStr string
  | JList "json list"
  | JDict "(string \<times> json) list"

type_synonym args = "(string, json) dict"

text \<open>Python's truth value, \<open>args.get(key)\<close> and \<open>str(v)\<close>.\<close>

fun truthy :: "json \<Rightarrow> bool" where
  "truthy JNull = False"
| "truthy (JBool b) = b"
| "truthy (JNum i) = (i \<noteq> 0)"
| "truthy (JStr s) = (s \<noteq> [])"
| "truthy (JList xs) = (xs \<noteq> [])"
| "truthy (JDict d) = (d \<noteq> [])"

definition jget :: "args \<Rightarrow> string \<Rightarrow> json" where
  "jget a key = dget_or JNull a key"

fun text_of :: "(json \<Rightarrow> string) \<Rightarrow> json \<Rightarrow> string" where
  "text_of show (JStr s) = s"
| "text_of show v = show v"

section \<open>Coercion\<close>

(* dispatch.py:555-573 _coerce_list *)
fun coerce_list :: "(string \<Rightarrow> json option) \<Rightarrow> json \<Rightarrow> json" where
  "coerce_list loads JNull = JNull"
| "coerce_list loads (JList xs) = JList xs"
| "coerce_list loads (JStr s) = (case loads s of Some (JList xs) \<Rightarrow> JList xs | _ \<Rightarrow> JList [JStr s])"
| "coerce_list loads v = JList [v]"

(* dispatch.py:628-644 _coerce_dict *)
fun coerce_dict :: "(string \<Rightarrow> json option) \<Rightarrow> json \<Rightarrow> json" where
  "coerce_dict loads (JStr s) = (case loads s of Some (JDict d) \<Rightarrow> JDict d | _ \<Rightarrow> JStr s)"
| "coerce_dict loads v = v"

(* dispatch.py:576-578 _LIST_PARAMS *)
definition LIST_PARAMS :: "string list" where
  "LIST_PARAMS = [''columns'', ''dimensions'', ''metrics'', ''scenarios'']"

(* dispatch.py:586-590 _LIST_OF_STR_PARAMS *)
definition LIST_OF_STR_PARAMS :: "(string, string) dict" where
  "LIST_OF_STR_PARAMS = [(''columns'', ''column''), (''dimensions'', ''dimension''), (''metrics'', ''metric'')]"

(* dispatch.py:593-595 _DICT_PARAMS *)
definition DICT_PARAMS :: "string list" where
  "DICT_PARAMS = [''filters'', ''chart_spec'', ''commit_scope'', ''discard_scope'']"

text \<open>An entry that is neither a string nor the wrapped shape is reported by its index.\<close>

(* dispatch.py:598-625 _normalise_list_of_str *)
fun normalise_list_of_str :: "string \<Rightarrow> string \<Rightarrow> nat \<Rightarrow> json list \<Rightarrow> (string \<times> nat, json list) res" where
  "normalise_list_of_str param unwrap i [] = Inr []"
| "normalise_list_of_str param unwrap i (e # es) =
     (case e of
        JStr s \<Rightarrow> res_map (Cons (JStr s)) (normalise_list_of_str param unwrap (Suc i) es)
      | JDict d \<Rightarrow> (case dget d unwrap of
            Some (JStr s) \<Rightarrow> res_map (Cons (JStr s)) (normalise_list_of_str param unwrap (Suc i) es)
          | _ \<Rightarrow> Inl (param, i))
      | _ \<Rightarrow> Inl (param, i))"

definition update_param :: "(json \<Rightarrow> json) \<Rightarrow> string \<Rightarrow> args \<Rightarrow> args" where
  "update_param f param a = (case dget a param of None \<Rightarrow> a | Some v \<Rightarrow> dset param (f v) a)"

(* dispatch.py:781-786 process_tool_call *)
definition coerce_params :: "(string \<Rightarrow> json option) \<Rightarrow> args \<Rightarrow> args" where
  "coerce_params loads a = fold (update_param (coerce_dict loads)) DICT_PARAMS
     (fold (update_param (coerce_list loads)) LIST_PARAMS a)"

(* dispatch.py:790-797 process_tool_call *)
definition check_list_params :: "args \<Rightarrow> args \<times> (string \<times> nat) option" where
  "check_list_params a =
     fold (\<lambda>(param, unwrap) (a, err).
        case err of
          Some e \<Rightarrow> (a, err)
        | None \<Rightarrow> (case jget a param of
              JList xs \<Rightarrow> (case normalise_list_of_str param unwrap 0 xs of
                  Inl e \<Rightarrow> (a, Some e)
                | Inr cleaned \<Rightarrow> (dset param (JList cleaned) a, None))
            | _ \<Rightarrow> (a, None))) LIST_OF_STR_PARAMS (a, None)"

section \<open>Report-context defaults\<close>

definition not_provided :: "args \<Rightarrow> string \<Rightarrow> bool" where
  "not_provided a key = (jget a key = JNull)"

text \<open>\<open>list(x)\<close> of a JSON value; a number has no elements and Python raises, which no context does.\<close>

fun list_copy :: "json \<Rightarrow> json" where
  "list_copy (JList xs) = JList xs"
| "list_copy (JDict d) = JList (map (JStr \<circ> fst) d)"
| "list_copy (JStr s) = JList (map (\<lambda>c. JStr [c]) s)"
| "list_copy v = v"

definition inject :: "(json \<Rightarrow> bool) \<Rightarrow> (json \<Rightarrow> json) \<Rightarrow> args \<Rightarrow> string list \<Rightarrow> string \<Rightarrow> args \<Rightarrow> args" where
  "inject present copy context allowed key a =
     (if key \<in> set allowed \<and> not_provided a key \<and> present (jget context key) then dset key (copy (jget context key)) a
      else a)"

(* dispatch.py:494-547 apply_report_context *)
definition apply_report_context :: "args \<Rightarrow> args \<Rightarrow> string list \<Rightarrow> args" where
  "apply_report_context tool_args context allowed =
     (if context = [] \<or> allowed = [] then tool_args
      else
        let a1 = inject truthy id context allowed ''filters'' tool_args;
            a2 = (if ''filters'' \<in> set allowed \<and> jget a1 ''filters'' = JNull then AList.delete ''filters'' a1 else a1);
            a3 = inject truthy list_copy context allowed ''scenarios'' a2;
            a4 = fold (inject (\<lambda>v. v \<noteq> JNull) id context allowed) [''scale'', ''decimals''] a3
        in fold (inject truthy id context allowed) [''statement'', ''period_start'', ''period_end''] a4)"

section \<open>Scenario references\<close>

definition add_ref :: "string list \<Rightarrow> string \<Rightarrow> string list" where
  "add_ref refs r = (if r \<in> set refs then refs else refs @ [r])"

definition entry_ref :: "(json \<Rightarrow> string) \<Rightarrow> json \<Rightarrow> string option" where
  "entry_ref show e =
     (let s = (case e of JDict d \<Rightarrow> dget_or JNull d ''scenario'' | _ \<Rightarrow> e)
      in if truthy s then Some (text_of show s) else None)"

(* dispatch.py:656-675 _extract_scenario_ids *)
definition refs_of_param :: "(json \<Rightarrow> string) \<Rightarrow> json \<Rightarrow> string list \<Rightarrow> string list" where
  "refs_of_param show v refs =
     (if \<not> truthy v then refs
      else case v of
             JStr s \<Rightarrow> add_ref refs s
           | JList es \<Rightarrow> fold (\<lambda>e refs. case entry_ref show e of None \<Rightarrow> refs | Some r \<Rightarrow> add_ref refs r) es refs
           | _ \<Rightarrow> refs)"

(* dispatch.py:647-675 _extract_scenario_ids *)
definition extract_scenario_ids :: "(json \<Rightarrow> string) \<Rightarrow> args \<Rightarrow> string list \<Rightarrow> string list" where
  "extract_scenario_ids show a params = fold (\<lambda>p. refs_of_param show (jget a p)) params []"

section \<open>Properties\<close>

lemma jget_dset: "jget (dset k v a) key = (if key = k then v else jget a key)"
  by (simp add: jget_def dget_or_dset)

lemma set_add_ref [simp]: "set (add_ref refs r) = insert r (set refs)"
  by (auto simp: add_ref_def)

text \<open>The references one value names.\<close>

definition value_refs :: "(json \<Rightarrow> string) \<Rightarrow> json \<Rightarrow> string set" where
  "value_refs show v = (case v of
      JStr s \<Rightarrow> if s = [] then {} else {s}
    | JList es \<Rightarrow> {r. \<exists>e\<in>set es. entry_ref show e = Some r}
    | _ \<Rightarrow> {})"

lemma refs_of_param_set: "set (refs_of_param show v refs) = set refs \<union> value_refs show v"
proof -
  have "set (fold (\<lambda>e refs. case entry_ref show e of None \<Rightarrow> refs | Some r \<Rightarrow> add_ref refs r) es refs)
      = set refs \<union> {r. \<exists>e\<in>set es. entry_ref show e = Some r}" for es refs
    by (induction es arbitrary: refs) (auto split: option.splits)
  then show ?thesis by (cases v) (simp_all add: refs_of_param_def value_refs_def)
qed

lemma extract_scenario_ids_set:
  "set (extract_scenario_ids show a params) = (\<Union>p\<in>set params. value_refs show (jget a p))"
proof -
  have "set (fold (\<lambda>p. refs_of_param show (jget a p)) ps refs) = set refs \<union> (\<Union>p\<in>set ps. value_refs show (jget a p))" for ps refs
    by (induction ps arbitrary: refs) (auto simp: refs_of_param_set)
  from this [of params "[]"] show ?thesis by (simp add: extract_scenario_ids_def)
qed

lemma inject_keeps: "jget a k \<noteq> JNull \<Longrightarrow> jget (inject present copy context allowed key a) k = jget a k"
  by (auto simp: inject_def jget_dset not_provided_def)

lemma inject_only: "jget (inject present copy context allowed key a) k \<noteq> jget a k \<Longrightarrow>
    k = key \<and> key \<in> set allowed \<and> jget a k = JNull \<and> jget (inject present copy context allowed key a) k = copy (jget context key)"
  by (auto simp: inject_def jget_dset not_provided_def split: if_splits)

lemma jget_delete: "jget (AList.delete k a) key = (if key = k then JNull else jget a key)"
  by (simp add: jget_def dget_or_def delete_conv')

text \<open>
  Report-context defaults never override a caller. Every argument the caller supplied with a
  value other than null keeps it, and every argument that changes is one the tool declared and the
  caller left out.
\<close>

theorem context_defaults_do_not_override:
  "(jget a k \<noteq> JNull \<longrightarrow> jget (apply_report_context a context allowed) k = jget a k)
   \<and> (jget (apply_report_context a context allowed) k \<noteq> jget a k \<longrightarrow> k \<in> set allowed)"
proof (cases "context = [] \<or> allowed = []")
  case True
  then show ?thesis by (simp add: apply_report_context_def)
next
  case False
  let ?ok = "\<lambda>b c. (jget b k \<noteq> JNull \<longrightarrow> jget c k = jget b k) \<and> (jget c k \<noteq> jget b k \<longrightarrow> k \<in> set allowed)"
  have step: "?ok a (inject p cp context allowed key b)" if "?ok a b" for p cp key b
    using that inject_keeps [of b k p cp "context" allowed key] inject_only [of p cp "context" allowed key b k] by metis
  have many: "?ok a (fold (inject p cp context allowed) ks b)" if "?ok a b" for p cp ks b
    using that
  proof (induction ks arbitrary: b)
    case (Cons key ks)
    from Cons.IH [OF step [OF Cons.prems]] show ?case unfolding fold_simps(2) .
  qed simp
  have drop: "?ok a (if ''filters'' \<in> set allowed \<and> jget b ''filters'' = JNull then AList.delete ''filters'' b else b)"
    if "?ok a b" for b
    using that by (auto simp: jget_delete)
  have "?ok a a" by simp
  from many [OF many [OF step [OF drop [OF step [OF this]]]]] show ?thesis
    unfolding apply_report_context_def using False by (simp only: if_False Let_def)
qed

theorem context_defaults_do_not_override_witness:
  "jget (apply_report_context [(''statement'', JStr ''pnl'')]
      [(''statement'', JStr ''bs''), (''scale'', JNum 1000)] [''statement'', ''scale'']) ''statement'' = JStr ''pnl''
   \<and> ''scale'' \<in> set [''statement'', ''scale'']"
proof -
  let ?a = "[(''statement'', JStr ''pnl'')]"
  let ?c = "[(''statement'', JStr ''bs''), (''scale'', JNum 1000)]"
  let ?r = "apply_report_context ?a ?c [''statement'', ''scale'']"
  have "jget ?a ''statement'' = JStr ''pnl''" "jget ?r ''scale'' = JNum 1000" "jget ?a ''scale'' = JNull" by code_simp+
  then show ?thesis
    using context_defaults_do_not_override [of ?a "''statement''" ?c "[''statement'', ''scale'']"]
      context_defaults_do_not_override [of ?a "''scale''" ?c "[''statement'', ''scale'']"] by simp
qed

end
