(* ===== verification/ContextValidation.thy ===== *)
theory ContextValidation
  imports ToolArgs Resolver ScopeFilters
begin

text \<open>
  Validation of a tool call's dimensions and filters against the catalogue, and of a saved report
  context against the catalogue and the scenario registry (\<open>engine/context_validation.py\<close>).

  The recursive helpers of the code walk the parent chains of dimensions with a shared set of visited
  keys; here they are one loop over a work list that visits the same keys in the same order.
\<close>

section \<open>Walking parent chains\<close>

(* engine/context_validation.py:211-219 _walk_parents *)
function walk_up :: "dims \<Rightarrow> string list \<Rightarrow> string list \<Rightarrow> string list" where
  "walk_up ds [] visited = visited"
| "walk_up ds (k # ks) visited =
     (if k \<in> set visited then walk_up ds ks visited
      else walk_up ds (dkeys (parents_of ds k) @ ks) (k # visited))"
  by pat_completeness auto
termination
proof (relation "measures [\<lambda>(ds, ks, visited). card (set (dkeys ds) - set visited), \<lambda>(ds, ks, visited). length ks]", goal_cases)
  case (3 ds k ks visited)
  show ?case
  proof (cases "k \<in> set (dkeys ds)")
    case True
    then have "k \<in> set (dkeys ds) - set visited" using 3 by simp
    then have "card (set (dkeys ds) - set (k # visited)) < card (set (dkeys ds) - set visited)"
      by (intro psubset_card_mono) auto
    then show ?thesis by simp
  next
    case False
    then have "parents_of ds k = []" using unknown_no_parents [of k ds] unfolding dhas_def by blast
    moreover have "set (dkeys ds) - set (k # visited) = set (dkeys ds) - set visited" using False by auto
    ultimately show ?thesis using 3 by simp
  qed
qed simp_all

text \<open>Everything the walk returns is reachable, and it is closed under parents.\<close>

lemma walk_up_closed:
  assumes "\<And>u. u \<in> set visited \<Longrightarrow> set (dkeys (parents_of ds u)) \<subseteq> set visited \<union> set ks"
  shows "set ks \<union> set visited \<subseteq> set (walk_up ds ks visited)
    \<and> (\<forall>u\<in>set (walk_up ds ks visited). set (dkeys (parents_of ds u)) \<subseteq> set (walk_up ds ks visited))"
  using assms
proof (induction ds ks visited rule: walk_up.induct)
  case (1 ds visited)
  then show ?case by simp
next
  case (2 ds k ks visited)
  show ?case
  proof (cases "k \<in> set visited")
    case True
    have "set (dkeys (parents_of ds u)) \<subseteq> set visited \<union> set ks" if "u \<in> set visited" for u
      using "2.prems" [OF that] True by auto
    from "2.IH"(1) [OF True this] show ?thesis using True by auto
  next
    case False
    have "set (dkeys (parents_of ds u)) \<subseteq> set (k # visited) \<union> set (dkeys (parents_of ds k) @ ks)"
      if "u \<in> set (k # visited)" for u
      using "2.prems" [of u] that by (cases "u = k") auto
    from "2.IH"(2) [OF False this] show ?thesis using False by auto
  qed
qed

lemma walk_up_reach: "set (walk_up ds ks visited) \<subseteq> set visited \<union> (parent_edges ds)\<^sup>* `` set ks"
proof (induction ds ks visited rule: walk_up.induct)
  case (2 ds k ks visited)
  show ?case
  proof (cases "k \<in> set visited")
    case True
    then show ?thesis using "2.IH"(1) [OF True] by auto
  next
    case False
    have "(parent_edges ds)\<^sup>* `` set (dkeys (parents_of ds k)) \<subseteq> (parent_edges ds)\<^sup>* `` {k}"
      by (auto simp: parent_edges_def intro: converse_rtrancl_into_rtrancl)
    then have "(parent_edges ds)\<^sup>* `` set (dkeys (parents_of ds k) @ ks) \<subseteq> (parent_edges ds)\<^sup>* `` set (k # ks)"
      unfolding set_append Image_Un by auto
    moreover have "k \<in> (parent_edges ds)\<^sup>* `` set (k # ks)" by auto
    moreover have "walk_up ds (k # ks) visited = walk_up ds (dkeys (parents_of ds k) @ ks) (k # visited)"
      using False by simp
    ultimately show ?thesis using "2.IH"(2) [OF False] by (simp only:) (simp, blast)
  qed
qed simp

lemma walk_up_exact: "set (walk_up ds ks []) = (parent_edges ds)\<^sup>* `` set ks"
proof
  show "set (walk_up ds ks []) \<subseteq> (parent_edges ds)\<^sup>* `` set ks" using walk_up_reach [of ds ks "[]"] by simp
  have closed: "set ks \<subseteq> set (walk_up ds ks [])"
    "\<forall>u\<in>set (walk_up ds ks []). set (dkeys (parents_of ds u)) \<subseteq> set (walk_up ds ks [])"
    using walk_up_closed [of "[]" ds ks] by auto
  show "(parent_edges ds)\<^sup>* `` set ks \<subseteq> set (walk_up ds ks [])"
  proof
    fix v assume "v \<in> (parent_edges ds)\<^sup>* `` set ks"
    then obtain u where u: "(u, v) \<in> (parent_edges ds)\<^sup>*" "u \<in> set ks" by blast
    from u show "v \<in> set (walk_up ds ks [])"
      by (induction rule: rtrancl_induct) (use closed in \<open>auto simp: parent_edges_def\<close>)
  qed
qed

section \<open>The domains of a call\<close>

text \<open>
  \<open>_resolve_metric_domain\<close>: a depth-first search for the first base metric. The names of a formula are
  a set that Python pushes in no fixed order; the model pushes them in the order it lists them.
\<close>

(* engine/context_validation.py:137-150 _resolve_metric_domain *)
function domain_search ::
  "'f parser \<Rightarrow> (string, metric) dict \<Rightarrow> string list \<Rightarrow> string list \<Rightarrow> (formula_error, string option) res" where
  "domain_search parse ms visited to_check =
     (if to_check = [] then Inr None
      else let key = last to_check; rest = butlast to_check in
        if key \<in> set visited then domain_search parse ms visited rest
        else case dget ms key of
          None \<Rightarrow> domain_search parse ms (key # visited) rest
        | Some (BaseMetric m) \<Rightarrow> Inr (Some (bm_domain m))
        | Some (DerivedMetric m) \<Rightarrow>
            (case metric_refs parse (formula m) of
               Inl e \<Rightarrow> Inl e
             | Inr refs \<Rightarrow> domain_search parse ms (key # visited) (rest @ refs)))"
  by pat_completeness auto
termination
proof (relation "measures [\<lambda>(parse, ms, visited, to_check). card (set (dkeys ms) - set visited),
    \<lambda>(parse, ms, visited, to_check). length to_check]", goal_cases)
  { case 1 show ?case by simp }
  { case (2 parse ms visited to_check key rest)
    then show ?case by simp }
  { case (3 parse ms visited to_check key rest)
    then have "dget ms key = None" by simp
    then have "key \<notin> set (dkeys ms)" unfolding dkeys_get by simp
    then have "set (dkeys ms) - set (key # visited) = set (dkeys ms) - set visited" by auto
    then show ?case using 3 by simp }
  { case (4 parse ms visited to_check key rest x m refs)
    then have "dget ms key \<noteq> None" "key \<notin> set visited" by simp_all
    then have "key \<in> set (dkeys ms) - set visited" unfolding Diff_iff dkeys_get by simp
    then have "card (set (dkeys ms) - set (key # visited)) < card (set (dkeys ms) - set visited)"
      by (intro psubset_card_mono) auto
    then show ?case by simp }
qed

declare domain_search.simps [simp del]

(* engine/context_validation.py:121-150 _resolve_metric_domain *)
definition resolve_metric_domain :: "'f parser \<Rightarrow> catalogue \<Rightarrow> json \<Rightarrow> (formula_error, string option) res" where
  "resolve_metric_domain parse cat v = (case v of JStr key \<Rightarrow> domain_search parse (metrics cat) [] [key] | _ \<Rightarrow> Inr None)"

definition add_domain ::
  "'f parser \<Rightarrow> catalogue \<Rightarrow> string list \<Rightarrow> json \<Rightarrow> (formula_error, string list) res" where
  "add_domain parse cat ds v = res_map (\<lambda>d. case d of Some x \<Rightarrow> if x = [] then ds else add_ref ds x | None \<Rightarrow> ds)
     (resolve_metric_domain parse cat v)"

(* engine/context_validation.py:97-118 _resolve_domains_for_statement *)
definition resolve_domains_for_statement :: "'f parser \<Rightarrow> catalogue \<Rightarrow> string \<Rightarrow> (formula_error, string list) res" where
  "resolve_domains_for_statement parse cat name =
     (case resolve_statement (statements cat) name of
        Inl _ \<Rightarrow> Inr []
      | Inr keys \<Rightarrow> res_foldM (add_domain parse cat) [] (map JStr (filter (\<lambda>k. k \<noteq> ''separator'') keys)))"

definition elements :: "json \<Rightarrow> json list" where
  "elements v = (case list_copy v of JList xs \<Rightarrow> xs | _ \<Rightarrow> [])"

text \<open>
  \<open>tool_args.get("statement", "pnl")\<close>: only an absent key gets the default. A statement that is not a
  text is not found, and the failed expansion yields no domain.
\<close>

(* engine/context_validation.py:153-176 _get_domains_for_tool_call *)
definition get_domains_for_tool_call ::
  "'f parser \<Rightarrow> catalogue \<Rightarrow> string \<Rightarrow> args \<Rightarrow> (formula_error, string list) res" where
  "get_domains_for_tool_call parse cat tool a =
     (if tool = ''run_statement'' then
        (case dget_or (JStr ''pnl'') a ''statement'' of
           JStr s \<Rightarrow> resolve_domains_for_statement parse cat s
         | _ \<Rightarrow> Inr [])
      else if tool = ''run_metric'' then
        res_foldM (add_domain parse cat) [] (elements (dget_or (JList []) a ''metrics''))
      else Inr [])"

section \<open>Valid keys\<close>

definition domain_dims :: "catalogue \<Rightarrow> string list \<Rightarrow> cube_dimension list" where
  "domain_dims cat domains_asked =
     concat (map (\<lambda>n. case dget (domains cat) n of None \<Rightarrow> [] | Some dc \<Rightarrow> dc_dimensions dc) domains_asked)"

definition bound_leaves :: "catalogue \<Rightarrow> string list \<Rightarrow> string list" where
  "bound_leaves cat domains_asked = map cd_key (filter (\<lambda>cd. \<not> source_inline cd) (domain_dims cat domains_asked))"

definition ragged_over :: "catalogue \<Rightarrow> string list \<Rightarrow> string list" where
  "ragged_over cat leaves = map fst (filter (\<lambda>(_, d). is_ragged d \<and> dim_leaf_dimension d \<in> set leaves) (dimensions cat))"

(* engine/context_validation.py:179-227 _get_valid_filter_keys_for_domains *)
definition valid_filter_keys :: "catalogue \<Rightarrow> string list \<Rightarrow> string list" where
  "valid_filter_keys cat domains_asked =
     (let leaves = bound_leaves cat domains_asked
      in walk_up (dimensions cat) leaves [] @ ragged_over cat leaves)"

(* engine/context_validation.py:467-513 _get_valid_dimension_keys_for_domains *)
definition valid_dimension_keys :: "catalogue \<Rightarrow> string list \<Rightarrow> string list" where
  "valid_dimension_keys cat domains_asked =
     (let leaves = bound_leaves cat domains_asked
      in map cd_key (domain_dims cat domains_asked)
         @ concat (map (\<lambda>k. dkeys (parents_of (dimensions cat) k)) (walk_up (dimensions cat) leaves []))
         @ ragged_over cat leaves)"

(* engine/context_validation.py:594-624 _get_valid_keys_for_plan_datasets *)
definition valid_plan_keys :: "catalogue \<Rightarrow> string list" where
  "valid_plan_keys cat =
     (let pds = concat (map (ps_dimensions \<circ> snd) (plan_datasets cat))
      in map pd_key pds @ walk_up (dimensions cat) (filter (\<lambda>s. s \<noteq> []) (map pd_source pds)) [])"

(* engine/context_validation.py:627-642 _TARGET_RESOLVERS *)
definition target_keys ::
  "'f parser \<Rightarrow> catalogue \<Rightarrow> string \<Rightarrow> string \<Rightarrow> args \<Rightarrow> (formula_error, string list) res option" where
  "target_keys parse cat target tool a =
     (if target = ''report_domains'' then
        Some (res_map (valid_filter_keys cat) (get_domains_for_tool_call parse cat tool a))
      else if target = ''plan_datasets'' then Some (Inr (valid_plan_keys cat))
      else None)"

section \<open>Dimension maps and filters\<close>

record 'a validation =
  cleaned :: 'a
  errors :: "string list"
  warnings :: "string list"

datatype validation_error = UnknownTarget string | DomainLookup formula_error

text \<open>
  The loop over \<open>m.items()\<close>: an unknown key is an error and dropped, a known key outside the valid
  keys is dropped with a warning. Messages are represented by the key they are about.
\<close>

(* engine/context_validation.py:680-704 validate_dimension_map *)
definition check_map :: "dims \<Rightarrow> string list \<Rightarrow> (string \<times> 'v) list \<Rightarrow> (string, 'v) dict validation" where
  "check_map ds valid m =
     (let known = (\<lambda>k. is_ok (find_filter_target ds k)) in
      \<lparr>cleaned = filter (\<lambda>(k, _). known k \<and> k \<in> set valid) m,
       errors = map fst (filter (\<lambda>(k, _). \<not> known k) m),
       warnings = map fst (filter (\<lambda>(k, _). known k \<and> k \<notin> set valid) m)\<rparr>)"

(* engine/context_validation.py:645-706 validate_dimension_map *)
definition validate_dimension_map ::
  "'f parser \<Rightarrow> catalogue \<Rightarrow> (string, json) dict \<Rightarrow> string \<Rightarrow> string \<Rightarrow> args
     \<Rightarrow> (validation_error, (string, json) dict validation) res" where
  "validate_dimension_map parse cat m target tool a =
     (if m = [] then Inr \<lparr>cleaned = [], errors = [], warnings = []\<rparr>
      else case target_keys parse cat target tool a of
             None \<Rightarrow> Inl (UnknownTarget target)
           | Some keys \<Rightarrow> res_map (\<lambda>valid. check_map (dimensions cat) valid m) (res_wrap DomainLookup keys))"

(* engine/context_validation.py:390-460 validate_filters_for_report *)
definition validate_filters_for_report ::
  "'f parser \<Rightarrow> catalogue \<Rightarrow> (string, json) dict \<Rightarrow> string \<Rightarrow> args
     \<Rightarrow> (formula_error, (string, json) dict validation) res" where
  "validate_filters_for_report parse cat filters tool a =
     (if filters = [] then Inr \<lparr>cleaned = [], errors = [], warnings = []\<rparr>
      else res_map (\<lambda>ds. if ds = [] then \<lparr>cleaned = filters, errors = [], warnings = []\<rparr>
                         else check_map (dimensions cat) (valid_filter_keys cat ds) filters)
             (get_domains_for_tool_call parse cat tool a))"

definition lower :: "string \<Rightarrow> string" where
  "lower = map (\<lambda>c. if CHR ''A'' \<le> c \<and> c \<le> CHR ''Z'' then char_of (of_char c + 32 :: nat) else c)"

(* engine/context_validation.py:559-587 validate_dimensions_for_report *)
definition check_dims :: "string list \<Rightarrow> string list \<Rightarrow> string list \<Rightarrow> string list validation" where
  "check_dims report_valid all_valid names =
     \<lparr>cleaned = filter (\<lambda>d. d \<in> set report_valid \<or> d \<in> set all_valid) names,
      errors = filter (\<lambda>d. d \<notin> set report_valid \<and> d \<notin> set all_valid) names,
      warnings = filter (\<lambda>d. d \<notin> set report_valid \<and> d \<in> set all_valid) names\<rparr>"

(* engine/context_validation.py:516-587 validate_dimensions_for_report *)
definition validate_dimensions_for_report ::
  "'f parser \<Rightarrow> (json \<Rightarrow> string) \<Rightarrow> catalogue \<Rightarrow> json list \<Rightarrow> string \<Rightarrow> args
     \<Rightarrow> (formula_error, string list validation) res" where
  "validate_dimensions_for_report parse show cat dims_asked tool a =
     (if dims_asked = [] then Inr \<lparr>cleaned = [], errors = [], warnings = []\<rparr>
      else res_map (\<lambda>ds. check_dims (if ds = [] then [] else valid_dimension_keys cat ds)
               (valid_dimension_keys cat (dkeys (domains cat)))
               (filter (\<lambda>d. d \<noteq> []) (map (lower \<circ> strip \<circ> text_of show) dims_asked)))
             (get_domains_for_tool_call parse cat tool a))"

section \<open>What validation keeps\<close>

text \<open>A key a report over these domains can be filtered by: a parent chain above a bound leaf, or a ragged tree over it.\<close>

definition filterable_key :: "catalogue \<Rightarrow> string list \<Rightarrow> string \<Rightarrow> bool" where
  "filterable_key cat domains_asked k \<longleftrightarrow>
     (\<exists>n\<in>set domains_asked. \<exists>dc cd. dget (domains cat) n = Some dc \<and> cd \<in> set (dc_dimensions dc) \<and> \<not> source_inline cd
        \<and> ((cd_key cd, k) \<in> (parent_edges (dimensions cat))\<^sup>*
           \<or> (\<exists>d. (k, d) \<in> set (dimensions cat) \<and> is_ragged d \<and> dim_leaf_dimension d = cd_key cd)))"

lemma bound_leaves_iff:
  "leaf \<in> set (bound_leaves cat ns) \<longleftrightarrow>
     (\<exists>n\<in>set ns. \<exists>dc cd. dget (domains cat) n = Some dc \<and> cd \<in> set (dc_dimensions dc) \<and> \<not> source_inline cd \<and> cd_key cd = leaf)"
proof
  assume "leaf \<in> set (bound_leaves cat ns)"
  then obtain n cd where n: "n \<in> set ns" "cd \<in> set (case dget (domains cat) n of None \<Rightarrow> [] | Some dc \<Rightarrow> dc_dimensions dc)"
      "\<not> source_inline cd" "cd_key cd = leaf"
    unfolding bound_leaves_def domain_dims_def by auto
  then show "\<exists>n\<in>set ns. \<exists>dc cd. dget (domains cat) n = Some dc \<and> cd \<in> set (dc_dimensions dc) \<and> \<not> source_inline cd \<and> cd_key cd = leaf"
    by (cases "dget (domains cat) n") auto
next
  assume "\<exists>n\<in>set ns. \<exists>dc cd. dget (domains cat) n = Some dc \<and> cd \<in> set (dc_dimensions dc) \<and> \<not> source_inline cd \<and> cd_key cd = leaf"
  then obtain n dc cd where n: "n \<in> set ns" "dget (domains cat) n = Some dc" "cd \<in> set (dc_dimensions dc)"
      "\<not> source_inline cd" "cd_key cd = leaf" by blast
  then have "cd \<in> set (domain_dims cat ns)" unfolding domain_dims_def by (auto intro!: bexI [of _ n])
  then show "leaf \<in> set (bound_leaves cat ns)" unfolding bound_leaves_def using n by auto
qed

lemma ragged_over_iff:
  "k \<in> set (ragged_over cat leaves) \<longleftrightarrow>
     (\<exists>d. (k, d) \<in> set (dimensions cat) \<and> is_ragged d \<and> dim_leaf_dimension d \<in> set leaves)"
  unfolding ragged_over_def by force

lemma valid_filter_keys_iff: "k \<in> set (valid_filter_keys cat ns) \<longleftrightarrow> filterable_key cat ns k"
proof -
  have "k \<in> set (valid_filter_keys cat ns) \<longleftrightarrow> (\<exists>leaf\<in>set (bound_leaves cat ns).
      (leaf, k) \<in> (parent_edges (dimensions cat))\<^sup>* \<or> (\<exists>d. (k, d) \<in> set (dimensions cat) \<and> is_ragged d \<and> dim_leaf_dimension d = leaf))"
    unfolding valid_filter_keys_def Let_def set_append Un_iff ragged_over_iff walk_up_exact by blast
  then show ?thesis unfolding filterable_key_def Bex_def bound_leaves_iff by blast
qed

text \<open>
  C22: Which filters of a report call are kept. A filter is kept, with its value, exactly when its key is
  a dimension the filter resolver can resolve and it applies to some domain of the call, through a
  parent chain or a ragged hierarchy over a dimension bound to the domain that is not an inline axis;
  keys the catalogue cannot resolve, and only those, are reported as errors.
\<close>

theorem kept_filters_exact:
  assumes "validate_dimension_map parse cat m ''report_domains'' tool a = Inr r" and "m \<noteq> []"
  shows "\<exists>ns. get_domains_for_tool_call parse cat tool a = Inr ns
    \<and> (\<forall>k v. (k, v) \<in> set (cleaned r) \<longleftrightarrow>
          (k, v) \<in> set m \<and> is_ok (find_filter_target (dimensions cat) k) \<and> filterable_key cat ns k)
    \<and> (\<forall>k. k \<in> set (errors r) \<longleftrightarrow> k \<in> set (dkeys m) \<and> \<not> is_ok (find_filter_target (dimensions cat) k))"
proof -
  obtain ns where ns: "get_domains_for_tool_call parse cat tool a = Inr ns"
    and r: "r = check_map (dimensions cat) (valid_filter_keys cat ns) m"
    using assms by (auto simp: validate_dimension_map_def target_keys_def res_map_eq_Inr res_wrap_eq_Inr)
  have "k \<in> set (errors r) \<longleftrightarrow> k \<in> set (dkeys m) \<and> \<not> is_ok (find_filter_target (dimensions cat) k)" for k
    by (force simp: r check_map_def Let_def)
  moreover have "(k, v) \<in> set (cleaned r) \<longleftrightarrow>
      (k, v) \<in> set m \<and> is_ok (find_filter_target (dimensions cat) k) \<and> filterable_key cat ns k" for k v
    by (auto simp: r check_map_def Let_def valid_filter_keys_iff)
  ultimately show ?thesis using ns by blast
qed

lemma domain_search_correct:
  assumes "domain_search parse ms visited to_check = Inr found"
    and "\<And>k. k \<in> set visited \<Longrightarrow> (\<nexists>b. dget ms k = Some (BaseMetric b))
        \<and> set (formula_refs parse ms k) \<subseteq> set visited \<union> set to_check"
    and "set visited \<union> set to_check \<subseteq> {k. \<exists>s\<in>S. (s, k) \<in> {(u, v). v \<in> set (formula_refs parse ms u)}\<^sup>*}"
  shows "case found of
      Some d \<Rightarrow> \<exists>s\<in>S. \<exists>k b. (s, k) \<in> {(u, v). v \<in> set (formula_refs parse ms u)}\<^sup>* \<and> dget ms k = Some (BaseMetric b) \<and> bm_domain b = d
    | None \<Rightarrow> \<exists>C. set visited \<union> set to_check \<subseteq> C \<and> (\<forall>k\<in>C. set (formula_refs parse ms k) \<subseteq> C \<and> (\<nexists>b. dget ms k = Some (BaseMetric b)))"
  using assms
proof (induction parse ms visited to_check rule: domain_search.induct)
  case (1 parse ms visited to_check)
  let ?f = "formula_refs parse ms"
  let ?R = "{k. \<exists>s\<in>S. (s, k) \<in> {(u, v). v \<in> set (?f u)}\<^sup>*}"
  note step = domain_search.simps [of parse ms visited to_check]
  show ?case
  proof (cases "to_check = []")
    case True
    then have "found = None" using "1.prems"(1) step by simp
    then show ?thesis using "1.prems"(2) True by (auto intro!: exI [of _ "set visited"])
  next
    case False
    define key rest where "key = last to_check" and "rest = butlast to_check"
    then have split: "to_check = rest @ [key]" using False by simp
    then have all: "set visited \<union> set to_check = set visited \<union> insert key (set rest)" by simp
    show ?thesis
    proof (cases "key \<in> set visited")
      case seen: True
      have same: "set visited \<union> set to_check = set visited \<union> set rest" unfolding all using seen by auto
      have run: "domain_search parse ms visited rest = Inr found"
        using "1.prems"(1) step False seen by (simp add: key_def rest_def Let_def)
      show ?thesis unfolding same
        by (rule "1.IH"(1) [OF False key_def rest_def seen run]) (use "1.prems"(2,3) in \<open>unfold same, blast+\<close>)
    next
      case fresh: False
      show ?thesis
      proof (cases "dget ms key")
        case None
        have refs: "?f key = []" using None by (simp add: formula_refs_def)
        have same: "set visited \<union> set to_check = set (key # visited) \<union> set rest" unfolding all by auto
        have run: "domain_search parse ms (key # visited) rest = Inr found"
          using "1.prems"(1) step False fresh None by (simp add: key_def rest_def Let_def)
        have inv: "(\<nexists>b. dget ms k = Some (BaseMetric b)) \<and> set (?f k) \<subseteq> set (key # visited) \<union> set rest"
          if "k \<in> set (key # visited)" for k
          using "1.prems"(2) [of k] that refs None unfolding same by (cases "k = key") auto
        show ?thesis unfolding same
          by (rule "1.IH"(2) [OF False key_def rest_def fresh None run inv]) (use "1.prems"(3) in \<open>simp_all only: same\<close>)
      next
        case (Some m)
        show ?thesis
        proof (cases m)
          case (BaseMetric b)
          then have "found = Some (bm_domain b)"
            using "1.prems"(1) step False fresh Some by (simp add: key_def rest_def Let_def)
          moreover have "key \<in> ?R" using "1.prems"(3) unfolding all by blast
          ultimately show ?thesis using Some BaseMetric by auto
        next
          case (DerivedMetric d)
          obtain refs where refs: "metric_refs parse (formula d) = Inr refs"
            using "1.prems"(1) step False fresh Some DerivedMetric
            by (cases "metric_refs parse (formula d)") (simp_all add: key_def rest_def Let_def)
          then have f: "?f key = refs" using Some DerivedMetric by (simp add: formula_refs_def)
          have run: "domain_search parse ms (key # visited) (rest @ refs) = Inr found"
            using "1.prems"(1) step False fresh Some DerivedMetric refs by (simp add: key_def rest_def Let_def)
          have same: "set (key # visited) \<union> set (rest @ refs) = set visited \<union> set to_check \<union> set refs"
            unfolding all by auto
          have inv: "(\<nexists>b. dget ms k = Some (BaseMetric b)) \<and> set (?f k) \<subseteq> set (key # visited) \<union> set (rest @ refs)"
            if "k \<in> set (key # visited)" for k
            unfolding same using "1.prems"(2) [of k] that f Some DerivedMetric by (cases "k = key") auto
          have "key \<in> ?R" using "1.prems"(3) unfolding all by blast
          then have "set refs \<subseteq> ?R" using f by (auto intro: rtrancl_into_rtrancl)
          then have bound: "set (key # visited) \<union> set (rest @ refs) \<subseteq> ?R" unfolding same using "1.prems"(3) by blast
          have result: "case found of
              Some d \<Rightarrow> \<exists>s\<in>S. \<exists>k b. (s, k) \<in> {(u, v). v \<in> set (?f u)}\<^sup>* \<and> dget ms k = Some (BaseMetric b) \<and> bm_domain b = d
            | None \<Rightarrow> \<exists>C. set (key # visited) \<union> set (rest @ refs) \<subseteq> C
                \<and> (\<forall>k\<in>C. set (?f k) \<subseteq> C \<and> (\<nexists>b. dget ms k = Some (BaseMetric b)))"
            by (rule "1.IH"(3) [OF False key_def rest_def fresh Some DerivedMetric refs run inv bound])
          show ?thesis
          proof (cases found)
            case none: None
            from result show ?thesis unfolding same none option.case by blast
          next
            case some: (Some x)
            from result show ?thesis unfolding some option.case .
          qed
        qed
      qed
    qed
  qed
qed

text \<open>
  The domain of a metric. For any metric key, the search through derived formulas answers a domain
  only if some base metric the key leads to has it, and answers nothing only if no base metric can be
  reached; it always ends.
\<close>

theorem metric_domain_exact:
  assumes "resolve_metric_domain parse cat (JStr key) = Inr found"
  shows "case found of
      Some d \<Rightarrow> \<exists>k b. (key, k) \<in> {(u, v). v \<in> set (formula_refs parse (metrics cat) u)}\<^sup>*
          \<and> dget (metrics cat) k = Some (BaseMetric b) \<and> bm_domain b = d
    | None \<Rightarrow> \<forall>k. (key, k) \<in> {(u, v). v \<in> set (formula_refs parse (metrics cat) u)}\<^sup>* \<longrightarrow>
          (\<nexists>b. dget (metrics cat) k = Some (BaseMetric b))"
proof -
  let ?f = "formula_refs parse (metrics cat)"
  let ?E = "{(u, v). v \<in> set (?f u)}"
  have run: "domain_search parse (metrics cat) [] [key] = Inr found" using assms by (simp add: resolve_metric_domain_def)
  have spec: "case found of
      Some d \<Rightarrow> \<exists>s\<in>{key}. \<exists>k b. (s, k) \<in> ?E\<^sup>* \<and> dget (metrics cat) k = Some (BaseMetric b) \<and> bm_domain b = d
    | None \<Rightarrow> \<exists>C. set [] \<union> set [key] \<subseteq> C \<and> (\<forall>k\<in>C. set (?f k) \<subseteq> C \<and> (\<nexists>b. dget (metrics cat) k = Some (BaseMetric b)))"
    by (rule domain_search_correct [OF run]) auto
  show ?thesis
  proof (cases found)
    case None
    then obtain C where C: "key \<in> C" "\<forall>k\<in>C. set (?f k) \<subseteq> C \<and> (\<nexists>b. dget (metrics cat) k = Some (BaseMetric b))"
      using spec by auto
    have "k \<in> C" if "(key, k) \<in> ?E\<^sup>*" for k
      using that by (induction rule: rtrancl_induct) (use C in auto)
    then show ?thesis using None C(2) by auto
  next
    case (Some d)
    then show ?thesis using spec by simp
  qed
qed

section \<open>Saved report contexts\<close>

record issue =
  is_field :: string
  is_error :: bool
  is_key :: string

(* engine/context_validation.py:264-283 validate_report_context *)
definition context_filters :: "dims \<Rightarrow> (string, json) dict \<Rightarrow> (string, json) dict \<times> issue list" where
  "context_filters ds filters =
     (filter (\<lambda>(k, _). is_ok (find_filter_target ds k)) filters,
      map (\<lambda>(k, _). \<lparr>is_field = ''filters'', is_error = True, is_key = k\<rparr>)
        (filter (\<lambda>(k, _). \<not> is_ok (find_filter_target ds k)) filters))"

definition scenario_text :: "json \<Rightarrow> json" where
  "scenario_text s = (case s of JDict d \<Rightarrow> dget_or (JStr []) d ''scenario'' | _ \<Rightarrow> JStr [])"

text \<open>One saved scenario entry: kept, normalised, or reported. A key that is not text fails to resolve.\<close>

(* engine/context_validation.py:303-323 validate_report_context *)
definition context_scenario :: "registry option \<Rightarrow> json \<Rightarrow> json option" where
  "context_scenario reg s =
     (case (reg, scenario_text s) of
        (Some r, JStr key) \<Rightarrow>
          (case normalize_key r key of
             Inl _ \<Rightarrow> None
           | Inr normalized \<Rightarrow> Some (case s of
               JDict d \<Rightarrow> if normalized \<noteq> key then JDict (dset ''scenario'' (JStr normalized) d) else s
             | _ \<Rightarrow> s))
      | _ \<Rightarrow> None)"

(* engine/context_validation.py:234-327 validate_report_context *)
definition validate_report_context :: "catalogue \<Rightarrow> registry option \<Rightarrow> args \<Rightarrow> args \<times> issue list" where
  "validate_report_context cat reg ctx0 =
     (let (ctx1, i1) = (case dget_or (JDict []) ctx0 ''filters'' of
              JDict (f # fs) \<Rightarrow>
                (let (valid, issues) = context_filters (dimensions cat) (f # fs) in (dset ''filters'' (JDict valid) ctx0, issues))
            | _ \<Rightarrow> (ctx0, []));
          (ctx2, i2) = (case jget ctx1 ''statement'' of
              JStr (c # cs) \<Rightarrow> if dhas (c # cs) (statements cat) then (ctx1, [])
                 else (AList.delete ''statement'' ctx1, [\<lparr>is_field = ''statement'', is_error = True, is_key = c # cs\<rparr>])
            | _ \<Rightarrow> (ctx1, []));
          (ctx3, i3) = (case dget_or (JList []) ctx2 ''scenarios'' of
              JList (s # ss) \<Rightarrow>
                (let valid = List.map_filter (context_scenario reg) (s # ss) in
                 (if valid \<noteq> s # ss then dset ''scenarios'' (JList valid) ctx2 else ctx2,
                  map (\<lambda>s. \<lparr>is_field = ''scenarios'', is_error = False, is_key = text_of (\<lambda>_. []) (scenario_text s)\<rparr>)
                    (filter (\<lambda>s. context_scenario reg s = None) (s # ss))))
            | _ \<Rightarrow> (ctx2, []))
      in (ctx3, i1 @ i2 @ i3))"

(* engine/context_validation.py:330-383 validate_filter_values *)
definition validate_filter_values :: "(json \<Rightarrow> string) \<Rightarrow> catalogue \<Rightarrow> warehouse \<Rightarrow> (string, json) dict \<Rightarrow> issue list" where
  "validate_filter_values show cat wh filters =
     map (\<lambda>(k, _). \<lparr>is_field = ''filters'', is_error = True, is_key = k\<rparr>)
       (filter (\<lambda>(k, v). \<not> is_ok (resolve_filters cat wh ''pnl'' [(k, text_of show v)])) filters)"

section \<open>Examples\<close>

text \<open>The example cost ledger with a \<open>pnl\<close> domain bound to its cost centres.\<close>

definition pnl_domain :: domain_catalogue where
  "pnl_domain = \<lparr>dc_domain = ''pnl'', source_view = ''semantic.v_pnl'', dc_metrics = [],
     dc_dimensions = [\<lparr>cd_key = ''cost_centre'', cd_label = ''Cost centre'', cd_source = ''cost_centre'',
       source_inline = False, filterable = True\<rparr>],
     versioned = False, native_grain_column = ''period'', backend = [], dc_backend_kind = ClickHouse,
     inspect_enabled = True, inspect_columns = []\<rparr>"

definition leaf_dim :: "string \<Rightarrow> (string, parent_relationship) dict \<Rightarrow> dimension" where
  "leaf_dim key = example_dim key (Some \<lparr>ds_table = ''semantic.'' @ key, ds_key_column = ''id'', attribute_mapping = []\<rparr>)"

definition ledger_catalogue :: catalogue where
  "ledger_catalogue = example_catalogue
     \<lparr>domains := [(''pnl'', pnl_domain)],
      dimensions := [(''cost_centre'', leaf_dim ''cost_centre'' [(''department'', \<lparr>pr_source_column = ''dept''\<rparr>)]),
        (''department'', department_dim), (''project'', leaf_dim ''project'' [])]\<rparr>"

definition metric_call :: args where
  "metric_call = [(''metrics'', JList [JStr ''ratio''])]"

lemma ratio_domain: "domain_search example_parse (metrics ledger_catalogue) [] [''ratio''] = Inr (Some ''pnl'')"
proof -
  let ?ms = "metrics ledger_catalogue"
  have m: "dget ?ms ''ratio'' = Some (example_derived ''ratio'' ''margin / revenue'')"
      "dget ?ms ''revenue'' = Some (example_base ''revenue'')"
    by (simp_all add: ledger_catalogue_def example_catalogue_def)
  have refs: "metric_refs example_parse ''margin / revenue'' = Inr [''margin'', ''revenue'']" by code_simp
  have "domain_search example_parse ?ms [''ratio''] [''margin'', ''revenue''] = Inr (Some ''pnl'')"
    by (subst domain_search.simps) (simp add: m example_base_def)
  then show ?thesis by (subst domain_search.simps) (simp add: m example_derived_def refs)
qed

theorem kept_filters_exact_witness:
  "validate_dimension_map example_parse ledger_catalogue
       [(''department'', JStr ''Cloud''), (''project'', JStr ''P1''), (''colour'', JStr ''red'')]
       ''report_domains'' ''run_metric'' metric_call
     = Inr \<lparr>cleaned = [(''department'', JStr ''Cloud'')], errors = [''colour''], warnings = [''project'']\<rparr>
   \<and> filterable_key ledger_catalogue [''pnl''] ''department''"
proof -
  let ?m = "[(''department'', JStr ''Cloud''), (''project'', JStr ''P1''), (''colour'', JStr ''red'')]"
  have ns: "get_domains_for_tool_call example_parse ledger_catalogue ''run_metric'' metric_call = Inr [''pnl'']"
    by (simp add: get_domains_for_tool_call_def metric_call_def dget_or_def elements_def add_domain_def
        resolve_metric_domain_def ratio_domain add_ref_def)
  have "valid_filter_keys ledger_catalogue [''pnl''] = [''department'', ''cost_centre'']" by code_simp
  then have kept: "check_map (dimensions ledger_catalogue) (valid_filter_keys ledger_catalogue [''pnl'']) ?m
     = \<lparr>cleaned = [(''department'', JStr ''Cloud'')], errors = [''colour''], warnings = [''project'']\<rparr>"
    by (simp only:) code_simp
  have run: "validate_dimension_map example_parse ledger_catalogue ?m ''report_domains'' ''run_metric'' metric_call
     = Inr \<lparr>cleaned = [(''department'', JStr ''Cloud'')], errors = [''colour''], warnings = [''project'']\<rparr>"
    unfolding validate_dimension_map_def target_keys_def by (simp add: ns res_wrap_def kept)
  obtain ns where "get_domains_for_tool_call example_parse ledger_catalogue ''run_metric'' metric_call = Inr ns"
      "(''department'', JStr ''Cloud'') \<in> set [(''department'', JStr ''Cloud'')] \<longleftrightarrow>
         (''department'', JStr ''Cloud'') \<in> set ?m
         \<and> is_ok (find_filter_target (dimensions ledger_catalogue) ''department'') \<and> filterable_key ledger_catalogue ns ''department''"
    using kept_filters_exact [OF run] unfolding validation.simps by blast
  then show ?thesis using ns run by simp
qed

theorem metric_domain_exact_witness:
  "resolve_metric_domain example_parse ledger_catalogue (JStr ''ratio'') = Inr (Some ''pnl'')
   \<and> (\<exists>k b. dget (metrics ledger_catalogue) k = Some (BaseMetric b) \<and> bm_domain b = ''pnl'')"
proof -
  have run: "resolve_metric_domain example_parse ledger_catalogue (JStr ''ratio'') = Inr (Some ''pnl'')"
    by (simp add: resolve_metric_domain_def ratio_domain)
  from metric_domain_exact [OF run] run show ?thesis by auto
qed

end
