(* ===== verification/Gate.thy ===== *)
theory Gate
  imports ContextValidation
begin

text \<open>
  The tool-call gate (\<open>dispatch.py\<close>): the descriptors of the tools, the expansion of a scenario
  reference to the scenario ids a caller must hold, the permission gate that publishes the scope of a
  call, and the pipeline every tool call goes through before the tool runs.

  The published scope is a context variable of the code; here it is the last argument and the last
  result of the operations that write it. A set of ids is a list that enumerates it, so which of
  several denials is reported first is fixed here and open in the code.
\<close>

section \<open>Descriptors\<close>

(* dispatch.py:56-88 ToolDescriptor *)
record tool_descriptor =
  td_name :: string
  td_skills :: "string list"
  td_access :: string
  mcp_read :: bool
  mcp_artifact :: bool
  scenario_params :: "string list"
  default_scenario :: string
  report_context :: "string list"
  dimension_map_args :: "(string, string) dict"

(* dispatch.py:91-94 _VALID_REPORT_CONTEXT_KEYS *)
definition VALID_REPORT_CONTEXT_KEYS :: "string list" where
  "VALID_REPORT_CONTEXT_KEYS =
     [''filters'', ''statement'', ''scenarios'', ''scale'', ''decimals'', ''period_start'', ''period_end'']"

text \<open>An entry of the tool catalogue; every field may be absent.\<close>

record tool_meta =
  tm_skills :: "string list option"
  tm_access :: "string option"
  tm_mcp_read :: "bool option"
  tm_mcp_artifact :: "bool option"
  tm_scenario_params :: "string list option"
  tm_default_scenario :: "string option"
  tm_report_context :: "string list option"
  tm_dimension_map_args :: "(string, string) dict option"

definition or_else :: "'a option \<Rightarrow> 'a \<Rightarrow> 'a" where
  "or_else x d = (case x of Some v \<Rightarrow> v | None \<Rightarrow> d)"

(* dispatch.py:443-454 build_descriptors *)
definition descriptor_of :: "string \<Rightarrow> tool_meta \<Rightarrow> tool_descriptor" where
  "descriptor_of name meta =
     \<lparr>td_name = name, td_skills = or_else (tm_skills meta) [], td_access = or_else (tm_access meta) ''read'',
      mcp_read = or_else (tm_mcp_read meta) False, mcp_artifact = or_else (tm_mcp_artifact meta) False,
      scenario_params = or_else (tm_scenario_params meta) [],
      default_scenario = or_else (tm_default_scenario meta) [],
      report_context = or_else (tm_report_context meta) [],
      dimension_map_args = or_else (tm_dimension_map_args meta) []\<rparr>"

datatype build_error =
    Unregistered "string list"
  | Uncatalogued string
  | UnknownContextKeys string "string list"

(* dispatch.py:423-454 build_descriptors *)
definition build_one :: "(string, tool_meta) dict \<Rightarrow> string \<Rightarrow> (build_error, string \<times> tool_descriptor) res" where
  "build_one catalogue name =
     (case dget catalogue name of
        None \<Rightarrow> Inl (Uncatalogued name)
      | Some meta \<Rightarrow>
          let unknown = sorted_diff (or_else (tm_report_context meta) []) VALID_REPORT_CONTEXT_KEYS
          in if unknown \<noteq> [] then Inl (UnknownContextKeys name unknown) else Inr (name, descriptor_of name meta))"

text \<open>
  The registered functions are a dictionary keyed by tool name; its keys are all the model needs of it.
\<close>

(* dispatch.py:393-455 build_descriptors *)
definition build_descriptors ::
  "string list \<Rightarrow> bool \<Rightarrow> string list \<Rightarrow> (string, tool_meta) dict
     \<Rightarrow> (build_error, (string, tool_descriptor) dict) res" where
  "build_descriptors registered customer_managed ingestion_names tool_catalogue =
     (let catalogue = (if customer_managed then filter (\<lambda>(n, _). n \<notin> set ingestion_names) tool_catalogue else tool_catalogue);
          unregistered = sorted_diff (dkeys catalogue) registered
      in if unregistered \<noteq> [] then Inl (Unregistered unregistered)
         else res_mapM (build_one catalogue) registered)"

section \<open>The scenarios a reference reads\<close>

(* dispatch.py:691-696 _expand_scenario_ref_for_permissions *)
definition split_ref :: "string \<Rightarrow> string \<times> (string, string) dict" where
  "split_ref ref = (case parse_scenario_modifiers ref of
      Inr bm \<Rightarrow> bm | Inl _ \<Rightarrow> (takeWhile (\<lambda>c. c \<noteq> CHR ''&'') ref, []))"

text \<open>The dependencies of a key of the registry, or the key itself when it has none.\<close>

(* dispatch.py:698-716 _expand_scenario_ref_for_permissions *)
definition ids_or_literal :: "registry option \<Rightarrow> string \<Rightarrow> string list" where
  "ids_or_literal reg key =
     (case reg of
        None \<Rightarrow> [key]
      | Some r \<Rightarrow> (case expand_dependencies r key of Inr (d # ds) \<Rightarrow> d # ds | _ \<Rightarrow> [key]))"

(* dispatch.py:734-739 _expand_scenario_ref_for_permissions *)
definition parent_by_id :: "registry \<Rightarrow> (string, string option) dict" where
  "parent_by_id r = fold (\<lambda>s. dset (scenario_id s) (variant_of s)) (real_scenarios r) []"

definition parent_of :: "registry \<Rightarrow> string \<Rightarrow> string option" where
  "parent_of r sid = (case dget (parent_by_id r) sid of Some (Some p) \<Rightarrow> if p = [] then None else Some p | _ \<Rightarrow> None)"

(* dispatch.py:678-746 _expand_scenario_ref_for_permissions *)
definition expand_scenario_ref :: "registry option \<Rightarrow> string \<Rightarrow> string list" where
  "expand_scenario_ref reg ref =
     (let (base, mods) = split_ref ref; base_ids = ids_or_literal reg base in
      case dget mods ''fork'' of
        None \<Rightarrow> base_ids
      | Some target \<Rightarrow>
          if target \<noteq> [] then base_ids @ ids_or_literal reg target
          else (case reg of
                  Some r \<Rightarrow> base_ids @ List.map_filter (parent_of r) base_ids
                | None \<Rightarrow> base_ids @ [base @ ''&fork'']))"

section \<open>The permission gate\<close>

type_synonym call_scope = "(string, scope_spec option) dict option"

datatype gate_error =
    AdminRequired string
  | ScenarioRequired string
  | NoAccess string
  | RoleTooLow string string string string

(* dispatch.py:906-917 _permission_gate *)
definition check_scenario ::
  "user_permissions \<Rightarrow> tool_descriptor \<Rightarrow> (string, scope_spec option) dict \<Rightarrow> string
     \<Rightarrow> (gate_error, (string, scope_spec option) dict) res" where
  "check_scenario perms d acc sid =
     (case dget (perm_scenarios perms) sid of
        None \<Rightarrow> Inl (NoAccess sid)
      | Some sp \<Rightarrow>
          (case dget (tool_scopes sp) (td_access d) of
             None \<Rightarrow> Inl (RoleTooLow (effective_role sp) (td_name d) (td_access d) sid)
           | Some scope \<Rightarrow> Inr (dset sid scope acc)))"

(* dispatch.py:901-917 _permission_gate *)
definition check_scenarios ::
  "registry option \<Rightarrow> user_permissions \<Rightarrow> tool_descriptor \<Rightarrow> string list
     \<Rightarrow> (gate_error, (string, scope_spec option) dict) res" where
  "check_scenarios reg perms d refs =
     res_foldM (check_scenario perms d) [] (concat (map (expand_scenario_ref reg) refs))"

(* dispatch.py:858-923 _permission_gate *)
definition permission_gate ::
  "registry option \<Rightarrow> (json \<Rightarrow> string) \<Rightarrow> user_permissions \<Rightarrow> tool_descriptor \<Rightarrow> args \<Rightarrow> call_scope
     \<Rightarrow> gate_error option \<times> call_scope" where
  "permission_gate reg show perms d a scope =
     (if td_access d = ''admin'' then
        (if perm_admin perms then None else Some (AdminRequired (td_name d)), scope)
      else if td_access d = ''general'' then (None, scope)
      else
        let refs = extract_scenario_ids show a (scenario_params d) in
        if refs = [] then
          (if td_access d = ''write'' \<or> td_access d = ''plan_manager'' then Some (ScenarioRequired (td_name d)) else None, scope)
        else case check_scenarios reg perms d refs of
               Inl e \<Rightarrow> (Some e, scope)
             | Inr per_scenario \<Rightarrow>
                 (None, if list_ex (\<lambda>(_, v). v \<noteq> None) per_scenario then Some per_scenario else scope))"

section \<open>The pipeline of a tool call\<close>

datatype call_error =
    BadListEntry string nat
  | Denied gate_error
  | MapRejected string "string list"
  | DimensionsRejected "string list"

datatype call_exception =
    MapFailed validation_error
  | NotAMap string
  | DimensionsFailed formula_error

type_synonym call_result = "(call_exception, args \<times> call_error option) res"

(* dispatch.py:808-815 process_tool_call *)
definition inject_default_scenario :: "(json \<Rightarrow> string) \<Rightarrow> tool_descriptor \<Rightarrow> args \<Rightarrow> args" where
  "inject_default_scenario show d a =
     (case scenario_params d of
        [] \<Rightarrow> a
      | p # ps \<Rightarrow>
          if default_scenario d \<noteq> [] \<and> extract_scenario_ids show a (p # ps) = []
          then dset p (JList [JDict [(''scenario'', JStr (default_scenario d))]]) a else a)"

(* dispatch.py:827-840 process_tool_call *)
fun check_maps ::
  "(args \<Rightarrow> string \<Rightarrow> (string, json) dict \<Rightarrow> (validation_error, (string, json) dict validation) res)
     \<Rightarrow> (string \<times> string) list \<Rightarrow> args \<Rightarrow> call_result" where
  "check_maps validate [] a = Inr (a, None)"
| "check_maps validate ((arg_name, target) # rest) a =
     (let m = jget a arg_name in
      if \<not> truthy m then check_maps validate rest a
      else case m of
             JDict entries \<Rightarrow>
               (case validate a target entries of
                  Inl e \<Rightarrow> Inl (MapFailed e)
                | Inr r \<Rightarrow>
                    let a' = dset arg_name (JDict (cleaned r)) a in
                    if errors r \<noteq> [] then Inr (a', Some (MapRejected arg_name (errors r)))
                    else check_maps validate rest a')
           | _ \<Rightarrow> Inl (NotAMap arg_name))"

(* dispatch.py:843-853 process_tool_call *)
definition check_dimensions_arg ::
  "'f parser \<Rightarrow> (json \<Rightarrow> string) \<Rightarrow> catalogue \<Rightarrow> tool_descriptor \<Rightarrow> args \<Rightarrow> call_result" where
  "check_dimensions_arg parse show cat d a =
     (if \<not> truthy (jget a ''dimensions'') then Inr (a, None)
      else case validate_dimensions_for_report parse show cat (elements (jget a ''dimensions'')) (td_name d) a of
             Inl e \<Rightarrow> Inl (DimensionsFailed e)
           | Inr r \<Rightarrow> Inr (dset ''dimensions'' (JList (map JStr (cleaned r))) a,
                            if errors r \<noteq> [] then Some (DimensionsRejected (errors r)) else None))"

(* dispatch.py:823-855 process_tool_call *)
definition validate_call ::
  "'f parser \<Rightarrow> (json \<Rightarrow> string) \<Rightarrow> catalogue option \<Rightarrow> tool_descriptor \<Rightarrow> args \<Rightarrow> call_result" where
  "validate_call parse show cat d a =
     (case cat of
        None \<Rightarrow> Inr (a, None)
      | Some c \<Rightarrow>
          res_bind (check_maps (\<lambda>a target m. validate_dimension_map parse c m target (td_name d) a) (dimension_map_args d) a)
            (\<lambda>(a', err). if err \<noteq> None then Inr (a', err) else check_dimensions_arg parse show c d a'))"

(* dispatch.py:749-855 process_tool_call *)
definition process_tool_call ::
  "'f parser \<Rightarrow> (string \<Rightarrow> json option) \<Rightarrow> (json \<Rightarrow> string) \<Rightarrow> registry option \<Rightarrow> user_permissions
     \<Rightarrow> catalogue option \<Rightarrow> tool_descriptor \<Rightarrow> args \<Rightarrow> args \<Rightarrow> call_scope \<Rightarrow> call_result \<times> call_scope" where
  "process_tool_call parse loads show reg perms cat d tool_args context scope0 =
     (let scope = None; (a1, bad_entry) = check_list_params (coerce_params loads tool_args) in
      case bad_entry of
        Some (param, i) \<Rightarrow> (Inr (a1, Some (BadListEntry param i)), scope)
      | None \<Rightarrow>
          let a2 = (if report_context d \<noteq> [] then apply_report_context a1 context (report_context d) else a1);
              a3 = inject_default_scenario show d a2;
              (denied, scope') = permission_gate reg show perms d a3 scope
          in case denied of
               Some e \<Rightarrow> (Inr (a3, Some (Denied e)), scope')
             | None \<Rightarrow> (validate_call parse show cat d a3, scope'))"

section \<open>What a published scope covers\<close>

text \<open>The scope a caller's permissions give a class of tools on a scenario.\<close>

definition granted :: "user_permissions \<Rightarrow> string \<Rightarrow> string \<Rightarrow> scope_spec option \<Rightarrow> bool" where
  "granted perms acc sid s \<longleftrightarrow> (\<exists>sp. dget (perm_scenarios perms) sid = Some sp \<and> dget (tool_scopes sp) acc = Some s)"

lemma check_scenario_eq:
  "check_scenario perms d acc sid = Inr m \<longleftrightarrow> (\<exists>s. granted perms (td_access d) sid s \<and> m = dset sid s acc)"
  by (auto simp: check_scenario_def granted_def split: option.splits)

lemma granted_unique: "granted perms acc sid s \<Longrightarrow> granted perms acc sid t \<Longrightarrow> s = t"
  by (auto simp: granted_def)

lemma check_scenario_fold:
  "res_foldM (check_scenario perms d) acc sids = Inr m \<Longrightarrow>
     (\<forall>sid\<in>set sids. \<exists>s. granted perms (td_access d) sid s \<and> dget m sid = Some s)
     \<and> (\<forall>sid. sid \<notin> set sids \<longrightarrow> dget m sid = dget acc sid)"
proof (induction sids arbitrary: acc)
  case (Cons sid sids)
  obtain s where s: "granted perms (td_access d) sid s"
    and rest: "res_foldM (check_scenario perms d) (dset sid s acc) sids = Inr m"
    using Cons.prems by (auto simp: res_bind_eq_Inr check_scenario_eq)
  note IH = Cons.IH [OF rest]
  show ?case
  proof (cases "sid \<in> set sids")
    case True
    then show ?thesis using IH by (auto simp: dget_dset)
  next
    case False
    then have "dget m sid = Some s" using IH by (simp add: dget_dset)
    then show ?thesis using IH s by (auto simp: dget_dset)
  qed
qed simp

lemma check_scenarios_ok:
  assumes "check_scenarios reg perms d refs = Inr m"
  shows "ref \<in> set refs \<Longrightarrow> sid \<in> set (expand_scenario_ref reg ref) \<Longrightarrow>
      \<exists>s. granted perms (td_access d) sid s \<and> dget m sid = Some s"
    and "dget m sid = Some s \<Longrightarrow> \<exists>ref\<in>set refs. sid \<in> set (expand_scenario_ref reg ref) \<and> granted perms (td_access d) sid s"
proof -
  note facts = check_scenario_fold [OF assms [unfolded check_scenarios_def]]
  show "ref \<in> set refs \<Longrightarrow> sid \<in> set (expand_scenario_ref reg ref) \<Longrightarrow>
      \<exists>s. granted perms (td_access d) sid s \<and> dget m sid = Some s" using facts by auto
  assume m: "dget m sid = Some s"
  then have "sid \<in> set (concat (map (expand_scenario_ref reg) refs))" using facts by fastforce
  then show "\<exists>ref\<in>set refs. sid \<in> set (expand_scenario_ref reg ref) \<and> granted perms (td_access d) sid s"
    using facts m by fastforce
qed

definition scoped :: "tool_descriptor \<Rightarrow> bool" where
  "scoped d \<longleftrightarrow> td_access d \<noteq> ''admin'' \<and> td_access d \<noteq> ''general''"

lemma gate_passed:
  assumes "permission_gate reg show perms d a None = (None, scope)" and "scoped d"
    and "ref \<in> set (extract_scenario_ids show a (scenario_params d))" and "sid \<in> set (expand_scenario_ref reg ref)"
  shows "\<exists>s. granted perms (td_access d) sid s \<and> (case scope of None \<Rightarrow> s = None | Some m \<Rightarrow> dget m sid = Some s)"
proof -
  obtain m where m: "check_scenarios reg perms d (extract_scenario_ids show a (scenario_params d)) = Inr m"
    and scope: "scope = (if list_ex (\<lambda>(_, v). v \<noteq> None) m then Some m else None)"
    using assms(1-3) by (auto simp: permission_gate_def scoped_def Let_def split: if_splits sum.splits)
  obtain s where s: "granted perms (td_access d) sid s" "dget m sid = Some s"
    using check_scenarios_ok(1) [OF m assms(3,4)] by blast
  have "(sid, s) \<in> set m" using s(2) by (rule map_of_SomeD)
  then show ?thesis using s by (auto simp: scope list_ex_iff)
qed

lemma gate_scope:
  assumes "permission_gate reg show perms d a None = (err, Some m)"
  shows "err = None \<and> scoped d"
    and "dget m sid = Some s \<longleftrightarrow> (\<exists>ref\<in>set (extract_scenario_ids show a (scenario_params d)).
          sid \<in> set (expand_scenario_ref reg ref)) \<and> granted perms (td_access d) sid s"
    and "\<exists>sid s. dget m sid = Some (Some s)"
proof -
  have m: "check_scenarios reg perms d (extract_scenario_ids show a (scenario_params d)) = Inr m"
    and ex: "list_ex (\<lambda>(_, v). v \<noteq> None) m" and err: "err = None \<and> scoped d"
    using assms by (auto simp: permission_gate_def scoped_def Let_def split: if_splits sum.splits)
  show "err = None \<and> scoped d" by (rule err)
  show "dget m sid = Some s \<longleftrightarrow> (\<exists>ref\<in>set (extract_scenario_ids show a (scenario_params d)).
          sid \<in> set (expand_scenario_ref reg ref)) \<and> granted perms (td_access d) sid s"
    using check_scenarios_ok [OF m] granted_unique by metis
  have wf: "wf_dict m"
    using m unfolding check_scenarios_def
    by (rule res_foldM_invariant) (auto simp: check_scenario_eq wf_dict_dset)
  obtain sid s where "(sid, Some s) \<in> set m" using ex by (auto simp: list_ex_iff)
  then have "dget m sid = Some (Some s)" using wf by (simp add: wf_dict_def)
  then show "\<exists>sid s. dget m sid = Some (Some s)" by blast
qed

section \<open>The arguments a tool runs with\<close>

lemma extract_cong:
  "(\<And>p. p \<in> set params \<Longrightarrow> jget a p = jget b p) \<Longrightarrow> extract_scenario_ids show a params = extract_scenario_ids show b params"
  unfolding extract_scenario_ids_def by (rule List.fold_cong) auto

lemma check_maps_keeps:
  "check_maps validate maps a = Inr (a', err) \<Longrightarrow> p \<notin> fst ` set maps \<Longrightarrow> jget a' p = jget a p"
proof (induction validate maps a rule: check_maps.induct)
  case (2 validate arg_name target rest a)
  show ?case
  proof (cases "truthy (jget a arg_name)")
    case False
    then show ?thesis using 2 by (simp add: Let_def)
  next
    case True
    then obtain entries where m: "jget a arg_name = JDict entries"
      using "2.prems"(1) by (auto simp: Let_def split: json.splits)
    then obtain r where r: "validate a target entries = Inr r"
      using "2.prems"(1) True by (auto simp: Let_def split: sum.splits)
    show ?thesis
    proof (cases "errors r = []")
      case False
      then show ?thesis using "2.prems" m r True by (auto simp: Let_def jget_dset)
    next
      case ok: True
      have run: "check_maps validate rest (dset arg_name (JDict (cleaned r)) a) = Inr (a', err)"
        using "2.prems"(1) True m r ok by (simp add: Let_def)
      have "jget a' p = jget (dset arg_name (JDict (cleaned r)) a) p"
        by (rule "2.IH"(2)) (use True m r ok run "2.prems"(2) in auto)
      then show ?thesis using "2.prems"(2) by (simp add: jget_dset)
    qed
  qed
qed simp

lemma validate_call_keeps:
  assumes "validate_call parse show cat d a = Inr (a', err)" and "p \<notin> set (dkeys (dimension_map_args d))" "p \<noteq> ''dimensions''"
  shows "jget a' p = jget a p"
proof (cases cat)
  case None
  then show ?thesis using assms(1) by (simp add: validate_call_def)
next
  case (Some c)
  obtain b e where b: "check_maps (\<lambda>a target m. validate_dimension_map parse c m target (td_name d) a) (dimension_map_args d) a = Inr (b, e)"
    and rest: "(if e \<noteq> None then Inr (b, e) else check_dimensions_arg parse show c d b) = Inr (a', err)"
    using assms(1) Some by (auto simp: validate_call_def res_bind_eq_Inr)
  have "jget b p = jget a p" using check_maps_keeps [OF b] assms(2) by simp
  moreover have "jget a' p = jget b p"
    using rest assms(3) by (auto simp: check_dimensions_arg_def jget_dset split: if_splits sum.splits)
  ultimately show ?thesis by simp
qed

text \<open>The validations reject a call only for a map or its dimensions.\<close>

lemma check_maps_errors:
  "check_maps validate maps a = Inr (a', Some err) \<Longrightarrow> \<exists>n ks. err = MapRejected n ks"
  by (induction validate maps a rule: check_maps.induct)
    (auto simp: Let_def split: if_splits json.splits sum.splits)

lemma validate_call_errors:
  "validate_call parse show cat d a = Inr (a', Some err) \<Longrightarrow> (\<exists>n ks. err = MapRejected n ks) \<or> (\<exists>ks. err = DimensionsRejected ks)"
  by (auto simp: validate_call_def check_dimensions_arg_def res_bind_eq_Inr dest: check_maps_errors
      split: option.splits if_splits sum.splits)

text \<open>Scenario parameters are never dimension maps nor the dimension list.\<close>

definition scenario_params_apart :: "tool_descriptor \<Rightarrow> bool" where
  "scenario_params_apart d \<longleftrightarrow>
     set (scenario_params d) \<inter> insert ''dimensions'' (set (dkeys (dimension_map_args d))) = {}"

lemma call_stages:
  assumes "process_tool_call parse loads show reg perms cat d tool_args ctx scope0 = (Inr (a', err), scope)"
    and "scenario_params_apart d" and "\<And>param i. err \<noteq> Some (BadListEntry param i)" "\<And>e. err \<noteq> Some (Denied e)"
  obtains a where "permission_gate reg show perms d (inject_default_scenario show d a) None = (None, scope)"
    "extract_scenario_ids show a' (scenario_params d)
       = extract_scenario_ids show (inject_default_scenario show d a) (scenario_params d)"
proof -
  obtain a1 where a1: "check_list_params (coerce_params loads tool_args) = (a1, None)"
    using assms(1,3) by (cases "check_list_params (coerce_params loads tool_args)")
      (auto simp: process_tool_call_def split: option.splits prod.splits)
  define a where "a = (if report_context d \<noteq> [] then apply_report_context a1 ctx (report_context d) else a1)"
  obtain e where gate: "permission_gate reg show perms d (inject_default_scenario show d a) None = (e, scope)"
    and rest: "(case e of Some x \<Rightarrow> Inr (inject_default_scenario show d a, Some (Denied x))
        | None \<Rightarrow> validate_call parse show cat d (inject_default_scenario show d a)) = Inr (a', err)"
    using assms(1) a1 unfolding process_tool_call_def a_def
    by (auto simp: Let_def split: prod.splits option.splits)
  have e: "e = None" using rest assms(4) by (cases e) auto
  have "jget a' p = jget (inject_default_scenario show d a) p" if "p \<in> set (scenario_params d)" for p
    using validate_call_keeps [of parse "show" cat d _ a' err p] rest e that assms(2)
    by (auto simp: scenario_params_apart_def)
  then show ?thesis using that gate e extract_cong by blast
qed

lemma default_is_extracted:
  assumes "default_scenario d \<noteq> []" and "scenario_params d \<noteq> []"
  shows "extract_scenario_ids show (inject_default_scenario show d a) (scenario_params d) \<noteq> []"
proof -
  obtain p ps where ps: "scenario_params d = p # ps" using assms(2) by (cases "scenario_params d") auto
  have "default_scenario d \<in> value_refs show (JList [JDict [(''scenario'', JStr (default_scenario d))]])"
    using assms(1) by (simp add: value_refs_def entry_ref_def dget_or_def)
  then have "default_scenario d \<in> set (extract_scenario_ids show
      (dset p (JList [JDict [(''scenario'', JStr (default_scenario d))]]) a) (p # ps))"
    unfolding extract_scenario_ids_set by (auto simp: jget_dset)
  then show ?thesis using assms(1) unfolding inject_default_scenario_def ps by auto
qed

text \<open>
  C2: A tool call that is let through is covered by the caller's permissions. For a read, write or
  planning tool, every scenario id behind every scenario reference in the arguments the tool runs with
  (bases of aliases, both sides of comparisons, fork targets) is one on which the caller's profile
  grants this class of tools, and the published scope carries the granted restriction of that id; when
  nothing is published, the id is unrestricted.
\<close>

theorem call_covered_by_permissions:
  assumes "process_tool_call parse loads show reg perms cat d tool_args ctx scope0 = (Inr (a', None), scope)"
    and "scoped d" and "scenario_params_apart d"
    and "ref \<in> set (extract_scenario_ids show a' (scenario_params d))" and "sid \<in> set (expand_scenario_ref reg ref)"
  shows "\<exists>s. granted perms (td_access d) sid s \<and> (case scope of None \<Rightarrow> s = None | Some m \<Rightarrow> dget m sid = Some s)"
  using assms(1,3) by (rule call_stages) (use assms(2,4,5) gate_passed in auto)

text \<open>
  No scenario tool runs without a scenario. A tool with a default scenario, and every write or
  planning tool, runs only with arguments that name at least one scenario, so that the scope of the
  call is decided by the permission gate and not by a default inside the tool.
\<close>

theorem scenario_tools_name_a_scenario:
  assumes "process_tool_call parse loads show reg perms cat d tool_args ctx scope0 = (Inr (a', None), scope)"
    and "scenario_params_apart d"
    and "default_scenario d \<noteq> [] \<and> scenario_params d \<noteq> [] \<or> td_access d \<in> {''write'', ''plan_manager''}"
  shows "extract_scenario_ids show a' (scenario_params d) \<noteq> []"
proof (rule call_stages [OF assms(1,2)])
  fix a
  assume gate: "permission_gate reg show perms d (inject_default_scenario show d a) None = (None, scope)"
    and same: "extract_scenario_ids show a' (scenario_params d)
       = extract_scenario_ids show (inject_default_scenario show d a) (scenario_params d)"
  show ?thesis
    unfolding same using assms(3) default_is_extracted [of d "show" a] gate
    by (auto simp: permission_gate_def Let_def split: if_splits)
qed simp_all

text \<open>
  What a call publishes. Whatever scope an earlier call left behind, a call publishes either
  nothing or a map that passed the gate: it holds exactly the scenario ids behind the references of
  some arguments of this call, each with the restriction the caller's permissions grant this class of
  tools, and at least one of them is restricted. A call refused for its shape or by the gate publishes nothing.
\<close>

theorem published_scope_exact:
  assumes "process_tool_call parse loads show reg perms cat d tool_args ctx scope0 = (outcome, scope)"
  shows "scope = None \<or> (\<exists>m a. scope = Some m \<and> scoped d \<and> (\<exists>sid s. dget m sid = Some (Some s))
      \<and> (\<forall>sid s. dget m sid = Some s \<longleftrightarrow> (\<exists>ref\<in>set (extract_scenario_ids show a (scenario_params d)).
            sid \<in> set (expand_scenario_ref reg ref)) \<and> granted perms (td_access d) sid s)
      \<and> (\<forall>a' e. outcome \<noteq> Inr (a', Some (Denied e))) \<and> (\<forall>a' param i. outcome \<noteq> Inr (a', Some (BadListEntry param i))))"
proof (cases scope)
  case (Some m)
  obtain a1 where a1: "check_list_params (coerce_params loads tool_args) = (a1, None)"
    using assms Some by (cases "check_list_params (coerce_params loads tool_args)")
      (auto simp: process_tool_call_def split: option.splits prod.splits)
  define a where "a = inject_default_scenario show d (if report_context d \<noteq> [] then apply_report_context a1 ctx (report_context d) else a1)"
  obtain e where gate: "permission_gate reg show perms d a None = (e, Some m)"
    and rest: "outcome = (case e of Some x \<Rightarrow> Inr (a, Some (Denied x)) | None \<Rightarrow> validate_call parse show cat d a)"
    using assms a1 Some unfolding process_tool_call_def a_def
    by (auto simp: Let_def split: prod.splits option.splits)
  note facts = gate_scope [OF gate]
  have out: "outcome = validate_call parse show cat d a" using facts(1) rest by simp
  have "outcome \<noteq> Inr (a', Some (Denied x))" "outcome \<noteq> Inr (a', Some (BadListEntry param i))" for a' x param i
    using validate_call_errors [of parse "show" cat d a a'] unfolding out by (metis call_error.distinct)+
  then show ?thesis using facts Some by blast
qed simp

section \<open>Examples\<close>

definition statement_tool :: tool_descriptor where
  "statement_tool = descriptor_of ''run_statement''
     \<lparr>tm_skills = None, tm_access = None, tm_mcp_read = Some True, tm_mcp_artifact = None,
      tm_scenario_params = Some [''scenarios''], tm_default_scenario = Some ''actuals'',
      tm_report_context = Some [''filters'', ''scenarios''], tm_dimension_map_args = Some [(''filters'', ''report_domains'')]\<rparr>"

definition reader :: user_permissions where
  "reader = \<lparr>perm_user = ''u1'', perm_admin = False,
     perm_scenarios = [(''ACT'', \<lparr>effective_role = ''analyst'', tool_scopes = [(''read'', Some cloud_scope)]\<rparr>),
       (''B26'', \<lparr>effective_role = ''planner'', tool_scopes = [(''read'', None), (''write'', None)]\<rparr>)]\<rparr>"

definition no_json :: "string \<Rightarrow> json option" where
  "no_json text = None"

definition blank :: "json \<Rightarrow> string" where
  "blank v = []"

definition variance_call :: args where
  "variance_call = [(''scenarios'', JList [JDict [(''scenario'', JStr ''actuals_vs_budget'')]])]"

lemma variance_call_runs:
  "process_tool_call example_parse no_json blank (Some example_registry) reader None statement_tool variance_call [] None
     = (Inr (variance_call, None), Some [(''ACT'', Some cloud_scope), (''B26'', None)])"
  by code_simp

lemma default_call_runs:
  "process_tool_call example_parse no_json blank (Some example_registry) reader None statement_tool [] [] None
     = (Inr ([(''scenarios'', JList [JDict [(''scenario'', JStr ''actuals'')]])], None), Some [(''ACT'', Some cloud_scope)])"
  by code_simp

lemma statement_tool_scoped: "scoped statement_tool" "scenario_params_apart statement_tool"
  by code_simp+

theorem call_covered_by_permissions_witness:
  "expand_scenario_ref (Some example_registry) ''actuals_vs_budget'' = [''ACT'', ''B26'']
   \<and> granted reader ''read'' ''ACT'' (Some cloud_scope) \<and> granted reader ''read'' ''B26'' None"
proof -
  have refs: "extract_scenario_ids blank variance_call (scenario_params statement_tool) = [''actuals_vs_budget'']"
    "expand_scenario_ref (Some example_registry) ''actuals_vs_budget'' = [''ACT'', ''B26'']"
    "td_access statement_tool = ''read''" by code_simp+
  have "\<exists>s. granted reader ''read'' sid s \<and> dget [(''ACT'', Some cloud_scope), (''B26'', None)] sid = Some s"
    if "sid \<in> set [''ACT'', ''B26'']" for sid
    using call_covered_by_permissions [OF variance_call_runs statement_tool_scoped, of "''actuals_vs_budget''" sid] refs that
    by simp
  from this [of "''ACT''"] this [of "''B26''"] show ?thesis using refs(2) by simp
qed

theorem scenario_tools_name_a_scenario_witness:
  "extract_scenario_ids blank [(''scenarios'', JList [JDict [(''scenario'', JStr ''actuals'')]])] (scenario_params statement_tool) \<noteq> []
   \<and> default_scenario statement_tool = ''actuals''"
proof -
  have d: "default_scenario statement_tool = ''actuals''" "scenario_params statement_tool \<noteq> []" by code_simp+
  then have "default_scenario statement_tool \<noteq> [] \<and> scenario_params statement_tool \<noteq> []
      \<or> td_access statement_tool \<in> {''write'', ''plan_manager''}" by simp
  from scenario_tools_name_a_scenario [OF default_call_runs statement_tool_scoped(2) this] d(1) show ?thesis by simp
qed

theorem published_scope_exact_witness:
  "\<exists>m. snd (process_tool_call example_parse no_json blank (Some example_registry) reader None statement_tool variance_call [] None) = Some m
     \<and> (\<exists>sid s. dget m sid = Some (Some s))"
  using published_scope_exact [OF variance_call_runs] variance_call_runs by auto

end
