(* ===== verification/RetrieverSql.thy ===== *)
theory RetrieverSql
  imports Resolver
begin

text \<open>
  The queries of the retriever (\<open>engine/retriever.py\<close>). The code prints SQL text; the model keeps the
  syntax tree of that text, one constructor per shape of condition or expression the code prints,
  with the names of the bound parameters, and the dictionary of their values. The meaning of the
  conditions on a database, \<open>holds\<close> below, is that of SQL on text columns.
\<close>

section \<open>Expressions\<close>

datatype sql_error =
    InvalidColumn string
  | UnsupportedAggregation string
  | UnknownMetric string
  | NotBaseMetric string
  | UnknownDomain string
  | NotGroupable string
  | NoLeaf string
  | MissingBackend string
  | NotIbis string
  | RemapFailed period_error

(* engine/retriever.py:93-131 compile_predicates_to_sql *)
definition compile_predicates :: "metric_predicate list \<Rightarrow> (sql_error, metric_predicate list) res" where
  "compile_predicates preds = res_map (\<lambda>_. preds)
     (res_all (\<lambda>p. if safe_identifier (mp_column p) then Inr () else Inl (InvalidColumn (mp_column p))) preds)"

text \<open>
  The aggregate of a base metric. The filter of a metric is the list of its predicates, all of which
  must hold; the empty list is the printed \<open>1=1\<close>. A source column that is no identifier is a literal.
\<close>

datatype source = FactColumn string | Literal string

datatype metric_expr =
    CountDistinct "metric_predicate list" source
  | CountIf "metric_predicate list"
  | SumIf "metric_predicate list" sign source
  | AggIf aggregation "metric_predicate list" sign source
  | PeriodAverage "metric_predicate list" sign source source

(* engine/retriever.py:34-39 _qualify *)
definition qualify :: "string \<Rightarrow> source" where
  "qualify column = (if safe_identifier column then FactColumn column else Literal column)"

(* engine/retriever.py:134-173 build_metric_expression *)
definition build_metric_expression :: "base_metric \<Rightarrow> (sql_error, metric_expr) res" where
  "build_metric_expression m =
     res_map (\<lambda>filt.
        let col = qualify (source_column m) in
        case bm_aggregation m of
          AggCountDistinct \<Rightarrow> CountDistinct filt col
        | AggCount \<Rightarrow> CountIf filt
        | AggSum \<Rightarrow> SumIf filt (bm_sign m) col
        | agg \<Rightarrow> AggIf agg filt (bm_sign m) col)
       (compile_predicates (bm_where m))"

(* engine/retriever.py:176-204 build_avg_metric_expression *)
definition build_avg_metric_expression :: "base_metric \<Rightarrow> string \<Rightarrow> (sql_error, metric_expr) res" where
  "build_avg_metric_expression m native =
     (if bm_aggregation m \<noteq> AggSum then Inl (UnsupportedAggregation (bm_key m))
      else res_map (\<lambda>filt. PeriodAverage filt (bm_sign m) (qualify (source_column m)) (qualify native))
             (compile_predicates (bm_where m)))"

(* engine/retriever.py:211-226 _base_metrics_for_query *)
definition base_metrics_for_query :: "data_query \<Rightarrow> catalogue \<Rightarrow> (sql_error, base_metric list) res" where
  "base_metrics_for_query q cat =
     res_mapM (\<lambda>key. case dget (metrics cat) key of
        None \<Rightarrow> Inl (UnknownMetric key)
      | Some (BaseMetric m) \<Rightarrow> Inr m
      | Some (DerivedMetric _) \<Rightarrow> Inl (NotBaseMetric key)) (dq_metric_keys q)"

section \<open>Breakdown axes\<close>

(* engine/retriever.py:229-243 _Join *)
record join =
  jn_alias :: string
  jn_table :: string
  jn_fact_col :: string
  jn_key_col :: string

datatype axis = FactAxis string | JoinAxis string string | NodeAxis

(* engine/retriever.py:31-31 _TIME_HIERARCHY_DIMS *)
definition TIME_HIERARCHY_DIMS :: "string list" where
  "TIME_HIERARCHY_DIMS = [''period'', ''quarter'', ''fiscal_year'', ''week'', ''day'']"

(* engine/retriever.py:275-275 _resolve_breakdowns *)
definition bound_columns :: "domain_catalogue \<Rightarrow> (string, string) dict" where
  "bound_columns dc = fold (\<lambda>cd. dset (cd_key cd) (cd_source cd)) (filter (\<lambda>cd. cd_source cd \<noteq> []) (dc_dimensions dc)) []"

text \<open>\<open>f"d{len(joins)}"\<close> is \<open>d\<close> followed by the decimal numeral.\<close>

(* engine/retriever.py:288-317 _resolve_breakdowns *)
definition joined_axis ::
  "catalogue \<Rightarrow> (string, string) dict \<Rightarrow> join list \<Rightarrow> string \<Rightarrow> (sql_error, axis \<times> join list) res" where
  "joined_axis cat bound joins name =
     (let resolution = (case dget (dimensions cat) name of
            None \<Rightarrow> None
          | Some d \<Rightarrow> map_option snd (List.find (\<lambda>(leaf, _). dhas leaf bound) (transitive d)))
      in case resolution of
           None \<Rightarrow> Inl (NotGroupable name)
         | Some r \<Rightarrow>
             (case dget bound (tr_leaf_dimension r) of
                None \<Rightarrow> Inl (NotGroupable name)
              | Some fact_col \<Rightarrow>
                  (case List.find (\<lambda>j. jn_table j = tr_source_table r \<and> jn_fact_col j = fact_col) joins of
                     Some j \<Rightarrow> Inr (JoinAxis (jn_alias j) (filter_column r), joins)
                   | None \<Rightarrow>
                       let j = \<lparr>jn_alias = ''d'' @ fmt_int 0 (int (length joins)), jn_table = tr_source_table r,
                                jn_fact_col = fact_col, jn_key_col = leaf_key_column r\<rparr>
                       in Inr (JoinAxis (jn_alias j) (filter_column r), joins @ [j]))))"

(* engine/retriever.py:257-319 _resolve_breakdowns *)
definition resolve_breakdowns ::
  "string list \<Rightarrow> catalogue \<Rightarrow> domain_catalogue \<Rightarrow> (sql_error, (string, axis) dict \<times> join list) res" where
  "resolve_breakdowns dims_asked cat dc =
     (let bound = bound_columns dc in
      res_foldM (\<lambda>(exprs, joins) name.
         case dget bound name of
           Some col \<Rightarrow> Inr (dset name (FactAxis col) exprs, joins)
         | None \<Rightarrow>
             if name \<in> set TIME_HIERARCHY_DIMS then Inr (dset name (FactAxis name) exprs, joins)
             else res_map (\<lambda>(ax, js). (dset name ax exprs, js)) (joined_axis cat bound joins name))
        ([], []) dims_asked)"

section \<open>The WHERE clause\<close>

datatype param_value = PText string | PTexts "string list"

type_synonym params = "(string, param_value) dict"

text \<open>
  The conditions the code prints. Parameters are named; \<open>scenario_id\<close>, \<open>period_start\<close> and
  \<open>period_end\<close> are always bound.
\<close>

datatype condition =
    ScenarioIs
  | ExtensionScope string
  | InWindow string
  | PredecessorInWindow string string string
  | LastPerGroup "string list" string string condition string
  | IsPeriodEnd string
  | LastInWindow string string condition string
  | ColumnIn string string
  | CommitIs string
  | CommitIsNot string
  | CommitParam string
  | CommitUpTo string string
  | AnyCommit
  | ExtensionOr string condition

(* engine/query_extensions.py:18-25 ScenarioSqlScope *)
record scenario_sql_scope =
  outer_condition :: string
  inner_condition :: string
  scope_params :: params
  commit_passthrough :: string

definition delta_modifier :: "(string, string) dict \<Rightarrow> bool" where
  "delta_modifier mods \<longleftrightarrow> dhas ''uncommitted_delta'' mods \<or> dhas ''commit_delta'' mods"

(* engine/retriever.py:404-464 _where_clause *)
definition window_conditions ::
  "data_query \<Rightarrow> bool \<Rightarrow> string list option \<Rightarrow> string option \<Rightarrow> condition \<Rightarrow> condition list" where
  "window_conditions q closing_only closing_time_dims view inner =
     (let pc = period_column q; native = native_column q in
      if calendar_table q \<noteq> [] \<and> safe_identifier (calendar_key q) then
        [PredecessorInWindow pc (calendar_table q) (calendar_key q)]
      else if closing_only then
        (case (closing_time_dims, view) of
           (Some (d # ds), Some (v # vs)) \<Rightarrow> [InWindow pc, LastPerGroup (d # ds) native (v # vs) inner pc]
         | _ \<Rightarrow>
             if native = ''period'' then [IsPeriodEnd ''period'']
             else (case view of
                     Some (v # vs) \<Rightarrow> [InWindow pc, LastInWindow native (v # vs) inner pc]
                   | _ \<Rightarrow> [IsPeriodEnd native]))
      else [InWindow pc])"

definition filter_param :: "string \<Rightarrow> string" where
  "filter_param col = ''dimf_'' @ col"

(* engine/retriever.py:466-476 _where_clause *)
fun filter_conditions ::
  "(string \<times> string list) list \<Rightarrow> condition list \<times> params \<Rightarrow> (sql_error, condition list \<times> params) res" where
  "filter_conditions [] acc = Inr acc"
| "filter_conditions ((col, values) # rest) (conds, ps) =
     (if safe_identifier col
      then filter_conditions rest (conds @ [ColumnIn col (filter_param col)], dset (filter_param col) (PTexts values) ps)
      else Inl (InvalidColumn col))"

(* engine/retriever.py:482-513 _where_clause *)
definition commit_condition :: "data_query \<Rightarrow> (string, string) dict \<Rightarrow> params \<Rightarrow> condition \<times> params" where
  "commit_condition q mods ps =
     (if dhas ''uncommitted_delta'' mods then (CommitIs ''__uncommitted__'', ps)
      else if dhas ''uncommitted'' mods then (AnyCommit, ps)
      else case dget mods ''commit_delta'' of
             Some c \<Rightarrow> (CommitParam ''mod_commit_id'', dset ''mod_commit_id'' (PText c) ps)
           | None \<Rightarrow>
               (case dget mods ''commit'' of
                  Some c \<Rightarrow> (CommitUpTo ''mod_scenario_id_commits'' ''mod_target_commit'',
                     dset ''mod_scenario_id_commits'' (PText (dq_scenario_id q)) (dset ''mod_target_commit'' (PText c) ps))
                | None \<Rightarrow> (CommitIsNot ''__uncommitted__'', ps)))"

definition or_empty :: "('k, 'v) dict option \<Rightarrow> ('k, 'v) dict" where
  "or_empty d = (case d of None \<Rightarrow> [] | Some fs \<Rightarrow> fs)"

text \<open>\<open>sql_scope\<close> is the registered query extension; the open engine has none and it returns \<open>None\<close>.\<close>

(* engine/retriever.py:351-524 _where_clause *)
definition where_clause ::
  "(data_query \<Rightarrow> bool \<Rightarrow> scenario_sql_scope option) \<Rightarrow> data_query \<Rightarrow> (string, string list) dict option
     \<Rightarrow> bool \<Rightarrow> string list option \<Rightarrow> string option \<Rightarrow> bool \<Rightarrow> (sql_error, condition list \<times> params) res" where
  "where_clause sql_scope q dimension_filters closing_only closing_time_dims view vers =
     (let params = [(''scenario_id'', PText (dq_scenario_id q)), (''period_start'', PText (dq_period_start q)),
                    (''period_end'', PText (dq_period_end q))];
          mods = (if vers then modifiers q else []);
          ext = sql_scope q (delta_modifier mods);
          params1 = (case ext of Some e \<Rightarrow> fold (\<lambda>(k, v). dset k v) (scope_params e) params | None \<Rightarrow> params);
          outer = (case ext of Some e \<Rightarrow> ExtensionScope (outer_condition e) | None \<Rightarrow> ScenarioIs);
          inner = (case ext of Some e \<Rightarrow> ExtensionScope (inner_condition e) | None \<Rightarrow> ScenarioIs);
          window = window_conditions q closing_only closing_time_dims view inner
      in res_map (\<lambda>(conds, ps).
           if \<not> vers then (conds, ps)
           else let (commit, ps') = commit_condition q mods ps
                in (conds @ [case ext of Some e \<Rightarrow> if commit_passthrough e = [] then commit
                                                   else ExtensionOr (commit_passthrough e) commit
                             | None \<Rightarrow> commit], ps'))
           (filter_conditions (sort (or_empty dimension_filters)) (outer # window, params1)))"

section \<open>Grouping sets\<close>

(* engine/retriever.py:533-547 _grouping_sets *)
definition grouping_sets :: "string list \<Rightarrow> grain_spec \<Rightarrow> string list list" where
  "grouping_sets dims_asked g =
     (if detail g then [dims_asked] else [])
     @ (if subtotals g then map (\<lambda>level. take level dims_asked) (rev [1..<length dims_asked]) else [])
     @ (if grand_total g then [[]] else [])"

text \<open>How a query groups: not at all, by all axes, or by sets with a tag column.\<close>

datatype group_clause = NoGroup | GroupAll "axis list" | GroupSets "axis list list"

(* engine/retriever.py:550-572 _group_clause_from_sets *)
definition group_clause_from_sets ::
  "string list \<Rightarrow> string list list \<Rightarrow> (string \<Rightarrow> axis) \<Rightarrow> group_clause \<times> bool" where
  "group_clause_from_sets dims_asked sets expr =
     (if dims_asked = [] then (NoGroup, False)
      else if sets = [dims_asked] then (GroupAll (map expr dims_asked), False)
      else (GroupSets (map (map expr) sets), True))"

text \<open>The tag column: \<open>GROUPING\<close> of all axes, or the sum the closing totals rebuild it with.\<close>

datatype tag_term = GroupingBit axis nat | ConstantBit nat

datatype tag = NoTag | GroupingMask "axis list" | RebuiltMask "tag_term list"

(* engine/retriever.py:723-744 _full_grouping_expr *)
definition full_grouping_expr :: "string list \<Rightarrow> string set \<Rightarrow> (string \<Rightarrow> axis) \<Rightarrow> tag_term list" where
  "full_grouping_expr dims_asked grouped expr =
     map (\<lambda>(i, d). let weight = 2 ^ (length dims_asked - 1 - i)
                    in if d \<in> grouped then GroupingBit (expr d) weight else ConstantBit weight)
       (enumerate 0 dims_asked)"

section \<open>The queries of a data query\<close>

datatype selected_axis = Selected axis | RolledUpText

record agg_query =
  aq_axes :: "(string \<times> selected_axis) list"
  aq_metrics :: "(string \<times> metric_expr) list"
  aq_view :: string
  aq_joins :: "join list"
  aq_ragged :: "(string \<times> string \<times> string \<times> string) option"
  aq_where :: "condition list"
  aq_params :: params
  aq_group :: group_clause
  aq_tag :: tag

(* engine/retriever.py:322-348 _select_cols *)
definition select_metrics :: "base_metric list \<Rightarrow> string \<Rightarrow> (sql_error, (string \<times> metric_expr) list) res" where
  "select_metrics ms native =
     res_mapM (\<lambda>m. res_map (Pair (bm_key m))
        (if bm_rollup_method m = RollAvg then build_avg_metric_expression m native else build_metric_expression m)) ms"

definition total_axis :: "(string, axis) dict \<Rightarrow> string \<Rightarrow> axis" where
  "total_axis exprs name = (case dget exprs name of Some ax \<Rightarrow> ax | None \<Rightarrow> FactAxis name)"

(* engine/retriever.py:849-875 _generate_aggregate_sql *)
definition build_aggregate ::
  "(data_query \<Rightarrow> bool \<Rightarrow> scenario_sql_scope option) \<Rightarrow> data_query \<Rightarrow> string \<Rightarrow> string list
     \<Rightarrow> (string, string list) dict option \<Rightarrow> bool \<Rightarrow> (string, axis) dict \<Rightarrow> join list \<Rightarrow> base_metric list
     \<Rightarrow> (bool \<times> string list option \<times> string option) \<Rightarrow> string list list \<Rightarrow> (sql_error, agg_query) res" where
  "build_aggregate sql_scope q view dims_asked filters vers exprs joins ms closing sets =
     (let (closing_only, time_dims, closing_view) = closing; ax = total_axis exprs;
          (group, tagged) = group_clause_from_sets dims_asked sets ax
      in res_bind (select_metrics ms (native_column q)) (\<lambda>cols.
         res_map (\<lambda>(conds, ps).
             \<lparr>aq_axes = map (\<lambda>d. (d, Selected (ax d))) dims_asked, aq_metrics = cols, aq_view = view,
              aq_joins = joins, aq_ragged = None, aq_where = conds, aq_params = ps, aq_group = group,
              aq_tag = (if tagged then GroupingMask (map ax dims_asked) else NoTag)\<rparr>)
           (where_clause sql_scope q filters closing_only time_dims closing_view vers)))"

(* engine/retriever.py:768-780 _closing_totals_query *)
definition projected_sets :: "string list \<Rightarrow> string list \<Rightarrow> string list list \<Rightarrow> string list list" where
  "projected_sets dims_asked time_dims rolled =
     dedup (map (filter (\<lambda>d. d \<in> set dims_asked \<and> d \<notin> set time_dims)) rolled)"

(* engine/retriever.py:747-810 _closing_totals_query *)
definition closing_totals_query ::
  "(data_query \<Rightarrow> bool \<Rightarrow> scenario_sql_scope option) \<Rightarrow> data_query \<Rightarrow> base_metric list \<Rightarrow> string \<Rightarrow> string list
     \<Rightarrow> (string, string list) dict option \<Rightarrow> bool \<Rightarrow> string list \<Rightarrow> string list list \<Rightarrow> (string, axis) dict \<Rightarrow> join list
     \<Rightarrow> (sql_error, agg_query) res" where
  "closing_totals_query sql_scope q ms view dims_asked filters vers time_dims rolled exprs joins =
     (let ax = total_axis exprs;
          non_time = filter (\<lambda>d. d \<notin> set time_dims) dims_asked;
          nt_sets = projected_sets dims_asked time_dims rolled;
          grouped = set (concat nt_sets)
      in res_bind (res_mapM (\<lambda>m. res_map (Pair (bm_key m)) (build_metric_expression m)) ms) (\<lambda>cols.
         res_map (\<lambda>(conds, ps).
             \<lparr>aq_axes = map (\<lambda>d. (d, Selected (ax d))) non_time @ map (\<lambda>d. (d, RolledUpText)) time_dims,
              aq_metrics = cols, aq_view = view, aq_joins = joins, aq_ragged = None, aq_where = conds, aq_params = ps,
              aq_group = (if nt_sets = [[]] then NoGroup else GroupSets (map (map ax) nt_sets)),
              aq_tag = RebuiltMask (full_grouping_expr dims_asked grouped ax)\<rparr>)
           (where_clause sql_scope q filters True None (Some view) vers)))"

(* engine/retriever.py:842-845 _generate_aggregate_sql *)
definition rollup_group :: "rollup_method \<Rightarrow> base_metric list \<Rightarrow> base_metric list" where
  "rollup_group r ms = filter (\<lambda>m. bm_rollup_method m = r) ms"

definition all_in :: "string list \<Rightarrow> string list \<Rightarrow> bool" where
  "all_in xs s \<longleftrightarrow> list_all (\<lambda>x. x \<in> set s) xs"

(* engine/retriever.py:883-914 _generate_aggregate_sql *)
definition closing_queries ::
  "(data_query \<Rightarrow> bool \<Rightarrow> scenario_sql_scope option) \<Rightarrow> data_query \<Rightarrow> base_metric list \<Rightarrow> string \<Rightarrow> string list
     \<Rightarrow> (string, string list) dict option \<Rightarrow> bool \<Rightarrow> string list \<Rightarrow> grain_spec \<Rightarrow> (string, axis) dict \<Rightarrow> join list
     \<Rightarrow> (sql_error, agg_query list) res" where
  "closing_queries sql_scope q closing view dims_asked filters vers closing_time_dims grains exprs joins =
     (let native = native_column q; native_in = native \<in> set dims_asked;
          extra = (\<not> native_in, (if closing_time_dims = [] then None else Some closing_time_dims), Some view);
          time_dims = closing_time_dims @ (if native_in then [native] else []);
          requested = grouping_sets dims_asked grains;
          live = filter (all_in time_dims) requested;
          rolled = filter (\<lambda>s. \<not> all_in time_dims s) requested;
          build = build_aggregate sql_scope q view dims_asked filters vers exprs joins closing extra
      in if closing = [] then Inr []
         else if time_dims = [] then res_map (\<lambda>x. [x]) (build requested)
         else res_bind (if live = [] then Inr [] else res_map (\<lambda>x. [x]) (build live)) (\<lambda>xs.
              res_map (\<lambda>ys. xs @ ys)
                (if rolled = [] then Inr []
                 else res_map (\<lambda>x. [x]) (closing_totals_query sql_scope q closing view dims_asked filters vers
                        time_dims rolled exprs joins))))"

(* engine/retriever.py:813-918 _generate_aggregate_sql *)
definition generate_aggregate_sql ::
  "(data_query \<Rightarrow> bool \<Rightarrow> scenario_sql_scope option) \<Rightarrow> data_query \<Rightarrow> base_metric list \<Rightarrow> string \<Rightarrow> string list
     \<Rightarrow> (string, string list) dict option \<Rightarrow> bool \<Rightarrow> string list \<Rightarrow> grain_spec \<Rightarrow> (string, axis) dict \<Rightarrow> join list
     \<Rightarrow> (sql_error, agg_query list) res" where
  "generate_aggregate_sql sql_scope q ms view dims_asked filters vers closing_time_dims grains exprs joins =
     (let range = rollup_group RollSum ms @ rollup_group RollAvg ms in
      res_bind (if range = [] then Inr []
                else res_map (\<lambda>x. [x]) (build_aggregate sql_scope q view dims_asked filters vers exprs joins range
                       (False, None, None) (grouping_sets dims_asked grains))) (\<lambda>xs.
      res_map (\<lambda>ys. xs @ ys)
        (closing_queries sql_scope q (rollup_group RollClosing ms) view dims_asked filters vers
           closing_time_dims grains exprs joins)))"

(* engine/retriever.py:616-623 generate_sql *)
definition closing_time_dims_of :: "catalogue \<Rightarrow> domain_catalogue \<Rightarrow> string list \<Rightarrow> string list" where
  "closing_time_dims_of cat dc dims_asked =
     (if native_grain_column dc = ''period'' then
        (case dget (dimensions cat) ''period'' of
           None \<Rightarrow> []
         | Some p \<Rightarrow> filter (\<lambda>d. d \<in> set (dkeys (parents p))) dims_asked)
      else filter (\<lambda>d. d \<in> set TIME_HIERARCHY_DIMS) dims_asked)"

(* engine/retriever.py:579-635 generate_sql *)
definition generate_sql ::
  "(data_query \<Rightarrow> bool \<Rightarrow> scenario_sql_scope option) \<Rightarrow> data_query \<Rightarrow> catalogue \<Rightarrow> string list
     \<Rightarrow> (string, string list) dict option \<Rightarrow> grain_spec \<Rightarrow> (sql_error, agg_query list) res" where
  "generate_sql sql_scope q cat dims_asked filters grains =
     (case dget (domains cat) (dq_domain q) of
        None \<Rightarrow> Inl (UnknownDomain (dq_domain q))
      | Some dc \<Rightarrow>
          res_bind (base_metrics_for_query q cat) (\<lambda>ms.
          res_bind (resolve_breakdowns dims_asked cat dc) (\<lambda>(exprs, joins).
            generate_aggregate_sql sql_scope q ms (source_view dc) dims_asked filters (versioned dc)
              (closing_time_dims_of cat dc dims_asked) grains exprs joins)))"

(* engine/__init__.py:281-332 _detect_ragged_breakdown *)
record ragged_breakdown =
  rg_dimension :: string
  rg_leaf :: string
  rg_anchor :: string

(* engine/resolver.py:74-84 GrainSpec *)
definition detail_only :: grain_spec where
  "detail_only = \<lparr>detail = True, subtotals = False, grand_total = False\<rparr>"

text \<open>The node join of a ragged breakdown: the rollup and edge views, the leaf key and the fact column.\<close>

(* engine/retriever.py:638-712 generate_ragged_sql *)
definition generate_ragged_sql ::
  "(data_query \<Rightarrow> bool \<Rightarrow> scenario_sql_scope option) \<Rightarrow> data_query \<Rightarrow> catalogue \<Rightarrow> ragged_breakdown
     \<Rightarrow> (string, string list) dict option \<Rightarrow> (sql_error, agg_query list) res" where
  "generate_ragged_sql sql_scope q cat rb filters =
     (case dget (domains cat) (dq_domain q) of
        None \<Rightarrow> Inl (UnknownDomain (dq_domain q))
      | Some dc \<Rightarrow>
          (let key = rg_dimension rb; leaf = rg_leaf rb; stem = ''dim_'' @ leaf @ ''_'' @ key in
           case map_option dim_source (dget (dimensions cat) leaf) of
             Some (Some src) \<Rightarrow>
               (case dget (bound_columns dc) leaf of
                  None \<Rightarrow> Inl (NoLeaf key)
                | Some fact_col \<Rightarrow>
                    res_bind (base_metrics_for_query q cat) (\<lambda>ms.
                    res_map (map (\<lambda>aq. aq\<lparr>aq_ragged := Some (''semantic.'' @ stem @ ''_rollup'', ''semantic.'' @ stem @ ''_edges'',
                                                ds_key_column src, fact_col),
                                 aq_params := dset ''ragged_anchor'' (PText (rg_anchor rb)) (aq_params aq)\<rparr>))
                      (generate_aggregate_sql sql_scope q ms (source_view dc) [key] filters (versioned dc) []
                         detail_only [(key, NodeAxis)] [])))
           | _ \<Rightarrow> Inl (NoLeaf key)))"

section \<open>What the conditions select\<close>

text \<open>
  The meaning of a condition on a row, for a database of tables with text columns, the codes of a
  calendar with their sequence numbers, and the meaning of the conditions of an extension.
\<close>

type_synonym fact_row = "string \<Rightarrow> string"

record database =
  db_rows :: "string \<Rightarrow> fact_row list"
  db_calendar :: "string \<Rightarrow> string \<Rightarrow> (string \<times> int) list"
  db_extension :: "string \<Rightarrow> fact_row \<Rightarrow> bool"

definition text_param :: "params \<Rightarrow> string \<Rightarrow> string" where
  "text_param ps p = (case dget ps p of Some (PText t) \<Rightarrow> t | _ \<Rightarrow> [])"

definition texts_param :: "params \<Rightarrow> string \<Rightarrow> string list" where
  "texts_param ps p = (case dget ps p of Some (PTexts ts) \<Rightarrow> ts | _ \<Rightarrow> [])"

definition in_window :: "params \<Rightarrow> string \<Rightarrow> bool" where
  "in_window ps v \<longleftrightarrow> text_param ps ''period_start'' \<le> v \<and> v \<le> text_param ps ''period_end''"

fun holds :: "database \<Rightarrow> params \<Rightarrow> fact_row \<Rightarrow> condition \<Rightarrow> bool" where
  "holds db ps row ScenarioIs = (row ''scenario'' = text_param ps ''scenario_id'')"
| "holds db ps row (ExtensionScope e) = db_extension db e row"
| "holds db ps row (InWindow c) = in_window ps (row c)"
| "holds db ps row (PredecessorInWindow c table key) =
     (\<exists>(k, n)\<in>set (db_calendar db table key). in_window ps k \<and> (row c, n - 1) \<in> set (db_calendar db table key))"
| "holds db ps row (LastPerGroup ds native view inner c) =
     (let group = filter (\<lambda>r. holds db ps r inner \<and> in_window ps (r c) \<and> map r ds = map row ds) (db_rows db view)
      in group \<noteq> [] \<and> row native = Max (set (map (\<lambda>r. r native) group)))"
| "holds db ps row (IsPeriodEnd c) = (row c = text_param ps ''period_end'')"
| "holds db ps row (LastInWindow native view inner c) =
     (let group = filter (\<lambda>r. holds db ps r inner \<and> in_window ps (r c)) (db_rows db view)
      in group \<noteq> [] \<and> row native = Max (set (map (\<lambda>r. r native) group)))"
| "holds db ps row (ColumnIn c p) = (row c \<in> set (texts_param ps p))"
| "holds db ps row (CommitIs v) = (row ''commit_id'' = v)"
| "holds db ps row (CommitIsNot v) = (row ''commit_id'' \<noteq> v)"
| "holds db ps row (CommitParam p) = (row ''commit_id'' = text_param ps p)"
| "holds db ps row (CommitUpTo sp cp) =
     (case filter (\<lambda>c. c ''commit_id'' = text_param ps cp) (db_rows db ''planning.commits'') of
        [] \<Rightarrow> False
      | target # _ \<Rightarrow> (\<exists>c\<in>set (db_rows db ''planning.commits''). c ''scenario_id'' = text_param ps sp
            \<and> c ''created_at'' \<le> target ''created_at'' \<and> c ''commit_id'' = row ''commit_id''))"
| "holds db ps row AnyCommit = True"
| "holds db ps row (ExtensionOr e c) = (db_extension db e row \<or> holds db ps row c)"

definition selects :: "database \<Rightarrow> params \<Rightarrow> condition list \<Rightarrow> fact_row \<Rightarrow> bool" where
  "selects db ps conds row \<longleftrightarrow> list_all (holds db ps row) conds"

text \<open>The rows of a versioned domain that a query may see, by the modifiers of its scenario.\<close>

definition commit_visible :: "database \<Rightarrow> data_query \<Rightarrow> fact_row \<Rightarrow> bool" where
  "commit_visible db q row \<longleftrightarrow>
     (let mods = modifiers q; c = row ''commit_id'' in
      if dhas ''uncommitted_delta'' mods then c = ''__uncommitted__''
      else if dhas ''uncommitted'' mods then True
      else case dget mods ''commit_delta'' of
             Some d \<Rightarrow> c = d
           | None \<Rightarrow>
               (case dget mods ''commit'' of
                  Some d \<Rightarrow> (case filter (\<lambda>t. t ''commit_id'' = d) (db_rows db ''planning.commits'') of
                      [] \<Rightarrow> False
                    | target # _ \<Rightarrow> (\<exists>t\<in>set (db_rows db ''planning.commits''). t ''scenario_id'' = dq_scenario_id q
                          \<and> t ''created_at'' \<le> target ''created_at'' \<and> t ''commit_id'' = c))
                | None \<Rightarrow> c \<noteq> ''__uncommitted__''))"

definition open_engine :: "data_query \<Rightarrow> bool \<Rightarrow> scenario_sql_scope option" where
  "open_engine q delta = None"

definition base_params :: "data_query \<Rightarrow> params" where
  "base_params q = [(''scenario_id'', PText (dq_scenario_id q)), (''period_start'', PText (dq_period_start q)),
                    (''period_end'', PText (dq_period_end q))]"

lemma filter_param_inject [simp]: "filter_param a = filter_param b \<longleftrightarrow> a = b"
  by (simp add: filter_param_def)

lemma filter_conditions_facts:
  assumes "filter_conditions fs (conds, ps) = Inr (conds', ps')" and "distinct (map fst fs)"
  shows "conds' = conds @ map (\<lambda>(col, _). ColumnIn col (filter_param col)) fs"
    and "(\<And>col. col \<in> fst ` set fs \<Longrightarrow> p \<noteq> filter_param col) \<Longrightarrow> dget ps' p = dget ps p"
    and "(col, vs) \<in> set fs \<Longrightarrow> dget ps' (filter_param col) = Some (PTexts vs)"
proof -
  have "conds' = conds @ map (\<lambda>(col, _). ColumnIn col (filter_param col)) fs
    \<and> (\<forall>p. (\<forall>col\<in>fst ` set fs. p \<noteq> filter_param col) \<longrightarrow> dget ps' p = dget ps p)
    \<and> (\<forall>(col, vs)\<in>set fs. dget ps' (filter_param col) = Some (PTexts vs))"
    using assms
  proof (induction fs arbitrary: conds ps)
    case (Cons f fs)
    obtain col vs where f: "f = (col, vs)" by (cases f)
    have fresh: "col \<notin> fst ` set fs" "distinct (map fst fs)" using Cons.prems(2) f by simp_all
    have run: "filter_conditions fs (conds @ [ColumnIn col (filter_param col)], dset (filter_param col) (PTexts vs) ps) = Inr (conds', ps')"
      using Cons.prems(1) f by (simp split: if_splits)
    note IH = Cons.IH [OF run fresh(2)]
    have others: "dget ps' p = dget (dset (filter_param col) (PTexts vs) ps) p" if "\<forall>c\<in>fst ` set fs. p \<noteq> filter_param c" for p
      using IH that by blast
    have "dget ps' (filter_param col) = Some (PTexts vs)"
      using others [of "filter_param col"] fresh(1) by (auto simp: dget_dset)
    moreover have "dget ps' p = dget ps p" if "\<forall>c\<in>fst ` set (f # fs). p \<noteq> filter_param c" for p
      using others [of p] that f by (simp add: dget_dset)
    moreover have "conds' = conds @ map (\<lambda>(col, _). ColumnIn col (filter_param col)) (f # fs)" using IH f by simp
    ultimately show ?case using IH f by simp
  qed simp
  then show "conds' = conds @ map (\<lambda>(col, _). ColumnIn col (filter_param col)) fs"
    and "(\<And>col. col \<in> fst ` set fs \<Longrightarrow> p \<noteq> filter_param col) \<Longrightarrow> dget ps' p = dget ps p"
    and "(col, vs) \<in> set fs \<Longrightarrow> dget ps' (filter_param col) = Some (PTexts vs)"
    by blast+
qed

lemma commit_condition_params:
  assumes "commit_condition q mods ps = (c, ps')" and "p \<notin> {''mod_commit_id'', ''mod_scenario_id_commits'', ''mod_target_commit''}"
  shows "dget ps' p = dget ps p"
  using assms by (auto simp: commit_condition_def dget_dset split: if_splits option.splits)

lemma text_param_dset [simp]: "text_param (dset k (PText t) ps) p = (if p = k then t else text_param ps p)"
  by (simp add: text_param_def dget_dset)

definition agree :: "params \<Rightarrow> params \<Rightarrow> bool" where
  "agree ps ps' \<longleftrightarrow> (\<forall>p. p \<noteq> ''ragged_anchor'' \<longrightarrow> dget ps p = dget ps' p)"

lemma agree_refl [simp]: "agree ps ps"
  by (simp add: agree_def)

lemma agree_anchor: "agree (dset ''ragged_anchor'' v ps) ps"
  by (simp add: agree_def dget_dset)

lemma agree_params:
  assumes "agree ps ps'" and "p \<noteq> ''ragged_anchor''"
  shows "text_param ps p = text_param ps' p" and "texts_param ps p = texts_param ps' p"
  using assms by (simp_all add: agree_def text_param_def texts_param_def)

lemma commit_condition_holds:
  assumes "commit_condition q (modifiers q) ps1 = (c, ps')" and "agree ps ps'"
  shows "holds db ps row c \<longleftrightarrow> commit_visible db q row"
  using assms(1) agree_params(1) [OF assms(2), of "''mod_commit_id''"]
    agree_params(1) [OF assms(2), of "''mod_scenario_id_commits''"] agree_params(1) [OF assms(2), of "''mod_target_commit''"]
  unfolding commit_condition_def commit_visible_def Let_def
  by (cases "dget (modifiers q) ''commit_delta''"; cases "dget (modifiers q) ''commit''")
     (auto split: if_splits list.splits)

lemma distinct_fst_sort: "wf_dict d \<Longrightarrow> distinct (map fst (sort d))"
proof -
  assume "wf_dict d"
  then have "distinct (map fst d)" by (simp add: wf_dict_def)
  moreover have "mset (map fst (sort d)) = mset (map fst d)" by simp
  ultimately show ?thesis by (metis mset_eq_imp_distinct_iff)
qed

text \<open>The window of a query, for a row: what the window conditions say about it.\<close>

lemma where_clause_selects:
  assumes w: "where_clause open_engine q fs closing_only time_dims view vers = Inr (conds, ps')"
    and wf: "wf_dict (or_empty fs)" and agree: "agree ps ps'"
  shows "selects db ps conds row \<longleftrightarrow>
      row ''scenario'' = dq_scenario_id q
      \<and> selects db ps (window_conditions q closing_only time_dims view ScenarioIs) row
      \<and> (\<forall>(col, vs)\<in>set (or_empty fs). row col \<in> set vs)
      \<and> (vers \<longrightarrow> commit_visible db q row)"
    and "text_param ps ''period_start'' = dq_period_start q" "text_param ps ''period_end'' = dq_period_end q"
proof -
  let ?fs = "sort (or_empty fs)"
  let ?win = "window_conditions q closing_only time_dims view ScenarioIs"
  let ?filters = "map (\<lambda>(col, _). ColumnIn col (filter_param col)) ?fs"
  obtain cs ps1 where cs: "filter_conditions ?fs (ScenarioIs # ?win, base_params q) = Inr (cs, ps1)"
    and out: "(if \<not> vers then (cs, ps1) else let (c, ps2) = commit_condition q (modifiers q) ps1 in (cs @ [c], ps2)) = (conds, ps')"
    using w by (auto simp: where_clause_def open_engine_def base_params_def or_empty_def Let_def res_map_eq_Inr split: if_splits option.splits)
  have dist: "distinct (map fst ?fs)" using wf by (rule distinct_fst_sort)
  note facts = filter_conditions_facts [OF cs dist]
  have plain: "p \<noteq> filter_param col" if "p \<in> {''scenario_id'', ''period_start'', ''period_end''}" for p col
    using that by (auto simp: filter_param_def)
  have safe: "filter_param col \<notin> {''mod_commit_id'', ''mod_scenario_id_commits'', ''mod_target_commit''}" for col
    by (auto simp: filter_param_def)
  have anchored: "filter_param col \<noteq> ''ragged_anchor''" for col by (simp add: filter_param_def)
  have same: "dget ps p = dget ps1 p"
    if "p \<notin> {''mod_commit_id'', ''mod_scenario_id_commits'', ''mod_target_commit''}" "p \<noteq> ''ragged_anchor''" for p
  proof -
    have "dget ps' p = dget ps1 p" using out commit_condition_params [OF _ that(1)] by (auto split: if_splits prod.splits)
    then show ?thesis using agree that(2) by (simp add: agree_def)
  qed
  have base: "text_param ps ''scenario_id'' = dq_scenario_id q" "text_param ps ''period_start'' = dq_period_start q"
      "text_param ps ''period_end'' = dq_period_end q"
    unfolding text_param_def using same facts(2) plain by (auto simp: base_params_def)
  then show "text_param ps ''period_start'' = dq_period_start q" "text_param ps ''period_end'' = dq_period_end q" by simp_all
  have texts: "texts_param ps (filter_param col) = vs" if "(col, vs) \<in> set ?fs" for col vs
    using facts(3) [OF that] same [OF safe anchored] by (simp add: texts_param_def)
  have "selects db ps ?filters row \<longleftrightarrow> (\<forall>(col, vs)\<in>set (or_empty fs). row col \<in> set vs)"
    unfolding selects_def list_all_iff using texts by (auto simp: split_def)
  moreover have "selects db ps conds row \<longleftrightarrow> selects db ps cs row \<and> (vers \<longrightarrow> commit_visible db q row)"
    using out commit_condition_holds [OF _ agree] by (auto simp: selects_def split: if_splits prod.splits)
  ultimately show "selects db ps conds row \<longleftrightarrow>
      row ''scenario'' = dq_scenario_id q
      \<and> selects db ps ?win row \<and> (\<forall>(col, vs)\<in>set (or_empty fs). row col \<in> set vs) \<and> (vers \<longrightarrow> commit_visible db q row)"
    using base(1) unfolding facts(1) by (simp add: selects_def conj_assoc)
qed

section \<open>Every query of a plan is confined\<close>

text \<open>The conditions of a query come from \<open>where_clause\<close>.\<close>

definition built_for :: "data_query \<Rightarrow> (string, string list) dict option \<Rightarrow> bool \<Rightarrow> agg_query \<Rightarrow> bool" where
  "built_for q fs vers aq \<longleftrightarrow> (\<exists>co td view ps. agree (aq_params aq) ps
     \<and> where_clause open_engine q fs co td view vers = Inr (aq_where aq, ps))"

lemma built_forI:
  "where_clause open_engine q fs co td view vers = Inr (aq_where aq, aq_params aq) \<Longrightarrow> built_for q fs vers aq"
  unfolding built_for_def using agree_refl by blast

lemma build_aggregate_built:
  "build_aggregate open_engine q view ds fs vers exprs joins ms cl sets = Inr aq \<Longrightarrow> built_for q fs vers aq"
  by (cases cl) (auto simp: build_aggregate_def Let_def res_bind_eq_Inr res_map_eq_Inr split: prod.splits intro!: built_forI)

lemma closing_totals_built:
  "closing_totals_query open_engine q ms view ds fs vers tds rolled exprs joins = Inr aq \<Longrightarrow> built_for q fs vers aq"
  by (auto simp: closing_totals_query_def Let_def res_bind_eq_Inr res_map_eq_Inr intro!: built_forI)

lemma closing_queries_built:
  assumes "closing_queries open_engine q ms view ds fs vers tds g exprs joins = Inr aqs" and "aq \<in> set aqs"
  shows "built_for q fs vers aq"
  using assms unfolding closing_queries_def Let_def
  by (auto simp: res_bind_eq_Inr res_map_eq_Inr split: if_splits dest: build_aggregate_built closing_totals_built)

lemma generate_aggregate_built:
  assumes "generate_aggregate_sql open_engine q ms view ds fs vers tds g exprs joins = Inr aqs" and "aq \<in> set aqs"
  shows "built_for q fs vers aq"
  using assms unfolding generate_aggregate_sql_def Let_def
  by (auto simp: res_bind_eq_Inr res_map_eq_Inr split: if_splits dest: build_aggregate_built closing_queries_built)

lemma generate_sql_built:
  assumes "generate_sql open_engine q cat ds fs g = Inr aqs" and "aq \<in> set aqs"
  shows "\<exists>dc. dget (domains cat) (dq_domain q) = Some dc \<and> built_for q fs (versioned dc) aq"
  using assms by (auto simp: generate_sql_def res_bind_eq_Inr split: option.splits dest: generate_aggregate_built)

lemma built_for_anchor:
  "built_for q fs vers aq \<Longrightarrow> built_for q fs vers (aq\<lparr>aq_ragged := r, aq_params := dset ''ragged_anchor'' v (aq_params aq)\<rparr>)"
  by (auto simp: built_for_def agree_def dget_dset)

lemma generate_ragged_built:
  assumes "generate_ragged_sql open_engine q cat rb fs = Inr aqs" and "aq \<in> set aqs"
  shows "\<exists>dc. dget (domains cat) (dq_domain q) = Some dc \<and> built_for q fs (versioned dc) aq"
  using assms
  by (auto simp: generate_ragged_sql_def Let_def res_bind_eq_Inr res_map_eq_Inr split: option.splits
      intro!: built_for_anchor dest: generate_aggregate_built)

lemma built_for_confined:
  assumes "built_for q fs vers aq" and "wf_dict (or_empty fs)" and "selects db (aq_params aq) (aq_where aq) row"
  shows "row ''scenario'' = dq_scenario_id q" and "(col, vs) \<in> set (or_empty fs) \<Longrightarrow> row col \<in> set vs"
    and "vers \<Longrightarrow> commit_visible db q row"
proof -
  obtain co td view ps where "agree (aq_params aq) ps" "where_clause open_engine q fs co td view vers = Inr (aq_where aq, ps)"
    using assms(1) unfolding built_for_def by blast
  from where_clause_selects(1) [OF this(2) assms(2) this(1), of db row] assms(3)
  show "row ''scenario'' = dq_scenario_id q" and "(col, vs) \<in> set (or_empty fs) \<Longrightarrow> row col \<in> set vs"
    and "vers \<Longrightarrow> commit_visible db q row" by auto
qed

text \<open>
  What the range query of a data query reads. For the open engine and filters with distinct
  columns, the conditions of a query over a window select exactly the rows of the query's scenario
  whose period lies in the window, whose value in every filtered column is one of the filter's values
  (none, for an empty filter), and, in a versioned domain, whose commit the modifiers make visible:
  by default everything but uncommitted changes.
\<close>

theorem range_rows_exact:
  assumes "where_clause open_engine q fs False None None vers = Inr (conds, ps)" and "wf_dict (or_empty fs)"
    and "calendar_table q = []"
  shows "selects db ps conds row \<longleftrightarrow>
      row ''scenario'' = dq_scenario_id q
      \<and> dq_period_start q \<le> row (period_column q) \<and> row (period_column q) \<le> dq_period_end q
      \<and> (\<forall>(col, vs)\<in>set (or_empty fs). row col \<in> set vs)
      \<and> (vers \<longrightarrow> commit_visible db q row)"
proof -
  note facts = where_clause_selects [OF assms(1,2) agree_refl]
  have "window_conditions q False None None ScenarioIs = [InWindow (period_column q)]"
    using assms(3) by (simp add: window_conditions_def)
  then show ?thesis unfolding facts(1) by (simp add: selects_def in_window_def facts(2,3) conj_assoc)
qed


section \<open>Examples\<close>

definition ledger_domain :: domain_catalogue where
  "ledger_domain = \<lparr>dc_domain = ''pnl'', source_view = ''semantic.v_pnl'', dc_metrics = [],
     dc_dimensions = [\<lparr>cd_key = ''cost_centre'', cd_label = ''Cost centre'', cd_source = ''cc'',
       source_inline = False, filterable = True\<rparr>],
     versioned = True, native_grain_column = ''period'', backend = [], dc_backend_kind = ClickHouse,
     inspect_enabled = True, inspect_columns = []\<rparr>"

definition fact_catalogue :: catalogue where
  "fact_catalogue = calendar_catalogue\<lparr>domains := [(''pnl'', ledger_domain)]\<rparr>"

definition ledger_query :: data_query where
  "ledger_query = (base_query ''actuals'' ''ACT'' ''2025-01'' ''2025-03'' [] [])\<lparr>dq_metric_keys := [''revenue'']\<rparr>"

definition ledger_filters :: "(string, string list) dict option" where
  "ledger_filters = Some [(''cc'', [''C1''])]"

definition ledger_row :: "string \<Rightarrow> string \<Rightarrow> fact_row" where
  "ledger_row cc commit col =
     (if col = ''scenario'' then ''ACT'' else if col = ''period'' then ''2025-02'' else if col = ''cc'' then cc
      else if col = ''commit_id'' then commit else [])"

definition no_database :: database where
  "no_database = \<lparr>db_rows = (\<lambda>_. []), db_calendar = (\<lambda>_ _. []), db_extension = (\<lambda>_ _. False)\<rparr>"

definition ledger_sql :: agg_query where
  "ledger_sql = (case generate_sql open_engine ledger_query fact_catalogue [''cost_centre''] ledger_filters detail_only of
      Inr (aq # _) \<Rightarrow> aq | _ \<Rightarrow> undefined)"

lemma ledger_sql_generated:
  "generate_sql open_engine ledger_query fact_catalogue [''cost_centre''] ledger_filters detail_only = Inr [ledger_sql]"
proof -
  have "is_ok (generate_sql open_engine ledger_query fact_catalogue [''cost_centre''] ledger_filters detail_only)"
    and "(case generate_sql open_engine ledger_query fact_catalogue [''cost_centre''] ledger_filters detail_only of
        Inr [aq] \<Rightarrow> True | _ \<Rightarrow> False)" by code_simp+
  then show ?thesis by (auto simp: ledger_sql_def split: sum.splits list.splits)
qed

theorem range_rows_exact_witness:
  "\<exists>conds ps. where_clause open_engine ledger_query ledger_filters False None None True = Inr (conds, ps)
     \<and> selects no_database ps conds (ledger_row ''C1'' ''c7'')
     \<and> \<not> selects no_database ps conds (ledger_row ''C1'' ''__uncommitted__'')
     \<and> \<not> selects no_database ps conds (ledger_row ''C2'' ''c7'')"
proof -
  have "is_ok (where_clause open_engine ledger_query ledger_filters False None None True)" by code_simp
  then obtain conds ps where run: "where_clause open_engine ledger_query ledger_filters False None None True = Inr (conds, ps)"
    by (auto simp: is_ok_iff)
  have wf: "wf_dict (or_empty ledger_filters)" "calendar_table ledger_query = []" by code_simp+
  have q: "dq_scenario_id ledger_query = ''ACT''" "dq_period_start ledger_query = ''2025-01''"
    "dq_period_end ledger_query = ''2025-03''" "period_column ledger_query = ''period''" "modifiers ledger_query = []"
    "or_empty ledger_filters = [(''cc'', [''C1''])]" "''2025-01'' \<le> ''2025-02''" "''2025-02'' \<le> ''2025-03''" by code_simp+
  note exact = range_rows_exact [OF run wf, of no_database]
  show ?thesis
    using run exact [of "ledger_row ''C1'' ''c7''"] exact [of "ledger_row ''C1'' ''__uncommitted__''"]
      exact [of "ledger_row ''C2'' ''c7''"]
    unfolding q commit_visible_def by (simp add: ledger_row_def dhas_def)
qed


end
