(* ===== verification/Retriever.thy ===== *)
theory Retriever
  imports RetrieverSql Transformer
begin

text \<open>
  Execution of a plan (\<open>engine/retriever.py\<close>, \<open>engine/ibis_retriever.py\<close>): the federated queries and
  their additive rollup, the decoding of result rows into dimension keys, their merge into one result
  per scenario, and the remapping of the time axes of shifted scenarios. The rows a database returns
  for a query, \<open>run\<close> and \<open>run_ibis\<close>, and the rows of a calendar are parameters.
\<close>

section \<open>Result rows\<close>

text \<open>A row: its axis columns, its metric columns and the tag column of a multi-grain query.\<close>

record 'f result_row =
  row_axes :: "(string, string) dict"
  row_metrics :: "(string, 'f option) dict"
  row_grouping :: "nat option"

(* engine/types.py:18-18 ROLLED_UP *)
definition ROLLED_UP :: string where
  "ROLLED_UP = CHR 0x00 # ''__rolled_up__''"

datatype retrieve_error = SqlFailed sql_error | NoColumn string

(* engine/retriever.py:963-981 _row_to_dimension_key *)
definition row_to_dimension_key :: "'f result_row \<Rightarrow> string list \<Rightarrow> (retrieve_error, dim_key) res" where
  "row_to_dimension_key row dims_asked =
     (case row_grouping row of
        None \<Rightarrow> Inr (List.map_filter (dget (row_axes row)) dims_asked)
      | Some bits \<Rightarrow>
          res_mapM (\<lambda>(i, d). if odd (bits div 2 ^ (length dims_asked - 1 - i)) then Inr ROLLED_UP
                             else res_of_option (NoColumn d) (dget (row_axes row) d)) (enumerate 0 dims_asked))"

(* engine/retriever.py:984-997 _merge_row_into_results *)
definition merge_row ::
  "string list \<Rightarrow> string list \<Rightarrow> 'f scenario_data \<Rightarrow> 'f result_row \<Rightarrow> (retrieve_error, 'f scenario_data) res" where
  "merge_row metric_keys dims_asked data row =
     res_map (\<lambda>dk. dset dk
         (fold (\<lambda>k cells. case dget (row_metrics row) k of Some v \<Rightarrow> dset k v cells | None \<Rightarrow> cells) metric_keys
            (dget_or [] data dk)) data)
       (row_to_dimension_key row dims_asked)"

section \<open>Federated domains\<close>

(* engine/ibis_retriever.py:97-112 _base_filter_exprs *)
record ibis_query =
  iq_view :: string
  iq_scenario :: string
  iq_from :: string
  iq_to :: string
  iq_filters :: "(string \<times> string list) list"
  iq_metrics :: "base_metric list"
  iq_groups :: "(string \<times> string) list"

(* engine/ibis_retriever.py:135-144 build_ibis_query *)
definition ibis_metrics :: "catalogue \<Rightarrow> string list \<Rightarrow> (sql_error, base_metric list) res" where
  "ibis_metrics cat keys =
     res_bind (res_mapM (\<lambda>key. case dget (metrics cat) key of
         None \<Rightarrow> Inl (UnknownMetric key) | Some (DerivedMetric _) \<Rightarrow> Inl (NotBaseMetric key)
       | Some (BaseMetric m) \<Rightarrow> Inr m) keys) (\<lambda>ms.
     res_map (\<lambda>_. ms) (res_all (\<lambda>m. if bm_aggregation m = AggSum \<and> bm_rollup_method m = RollSum then Inr ()
                                     else Inl (UnsupportedAggregation (bm_key m))) ms))"

text \<open>\<open>columns\<close> are the columns of the foreign view; the window is always on its column \<open>period\<close>.\<close>

(* engine/ibis_retriever.py:115-165 build_ibis_query *)
definition build_ibis_query ::
  "(string \<Rightarrow> string list) \<Rightarrow> data_query \<Rightarrow> catalogue \<Rightarrow> string list \<Rightarrow> (string, string list) dict option
     \<Rightarrow> (sql_error, ibis_query) res" where
  "build_ibis_query columns q cat dims_asked filters =
     (case dget (domains cat) (dq_domain q) of
        None \<Rightarrow> Inl (UnknownDomain (dq_domain q))
      | Some dc \<Rightarrow>
          if dc_backend_kind dc \<noteq> Ibis then Inl (NotIbis (dq_domain q))
          else res_bind (ibis_metrics cat (dq_metric_keys q)) (\<lambda>ms.
               res_map (\<lambda>groups. \<lparr>iq_view = source_view dc, iq_scenario = dq_scenario_id q,
                   iq_from = dq_period_start q, iq_to = dq_period_end q,
                   iq_filters = (case filters of None \<Rightarrow> [] | Some fs \<Rightarrow> sort fs), iq_metrics = ms, iq_groups = groups\<rparr>)
                 (res_mapM (\<lambda>d. let col = dget_or d (bound_columns dc) d in
                     if col \<in> set (columns (source_view dc)) then Inr (d, col) else Inl (NotGroupable d)) dims_asked)))"

text \<open>The rows the query keeps, over rows with text columns.\<close>

definition ibis_selects :: "ibis_query \<Rightarrow> (string \<Rightarrow> string) \<Rightarrow> bool" where
  "ibis_selects iq row \<longleftrightarrow> row ''scenario'' = iq_scenario iq \<and> iq_from iq \<le> row ''period'' \<and> row ''period'' \<le> iq_to iq
     \<and> (\<forall>(col, vs)\<in>set (iq_filters iq). row col \<in> set vs)"

(* engine/ibis_retriever.py:269-287 _empty_rollup_row *)
definition rollup_mask :: "string list \<Rightarrow> string list \<Rightarrow> nat" where
  "rollup_mask dims_asked live =
     sum_list (map (\<lambda>(i, d). if d \<in> set live then 0 else 2 ^ (length dims_asked - 1 - i)) (enumerate 0 dims_asked))"

(* engine/ibis_retriever.py:269-287 _empty_rollup_row *)
definition empty_rollup_row ::
  "string list \<Rightarrow> string list \<Rightarrow> string list \<Rightarrow> 'f::zero result_row option \<Rightarrow> 'f result_row" where
  "empty_rollup_row dims_asked metric_keys live source =
     \<lparr>row_axes = map (\<lambda>d. (d, case source of None \<Rightarrow> [] | Some r \<Rightarrow> if d \<in> set live then dget_or [] (row_axes r) d else [])) dims_asked,
      row_metrics = dict_of (\<lambda>_. Some 0) metric_keys,
      row_grouping = Some (rollup_mask dims_asked live)\<rparr>"

text \<open>One detail row added to the row of its group, and the metrics seen in the group so far.\<close>

(* engine/ibis_retriever.py:253-259 _aggregate_rows_for_set *)
definition add_detail ::
  "string list \<Rightarrow> 'f::{zero,plus} result_row \<Rightarrow> 'f result_row \<times> string list \<Rightarrow> 'f result_row \<times> string list" where
  "add_detail metric_keys row = fold (\<lambda>k (out, seen).
     case value_of (row_metrics row) k of
       None \<Rightarrow> (out, seen)
     | Some v \<Rightarrow> (out\<lparr>row_metrics := dset k (Some ((case value_of (row_metrics out) k of Some w \<Rightarrow> w | None \<Rightarrow> 0) + v)) (row_metrics out)\<rparr>,
                  if k \<in> set seen then seen else k # seen)) metric_keys"

definition group_key :: "string list \<Rightarrow> 'f result_row \<Rightarrow> string list" where
  "group_key live row = map (dget_or [] (row_axes row)) live"

(* engine/ibis_retriever.py:247-259 _aggregate_rows_for_set *)
definition group_step ::
  "string list \<Rightarrow> string list \<Rightarrow> string list \<Rightarrow> 'f::{zero,plus} result_row
     \<Rightarrow> (string list, 'f result_row \<times> string list) dict \<Rightarrow> (string list, 'f result_row \<times> string list) dict" where
  "group_step dims_asked metric_keys live row groups =
     (let key = group_key live row;
          cell = (case dget groups key of Some c \<Rightarrow> c
                  | None \<Rightarrow> (empty_rollup_row dims_asked metric_keys live (Some row), []))
      in dset key (add_detail metric_keys row cell) groups)"

(* engine/ibis_retriever.py:261-264 _aggregate_rows_for_set *)
definition close_group :: "string list \<Rightarrow> 'f result_row \<times> string list \<Rightarrow> 'f result_row" where
  "close_group metric_keys = (\<lambda>(out, seen). out\<lparr>row_metrics :=
     fold (\<lambda>k m. if k \<in> set seen then m else dset k None m) metric_keys (row_metrics out)\<rparr>)"

(* engine/ibis_retriever.py:233-266 _aggregate_rows_for_set *)
definition aggregate_rows_for_set ::
  "'f::{zero,plus} result_row list \<Rightarrow> string list \<Rightarrow> string list \<Rightarrow> string list \<Rightarrow> 'f result_row list" where
  "aggregate_rows_for_set rows dims_asked metric_keys live =
     (if rows = [] \<and> live = [] then [empty_rollup_row dims_asked metric_keys live None]
      else map (close_group metric_keys \<circ> snd) (fold (group_step dims_asked metric_keys live) rows []))"

(* engine/ibis_retriever.py:186-215 rollup_detail_rows *)
definition rollup_detail_rows ::
  "'f::{zero,plus} result_row list \<Rightarrow> string list \<Rightarrow> string list \<Rightarrow> grain_spec \<Rightarrow> 'f result_row list" where
  "rollup_detail_rows detail_rows dims_asked metric_keys grains =
     (let sets = grouping_sets dims_asked grains in
      if dims_asked = [] then detail_rows
      else if sets = [] then []
      else if sets = [dims_asked] then detail_rows
      else concat (map (aggregate_rows_for_set detail_rows dims_asked metric_keys) sets))"

section \<open>Time axes of shifted scenarios\<close>

(* engine/retriever.py:1047-1069 _successor_remap *)
definition successor_remap ::
  "(string \<Rightarrow> string \<Rightarrow> string \<Rightarrow> string \<Rightarrow> (string \<times> string) list) \<Rightarrow> string \<Rightarrow> string \<Rightarrow> string \<Rightarrow> string
     \<Rightarrow> (string, string) dict" where
  "successor_remap calendar_rows table key ps pe =
     (if safe_identifier key then fold (\<lambda>(pred, orig). dset pred orig) (calendar_rows table key ps pe) [] else [])"

datatype remap = Arithmetic int | Calendar string "(string, string) dict"

(* engine/retriever.py:1199-1206 retrieve *)
definition remap_part :: "remap \<Rightarrow> string \<times> string \<Rightarrow> (retrieve_error, string) res" where
  "remap_part rm = (\<lambda>(part, dim_name).
     if dim_name \<notin> set TIME_HIERARCHY_DIMS \<or> part = ROLLED_UP then Inr part
     else case rm of
            Arithmetic months \<Rightarrow> res_wrap (SqlFailed \<circ> RemapFailed) (shift_time_value part dim_name months)
          | Calendar key smap \<Rightarrow> Inr (if dim_name = key then dget_or part smap part else part))"

text \<open>A key holds one part per dimension of the plan.\<close>

(* engine/retriever.py:1196-1208 retrieve *)
definition remap_data :: "remap \<Rightarrow> string list \<Rightarrow> 'f scenario_data \<Rightarrow> (retrieve_error, 'f scenario_data) res" where
  "remap_data rm dims_asked data =
     res_foldM (\<lambda>new (dk, cells). res_map (\<lambda>parts. dset parts cells new) (res_mapM (remap_part rm) (zip dk dims_asked))) [] data"

section \<open>Retrieval\<close>

record plan_view =
  pv_queries :: "data_query list"
  pv_dimensions :: "string list"
  pv_grains :: grain_spec

text \<open>What one data query contributes: rows at once (federated) or native queries for later.\<close>

datatype 'f fetched = Rows "'f result_row list" | Native "agg_query list"

record 'f environment =
  env_scope :: "data_query \<Rightarrow> bool \<Rightarrow> scenario_sql_scope option"
  env_run :: "agg_query \<Rightarrow> 'f result_row list"
  env_ibis :: "string \<Rightarrow> (ibis_query \<Rightarrow> 'f result_row list) option"
  env_columns :: "string \<Rightarrow> string list"
  env_calendar :: "string \<Rightarrow> string \<Rightarrow> string \<Rightarrow> string \<Rightarrow> (string \<times> string) list"

(* engine/retriever.py:1133-1172 retrieve *)
definition fetch ::
  "'f::{zero,plus} environment \<Rightarrow> catalogue \<Rightarrow> plan_view \<Rightarrow> (string, string list) dict option \<Rightarrow> ragged_breakdown option
     \<Rightarrow> data_query \<Rightarrow> (sql_error, 'f fetched) res" where
  "fetch env cat pv filters node_axis q =
     (case dget (domains cat) (dq_domain q) of
        None \<Rightarrow> Inl (UnknownDomain (dq_domain q))
      | Some dc \<Rightarrow>
          if dc_backend_kind dc = Ibis then
            (case env_ibis env (backend dc) of
               None \<Rightarrow> Inl (MissingBackend (backend dc))
             | Some run_ibis \<Rightarrow>
                 res_map (\<lambda>iq. Rows (rollup_detail_rows (run_ibis iq) (pv_dimensions pv) (dq_metric_keys q) (pv_grains pv)))
                   (build_ibis_query (env_columns env) q cat (pv_dimensions pv) filters))
          else res_map Native
                 (case node_axis of
                    Some rb \<Rightarrow> generate_ragged_sql (env_scope env) q cat rb filters
                  | None \<Rightarrow> generate_sql (env_scope env) q cat (pv_dimensions pv) filters (pv_grains pv)))"

(* engine/retriever.py:1119-1129 retrieve *)
definition remap_of :: "'f environment \<Rightarrow> plan_view \<Rightarrow> data_query \<Rightarrow> remap option" where
  "remap_of env pv q =
     (if time_offset q \<noteq> 0 \<and> list_ex (\<lambda>d. d \<in> set TIME_HIERARCHY_DIMS) (pv_dimensions pv) then Some (Arithmetic (- time_offset q))
      else if calendar_table q \<noteq> [] \<and> calendar_key q \<in> set (pv_dimensions pv) then
        (let smap = successor_remap (env_calendar env) (calendar_table q) (calendar_key q) (dq_period_start q) (dq_period_end q)
         in if smap = [] then None else Some (Calendar (calendar_key q) smap))
      else None)"

definition merge_rows ::
  "string list \<Rightarrow> string list \<Rightarrow> string \<Rightarrow> 'f result_row list \<Rightarrow> 'f result_data \<Rightarrow> (retrieve_error, 'f result_data) res" where
  "merge_rows metric_keys dims_asked key rows raw =
     res_map (\<lambda>data. dset key data raw) (res_foldM (merge_row metric_keys dims_asked) (dget_or [] raw key) rows)"

(* engine/retriever.py:1113-1181 retrieve *)
definition fetch_all ::
  "'f::{zero,plus} environment \<Rightarrow> catalogue \<Rightarrow> plan_view \<Rightarrow> (string, string list) dict option \<Rightarrow> ragged_breakdown option
     \<Rightarrow> (retrieve_error, 'f result_data \<times> (data_query \<times> agg_query) list) res" where
  "fetch_all env cat pv filters node_axis =
     res_foldM (\<lambda>(raw, native) q.
        let raw1 = (if dhas (dq_scenario_key q) raw then raw else dset (dq_scenario_key q) [] raw) in
        res_bind (res_wrap SqlFailed (fetch env cat pv filters node_axis q)) (\<lambda>f.
          case f of
            Rows rows \<Rightarrow> res_map (\<lambda>raw2. (raw2, native)) (merge_rows (dq_metric_keys q) (pv_dimensions pv) (dq_scenario_key q) rows raw1)
          | Native qs \<Rightarrow> Inr (raw1, native @ map (Pair q) qs)))
       ([], []) (pv_queries pv)"

(* engine/retriever.py:1183-1187 retrieve *)
definition run_native ::
  "'f environment \<Rightarrow> string list \<Rightarrow> 'f result_data \<Rightarrow> (data_query \<times> agg_query) list \<Rightarrow> (retrieve_error, 'f result_data) res" where
  "run_native env dims_asked raw native =
     res_foldM (\<lambda>raw (q, aq). merge_rows (dq_metric_keys q) dims_asked (dq_scenario_key q) (env_run env aq) raw) raw native"

text \<open>
  A scenario key has one remapping: the arithmetic one when any query of the key has one, otherwise the
  last calendar one.
\<close>

(* engine/retriever.py:1107-1129 retrieve *)
definition remaps :: "'f environment \<Rightarrow> plan_view \<Rightarrow> (string, remap) dict" where
  "remaps env pv =
     (let found = List.map_filter (\<lambda>q. map_option (Pair (dq_scenario_key q)) (remap_of env pv q)) (pv_queries pv);
          arithmetic = filter (\<lambda>(_, r). case r of Arithmetic _ \<Rightarrow> True | _ \<Rightarrow> False) found;
          calendar = filter (\<lambda>(_, r). case r of Arithmetic _ \<Rightarrow> False | _ \<Rightarrow> True) found
      in fold (\<lambda>(k, r). dset k r) (calendar @ arithmetic) [])"

(* engine/retriever.py:1076-1210 retrieve *)
definition retrieve ::
  "'f::{zero,plus} environment \<Rightarrow> catalogue \<Rightarrow> plan_view \<Rightarrow> (string, string list) dict option \<Rightarrow> ragged_breakdown option
     \<Rightarrow> (retrieve_error, 'f result_data) res" where
  "retrieve env cat pv filters node_axis =
     res_bind (fetch_all env cat pv filters node_axis) (\<lambda>(raw, native).
     res_bind (run_native env (pv_dimensions pv) raw native) (\<lambda>raw.
       res_foldM (\<lambda>raw (key, rm). res_map (\<lambda>data. dset key data raw)
           (remap_data rm (pv_dimensions pv) (dget_or [] raw key))) raw (remaps env pv)))"

section \<open>Tags and dimension keys\<close>

text \<open>
  \<open>GROUPING\<close> of an axis is 1 in a row whose grouping set does not hold the axis; the mask of several
  axes has the first in the highest bit. \<open>live\<close> are the axes of the row's grouping set.
\<close>

fun term_value :: "axis set \<Rightarrow> tag_term \<Rightarrow> nat" where
  "term_value live (GroupingBit ax w) = (if ax \<in> live then 0 else w)"
| "term_value live (ConstantBit w) = w"

fun mask_value :: "bool list \<Rightarrow> nat" where
  "mask_value [] = 0"
| "mask_value (b # bs) = (if b then 2 ^ length bs else 0) + mask_value bs"

fun tag_value :: "axis set \<Rightarrow> tag \<Rightarrow> nat option" where
  "tag_value live NoTag = None"
| "tag_value live (GroupingMask axes) = Some (mask_value (map (\<lambda>ax. ax \<notin> live) axes))"
| "tag_value live (RebuiltMask terms) = Some (sum_list (map (term_value live) terms))"

lemma mask_value_bound: "mask_value bs < 2 ^ length bs"
  by (induction bs) auto

lemma mask_bit: "i < length bs \<Longrightarrow> odd (mask_value bs div 2 ^ (length bs - 1 - i)) \<longleftrightarrow> bs ! i"
proof (induction bs arbitrary: i)
  case (Cons b bs)
  show ?case
  proof (cases i)
    case 0
    have "(2 ^ length bs + mask_value bs) div 2 ^ length bs = Suc 0"
      using mask_value_bound [of bs] by (simp add: div_add_self1)
    then show ?thesis using 0 mask_value_bound [of bs] by simp
  next
    case (Suc j)
    then have j: "j < length bs" using Cons.prems by simp
    let ?w = "length bs - 1 - j"
    have "(2 :: nat) ^ length bs = 2 ^ ?w * (2 * 2 ^ j)"
      using j by (simp flip: power_add power_Suc)
    then have "(2 ^ length bs + mask_value bs) div 2 ^ ?w = 2 * 2 ^ j + mask_value bs div 2 ^ ?w"
      by simp
    then have "odd (mask_value (b # bs) div 2 ^ ?w) \<longleftrightarrow> odd (mask_value bs div 2 ^ ?w)" by simp
    then show ?thesis using Cons.IH [OF j] Suc by simp
  qed
qed simp

lemma mask_value_enumerate:
  "sum_list (map (\<lambda>(i, d). if P d then 2 ^ (n - 1 - i) else 0) (enumerate k ds)) = mask_value (map P ds)"
  if "n = k + length ds"
  using that
proof (induction ds arbitrary: k)
  case (Cons d ds)
  from Cons.IH [of "Suc k"] Cons.prems show ?case by simp
qed simp

lemma rebuilt_mask:
  assumes "\<And>d. d \<in> set ds \<Longrightarrow> ax d \<in> live \<longleftrightarrow> d \<in> L" and "L \<subseteq> grouped"
  shows "sum_list (map (term_value live) (full_grouping_expr ds grouped ax)) = mask_value (map (\<lambda>d. d \<notin> L) ds)"
proof -
  have "map (term_value live) (full_grouping_expr ds grouped ax)
      = map (\<lambda>(i, d). if d \<notin> L then 2 ^ (length ds - 1 - i) else 0) (enumerate 0 ds)"
    unfolding full_grouping_expr_def using assms
    by (auto simp: Let_def in_set_enumerate_eq intro!: map_cong)
  then show ?thesis using mask_value_enumerate [of "length ds" 0 ds "\<lambda>d. d \<notin> L"] by simp
qed

lemma decode_mask:
  assumes "row_grouping row = Some (mask_value (map (\<lambda>d. d \<notin> L) ds))"
    and "\<And>d. d \<in> set ds \<Longrightarrow> d \<in> L \<Longrightarrow> dget (row_axes row) d = Some (v d)"
  shows "row_to_dimension_key row ds = Inr (map (\<lambda>d. if d \<in> L then v d else ROLLED_UP) ds)"
proof -
  let ?f = "\<lambda>(i, d). if odd (mask_value (map (\<lambda>d. d \<notin> L) ds) div 2 ^ (length ds - 1 - i)) then Inr ROLLED_UP
                             else res_of_option (NoColumn d) (dget (row_axes row) d)"
  have "?f (i, d) = Inr (if d \<in> L then v d else ROLLED_UP)" if "(i, d) \<in> set (enumerate 0 ds)" for i d
  proof -
    have i: "i < length ds" "d = ds ! i" using that by (auto simp: in_set_enumerate_eq)
    then have "odd (mask_value (map (\<lambda>d. d \<notin> L) ds) div 2 ^ (length ds - 1 - i)) \<longleftrightarrow> d \<notin> L"
      using mask_bit [of i "map (\<lambda>d. d \<notin> L) ds"] by simp
    then show ?thesis using assms(2) [of d] i by auto
  qed
  then have "res_mapM ?f (enumerate 0 ds) = Inr (map (\<lambda>(i, d). if d \<in> L then v d else ROLLED_UP) (enumerate 0 ds))"
    by (intro res_mapM_total) auto
  also have "map (\<lambda>(i, d). if d \<in> L then v d else ROLLED_UP) (enumerate 0 ds) = map (\<lambda>d. if d \<in> L then v d else ROLLED_UP) ds"
    by (rule nth_equalityI) (simp_all add: nth_enumerate_eq)
  finally show ?thesis using assms(1) by (simp add: row_to_dimension_key_def)
qed

section \<open>The federated rollup\<close>

definition cell_value :: "string \<Rightarrow> 'f result_row \<Rightarrow> 'f option" where
  "cell_value k r = value_of (row_metrics r) k"

definition present :: "string \<Rightarrow> 'f result_row list \<Rightarrow> 'f list" where
  "present k rs = List.map_filter (cell_value k) rs"

lemma present_snoc: "present k (rs @ [r]) = present k rs @ (case cell_value k r of None \<Rightarrow> [] | Some v \<Rightarrow> [v])"
  by (induction rs) (auto simp: present_def map_filter_simps split: option.splits)

lemma value_of_dset: "value_of (dset k v d) j = (if j = k then v else value_of d j)"
  by (simp add: value_of_def dget_dset)

lemma add_detail_facts:
  assumes "distinct ks"
  shows "row_axes (fst (add_detail ks row (out, seen))) = row_axes out
    \<and> row_grouping (fst (add_detail ks row (out, seen))) = row_grouping out
    \<and> (\<forall>k. cell_value k (fst (add_detail ks row (out, seen))) =
          (if k \<in> set ks \<and> cell_value k row \<noteq> None
           then Some ((case cell_value k out of Some w \<Rightarrow> w | None \<Rightarrow> 0) + the (cell_value k row)) else cell_value k out))
    \<and> (\<forall>k. k \<in> set (snd (add_detail ks row (out, seen))) \<longleftrightarrow> k \<in> set seen \<or> k \<in> set ks \<and> cell_value k row \<noteq> None)"
  using assms
proof (induction ks arbitrary: out seen)
  case Nil
  show ?case by (simp add: add_detail_def)
next
  case (Cons j ks)
  define out1 seen1 where "out1 = (case cell_value j row of None \<Rightarrow> out
      | Some v \<Rightarrow> out\<lparr>row_metrics := dset j (Some ((case cell_value j out of Some w \<Rightarrow> w | None \<Rightarrow> 0) + v)) (row_metrics out)\<rparr>)"
    and "seen1 = (case cell_value j row of None \<Rightarrow> seen | Some _ \<Rightarrow> if j \<in> set seen then seen else j # seen)"
  have step: "add_detail (j # ks) row (out, seen) = add_detail ks row (out1, seen1)"
    by (simp add: add_detail_def out1_def seen1_def cell_value_def split: option.split)
  have one: "row_axes out1 = row_axes out" "row_grouping out1 = row_grouping out"
    "cell_value i out1 = (if i = j \<and> cell_value j row \<noteq> None
       then Some ((case cell_value j out of Some w \<Rightarrow> w | None \<Rightarrow> 0) + the (cell_value j row)) else cell_value i out)"
    "i \<in> set seen1 \<longleftrightarrow> i \<in> set seen \<or> i = j \<and> cell_value j row \<noteq> None" for i
    by (auto simp: out1_def seen1_def cell_value_def value_of_dset split: option.splits)
  have d: "distinct ks" "j \<notin> set ks" using Cons.prems by auto
  note IH = Cons.IH [OF d(1), of out1 seen1]
  have "cell_value k (fst (add_detail ks row (out1, seen1))) =
      (if k \<in> set (j # ks) \<and> cell_value k row \<noteq> None
       then Some ((case cell_value k out of Some w \<Rightarrow> w | None \<Rightarrow> 0) + the (cell_value k row)) else cell_value k out)" for k
    using IH one(3) [of k] d(2) by auto
  moreover have "k \<in> set (snd (add_detail ks row (out1, seen1))) \<longleftrightarrow> k \<in> set seen \<or> k \<in> set (j # ks) \<and> cell_value k row \<noteq> None" for k
    using IH one(4) [of k] by auto
  ultimately show ?case unfolding step using IH one(1,2) by simp
qed

text \<open>What the row of a group holds after the rows \<open>rs\<close> of the group have been added.\<close>

definition group_ok :: "string list \<Rightarrow> string list \<Rightarrow> string list \<Rightarrow> 'f::comm_monoid_add result_row list \<Rightarrow> 'f result_row \<times> string list \<Rightarrow> bool" where
  "group_ok ds mks live rs c \<longleftrightarrow> rs \<noteq> []
     \<and> row_axes (fst c) = row_axes (empty_rollup_row ds mks live (Some (hd rs)))
     \<and> row_grouping (fst c) = Some (rollup_mask ds live)
     \<and> (\<forall>k\<in>set mks. cell_value k (fst c) = Some (sum_list (present k rs)) \<and> (k \<in> set (snd c) \<longleftrightarrow> present k rs \<noteq> []))"

lemma group_ok_first:
  assumes "distinct mks"
  shows "group_ok ds mks live [r] (add_detail mks r (empty_rollup_row ds mks live (Some r), []))"
proof -
  let ?e = "empty_rollup_row ds mks live (Some r)"
  have e: "cell_value k ?e = (if k \<in> set mks then Some 0 else None)" for k
    by (simp add: empty_rollup_row_def cell_value_def value_of_def dget_dict_of)
  have "row_grouping ?e = Some (rollup_mask ds live)" by (simp add: empty_rollup_row_def)
  then show ?thesis
    unfolding group_ok_def using add_detail_facts [OF assms, where row = r and out = ?e and seen = "[]"]
    by (auto simp: e present_def map_filter_simps split: option.splits)
qed

lemma group_ok_next:
  assumes "distinct mks" and "group_ok ds mks live rs c"
  shows "group_ok ds mks live (rs @ [r]) (add_detail mks r c)"
proof -
  obtain out seen where c: "c = (out, seen)" by (cases c)
  show ?thesis
    using assms(2) add_detail_facts [OF assms(1), where row = r and out = out and seen = seen] unfolding c group_ok_def
    by (auto simp: present_snoc split: option.splits)
qed

lemma dedup_snoc: "dedup (xs @ [x]) = (if x \<in> set xs then dedup xs else dedup xs @ [x])"
proof -
  have "dedup_acc acc (xs @ [x]) = (if x \<in> set acc \<union> set xs then dedup_acc acc xs else dedup_acc acc xs @ [x])" for acc
    by (induction xs arbitrary: acc) auto
  then show ?thesis by (simp add: dedup_def)
qed

lemma group_step_facts:
  assumes "distinct mks"
  shows "dkeys (fold (group_step ds mks live) rows []) = dedup (map (group_key live) rows)"
    and "dget (fold (group_step ds mks live) rows []) key = Some c \<Longrightarrow>
      group_ok ds mks live (filter (\<lambda>r. group_key live r = key) rows) c"
proof -
  have "dkeys (fold (group_step ds mks live) rows []) = dedup (map (group_key live) rows)
    \<and> (\<forall>key c. dget (fold (group_step ds mks live) rows []) key = Some c \<longrightarrow>
      group_ok ds mks live (filter (\<lambda>r. group_key live r = key) rows) c)"
  proof (induction rows rule: rev_induct)
    case Nil
    show ?case by (simp add: dedup_def)
  next
    case (snoc r rows)
    let ?g = "fold (group_step ds mks live) rows []" and ?k = "group_key live r"
    define cell where "cell = (case dget ?g ?k of Some c \<Rightarrow> c | None \<Rightarrow> (empty_rollup_row ds mks live (Some r), []))"
    have fold: "fold (group_step ds mks live) (rows @ [r]) [] = dset ?k (add_detail mks r cell) ?g"
      by (simp add: group_step_def cell_def Let_def)
    have mem: "?k \<in> set (dkeys ?g) \<longleftrightarrow> ?k \<in> set (map (group_key live) rows)" using snoc.IH by simp
    have "dkeys (dset ?k (add_detail mks r cell) ?g) = dedup (map (group_key live) (rows @ [r]))"
      using snoc.IH mem by (simp add: dset_keys_order dedup_snoc)
    moreover have "group_ok ds mks live (filter (\<lambda>x. group_key live x = ?k) rows @ [r]) (add_detail mks r cell)"
    proof (cases "dget ?g ?k")
      case None
      then have "?k \<notin> set (map (group_key live) rows)" using mem unfolding dkeys_get by simp
      then have "filter (\<lambda>x. group_key live x = ?k) rows = []" unfolding filter_empty_conv set_map by (metis image_eqI)
      then show ?thesis using None group_ok_first [OF assms] by (simp add: cell_def)
    next
      case (Some c)
      then have "group_ok ds mks live (filter (\<lambda>x. group_key live x = ?k) rows) c" using snoc.IH by blast
      then show ?thesis using Some by (simp add: cell_def group_ok_next [OF assms])
    qed
    ultimately show ?case unfolding fold using snoc.IH by (auto simp: dget_dset)
  qed
  then show "dkeys (fold (group_step ds mks live) rows []) = dedup (map (group_key live) rows)"
    and "dget (fold (group_step ds mks live) rows []) key = Some c \<Longrightarrow>
      group_ok ds mks live (filter (\<lambda>r. group_key live r = key) rows) c" by blast+
qed

lemma close_group_facts:
  fixes out :: "'f result_row"
  assumes "distinct mks" and "k \<in> set mks"
  shows "cell_value k (close_group mks (out, seen)) = (if k \<in> set seen then cell_value k out else None)"
    and "row_axes (close_group mks c) = row_axes (fst c)" "row_grouping (close_group mks c) = row_grouping (fst c)"
proof -
  have "value_of (fold (\<lambda>k m. if k \<in> set seen then m else dset k None m) ks d) k
      = (if k \<in> set ks \<and> k \<notin> set seen then None else value_of d k)" for ks and d :: "'f cells"
    by (induction ks arbitrary: d) (auto simp: value_of_dset)
  then show "cell_value k (close_group mks (out, seen)) = (if k \<in> set seen then cell_value k out else None)"
    using assms(2) by (simp add: close_group_def cell_value_def)
qed (simp_all add: close_group_def split_def)

lemma rollup_mask_value: "rollup_mask ds live = mask_value (map (\<lambda>d. d \<notin> set live) ds)"
proof -
  have "(\<lambda>(i, d). if d \<in> set live then 0 else 2 ^ (length ds - 1 - i)) = (\<lambda>(i, d). if d \<notin> set live then 2 ^ (length ds - 1 - i) else (0::nat))"
    by auto
  then show ?thesis unfolding rollup_mask_def using mask_value_enumerate [of "length ds" 0 ds "\<lambda>d. d \<notin> set live"] by simp
qed

text \<open>The sum of the values present, and nothing when none is.\<close>

definition total :: "string \<Rightarrow> 'f::comm_monoid_add result_row list \<Rightarrow> 'f option" where
  "total k rs = (if present k rs = [] then None else Some (sum_list (present k rs)))"

text \<open>
  Tags and keys are inverse. For a request whose dimensions have distinct axes, a row of any
  grouping set, tagged by \<open>GROUPING\<close>, by the tag the closing totals rebuild or by the federated
  rollup, decodes to the dimension key that holds the row's value at every dimension of the set and the
  rolled-up marker at every other one.
\<close>

theorem grain_tags_decode:
  assumes "inj_on ax (set ds)" and "set s \<subseteq> set ds" and "set s \<subseteq> grouped"
    and "\<And>d. d \<in> set s \<Longrightarrow> dget (row_axes row) d = Some (v d)"
    and "row_grouping row \<in> {tag_value (ax ` set s) (GroupingMask (map ax ds)),
       tag_value (ax ` set s) (RebuiltMask (full_grouping_expr ds grouped ax)), Some (rollup_mask ds s)}"
  shows "row_to_dimension_key row ds = Inr (map (\<lambda>d. if d \<in> set s then v d else ROLLED_UP) ds)"
proof -
  have live: "ax d \<in> ax ` set s \<longleftrightarrow> d \<in> set s" if "d \<in> set ds" for d
    using assms(1,2) that by (auto dest: inj_onD)
  have "map (\<lambda>a. a \<notin> ax ` set s) (map ax ds) = map (\<lambda>d. d \<notin> set s) ds"
    using live by simp
  moreover have "sum_list (map (term_value (ax ` set s)) (full_grouping_expr ds grouped ax)) = mask_value (map (\<lambda>d. d \<notin> set s) ds)"
    using live assms(3) by (rule rebuilt_mask)
  ultimately have "row_grouping row = Some (mask_value (map (\<lambda>d. d \<notin> set s) ds))"
    using assms(5) unfolding tag_value.simps rollup_mask_value by (simp only:) simp
  then show ?thesis by (rule decode_mask) (use assms(4) in auto)
qed

text \<open>
  C4: The federated rollup. For each grouping set, the rollup of detail rows yields one row per
  combination of values of the set's dimensions, in order of first appearance; each metric is the sum
  of the values present in the detail rows of the combination, and is missing when none is; and its
  key decodes to the values of the combination with the other dimensions rolled up.
\<close>

theorem federated_rollup_exact:
  assumes "distinct mks" and "rows \<noteq> [] \<or> live \<noteq> []"
  shows "list_all2 (\<lambda>key out. (\<forall>k\<in>set mks. cell_value k out = total k (filter (\<lambda>r. group_key live r = key) rows))
      \<and> (\<exists>r\<in>set rows. group_key live r = key \<and> row_to_dimension_key out ds
            = Inr (map (\<lambda>d. if d \<in> set live then dget_or [] (row_axes r) d else ROLLED_UP) ds)))
    (dedup (map (group_key live) rows)) (aggregate_rows_for_set rows ds mks live)"
proof -
  let ?g = "fold (group_step ds mks live) rows []"
  note facts = group_step_facts [OF assms(1), of ds live rows]
  have wf: "wf_dict ?g" unfolding wf_dict_def facts(1) by simp
  have agg: "aggregate_rows_for_set rows ds mks live = map (close_group mks \<circ> snd) ?g"
    using assms(2) by (auto simp: aggregate_rows_for_set_def)
  have "(\<forall>k\<in>set mks. cell_value k (close_group mks c) = total k (filter (\<lambda>r. group_key live r = key) rows))
      \<and> (\<exists>r\<in>set rows. group_key live r = key \<and> row_to_dimension_key (close_group mks c) ds
            = Inr (map (\<lambda>d. if d \<in> set live then dget_or [] (row_axes r) d else ROLLED_UP) ds))"
    if "(key, c) \<in> set ?g" for key c
  proof -
    let ?rs = "filter (\<lambda>r. group_key live r = key) rows"
    obtain out seen where c: "c = (out, seen)" by (cases c)
    have ok: "group_ok ds mks live ?rs c" using facts(2) that wf by (simp add: wf_dict_get)
    have "cell_value k (close_group mks c) = total k ?rs" if "k \<in> set mks" for k
      using ok close_group_facts(1) [OF assms(1) that, of out seen] that unfolding c group_ok_def total_def by auto
    moreover have r: "hd ?rs \<in> set ?rs" using ok unfolding group_ok_def by (intro hd_in_set) simp
    moreover have "row_to_dimension_key (close_group mks c) ds
        = Inr (map (\<lambda>d. if d \<in> set live then dget_or [] (row_axes (hd ?rs)) d else ROLLED_UP) ds)"
    proof (rule decode_mask)
      show "row_grouping (close_group mks c) = Some (mask_value (map (\<lambda>d. d \<notin> set live) ds))"
        using ok unfolding group_ok_def by (simp add: close_group_def split_def rollup_mask_value)
      show "dget (row_axes (close_group mks c)) d = Some (dget_or [] (row_axes (hd ?rs)) d)" if "d \<in> set ds" "d \<in> set live" for d
      proof -
        have "row_axes (close_group mks c) = map (\<lambda>d. (d, if d \<in> set live then dget_or [] (row_axes (hd ?rs)) d else [])) ds"
          using ok unfolding group_ok_def by (simp add: close_group_def split_def empty_rollup_row_def)
        then show ?thesis using that by (simp add: map_of_map_restrict)
      qed
    qed
    ultimately show ?thesis by auto
  qed
  then show ?thesis
    unfolding agg facts(1) [symmetric] list_all2_map1 list_all2_map2 by (auto simp: list_all2_same)
qed

section \<open>Examples\<close>

definition total_row :: "int result_row" where
  "total_row = \<lparr>row_axes = [(''region'', ''EU''), (''site'', [])], row_metrics = [], row_grouping = Some 1\<rparr>"

theorem grain_tags_decode_witness:
  "row_to_dimension_key total_row [''region'', ''site''] = Inr [''EU'', ROLLED_UP]
   \<and> tag_value {FactAxis ''region''} (GroupingMask [FactAxis ''region'', FactAxis ''site'']) = Some 1"
proof -
  have tag: "tag_value {FactAxis ''region''} (GroupingMask [FactAxis ''region'', FactAxis ''site'']) = Some 1" by simp
  have "row_to_dimension_key total_row [''region'', ''site'']
      = Inr (map (\<lambda>d. if d \<in> set [''region''] then ''EU'' else ROLLED_UP) [''region'', ''site''])"
    by (rule grain_tags_decode [where ax = FactAxis and grouped = UNIV]) (simp_all add: total_row_def inj_on_def)
  then show ?thesis using tag by simp
qed

definition detail_row :: "string \<Rightarrow> string \<Rightarrow> int option \<Rightarrow> int result_row" where
  "detail_row region site v = \<lparr>row_axes = [(''region'', region), (''site'', site)], row_metrics = [(''sales'', v)], row_grouping = None\<rparr>"

definition detail_rows :: "int result_row list" where
  "detail_rows = [detail_row ''EU'' ''A'' (Some 3), detail_row ''US'' ''B'' (Some 5), detail_row ''EU'' ''C'' (Some 4), detail_row ''EU'' ''D'' None]"

theorem federated_rollup_exact_witness:
  "\<exists>eu us. aggregate_rows_for_set detail_rows [''region'', ''site''] [''sales''] [''region''] = [eu, us]
     \<and> cell_value ''sales'' eu = Some 7 \<and> cell_value ''sales'' us = Some 5"
proof -
  have "distinct [''sales'']" and "detail_rows \<noteq> [] \<or> [''region''] \<noteq> []" by simp_all
  note exact = federated_rollup_exact [OF this, of "[''region'', ''site'']"]
  have keys: "dedup (map (group_key [''region'']) detail_rows) = [[''EU''], [''US'']]" by code_simp
  have "total ''sales'' (filter (\<lambda>r. group_key [''region''] r = [''EU'']) detail_rows) = Some 7"
    "total ''sales'' (filter (\<lambda>r. group_key [''region''] r = [''US'']) detail_rows) = Some 5" by code_simp+
  then show ?thesis using exact unfolding keys by (auto simp: list_all2_Cons1)
qed

end
