(* ===== verification/Engine.thy ===== *)
theory Engine
  imports Gate Retriever
begin

text \<open>
  The execution of a report request (\<open>engine/__init__.py\<close>): the plan, the checks on its domains, the
  filters and the enforcement of the caller's scope, the substitution of fork targets, retrieval and
  transformation. The lemmas follow a request from the permission gate to the rows it reads.
\<close>

datatype 'e engine_error =
    PlanFailed resolver_error
  | MixedBackends
  | InlineFilter "string list"
  | RaggedNotSole string
  | RaggedTime string
  | RaggedFederated string
  | RaggedNoAnchor string
  | FiltersFailed filter_error
  | ForkFailed registry_error
  | RetrieveFailed retrieve_error
  | TransformFailed 'e

section \<open>Checks before retrieval\<close>

definition query_domains :: "catalogue \<Rightarrow> execution_plan \<Rightarrow> domain_catalogue list" where
  "query_domains cat plan = List.map_filter (\<lambda>q. dget (domains cat) (dq_domain q)) (data_queries plan)"

(* engine/__init__.py:428-444 execute_report *)
definition check_backends :: "catalogue \<Rightarrow> execution_plan \<Rightarrow> ('e engine_error, unit) res" where
  "check_backends cat plan =
     (if length (remdups (map dc_backend_kind (query_domains cat plan))) > 1 then Inl MixedBackends
      else if computed_evals plan \<noteq> [] \<and> length (remdups (map backend (query_domains cat plan))) > 1 then Inl MixedBackends
      else Inr ())"

(* engine/__init__.py:133-149 _resolve_master_dimension *)
definition resolve_master_dimension :: "catalogue \<Rightarrow> string \<Rightarrow> dimension option" where
  "resolve_master_dimension cat name = dget (dimensions cat) name"

(* engine/__init__.py:152-178 _reject_inline_dimension_filters *)
definition reject_inline_filters :: "catalogue \<Rightarrow> string \<Rightarrow> (string, string) dict \<Rightarrow> ('e engine_error, unit) res" where
  "reject_inline_filters cat domain filters =
     (case dget (domains cat) domain of
        None \<Rightarrow> Inr ()
      | Some dc \<Rightarrow>
          let inline_keys = map cd_key (filter (\<lambda>cd. source_inline cd \<and> \<not> filterable cd) (dc_dimensions dc));
              blocked = sorted_set (filter (\<lambda>k. k \<in> set inline_keys) (dkeys filters))
          in if filters \<noteq> [] \<and> blocked \<noteq> [] then Inl (InlineFilter blocked) else Inr ())"

(* engine/__init__.py:278-278 _RAGGED_TIME_LEAVES *)
definition RAGGED_TIME_LEAVES :: "string list" where
  "RAGGED_TIME_LEAVES = [''period'']"

(* engine/__init__.py:281-332 _detect_ragged_breakdown *)
definition detect_ragged_breakdown ::
  "string list \<Rightarrow> catalogue \<Rightarrow> (string, string) dict option \<Rightarrow> string \<Rightarrow> ('e engine_error, ragged_breakdown option) res" where
  "detect_ragged_breakdown dims_asked cat raw_filters domain =
     (case List.find (\<lambda>(_, d). is_ragged d)
             (List.map_filter (\<lambda>k. map_option (Pair k) (dget (dimensions cat) k)) dims_asked) of
        None \<Rightarrow> Inr None
      | Some (key, d) \<Rightarrow>
          if length dims_asked > 1 then Inl (RaggedNotSole key)
          else if dim_leaf_dimension d \<in> set RAGGED_TIME_LEAVES then Inl (RaggedTime key)
          else if (case dget (domains cat) domain of Some dc \<Rightarrow> dc_backend_kind dc \<noteq> ClickHouse | None \<Rightarrow> False)
               then Inl (RaggedFederated key)
          else (case dget_or [] (or_empty raw_filters) key of
                  [] \<Rightarrow> Inl (RaggedNoAnchor key)
                | anchor \<Rightarrow> Inr (Some \<lparr>rg_dimension = key, rg_leaf = dim_leaf_dimension d, rg_anchor = anchor\<rparr>)))"

(* engine/__init__.py:501-516 execute_report *)
definition substitute_fork :: "registry \<Rightarrow> data_query \<Rightarrow> ('e engine_error, data_query) res" where
  "substitute_fork reg q =
     (case dget (modifiers q) ''fork'' of
        None \<Rightarrow> Inr q
      | Some target \<Rightarrow>
          if target \<noteq> [] then Inr (q\<lparr>dq_scenario_id := target\<rparr>)
          else res_map (\<lambda>r. case variant_of r of
                   None \<Rightarrow> q
                 | Some parent \<Rightarrow> if parent = [] then q else q\<lparr>dq_scenario_id := parent\<rparr>)
                 (res_wrap ForkFailed (resolve_writable reg (dq_scenario_id q))))"

section \<open>Preparing and executing a report\<close>

record prepared =
  pr_plan :: execution_plan
  pr_domain :: string
  pr_queries :: "data_query list"
  pr_filters :: "(string, string list) dict option"
  pr_ragged :: "ragged_breakdown option"

(* engine/__init__.py:462-465 execute_report *)
definition request_domain :: "execution_plan \<Rightarrow> string" where
  "request_domain plan = (case data_queries plan of [] \<Rightarrow> ''pnl'' | q # _ \<Rightarrow> dq_domain q)"

(* engine/__init__.py:478-495 execute_report *)
definition effective_filters ::
  "catalogue \<Rightarrow> warehouse \<Rightarrow> call_scope \<Rightarrow> string \<Rightarrow> (string, string) dict option
     \<Rightarrow> ('e engine_error, (string, string list) dict option) res" where
  "effective_filters cat wh scope domain raw_filters =
     res_wrap FiltersFailed
       (res_bind (if or_empty raw_filters = [] then Inr None
                  else res_map (\<lambda>f. if f = [] then None else Some f) (resolve_filters cat wh domain (or_empty raw_filters)))
          (\<lambda>user. case scope of None \<Rightarrow> Inr user
                   | Some scopes \<Rightarrow> enforce_cross_scenario_scope scopes user domain cat wh))"

(* engine/__init__.py:403-516 execute_report *)
definition prepare_report ::
  "'f parser \<Rightarrow> catalogue \<Rightarrow> registry \<Rightarrow> (scenario_ref \<Rightarrow> (string, string) dict) \<Rightarrow> warehouse \<Rightarrow> call_scope \<Rightarrow> request
     \<Rightarrow> ('e engine_error, prepared) res" where
  "prepare_report parse cat reg ext wh scope rq =
     res_bind (res_wrap PlanFailed (resolve parse cat reg ext rq)) (\<lambda>plan.
     res_bind (check_backends cat plan) (\<lambda>_.
     let domain = request_domain plan in
     res_bind (reject_inline_filters cat domain (or_empty (rq_filters rq))) (\<lambda>_.
     res_bind (detect_ragged_breakdown (plan_dimensions plan) cat (rq_filters rq) domain) (\<lambda>rb.
     res_bind (effective_filters cat wh scope domain (rq_filters rq)) (\<lambda>filters.
     res_map (\<lambda>queries. \<lparr>pr_plan = plan, pr_domain = domain, pr_queries = queries, pr_filters = filters, pr_ragged = rb\<rparr>)
       (res_mapM (substitute_fork reg) (data_queries plan)))))))"

(* engine/__init__.py:335-347 _remap_ragged_anchor_to_total *)
definition remap_ragged_anchor :: "string \<Rightarrow> 'f result_data \<Rightarrow> 'f result_data" where
  "remap_ragged_anchor anchor raw =
     dmap (\<lambda>_ data. case dget data [anchor] of
        None \<Rightarrow> data | Some cells \<Rightarrow> dset [ROLLED_UP] cells (AList.delete [anchor] data)) raw"

(* engine/__init__.py:518-564 execute_report *)
definition run_report ::
  "'f::{zero,plus} arith \<Rightarrow> 'f parser \<Rightarrow> 'f environment \<Rightarrow> catalogue \<Rightarrow> prepared
     \<Rightarrow> (expression_error engine_error, 'f result_data) res" where
  "run_report a parse env cat pr =
     (let plan = pr_plan pr;
          pv = \<lparr>pv_queries = pr_queries pr, pv_dimensions = plan_dimensions plan, pv_grains = plan_grains plan\<rparr>
      in res_bind (res_wrap RetrieveFailed (retrieve env cat pv (pr_filters pr) (pr_ragged pr))) (\<lambda>raw.
         res_wrap TransformFailed
           (transform a parse (metrics cat)
              (map (\<lambda>e. \<lparr>ev_key = ce_scenario_key e, ev_formula = ce_formula e\<rparr>) (computed_evals plan)) (all_metric_keys plan)
              (case pr_ragged pr of None \<Rightarrow> raw | Some rb \<Rightarrow> remap_ragged_anchor (rg_anchor rb) raw))))"

text \<open>The response of the formatter is built from the plan and the data this returns.\<close>

(* engine/__init__.py:377-564 execute_report *)
definition execute_report ::
  "'f::{zero,plus} arith \<Rightarrow> 'f parser \<Rightarrow> 'f environment \<Rightarrow> catalogue \<Rightarrow> registry
     \<Rightarrow> (scenario_ref \<Rightarrow> (string, string) dict) \<Rightarrow> warehouse \<Rightarrow> call_scope \<Rightarrow> request
     \<Rightarrow> (expression_error engine_error, execution_plan \<times> 'f result_data) res" where
  "execute_report a parse env cat reg ext wh scope rq =
     res_bind (prepare_report parse cat reg ext wh scope rq) (\<lambda>pr.
       res_map (Pair (pr_plan pr)) (run_report a parse env cat pr))"

section \<open>From the gate to the rows read\<close>

text \<open>A scenario id the gate let through, with the restriction that was published for it.\<close>

definition authorised :: "user_permissions \<Rightarrow> string \<Rightarrow> call_scope \<Rightarrow> string \<Rightarrow> bool" where
  "authorised perms acc scope sid \<longleftrightarrow>
     (\<exists>s. granted perms acc sid s \<and> (case scope of None \<Rightarrow> s = None | Some m \<Rightarrow> dget m sid = Some s))"

text \<open>Every id names its own scenario: it is not the alias or a generated key of another one.\<close>

definition distinct_names :: "registry \<Rightarrow> bool" where
  "distinct_names reg \<longleftrightarrow> (\<forall>i r. dget (ids reg) i = Some r \<longrightarrow> resolve_key reg i = Inr (Real r))"

lemma distinct_namesD:
  assumes "clean_registry reg" and "distinct_names reg" and "dhas i (ids reg)"
  obtains r where "dget (ids reg) i = Some r" "scenario_id r = i" "ids_or_literal (Some reg) i = [i]" "resolve_writable reg i = Inr r"
proof -
  obtain r where r: "dget (ids reg) i = Some r" using assms(3) by (auto simp: dhas_iff)
  then have id: "scenario_id r = i" using wf_lookup(4) [OF cleanD(1) [OF assms(1)]] by blast
  have "resolve_key reg i = Inr (Real r)" using assms(2) r unfolding distinct_names_def by blast
  then have "ids_or_literal (Some reg) i = [i]" "resolve_writable reg i = Inr r"
    unfolding ids_or_literal_def expand_dependencies_def resolve_writable_def by (simp_all only: option.case res_map_Inr res_bind_Inr dependencies.simps sum.case list.case scenario_ref.case id)
  then show ?thesis by (rule that [OF r id])
qed

lemma map_filter_mem: "x \<in> set (List.map_filter f xs) \<longleftrightarrow> (\<exists>y\<in>set xs. f y = Some x)"
  by (induction xs) (auto simp: map_filter_simps split: option.splits)

lemma keyed_fold_get:
  assumes "s \<in> set xs" and "\<And>t. t \<in> set xs \<Longrightarrow> f t = f s \<Longrightarrow> g t = g s"
  shows "dget (fold (\<lambda>s. dset (f s) (g s)) xs d) (f s) = Some (g s)"
  using assms
proof (induction xs rule: rev_induct)
  case (snoc x xs)
  show ?case
  proof (cases "f x = f s")
    case True
    then have "g x = g s" by (rule snoc.prems(2) [rotated]) simp
    then show ?thesis using True by (simp add: dget_dset)
  next
    case False
    then have "s \<in> set xs" using snoc.prems(1) by auto
    then have "dget (fold (\<lambda>s. dset (f s) (g s)) xs d) (f s) = Some (g s)"
      by (rule snoc.IH) (use snoc.prems(2) in simp)
    then show ?thesis using False by (simp add: dget_dset)
  qed
qed simp

lemma parent_of_variant:
  assumes "clean_registry reg" and "dget (ids reg) sid = Some r" and "variant_of r = Some p" and "p \<noteq> []"
  shows "parent_of reg sid = Some p"
proof -
  note wf = cleanD(1) [OF assms(1)]
  have id: "scenario_id r = sid" "dget (aliases reg) (sc_alias r) = Some r" using wf_lookup(4,5) [OF wf assms(2)] by simp_all
  have "r \<in> set (real_scenarios reg)" using real_scenarios_from [OF wf] id(2) by blast
  moreover have "variant_of t = variant_of r" if "t \<in> set (real_scenarios reg)" "scenario_id t = scenario_id r" for t
  proof -
    have "dget (aliases reg) (sc_alias t) = Some t" using real_scenarios_from [OF wf] that(1) by blast
    then have "dget (ids reg) (scenario_id t) = Some t" using wf_lookup(3) [OF wf] by blast
    then show ?thesis using that(2) assms(2) id(1) by simp
  qed
  ultimately have "dget (parent_by_id reg) (scenario_id r) = Some (variant_of r)"
    unfolding parent_by_id_def by (rule keyed_fold_get)
  then show ?thesis using assms(3,4) id(1) by (simp add: parent_of_def)
qed

text \<open>The scenario a query reads after the substitution is one the gate expands its block to.\<close>

lemma substituted_expanded:
  assumes reg: "plain_aliases reg" "clean_registry reg" "distinct_names reg"
    and sc: "scenario_of reg key = Inr (sc, mods)" and sid: "dq_scenario_id q \<in> set (dependencies sc)"
    and q: "modifiers q = mods \<or> modifiers q = []" and sub: "substitute_fork reg q = Inr q'"
    and known: "dhas (dq_scenario_id q') (ids reg)"
  shows "dq_scenario_id q' \<in> set (expand_scenario_ref (Some reg) key)"
proof -
  obtain base where parsed: "parse_scenario_modifiers key = Inr (base, mods)" "registry_or_error reg base = Inr sc"
    using sc by (auto simp: scenario_of_def res_bind_eq_Inr res_map_eq_Inr)
  have base: "parse_scenario_modifiers key = Inr (base, mods)" "resolve_key reg base = Inr sc"
    using parsed by (auto simp: registry_or_error_def registry_ref_def res_of_option_eq_Inr split: sum.splits)
  have split: "split_ref key = (base, mods)" by (simp add: split_ref_def base(1))
  have "ids_or_literal (Some reg) base = dependencies sc"
    using base(2) sid by (cases "dependencies sc") (auto simp: ids_or_literal_def expand_dependencies_def)
  then have expand: "expand_scenario_ref (Some reg) key = (case dget mods ''fork'' of None \<Rightarrow> dependencies sc
      | Some t \<Rightarrow> dependencies sc @ (if t \<noteq> [] then ids_or_literal (Some reg) t else List.map_filter (parent_of reg) (dependencies sc)))"
    by (simp add: expand_scenario_ref_def split Let_def split: option.split)
  have id_known: "dhas (dq_scenario_id q) (ids reg)"
    using dependencies_known [OF cleanD(1) [OF reg(2)] resolve_key_from [OF cleanD(1) [OF reg(2)] base(2)] sid] .
  show ?thesis
  proof (cases "dget (modifiers q) ''fork''")
    case None
    then show ?thesis using sub sid by (auto simp: substitute_fork_def expand split: option.split)
  next
    case (Some t)
    then have t: "dget mods ''fork'' = Some t" using q by auto
    show ?thesis
    proof (cases "t = []")
      case False
      then have "q' = q\<lparr>dq_scenario_id := t\<rparr>" using sub Some by (simp add: substitute_fork_def)
      then have "dq_scenario_id q' = t" by simp
      then show ?thesis using known reg(2,3) t False by (auto simp: expand elim: distinct_namesD)
    next
      case True
      obtain r where r: "dget (ids reg) (dq_scenario_id q) = Some r" "resolve_writable reg (dq_scenario_id q) = Inr r"
        using distinct_namesD [OF reg(2,3) id_known] by metis
      show ?thesis
      proof (cases "variant_of r = None \<or> variant_of r = Some []")
        case True
        then have "q' = q" using sub Some \<open>t = []\<close> r(2) by (auto simp: substitute_fork_def)
        then show ?thesis using sid t by (simp add: expand)
      next
        case False
        then obtain p where p: "variant_of r = Some p" "p \<noteq> []" by auto
        have "q' = q\<lparr>dq_scenario_id := p\<rparr>" using sub Some \<open>t = []\<close> r(2) p by (auto simp: substitute_fork_def)
        then have "dq_scenario_id q' = p" by simp
        moreover have "p \<in> set (List.map_filter (parent_of reg) (dependencies sc))"
          unfolding map_filter_mem using sid parent_of_variant [OF reg(2) r(1) p] by blast
        ultimately show ?thesis using t \<open>t = []\<close> by (simp add: expand)
      qed
    qed
  qed
qed

text \<open>The rows of the analytical database a prepared report reads.\<close>

definition plan_view_of :: "prepared \<Rightarrow> plan_view" where
  "plan_view_of pr = \<lparr>pv_queries = pr_queries pr, pv_dimensions = plan_dimensions (pr_plan pr), pv_grains = plan_grains (pr_plan pr)\<rparr>"

definition reads_row :: "'f::{zero,plus} environment \<Rightarrow> catalogue \<Rightarrow> database \<Rightarrow> prepared \<Rightarrow> fact_row \<Rightarrow> bool" where
  "reads_row env cat db pr row \<longleftrightarrow>
     (\<exists>q\<in>set (pr_queries pr).
        (\<exists>aqs. fetch env cat (plan_view_of pr) (pr_filters pr) (pr_ragged pr) q = Inr (Native aqs)
           \<and> (\<exists>aq\<in>set aqs. selects db (aq_params aq) (aq_where aq) row))
        \<or> (\<exists>iq. build_ibis_query (env_columns env) q cat (plan_dimensions (pr_plan pr)) (pr_filters pr) = Inr iq
           \<and> ibis_selects iq row))"

lemma reads_row_confined:
  assumes "reads_row env cat db pr row" and "env_scope env = open_engine" and "wf_dict (or_empty (pr_filters pr))"
  obtains q where "q \<in> set (pr_queries pr)" "row ''scenario'' = dq_scenario_id q"
    "\<forall>(col, vs)\<in>set (or_empty (pr_filters pr)). row col \<in> set vs"
proof -
  obtain q where q: "q \<in> set (pr_queries pr)" and
    "(\<exists>aqs. fetch env cat (plan_view_of pr) (pr_filters pr) (pr_ragged pr) q = Inr (Native aqs)
           \<and> (\<exists>aq\<in>set aqs. selects db (aq_params aq) (aq_where aq) row))
     \<or> (\<exists>iq. build_ibis_query (env_columns env) q cat (plan_dimensions (pr_plan pr)) (pr_filters pr) = Inr iq
           \<and> ibis_selects iq row)" using assms(1) unfolding reads_row_def by blast
  then consider (native) aqs aq where "fetch env cat (plan_view_of pr) (pr_filters pr) (pr_ragged pr) q = Inr (Native aqs)"
      "aq \<in> set aqs" "selects db (aq_params aq) (aq_where aq) row"
    | (ibis) iq where "build_ibis_query (env_columns env) q cat (plan_dimensions (pr_plan pr)) (pr_filters pr) = Inr iq"
      "ibis_selects iq row" by blast
  then show ?thesis
  proof cases
    case native
    then have "\<exists>vers. built_for q (pr_filters pr) vers aq"
      unfolding fetch_def assms(2)
      by (auto simp: res_map_eq_Inr split: option.splits if_splits dest: generate_sql_built generate_ragged_built)
    then obtain vers where "built_for q (pr_filters pr) vers aq" by blast
    note facts = built_for_confined [OF this assms(3) native(3)]
    show ?thesis using that [OF q facts(1)] facts(2) by auto
  next
    case ibis
    then have "row ''scenario'' = dq_scenario_id q" "\<forall>(col, vs)\<in>set (or_empty (pr_filters pr)). row col \<in> set vs"
      unfolding build_ibis_query_def ibis_selects_def or_empty_def
      by (auto simp: res_bind_eq_Inr res_map_eq_Inr split: option.splits if_splits)
    then show ?thesis using that q by blast
  qed
qed

lemma clause_or_empty: "clause f = or_empty f"
  by (simp add: clause_def or_empty_def)

lemma resolve_filters_wf:
  assumes "resolve_filters cat wh domain fs = Inr f"
  shows "wf_dict f"
proof (cases "fs = []")
  case True
  then show ?thesis using assms by (simp add: resolve_filters_def)
next
  case False
  obtain sets :: "(string \<times> dimension \<times> string list list) list" where sets: "f = fold (\<lambda>(_, d, sets). dset (map_to_view_column cat domain d) (sorted_set (intersect_all sets))) sets []"
    using assms False by (auto simp: resolve_filters_def res_map_eq_Inr)
  have "wf_dict acc \<Longrightarrow> wf_dict (fold (\<lambda>(_, d, sets). dset (map_to_view_column cat domain d) (sorted_set (intersect_all sets))) xs acc)"
    for acc and xs :: "(string \<times> dimension \<times> string list list) list"
    by (induction xs arbitrary: acc) (auto simp: wf_dict_dset)
  then show ?thesis unfolding sets by simp
qed

lemma effective_filters_facts:
  assumes "effective_filters cat wh scope domain raw = Inr f"
  shows "wf_dict (or_empty f)"
    and "scope = Some m \<Longrightarrow> dget m sid = Some (Some sp) \<Longrightarrow> check_domain_access (Some sp) domain = Inr ()
      \<and> (\<exists>sf. resolve_scope_filters (Some sp) cat wh domain = Inr sf \<and> confined (or_empty f) sf)"
proof -
  obtain user where user: "(if or_empty raw = [] then Inr None
        else res_map (\<lambda>f. if f = [] then None else Some f) (resolve_filters cat wh domain (or_empty raw))) = Inr user"
    and f: "(case scope of None \<Rightarrow> Inr user | Some scopes \<Rightarrow> enforce_cross_scenario_scope scopes user domain cat wh) = Inr f"
    using assms by (auto simp: effective_filters_def res_wrap_eq_Inr res_bind_eq_Inr)
  have wf: "wf_dict (clause user)"
    using user by (auto simp: clause_def res_map_eq_Inr split: if_splits dest: resolve_filters_wf)
  show "wf_dict (or_empty f)"
    using f wf enforced_wf [OF _ wf] by (cases scope) (auto simp: clause_or_empty [symmetric])
  assume s: "scope = Some m" "dget m sid = Some (Some sp)"
  then have "enforce_cross_scenario_scope m user domain cat wh = Inr f" "(sid, Some sp) \<in> set m"
    using f by (auto dest: map_of_SomeD)
  from enforced_scope [OF this(1) wf this(2)]
  show "check_domain_access (Some sp) domain = Inr ()
      \<and> (\<exists>sf. resolve_scope_filters (Some sp) cat wh domain = Inr sf \<and> confined (or_empty f) sf)"
    unfolding clause_or_empty by blast
qed

text \<open>What the caller's permissions say about one row of the fact data.\<close>

definition row_permitted ::
  "user_permissions \<Rightarrow> string \<Rightarrow> catalogue \<Rightarrow> warehouse \<Rightarrow> string \<Rightarrow> fact_row \<Rightarrow> bool" where
  "row_permitted perms acc cat wh domain row \<longleftrightarrow> (\<exists>s. granted perms acc (row ''scenario'') s
     \<and> (\<forall>sp. s = Some sp \<longrightarrow> check_domain_access (Some sp) domain = Inr ()
          \<and> (\<exists>sf. resolve_scope_filters (Some sp) cat wh domain = Inr sf \<and> (\<forall>(col, vs)\<in>set sf. row col \<in> set vs))))"

lemma res_wrap_Inr_typed: "res_wrap w r = Inr x \<Longrightarrow> r = Inr x"
  by (simp add: res_wrap_eq_Inr)

lemma prepare_stages:
  assumes "prepare_report parse cat reg ext wh scope rq = (Inr pr :: ('e engine_error, prepared) res)"
  shows "resolve parse cat reg ext rq = Inr (pr_plan pr)"
    and "effective_filters cat wh scope (pr_domain pr) (rq_filters rq) = (Inr (pr_filters pr) :: ('e engine_error, _) res)"
    and "res_mapM (substitute_fork reg) (data_queries (pr_plan pr)) = (Inr (pr_queries pr) :: ('e engine_error, _) res)"
    and "pr_domain pr = request_domain (pr_plan pr)"
proof -
  obtain plan filters queries rb where st: "resolve parse cat reg ext rq = Inr plan"
    "effective_filters cat wh scope (request_domain plan) (rq_filters rq) = (Inr filters :: ('e engine_error, _) res)"
    "res_mapM (substitute_fork reg) (data_queries plan) = (Inr queries :: ('e engine_error, _) res)"
    and pr: "pr = \<lparr>pr_plan = plan, pr_domain = request_domain plan, pr_queries = queries, pr_filters = filters, pr_ragged = rb\<rparr>"
    using assms unfolding prepare_report_def Let_def
    by (auto simp: res_bind_eq_Inr res_map_eq_Inr res_wrap_eq_Inr)
  show "resolve parse cat reg ext rq = Inr (pr_plan pr)"
    and "effective_filters cat wh scope (pr_domain pr) (rq_filters rq) = (Inr (pr_filters pr) :: ('e engine_error, _) res)"
    and "res_mapM (substitute_fork reg) (data_queries (pr_plan pr)) = (Inr (pr_queries pr) :: ('e engine_error, _) res)"
    and "pr_domain pr = request_domain (pr_plan pr)"
    using st by (simp_all add: pr)
qed

text \<open>A row of an authorised scenario that passes the effective filters is permitted.\<close>

lemma authorised_row_permitted:
  assumes auth: "authorised perms acc scope (row ''scenario'')"
    and eff: "effective_filters cat wh scope domain raw = (Inr f :: ('e engine_error, _) res)"
    and passes: "\<forall>(col, vs)\<in>set (or_empty f). row col \<in> set vs"
  shows "row_permitted perms acc cat wh domain row"
proof -
  obtain s where s: "granted perms acc (row ''scenario'') s"
      "case scope of None \<Rightarrow> s = None | Some m \<Rightarrow> dget m (row ''scenario'') = Some s"
    using auth unfolding authorised_def by blast
  have "check_domain_access (Some sp) domain = Inr ()
      \<and> (\<exists>sf. resolve_scope_filters (Some sp) cat wh domain = Inr sf \<and> (\<forall>(col, vs)\<in>set sf. row col \<in> set vs))"
    if sp: "s = Some sp" for sp
  proof -
    obtain m where m: "scope = Some m" "dget m (row ''scenario'') = Some (Some sp)"
      using s(2) sp by (cases scope) auto
    obtain sf where sf: "check_domain_access (Some sp) domain = Inr ()"
      "resolve_scope_filters (Some sp) cat wh domain = Inr sf" "confined (or_empty f) sf"
      using effective_filters_facts(2) [OF eff m] by blast
    have "row col \<in> set vs" if "(col, vs) \<in> set sf" for col vs
    proof -
      have "dget sf col = Some vs" using that scope_filters_wf [OF sf(2)] by (simp add: wf_dict_get)
      then obtain vs' where "dget (or_empty f) col = Some vs'" "set vs' \<subseteq> set vs"
        using sf(3) unfolding confined_def by blast
      then show ?thesis using passes by (auto dest!: map_of_SomeD)
    qed
    then show ?thesis using sf(1,2) by blast
  qed
  then show ?thesis using s(1) unfolding row_permitted_def by blast
qed

text \<open>The rows of a report whose blocks the gate authorised.\<close>

lemma report_rows_permitted:
  assumes reg: "plain_aliases reg" "clean_registry reg" "distinct_names reg"
    and prep: "prepare_report parse cat reg ext wh scope rq = (Inr pr :: ('e engine_error, prepared) res)"
    and auth: "\<And>b sid. b \<in> set (blocks (pr_plan pr)) \<Longrightarrow> sid \<in> set (expand_scenario_ref (Some reg) (rb_scenario_key b))
        \<Longrightarrow> authorised perms acc scope sid"
    and env: "env_scope env = open_engine"
    and row: "reads_row env cat db pr row" and known: "dhas (row ''scenario'') (ids reg)"
  shows "row_permitted perms acc cat wh (pr_domain pr) row"
proof -
  note st = prepare_stages [OF prep]
  note eff = effective_filters_facts [OF st(2)]
  obtain q' where q': "q' \<in> set (pr_queries pr)" "row ''scenario'' = dq_scenario_id q'"
    "\<forall>(col, vs)\<in>set (or_empty (pr_filters pr)). row col \<in> set vs"
    using row env eff(1) by (rule reads_row_confined)
  obtain q where q: "q \<in> set (data_queries (pr_plan pr))" "substitute_fork reg q = (Inr q' :: ('e engine_error, _) res)"
    using res_mapM_set [OF st(3) q'(1)] by blast
  obtain b sc mods where b: "b \<in> set (blocks (pr_plan pr))" "scenario_of reg (rb_scenario_key b) = Inr (sc, mods)"
    "dq_scenario_id q \<in> set (dependencies sc)" "modifiers q = mods \<or> modifiers q = []"
    using reg(1,2) st(1) q(1) by (rule plan_query_origin)
  have "row ''scenario'' \<in> set (expand_scenario_ref (Some reg) (rb_scenario_key b))"
    unfolding q'(2) by (rule substituted_expanded [OF reg b(2,3,4) q(2)]) (use known q'(2) in simp)
  then have "authorised perms acc scope (row ''scenario'')" using auth [OF b(1)] by blast
  then show ?thesis using st(2) q'(3) by (rule authorised_row_permitted)
qed

section \<open>An alias that hides an id\<close>

definition shadowing_scenarios :: "real_ref list" where
  "shadowing_scenarios = [example_real ''ACT'' ''actuals'', example_real ''B26'' ''budget'', example_real ''S9'' ''B26'']"

text \<open>
  The gate and the engine can disagree on a fork target. The registry accepts a scenario whose alias
  is the id of another one; the gate reads the target \<open>B26\<close> of a fork as the alias and authorises the
  scenario behind it, the engine uses it as the id and reads the other scenario, which the gate never
  looked at.
\<close>

theorem fork_target_shadowed_by_alias:
  "\<exists>reg q'. make_registry shadowing_scenarios = Inr reg
     \<and> expand_scenario_ref (Some reg) ''actuals&fork=B26'' = [''ACT'', ''S9'']
     \<and> substitute_fork reg (base_query ''actuals&fork=B26'' ''ACT'' ''2025-01'' ''2025-03'' [(''fork'', ''B26'')] [])
         = (Inr q' :: (unit engine_error, data_query) res)
     \<and> dq_scenario_id q' = ''B26'' \<and> dhas (dq_scenario_id q') (ids reg)"
proof -
  let ?q = "base_query ''actuals&fork=B26'' ''ACT'' ''2025-01'' ''2025-03'' [(''fork'', ''B26'')] []"
  let ?reg = "\<lparr>aliases = [(''actuals'', example_real ''ACT'' ''actuals''), (''budget'', example_real ''B26'' ''budget''),
        (''B26'', example_real ''S9'' ''B26'')],
      ids = [(''ACT'', example_real ''ACT'' ''actuals''), (''B26'', example_real ''B26'' ''budget''),
        (''S9'', example_real ''S9'' ''B26'')]\<rparr>"
  have "make_registry shadowing_scenarios = Inr ?reg"
    "expand_scenario_ref (Some ?reg) ''actuals&fork=B26'' = [''ACT'', ''S9'']" "dhas ''B26'' (ids ?reg)"
    by code_simp+
  moreover have "substitute_fork ?reg ?q = (Inr (?q\<lparr>dq_scenario_id := ''B26''\<rparr>) :: (unit engine_error, data_query) res)"
    by (simp add: substitute_fork_def base_query_def)
  ultimately show ?thesis by (intro exI [of _ ?reg] exI [of _ "?q\<lparr>dq_scenario_id := ''B26''\<rparr>"]) simp
qed

end
