(* ===== verification/ReadTools.thy ===== *)
theory ReadTools
  imports Engine
begin

text \<open>
  The two report tools (\<open>tools/read_tools.py\<close>): the defaults of a call, the request built from its
  arguments, the normalisation of scenario references and the execution of the request with the scope
  the gate published. A call goes through the gate of \<open>dispatch.py\<close> first; the last theorem follows it to
  the rows of the fact data it reads. Captions, the cached copy of the result and its rounding for
  display are not modelled. Aliases and filter values that are not text are used through \<open>str\<close>.
\<close>

section \<open>Arguments\<close>

text \<open>\<open>today\<close> is the year and the month of \<open>date.today()\<close>.\<close>

(* tools/read_tools.py:66-78 read_defaults *)
definition read_defaults :: "int \<times> int \<Rightarrow> string \<Rightarrow> args \<Rightarrow> args" where
  "read_defaults today tool a0 =
     (let (year, month) = today;
          put = (\<lambda>key v a. if jget a key = JNull then dset key v a else a);
          a1 = put ''period_start'' (JStr (fmt_int 0 year @ ''-01'')) a0;
          a2 = put ''period_end'' (JStr (fmt_int 0 year @ ''-'' @ fmt_int 2 month)) a1;
          a3 = put ''scenarios'' (JList [JDict [(''scenario'', JStr ''actuals''), (''alias'', JStr ''Actuals'')]]) a2
      in if tool = ''run_statement'' then put ''statement'' (JStr ''pnl'') a3 else a3)"

(* tools/read_tools.py:106-127 _invalid_scenarios_error *)
definition invalid_entry :: "json \<Rightarrow> bool" where
  "invalid_entry sc = (case sc of JDict d \<Rightarrow> \<not> truthy (dget_or JNull d ''scenario'') | _ \<Rightarrow> True)"

(* tools/read_tools.py:81-103 _duplicate_alias_error *)
definition duplicate_aliases :: "(string, string) dict list \<Rightarrow> string list" where
  "duplicate_aliases bs = snd (fold (\<lambda>b (seen, dupes).
     let al = dget_or [] b ''alias'' in
     (al # seen, if al \<in> set seen \<and> al \<notin> set dupes then dupes @ [al] else dupes)) bs ([], []))"

(* tools/read_tools.py:376-391 _normalise_scale *)
definition normalise_scale :: "int \<Rightarrow> int option" where
  "normalise_scale scale =
     (if scale = 1 then Some 0 else if scale = 1000 then Some 3 else if scale = 1000000 then Some 6
      else if scale = 1000000000 then Some 9 else if scale \<in> {0, 3, 6, 9} then Some scale else None)"

(* tools/read_tools.py:358-374 _resolve_scenario *)
definition resolve_scenario_text :: "registry \<Rightarrow> string \<Rightarrow> string" where
  "resolve_scenario_text reg ref =
     (let base = strip_scenario_modifiers ref in
      case normalize_key reg base of Inr key \<Rightarrow> key @ drop (length base) ref | Inl _ \<Rightarrow> ref)"

section \<open>Requests\<close>

datatype 'e tool_error =
    InvalidOut string
  | InvalidScale int
  | InvalidScenarios json
  | DuplicateAliases "string list"
  | ReportFailed "'e engine_error"
  | ExecutionFailed

(* tools/read_tools.py:821-827 run_statement *)
definition scenario_block :: "(json \<Rightarrow> string) \<Rightarrow> string \<Rightarrow> json \<Rightarrow> ('e tool_error, (string, string) dict) res" where
  "scenario_block show model sc =
     (case sc of
        JDict d \<Rightarrow>
          (case dget_or JNull d ''scenario'' of
             JStr s \<Rightarrow> Inr ([(''model'', model), (''scenario'', s)]
               @ (case dget d ''alias'' of Some v \<Rightarrow> [(''alias'', text_of show v)] | None \<Rightarrow> []))
           | _ \<Rightarrow> Inl ExecutionFailed)
      | _ \<Rightarrow> Inl ExecutionFailed)"

text \<open>The period bounds of the context are texts; anything else fails in the engine.\<close>

definition text_arg :: "args \<Rightarrow> string \<Rightarrow> ('e tool_error, string) res" where
  "text_arg a key = (case jget a key of JStr s \<Rightarrow> Inr s | _ \<Rightarrow> Inl ExecutionFailed)"

definition text_dict :: "(json \<Rightarrow> string) \<Rightarrow> json \<Rightarrow> (string, string) dict option" where
  "text_dict show v = (case v of JDict (e # es) \<Rightarrow> Some (dmap (\<lambda>_. text_of show) (e # es)) | _ \<Rightarrow> None)"

definition text_list :: "(json \<Rightarrow> string) \<Rightarrow> json \<Rightarrow> string list" where
  "text_list show v = map (text_of show) (elements v)"

definition check_scale :: "args \<Rightarrow> ('e tool_error, unit) res" where
  "check_scale a = (case jget a ''scale'' of
      JNum n \<Rightarrow> if normalise_scale n = None then Inl (InvalidScale n) else Inr () | _ \<Rightarrow> Inr ())"

(* tools/read_tools.py:801-844 run_statement *)
definition report_request ::
  "(json \<Rightarrow> string) \<Rightarrow> string \<Rightarrow> bool \<Rightarrow> (string, bool) dict \<Rightarrow> args \<Rightarrow> ('e tool_error, request) res" where
  "report_request show model strict grains a =
     res_bind (check_scale a) (\<lambda>_.
     let scenarios = elements (jget a ''scenarios'') in
     case List.find invalid_entry scenarios of
       Some sc \<Rightarrow> Inl (InvalidScenarios sc)
     | None \<Rightarrow>
         res_bind (res_mapM (scenario_block show model) scenarios) (\<lambda>bs.
         res_bind (text_arg a ''period_start'') (\<lambda>ps.
         res_map (\<lambda>pe.
             let ds = text_list show (jget a ''dimensions'') in
             \<lparr>rq_context = Some [(''period_start'', ps), (''period_end'', pe)],
              rq_filters = text_dict show (jget a ''filters''), rq_blocks = Some bs, rq_dimensions = ds,
              rq_strict_dimensions = strict, rq_grains = (if ds = [] then None else Some grains)\<rparr>)
           (text_arg a ''period_end''))))"

text \<open>The statement name and the metric list are printed into the model reference of every block.\<close>

(* tools/read_tools.py:776-842 run_statement *)
definition statement_request :: "int \<times> int \<Rightarrow> (json \<Rightarrow> string) \<Rightarrow> args \<Rightarrow> ('e tool_error, request) res" where
  "statement_request today show a0 =
     (let a = read_defaults today ''run_statement'' a0
      in report_request show (''statement:'' @ text_of show (jget a ''statement'')) False
           [(''detail'', True), (''grand_total'', True)] a)"

fun join_comma :: "string list \<Rightarrow> string" where
  "join_comma [] = []"
| "join_comma [x] = x"
| "join_comma (x # y # xs) = x @ '','' @ join_comma (y # xs)"

(* tools/read_tools.py:883-951 run_metric *)
definition metric_request :: "int \<times> int \<Rightarrow> (json \<Rightarrow> string) \<Rightarrow> args \<Rightarrow> ('e tool_error, request) res" where
  "metric_request today show a0 =
     (let a = read_defaults today ''run_metric'' a0
      in report_request show (''metrics:'' @ join_comma (text_list show (jget a ''metrics''))) True
           [(''detail'', True), (''subtotals'', True), (''grand_total'', True)] a)"

section \<open>Execution\<close>

(* tools/read_tools.py:403-405 _safe_execute *)
definition normalise_block :: "registry \<Rightarrow> (string, string) dict \<Rightarrow> (string, string) dict" where
  "normalise_block reg b =
     (let key = resolve_scenario_text reg (dget_or [] b ''scenario''); b1 = dset ''scenario'' key b
      in if dhas ''alias'' b1 then b1 else dset ''alias'' key b1)"

definition normalise_request :: "registry \<Rightarrow> request \<Rightarrow> request" where
  "normalise_request reg rq = rq\<lparr>rq_blocks := map_option (map (normalise_block reg)) (rq_blocks rq)\<rparr>"

(* tools/read_tools.py:393-424 _safe_execute *)
definition safe_execute ::
  "'f::{zero,plus} arith \<Rightarrow> 'f parser \<Rightarrow> 'f environment \<Rightarrow> catalogue \<Rightarrow> registry
     \<Rightarrow> (scenario_ref \<Rightarrow> (string, string) dict) \<Rightarrow> warehouse \<Rightarrow> call_scope \<Rightarrow> request
     \<Rightarrow> (expression_error tool_error, execution_plan \<times> 'f result_data) res" where
  "safe_execute a parse env cat reg ext wh scope rq =
     (let rq' = normalise_request reg rq; dupes = duplicate_aliases (case rq_blocks rq' of Some bs \<Rightarrow> bs | None \<Rightarrow> [])
      in if dupes \<noteq> [] then Inl (DuplicateAliases dupes)
         else res_wrap ReportFailed (execute_report a parse env cat reg ext wh scope rq'))"

text \<open>A report tool call: the request its arguments make, executed with the published scope.\<close>

definition report_tool_request ::
  "int \<times> int \<Rightarrow> (json \<Rightarrow> string) \<Rightarrow> string \<Rightarrow> args \<Rightarrow> ('e tool_error, request) res" where
  "report_tool_request today show tool a =
     (if tool = ''run_statement'' then statement_request today show a else metric_request today show a)"

text \<open>The entries of the two tools in the tool catalogue; the skills, which only select what an agent sees, are left out.\<close>

(* dispatch.py:99-101 _FULL_READ_CONTEXT *)
definition FULL_READ_CONTEXT :: "string list" where
  "FULL_READ_CONTEXT = [''filters'', ''scenarios'', ''scale'', ''decimals'', ''period_start'', ''period_end'']"

(* dispatch.py:120-127 TOOL_CATALOGUE *)
definition run_statement_tool :: tool_descriptor where
  "run_statement_tool = descriptor_of ''run_statement''
     \<lparr>tm_skills = None, tm_access = None, tm_mcp_read = Some True, tm_mcp_artifact = None,
      tm_scenario_params = Some [''scenarios''], tm_default_scenario = Some ''actuals'',
      tm_report_context = Some (''statement'' # FULL_READ_CONTEXT), tm_dimension_map_args = Some [(''filters'', ''report_domains'')]\<rparr>"

(* dispatch.py:128-135 TOOL_CATALOGUE *)
definition run_metric_tool :: tool_descriptor where
  "run_metric_tool = descriptor_of ''run_metric''
     \<lparr>tm_skills = None, tm_access = None, tm_mcp_read = Some True, tm_mcp_artifact = None,
      tm_scenario_params = Some [''scenarios''], tm_default_scenario = Some ''actuals'',
      tm_report_context = Some FULL_READ_CONTEXT, tm_dimension_map_args = Some [(''filters'', ''report_domains'')]\<rparr>"

lemma report_tools:
  "td_access run_statement_tool = ''read''" "td_access run_metric_tool = ''read''"
  "scoped run_statement_tool" "scoped run_metric_tool"
  "scenario_params_apart run_statement_tool" "scenario_params_apart run_metric_tool"
  "scenario_params run_statement_tool = [''scenarios'']" "scenario_params run_metric_tool = [''scenarios'']"
  "default_scenario run_statement_tool \<noteq> []" "default_scenario run_metric_tool \<noteq> []"
  "td_name run_statement_tool = ''run_statement''" "td_name run_metric_tool = ''run_metric''"
  by code_simp+

section \<open>The references of a request\<close>

lemma read_defaults_scenarios:
  "jget a ''scenarios'' \<noteq> JNull \<Longrightarrow> jget (read_defaults today tool a) ''scenarios'' = jget a ''scenarios''"
  by (cases today) (simp add: read_defaults_def Let_def jget_dset)

text \<open>Every scenario a block names is one the gate extracts.\<close>

lemma block_extracted:
  assumes "report_request show model strict grains a = (Inr rq :: ('e tool_error, request) res)"
    and "rq_blocks rq = Some bs" and "b \<in> set bs"
  shows "dget_or [] b ''scenario'' \<in> set (extract_scenario_ids show a [''scenarios''])"
proof -
  let ?es = "elements (jget a ''scenarios'')"
  have none: "List.find invalid_entry ?es = None"
    and run: "res_mapM (scenario_block show model) ?es = (Inr bs :: ('e tool_error, _) res)"
    using assms(1,2) by (auto simp: report_request_def res_bind_eq_Inr res_map_eq_Inr Let_def split: option.splits)
  obtain e where e: "e \<in> set ?es" "scenario_block show model e = (Inr b :: ('e tool_error, _) res)"
    using res_mapM_set [OF run assms(3)] by blast
  then have ok: "\<not> invalid_entry e" using none by (auto simp: find_None_iff)
  obtain d s where d: "e = JDict d" "dget_or JNull d ''scenario'' = JStr s" "dget_or [] b ''scenario'' = s"
    using e(2) by (auto simp: scenario_block_def dget_or_def split: json.splits option.splits)
  obtain es where es: "jget a ''scenarios'' = JList es" "e \<in> set es"
    using e(1) d(1) by (cases "jget a ''scenarios''") (auto simp: elements_def)
  have "entry_ref show e = Some s" using ok d by (simp add: invalid_entry_def entry_ref_def)
  then have "s \<in> value_refs show (jget a ''scenarios'')" using es by (auto simp: value_refs_def)
  then show ?thesis using d(3) by (simp add: extract_scenario_ids_set)
qed

lemma ref_key_plain:
  assumes "plain_aliases reg" and "clean_registry reg" and "ref_from reg sc"
  shows "CHR ''&'' \<notin> set (ref_key sc)"
proof -
  note plain = operand_key_plain [OF assms(1,2)]
  have variance: "CHR ''&'' \<notin> set (ref_key (make_variance p l r))" if "operand_from reg l" "operand_from reg r" for p l r
    unfolding variance_key using plain [OF that(1)] plain [OF that(2)] by simp
  show ?thesis
  proof (cases sc)
    case (Real r)
    then have "operand_from reg (OReal r)" using assms(3) by simp
    from plain [OF this] show ?thesis using Real by simp
  next
    case (Shifted s)
    then have "operand_from reg (OShifted s)" using assms(3) by (simp only: ref_from.simps)
    from plain [OF this] show ?thesis using Shifted by simp
  next
    case (Variance v)
    then have v: "operand_from reg (va_left v)" "operand_from reg (va_right v)"
      "make_variance False (va_left v) (va_right v) = sc" using assms(3) by simp_all
    from variance [OF v(1,2), of False] show ?thesis unfolding v(3) .
  next
    case (VariancePct v)
    then have v: "operand_from reg (va_left v)" "operand_from reg (va_right v)"
      "make_variance True (va_left v) (va_right v) = sc" using assms(3) by simp_all
    from variance [OF v(1,2), of True] show ?thesis unfolding v(3) .
  qed
qed

lemma expand_registered:
  "split_ref ref = (base, mods) \<Longrightarrow> expand_scenario_ref (Some r) ref =
     (case dget mods ''fork'' of None \<Rightarrow> ids_or_literal (Some r) base
      | Some t \<Rightarrow> ids_or_literal (Some r) base
          @ (if t \<noteq> [] then ids_or_literal (Some r) t else List.map_filter (parent_of r) (ids_or_literal (Some r) base)))"
  by (simp add: expand_scenario_ref_def Let_def split: option.split)

lemma drop_base: "drop (length (strip_scenario_modifiers ref)) ref = dropWhile (\<lambda>c. c \<noteq> CHR ''&'') ref"
  by (simp add: strip_scenario_modifiers_def dropWhile_eq_drop)

lemma parse_suffix:
  assumes "CHR ''&'' \<notin> set k" and "CHR ''&'' \<notin> set k'" and "suf = [] \<or> (\<exists>r. suf = CHR ''&'' # r)"
  shows "map_sum id snd (parse_scenario_modifiers (k @ suf)) = map_sum id snd (parse_scenario_modifiers (k' @ suf))"
    and "parse_scenario_modifiers (k @ suf) = Inr bm \<Longrightarrow> fst bm = k"
  using assms by (auto simp: parse_scenario_modifiers_def split_on_append Let_def res_map_def split: sum.splits)

lemma suffix_form:
  "dropWhile (\<lambda>c. c \<noteq> CHR ''&'') ref = [] \<or> (\<exists>r. dropWhile (\<lambda>c. c \<noteq> CHR ''&'') ref = CHR ''&'' # r)"
proof (cases "dropWhile (\<lambda>c. c \<noteq> CHR ''&'') ref")
  case (Cons x xs)
  then have "x = CHR ''&''" using hd_dropWhile [of "\<lambda>c. c \<noteq> CHR ''&''" ref] by simp
  then show ?thesis using Cons by simp
qed simp

lemma split_ref_form:
  assumes "CHR ''&'' \<notin> set k" and "suf = [] \<or> (\<exists>r. suf = CHR ''&'' # r)"
  shows "split_ref (k @ suf) = (k, case parse_scenario_modifiers (k @ suf) of Inr bm \<Rightarrow> snd bm | Inl _ \<Rightarrow> [])"
proof (cases "parse_scenario_modifiers (k @ suf)")
  case (Inl e)
  have "takeWhile (\<lambda>c. c \<noteq> CHR ''&'') (k @ suf) = k" using assms by (induction k) auto
  then show ?thesis using Inl by (simp add: split_ref_def)
next
  case (Inr bm)
  then show ?thesis using parse_suffix(2) [OF assms(1,1,2)] by (cases bm) (simp add: split_ref_def)
qed

text \<open>The normalised reference expands to the same ids as the reference the gate saw.\<close>

lemma normalised_expands_same:
  assumes "plain_aliases reg" and "clean_registry reg"
  shows "expand_scenario_ref (Some reg) (resolve_scenario_text reg ref) = expand_scenario_ref (Some reg) ref"
proof -
  let ?base = "strip_scenario_modifiers ref" and ?suf = "dropWhile (\<lambda>c. c \<noteq> CHR ''&'') ref"
  have ref: "ref = ?base @ ?suf" by (simp add: strip_scenario_modifiers_def)
  have pb: "CHR ''&'' \<notin> set ?base" by (auto simp: strip_scenario_modifiers_def dest: set_takeWhileD)
  show ?thesis
  proof (cases "resolve_key reg ?base")
    case (Inl e)
    then show ?thesis by (simp add: resolve_scenario_text_def normalize_key_def)
  next
    case (Inr sc)
    have from_reg: "ref_from reg sc" using resolve_key_from [OF cleanD(1) [OF assms(2)] Inr] .
    have canon: "resolve_key reg (ref_key sc) = Inr sc" using resolve_canonical [OF assms(2) from_reg] .
    have pk: "CHR ''&'' \<notin> set (ref_key sc)" using ref_key_plain [OF assms from_reg] .
    have new: "resolve_scenario_text reg ref = ref_key sc @ ?suf"
      by (simp add: resolve_scenario_text_def normalize_key_def Inr drop_base)
    have "map_sum id snd (parse_scenario_modifiers (ref_key sc @ ?suf)) = map_sum id snd (parse_scenario_modifiers (?base @ ?suf))"
      by (rule parse_suffix(1) [OF pk pb suffix_form])
    then have mods: "(case parse_scenario_modifiers (ref_key sc @ ?suf) of Inr bm \<Rightarrow> snd bm | Inl _ \<Rightarrow> [])
        = (case parse_scenario_modifiers (?base @ ?suf) of Inr bm \<Rightarrow> snd bm | Inl _ \<Rightarrow> [])"
      by (cases "parse_scenario_modifiers (ref_key sc @ ?suf)"; cases "parse_scenario_modifiers (?base @ ?suf)") auto
    have "ids_or_literal (Some reg) (ref_key sc) = ids_or_literal (Some reg) ?base"
    proof -
      have "dependencies sc \<noteq> []" by (cases sc) auto
      then obtain x xs where "dependencies sc = x # xs" by (cases "dependencies sc") auto
      then show ?thesis by (simp add: ids_or_literal_def expand_dependencies_def canon Inr)
    qed
    then have "expand_scenario_ref (Some reg) (ref_key sc @ ?suf) = expand_scenario_ref (Some reg) (?base @ ?suf)"
      unfolding expand_registered [OF split_ref_form [OF pk suffix_form]] expand_registered [OF split_ref_form [OF pb suffix_form]] mods
      by (simp only:)
    then show ?thesis unfolding new using ref by simp
  qed
qed

lemma resolved_block_key:
  "resolve_block cat reg raw = Inr b \<Longrightarrow> dget raw ''scenario'' = Some (rb_scenario_key b)"
  by (auto simp: resolve_block_def res_bind_eq_Inr split: option.splits)

lemma plan_blocks:
  assumes "resolve parse cat reg ext rq = Inr plan" and "b \<in> set (blocks plan)"
  obtains raws raw where "rq_blocks rq = Some raws" "raw \<in> set raws" "dget raw ''scenario'' = Some (rb_scenario_key b)"
proof -
  obtain bs where bs: "resolve_blocks cat reg rq = Inr bs" "blocks plan = bs"
    using assms(1) unfolding resolve_def Let_def by (auto simp: res_bind_eq_Inr)
  then obtain raws where raws: "rq_blocks rq = Some raws" "res_mapM (resolve_block cat reg) raws = Inr bs"
    by (auto simp: resolve_blocks_def split: option.splits if_splits)
  obtain raw where "raw \<in> set raws" "resolve_block cat reg raw = Inr b"
    using res_mapM_set [OF raws(2)] assms(2) bs(2) by blast
  then show ?thesis using that raws(1) resolved_block_key by blast
qed

lemma tool_request_extracted:
  assumes "report_tool_request today show tool a = (Inr rq :: ('e tool_error, request) res)"
    and "rq_blocks rq = Some bs" and "b \<in> set bs" and "jget a ''scenarios'' \<noteq> JNull"
  shows "dget_or [] b ''scenario'' \<in> set (extract_scenario_ids show a [''scenarios''])"
proof -
  obtain model strict grains tl where
    "report_request show model strict grains (read_defaults today tl a) = (Inr rq :: ('e tool_error, request) res)"
    using assms(1) unfolding report_tool_request_def statement_request_def metric_request_def Let_def
    by (auto split: if_splits)
  from block_extracted [OF this assms(2,3)] show ?thesis
    using extract_cong [of "[''scenarios'']" "read_defaults today tl a" a "show"] read_defaults_scenarios [OF assms(4)] by simp
qed


section \<open>Examples\<close>

definition margin_call :: args where
  "margin_call = [(''metrics'', JList [JStr ''margin'']), (''scenarios'', JList [JDict [(''scenario'', JStr ''ACT'')]]),
     (''period_start'', JStr ''2025-01''), (''period_end'', JStr ''2025-03'')]"

definition open_reader :: user_permissions where
  "open_reader = \<lparr>perm_user = ''u1'', perm_admin = False,
     perm_scenarios = [(''ACT'', \<lparr>effective_role = ''analyst'', tool_scopes = [(''read'', None)]\<rparr>)]\<rparr>"

lemma margin_call_runs:
  "process_tool_call example_parse no_json blank (Some example_registry) open_reader None run_metric_tool margin_call [] None
     = (Inr (margin_call, None), None)"
  by code_simp

definition margin_request :: request where
  "margin_request = \<lparr>rq_context = Some [(''period_start'', ''2025-01''), (''period_end'', ''2025-03'')], rq_filters = None,
     rq_blocks = Some [[(''model'', ''metrics:margin''), (''scenario'', ''ACT'')]], rq_dimensions = [],
     rq_strict_dimensions = True, rq_grains = None\<rparr>"

lemma margin_request_made:
  "report_tool_request (2025, 3) blank ''run_metric'' margin_call = (Inr margin_request :: (unit tool_error, request) res)"
  by code_simp

definition margin_block :: resolved_block where
  "margin_block = \<lparr>rb_alias = ''actuals'', rb_scenario_key = ''actuals'', rb_metric_keys = [''margin''],
     display_items = [''margin''], is_statement = False, display_format = [], color_code = False\<rparr>"

definition margin_query :: data_query where
  "margin_query = assign_query [''cost'', ''revenue''] ''pnl'' ''period'' ''period''
     (base_query ''actuals'' ''ACT'' ''2025-01'' ''2025-03'' [] [])"

definition margin_plan :: execution_plan where
  "margin_plan = \<lparr>blocks = [margin_block], data_queries = [margin_query], computed_evals = [], plan_dimensions = [],
     plan_period_start = ''2025-01'', plan_period_end = ''2025-03'', all_metric_keys = [''cost'', ''revenue'', ''margin''],
     all_base_metric_keys = [''cost'', ''revenue''], all_derived_metric_keys = [''margin''], plan_grains = detail_only\<rparr>"

lemma margin_plan_resolved:
  "resolve example_parse fact_catalogue example_registry (\<lambda>_. []) (normalise_request example_registry margin_request) = Inr margin_plan"
proof -
  let ?rq = "normalise_request example_registry margin_request"
  have "resolve_metric_dependencies example_parse (metrics fact_catalogue) [''margin'']
      = Inr ([''cost'', ''revenue'', ''margin''], [''cost'', ''revenue''], [''margin''])" 
    using example_metrics by (simp add: fact_catalogue_def)
  moreover have "infer_domain (metrics fact_catalogue) [''cost'', ''revenue''] = ''pnl''"
    using example_domain by (simp add: fact_catalogue_def)
  moreover have "period_bounds ?rq = Inr (''2025-01'', ''2025-03'')" "filter_grain_of ''2025-01'' ''2025-03'' = Inr MONTH"
    "resolve_blocks fact_catalogue example_registry ?rq = Inr [margin_block]"
    "remdups (map rb_scenario_key [margin_block]) = [''actuals'']"
    "expanded_keys example_registry [''actuals''] = Inr [''actuals'']"
    "plan_queries fact_catalogue example_registry (\<lambda>_. []) [] MONTH ''2025-01'' ''2025-03'' [''actuals'']
       = Inr [base_query ''actuals'' ''ACT'' ''2025-01'' ''2025-03'' [] []]"
    "build_evals example_registry (filter (is_computed example_registry) (sorted_set [''actuals''])) = Inr []"
    "remdups (concat (map rb_metric_keys [margin_block])) = [''margin'']"
    "plan_columns fact_catalogue ''pnl'' MONTH = Inr (''period'', ''period'')"
    "rq_dimensions ?rq = []" "grain_spec_of (rq_grains ?rq) = detail_only"
    "dedup_queries [] (map (assign_query [''cost'', ''revenue''] ''pnl'' ''period'' ''period'')
       [base_query ''actuals'' ''ACT'' ''2025-01'' ''2025-03'' [] []]) = [margin_query]"
    by code_simp+
  ultimately show ?thesis unfolding margin_plan_def by (intro resolve_run)
qed

definition margin_prepared :: prepared where
  "margin_prepared = \<lparr>pr_plan = margin_plan, pr_domain = ''pnl'', pr_queries = [margin_query], pr_filters = None, pr_ragged = None\<rparr>"

lemma margin_report_prepared:
  "prepare_report example_parse fact_catalogue example_registry (\<lambda>_. []) example_warehouse None
       (normalise_request example_registry margin_request) = (Inr margin_prepared :: (unit engine_error, prepared) res)"
proof -
  have "check_backends fact_catalogue margin_plan = (Inr () :: (unit engine_error, unit) res)"
    "request_domain margin_plan = ''pnl''" "or_empty (rq_filters (normalise_request example_registry margin_request)) = []"
    "rq_filters (normalise_request example_registry margin_request) = None"
    "plan_dimensions margin_plan = []" "data_queries margin_plan = [margin_query]"
    "substitute_fork example_registry margin_query = (Inr margin_query :: (unit engine_error, data_query) res)"
    "reject_inline_filters fact_catalogue ''pnl'' [] = (Inr () :: (unit engine_error, unit) res)"
    "detect_ragged_breakdown [] fact_catalogue None ''pnl'' = (Inr None :: (unit engine_error, _) res)"
    "effective_filters fact_catalogue example_warehouse None ''pnl'' None = (Inr None :: (unit engine_error, _) res)"
    by code_simp+
  then show ?thesis
    unfolding prepare_report_def margin_plan_resolved by (simp add: margin_prepared_def)
qed

definition margin_env :: "int environment" where
  "margin_env = \<lparr>env_scope = open_engine, env_run = (\<lambda>_. []), env_ibis = (\<lambda>_. None), env_columns = (\<lambda>_. []),
     env_calendar = (\<lambda>_ _ _ _. [])\<rparr>"

lemma margin_row_read: "reads_row margin_env fact_catalogue no_database margin_prepared (ledger_row ''C1'' ''c7'')"
proof -
  define sql where "sql = generate_sql open_engine margin_query fact_catalogue [] None detail_only"
  have "case sql of Inr [aq] \<Rightarrow> selects no_database (aq_params aq) (aq_where aq) (ledger_row ''C1'' ''c7'') | _ \<Rightarrow> False"
    unfolding sql_def by code_simp
  then obtain aq where aq: "generate_sql open_engine margin_query fact_catalogue [] None detail_only = Inr [aq]"
    "selects no_database (aq_params aq) (aq_where aq) (ledger_row ''C1'' ''c7'')"
    unfolding sql_def by (auto split: sum.splits list.splits)
  have "dget (domains fact_catalogue) (dq_domain margin_query) = Some ledger_domain" "dc_backend_kind ledger_domain \<noteq> Ibis"
    by code_simp+
  then have "fetch margin_env fact_catalogue (plan_view_of margin_prepared) None None margin_query = Inr (Native [aq])"
    using aq(1) by (simp add: fetch_def margin_env_def plan_view_of_def margin_prepared_def margin_plan_def)
  then show ?thesis
    unfolding reads_row_def using aq(2) by (auto simp: margin_prepared_def)
qed

lemma example_distinct_names: "distinct_names example_registry"
proof -
  have "resolve_key example_registry ''ACT'' = Inr (Real (example_real ''ACT'' ''actuals''))"
    "resolve_key example_registry ''B26'' = Inr (Real (example_real ''B26'' ''budget''))" by code_simp+
  then show ?thesis unfolding distinct_names_def by (auto simp: example_registry_def split: if_splits)
qed


end
