(* ===== verification/Inspection.thy ===== *)
theory Inspection
  imports ReadTools
begin

text \<open>
  Row-level inspection (\<open>engine/inspect.py\<close> and the tool \<open>inspect_rows\<close> of \<open>tools/read_tools.py\<close>): which
  sources, columns and filters a client is offered, the query of a call, and the preview the agent gets.
  A query is its projection, its conditions with their values and its limit; running it is a parameter.
  The audit row, the caption and the conversion of database values to JSON are not modelled.
\<close>

section \<open>Sources\<close>

datatype inspection_error =
    UnknownSource string
  | NotInspectable string
  | NoInspectColumns string
  | BadPeriodFormat string
  | GrainsDiffer
  | GrainRejected resolver_error
  | ColumnsDisabled "string list"
  | EmptyProjection
  | LimitNotPositive int
  | ClientRequired
  | UnsafeColumn string
  | BackendRequired string string
  | InspectFilters filter_error

record filter_dimension =
  fd_key :: string
  fd_label :: string
  fd_column :: string

(* engine/inspect.py:170-184 _filter_dimensions *)
definition add_filter_dimension :: "string \<Rightarrow> string \<Rightarrow> string \<Rightarrow> filter_dimension list \<Rightarrow> filter_dimension list" where
  "add_filter_dimension key label column acc =
     (if key = [] \<or> key \<in> fd_key ` set acc then acc else acc @ [\<lparr>fd_key = key, fd_label = label, fd_column = column\<rparr>])"

text \<open>
  The recursion over parents has no memory: along a cycle of parents it would not end. \<open>n\<close> bounds its
  depth, and \<^const>\<open>None\<close> is Python's \<open>RecursionError\<close>.
\<close>

(* engine/inspect.py:186-197 walk_parents of _filter_dimensions *)
fun walk_parents_rec :: "nat \<Rightarrow> dims \<Rightarrow> string \<Rightarrow> string \<Rightarrow> filter_dimension list \<Rightarrow> filter_dimension list option" where
  "walk_parents_rec 0 ds key column acc = None"
| "walk_parents_rec (Suc n) ds key column acc =
     (case dget ds key of
        None \<Rightarrow> Some acc
      | Some d \<Rightarrow>
          foldl (\<lambda>r p. Option.bind r (\<lambda>a.
              walk_parents_rec n ds p column
                (add_filter_dimension p (case dget ds p of Some q \<Rightarrow> dim_label q | None \<Rightarrow> p) column a)))
            (Some acc) (dkeys (parents d)))"

(* engine/inspect.py:199-212 _filter_dimensions *)
definition add_bound_dimension :: "nat \<Rightarrow> dims \<Rightarrow> cube_dimension \<Rightarrow> filter_dimension list \<Rightarrow> filter_dimension list option" where
  "add_bound_dimension n ds cd acc =
     (if \<not> filterable cd \<or> source_inline cd then Some acc
      else walk_parents_rec n ds (cd_key cd) (cd_source cd)
             (add_filter_dimension (cd_key cd)
                (if cd_label cd \<noteq> [] then cd_label cd
                 else (case dget ds (cd_key cd) of Some m \<Rightarrow> dim_label m | None \<Rightarrow> cd_key cd))
                (cd_source cd) acc))"

text \<open>\<open>bound_leaf_columns\<close>: the first column bound to each key.\<close>

(* engine/inspect.py:199-204 _filter_dimensions *)
definition bound_leaf_columns :: "domain_catalogue \<Rightarrow> (string, string) dict" where
  "bound_leaf_columns dc =
     fold (\<lambda>cd m. if \<not> filterable cd \<or> source_inline cd \<or> dhas (cd_key cd) m then m else dset (cd_key cd) (cd_source cd) m)
       (dc_dimensions dc) []"

(* engine/inspect.py:214-221 _filter_dimensions *)
definition add_ragged_dimension :: "(string, string) dict \<Rightarrow> string \<times> dimension \<Rightarrow> filter_dimension list \<Rightarrow> filter_dimension list" where
  "add_ragged_dimension bound kd acc =
     (if is_ragged (snd kd)
      then (case dget bound (dim_leaf_dimension (snd kd)) of
              None \<Rightarrow> acc
            | Some column \<Rightarrow> add_filter_dimension (fst kd) (dim_label (snd kd)) column acc)
      else acc)"

(* engine/inspect.py:163-222 _filter_dimensions *)
definition filter_dimensions :: "nat \<Rightarrow> catalogue \<Rightarrow> domain_catalogue \<Rightarrow> filter_dimension list option" where
  "filter_dimensions n cat dc =
     map_option (fold (add_ragged_dimension (bound_leaf_columns dc)) (dimensions cat))
       (foldl (\<lambda>r cd. Option.bind r (add_bound_dimension n (dimensions cat) cd)) (Some []) (dc_dimensions dc))"

record inspection_source =
  is_key :: string
  is_view :: string
  is_backend :: string
  is_columns :: "string list"
  is_filters :: "filter_dimension list"

definition backend_name :: "string \<Rightarrow> domain_catalogue \<Rightarrow> string" where
  "backend_name primary dc = (if dc_backend_kind dc = Ibis then ''ibis'' else primary)"

(* engine/inspect.py:53-69 list_inspection_sources *)
definition list_inspection_sources :: "nat \<Rightarrow> string \<Rightarrow> catalogue \<Rightarrow> inspection_source list option" where
  "list_inspection_sources n primary cat =
     foldl (\<lambda>r (key, dc). Option.bind r (\<lambda>acc.
         map_option (\<lambda>fs. acc @ [\<lparr>is_key = key, is_view = source_view dc, is_backend = backend_name primary dc,
                                  is_columns = inspect_columns dc, is_filters = fs\<rparr>])
           (filter_dimensions n cat dc)))
       (Some []) (filter (inspect_enabled \<circ> snd) (sort_key fst (domains cat)))"

(* engine/inspect.py:152-160 _inspect_domain *)
definition inspect_domain :: "catalogue \<Rightarrow> string \<Rightarrow> (inspection_error, domain_catalogue) res" where
  "inspect_domain cat key =
     (case dget (domains cat) key of
        None \<Rightarrow> Inl (UnknownSource key)
      | Some dc \<Rightarrow>
          if \<not> inspect_enabled dc then Inl (NotInspectable key)
          else if inspect_columns dc = [] then Inl (NoInspectColumns key) else Inr dc)"

(* engine/inspect.py:72-82 get_inspection_schema *)
definition get_inspection_schema ::
  "nat \<Rightarrow> string \<Rightarrow> catalogue \<Rightarrow> string \<Rightarrow> (inspection_error, inspection_source option) res" where
  "get_inspection_schema n primary cat key =
     res_map (\<lambda>dc. map_option (\<lambda>fs. \<lparr>is_key = key, is_view = source_view dc, is_backend = backend_name primary dc,
                                    is_columns = inspect_columns dc, is_filters = fs\<rparr>) (filter_dimensions n cat dc))
       (inspect_domain cat key)"

section \<open>The query\<close>

(* engine/inspect.py:17-17 DEFAULT_INSPECT_LIMIT *)
definition DEFAULT_INSPECT_LIMIT :: int where
  "DEFAULT_INSPECT_LIMIT = 200"

text \<open>\<open>x or y\<close> of two optional texts.\<close>

definition or_text :: "string option \<Rightarrow> string option \<Rightarrow> string option" where
  "or_text x y = (case x of Some (c # cs) \<Rightarrow> x | _ \<Rightarrow> y)"

(* engine/inspect.py:25-50 _inspect_period_column *)
definition inspect_period_column ::
  "catalogue \<Rightarrow> string \<Rightarrow> string option \<Rightarrow> string option \<Rightarrow> (inspection_error, string) res" where
  "inspect_period_column cat key ps pe =
     (case or_text ps pe of
        None \<Rightarrow> Inr ''period''
      | Some code \<Rightarrow>
          (case detect_grain code of
             None \<Rightarrow> Inl (BadPeriodFormat code)
           | Some g \<Rightarrow>
               if (case (ps, pe) of (Some (a # as), Some (b # bs)) \<Rightarrow> detect_grain (a # as) \<noteq> detect_grain (b # bs) | _ \<Rightarrow> False)
               then Inl GrainsDiffer
               else if g = MONTH then Inr ''period''
               else res_wrap GrainRejected (period_column_for_grain cat key g)))"

(* engine/inspect.py:225-237 _project_columns *)
definition project_columns :: "domain_catalogue \<Rightarrow> string list option \<Rightarrow> (inspection_error, string list) res" where
  "project_columns dc columns =
     (case columns of
        None \<Rightarrow> Inr (inspect_columns dc)
      | Some cs \<Rightarrow>
          let unknown = filter (\<lambda>c. c \<notin> set (inspect_columns dc)) cs
          in if unknown \<noteq> [] then Inl (ColumnsDisabled unknown)
             else if cs = [] then Inl EmptyProjection else Inr cs)"

text \<open>\<open>cap\<close> is \<open>MAX_INSPECT_LIMIT\<close>, from the environment.\<close>

(* engine/inspect.py:240-245 _effective_limit *)
definition effective_limit :: "int \<Rightarrow> int option \<Rightarrow> (inspection_error, int) res" where
  "effective_limit cap limit =
     (case limit of
        None \<Rightarrow> Inr DEFAULT_INSPECT_LIMIT
      | Some n \<Rightarrow> if n \<le> 0 then Inl (LimitNotPositive n) else Inr (min n cap))"

(* engine/inspect.py:248-277 _resolve_dimension_filters *)
definition resolve_dimension_filters ::
  "catalogue \<Rightarrow> warehouse option \<Rightarrow> call_scope \<Rightarrow> string \<Rightarrow> (string, string) dict option
     \<Rightarrow> (inspection_error, (string, string list) dict option) res" where
  "resolve_dimension_filters cat client scope key filters =
     res_bind (if or_empty filters = [] then Inr None
               else (case client of
                       None \<Rightarrow> Inl ClientRequired
                     | Some wh \<Rightarrow> res_wrap InspectFilters
                         (res_map (\<lambda>f. if f = [] then None else Some f) (resolve_filters cat wh key (or_empty filters)))))
       (\<lambda>user. case scope of
          None \<Rightarrow> Inr user
        | Some scopes \<Rightarrow>
            (case client of
               None \<Rightarrow> Inl ClientRequired
             | Some wh \<Rightarrow> res_wrap InspectFilters (enforce_cross_scenario_scope scopes user key cat wh)))"

datatype inspect_condition =
    InScenario string
  | PeriodFrom string string
  | PeriodTo string string
  | MemberOf string "string list"
  | Committed

record inspect_query =
  nq_view :: string
  nq_columns :: "string list"
  nq_conditions :: "inspect_condition list"
  nq_limit :: int

text \<open>The conditions both backends share, in their order; \<open>items\<close> are the sorted filters.\<close>

definition scenario_and_period :: "string option \<Rightarrow> string option \<Rightarrow> string option \<Rightarrow> string \<Rightarrow> inspect_condition list" where
  "scenario_and_period sid ps pe column =
     (case sid of None \<Rightarrow> [] | Some s \<Rightarrow> [InScenario s]) @ (case ps of None \<Rightarrow> [] | Some p \<Rightarrow> [PeriodFrom column p])
     @ (case pe of None \<Rightarrow> [] | Some p \<Rightarrow> [PeriodTo column p])"

(* engine/inspect.py:357-388 _base_conditions *)
definition base_conditions ::
  "(string, string list) dict option \<Rightarrow> string option \<Rightarrow> string option \<Rightarrow> string option \<Rightarrow> string
     \<Rightarrow> (inspection_error, inspect_condition list) res" where
  "base_conditions dimension_filters sid ps pe column =
     (if \<not> safe_identifier column then Inl (UnsafeColumn column)
      else case List.find (\<lambda>(col, _). \<not> safe_identifier col) (sort (or_empty dimension_filters)) of
        Some (col, _) \<Rightarrow> Inl (UnsafeColumn col)
      | None \<Rightarrow> Inr (scenario_and_period sid ps pe column
          @ map (\<lambda>(col, vs). MemberOf col vs) (sort (or_empty dimension_filters))))"

(* engine/inspect.py:320-354 _clickhouse_sql *)
definition clickhouse_sql ::
  "domain_catalogue \<Rightarrow> string list \<Rightarrow> (string, string list) dict option \<Rightarrow> int \<Rightarrow> string option \<Rightarrow> string option
     \<Rightarrow> string option \<Rightarrow> string \<Rightarrow> (inspection_error, inspect_query) res" where
  "clickhouse_sql dc columns dimension_filters limit sid ps pe column =
     res_bind (base_conditions dimension_filters sid ps pe column) (\<lambda>conds.
       case List.find (\<lambda>c. \<not> safe_identifier c) columns of
         Some c \<Rightarrow> Inl (UnsafeColumn c)
       | None \<Rightarrow> Inr \<lparr>nq_view = source_view dc, nq_columns = columns,
                      nq_conditions = conds @ (if versioned dc then [Committed] else []), nq_limit = limit\<rparr>)"

(* engine/inspect.py:391-426 _inspect_ibis_rows *)
definition inspect_ibis_query ::
  "domain_catalogue \<Rightarrow> string list \<Rightarrow> (string, string list) dict option \<Rightarrow> int \<Rightarrow> string option \<Rightarrow> string option
     \<Rightarrow> string option \<Rightarrow> string \<Rightarrow> string list option \<Rightarrow> (inspection_error, inspect_query) res" where
  "inspect_ibis_query dc columns dimension_filters limit sid ps pe column backends =
     (if backends = None \<or> backend dc \<notin> set (the backends) then Inl (BackendRequired (dc_domain dc) (backend dc))
      else Inr \<lparr>nq_view = source_view dc, nq_columns = columns,
                nq_conditions = scenario_and_period sid ps pe column
                  @ map (\<lambda>(col, vs). MemberOf col vs) (sort (or_empty dimension_filters)), nq_limit = limit\<rparr>)"

record inspect_call =
  ic_source :: string
  ic_filters :: "(string, string) dict option"
  ic_columns :: "string list option"
  ic_limit :: "int option"
  ic_scenario :: "string option"
  ic_start :: "string option"
  ic_end :: "string option"

text \<open>One row more than the limit is asked for, to see whether there are more.\<close>

(* engine/inspect.py:100-136 inspect_rows *)
definition plan_inspection ::
  "int \<Rightarrow> catalogue \<Rightarrow> warehouse option \<Rightarrow> string list option \<Rightarrow> call_scope \<Rightarrow> inspect_call
     \<Rightarrow> (inspection_error, int \<times> inspect_query) res" where
  "plan_inspection cap cat client backends scope ic =
     res_bind (inspect_domain cat (ic_source ic)) (\<lambda>dc.
     res_bind (project_columns dc (ic_columns ic)) (\<lambda>columns.
     res_bind (effective_limit cap (ic_limit ic)) (\<lambda>limit.
     res_bind (inspect_period_column cat (ic_source ic) (ic_start ic) (ic_end ic)) (\<lambda>column.
     res_bind (resolve_dimension_filters cat client scope (ic_source ic) (ic_filters ic)) (\<lambda>fs.
     res_map (Pair limit)
       (if dc_backend_kind dc = Ibis
        then inspect_ibis_query dc columns fs (limit + 1) (ic_scenario ic) (ic_start ic) (ic_end ic) column backends
        else if client = None then Inl ClientRequired
        else clickhouse_sql dc columns fs (limit + 1) (ic_scenario ic) (ic_start ic) (ic_end ic) column))))))"

record inspection =
  ir_columns :: "string list"
  ir_rows :: "(string, json) dict list"
  ir_limit :: int
  ir_truncated :: bool
  ir_query :: inspect_query

text \<open>\<open>rows[:limit]\<close>, with Python's meaning of a negative bound; \<open>run\<close> executes the query.\<close>

definition py_take :: "int \<Rightarrow> 'a list \<Rightarrow> 'a list" where
  "py_take n xs = (if 0 \<le> n then take (nat n) xs else take (length xs - nat (- n)) xs)"

(* engine/inspect.py:85-149 inspect_rows *)
definition engine_inspect_rows ::
  "(inspect_query \<Rightarrow> (string, json) dict list) \<Rightarrow> int \<Rightarrow> catalogue \<Rightarrow> warehouse option \<Rightarrow> string list option \<Rightarrow> call_scope
     \<Rightarrow> inspect_call \<Rightarrow> (inspection_error, inspection) res" where
  "engine_inspect_rows run cap cat client backends scope ic =
     res_map (\<lambda>(limit, q). let rows = run q; more = int (length rows) > limit in
         \<lparr>ir_columns = nq_columns q, ir_rows = (if more then py_take limit rows else rows), ir_limit = limit,
          ir_truncated = more, ir_query = q\<rparr>)
       (plan_inspection cap cat client backends scope ic)"

section \<open>The tool\<close>

text \<open>
  \<open>value == value.upper()\<close> with an upper-case letter or a digit. Letters outside ASCII have no case here.
\<close>

definition lower_letter :: "char \<Rightarrow> bool" where
  "lower_letter c = (CHR ''a'' \<le> c \<and> c \<le> CHR ''z'')"

definition upper_letter :: "char \<Rightarrow> bool" where
  "upper_letter c = (CHR ''A'' \<le> c \<and> c \<le> CHR ''Z'')"

(* engine/scenario_store.py:235-237 _looks_like_literal_scenario_id *)
definition looks_like_literal :: "string \<Rightarrow> bool" where
  "looks_like_literal v \<longleftrightarrow> \<not> list_ex lower_letter v \<and> list_ex (\<lambda>c. upper_letter c \<or> is_digit c) v"

text \<open>
  The registry is \<^const>\<open>None\<close> when loading it raises, which is the outer \<^const>\<open>None\<close>; the inner one is the
  dictionary that reports an invalid scenario.
\<close>

(* tools/read_tools.py:130-147 _resolve_writable_id *)
definition resolve_writable_id :: "registry option \<Rightarrow> string \<Rightarrow> string option option" where
  "resolve_writable_id reg v =
     (if v = [] then Some None
      else if looks_like_literal v then Some (Some v)
      else case reg of
        None \<Rightarrow> None
      | Some r \<Rightarrow> (case resolve_writable r v of Inr s \<Rightarrow> Some (Some (scenario_id s)) | Inl _ \<Rightarrow> Some None))"

text \<open>An invalid scenario is used as it was given.\<close>

(* tools/read_tools.py:454-460 _resolve_inspection_scenario *)
definition resolve_inspection_scenario :: "registry option \<Rightarrow> string option \<Rightarrow> string option option" where
  "resolve_inspection_scenario reg sid =
     (case sid of
        None \<Rightarrow> Some None
      | Some v \<Rightarrow> (case resolve_writable_id reg v of
          None \<Rightarrow> None
        | Some (Some r) \<Rightarrow> Some (Some r)
        | Some None \<Rightarrow> Some (Some v)))"

(* tools/read_tools.py:446-452 _inspection_ibis_backends *)
definition inspection_ibis_backends :: "(string \<Rightarrow> bool) \<Rightarrow> catalogue \<Rightarrow> string \<Rightarrow> string list option" where
  "inspection_ibis_backends available cat key =
     (case dget (domains cat) key of
        None \<Rightarrow> None
      | Some dc \<Rightarrow> if dc_backend_kind dc = Ibis then Some (filter available [backend dc]) else None)"

(* dispatch.py:142-147 TOOL_CATALOGUE *)
definition inspect_rows_tool :: tool_descriptor where
  "inspect_rows_tool = descriptor_of ''inspect_rows''
     \<lparr>tm_skills = None, tm_access = None, tm_mcp_read = Some True, tm_mcp_artifact = None,
      tm_scenario_params = Some [''scenario_id''], tm_default_scenario = None,
      tm_report_context = Some [''filters'', ''period_start'', ''period_end''], tm_dimension_map_args = None\<rparr>"

text \<open>
  The parameters of the tool as the engine uses them. \<^const>\<open>None\<close> is a call whose arguments have other
  types; it ends in a \<open>TypeError\<close> or the like.
\<close>

fun optional_text :: "json \<Rightarrow> string option option" where
  "optional_text JNull = Some None"
| "optional_text (JStr s) = Some (Some s)"
| "optional_text _ = None"

fun optional_count :: "json \<Rightarrow> int option option" where
  "optional_count JNull = Some None"
| "optional_count (JNum n) = Some (Some n)"
| "optional_count _ = None"

definition column_list :: "(json \<Rightarrow> string) \<Rightarrow> json \<Rightarrow> string list option" where
  "column_list show v = (case v of JList es \<Rightarrow> Some (map (text_of show) es) | _ \<Rightarrow> None)"

(* tools/read_tools.py:662-672 inspect_rows *)
definition inspect_call_of :: "(json \<Rightarrow> string) \<Rightarrow> args \<Rightarrow> inspect_call option" where
  "inspect_call_of show a =
     (case (jget a ''source_key'', optional_text (jget a ''scenario_id''), optional_count (jget a ''limit''),
            optional_text (jget a ''period_start''), optional_text (jget a ''period_end'')) of
        (JStr key, Some sid, Some limit, Some ps, Some pe) \<Rightarrow>
          Some \<lparr>ic_source = key, ic_filters = text_dict show (jget a ''filters''),
                ic_columns = column_list show (jget a ''columns''), ic_limit = limit, ic_scenario = sid,
                ic_start = ps, ic_end = pe\<rparr>
      | _ \<Rightarrow> None)"

datatype inspect_outcome =
    InvalidOutMode
  | InspectionRefused inspection_error
  | InspectionFailed

text \<open>The query of a call: what the tool asks the engine for, with the scope the gate published.\<close>

(* tools/read_tools.py:680-706 inspect_rows *)
definition tool_inspection ::
  "int \<Rightarrow> catalogue \<Rightarrow> warehouse \<Rightarrow> (string \<Rightarrow> bool) \<Rightarrow> registry option \<Rightarrow> (json \<Rightarrow> string) \<Rightarrow> string \<Rightarrow> call_scope
     \<Rightarrow> args \<Rightarrow> (inspect_outcome, int \<times> inspect_query) res" where
  "tool_inspection cap cat wh available reg show out scope a =
     (if out \<notin> {''render'', ''agent''} then Inl InvalidOutMode
      else case inspect_call_of show a of
        None \<Rightarrow> Inl InspectionFailed
      | Some ic \<Rightarrow>
          (case resolve_inspection_scenario reg (ic_scenario ic) of
             None \<Rightarrow> Inl InspectionFailed
           | Some sid \<Rightarrow> res_wrap InspectionRefused
               (plan_inspection cap cat (Some wh) (inspection_ibis_backends available cat (ic_source ic)) scope
                  (ic\<lparr>ic_scenario := sid\<rparr>))))"

record preview =
  pv_rows :: "(string, json) dict list"
  pv_row_capped :: bool
  pv_char_capped :: bool

text \<open>\<open>encoded\<close> is the length of the JSON text of the result with these rows.\<close>

(* tools/read_tools.py:150-164 _cap_inspection_for_agent *)
definition cap_inspection_for_agent :: "((string, json) dict list \<Rightarrow> nat) \<Rightarrow> (string, json) dict list \<Rightarrow> preview" where
  "cap_inspection_for_agent encoded rows =
     (let first = (if length rows > 100 then take 100 rows else rows)
      in if encoded first > 50000 then \<lparr>pv_rows = take 25 first, pv_row_capped = length rows > 100, pv_char_capped = True\<rparr>
         else \<lparr>pv_rows = first, pv_row_capped = length rows > 100, pv_char_capped = False\<rparr>)"

section \<open>Which rows are read\<close>

fun inspect_holds :: "fact_row \<Rightarrow> inspect_condition \<Rightarrow> bool" where
  "inspect_holds row (InScenario s) = (row ''scenario'' = s)"
| "inspect_holds row (PeriodFrom c p) = (p \<le> row c)"
| "inspect_holds row (PeriodTo c p) = (row c \<le> p)"
| "inspect_holds row (MemberOf c vs) = (row c \<in> set vs)"
| "inspect_holds row Committed = (row ''commit_id'' \<noteq> ''__uncommitted__'')"

definition inspect_selects :: "inspect_query \<Rightarrow> fact_row \<Rightarrow> bool" where
  "inspect_selects q row \<longleftrightarrow> list_all (inspect_holds row) (nq_conditions q)"

text \<open>Filters and scope are resolved as for a report.\<close>

lemma inspection_filters:
  assumes "resolve_dimension_filters cat (Some wh) scope key filters = Inr f"
  shows "effective_filters cat wh scope key filters = (Inr f :: ('e engine_error, _) res)"
  using assms
  by (auto simp: resolve_dimension_filters_def effective_filters_def res_wrap_eq_Inr res_bind_eq_Inr res_map_eq_Inr
      split: if_splits option.splits)

text \<open>The stages of a plan.\<close>

lemma plan_inspection_stages:
  assumes "plan_inspection cap cat client backends scope ic = Inr (limit, q)"
  obtains dc columns column fs where "inspect_domain cat (ic_source ic) = Inr dc" and "project_columns dc (ic_columns ic) = Inr columns"
    and "effective_limit cap (ic_limit ic) = Inr limit"
    and "inspect_period_column cat (ic_source ic) (ic_start ic) (ic_end ic) = Inr column"
    and "resolve_dimension_filters cat client scope (ic_source ic) (ic_filters ic) = Inr fs"
    and "nq_view q = source_view dc" and "nq_columns q = columns" and "nq_limit q = limit + 1"
    and "set (nq_conditions q) = set (scenario_and_period (ic_scenario ic) (ic_start ic) (ic_end ic) column)
      \<union> (\<lambda>(col, vs). MemberOf col vs) ` set (or_empty fs)
      \<union> (if dc_backend_kind dc \<noteq> Ibis \<and> versioned dc then {Committed} else {})"
proof -
  obtain dc columns column fs where st: "inspect_domain cat (ic_source ic) = Inr dc" "project_columns dc (ic_columns ic) = Inr columns"
    "effective_limit cap (ic_limit ic) = Inr limit"
    "inspect_period_column cat (ic_source ic) (ic_start ic) (ic_end ic) = Inr column"
    "resolve_dimension_filters cat client scope (ic_source ic) (ic_filters ic) = Inr fs"
    and q: "(if dc_backend_kind dc = Ibis
        then inspect_ibis_query dc columns fs (limit + 1) (ic_scenario ic) (ic_start ic) (ic_end ic) column backends
        else if client = None then Inl ClientRequired
        else clickhouse_sql dc columns fs (limit + 1) (ic_scenario ic) (ic_start ic) (ic_end ic) column) = Inr q"
    using assms by (auto simp: plan_inspection_def res_bind_eq_Inr res_map_eq_Inr)
  show thesis
  proof (cases "dc_backend_kind dc = Ibis")
    case True
    then show thesis using q by (intro that [OF st]) (auto simp: inspect_ibis_query_def split: if_splits)
  next
    case False
    then show thesis using q
      by (intro that [OF st]) (auto simp: clickhouse_sql_def base_conditions_def res_bind_eq_Inr split: if_splits option.splits)
  qed
qed

section \<open>Only permitted rows\<close>

text \<open>No id contains the character that separates modifiers.\<close>

definition plain_ids :: "registry \<Rightarrow> bool" where
  "plain_ids reg \<longleftrightarrow> (\<forall>i. dhas i (ids reg) \<longrightarrow> CHR ''&'' \<notin> set i)"

lemma expand_plain: "CHR ''&'' \<notin> set t \<Longrightarrow> expand_scenario_ref (Some reg) t = ids_or_literal (Some reg) t"
  by (simp add: expand_scenario_ref_def split_ref_def parse_scenario_modifiers_def)

lemma writable_key_plain:
  assumes "plain_aliases reg" and "plain_ids reg" and "resolve_writable reg t = Inr r"
  shows "CHR ''&'' \<notin> set t" and "ids_or_literal (Some reg) t = [scenario_id r]"
proof -
  have key: "resolve_key reg t = Inr (Real r)"
  proof -
    obtain x where "resolve_key reg t = Inr x" "(case x of Real r \<Rightarrow> Inr r | _ \<Rightarrow> Inl (NonWritable t)) = Inr r"
      using assms(3) by (auto simp: resolve_writable_def res_bind_eq_Inr)
    then show ?thesis by (cases x) simp_all
  qed
  then have "lookup_real reg (compat t) = Some r"
    by (cases rule: resolve_key_cases) (auto simp: make_variance_def Let_def split: if_splits)
  then have "CHR ''&'' \<notin> set (compat t)"
    using assms(1,2) by (auto simp: lookup_real_def plain_aliases_def plain_ids_def dhas_iff split: option.splits)
  then show "CHR ''&'' \<notin> set t"
    by (auto simp: compat_def COMPATIBILITY_ALIASES_def dget_or_def split: if_splits)
  show "ids_or_literal (Some reg) t = [scenario_id r]"
    by (simp add: ids_or_literal_def expand_dependencies_def key res_simps)
qed

lemma inspected_scenario:
  assumes reg: "plain_aliases reg" "plain_ids reg" "clean_registry reg" "distinct_names reg"
    and r: "resolve_inspection_scenario (Some reg) (Some t) = Some (Some sid)" and known: "dhas sid (ids reg)"
  shows "t \<noteq> []" and "sid \<in> set (expand_scenario_ref (Some reg) t)"
proof -
  obtain w where w: "ids_or_literal (Some reg) sid = [sid]" "resolve_writable reg sid = Inr w"
    using distinct_namesD [OF reg(3,4) known] by metis
  have "sid \<noteq> []" using w(2) by (auto simp: resolve_writable_def resolve_key.simps [of reg "[]"] res_simps)
  consider (literal) "sid = t" | (resolved) x where "resolve_writable reg t = Inr x" "sid = scenario_id x" "t \<noteq> []"
    using r by (auto simp: resolve_inspection_scenario_def resolve_writable_id_def split: if_splits sum.splits)
  then have "t \<noteq> [] \<and> sid \<in> set (expand_scenario_ref (Some reg) t)"
  proof cases
    case literal
    then have "CHR ''&'' \<notin> set t" using known reg(2) by (simp add: plain_ids_def)
    then show ?thesis using literal \<open>sid \<noteq> []\<close> w(1) by (simp add: expand_plain)
  next
    case (resolved x)
    then show ?thesis using writable_key_plain [OF reg(1,2) resolved(1)] by (simp add: expand_plain)
  qed
  then show "t \<noteq> []" and "sid \<in> set (expand_scenario_ref (Some reg) t)" by blast+
qed

lemma inspect_tool_facts:
  "td_access inspect_rows_tool = ''read''" "scoped inspect_rows_tool" "scenario_params_apart inspect_rows_tool"
  "scenario_params inspect_rows_tool = [''scenario_id'']" "default_scenario inspect_rows_tool = []"
  by code_simp+

text \<open>
  C9: An inspection that names a scenario reads only what the caller may read. Take a registry whose
  names are unambiguous and an inspection call that the gate lets through with a scenario that is not
  null. Every row its query selects that belongs to a scenario of the registry is permitted: the caller's
  profile grants reading on the row's own scenario, and where the grant is restricted, the source's
  domain is allowed and the row lies within every dimension restriction of that scenario.
\<close>

theorem inspection_reads_only_permitted_rows:
  assumes registry: "plain_aliases reg" "plain_ids reg" "clean_registry reg" "distinct_names reg"
    and gate: "process_tool_call parse loads show (Some reg) perms checked inspect_rows_tool tool_args ctx scope0 = (Inr (a, None), scope)"
    and named: "jget a ''scenario_id'' \<noteq> JNull"
    and plan: "tool_inspection cap cat wh available (Some reg) show out scope a = Inr (limit, q)"
    and row: "inspect_selects q row" "dhas (row ''scenario'') (ids reg)"
  shows "\<exists>key. jget a ''source_key'' = JStr key \<and> row_permitted perms ''read'' cat wh key row"
proof -
  obtain ic where ic: "inspect_call_of show a = Some ic"
    and rest: "(case resolve_inspection_scenario (Some reg) (ic_scenario ic) of
             None \<Rightarrow> Inl InspectionFailed
           | Some sid \<Rightarrow> res_wrap InspectionRefused
               (plan_inspection cap cat (Some wh) (inspection_ibis_backends available cat (ic_source ic)) scope
                  (ic\<lparr>ic_scenario := sid\<rparr>))) = Inr (limit, q)"
    using plan by (auto simp: tool_inspection_def split: if_splits option.splits)
  obtain key t where call: "jget a ''source_key'' = JStr key" "ic_source ic = key"
      "jget a ''scenario_id'' = JStr t" "ic_scenario ic = Some t"
    using ic named by (cases "jget a ''scenario_id''") (auto simp: inspect_call_of_def split: json.splits option.splits)
  obtain sid where sid: "resolve_inspection_scenario (Some reg) (Some t) = Some (Some sid)"
    and p: "plan_inspection cap cat (Some wh) (inspection_ibis_backends available cat key) scope (ic\<lparr>ic_scenario := Some sid\<rparr>) = Inr (limit, q)"
  proof (cases "resolve_inspection_scenario (Some reg) (Some t)")
    case None
    then show thesis using rest call(4) by simp
  next
    case (Some x)
    moreover from this obtain sid where "x = Some sid" by (auto simp: resolve_inspection_scenario_def split: option.splits)
    ultimately show thesis using rest call(2,4) that by (simp add: res_wrap_eq_Inr)
  qed
  from p obtain fs column where st: "resolve_dimension_filters cat (Some wh) scope key (ic_filters ic) = Inr fs"
    and conds: "set (scenario_and_period (Some sid) (ic_start ic) (ic_end ic) column) \<subseteq> set (nq_conditions q)"
      "(\<lambda>(col, vs). MemberOf col vs) ` set (or_empty fs) \<subseteq> set (nq_conditions q)"
    by (rule plan_inspection_stages) (auto simp: call(2))
  have each: "inspect_holds row c" if "c \<in> set (nq_conditions q)" for c
    using row(1) that by (simp add: inspect_selects_def list_all_iff)
  have "InScenario sid \<in> set (nq_conditions q)" using conds(1) by (auto simp: scenario_and_period_def)
  then have sc: "row ''scenario'' = sid" using each by fastforce
  have members: "\<forall>(col, vs)\<in>set (or_empty fs). row col \<in> set vs"
  proof (clarify)
    fix col vs
    assume "(col, vs) \<in> set (or_empty fs)"
    then have "MemberOf col vs \<in> set (nq_conditions q)" using conds(2) by (auto simp: image_subset_iff)
    then show "row col \<in> set vs" using each by fastforce
  qed
  have origin: "t \<noteq> []" "sid \<in> set (expand_scenario_ref (Some reg) t)"
    using inspected_scenario [OF registry sid] row(2) sc by simp_all
  have "authorised perms ''read'' scope sid"
  proof (rule call_stages [OF gate inspect_tool_facts(3)])
    fix a0
    assume passed: "permission_gate (Some reg) show perms inspect_rows_tool (inject_default_scenario show inspect_rows_tool a0) None = (None, scope)"
      and same: "extract_scenario_ids show a (scenario_params inspect_rows_tool)
        = extract_scenario_ids show (inject_default_scenario show inspect_rows_tool a0) (scenario_params inspect_rows_tool)"
    have "t \<in> set (extract_scenario_ids show a (scenario_params inspect_rows_tool))"
      using origin(1) call(3) by (simp add: extract_scenario_ids_set inspect_tool_facts(4) value_refs_def)
    then show "authorised perms ''read'' scope sid"
      using gate_passed [OF passed inspect_tool_facts(2) _ origin(2)] same inspect_tool_facts(1) unfolding authorised_def by simp
  qed simp_all
  then have "row_permitted perms ''read'' cat wh key row"
    using inspection_filters [OF st] members sc by (intro authorised_row_permitted) auto
  then show ?thesis using call(1) by blast
qed

text \<open>
  A null scenario is no scenario: the gate extracts no reference, lets the call through for every caller
  without publishing a scope, and the query has no condition on the scenario. So a caller without any
  grant reads the rows of every scenario.
\<close>

lemma null_scenario_passes_gate:
  assumes "jget a ''scenario_id'' = JNull"
  shows "permission_gate reg show perms inspect_rows_tool a scope = (None, scope)"
  using assms by (simp add: permission_gate_def inspect_tool_facts extract_scenario_ids_def refs_of_param_def)

definition inspected_domain :: domain_catalogue where
  "inspected_domain = ledger_domain\<lparr>inspect_columns := [''scenario'', ''period'', ''cc'']\<rparr>"

definition inspected_catalogue :: catalogue where
  "inspected_catalogue = fact_catalogue\<lparr>domains := [(''pnl'', inspected_domain)]\<rparr>"

definition stranger :: user_permissions where
  "stranger = \<lparr>perm_user = ''u2'', perm_admin = False, perm_scenarios = []\<rparr>"

definition null_call :: args where
  "null_call = [(''source_key'', JStr ''pnl''), (''scenario_id'', JNull)]"

lemma null_scenario_reads_everything:
  "process_tool_call example_parse no_json blank (Some example_registry) stranger None inspect_rows_tool null_call [] None
     = (Inr (null_call, None), None)"
  "tool_inspection 10000 inspected_catalogue example_warehouse (\<lambda>_. True) (Some example_registry) blank ''agent'' None null_call
     = Inr (200, \<lparr>nq_view = ''semantic.v_pnl'', nq_columns = [''scenario'', ''period'', ''cc''], nq_conditions = [Committed], nq_limit = 201\<rparr>)"
  by code_simp+

text \<open>The maximum bounds an explicit limit only: with a maximum below 200 the default exceeds it.\<close>

lemma default_limit_ignores_maximum: "effective_limit 50 None = Inr 200" "effective_limit 50 (Some 200) = Inr 50"
  by code_simp+

definition ledger_call :: args where
  "ledger_call = [(''source_key'', JStr ''pnl''), (''scenario_id'', JStr ''actuals'')]"

lemma ledger_call_runs:
  "process_tool_call example_parse no_json blank (Some example_registry) open_reader None inspect_rows_tool ledger_call [] None
     = (Inr (ledger_call, None), None)"
  "tool_inspection 10000 inspected_catalogue example_warehouse (\<lambda>_. True) (Some example_registry) blank ''agent'' None ledger_call
     = Inr (200, \<lparr>nq_view = ''semantic.v_pnl'', nq_columns = [''scenario'', ''period'', ''cc''],
              nq_conditions = [InScenario ''ACT'', Committed], nq_limit = 201\<rparr>)"
  by code_simp+

theorem inspection_reads_only_permitted_rows_witness:
  "row_permitted open_reader ''read'' inspected_catalogue example_warehouse ''pnl'' (ledger_row ''C1'' ''c7'')"
proof -
  have ids: "plain_ids example_registry" by (simp add: plain_ids_def example_registry_def dhas_iff)
  have row: "inspect_selects \<lparr>nq_view = ''semantic.v_pnl'', nq_columns = [''scenario'', ''period'', ''cc''],
        nq_conditions = [InScenario ''ACT'', Committed], nq_limit = 201\<rparr> (ledger_row ''C1'' ''c7'')"
    by (simp add: inspect_selects_def ledger_row_def)
  have known: "dhas (ledger_row ''C1'' ''c7'' ''scenario'') (ids example_registry)" by code_simp
  have "jget ledger_call ''scenario_id'' \<noteq> JNull" "jget ledger_call ''source_key'' = JStr ''pnl''" by code_simp+
  then show ?thesis
    using inspection_reads_only_permitted_rows [OF example_registry_plain ids example_registry_clean example_distinct_names
        ledger_call_runs(1) _ ledger_call_runs(2) row known] by simp
qed

section \<open>The filters on offer\<close>

lemma parents_step: "parent_edges ds `` {key} = set (dkeys (parents_of ds key))"
  by (auto simp: parent_edges_def)

lemma ancestors_step:
  "(parent_edges ds)\<^sup>+ `` {key} = (\<Union>p\<in>set (dkeys (parents_of ds key)). (parent_edges ds)\<^sup>* `` {p})"
  unfolding parents_step [symmetric] by (auto simp: trancl_unfold_left) 

text \<open>One walk adds the ancestors, each with the column of the leaf it started from.\<close>

definition grown :: "string set \<Rightarrow> string \<Rightarrow> filter_dimension list \<Rightarrow> filter_dimension list \<Rightarrow> bool" where
  "grown keys column acc r \<longleftrightarrow> (\<forall>k. k \<noteq> [] \<longrightarrow> (k \<in> fd_key ` set r \<longleftrightarrow> k \<in> fd_key ` set acc \<or> k \<in> keys))
     \<and> (\<forall>f\<in>set r. f \<in> set acc \<or> fd_key f \<in> keys \<and> fd_column f = column)"

lemma grown_refl: "grown {} column acc acc"
  by (simp add: grown_def)

lemma grown_trans:
  assumes "grown ks column a b" and "grown ks' column b c"
  shows "grown (ks \<union> ks') column a c"
  unfolding grown_def
proof (intro conjI allI impI ballI)
  show "k \<in> fd_key ` set c \<longleftrightarrow> k \<in> fd_key ` set a \<or> k \<in> ks \<union> ks'" if "k \<noteq> []" for k
    using that assms unfolding grown_def Un_iff by metis
  show "f \<in> set a \<or> fd_key f \<in> ks \<union> ks' \<and> fd_column f = column" if "f \<in> set c" for f
    using that assms unfolding grown_def Un_iff by metis
qed

lemma grown_add: "grown {key} column acc (add_filter_dimension key label column acc)"
proof (cases "key = [] \<or> key \<in> fd_key ` set acc")
  case True
  then have "add_filter_dimension key label column acc = acc" by (simp add: add_filter_dimension_def)
  then show ?thesis using True by (auto simp: grown_def)
next
  case False
  then have "add_filter_dimension key label column acc = acc @ [\<lparr>fd_key = key, fd_label = label, fd_column = column\<rparr>]"
    by (simp add: add_filter_dimension_def)
  then show ?thesis by (auto simp: grown_def)
qed

lemma walk_parents_rec_exact:
  "walk_parents_rec n ds key column acc = Some r \<Longrightarrow> grown ((parent_edges ds)\<^sup>+ `` {key}) column acc r"
proof (induction n arbitrary: key acc r)
  case (Suc n)
  let ?label = "\<lambda>p. case dget ds p of Some q \<Rightarrow> dim_label q | None \<Rightarrow> p"
  let ?step = "\<lambda>r p. Option.bind r (\<lambda>a. walk_parents_rec n ds p column (add_filter_dimension p (?label p) column a))"
  have none: "foldl ?step None ps = None" for ps by (induction ps) simp_all
  have loop: "foldl ?step (Some a) ps = Some r \<Longrightarrow> grown (\<Union>p\<in>set ps. (parent_edges ds)\<^sup>* `` {p}) column a r" for ps a
  proof (induction ps arbitrary: a)
    case Nil
    then show ?case by (simp add: grown_refl)
  next
    case (Cons p ps)
    obtain b where b: "walk_parents_rec n ds p column (add_filter_dimension p (?label p) column a) = Some b"
      "foldl ?step (Some b) ps = Some r"
      using Cons.prems none [of ps]
      by (cases "walk_parents_rec n ds p column (add_filter_dimension p (?label p) column a)") simp_all
    have "grown ({p} \<union> (parent_edges ds)\<^sup>+ `` {p}) column a b"
      by (rule grown_trans [OF grown_add Suc.IH [OF b(1)]])
    moreover have "{p} \<union> (parent_edges ds)\<^sup>+ `` {p} = (parent_edges ds)\<^sup>* `` {p}" by (auto dest: rtranclD)
    ultimately show ?case using grown_trans [OF _ Cons.IH [OF b(2)]] by simp
  qed
  show ?case
  proof (cases "dget ds key")
    case None
    then have "(parent_edges ds)\<^sup>+ `` {key} = {}" unfolding ancestors_step by (simp add: parents_of_def)
    then show ?thesis using Suc.prems None by (simp add: grown_refl)
  next
    case (Some d)
    then have "grown (\<Union>p\<in>set (dkeys (parents d)). (parent_edges ds)\<^sup>* `` {p}) column acc r"
      using Suc.prems by (intro loop) simp
    then show ?thesis unfolding ancestors_step using Some by (simp add: parents_of_def)
  qed
qed simp

text \<open>The walk ends when the parents have no cycle, which \<open>validate_catalogue\<close> checks.\<close>

lemma ancestors_shrink:
  assumes "acyclic E" and "finite E" and "(k, p) \<in> E"
  shows "card (E\<^sup>+ `` {p}) < card (E\<^sup>+ `` {k})"
proof (rule psubset_card_mono)
  show "finite (E\<^sup>+ `` {k})" using assms(2) by (simp add: finite_trancl finite_Image)
  have "E\<^sup>+ `` {p} \<subseteq> E\<^sup>+ `` {k}" using assms(3) by (auto intro: trancl_into_trancl2)
  moreover have "p \<in> E\<^sup>+ `` {k}" "p \<notin> E\<^sup>+ `` {p}" using assms(1,3) by (auto simp: acyclic_def)
  ultimately show "E\<^sup>+ `` {p} \<subset> E\<^sup>+ `` {k}" by blast
qed

lemma walk_parents_rec_ends:
  assumes "acyclic (parent_edges ds)" and "finite (parent_edges ds)"
  shows "card ((parent_edges ds)\<^sup>+ `` {key}) < n \<Longrightarrow> \<exists>r. walk_parents_rec n ds key column acc = Some r"
proof (induction n arbitrary: key acc)
  case (Suc n)
  let ?label = "\<lambda>p. case dget ds p of Some q \<Rightarrow> dim_label q | None \<Rightarrow> p"
  let ?step = "\<lambda>r p. Option.bind r (\<lambda>a. walk_parents_rec n ds p column (add_filter_dimension p (?label p) column a))"
  have loop: "set ps \<subseteq> set (dkeys (parents_of ds key)) \<Longrightarrow> \<exists>r. foldl ?step (Some a) ps = Some r" for ps a
  proof (induction ps arbitrary: a)
    case (Cons p ps)
    have "(key, p) \<in> parent_edges ds" using Cons.prems by (simp add: parent_edges_def)
    from ancestors_shrink [OF assms this] have "card ((parent_edges ds)\<^sup>+ `` {p}) < n" using Suc.prems by simp
    then obtain b where "walk_parents_rec n ds p column (add_filter_dimension p (?label p) column a) = Some b"
      using Suc.IH by blast
    moreover obtain r where "foldl ?step (Some b) ps = Some r" using Cons by auto
    ultimately show ?case by simp
  qed simp
  show ?case
  proof (cases "dget ds key")
    case (Some d)
    then show ?thesis using loop [of "dkeys (parents d)" acc] by (simp add: parents_of_def)
  qed simp
qed simp

text \<open>A dimension of the domain a filter may be bound to.\<close>

definition bindable :: "cube_dimension \<Rightarrow> bool" where
  "bindable cd \<longleftrightarrow> filterable cd \<and> \<not> source_inline cd"

definition bound_filters :: "dims \<Rightarrow> cube_dimension list \<Rightarrow> filter_dimension list \<Rightarrow> filter_dimension list \<Rightarrow> bool" where
  "bound_filters ds cds acc r \<longleftrightarrow>
     (\<forall>k. k \<noteq> [] \<longrightarrow> (k \<in> fd_key ` set r \<longleftrightarrow> k \<in> fd_key ` set acc
        \<or> (\<exists>cd\<in>set cds. bindable cd \<and> (cd_key cd, k) \<in> (parent_edges ds)\<^sup>*)))
     \<and> (\<forall>f\<in>set r. f \<in> set acc \<or> (\<exists>cd\<in>set cds. bindable cd \<and> fd_column f = cd_source cd
          \<and> (cd_key cd, fd_key f) \<in> (parent_edges ds)\<^sup>*))"

lemma add_bound_dimension_exact:
  assumes "add_bound_dimension n ds cd acc = Some r" and "bindable cd"
  shows "grown ((parent_edges ds)\<^sup>* `` {cd_key cd}) (cd_source cd) acc r"
proof -
  have "{cd_key cd} \<union> (parent_edges ds)\<^sup>+ `` {cd_key cd} = (parent_edges ds)\<^sup>* `` {cd_key cd}" by (auto dest: rtranclD)
  moreover obtain label where "walk_parents_rec n ds (cd_key cd) (cd_source cd)
      (add_filter_dimension (cd_key cd) label (cd_source cd) acc) = Some r"
    using assms by (auto simp: add_bound_dimension_def bindable_def)
  ultimately show ?thesis using grown_trans [OF grown_add walk_parents_rec_exact] by metis
qed

lemma bound_loop:
  "foldl (\<lambda>r cd. Option.bind r (add_bound_dimension n ds cd)) (Some acc) cds = Some r \<Longrightarrow> bound_filters ds cds acc r"
proof (induction cds arbitrary: acc)
  case Nil
  then show ?case by (simp add: bound_filters_def)
next
  case (Cons cd cds)
  have none: "foldl (\<lambda>r cd. Option.bind r (add_bound_dimension n ds cd)) None cds = None" by (induction cds) simp_all
  obtain b where b: "add_bound_dimension n ds cd acc = Some b"
    "foldl (\<lambda>r cd. Option.bind r (add_bound_dimension n ds cd)) (Some b) cds = Some r"
    using Cons.prems none by (cases "add_bound_dimension n ds cd acc") simp_all
  note rest = Cons.IH [OF b(2)]
  show ?case
  proof (cases "bindable cd")
    case False
    then have "b = acc" using b(1) by (auto simp: add_bound_dimension_def bindable_def)
    then show ?thesis using rest False by (simp add: bound_filters_def)
  next
    case True
    note g = add_bound_dimension_exact [OF b(1) True]
    show ?thesis
      unfolding bound_filters_def
    proof (intro conjI allI impI ballI)
      show "k \<in> fd_key ` set r \<longleftrightarrow> k \<in> fd_key ` set acc
          \<or> (\<exists>cd\<in>set (cd # cds). bindable cd \<and> (cd_key cd, k) \<in> (parent_edges ds)\<^sup>*)" if "k \<noteq> []" for k
      proof -
        have "k \<in> fd_key ` set b \<longleftrightarrow> k \<in> fd_key ` set acc \<or> (cd_key cd, k) \<in> (parent_edges ds)\<^sup>*"
          using g that by (simp add: grown_def)
        then show ?thesis using rest that True by (auto simp: bound_filters_def)
      qed
      show "f \<in> set acc \<or> (\<exists>cd\<in>set (cd # cds). bindable cd \<and> fd_column f = cd_source cd
          \<and> (cd_key cd, fd_key f) \<in> (parent_edges ds)\<^sup>*)" if "f \<in> set r" for f
      proof -
        have "f \<in> set b \<or> (\<exists>cd\<in>set cds. bindable cd \<and> fd_column f = cd_source cd \<and> (cd_key cd, fd_key f) \<in> (parent_edges ds)\<^sup>*)"
          using rest that by (simp add: bound_filters_def)
        moreover have "f \<in> set acc \<or> (cd_key cd, fd_key f) \<in> (parent_edges ds)\<^sup>* \<and> fd_column f = cd_source cd" if "f \<in> set b"
          using g that by (simp add: grown_def)
        ultimately show ?thesis using True by auto
      qed
    qed
  qed
qed

lemma bound_leaf_columns_get:
  "dget (bound_leaf_columns dc) k = Some c \<Longrightarrow> \<exists>cd\<in>set (dc_dimensions dc). bindable cd \<and> cd_key cd = k \<and> cd_source cd = c"
  "dhas k (bound_leaf_columns dc) \<longleftrightarrow> (\<exists>cd\<in>set (dc_dimensions dc). bindable cd \<and> cd_key cd = k)"
proof -
  let ?f = "\<lambda>cd m. if \<not> filterable cd \<or> source_inline cd \<or> dhas (cd_key cd) m then m else dset (cd_key cd) (cd_source cd) m"
  have get: "(dget (fold ?f cds m) k = Some c \<longrightarrow> dget m k = Some c \<or> (\<exists>cd\<in>set cds. bindable cd \<and> cd_key cd = k \<and> cd_source cd = c))" for cds m
  proof (induction cds arbitrary: m)
    case (Cons cd cds)
    from Cons.IH [of "?f cd m"] show ?case by (auto simp: bindable_def dget_dset split: if_splits)
  qed simp
  then show "dget (bound_leaf_columns dc) k = Some c \<Longrightarrow> \<exists>cd\<in>set (dc_dimensions dc). bindable cd \<and> cd_key cd = k \<and> cd_source cd = c"
    unfolding bound_leaf_columns_def by fastforce
  have "dhas k (fold ?f cds m) \<longleftrightarrow> dhas k m \<or> (\<exists>cd\<in>set cds. bindable cd \<and> cd_key cd = k)" for cds m
  proof (induction cds arbitrary: m)
    case (Cons cd cds)
    from Cons.IH [of "?f cd m"] show ?case by (auto simp: bindable_def dhas_iff dget_dset split: if_splits)
  qed simp
  from this [of "dc_dimensions dc" "[]"] show "dhas k (bound_leaf_columns dc) \<longleftrightarrow> (\<exists>cd\<in>set (dc_dimensions dc). bindable cd \<and> cd_key cd = k)"
    by (simp add: bound_leaf_columns_def dhas_iff)
qed

lemma ragged_loop:
  assumes "k \<noteq> []"
  shows "k \<in> fd_key ` set (fold (add_ragged_dimension bound) kds acc) \<longleftrightarrow> k \<in> fd_key ` set acc
    \<or> (\<exists>d. (k, d) \<in> set kds \<and> is_ragged d \<and> dhas (dim_leaf_dimension d) bound)"
proof (induction kds arbitrary: acc)
  case (Cons kd kds)
  obtain k' d where kd: "kd = (k', d)" by (cases kd)
  have "k \<in> fd_key ` set (add_ragged_dimension bound kd acc) \<longleftrightarrow> k \<in> fd_key ` set acc
      \<or> (k = k' \<and> is_ragged d \<and> dhas (dim_leaf_dimension d) bound)"
  proof (cases "is_ragged d \<and> dhas (dim_leaf_dimension d) bound")
    case True
    then obtain c where c: "dget bound (dim_leaf_dimension d) = Some c" by (auto simp: dhas_iff)
    have "add_ragged_dimension bound kd acc = add_filter_dimension k' (dim_label d) c acc"
      using True c by (simp add: add_ragged_dimension_def kd)
    then show ?thesis using True assms by (auto simp: add_filter_dimension_def)
  next
    case False
    then have "add_ragged_dimension bound kd acc = acc" by (auto simp: add_ragged_dimension_def kd dhas_iff split: option.splits)
    then show ?thesis using False by auto
  qed
  then show ?case using Cons.IH [of "add_ragged_dimension bound kd acc"] kd by auto
qed simp

lemma ragged_loop_new:
  "f \<in> set (fold (add_ragged_dimension bound) kds acc) \<Longrightarrow> f \<in> set acc \<or> (\<exists>d. (fd_key f, d) \<in> set kds \<and> is_ragged d)"
proof (induction kds arbitrary: acc)
  case (Cons kd kds)
  from Cons.IH [of "add_ragged_dimension bound kd acc"] Cons.prems
  have "f \<in> set (add_ragged_dimension bound kd acc) \<or> (\<exists>d. (fd_key f, d) \<in> set kds \<and> is_ragged d)" by simp
  moreover have "f \<in> set acc \<or> fd_key f = fst kd \<and> is_ragged (snd kd)" if "f \<in> set (add_ragged_dimension bound kd acc)"
    using that by (auto simp: add_ragged_dimension_def add_filter_dimension_def split: if_splits option.splits)
  ultimately show ?case by (cases kd) auto
qed simp

lemma finite_parent_edges: "finite (parent_edges ds)"
proof (rule finite_subset)
  show "parent_edges ds \<subseteq> (SIGMA u:set (dkeys ds). set (dkeys (parents_of ds u)))"
  proof (rule subrelI)
    fix u a
    assume e: "(u, a) \<in> parent_edges ds"
    then obtain d where "dget ds u = Some d" by (cases "dget ds u") (auto simp: parent_edges_def parents_of_def)
    then have "u \<in> set (dkeys ds)" by (auto dest: map_of_SomeD intro: rev_image_eqI)
    then show "(u, a) \<in> (SIGMA u:set (dkeys ds). set (dkeys (parents_of ds u)))" using e by (simp add: parent_edges_def)
  qed
qed simp

lemma bound_loop_ends:
  assumes "acyclic (parent_edges ds)" and "card (Range (parent_edges ds)) < n"
  shows "\<exists>r. foldl (\<lambda>r cd. Option.bind r (add_bound_dimension n ds cd)) (Some acc) cds = Some r"
proof (induction cds arbitrary: acc)
  case (Cons cd cds)
  have "finite (Range (parent_edges ds))" using finite_parent_edges by (rule finite_Range)
  then have "card ((parent_edges ds)\<^sup>+ `` {k}) < n" for k
    using assms(2) card_mono [of "Range (parent_edges ds)" "(parent_edges ds)\<^sup>+ `` {k}"]
    by (metis Image_subset Range.intros RangeE le_less_trans subsetI trancl_range Image_singleton_iff)
  then obtain b where "add_bound_dimension n ds cd acc = Some b"
    using walk_parents_rec_ends [OF assms(1) finite_parent_edges] unfolding add_bound_dimension_def by metis
  then show ?case using Cons.IH [of b] by simp
qed simp


definition offer_catalogue :: catalogue where
  "offer_catalogue = filter_catalogue\<lparr>dimensions :=
     [(''cost_centre'', example_dim ''cost_centre'' None [(''department'', \<lparr>pr_source_column = ''dept''\<rparr>)]),
      (''department'', department_dim)], domains := [(''pnl'', ledger_domain)]\<rparr>"


text \<open>
  C21: An inspection returns a bounded extract of enabled columns. With a positive maximum, a result
  comes from a source that is enabled for inspection, projects columns enabled for it, holds the first
  rows of the query up to the limit, marks exactly the results that had more rows as truncated, and
  never asks the database for more than one row beyond the limit; the preview for an agent is a prefix of
  at most 100 rows of it.
\<close>

theorem inspection_is_bounded:
  assumes e: "engine_inspect_rows run cap cat client backends scope ic = Inr r" and cap: "0 < cap"
  shows "(\<exists>dc. dget (domains cat) (ic_source ic) = Some dc \<and> inspect_enabled dc \<and> ir_columns r \<noteq> []
      \<and> set (ir_columns r) \<subseteq> set (inspect_columns dc) \<and> nq_view (ir_query r) = source_view dc)
    \<and> nq_limit (ir_query r) = ir_limit r + 1 \<and> 0 < ir_limit r \<and> ir_limit r \<le> max 200 cap
    \<and> ir_rows r = take (nat (ir_limit r)) (run (ir_query r))
    \<and> (ir_truncated r \<longleftrightarrow> ir_limit r < int (length (run (ir_query r))))
    \<and> (\<exists>n\<le>100. pv_rows (cap_inspection_for_agent encoded (ir_rows r)) = take n (ir_rows r))"
proof -
  obtain limit q where p: "plan_inspection cap cat client backends scope ic = Inr (limit, q)"
    and r: "r = \<lparr>ir_columns = nq_columns q, ir_rows = (if int (length (run q)) > limit then py_take limit (run q) else run q),
        ir_limit = limit, ir_truncated = (int (length (run q)) > limit), ir_query = q\<rparr>"
    using e by (auto simp: engine_inspect_rows_def res_map_eq_Inr Let_def)
  from p obtain dc where dc: "inspect_domain cat (ic_source ic) = Inr dc" "project_columns dc (ic_columns ic) = Inr (nq_columns q)"
    and lim: "effective_limit cap (ic_limit ic) = Inr limit" and q: "nq_view q = source_view dc" "nq_limit q = limit + 1"
    by (rule plan_inspection_stages) auto
  have enabled: "dget (domains cat) (ic_source ic) = Some dc" "inspect_enabled dc" "inspect_columns dc \<noteq> []"
    using dc(1) by (auto simp: inspect_domain_def split: option.splits if_splits)
  have cols: "nq_columns q \<noteq> []" "set (nq_columns q) \<subseteq> set (inspect_columns dc)"
    using dc(2) enabled(3) by (auto simp: project_columns_def Let_def filter_empty_conv split: option.splits if_splits)
  have limits: "0 < limit" "limit \<le> max 200 cap"
    using lim cap by (auto simp: effective_limit_def DEFAULT_INSPECT_LIMIT_def split: option.splits if_splits)
  have rows: "ir_rows r = take (nat limit) (run q)" using limits(1) by (simp add: r py_take_def)
  have "\<exists>n\<le>100. pv_rows (cap_inspection_for_agent encoded xs) = take n xs" for xs
  proof -
    consider "length xs \<le> 100 \<and> encoded xs \<le> 50000" | "length xs \<le> 100 \<and> encoded xs > 50000"
      | "length xs > 100 \<and> encoded (take 100 xs) \<le> 50000" | "length xs > 100 \<and> encoded (take 100 xs) > 50000"
      by linarith
    then show ?thesis
    proof cases
      case 1
      then show ?thesis by (intro exI [of _ 100]) (simp add: cap_inspection_for_agent_def)
    next
      case 3
      then show ?thesis by (intro exI [of _ 100]) (simp add: cap_inspection_for_agent_def)
    qed (auto intro!: exI [of _ 25] simp: cap_inspection_for_agent_def Let_def min_def)
  qed
  note preview = this [of "ir_rows r"]
  have "ir_columns r = nq_columns q" "ir_query r = q" "ir_limit r = limit" "ir_truncated r \<longleftrightarrow> limit < int (length (run q))"
    by (simp_all add: r)
  then show ?thesis using enabled(1,2) cols limits rows q preview by simp
qed

theorem inspection_is_bounded_witness:
  "\<exists>r. engine_inspect_rows (\<lambda>_. [[(''cc'', JStr ''C1'')], [(''cc'', JStr ''C2'')]]) 10000 inspected_catalogue (Some example_warehouse) None None
      \<lparr>ic_source = ''pnl'', ic_filters = None, ic_columns = Some [''cc''], ic_limit = Some 1, ic_scenario = Some ''ACT'', ic_start = None, ic_end = None\<rparr>
      = Inr r \<and> ir_rows r = [[(''cc'', JStr ''C1'')]] \<and> ir_truncated r"
proof -
  let ?run = "\<lambda>_ :: inspect_query. [[(''cc'', JStr ''C1'')], [(''cc'', JStr ''C2'')]]"
  let ?ic = "\<lparr>ic_source = ''pnl'', ic_filters = None, ic_columns = Some [''cc''], ic_limit = Some 1, ic_scenario = Some ''ACT'', ic_start = None, ic_end = None\<rparr>"
  have "plan_inspection 10000 inspected_catalogue (Some example_warehouse) None None ?ic
      = Inr (1, \<lparr>nq_view = ''semantic.v_pnl'', nq_columns = [''cc''], nq_conditions = [InScenario ''ACT'', Committed], nq_limit = 2\<rparr>)"
    by code_simp
  then obtain r where r: "engine_inspect_rows ?run 10000 inspected_catalogue (Some example_warehouse) None None ?ic = Inr r" "ir_limit r = 1"
    by (simp add: engine_inspect_rows_def res_simps)
  show ?thesis using inspection_is_bounded [OF r(1)] r by auto
qed

end
