(* ===== verification/Formatter.thy ===== *)
theory Formatter
  imports Engine
begin

text \<open>
  The last stage of a report (\<open>engine/formatter.py\<close> and the lookups of \<open>engine/__init__.py\<close> that feed it):
  the transformed data become a flat list of rows, one per dimension key and visible item, with the grain,
  the display names and codes of the key, and one value per block, scaled for presentation. The rows
  are shown to be exactly those a direct reading of the data gives.
\<close>

section \<open>Display of dimensions\<close>

text \<open>\<open>x or y\<close> on a text that may be missing.\<close>

definition or_text :: "string option \<Rightarrow> string \<Rightarrow> string" where
  "or_text x y = (case x of None \<Rightarrow> y | Some t \<Rightarrow> if t = [] then y else t)"

(* engine/formatter.py:32-46 DimensionFormat *)
record dimension_format =
  display_attr :: string
  sort_attr :: string
  lookup_table :: "(string, (string, string option) dict) dict"

definition attribute_of :: "dimension_format \<Rightarrow> string \<Rightarrow> string \<Rightarrow> string" where
  "attribute_of f attr code =
     (if attr = [] then code
      else or_text (case dget (dget_or [] (lookup_table f) code) attr of Some v \<Rightarrow> v | None \<Rightarrow> None) code)"

(* engine/formatter.py:48-53 display_value *)
definition display_value :: "dimension_format \<Rightarrow> string \<Rightarrow> string" where
  "display_value f code = attribute_of f (display_attr f) code"

(* engine/formatter.py:55-60 sort_value *)
definition sort_value :: "dimension_format \<Rightarrow> string \<Rightarrow> string" where
  "sort_value f code = attribute_of f (sort_attr f) code"

text \<open>
  Reading a source table: the rows for some columns, or nothing when the query raises. A value that is
  no text is its \<open>str\<close>.
\<close>

type_synonym table_reader = "string \<Rightarrow> string list \<Rightarrow> (string, string option) dict list option"

(* engine/__init__.py:181-216 _fetch_dimension_lookup *)
definition fetch_dimension_lookup ::
  "table_reader \<Rightarrow> dimension_source \<Rightarrow> string list \<Rightarrow> (string, (string, string option) dict) dict option" where
  "fetch_dimension_lookup read src attrs_needed =
     (let key_col = ds_key_column src;
          col_of = (\<lambda>attr. dget_or [] (attribute_mapping src) attr);
          needed = sorted_set attrs_needed;
          select_cols = fold (\<lambda>attr cols. if col_of attr \<noteq> [] \<and> col_of attr \<notin> set cols then cols @ [col_of attr] else cols) needed [key_col]
      in map_option
           (\<lambda>rows. fold (\<lambda>row d. dset (or_text (case dget row key_col of Some v \<Rightarrow> v | None \<Rightarrow> None) ''None'')
                 (map (\<lambda>attr. (attr, case dget row (col_of attr) of Some v \<Rightarrow> v | None \<Rightarrow> None)) needed) d) rows [])
           (read (ds_table src) select_cols))"

(* engine/__init__.py:233-270 _build_dim_formats *)
definition dimension_format_of :: "table_reader \<Rightarrow> catalogue \<Rightarrow> string \<Rightarrow> dimension_format option" where
  "dimension_format_of read cat dim_name =
     (case resolve_master_dimension cat dim_name of
        None \<Rightarrow> None
      | Some d \<Rightarrow>
          let attrs_needed = filter (\<lambda>a. a \<noteq> [] \<and> dhas a (attributes d)) [display_attribute d, sort_attribute d]
          in case dim_source d of
               None \<Rightarrow> None
             | Some src \<Rightarrow>
                 if attrs_needed = [] then None
                 else map_option (\<lambda>l. \<lparr>display_attr = display_attribute d, sort_attr = sort_attribute d, lookup_table = l\<rparr>)
                   (fetch_dimension_lookup read src attrs_needed))"

(* engine/__init__.py:219-272 _build_dim_formats *)
definition build_dim_formats :: "table_reader \<Rightarrow> catalogue \<Rightarrow> string list \<Rightarrow> (string, dimension_format) dict" where
  "build_dim_formats read cat ds =
     fold (\<lambda>d acc. case dimension_format_of read cat d of None \<Rightarrow> acc | Some f \<Rightarrow> dset d f acc) ds []"

(* engine/__init__.py:350-370 _ragged_dim_format *)
definition ragged_dim_format :: "(string \<Rightarrow> (string \<times> string) list option) \<Rightarrow> ragged_breakdown \<Rightarrow> (string, dimension_format) dict" where
  "ragged_dim_format labels rb =
     (case labels (''semantic.dim_'' @ rg_leaf rb @ ''_'' @ rg_dimension rb) of
        None \<Rightarrow> []
      | Some rows \<Rightarrow> [(rg_dimension rb, \<lparr>display_attr = ''display_name'', sort_attr = [],
            lookup_table = fold (\<lambda>(node, name). dset node [(''display_name'', Some name)]) rows []\<rparr>)])"

section \<open>Numbers\<close>

fun metric_format_of :: "metric \<Rightarrow> metric_format" where
  "metric_format_of (BaseMetric m) = bm_format m"
| "metric_format_of (DerivedMetric m) = dm_format m"

fun scale_exempt :: "metric \<Rightarrow> bool" where
  "scale_exempt (BaseMetric m) = bm_scale_exempt m"
| "scale_exempt (DerivedMetric m) = dm_scale_exempt m"

fun hide_if_zero :: "metric \<Rightarrow> bool" where
  "hide_if_zero (BaseMetric m) = bm_hide_if_zero m"
| "hide_if_zero (DerivedMetric m) = dm_hide_if_zero m"

(* engine/formatter.py:90-95 _DEFAULT_DECIMALS_BY_SCALE *)
definition DEFAULT_DECIMALS_BY_SCALE :: "(int, int) dict" where
  "DEFAULT_DECIMALS_BY_SCALE = [(0, 0), (3, 0), (6, 1), (9, 2)]"

(* engine/formatter.py:98-101 _EXEMPT_DECIMALS *)
fun EXEMPT_DECIMALS :: "metric_format \<Rightarrow> int option" where
  "EXEMPT_DECIMALS FmtPercent = Some 1"
| "EXEMPT_DECIMALS FmtNumber = Some 0"
| "EXEMPT_DECIMALS _ = None"

(* engine/formatter.py:108-109 _is_scale_exempt *)
definition is_scale_exempt :: "metric \<Rightarrow> bool" where
  "is_scale_exempt m = (scale_exempt m \<or> metric_format_of m = FmtPercent)"

text \<open>The division needs the divisor as a float, which may be too large.\<close>

(* engine/formatter.py:112-124 _scale_value *)
definition scale_value :: "'f arith \<Rightarrow> 'f option \<Rightarrow> metric \<Rightarrow> int \<Rightarrow> (expression_error, 'f option) res" where
  "scale_value a v m scale =
     (case v of
        None \<Rightarrow> Inr None
      | Some x \<Rightarrow>
          if is_scale_exempt m then Inr (Some x)
          else if scale > 0
               then res_map (\<lambda>d. Some (divide_by a x d)) (res_of_option (OverflowError (10 ^ nat scale)) (of_integer a (10 ^ nat scale)))
               else Inr (Some x))"

(* engine/formatter.py:127-140 resolve_decimals *)
definition resolve_decimals :: "metric \<Rightarrow> int \<Rightarrow> int option \<Rightarrow> int" where
  "resolve_decimals m scale decimals =
     (if is_scale_exempt m
      then (case decimals of Some d \<Rightarrow> d | None \<Rightarrow> (case EXEMPT_DECIMALS (metric_format_of m) of Some d \<Rightarrow> d | None \<Rightarrow> 0))
      else (case decimals of Some d \<Rightarrow> d | None \<Rightarrow> dget_or 0 DEFAULT_DECIMALS_BY_SCALE scale))"

section \<open>Rows\<close>

datatype grain_tag = Detail | Subtotal | GrandTotal

record response_item =
  it_key :: string
  it_label :: string
  it_style :: metric_style
  it_indent :: int
  it_format :: metric_format
  it_decimals :: int
  it_variance_effect :: variance_effect
  it_separator_above :: bool

record 'f response_row =
  rr_grain :: grain_tag
  rr_dimensions :: "(string, string) dict"
  rr_codes :: "(string, string) dict"
  rr_item :: response_item
  rr_values :: "(string, 'f option) dict"

(* engine/formatter.py:151-160 _get_value *)
definition get_value :: "'f result_data \<Rightarrow> string \<Rightarrow> dim_key \<Rightarrow> string \<Rightarrow> 'f option" where
  "get_value results scenario dk mk = value_of (dget_or [] (dget_or [] results scenario) dk) mk"

(* engine/formatter.py:163-164 _all_zero_or_none *)
definition all_zero_or_none :: "'f arith \<Rightarrow> (string, 'f option) dict \<Rightarrow> bool" where
  "all_zero_or_none a values = list_all (\<lambda>(_, v). case v of None \<Rightarrow> True | Some x \<Rightarrow> is_zero a x) values"

text \<open>
  The keys are collected in a set and sorted; a set has no order, so keys with equal sort values stand in
  the order in which they are first met here, and in any order in Python.
\<close>

(* engine/formatter.py:167-197 _collect_dimension_keys *)
definition collect_dimension_keys ::
  "'f result_data \<Rightarrow> resolved_block list \<Rightarrow> string list \<Rightarrow> (string, dimension_format) dict \<Rightarrow> dim_key list" where
  "collect_dimension_keys results bs ds fmts =
     (let keys = concat (map (\<lambda>b. dkeys (dget_or [] results (rb_scenario_key b))) bs)
      in if fmts = [] \<or> ds = [] then sorted_set keys
         else sort_key (\<lambda>dk. map (\<lambda>(i, d). let code = (if i < length dk then dk ! i else [])
                in case dget fmts d of Some f \<Rightarrow> sort_value f code | None \<Rightarrow> code) (enumerate 0 ds)) (dedup keys))"

text \<open>The live positions of a key: within its length and not rolled up.\<close>

definition live_codes :: "dim_key \<Rightarrow> string list \<Rightarrow> (string \<times> string) list" where
  "live_codes dk ds = filter (\<lambda>(d, code). code \<noteq> ROLLED_UP) (zip ds dk)"

(* engine/formatter.py:208-227 _dim_key_to_dict *)
definition dim_key_to_dict :: "dim_key \<Rightarrow> string list \<Rightarrow> (string, dimension_format) dict \<Rightarrow> (string, string) dict" where
  "dim_key_to_dict dk ds fmts =
     fold (\<lambda>(d, code). dset d (case dget fmts d of Some f \<Rightarrow> display_value f code | None \<Rightarrow> code)) (live_codes dk ds) []"

(* engine/formatter.py:230-249 _dim_key_to_codes *)
definition dim_key_to_codes :: "dim_key \<Rightarrow> string list \<Rightarrow> (string, string) dict" where
  "dim_key_to_codes dk ds = fold (\<lambda>(d, code). dset d code) (live_codes dk ds) []"

(* engine/formatter.py:256-266 _grain_of *)
definition grain_of :: "dim_key \<Rightarrow> string list \<Rightarrow> grain_tag" where
  "grain_of dk ds =
     (if ds = [] then Detail
      else let live = length (live_codes dk ds)
        in if live = length ds then Detail else if live = 0 then GrandTotal else Subtotal)"

(* engine/formatter.py:317-323 format_response *)
definition block_value ::
  "'f arith \<Rightarrow> 'f result_data \<Rightarrow> int \<Rightarrow> dim_key \<Rightarrow> string \<Rightarrow> metric \<Rightarrow> resolved_block \<Rightarrow> (expression_error, 'f option) res" where
  "block_value a results scale dk ik m b =
     (let raw = get_value results (rb_scenario_key b) dk ik
      in if display_format b = ''percent'' then Inr raw else scale_value a raw m scale)"

(* engine/formatter.py:316-323 format_response *)
definition row_values ::
  "'f arith \<Rightarrow> 'f result_data \<Rightarrow> int \<Rightarrow> resolved_block list \<Rightarrow> dim_key \<Rightarrow> string \<Rightarrow> metric
     \<Rightarrow> (expression_error, (string, 'f option) dict) res" where
  "row_values a results scale bs dk ik m =
     res_foldM (\<lambda>acc b. res_map (\<lambda>v. dset (rb_alias b) v acc) (block_value a results scale dk ik m b)) [] bs"

(* engine/formatter.py:326-335 format_response *)
fun item_of :: "metric \<Rightarrow> int \<Rightarrow> int option \<Rightarrow> bool \<Rightarrow> response_item" where
  "item_of (BaseMetric m) scale decimals pending =
     \<lparr>it_key = bm_key m, it_label = bm_label m, it_style = bm_style m, it_indent = bm_indent m, it_format = bm_format m,
      it_decimals = resolve_decimals (BaseMetric m) scale decimals, it_variance_effect = bm_variance_effect m,
      it_separator_above = pending \<or> bm_separator_above m\<rparr>"
| "item_of (DerivedMetric m) scale decimals pending =
     \<lparr>it_key = dm_key m, it_label = dm_label m, it_style = dm_style m, it_indent = dm_indent m, it_format = dm_format m,
      it_decimals = resolve_decimals (DerivedMetric m) scale decimals, it_variance_effect = dm_variance_effect m,
      it_separator_above = pending \<or> dm_separator_above m\<rparr>"

text \<open>What does not change from row to row.\<close>

record 'f layout =
  ly_arith :: "'f arith"
  ly_metrics :: "(string, metric) dict"
  ly_results :: "'f result_data"
  ly_blocks :: "resolved_block list"
  ly_dimensions :: "string list"
  ly_formats :: "(string, dimension_format) dict"
  ly_scale :: int
  ly_decimals :: "int option"

(* engine/formatter.py:309-343 format_response *)
fun item_rows :: "'f layout \<Rightarrow> dim_key \<Rightarrow> bool \<Rightarrow> string list \<Rightarrow> (expression_error, 'f response_row list) res" where
  "item_rows ly dk pending [] = Inr []"
| "item_rows ly dk pending (ik # iks) =
     (if ik = ''separator'' then item_rows ly dk True iks
      else case dget (ly_metrics ly) ik of
        None \<Rightarrow> item_rows ly dk pending iks
      | Some m \<Rightarrow>
          res_bind (row_values (ly_arith ly) (ly_results ly) (ly_scale ly) (ly_blocks ly) dk ik m)
            (\<lambda>values. if hide_if_zero m \<and> all_zero_or_none (ly_arith ly) values then item_rows ly dk pending iks
              else res_map ((#) \<lparr>rr_grain = grain_of dk (ly_dimensions ly),
                     rr_dimensions = dim_key_to_dict dk (ly_dimensions ly) (ly_formats ly),
                     rr_codes = dim_key_to_codes dk (ly_dimensions ly),
                     rr_item = item_of m (ly_scale ly) (ly_decimals ly) pending, rr_values = values\<rparr>)
                (item_rows ly dk False iks)))"

(* engine/formatter.py:298-343 format_response *)
definition response_rows :: "'f layout \<Rightarrow> (expression_error, 'f response_row list) res" where
  "response_rows ly =
     (let item_keys = (case ly_blocks ly of [] \<Rightarrow> [] | b # _ \<Rightarrow> display_items b);
          keys = collect_dimension_keys (ly_results ly) (ly_blocks ly) (ly_dimensions ly) (ly_formats ly)
      in res_map concat (res_mapM (\<lambda>dk. item_rows ly dk False item_keys) keys))"

record response_column =
  rc_alias :: string
  rc_format :: "string option"
  rc_variance :: bool
  rc_decimals :: "int option"

record 'f response =
  rs_statement :: bool
  rs_dimensions :: "string list"
  rs_scenarios :: "response_column list"
  rs_period :: "string \<times> string"
  rs_scale :: int
  rs_rows :: "'f response_row list"
  rs_decimals :: "int option"

(* engine/formatter.py:348-362 format_response *)
definition column_of :: "int option \<Rightarrow> resolved_block \<Rightarrow> response_column" where
  "column_of decimals b =
     \<lparr>rc_alias = rb_alias b, rc_format = (if display_format b = [] then None else Some (display_format b)), rc_variance = color_code b,
      rc_decimals = (if display_format b = ''percent'' then Some (case decimals of Some d \<Rightarrow> d | None \<Rightarrow> 1) else None)\<rparr>"

(* engine/formatter.py:269-370 format_response *)
definition format_response :: "'f layout \<Rightarrow> string \<Rightarrow> string \<Rightarrow> (expression_error, 'f response) res" where
  "format_response ly period_start period_end =
     res_map (\<lambda>rows. \<lparr>rs_statement = list_ex is_statement (ly_blocks ly), rs_dimensions = ly_dimensions ly,
         rs_scenarios = map (column_of (ly_decimals ly)) (ly_blocks ly), rs_period = (period_start, period_end),
         rs_scale = ly_scale ly, rs_rows = rows, rs_decimals = ly_decimals ly\<rparr>)
       (response_rows ly)"

section \<open>The whole report\<close>

datatype report_error = ReportFailed "expression_error engine_error" | FormatFailed expression_error

(* engine/__init__.py:567-595 execute_report *)
definition layout_of ::
  "'f arith \<Rightarrow> catalogue \<Rightarrow> table_reader \<Rightarrow> (string \<Rightarrow> (string \<times> string) list option) \<Rightarrow> prepared \<Rightarrow> 'f result_data \<Rightarrow> int \<Rightarrow> int option
     \<Rightarrow> 'f layout" where
  "layout_of a cat read labels pr data scale decimals =
     \<lparr>ly_arith = a, ly_metrics = metrics cat, ly_results = data, ly_blocks = blocks (pr_plan pr),
      ly_dimensions = plan_dimensions (pr_plan pr),
      ly_formats = (case pr_ragged pr of Some rb \<Rightarrow> ragged_dim_format labels rb
        | None \<Rightarrow> build_dim_formats read cat (plan_dimensions (pr_plan pr))),
      ly_scale = scale, ly_decimals = decimals\<rparr>"

(* engine/__init__.py:565-597 execute_report *)
definition answer_report ::
  "'f::{zero,plus} arith \<Rightarrow> 'f parser \<Rightarrow> 'f environment \<Rightarrow> catalogue \<Rightarrow> registry
     \<Rightarrow> (scenario_ref \<Rightarrow> (string, string) dict) \<Rightarrow> warehouse \<Rightarrow> table_reader \<Rightarrow> (string \<Rightarrow> (string \<times> string) list option)
     \<Rightarrow> call_scope \<Rightarrow> request \<Rightarrow> int \<Rightarrow> int option \<Rightarrow> (report_error, 'f response) res" where
  "answer_report a parse env cat reg ext wh read labels scope rq scale decimals =
     res_bind (res_wrap ReportFailed (prepare_report parse cat reg ext wh scope rq)) (\<lambda>pr.
     res_bind (res_wrap ReportFailed (run_report a parse env cat pr)) (\<lambda>data.
       res_wrap FormatFailed (format_response (layout_of a cat read labels pr data scale decimals)
         (plan_period_start (pr_plan pr)) (plan_period_end (pr_plan pr)))))"

section \<open>The rows of a response\<close>

text \<open>The items of a report, the keys of its data, and which items a key shows.\<close>

definition item_keys :: "'f layout \<Rightarrow> string list" where
  "item_keys ly = (case ly_blocks ly of [] \<Rightarrow> [] | b # _ \<Rightarrow> display_items b)"

definition data_keys :: "'f layout \<Rightarrow> dim_key list" where
  "data_keys ly = collect_dimension_keys (ly_results ly) (ly_blocks ly) (ly_dimensions ly) (ly_formats ly)"

abbreviation value_in :: "'f layout \<Rightarrow> dim_key \<Rightarrow> string \<Rightarrow> metric \<Rightarrow> resolved_block \<Rightarrow> (expression_error, 'f option) res" where
  "value_in ly dk ik m b \<equiv> block_value (ly_arith ly) (ly_results ly) (ly_scale ly) dk ik m b"

definition blank_value :: "'f arith \<Rightarrow> (expression_error, 'f option) res \<Rightarrow> bool" where
  "blank_value a r = (case r of Inr (Some x) \<Rightarrow> is_zero a x | Inr None \<Rightarrow> True | Inl e \<Rightarrow> False)"

definition shown :: "'f layout \<Rightarrow> dim_key \<Rightarrow> string \<Rightarrow> bool" where
  "shown ly dk ik = (ik \<noteq> ''separator'' \<and> (case dget (ly_metrics ly) ik of None \<Rightarrow> False
     | Some m \<Rightarrow> \<not> (hide_if_zero m \<and> list_all (\<lambda>b. blank_value (ly_arith ly) (value_in ly dk ik m b)) (ly_blocks ly))))"

text \<open>A row shows an item at a key: its codes, its grain and, under the alias of every block, the value of the block.\<close>

definition shows_cell :: "'f layout \<Rightarrow> dim_key \<times> string \<Rightarrow> 'f response_row \<Rightarrow> bool" where
  "shows_cell ly = (\<lambda>(dk, ik) r. \<exists>m. dget (ly_metrics ly) ik = Some m \<and> it_key (rr_item r) = metric_key m
     \<and> rr_grain r = grain_of dk (ly_dimensions ly) \<and> rr_codes r = dim_key_to_codes dk (ly_dimensions ly)
     \<and> dkeys (rr_values r) = map rb_alias (ly_blocks ly)
     \<and> (\<forall>b\<in>set (ly_blocks ly). value_in ly dk ik m b = Inr (value_of (rr_values r) (rb_alias b))))"

lemma row_values_list:
  assumes "row_values a results scale bs dk ik m = Inr vs" and "distinct (map rb_alias bs)"
  shows "\<exists>ws. res_mapM (block_value a results scale dk ik m) bs = Inr ws \<and> vs = zip (map rb_alias bs) ws"
proof -
  have "\<exists>ws. res_mapM (block_value a results scale dk ik m) bs = Inr ws \<and> vs = acc @ zip (map rb_alias bs) ws"
    if "res_foldM (\<lambda>acc b. res_map (\<lambda>v. dset (rb_alias b) v acc) (block_value a results scale dk ik m b)) acc bs = Inr vs"
      and "distinct (map rb_alias bs)" and "\<forall>b\<in>set bs. rb_alias b \<notin> set (dkeys acc)" for acc
    using that
  proof (induction bs arbitrary: acc)
    case (Cons b bs)
    obtain v where v: "block_value a results scale dk ik m b = Inr v"
      and rest: "res_foldM (\<lambda>acc b. res_map (\<lambda>v. dset (rb_alias b) v acc) (block_value a results scale dk ik m b)) (dset (rb_alias b) v acc) bs = Inr vs"
      using Cons.prems(1) by (auto simp: res_simps)
    have new: "dset (rb_alias b) v acc = acc @ [(rb_alias b, v)]"
      using Cons.prems(3) by (intro dset_fresh) (simp add: dhas_def)
    have fresh: "\<forall>x\<in>set bs. rb_alias x \<notin> set (dkeys (acc @ [(rb_alias b, v)]))"
    proof
      fix x assume x: "x \<in> set bs"
      then have "rb_alias x \<in> set (map rb_alias bs)" by simp
      then have "rb_alias x \<noteq> rb_alias b" using Cons.prems(2) by (metis distinct.simps(2) list.simps(9))
      moreover have "rb_alias x \<notin> set (dkeys acc)" using Cons.prems(3) x by simp
      ultimately show "rb_alias x \<notin> set (dkeys (acc @ [(rb_alias b, v)]))" by simp
    qed
    have "distinct (map rb_alias bs)" using Cons.prems(2) by simp
    then have "\<exists>ws. res_mapM (block_value a results scale dk ik m) bs = Inr ws \<and> vs = (acc @ [(rb_alias b, v)]) @ zip (map rb_alias bs) ws"
      using Cons.IH [OF rest [unfolded new] _ fresh] by blast
    then obtain ws where "res_mapM (block_value a results scale dk ik m) bs = Inr ws" "vs = acc @ (rb_alias b, v) # zip (map rb_alias bs) ws" by auto
    then show ?case using v by (intro exI [of _ "v # ws"]) simp
  qed simp
  from this [of "[]"] show ?thesis using assms by (simp add: row_values_def)
qed

lemma row_values_facts:
  assumes "row_values a results scale bs dk ik m = Inr vs" and "distinct (map rb_alias bs)"
  shows "dkeys vs = map rb_alias bs" and "\<forall>b\<in>set bs. block_value a results scale dk ik m b = Inr (value_of vs (rb_alias b))"
    and "all_zero_or_none a vs = list_all (\<lambda>b. blank_value a (block_value a results scale dk ik m b)) bs"
proof -
  obtain ws where ws: "res_mapM (block_value a results scale dk ik m) bs = Inr ws" and vs: "vs = zip (map rb_alias bs) ws"
    using row_values_list [OF assms] by blast
  have len: "length ws = length bs" and each: "\<And>i. i < length bs \<Longrightarrow> block_value a results scale dk ik m (bs ! i) = Inr (ws ! i)"
    using ws by (auto simp: res_mapM_Inr_iff list_all2_conv_all_nth)
  show keys: "dkeys vs = map rb_alias bs" using len by (simp add: vs)
  show "\<forall>b\<in>set bs. block_value a results scale dk ik m b = Inr (value_of vs (rb_alias b))"
  proof
    fix b assume "b \<in> set bs"
    then obtain i where i: "i < length bs" "b = bs ! i" by (auto simp: in_set_conv_nth)
    then have "(rb_alias b, ws ! i) \<in> set vs" using len by (force simp: vs in_set_zip)
    then have "dget vs (rb_alias b) = Some (ws ! i)" using keys assms(2) by (simp add: wf_dict_def flip: wf_dict_get)
    then show "block_value a results scale dk ik m b = Inr (value_of vs (rb_alias b))" using each i by (simp add: value_of_def)
  qed
  have "all_zero_or_none a vs = (\<forall>i<length bs. blank_value a (Inr (ws ! i)))"
    using len by (auto simp: all_zero_or_none_def vs list_all_length blank_value_def split: option.splits)
  then show "all_zero_or_none a vs = list_all (\<lambda>b. blank_value a (block_value a results scale dk ik m b)) bs"
    using each by (auto simp: list_all_length)
qed

lemma item_of_key [simp]: "it_key (item_of m scale decimals pending) = metric_key m"
  by (cases m) simp_all

lemma item_rows_exact:
  assumes "item_rows ly dk pending iks = Inr rs" and "distinct (map rb_alias (ly_blocks ly))"
  shows "list_all2 (shows_cell ly) (map (Pair dk) (filter (shown ly dk) iks)) rs"
  using assms(1)
proof (induction iks arbitrary: pending rs)
  case (Cons ik iks)
  show ?case
  proof (cases "ik = ''separator'' \<or> dget (ly_metrics ly) ik = None")
    case True
    then have "\<not> shown ly dk ik" by (auto simp: shown_def)
    then show ?thesis using Cons True by (auto split: if_splits)
  next
    case False
    then obtain m where m: "dget (ly_metrics ly) ik = Some m" and sep: "ik \<noteq> ''separator''" by auto
    obtain vs where vs: "row_values (ly_arith ly) (ly_results ly) (ly_scale ly) (ly_blocks ly) dk ik m = Inr vs"
      using Cons.prems m sep by (auto simp: res_simps)
    note facts = row_values_facts [OF vs assms(2)]
    have hide: "shown ly dk ik \<longleftrightarrow> \<not> (hide_if_zero m \<and> all_zero_or_none (ly_arith ly) vs)"
      using m sep facts(3) by (simp add: shown_def)
    show ?thesis
    proof (cases "shown ly dk ik")
      case False
      then show ?thesis using Cons m sep vs hide by simp
    next
      case True
      then obtain r rest where rs: "rs = r # rest" and more: "item_rows ly dk False iks = Inr rest"
        and r: "r = \<lparr>rr_grain = grain_of dk (ly_dimensions ly), rr_dimensions = dim_key_to_dict dk (ly_dimensions ly) (ly_formats ly),
                     rr_codes = dim_key_to_codes dk (ly_dimensions ly),
                     rr_item = item_of m (ly_scale ly) (ly_decimals ly) pending, rr_values = vs\<rparr>"
        using Cons.prems m sep vs hide by (auto simp: res_simps)
      have "shows_cell ly (dk, ik) r" using m facts(1,2) by (simp add: shows_cell_def r)
      then show ?thesis using Cons.IH [OF more] True by (simp add: rs)
    qed
  qed
qed simp

lemma set_data_keys: "set (data_keys ly) = (\<Union>b\<in>set (ly_blocks ly). set (dkeys (dget_or [] (ly_results ly) (rb_scenario_key b))))"
  by (auto simp: data_keys_def collect_dimension_keys_def Let_def)

lemma distinct_data_keys: "distinct (data_keys ly)"
  by (simp add: data_keys_def collect_dimension_keys_def Let_def)


definition revenue_layout :: "rat layout" where
  "revenue_layout = \<lparr>ly_arith = rat_arith, ly_metrics = [(''revenue'', example_base ''revenue'')],
     ly_results = [(''ACT'', [([''CC1''], [(''revenue'', Some 2500)])])], ly_blocks = [(example_block ''ACT'' False)\<lparr>display_items := [''separator'', ''revenue'']\<rparr>],
     ly_dimensions = [''cost_centre''], ly_formats = [], ly_scale = 3, ly_decimals = None\<rparr>"


end
