(* ===== verification/Concurrency.thy ===== *)
theory Concurrency
  imports PyText
begin

text \<open>
  The read limiter (\<open>concurrency.py\<close>): a semaphore per user and a global one, both created on first
  use, bound the number of report calls in flight. A call takes a slot of its user, then a global slot,
  reads, and gives both back; a wait that lasts too long, or a cancelled task, ends the call and gives
  back what it holds. The event loop interleaves the calls: the model is a relation over single events,
  and the theorems hold for every interleaving of them.

  An \<open>asyncio.Semaphore\<close> is its number of free slots. The order in which waiting calls are woken is
  left open, so that the results do not rest on it; time is not modelled, a wait may end at any moment.
\<close>

section \<open>Configuration\<close>

(* concurrency.py:34-42 _int_env *)
definition int_env :: "(string \<Rightarrow> string option) \<Rightarrow> string \<Rightarrow> int \<Rightarrow> int" where
  "int_env getenv name dflt =
     (case getenv name of
        None \<Rightarrow> dflt
      | Some raw \<Rightarrow>
          if raw = [] then dflt
          else case py_int raw of None \<Rightarrow> dflt | Some n \<Rightarrow> if n > 0 then n else dflt)"

definition user_cap :: "(string \<Rightarrow> string option) \<Rightarrow> nat" where
  "user_cap getenv = nat (int_env getenv ''PRECIS_MAX_CONCURRENT_READS_PER_USER'' 6)"

definition global_cap :: "(string \<Rightarrow> string option) \<Rightarrow> nat" where
  "global_cap getenv = nat (int_env getenv ''PRECIS_MAX_CONCURRENT_READS_GLOBAL'' 32)"

section \<open>State\<close>

text \<open>
  Where a call stands in \<open>acquire\<close>: before the user slot, before the global slot, in the body, or
  ended, served or refused. \<open>got_user\<close> and \<open>got_global\<close> are read off the phase.
\<close>

datatype phase = WaitingUser | WaitingGlobal | Reading | Served | Refused

record call =
  call_user :: string
  call_phase :: phase

(* concurrency.py:59-62 ReadConcurrencyLimiter *)
record limiter =
  per_user :: "(string, nat) dict"
  global_slots :: "nat option"
  calls :: "call list"

definition idle :: limiter where
  "idle = \<lparr>per_user = [], global_slots = None, calls = []\<rparr>"

definition got_user :: "phase \<Rightarrow> bool" where
  "got_user p = (p \<in> {WaitingGlobal, Reading})"

definition got_global :: "phase \<Rightarrow> bool" where
  "got_global p = (p = Reading)"

definition ended :: "phase \<Rightarrow> bool" where
  "ended p = (p \<in> {Served, Refused})"

section \<open>Operations\<close>

(* concurrency.py:64-79 _slots_for *)
definition slots_for :: "(string \<Rightarrow> string option) \<Rightarrow> string \<Rightarrow> limiter \<Rightarrow> limiter" where
  "slots_for getenv u s =
     (let s1 = (if dget (per_user s) u = None then s\<lparr>per_user := dset u (user_cap getenv) (per_user s)\<rparr> else s)
      in if global_slots s1 = None then s1\<lparr>global_slots := Some (global_cap getenv)\<rparr> else s1)"

definition set_phase :: "nat \<Rightarrow> phase \<Rightarrow> limiter \<Rightarrow> limiter" where
  "set_phase i p s = s\<lparr>calls := (calls s)[i := (calls s ! i)\<lparr>call_phase := p\<rparr>]\<rparr>"

definition free_user :: "(string \<Rightarrow> string option) \<Rightarrow> string \<Rightarrow> limiter \<Rightarrow> nat" where
  "free_user getenv u s = dget_or (user_cap getenv) (per_user s) u"

definition free_global :: "(string \<Rightarrow> string option) \<Rightarrow> limiter \<Rightarrow> nat" where
  "free_global getenv s = (case global_slots s of None \<Rightarrow> global_cap getenv | Some n \<Rightarrow> n)"

(* concurrency.py:82-89 acquire *)
definition enter :: "(string \<Rightarrow> string option) \<Rightarrow> string \<Rightarrow> limiter \<Rightarrow> limiter" where
  "enter getenv u s = (let s1 = slots_for getenv u s
      in s1\<lparr>calls := calls s1 @ [\<lparr>call_user = u, call_phase = WaitingUser\<rparr>]\<rparr>)"

(* concurrency.py:95-96 acquire *)
definition take_user :: "nat \<Rightarrow> limiter \<Rightarrow> limiter" where
  "take_user i s = (let u = call_user (calls s ! i)
      in set_phase i WaitingGlobal (s\<lparr>per_user := dset u (the (dget (per_user s) u) - 1) (per_user s)\<rparr>))"

(* concurrency.py:97-98 acquire *)
definition take_global :: "nat \<Rightarrow> limiter \<Rightarrow> limiter" where
  "take_global i s = set_phase i Reading (s\<lparr>global_slots := map_option (\<lambda>n. n - 1) (global_slots s)\<rparr>)"

text \<open>The \<open>finally\<close> of \<open>acquire\<close>: the global slot first, then the user's.\<close>

(* concurrency.py:104-108 acquire *)
definition release :: "nat \<Rightarrow> limiter \<Rightarrow> limiter" where
  "release i s =
     (let c = calls s ! i;
          s1 = (if got_global (call_phase c) then s\<lparr>global_slots := map_option Suc (global_slots s)\<rparr> else s)
      in if got_user (call_phase c)
         then s1\<lparr>per_user := dset (call_user c) (Suc (the (dget (per_user s1) (call_user c)))) (per_user s1)\<rparr>
         else s1)"

(* concurrency.py:103-108 acquire *)
definition finish :: "nat \<Rightarrow> limiter \<Rightarrow> limiter" where
  "finish i s = set_phase i Served (release i s)"

(* concurrency.py:99-108 acquire *)
definition give_up :: "nat \<Rightarrow> limiter \<Rightarrow> limiter" where
  "give_up i s = set_phase i Refused (release i s)"

section \<open>Events\<close>

text \<open>
  A body that raises leaves through the same \<open>finally\<close> and is a \<open>Finish\<close>; a cancelled wait leaves
  like a timeout and is a \<open>GiveUp\<close>.
\<close>

datatype event = Enter string | TakeUser nat | TakeGlobal nat | Finish nat | GiveUp nat

(* concurrency.py:82-108 acquire *)
inductive step :: "(string \<Rightarrow> string option) \<Rightarrow> limiter \<Rightarrow> event \<Rightarrow> limiter \<Rightarrow> bool" for getenv where
  enter: "step getenv s (Enter u) (enter getenv u s)"
| take_user: "\<lbrakk>i < length (calls s); call_phase (calls s ! i) = WaitingUser;
      free_user getenv (call_user (calls s ! i)) s > 0\<rbrakk> \<Longrightarrow> step getenv s (TakeUser i) (take_user i s)"
| take_global: "\<lbrakk>i < length (calls s); call_phase (calls s ! i) = WaitingGlobal; free_global getenv s > 0\<rbrakk>
      \<Longrightarrow> step getenv s (TakeGlobal i) (take_global i s)"
| finish: "\<lbrakk>i < length (calls s); call_phase (calls s ! i) = Reading\<rbrakk> \<Longrightarrow> step getenv s (Finish i) (finish i s)"
| give_up: "\<lbrakk>i < length (calls s); call_phase (calls s ! i) \<in> {WaitingUser, WaitingGlobal}\<rbrakk>
      \<Longrightarrow> step getenv s (GiveUp i) (give_up i s)"

inductive_cases step_cases: "step getenv s e t"

inductive run :: "(string \<Rightarrow> string option) \<Rightarrow> limiter \<Rightarrow> event list \<Rightarrow> limiter \<Rightarrow> bool" for getenv where
  stop: "run getenv s [] s"
| go: "step getenv s e s1 \<Longrightarrow> run getenv s1 es t \<Longrightarrow> run getenv s (e # es) t"

inductive_cases run_NilE: "run getenv s [] t"
inductive_cases run_ConsE: "run getenv s (e # es) t"

definition reachable :: "(string \<Rightarrow> string option) \<Rightarrow> limiter \<Rightarrow> bool" where
  "reachable getenv s = (\<exists>es. run getenv idle es s)"

definition serving :: "event \<Rightarrow> bool" where
  "serving e = (case e of TakeUser i \<Rightarrow> True | TakeGlobal i \<Rightarrow> True | Finish i \<Rightarrow> True | _ \<Rightarrow> False)"

definition users_holding :: "string \<Rightarrow> limiter \<Rightarrow> nat" where
  "users_holding u s = length (filter (\<lambda>c. call_user c = u \<and> got_user (call_phase c)) (calls s))"

definition reading :: "limiter \<Rightarrow> nat" where
  "reading s = length (filter (\<lambda>c. got_global (call_phase c)) (calls s))"

section \<open>Resource pools\<close>

text \<open>
  A pool of slots in a transition system: what is free and what is held add up to the cap at the start,
  and every event keeps the sum. Nothing is then ever held beyond the cap, and a state that holds
  nothing has every slot free.
\<close>

locale pool =
  fixes init :: 's
    and trans :: "'s \<Rightarrow> 'e \<Rightarrow> 's \<Rightarrow> bool"
    and inv :: "'s \<Rightarrow> bool"
    and free held :: "'s \<Rightarrow> nat"
    and cap :: nat
  assumes init_inv: "inv init"
    and trans_inv: "inv s \<Longrightarrow> trans s e t \<Longrightarrow> inv t"
    and init_sum: "free init + held init = cap"
    and trans_sum: "inv s \<Longrightarrow> trans s e t \<Longrightarrow> free t + held t = free s + held s"
begin

lemma conserved:
  assumes "(\<lambda>s t. \<exists>e. trans s e t)\<^sup>*\<^sup>* init s"
  shows "inv s \<and> free s + held s = cap"
  using assms by (induction rule: rtranclp_induct) (use init_inv trans_inv init_sum trans_sum in auto)

lemma held_within_cap: "(\<lambda>s t. \<exists>e. trans s e t)\<^sup>*\<^sup>* init s \<Longrightarrow> held s \<le> cap"
  using conserved by fastforce

lemma all_free_when_unheld: "(\<lambda>s t. \<exists>e. trans s e t)\<^sup>*\<^sup>* init s \<Longrightarrow> held s = 0 \<Longrightarrow> free s = cap"
  using conserved by fastforce

end

section \<open>Every event keeps the slots\<close>

lemma length_filter_update:
  "i < length xs \<Longrightarrow> length (filter P (xs[i := y])) + (if P (xs ! i) then 1 else 0)
     = length (filter P xs) + (if P y then 1 else 0)"
proof (induction xs arbitrary: i)
  case (Cons x xs)
  then show ?case by (cases i) auto
qed simp

text \<open>Every semaphore a call of the state may use exists.\<close>

definition set_up :: "limiter \<Rightarrow> bool" where
  "set_up s = (\<forall>c\<in>set (calls s). dhas (call_user c) (per_user s) \<and> global_slots s \<noteq> None)"

lemma phase_flags [simp]:
  "got_user WaitingGlobal" "got_user Reading" "\<not> got_user WaitingUser" "\<not> got_user Served" "\<not> got_user Refused"
  "got_global Reading" "\<not> got_global WaitingUser" "\<not> got_global WaitingGlobal" "\<not> got_global Served" "\<not> got_global Refused"
  "ended Served" "ended Refused" "\<not> ended WaitingUser" "\<not> ended WaitingGlobal" "\<not> ended Reading"
  by (simp_all add: got_user_def got_global_def ended_def)

lemmas operations = enter_def take_user_def take_global_def finish_def give_up_def release_def set_phase_def Let_def

lemma set_up_slots:
  assumes "set_up s" and "i < length (calls s)"
  shows "dget (per_user s) (call_user (calls s ! i)) = Some (free_user getenv (call_user (calls s ! i)) s)"
    and "global_slots s = Some (free_global getenv s)"
proof -
  have "calls s ! i \<in> set (calls s)" using assms(2) by simp
  then show "dget (per_user s) (call_user (calls s ! i)) = Some (free_user getenv (call_user (calls s ! i)) s)"
    "global_slots s = Some (free_global getenv s)"
    using assms(1) by (fastforce simp: set_up_def dhas_iff free_user_def free_global_def dget_or_def)+
qed

lemma dhas_dset: "dhas k (dset k' v d) \<longleftrightarrow> k = k' \<or> dhas k d"
  by (auto simp: dhas_iff dict_simps)

lemma in_set_update: "c \<in> set (xs[i := y]) \<Longrightarrow> c = y \<or> c \<in> set xs"
  using set_update_subset_insert by fastforce

lemma set_up_mono:
  assumes "set_up s" and "\<And>k. dhas k (per_user s) \<Longrightarrow> dhas k (per_user t)"
    and "global_slots s \<noteq> None \<Longrightarrow> global_slots t \<noteq> None" and "map call_user (calls t) = map call_user (calls s)"
  shows "set_up t"
proof -
  have "call_user ` set (calls t) = call_user ` set (calls s)" using assms(4) by (metis set_map)
  then have "\<exists>d\<in>set (calls s). call_user c = call_user d" if "c \<in> set (calls t)" for c using that by (metis imageE imageI)
  then show ?thesis using assms(1-3) by (metis set_up_def)
qed

lemma users_set_phase [simp]:
  "map call_user (calls (set_phase i p s)) = map call_user (calls s)"
  "per_user (set_phase i p s) = per_user s" "global_slots (set_phase i p s) = global_slots s"
proof -
  show "map call_user (calls (set_phase i p s)) = map call_user (calls s)"
    by (rule nth_equalityI; cases "i < length (calls s)") (simp_all add: set_phase_def nth_list_update list_update_beyond)
qed (simp_all add: set_phase_def)

lemma release_slots:
  "dhas k (per_user s) \<Longrightarrow> dhas k (per_user (release i s))"
  "global_slots s \<noteq> None \<Longrightarrow> global_slots (release i s) \<noteq> None" "calls (release i s) = calls s"
  by (simp_all add: release_def Let_def dhas_dset)

lemma step_set_up:
  assumes "set_up s" and "step getenv s e t"
  shows "set_up t"
  using assms(2)
proof cases
  case (enter u)
  then show ?thesis using assms(1) by (auto simp: set_up_def enter_def slots_for_def Let_def dhas_dset dhas_iff dict_simps)
next
  case (take_user i)
  show ?thesis unfolding take_user(2) by (rule set_up_mono [OF assms(1)]) (simp_all add: take_user_def Let_def dhas_dset)
next
  case (take_global i)
  show ?thesis unfolding take_global(2) by (rule set_up_mono [OF assms(1)]) (simp_all add: take_global_def)
next
  case (finish i)
  show ?thesis unfolding finish(2)
    by (rule set_up_mono [OF assms(1)]) (simp_all add: finish_def release_slots del: not_None_eq)
next
  case (give_up i)
  show ?thesis unfolding give_up(2)
    by (rule set_up_mono [OF assms(1)]) (simp_all add: give_up_def release_slots del: not_None_eq)
qed

text \<open>Each event moves one slot between free and held, or none.\<close>

lemma holding_update:
  assumes "i < length (calls s)"
  shows "users_holding u (set_phase i p s) + (if call_user (calls s ! i) = u \<and> got_user (call_phase (calls s ! i)) then 1 else 0)
     = users_holding u s + (if call_user (calls s ! i) = u \<and> got_user p then 1 else 0)"
    and "reading (set_phase i p s) + (if got_global (call_phase (calls s ! i)) then 1 else 0)
     = reading s + (if got_global p then 1 else 0)"
  using length_filter_update [OF assms, where P = "\<lambda>c. call_user c = u \<and> got_user (call_phase c)"
      and y = "(calls s ! i)\<lparr>call_phase := p\<rparr>"]
    length_filter_update [OF assms, where P = "\<lambda>c. got_global (call_phase c)" and y = "(calls s ! i)\<lparr>call_phase := p\<rparr>"]
  by (simp_all add: users_holding_def reading_def set_phase_def)

lemma holding_slots [simp]:
  "users_holding u (s\<lparr>per_user := x\<rparr>) = users_holding u s" "users_holding u (s\<lparr>global_slots := g\<rparr>) = users_holding u s"
  "reading (s\<lparr>per_user := x\<rparr>) = reading s" "reading (s\<lparr>global_slots := g\<rparr>) = reading s"
  by (simp_all add: users_holding_def reading_def)

lemma free_set_phase [simp]:
  "free_user getenv u (set_phase i p s) = free_user getenv u s" "free_global getenv (set_phase i p s) = free_global getenv s"
  by (simp_all add: free_user_def free_global_def set_phase_def)

lemma free_slots [simp]:
  "free_user getenv u (s\<lparr>global_slots := g\<rparr>) = free_user getenv u s"
  "free_global getenv (s\<lparr>per_user := x\<rparr>) = free_global getenv s"
  "free_user getenv u (s\<lparr>per_user := dset v n (per_user s)\<rparr>) = (if u = v then n else free_user getenv u s)"
  by (simp_all add: free_user_def free_global_def dget_or_def dict_simps)

lemma slots_for_facts:
  "free_user getenv u (slots_for getenv v s) = free_user getenv u s"
  "free_global getenv (slots_for getenv v s) = free_global getenv s"
  "calls (slots_for getenv v s) = calls s"
  by (simp_all add: slots_for_def Let_def free_user_def free_global_def dget_or_def dict_simps split: option.splits)

lemma enter_facts:
  "free_user getenv u (enter getenv v s) = free_user getenv u s" "users_holding u (enter getenv v s) = users_holding u s"
  "free_global getenv (enter getenv v s) = free_global getenv s" "reading (enter getenv v s) = reading s"
  by (simp_all add: enter_def Let_def users_holding_def reading_def slots_for_facts
      slots_for_facts(1,2) [unfolded free_user_def free_global_def] free_user_def free_global_def)

lemma release_free:
  assumes "set_up s" and "i < length (calls s)"
  shows "free_user getenv u (release i s) = free_user getenv u s
      + (if call_user (calls s ! i) = u \<and> got_user (call_phase (calls s ! i)) then 1 else 0)"
    and "free_global getenv (release i s) = free_global getenv s + (if got_global (call_phase (calls s ! i)) then 1 else 0)"
proof -
  note n = set_up_slots [OF assms, of getenv]
  show "free_user getenv u (release i s) = free_user getenv u s
      + (if call_user (calls s ! i) = u \<and> got_user (call_phase (calls s ! i)) then 1 else 0)"
    using n(1) by (auto simp: release_def Let_def free_user_def dget_or_dset)
  obtain m where "global_slots s = Some m" using n(2) by blast
  then show "free_global getenv (release i s) = free_global getenv s + (if got_global (call_phase (calls s ! i)) then 1 else 0)"
    by (simp add: release_def Let_def free_global_def)
qed

lemma held_release [simp]: "users_holding u (release i s) = users_holding u s" "reading (release i s) = reading s"
  by (simp_all add: users_holding_def reading_def release_slots)

lemma step_user_sum:
  assumes "set_up s" and "step getenv s e t"
  shows "free_user getenv u t + users_holding u t = free_user getenv u s + users_holding u s"
  using assms(2)
proof cases
  case (enter v)
  then show ?thesis by (simp add: enter_facts)
next
  case (take_user i)
  let ?v = "call_user (calls s ! i)"
  let ?s = "s\<lparr>per_user := dset ?v (the (dget (per_user s) ?v) - 1) (per_user s)\<rparr>"
  have "free_user getenv u ?s + (if ?v = u then 1 else 0) = free_user getenv u s"
    using set_up_slots(1) [OF assms(1) take_user(3), of getenv] take_user(5) by auto
  then show ?thesis using holding_update(1) [of i ?s u WaitingGlobal] take_user(3,4)
    by (simp add: take_user(2) take_user_def Let_def)
next
  case (take_global i)
  then show ?thesis
    using holding_update(1) [of i "s\<lparr>global_slots := map_option (\<lambda>n. n - 1) (global_slots s)\<rparr>" u Reading]
    by (simp add: take_global_def)
next
  case (finish i)
  show ?thesis using finish(3,4) holding_update(1) [of i "release i s" u Served] release_free(1) [OF assms(1) finish(3), of getenv u]
    by (simp add: finish(2) finish_def release_slots)
next
  case (give_up i)
  show ?thesis using give_up(3,4) holding_update(1) [of i "release i s" u Refused] release_free(1) [OF assms(1) give_up(3), of getenv u]
    by (simp add: give_up(2) give_up_def release_slots)
qed

lemma step_global_sum:
  assumes "set_up s" and "step getenv s e t"
  shows "free_global getenv t + reading t = free_global getenv s + reading s"
  using assms(2)
proof cases
  case (enter v)
  then show ?thesis by (simp add: enter_facts)
next
  case (take_user i)
  let ?v = "call_user (calls s ! i)"
  show ?thesis using take_user(3,4)
      holding_update(2) [of i "s\<lparr>per_user := dset ?v (the (dget (per_user s) ?v) - 1) (per_user s)\<rparr>" WaitingGlobal]
    by (simp add: take_user(2) take_user_def Let_def)
next
  case (take_global i)
  let ?s = "s\<lparr>global_slots := map_option (\<lambda>n. n - 1) (global_slots s)\<rparr>"
  obtain m where "global_slots s = Some m" using set_up_slots(2) [OF assms(1) take_global(3), of getenv] by blast
  then have "free_global getenv ?s + 1 = free_global getenv s" using take_global(5) by (simp add: free_global_def)
  then show ?thesis using take_global(3,4) holding_update(2) [of i ?s Reading]
    by (simp add: take_global(2) take_global_def)
next
  case (finish i)
  show ?thesis using finish(3,4) holding_update(2) [of i "release i s" Served] release_free(2) [OF assms(1) finish(3), of getenv]
    by (simp add: finish(2) finish_def release_slots)
next
  case (give_up i)
  show ?thesis using give_up(3,4) holding_update(2) [of i "release i s" Refused] release_free(2) [OF assms(1) give_up(3), of getenv]
    by (simp add: give_up(2) give_up_def release_slots)
qed

lemma idle_facts:
  "set_up idle" "free_user getenv u idle + users_holding u idle = user_cap getenv"
  "free_global getenv idle + reading idle = global_cap getenv"
  by (simp_all add: idle_def set_up_def free_user_def users_holding_def dget_or_def free_global_def reading_def)

interpretation user_pool: pool idle "step getenv" set_up "free_user getenv u" "users_holding u" "user_cap getenv" for getenv u
  by unfold_locales (rule idle_facts(1), erule (1) step_set_up, rule idle_facts(2), erule (1) step_user_sum)

interpretation global_pool: pool idle "step getenv" set_up "free_global getenv" reading "global_cap getenv" for getenv
  by unfold_locales (rule idle_facts(1), erule (1) step_set_up, rule idle_facts(3), erule (1) step_global_sum)

lemma run_star: "run getenv s es t \<Longrightarrow> (\<lambda>s t. \<exists>e. step getenv s e t)\<^sup>*\<^sup>* s t"
proof (induction rule: run.induct)
  case (go s e s1 es t)
  then show ?case by (metis (mono_tags, lifting) converse_rtranclp_into_rtranclp)
qed simp

lemma reachable_star: "reachable getenv s \<Longrightarrow> (\<lambda>s t. \<exists>e. step getenv s e t)\<^sup>*\<^sup>* idle s"
  unfolding reachable_def by (blast intro: run_star)

lemma quiet_holds_nothing:
  assumes "\<forall>c\<in>set (calls s). ended (call_phase c)"
  shows "users_holding u s = 0" and "reading s = 0"
  using assms by (fastforce simp: users_holding_def reading_def filter_empty_conv ended_def)+

lemma int_env_positive: "dflt > 0 \<Longrightarrow> int_env getenv name dflt > 0"
  by (auto simp: int_env_def split: option.splits)

lemma caps_positive: "user_cap getenv > 0" "global_cap getenv > 0"
  using int_env_positive [of 6] int_env_positive [of 32] by (simp_all add: user_cap_def global_cap_def)

text \<open>
  C23: The caps hold and no slot is lost. Whatever the interleaving of calls, timeouts and cancellations,
  no user holds more slots than the user cap, no more calls read at once than the global cap, and as soon
  as every call has ended all slots of every user and all global slots are free again.
\<close>

theorem caps_hold_and_slots_return:
  assumes "reachable getenv s"
  shows "users_holding u s \<le> user_cap getenv \<and> reading s \<le> global_cap getenv
    \<and> ((\<forall>c\<in>set (calls s). ended (call_phase c)) \<longrightarrow>
          free_user getenv u s = user_cap getenv \<and> free_global getenv s = global_cap getenv)"
proof (intro conjI impI)
  note star = reachable_star [OF assms]
  show "users_holding u s \<le> user_cap getenv" using star by (rule user_pool.held_within_cap)
  show "reading s \<le> global_cap getenv" using star by (rule global_pool.held_within_cap)
  assume quiet: "\<forall>c\<in>set (calls s). ended (call_phase c)"
  show "free_user getenv u s = user_cap getenv" using star quiet_holds_nothing(1) [OF quiet] by (rule user_pool.all_free_when_unheld)
  show "free_global getenv s = global_cap getenv" using star quiet_holds_nothing(2) [OF quiet] by (rule global_pool.all_free_when_unheld)
qed

section \<open>No deadlock\<close>

primrec steps_left :: "phase \<Rightarrow> nat" where
  "steps_left WaitingUser = 3"
| "steps_left WaitingGlobal = 2"
| "steps_left Reading = 1"
| "steps_left Served = 0"
| "steps_left Refused = 0"

definition work :: "limiter \<Rightarrow> nat" where
  "work s = sum_list (map (\<lambda>c. steps_left (call_phase c)) (calls s))"

definition served :: "call \<Rightarrow> call" where
  "served c = (if ended (call_phase c) then c else c\<lparr>call_phase := Served\<rparr>)"

lemma sum_list_update_nat:
  fixes f :: "'a \<Rightarrow> nat"
  shows "i < length xs \<Longrightarrow> sum_list (map f (xs[i := y])) + f (xs ! i) = sum_list (map f xs) + f y"
proof (induction xs arbitrary: i)
  case (Cons x xs)
  then show ?case by (cases i) (auto simp: add.assoc add.left_commute)
qed simp

lemma work_set_phase:
  "i < length (calls s) \<Longrightarrow> work (set_phase i p s) + steps_left (call_phase (calls s ! i)) = work s + steps_left p"
  using sum_list_update_nat [of i "calls s" "\<lambda>c. steps_left (call_phase c)" "(calls s ! i)\<lparr>call_phase := p\<rparr>"]
  by (simp add: work_def set_phase_def)

lemma served_set_phase:
  assumes "i < length (calls s)" and "\<not> ended (call_phase (calls s ! i))" and "p \<noteq> Refused"
  shows "map served (calls (set_phase i p s)) = map served (calls s)"
  using assms by (intro nth_equalityI) (auto simp: set_phase_def nth_list_update served_def ended_def)

lemma serving_step:
  assumes "set_up s" and user: "\<And>u. free_user getenv u s + users_holding u s = user_cap getenv"
    and global: "free_global getenv s + reading s = global_cap getenv"
    and "c \<in> set (calls s)" and "\<not> ended (call_phase c)"
  obtains e t where "step getenv s e t" "serving e" "work s = Suc (work t)" "map served (calls t) = map served (calls s)"
proof -
  consider (reading) i where "i < length (calls s)" "call_phase (calls s ! i) = Reading"
    | (global) i where "i < length (calls s)" "call_phase (calls s ! i) = WaitingGlobal" "reading s = 0"
    | (user) i where "i < length (calls s)" "call_phase (calls s ! i) = WaitingUser" "\<And>u. users_holding u s = 0"
  proof (cases "reading s = 0")
    case False
    then show ?thesis using that(1) by (fastforce simp: reading_def filter_empty_conv got_global_def in_set_conv_nth)
  next
    case none: True
    show ?thesis
    proof (cases "\<exists>i<length (calls s). call_phase (calls s ! i) = WaitingGlobal")
      case True
      then show ?thesis using that(2) none by blast
    next
      case False
      have "call_phase d \<notin> {Reading, WaitingGlobal}" if "d \<in> set (calls s)" for d
        using none False that by (auto simp: reading_def filter_empty_conv got_global_def in_set_conv_nth)
      moreover have "users_holding u s = 0" for u
        using calculation by (fastforce simp: users_holding_def filter_empty_conv got_user_def)
      moreover obtain i where "i < length (calls s)" "calls s ! i = c" using assms(4) by (auto simp: in_set_conv_nth)
      ultimately show ?thesis using that(3) [of i] assms(4,5) by (cases "call_phase c") auto
    qed
  qed
  then show ?thesis
  proof cases
    case (reading i)
    show ?thesis
    proof (rule that [OF step.finish [OF reading]])
      show "work s = Suc (work (finish i s))"
        using work_set_phase [of i "release i s" Served] reading by (simp add: finish_def release_slots work_def)
      show "map served (calls (finish i s)) = map served (calls s)"
        using served_set_phase [of i "release i s" Served] reading by (simp add: finish_def release_slots)
    qed (simp add: serving_def)
  next
    case (global i)
    let ?s = "s\<lparr>global_slots := map_option (\<lambda>n. n - 1) (global_slots s)\<rparr>"
    have free: "free_global getenv s > 0" using assms(3) global(3) caps_positive(2) [of getenv] by simp
    show ?thesis
    proof (rule that [OF step.take_global [OF global(1,2) free]])
      show "work s = Suc (work (take_global i s))"
        using work_set_phase [of i ?s Reading] global(1,2) by (simp add: take_global_def work_def)
      show "map served (calls (take_global i s)) = map served (calls s)"
        using served_set_phase [of i ?s Reading] global(1,2) by (simp add: take_global_def)
    qed (simp add: serving_def)
  next
    case (user i)
    let ?u = "call_user (calls s ! i)"
    let ?s = "s\<lparr>per_user := dset ?u (the (dget (per_user s) ?u) - 1) (per_user s)\<rparr>"
    have free: "free_user getenv ?u s > 0" using assms(2) [of ?u] user(3) [of ?u] caps_positive(1) [of getenv] by simp
    show ?thesis
    proof (rule that [OF step.take_user [OF user(1,2) free]])
      show "work s = Suc (work (take_user i s))"
        using work_set_phase [of i ?s WaitingGlobal] user(1,2) by (simp add: take_user_def Let_def work_def)
      show "map served (calls (take_user i s)) = map served (calls s)"
        using served_set_phase [of i ?s WaitingGlobal] user(1,2) by (simp add: take_user_def Let_def)
    qed (simp add: serving_def)
  qed
qed

lemma served_all:
  assumes "(\<lambda>s t. \<exists>e. step getenv s e t)\<^sup>*\<^sup>* idle s"
  shows "\<exists>es t. run getenv s es t \<and> (\<forall>e\<in>set es. serving e) \<and> length es = work s \<and> calls t = map served (calls s)"
  using assms
proof (induction "work s" arbitrary: s)
  case 0
  then have "steps_left (call_phase c) = 0" if "c \<in> set (calls s)" for c using that by (auto simp: work_def)
  then have "ended (call_phase c)" if "c \<in> set (calls s)" for c
    using that by (cases "call_phase c") fastforce+
  then have "map served (calls s) = calls s" by (simp add: served_def map_idI)
  then show ?case using 0(1) by (intro exI [of _ "[]"] exI [of _ s]) (simp add: run.stop)
next
  case (Suc n)
  have "\<exists>c\<in>set (calls s). \<not> ended (call_phase c)"
  proof (rule ccontr)
    assume "\<not> ?thesis"
    then have "work s = 0" by (auto simp: work_def ended_def)
    then show False using Suc.hyps(2) by simp
  qed
  then obtain c where c: "c \<in> set (calls s)" "\<not> ended (call_phase c)" by blast
  note up = user_pool.conserved [OF Suc.prems] and gp = global_pool.conserved [OF Suc.prems]
  obtain e t where t: "step getenv s e t" "serving e" "work s = Suc (work t)" "map served (calls t) = map served (calls s)"
    using serving_step [where getenv = getenv, OF conjunct1 [OF gp] conjunct2 [OF up] conjunct2 [OF gp] c] by metis
  have "(\<lambda>s t. \<exists>e. step getenv s e t)\<^sup>*\<^sup>* idle t" using Suc.prems t(1) by (metis (mono_tags, lifting) rtranclp.rtrancl_into_rtrancl)
  from Suc.hyps(1) [OF _ this] t(3) Suc.hyps(2) obtain es r where
    r: "run getenv t es r" "\<forall>e\<in>set es. serving e" "length es = work t" "calls r = map served (calls t)" by auto
  then show ?case using t by (intro exI [of _ "e # es"] exI [of _ r]) (auto intro: run.go)
qed

text \<open>
  C24: No deadlock between the two semaphores. From every reachable state, with no further timeout,
  cancellation or arrival, the calls in flight can all be served: taking free slots and finishing bodies
  leads in a number of events known in advance to a state where every call that had not been refused is
  served.
\<close>

theorem waiting_calls_can_be_served:
  assumes "reachable getenv s"
  shows "\<exists>es t. run getenv s es t \<and> (\<forall>e\<in>set es. serving e) \<and> length es = work s \<and> calls t = map served (calls s)"
  using reachable_star [OF assms] by (rule served_all)

section \<open>Examples\<close>

text \<open>A deployment with one slot per user and two in total.\<close>

definition small_deployment :: "string \<Rightarrow> string option" where
  "small_deployment = map_of [(''PRECIS_MAX_CONCURRENT_READS_PER_USER'', ''1''), (''PRECIS_MAX_CONCURRENT_READS_GLOBAL'', ''2'')]"

definition contended :: limiter where
  "contended = \<lparr>per_user = [(''ana'', 0)], global_slots = Some 2,
     calls = [\<lparr>call_user = ''ana'', call_phase = WaitingGlobal\<rparr>, \<lparr>call_user = ''ana'', call_phase = WaitingUser\<rparr>]\<rparr>"

lemma small_caps: "user_cap small_deployment = 1" "global_cap small_deployment = 2"
  by code_simp+

lemma contended_reachable: "reachable small_deployment contended"
proof -
  let ?s1 = "enter small_deployment ''ana'' idle"
  let ?s2 = "enter small_deployment ''ana'' ?s1"
  have s2: "?s2 = \<lparr>per_user = [(''ana'', 1)], global_slots = Some 2,
     calls = [\<lparr>call_user = ''ana'', call_phase = WaitingUser\<rparr>, \<lparr>call_user = ''ana'', call_phase = WaitingUser\<rparr>]\<rparr>"
    by code_simp
  have "contended = take_user 0 ?s2" unfolding s2 by (simp add: contended_def take_user_def set_phase_def Let_def)
  moreover have "step small_deployment ?s2 (TakeUser 0) (take_user 0 ?s2)"
    by (rule step.take_user) (simp_all add: s2 free_user_def dget_or_def)
  ultimately have "run small_deployment idle [Enter ''ana'', Enter ''ana'', TakeUser 0] contended"
    by (auto intro!: run.intros step.enter)
  then show ?thesis unfolding reachable_def by blast
qed

theorem caps_hold_and_slots_return_witness: "users_holding ''ana'' contended \<le> 1 \<and> reading contended \<le> 2"
  using caps_hold_and_slots_return [OF contended_reachable, of "''ana''"] by (simp add: small_caps)

theorem waiting_calls_can_be_served_witness:
  "\<exists>es t. run small_deployment contended es t \<and> length es = 5 \<and> map call_phase (calls t) = [Served, Served]"
  using waiting_calls_can_be_served [OF contended_reachable] by (force simp: work_def contended_def served_def)

end
