(* ===== verification/Bindings.thy ===== *)
theory Bindings
  imports PyText
begin

text \<open>
  The integration registry (\<open>ingestion/registry.py\<close>): sources, bindings with their schedules and
  data-quality checks, the validators of each model, loading from files and the cross-reference checks.
  Reading a file and turning YAML into typed fields is the work of libraries; a file arrives as one of
  the outcomes the loader distinguishes. Numbers of a check are kept as the text they render to, which
  is all the checks use of them. The main lemma shows what a loaded registry guarantees to the loads.
\<close>

section \<open>Text substitution\<close>

text \<open>\<open>s.replace(pat, rep)\<close> for a pattern that is not empty.\<close>

function replace_all :: "string \<Rightarrow> string \<Rightarrow> string \<Rightarrow> string" where
  "replace_all pat rep s =
     (if pat = [] then s
      else case split_first pat s of None \<Rightarrow> s | Some (before, after) \<Rightarrow> before @ rep @ replace_all pat rep after)"
  by pat_completeness auto
termination
proof (relation "measure (\<lambda>(pat, rep, s). length s)")
  fix pat rep s and x before after :: string and ba
  assume "pat \<noteq> []" and "split_first pat s = Some ba" and "(before, after) = ba"
  then show "((pat, rep, after), (pat, rep, s)) \<in> measure (\<lambda>(pat, rep, s). length s)"
    using split_first_length [of pat s before after] by (cases pat) auto
qed simp

section \<open>Names\<close>

datatype config_error =
    InvalidName string string
  | InvalidSchedule string
  | InvalidWatch string
  | InvalidSelection
  | InvalidExtract
  | InvalidMeasure string
  | InvalidCheck string string
  | InvalidBinding string
  | DuplicateChecks "string list"
  | UnreadableFile string
  | NotAMapping string
  | DuplicateId string
  | UnknownSource string string "string list"
  | SharedTarget string string string
  | UnknownBinding string
  | UnknownSourceId string

definition lower :: "char \<Rightarrow> bool" where
  "lower c = (CHR ''a'' \<le> c \<and> c \<le> CHR ''z'')"

definition name_char :: "char \<Rightarrow> bool" where
  "name_char c = (lower c \<or> is_digit c \<or> c = CHR ''_'')"

text \<open>\<open>[a-z][a-z0-9_]{1,n}$\<close>: \<open>$\<close> also matches before one final newline.\<close>

definition match_name :: "nat \<Rightarrow> string \<Rightarrow> bool" where
  "match_name n s =
     (case s of [] \<Rightarrow> False
      | c # cs \<Rightarrow> lower c \<and> (let body = takeWhile name_char cs
          in 1 \<le> length body \<and> length body \<le> n \<and> at_end (dropWhile name_char cs)))"

(* ingestion/registry.py:62-62 _ID_RE *)
definition id_re :: "string \<Rightarrow> bool" where
  "id_re s = match_name 63 s"

(* ingestion/registry.py:63-63 _BINDING_ID_RE *)
definition binding_id_re :: "string \<Rightarrow> bool" where
  "binding_id_re s = match_name 127 s"

(* ingestion/registry.py:64-64 _TARGET_RE *)
definition target_re :: "string \<Rightarrow> bool" where
  "target_re s = (startswith s ''live.'' \<and> match_name 63 (drop 5 s))"

(* ingestion/registry.py:67-73 _validate_id *)
definition validate_id :: "string \<Rightarrow> string \<Rightarrow> (config_error, unit) res" where
  "validate_id s field = res_guard (id_re s) (InvalidName field s)"

section \<open>Sources and schedules\<close>

(* ingestion/registry.py:100-108 Source *)
record source =
  src_id :: string
  src_kind :: string
  secret_ref :: string

(* ingestion/registry.py:110-113 Source *)
definition check_source :: "source \<Rightarrow> (config_error, unit) res" where
  "check_source s = validate_id (src_id s) ''Source.id''"

datatype strategy = Lookback | Explicit | Watermark

(* ingestion/registry.py:121-125 PeriodSelection *)
record period_selection =
  sel_strategy :: strategy
  lookback_periods :: int

(* ingestion/registry.py:127-131 PeriodSelection *)
definition check_selection :: "period_selection \<Rightarrow> (config_error, unit) res" where
  "check_selection p = res_guard (\<not> (sel_strategy p = Lookback \<and> lookback_periods p < 1)) InvalidSelection"

datatype period_from = FilenameRegex | ColumnValue

(* ingestion/registry.py:141-147 WatchSpec *)
record watch_spec =
  file_glob :: string
  watch_period_from :: period_from
  filename_regex :: "string option"
  watch_period_column :: "string option"

text \<open>\<open>not x\<close> for an optional string: missing or empty.\<close>

definition blank_text :: "string option \<Rightarrow> bool" where
  "blank_text x = (case x of None \<Rightarrow> True | Some s \<Rightarrow> s = [])"

(* ingestion/registry.py:149-159 WatchSpec *)
definition check_watch :: "watch_spec \<Rightarrow> (config_error, unit) res" where
  "check_watch w =
     res_bind (res_guard (\<not> (watch_period_from w = FilenameRegex \<and> blank_text (filename_regex w)))
                 (InvalidWatch ''filename_regex''))
       (\<lambda>_. res_guard (\<not> (watch_period_from w = ColumnValue \<and> blank_text (watch_period_column w)))
                 (InvalidWatch ''period_column''))"

datatype mode = Cron | Push | Watch

(* ingestion/registry.py:162-170 Schedule *)
record schedule =
  sched_mode :: mode
  cron_expression :: "string option"
  sched_timezone :: "string option"
  selection :: period_selection
  push_auth :: "(string \<times> string) option"
  sched_watch :: "watch_spec option"

(* ingestion/registry.py:172-185 Schedule *)
definition check_schedule :: "schedule \<Rightarrow> (config_error, unit) res" where
  "check_schedule s =
     (case sched_mode s of
        Cron \<Rightarrow> res_guard (\<not> blank_text (cron_expression s) \<and> \<not> blank_text (sched_timezone s)) (InvalidSchedule ''cron'')
      | Push \<Rightarrow> res_guard (push_auth s \<noteq> None) (InvalidSchedule ''push'')
      | Watch \<Rightarrow> res_guard (sched_watch s \<noteq> None) (InvalidSchedule ''watch''))"

section \<open>Data-quality checks\<close>

datatype severity = Error | Warning | Info

datatype check_type = NotNull | Unique | AcceptedValues | AcceptedRange | Referential | Expression | RowCount
  | DistinctCount | Reconcile

datatype 'f tolerance = AbsTolerance 'f | PctTolerance 'f

text \<open>A literal of \<open>values\<close>: a string, or another value with the text \<open>str\<close> gives it.\<close>

datatype literal = TextLiteral string | OtherLiteral string

(* ingestion/registry.py:242-256 ReconcileMeasure *)
record 'f measure =
  measure_expr :: string
  measure_tolerance :: "'f tolerance list"

(* ingestion/registry.py:258-267 ReconcileMeasure *)
definition check_measure :: "string \<Rightarrow> 'f measure \<Rightarrow> (config_error, unit) res" where
  "check_measure name m = res_guard (strip (measure_expr m) \<noteq> [] \<and> length (measure_tolerance m) = 1) (InvalidMeasure name)"

(* ingestion/registry.py:282-304 Check *)
record 'f check =
  ck_name :: string
  ck_severity :: severity
  ck_where :: "string option"
  threshold :: "string option"
  ck_type :: "check_type option"
  ck_sql :: "string option"
  column :: "string option"
  columns :: "string list option"
  accepted :: "literal list option"
  min_bound :: "string option"
  max_bound :: "string option"
  references :: "string option"
  ck_expression :: "string option"
  ck_group_by :: "string list option"
  measures :: "(string, 'f measure) dict option"
  source_query :: "string option"

definition blank_list :: "'a list option \<Rightarrow> bool" where
  "blank_list x = (case x of None \<Rightarrow> True | Some xs \<Rightarrow> xs = [])"

text \<open>A threshold is an operator and a number with optional white space; the operator is read first.\<close>

datatype comparison = Gt | Lt | Ge | Le | Eq | Ne

(* ingestion/checks.py:49-53 _OPS *)
fun compare :: "comparison \<Rightarrow> int \<Rightarrow> int \<Rightarrow> bool" where
  "compare Gt a b = (a > b)"
| "compare Lt a b = (a < b)"
| "compare Ge a b = (a \<ge> b)"
| "compare Le a b = (a \<le> b)"
| "compare Eq a b = (a = b)"
| "compare Ne a b = (a \<noteq> b)"

definition read_operator :: "string \<Rightarrow> (comparison \<times> string) option" where
  "read_operator s =
     (if startswith s ''>='' then Some (Ge, drop 2 s)
      else if startswith s ''<='' then Some (Le, drop 2 s)
      else if startswith s ''!='' then Some (Ne, drop 2 s)
      else if startswith s ''='' then Some (Eq, drop 1 s)
      else if startswith s ''>'' then Some (Gt, drop 1 s)
      else if startswith s ''<'' then Some (Lt, drop 1 s)
      else None)"

(* ingestion/checks.py:48-48 _THRESHOLD_RE *)
definition read_threshold :: "string \<Rightarrow> (comparison \<times> int) option" where
  "read_threshold s =
     (case read_operator (dropWhile is_space s) of
        None \<Rightarrow> None
      | Some (cmp, rest) \<Rightarrow>
          let rest = dropWhile is_space rest; digits = takeWhile is_digit rest
          in if digits \<noteq> [] \<and> list_all is_space (dropWhile is_digit rest) then Some (cmp, int (num_val digits)) else None)"

definition word_re :: "string \<Rightarrow> bool" where
  "word_re s = (case s of [] \<Rightarrow> False | c # cs \<Rightarrow> (lower c \<or> c = CHR ''_'') \<and> list_all name_char cs)"

text \<open>\<open>schema.table.column\<close>, with the final newline \<open>$\<close> allows.\<close>

(* ingestion/registry.py:239-239 _REFERENCES_RE *)
definition references_re :: "string \<Rightarrow> bool" where
  "references_re s = (let t = (if endswith s [CHR 0x0A] then butlast s else s); ws = split_on (CHR ''.'') t
      in length ws = 3 \<and> list_all word_re ws)"

(* ingestion/registry.py:324-370 _validate_type_params *)
definition check_params :: "check_type \<Rightarrow> 'f check \<Rightarrow> (config_error, unit) res" where
  "check_params ty c =
     (let needs = (\<lambda>ok what. res_guard ok (InvalidCheck (ck_name c) what));
          bounded = (min_bound c \<noteq> None \<or> max_bound c \<noteq> None)
      in case ty of
        NotNull \<Rightarrow> needs (column c \<noteq> None) ''column''
      | Unique \<Rightarrow> needs (\<not> blank_list (columns c)) ''columns''
      | AcceptedValues \<Rightarrow> res_bind (needs (column c \<noteq> None) ''column'') (\<lambda>_. needs (\<not> blank_list (accepted c)) ''values'')
      | AcceptedRange \<Rightarrow> res_bind (needs bounded ''bounds'') (\<lambda>_. needs (column c \<noteq> None) ''column'')
      | Referential \<Rightarrow> res_bind (needs (column c \<noteq> None) ''column'')
          (\<lambda>_. res_bind (needs (references c \<noteq> None) ''references'')
            (\<lambda>_. needs (references_re (case references c of None \<Rightarrow> [] | Some r \<Rightarrow> r)) ''references''))
      | Expression \<Rightarrow> needs (ck_expression c \<noteq> None) ''expression''
      | RowCount \<Rightarrow> needs bounded ''bounds''
      | DistinctCount \<Rightarrow> res_bind (needs (column c \<noteq> None) ''column'') (\<lambda>_. needs bounded ''bounds'')
      | Reconcile \<Rightarrow> res_bind (needs (\<not> blank_list (ck_group_by c)) ''group_by'')
          (\<lambda>_. res_bind (needs (\<not> blank_list (measures c)) ''measures'')
            (\<lambda>_. needs (source_query c \<noteq> None) ''source_query'')))"

(* ingestion/registry.py:306-321 Check *)
definition validate_check :: "'f check \<Rightarrow> (config_error, unit) res" where
  "validate_check c =
     (let fault = InvalidCheck (ck_name c)
      in res_bind (res_guard (strip (ck_name c) \<noteq> []) (fault ''name''))
        (\<lambda>_. res_bind (res_guard ((ck_type c = None) \<noteq> (ck_sql c = None)) (fault ''form''))
          (\<lambda>_. res_bind (res_guard (case threshold c of None \<Rightarrow> True | Some t \<Rightarrow> read_threshold t \<noteq> None) (fault ''threshold''))
            (\<lambda>_. case ck_type c of None \<Rightarrow> Inr () | Some ty \<Rightarrow> check_params ty c))))"

section \<open>Bindings\<close>

datatype kind = Period | Snapshot

(* ingestion/registry.py:383-393 Binding *)
record 'f binding =
  bd_id :: string
  bd_source :: string
  bd_target :: string
  bd_scenario :: string
  bd_kind :: kind
  bd_schedule :: schedule
  extract_query :: string
  checks :: "'f check list"

(* ingestion/registry.py:395-413 Binding *)
definition check_binding :: "'f binding \<Rightarrow> (config_error, unit) res" where
  "check_binding b =
     res_bind (res_guard (binding_id_re (bd_id b)) (InvalidName ''Binding.id'' (bd_id b)))
       (\<lambda>_. res_bind (res_guard (target_re (bd_target b)) (InvalidName ''target'' (bd_target b)))
         (\<lambda>_. let names = map ck_name (checks b);
                    dupes = sorted_set (filter (\<lambda>n. count_list names n > 1) names)
                in res_guard (dupes = []) (DuplicateChecks dupes)))"

text \<open>Pydantic validates the fields of a model before the model's own validator.\<close>

(* ingestion/registry.py:218-222 ExtractSpec *)
definition check_extract :: "string \<Rightarrow> (config_error, unit) res" where
  "check_extract q = res_guard (strip q \<noteq> []) InvalidExtract"

definition validate_schedule :: "schedule \<Rightarrow> (config_error, unit) res" where
  "validate_schedule s =
     res_bind (check_selection (selection s))
       (\<lambda>_. res_bind (case sched_watch s of None \<Rightarrow> Inr () | Some w \<Rightarrow> check_watch w) (\<lambda>_. check_schedule s))"

definition validate_full_check :: "'f check \<Rightarrow> (config_error, unit) res" where
  "validate_full_check c =
     res_bind (res_all (\<lambda>(k, m). check_measure k m) (case measures c of None \<Rightarrow> [] | Some ms \<Rightarrow> ms)) (\<lambda>_. validate_check c)"

definition validate_binding :: "'f binding \<Rightarrow> (config_error, unit) res" where
  "validate_binding b =
     res_bind (validate_schedule (bd_schedule b))
       (\<lambda>_. res_bind (check_extract (extract_query b))
         (\<lambda>_. res_bind (res_all validate_full_check (checks b)) (\<lambda>_. check_binding b)))"

(* ingestion/registry.py:417-420 table_name *)
definition table_name :: "'f binding \<Rightarrow> string" where
  "table_name b = drop 5 (bd_target b)"

(* ingestion/registry.py:422-427 staging_target *)
definition staging_target :: "'f binding \<Rightarrow> string" where
  "staging_target b = ''staging.'' @ table_name b"

section \<open>Loading\<close>

text \<open>What the loader finds in a YAML file.\<close>

datatype 'a yaml_file = ParseFailure | EmptyFile | OtherTopLevel | Mapping 'a

(* ingestion/registry.py:435-446 IntegrationRegistry *)
record 'f registry =
  sources :: "(string, source) dict"
  bindings :: "(string, 'f binding) dict"

(* ingestion/registry.py:525-548 _load_dir *)
definition load_file ::
  "('a \<Rightarrow> (config_error, unit) res) \<Rightarrow> ('a \<Rightarrow> string) \<Rightarrow> (string, 'a) dict \<Rightarrow> string \<times> 'a yaml_file
     \<Rightarrow> (config_error, (string, 'a) dict) res" where
  "load_file validate ident target =
     (\<lambda>(path, content).
        case content of
          ParseFailure \<Rightarrow> Inl (UnreadableFile path)
        | EmptyFile \<Rightarrow> Inr target
        | OtherTopLevel \<Rightarrow> Inl (NotAMapping path)
        | Mapping obj \<Rightarrow>
            res_bind (validate obj)
              (\<lambda>_. if dhas (ident obj) target then Inl (DuplicateId (ident obj)) else Inr (dset (ident obj) obj target)))"

(* ingestion/registry.py:512-548 _load_dir *)
definition load_dir ::
  "('a \<Rightarrow> (config_error, unit) res) \<Rightarrow> ('a \<Rightarrow> string) \<Rightarrow> (string \<times> 'a yaml_file) list
     \<Rightarrow> (config_error, (string, 'a) dict) res" where
  "load_dir validate ident files = res_foldM (load_file validate ident) [] (sort_key fst files)"

(* ingestion/registry.py:554-560 _validate_cross_references *)
definition known_source :: "(string, source) dict \<Rightarrow> string \<times> 'f binding \<Rightarrow> (config_error, unit) res" where
  "known_source srcs = (\<lambda>(_, b).
     res_guard (dhas (bd_source b) srcs) (UnknownSource (bd_id b) (bd_source b) (sorted_set (dkeys srcs))))"

(* ingestion/registry.py:562-573 _validate_cross_references *)
definition note_target ::
  "(string, string) dict \<Rightarrow> string \<times> 'f binding \<Rightarrow> (config_error, (string, string) dict) res" where
  "note_target seen = (\<lambda>(_, b).
     case dget seen (bd_target b) of
       Some other \<Rightarrow> Inl (SharedTarget (bd_target b) other (bd_id b))
     | None \<Rightarrow> Inr (dset (bd_target b) (bd_id b) seen))"

(* ingestion/registry.py:553-573 _validate_cross_references *)
definition validate_cross_references :: "'f registry \<Rightarrow> (config_error, unit) res" where
  "validate_cross_references r =
     res_bind (res_all (known_source (sources r)) (bindings r))
       (\<lambda>_. res_map (\<lambda>_. ()) (res_foldM note_target [] (bindings r)))"

(* ingestion/registry.py:450-484 load *)
definition load_registry ::
  "(string \<times> source yaml_file) list \<Rightarrow> (string \<times> 'f binding yaml_file) list \<Rightarrow> (config_error, 'f registry) res" where
  "load_registry source_files binding_files =
     res_bind (load_dir check_source src_id source_files)
       (\<lambda>srcs. res_bind (load_dir validate_binding bd_id binding_files)
         (\<lambda>bs. let r = \<lparr>sources = srcs, bindings = bs\<rparr>
                in res_map (\<lambda>_. r) (validate_cross_references r)))"

(* ingestion/registry.py:486-490 get_binding *)
definition get_binding :: "'f registry \<Rightarrow> string \<Rightarrow> (config_error, 'f binding) res" where
  "get_binding r k = res_of_option (UnknownBinding k) (dget (bindings r) k)"

(* ingestion/registry.py:492-496 get_source *)
definition get_source :: "'f registry \<Rightarrow> string \<Rightarrow> (config_error, source) res" where
  "get_source r k = res_of_option (UnknownSourceId k) (dget (sources r) k)"

(* ingestion/registry.py:498-499 bindings_for_source *)
definition bindings_for_source :: "'f registry \<Rightarrow> string \<Rightarrow> 'f binding list" where
  "bindings_for_source r k = filter (\<lambda>b. bd_source b = k) (map snd (bindings r))"

(* ingestion/registry.py:501-504 bindings_for_target *)
definition bindings_for_target :: "'f registry \<Rightarrow> string \<Rightarrow> 'f binding list" where
  "bindings_for_target r t = filter (\<lambda>b. bd_target b = t) (map snd (bindings r))"

section \<open>What a loaded registry guarantees\<close>

lemma load_dir_facts:
  assumes "load_dir validate ident files = Inr d"
  shows "wf_dict d \<and> (\<forall>(k, x)\<in>set d. k = ident x \<and> validate x = Inr ())"
  using assms unfolding load_dir_def
proof (rule res_foldM_invariant)
  fix f d d'
  assume "wf_dict d \<and> (\<forall>(k, x)\<in>set d. k = ident x \<and> validate x = Inr ())" and "load_file validate ident d f = Inr d'"
  then show "wf_dict d' \<and> (\<forall>(k, x)\<in>set d'. k = ident x \<and> validate x = Inr ())"
    by (cases f) (auto simp: load_file_def res_simps dhas_def dset_fresh wf_dict_def split: yaml_file.splits if_splits)
qed simp

lemma note_targets_facts:
  assumes "res_foldM note_target seen bs = Inr seen'"
  shows "distinct (map (bd_target \<circ> snd) bs) \<and> (\<forall>t\<in>set (map (bd_target \<circ> snd) bs). t \<notin> set (dkeys seen))"
  using assms
proof (induction bs arbitrary: seen)
  case (Cons kb bs)
  obtain k b where kb: "kb = (k, b)" by (cases kb)
  have fresh: "dget seen (bd_target b) = None" and rest: "res_foldM note_target (dset (bd_target b) (bd_id b) seen) bs = Inr seen'"
    using Cons.prems by (auto simp: kb note_target_def [of seen] res_simps split: option.splits)
  have new: "bd_target b \<notin> set (dkeys seen)" using fresh unfolding map_of_eq_None_iff by simp
  have ih: "distinct (map (bd_target \<circ> snd) bs)"
    "\<forall>t\<in>set (map (bd_target \<circ> snd) bs). t \<notin> insert (bd_target b) (set (dkeys seen))"
    using Cons.IH [OF rest] unfolding dset_keys by blast+
  have split: "map (bd_target \<circ> snd) (kb # bs) = bd_target b # map (bd_target \<circ> snd) bs" by (simp add: kb)
  show ?case unfolding split distinct.simps list.set using ih new by blast
qed simp

text \<open>Everything a load relies on: a binding under its own id, valid, with a known source, and alone on its target.\<close>

definition well_formed :: "'f registry \<Rightarrow> bool" where
  "well_formed r \<longleftrightarrow> wf_dict (bindings r)
     \<and> (\<forall>(k, b)\<in>set (bindings r). k = bd_id b \<and> validate_binding b = Inr () \<and> dhas (bd_source b) (sources r))
     \<and> inj_on bd_target (snd ` set (bindings r))"

lemma loaded_well_formed:
  assumes "load_registry sf bf = Inr r"
  shows "well_formed r"
proof -
  obtain srcs bs seen where bs: "load_dir validate_binding bd_id bf = Inr bs" and r: "r = \<lparr>sources = srcs, bindings = bs\<rparr>"
    and known: "res_all (known_source srcs) bs = Inr ()" and targets: "res_foldM note_target [] bs = Inr seen"
    using assms by (auto simp: load_registry_def validate_cross_references_def res_simps)
  have "inj_on bd_target (snd ` set bs)"
    using note_targets_facts [OF targets] by (auto simp: distinct_map inj_on_def)
  then show ?thesis using load_dir_facts [OF bs] known
    by (fastforce simp: well_formed_def r res_all_ok known_source_def res_simps)
qed

lemma well_formed_lookup:
  assumes "well_formed r" and "get_binding r k = Inr b"
  shows "bd_id b = k" and "validate_binding b = Inr ()" and "dhas (bd_source b) (sources r)"
    and "bindings_for_target r (bd_target b) = [b]"
proof -
  have mem: "(k, b) \<in> set (bindings r)" using assms(2) by (auto simp: get_binding_def res_simps dest: map_of_SomeD)
  then show "bd_id b = k" "validate_binding b = Inr ()" "dhas (bd_source b) (sources r)"
    using assms(1) by (auto simp: well_formed_def)
  have only: "b' = b" if "(k', b') \<in> set (bindings r)" "bd_target b' = bd_target b" for k' b'
    using assms(1) that mem by (force simp: well_formed_def inj_on_def)
  have keys: "fst x = bd_id (snd x)" if "x \<in> set (bindings r)" for x
    using assms(1) that by (auto simp: well_formed_def)
  have "inj_on snd (set (bindings r))"
    by (rule inj_onI) (metis keys prod.collapse)
  moreover have "distinct (bindings r)"
    using assms(1) by (auto simp: well_formed_def wf_dict_def distinct_map)
  ultimately have "distinct (map snd (bindings r))" by (simp add: distinct_map)
  then have "distinct (bindings_for_target r (bd_target b))" by (simp add: bindings_for_target_def)
  moreover have "set (bindings_for_target r (bd_target b)) = {b}"
    using mem only by (force simp: bindings_for_target_def)
  ultimately show "bindings_for_target r (bd_target b) = [b]"
    by (metis distinct.simps(2) distinct_length_2_or_more empty_set insert_not_empty list.exhaust list.set_intros(1,2) set_ConsD singletonD)
qed


section \<open>Loaded bindings\<close>

lemma no_dupes_distinct:
  assumes "sorted_set (filter (\<lambda>n. count_list xs n > 1) xs) = []"
  shows "distinct xs"
proof -
  have "set (filter (\<lambda>n. count_list xs n > 1) xs) = {}"
    using assms set_sorted_set by (metis list.set(1))
  then have "count_list xs n \<le> 1" if "n \<in> set xs" for n
    using that by (auto simp: not_less)
  then show ?thesis
  proof (induction xs)
    case (Cons x xs)
    have "count_list xs x = 0" using Cons.prems [of x] by simp
    then have "x \<notin> set xs" by (simp add: count_list_0_iff)
    moreover have "count_list xs n \<le> 1" if "n \<in> set xs" for n using Cons.prems [of n] that by (auto split: if_splits)
    ultimately show ?case using Cons.IH by simp
  qed simp
qed

text \<open>
  C31: What a loaded binding is. Every binding a successful load of the registry gives out goes by its own
  id, names a loaded source, writes to a table of the live schema no other binding writes to, has
  checks of different names, carries the settings its way of being triggered needs, and asks for at least one
  month when it loads a trailing window.
\<close>

theorem loaded_bindings_well_typed:
  assumes "load_registry source_files binding_files = Inr r" and "get_binding r k = Inr b"
  shows "bd_id b = k \<and> target_re (bd_target b) \<and> bindings_for_target r (bd_target b) = [b]
    \<and> (\<exists>src. get_source r (bd_source b) = Inr src) \<and> distinct (map ck_name (checks b))
    \<and> (sched_mode (bd_schedule b) = Cron \<longrightarrow> \<not> blank_text (cron_expression (bd_schedule b)) \<and> \<not> blank_text (sched_timezone (bd_schedule b)))
    \<and> (sched_mode (bd_schedule b) = Push \<longrightarrow> push_auth (bd_schedule b) \<noteq> None)
    \<and> (sched_mode (bd_schedule b) = Watch \<longrightarrow> sched_watch (bd_schedule b) \<noteq> None)
    \<and> (sel_strategy (selection (bd_schedule b)) = Lookback \<longrightarrow> 1 \<le> lookback_periods (selection (bd_schedule b)))"
proof -
  note lookup = well_formed_lookup [OF loaded_well_formed [OF assms(1)] assms(2)]
  have valid: "check_selection (selection (bd_schedule b)) = Inr ()" "check_schedule (bd_schedule b) = Inr ()" "check_binding b = Inr ()"
    using lookup(2) by (auto simp: validate_binding_def validate_schedule_def res_simps)
  have "target_re (bd_target b)" "sorted_set (filter (\<lambda>n. count_list (map ck_name (checks b)) n > 1) (map ck_name (checks b))) = []"
    using valid(3) by (simp_all add: check_binding_def res_simps Let_def)
  moreover have "\<exists>src. get_source r (bd_source b) = Inr src"
    using lookup(3) by (auto simp: get_source_def dhas_iff)
  ultimately show ?thesis
    using lookup(1,4) valid(1,2) no_dupes_distinct
    by (auto simp: check_selection_def check_schedule_def res_simps split: mode.splits)
qed

definition ledger_binding :: "int binding" where
  "ledger_binding = \<lparr>bd_id = ''gl_erp'', bd_source = ''erp'', bd_target = ''live.fact_gl'', bd_scenario = ''ACT'', bd_kind = Period,
     bd_schedule = \<lparr>sched_mode = Cron, cron_expression = Some ''0 6 * * *'', sched_timezone = Some ''UTC'',
       selection = \<lparr>sel_strategy = Lookback, lookback_periods = 3\<rparr>, push_auth = None, sched_watch = None\<rparr>,
     extract_query = ''SELECT 1'', checks = []\<rparr>"

definition ledger_source :: source where
  "ledger_source = \<lparr>src_id = ''erp'', src_kind = ''postgres'', secret_ref = ''ERP''\<rparr>"

theorem loaded_bindings_well_typed_witness:
  "\<exists>r. load_registry [(''erp.yaml'', Mapping ledger_source)] [(''gl.yaml'', Mapping ledger_binding)] = Inr r
     \<and> bindings_for_target r ''live.fact_gl'' = [ledger_binding]"
proof -
  let ?r = "\<lparr>sources = [(''erp'', ledger_source)], bindings = [(''gl_erp'', ledger_binding)]\<rparr>"
  have load: "load_registry [(''erp.yaml'', Mapping ledger_source)] [(''gl.yaml'', Mapping ledger_binding)] = Inr ?r"
    by code_simp
  have "get_binding ?r ''gl_erp'' = Inr ledger_binding" by (simp add: get_binding_def)
  from loaded_bindings_well_typed [OF load this] show ?thesis
    using load by (simp add: ledger_binding_def)
qed

end
