(* ===== verification/Checks.thy ===== *)
theory Checks
  imports Bindings
begin

text \<open>
  The data-quality gate of an ingestion run (\<open>ingestion/checks.py\<close>): the SQL each check runs, the
  threshold that decides whether a count trips it, the comparison of staged aggregates with the totals
  of the source, and the verdict. The database and the arithmetic of floats are parameters; a query is
  the text the code sends. The lemmas show what a passed reconciliation means and that a run which is
  not blocked has had every check of severity \<open>error\<close> run and pass.
\<close>

section \<open>Results\<close>

text \<open>A \<open>CheckError\<close> ends the run, any other exception is recorded as the result of its check.\<close>

datatype check_fault = CheckError string | QueryError string

(* ingestion/checks.py:61-70 CheckResult *)
record 'f check_result =
  cr_name :: string
  cr_severity :: severity
  cr_type :: "check_type option"
  cr_passed :: bool
  cr_failing :: "int option"
  cr_threshold :: "string option"
  cr_error :: "string option"
  cr_groups :: "(nat \<times> nat) option"
  cr_worst :: "(string, 'f \<times> 'f \<times> 'f) dict"

datatype verdict = Passed | WithWarnings | FailedChecks

(* ingestion/checks.py:88-91 CheckRunResult *)
record 'f check_run =
  verdict :: verdict
  results :: "'f check_result list"

(* ingestion/checks.py:93-95 blocked *)
definition blocked :: "'f check_run \<Rightarrow> bool" where
  "blocked r = (verdict r = FailedChecks)"

record 'f floats =
  distance :: "'f \<Rightarrow> 'f \<Rightarrow> 'f"
  magnitude :: "'f \<Rightarrow> 'f"
  quotient :: "'f \<Rightarrow> 'f \<Rightarrow> 'f"
  at_most :: "'f \<Rightarrow> 'f \<Rightarrow> bool"
  exceeds :: "'f \<Rightarrow> 'f \<Rightarrow> bool"
  float_zero :: 'f
  minus_one :: 'f

text \<open>
  The store a check queries: the first cell of a count, the rows of a grouped query, and \<open>float\<close> of a
  cell (which is zero for a null and may raise).
\<close>

record ('v, 'f) store_reader =
  count_rows :: "string \<Rightarrow> (string, int option) res"
  fetch_rows :: "string \<Rightarrow> (string, 'v list list) res"
  number :: "'v \<Rightarrow> 'f option"

section \<open>SQL text\<close>

abbreviation quote :: char where
  "quote \<equiv> CHR 0x27"

(* ingestion/checks.py:400-403 _lit *)
fun lit :: "literal \<Rightarrow> string" where
  "lit (TextLiteral v) = [quote] @ replace_all [quote] [quote, quote] v @ [quote]"
| "lit (OtherLiteral v) = v"

(* ingestion/checks.py:361-363 _combine_predicates *)
definition combine_predicates :: "string option list \<Rightarrow> string" where
  "combine_predicates ps =
     join '' AND '' (map (\<lambda>p. ''('' @ p @ '')'')
       (filter (\<lambda>p. p \<noteq> []) (map (\<lambda>p. case p of None \<Rightarrow> [] | Some t \<Rightarrow> t) ps)))"

(* ingestion/checks.py:396-397 _where_suffix *)
definition where_suffix :: "string \<Rightarrow> string" where
  "where_suffix w = (if w = [] then [] else '' WHERE '' @ w)"

(* ingestion/checks.py:387-393 _bounds_violation *)
definition bounds_violation :: "string \<Rightarrow> string option \<Rightarrow> string option \<Rightarrow> string" where
  "bounds_violation metric lo hi =
     join '' OR '' ((case lo of None \<Rightarrow> [] | Some l \<Rightarrow> [metric @ '' < '' @ l])
       @ (case hi of None \<Rightarrow> [] | Some h \<Rightarrow> [metric @ '' > '' @ h]))"

(* ingestion/checks.py:336-358 _staging_scope_predicate *)
definition staging_scope :: "'f binding \<Rightarrow> string option \<Rightarrow> string \<Rightarrow> (check_fault, string) res" where
  "staging_scope b period load_id =
     (if load_id = [] then Inl (CheckError ''load_id'')
      else res_map (\<lambda>ps. combine_predicates (map Some (ps @ [''_load_id = '' @ lit (TextLiteral load_id)])))
        (case (bd_kind b, period) of
           (Period, None) \<Rightarrow> Inl (CheckError ''period'')
         | (Period, Some p) \<Rightarrow> Inr [''period = '' @ lit (TextLiteral p)]
         | (Snapshot, Some p) \<Rightarrow> Inl (CheckError ''period'')
         | (Snapshot, None) \<Rightarrow> Inr []))"

definition text_of :: "string option \<Rightarrow> string" where
  "text_of x = (case x of None \<Rightarrow> ''None'' | Some t \<Rightarrow> t)"

(* ingestion/checks.py:219-221 row_pred *)
definition row_pred :: "string \<Rightarrow> string \<Rightarrow> string \<Rightarrow> string" where
  "row_pred staging w pred = ''SELECT 1 FROM '' @ staging @ '' WHERE '' @ combine_predicates [Some w, Some pred]"

(* ingestion/checks.py:223-225 grouped *)
definition grouped :: "string \<Rightarrow> string \<Rightarrow> string \<Rightarrow> string \<Rightarrow> string" where
  "grouped staging w group_cols having =
     ''SELECT 1 FROM '' @ staging @ '' '' @ (if w = [] then [] else ''WHERE '' @ w @ '' '') @ ''GROUP BY '' @ group_cols
       @ '' HAVING '' @ having"

(* ingestion/checks.py:227-254 _failing_rows_sql *)
definition typed_sql :: "'f check \<Rightarrow> string \<Rightarrow> string \<Rightarrow> check_type \<Rightarrow> (check_fault, string) res" where
  "typed_sql c staging w ty =
     (let col = text_of (column c); names = (\<lambda>x. case x of None \<Rightarrow> [] | Some xs \<Rightarrow> join '', '' xs)
      in case ty of
        NotNull \<Rightarrow> Inr (row_pred staging w (col @ '' IS NULL''))
      | AcceptedValues \<Rightarrow> Inr (row_pred staging w (col @ '' NOT IN ('' @ join '', '' (map lit (case accepted c of None \<Rightarrow> [] | Some vs \<Rightarrow> vs)) @ '')''))
      | AcceptedRange \<Rightarrow> Inr (row_pred staging w (bounds_violation col (min_bound c) (max_bound c)))
      | Referential \<Rightarrow>
          (case split_on (CHR ''.'') (case references c of None \<Rightarrow> [] | Some r \<Rightarrow> r) of
             [rs, rt, rc] \<Rightarrow> Inr (row_pred staging w (col @ '' NOT IN (SELECT '' @ rc @ '' FROM '' @ rs @ ''.'' @ rt @ '')''))
           | _ \<Rightarrow> Inl (QueryError ''references''))
      | Unique \<Rightarrow> Inr (grouped staging w (names (columns c)) ''count() > 1'')
      | Expression \<Rightarrow>
          Inr (if blank_list (ck_group_by c) then row_pred staging w (''NOT ('' @ text_of (ck_expression c) @ '')'')
               else grouped staging w (names (ck_group_by c)) (''NOT ('' @ text_of (ck_expression c) @ '')''))
      | RowCount \<Rightarrow> Inr (''SELECT 1 WHERE '' @ bounds_violation
            (''(SELECT count() FROM '' @ staging @ where_suffix w @ '')'') (min_bound c) (max_bound c))
      | DistinctCount \<Rightarrow> Inr (''SELECT 1 WHERE '' @ bounds_violation
            (''(SELECT count(DISTINCT '' @ col @ '') FROM '' @ staging @ where_suffix w @ '')'') (min_bound c) (max_bound c))
      | Reconcile \<Rightarrow> Inl (CheckError ''unsupported type''))"

(* ingestion/checks.py:203-254 _failing_rows_sql *)
definition failing_rows_sql :: "'f check \<Rightarrow> string \<Rightarrow> string \<Rightarrow> (check_fault, string) res" where
  "failing_rows_sql c staging scope =
     (case ck_sql c of
        Some q \<Rightarrow> Inr (replace_all ''{live}'' (''live.'' @ drop 8 staging)
            (replace_all ''{staging}'' (''(SELECT * FROM '' @ staging @ '' WHERE '' @ scope @ '')'') q))
      | None \<Rightarrow>
          (case ck_type c of
             None \<Rightarrow> Inl (CheckError ''unsupported type'')
           | Some ty \<Rightarrow> typed_sql c staging (combine_predicates [Some scope, ck_where c]) ty))"

(* ingestion/checks.py:190-200 _failing_count *)
definition failing_count ::
  "('v, 'f) store_reader \<Rightarrow> 'f check \<Rightarrow> string \<Rightarrow> string \<Rightarrow> (check_fault, int) res" where
  "failing_count rd c staging scope =
     res_bind (failing_rows_sql c staging scope)
       (\<lambda>inner. res_map (\<lambda>n. case n of None \<Rightarrow> 0 | Some k \<Rightarrow> k)
          (res_wrap QueryError (count_rows rd (''SELECT count() FROM ('' @ inner @ '') AS _precis_check''))))"

section \<open>Thresholds and tolerances\<close>

(* ingestion/checks.py:366-375 _trips *)
definition trips :: "int \<Rightarrow> string option \<Rightarrow> bool" where
  "trips failing t =
     (case t of None \<Rightarrow> failing > 0
      | Some txt \<Rightarrow> (case read_threshold txt of None \<Rightarrow> failing > 0 | Some (cmp, n) \<Rightarrow> compare cmp failing n))"

fun abs_tolerance :: "'f tolerance list \<Rightarrow> 'f option" where
  "abs_tolerance [] = None"
| "abs_tolerance (AbsTolerance t # ts) = Some t"
| "abs_tolerance (PctTolerance t # ts) = abs_tolerance ts"

fun pct_tolerance :: "'f tolerance list \<Rightarrow> 'f option" where
  "pct_tolerance [] = None"
| "pct_tolerance (PctTolerance t # ts) = Some t"
| "pct_tolerance (AbsTolerance t # ts) = pct_tolerance ts"

(* ingestion/checks.py:378-384 _within_tolerance *)
definition within_tolerance :: "'f floats \<Rightarrow> 'f \<Rightarrow> 'f \<Rightarrow> 'f tolerance list \<Rightarrow> bool" where
  "within_tolerance fl gap source_val ts =
     (case abs_tolerance ts of
        Some t \<Rightarrow> at_most fl gap t
      | None \<Rightarrow>
          (case pct_tolerance ts of
             Some t \<Rightarrow> (let denom = magnitude fl source_val
                 in if denom = float_zero fl then gap = float_zero fl else at_most fl (quotient fl gap denom) t)
           | None \<Rightarrow> gap = float_zero fl))"

section \<open>Reconciliation\<close>

type_synonym ('v, 'f) totals = "('v list, (string, 'f) dict) dict"

definition as_number :: "('v, 'f) store_reader \<Rightarrow> 'v \<Rightarrow> (check_fault, 'f) res" where
  "as_number rd v = res_of_option (QueryError ''float'') (number rd v)"

(* ingestion/checks.py:287-290 _run_reconcile *)
definition staged_entry ::
  "('v, 'f) store_reader \<Rightarrow> string list \<Rightarrow> nat \<Rightarrow> 'v list \<Rightarrow> (check_fault, 'v list \<times> (string, 'f) dict) res" where
  "staged_entry rd names n row =
     res_map (\<lambda>vs. (take n row, zip names vs))
       (res_mapM (\<lambda>i. if n + i < length row then as_number rd (row ! (n + i)) else Inl (QueryError ''row'')) [0..<length names])"

(* ingestion/checks.py:294-295 _run_reconcile *)
definition source_entry ::
  "('v, 'f) store_reader \<Rightarrow> 'f floats \<Rightarrow> string list \<Rightarrow> string list \<Rightarrow> (string, 'v) dict
     \<Rightarrow> (check_fault, 'v list \<times> (string, 'f) dict) res" where
  "source_entry rd fl names group_by row =
     res_bind (res_mapM (\<lambda>g. res_of_option (QueryError g) (dget row g)) group_by)
       (\<lambda>key. res_map (\<lambda>vs. (key, zip names vs))
          (res_mapM (\<lambda>m. case dget row m of None \<Rightarrow> Inr (float_zero fl) | Some v \<Rightarrow> as_number rd v) names))"

definition measured :: "'f floats \<Rightarrow> (string, 'f) dict \<Rightarrow> string \<Rightarrow> 'f" where
  "measured fl d m = dget_or (float_zero fl) d m"

definition out_of_tolerance ::
  "'f floats \<Rightarrow> (string, 'f) dict \<Rightarrow> (string, 'f) dict \<Rightarrow> string \<times> 'f measure \<Rightarrow> bool" where
  "out_of_tolerance fl s src = (\<lambda>(m, spec).
     \<not> within_tolerance fl (distance fl (measured fl s m) (measured fl src m)) (measured fl src m) (measure_tolerance spec))"

(* ingestion/checks.py:305-310 _run_reconcile *)
definition note_worst ::
  "'f floats \<Rightarrow> (string, 'f) dict \<Rightarrow> (string, 'f) dict \<Rightarrow> string \<times> 'f measure \<Rightarrow> (string, 'f \<times> 'f \<times> 'f) dict
     \<Rightarrow> (string, 'f \<times> 'f \<times> 'f) dict" where
  "note_worst fl s src = (\<lambda>(m, spec) worst.
     let gap = distance fl (measured fl s m) (measured fl src m)
     in if out_of_tolerance fl s src (m, spec)
           \<and> exceeds fl gap (case dget worst m of None \<Rightarrow> minus_one fl | Some (g, _) \<Rightarrow> g)
        then dset m (gap, measured fl s m, measured fl src m) worst else worst)"

(* ingestion/checks.py:299-312 _run_reconcile *)
definition compare_group ::
  "'f floats \<Rightarrow> (string, 'f measure) dict \<Rightarrow> ('v, 'f) totals \<Rightarrow> ('v, 'f) totals \<Rightarrow> 'v list
     \<Rightarrow> int \<times> (string, 'f \<times> 'f \<times> 'f) dict \<Rightarrow> int \<times> (string, 'f \<times> 'f \<times> 'f) dict" where
  "compare_group fl ms staged source_side key = (\<lambda>(failing, worst).
     case (dget staged key, dget source_side key) of
       (Some s, Some src) \<Rightarrow>
         (if list_ex (out_of_tolerance fl s src) ms then failing + 1 else failing, fold (note_worst fl s src) ms worst)
     | _ \<Rightarrow> (failing + 1, worst))"

(* ingestion/checks.py:278-284 _run_reconcile *)
definition staged_sql :: "'f check \<Rightarrow> string \<Rightarrow> string \<Rightarrow> string" where
  "staged_sql c staging scope =
     (let gs = (case ck_group_by c of None \<Rightarrow> [] | Some g \<Rightarrow> g); ms = (case measures c of None \<Rightarrow> [] | Some m \<Rightarrow> m)
      in ''SELECT '' @ join '', '' (gs @ map (\<lambda>(m, spec). measure_expr spec @ '' AS '' @ m) ms) @ '' FROM '' @ staging
         @ where_suffix (combine_predicates [Some scope, ck_where c]) @ '' GROUP BY '' @ join '', '' gs)"

(* ingestion/checks.py:297-328 _run_reconcile *)
definition reconcile_result ::
  "'f floats \<Rightarrow> 'f check \<Rightarrow> (string, 'f measure) dict \<Rightarrow> ('v, 'f) totals \<Rightarrow> ('v, 'f) totals \<Rightarrow> 'f check_result" where
  "reconcile_result fl c ms staged src =
     (let counted = fold (compare_group fl ms staged src) (dedup (dkeys staged @ dkeys src)) (0, [])
      in \<lparr>cr_name = ck_name c, cr_severity = ck_severity c, cr_type = Some Reconcile,
           cr_passed = (\<not> trips (fst counted) (threshold c)), cr_failing = Some (fst counted), cr_threshold = threshold c,
           cr_error = None, cr_groups = Some (length staged, length src), cr_worst = snd counted\<rparr>)"

(* ingestion/checks.py:262-328 _run_reconcile *)
definition run_reconcile ::
  "('v, 'f) store_reader \<Rightarrow> 'f floats \<Rightarrow> 'f check \<Rightarrow> string \<Rightarrow> string \<Rightarrow> (string, 'v) dict list option
     \<Rightarrow> (check_fault, 'f check_result) res" where
  "run_reconcile rd fl c staging scope source_rows =
     (let ms = (case measures c of None \<Rightarrow> [] | Some m \<Rightarrow> m); gs = (case ck_group_by c of None \<Rightarrow> [] | Some g \<Rightarrow> g)
      in case source_rows of
           None \<Rightarrow> Inl (CheckError ''source totals were not captured'')
         | Some srows \<Rightarrow>
             res_bind (res_wrap QueryError (fetch_rows rd (staged_sql c staging scope)))
               (\<lambda>rows. res_bind (res_map (dmerge []) (res_mapM (staged_entry rd (dkeys ms) (length gs)) rows))
                 (\<lambda>staged. res_map
                    (reconcile_result fl c ms staged)
                    (res_map (dmerge []) (res_mapM (source_entry rd fl (dkeys ms) gs) srows)))))"

section \<open>The gate\<close>

(* ingestion/checks.py:115-118 reconcile_checks *)
definition reconcile_checks :: "'f binding \<Rightarrow> 'f check list" where
  "reconcile_checks b = filter (\<lambda>c. ck_type c = Some Reconcile) (checks b)"

(* ingestion/checks.py:147-162 run_checks *)
definition run_check ::
  "('v, 'f) store_reader \<Rightarrow> 'f floats \<Rightarrow> string \<Rightarrow> string \<Rightarrow> (string, (string, 'v) dict list) dict \<Rightarrow> 'f check
     \<Rightarrow> (check_fault, 'f check_result) res" where
  "run_check rd fl staging scope totals c =
     (if ck_type c = Some Reconcile then run_reconcile rd fl c staging scope (dget totals (ck_name c))
      else res_map (\<lambda>n. \<lparr>cr_name = ck_name c, cr_severity = ck_severity c, cr_type = ck_type c,
             cr_passed = (\<not> trips n (threshold c)), cr_failing = Some n, cr_threshold = threshold c, cr_error = None, cr_groups = None, cr_worst = []\<rparr>)
        (failing_count rd c staging scope))"

(* ingestion/checks.py:146-173 run_checks *)
definition guarded_check ::
  "('v, 'f) store_reader \<Rightarrow> 'f floats \<Rightarrow> string \<Rightarrow> string \<Rightarrow> (string, (string, 'v) dict list) dict \<Rightarrow> 'f check
     \<Rightarrow> (check_fault, 'f check_result) res" where
  "guarded_check rd fl staging scope totals c =
     (case run_check rd fl staging scope totals c of
        Inl (QueryError e) \<Rightarrow> Inr \<lparr>cr_name = ck_name c, cr_severity = ck_severity c, cr_type = ck_type c,
             cr_passed = False, cr_failing = None, cr_threshold = None, cr_error = Some (take 500 e), cr_groups = None, cr_worst = []\<rparr>
      | r \<Rightarrow> r)"

(* ingestion/checks.py:175-181 run_checks *)
definition verdict_of :: "'f check_result list \<Rightarrow> verdict" where
  "verdict_of rs =
     (if list_ex (\<lambda>r. \<not> cr_passed r \<and> cr_severity r = Error) rs then FailedChecks
      else if list_ex (\<lambda>r. \<not> cr_passed r \<and> cr_severity r = Warning) rs then WithWarnings
      else Passed)"

(* ingestion/checks.py:121-182 run_checks *)
definition run_checks ::
  "('v, 'f) store_reader \<Rightarrow> 'f floats \<Rightarrow> 'f binding \<Rightarrow> string option \<Rightarrow> string \<Rightarrow> (string, (string, 'v) dict list) dict
     \<Rightarrow> (check_fault, 'f check_run) res" where
  "run_checks rd fl b period load_id totals =
     res_bind (staging_scope b period load_id)
       (\<lambda>scope. res_map (\<lambda>rs. \<lparr>verdict = verdict_of rs, results = rs\<rparr>)
          (res_mapM (guarded_check rd fl (staging_target b) scope totals) (checks b)))"

section \<open>What a passed check means\<close>

lemma trips_default [simp]: "trips n None \<longleftrightarrow> n > 0"
  by (simp add: trips_def)

lemma compare_group_eq:
  "compare_group fl ms staged src key (n, w)
     = (case (dget staged key, dget src key) of
          (Some s, Some t) \<Rightarrow> (if list_ex (out_of_tolerance fl s t) ms then n + 1 else n, fold (note_worst fl s t) ms w)
        | _ \<Rightarrow> (n + 1, w))"
  by (simp add: compare_group_def)

definition group_agrees ::
  "'f floats \<Rightarrow> (string, 'f measure) dict \<Rightarrow> ('v, 'f) totals \<Rightarrow> ('v, 'f) totals \<Rightarrow> 'v list \<Rightarrow> bool" where
  "group_agrees fl ms staged src key \<longleftrightarrow> (\<exists>s t. dget staged key = Some s \<and> dget src key = Some t
      \<and> (\<forall>spec\<in>set ms. \<not> out_of_tolerance fl s t spec))"

lemma count_groups:
  "fst (fold (compare_group fl ms staged src) keys (n, w))
     = n + int (length (filter (\<lambda>k. \<not> group_agrees fl ms staged src k) keys))"
proof (induction keys arbitrary: n w)
  case (Cons k keys)
  obtain n' w' where step: "compare_group fl ms staged src k (n, w) = (n', w')" by fastforce
  have "n' = (if group_agrees fl ms staged src k then n else n + 1)"
    using step by (auto simp: compare_group_eq group_agrees_def list_ex_iff split: option.splits if_splits)
  then show ?case using Cons.IH [of n' w'] step by simp
qed simp

lemma dget_entries: "wf_dict es \<Longrightarrow> dget (dmerge [] es) k = dget es k"
  by (simp add: dget_dmerge split: option.splits)

lemma dkeys_entries: "wf_dict es \<Longrightarrow> set (dkeys (dmerge [] es)) = set (dkeys es)"
  by (auto simp: set_eq_iff dkeys_get dget_entries simp del: set_map)

lemma reconcile_count:
  assumes "run_reconcile rd fl c staging scope (Some srows) = Inr r" and "measures c = Some ms" and "ck_group_by c = Some gs"
  obtains rows S T where "fetch_rows rd (staged_sql c staging scope) = Inr rows"
    and "res_mapM (staged_entry rd (dkeys ms) (length gs)) rows = Inr S"
    and "res_mapM (source_entry rd fl (dkeys ms) gs) srows = Inr T"
    and "cr_passed r = (\<not> trips (int (length (filter (\<lambda>k. \<not> group_agrees fl ms (dmerge [] S) (dmerge [] T) k)
           (dedup (dkeys (dmerge [] S) @ dkeys (dmerge [] T)))))) (threshold c))"
proof -
  obtain rows S T where rows: "fetch_rows rd (staged_sql c staging scope) = Inr rows"
    and S: "res_mapM (staged_entry rd (dkeys ms) (length gs)) rows = Inr S"
    and T: "res_mapM (source_entry rd fl (dkeys ms) gs) srows = Inr T"
    and r: "r = reconcile_result fl c ms (dmerge [] S) (dmerge [] T)"
    using assms unfolding run_reconcile_def Let_def option.case by (auto simp: res_simps)
  have "cr_passed r = (\<not> trips (int (length (filter (\<lambda>k. \<not> group_agrees fl ms (dmerge [] S) (dmerge [] T) k)
           (dedup (dkeys (dmerge [] S) @ dkeys (dmerge [] T)))))) (threshold c))"
    unfolding r by (simp add: reconcile_result_def Let_def count_groups)
  then show ?thesis using that rows S T by blast
qed

text \<open>
  C25: What a reconciliation shows. For a reconciliation without a threshold whose staged and source
  rows each have one row per group, the check passes exactly when both sides have the same groups and
  in every group every measure of the staged side is within the declared tolerance of the source.
\<close>

theorem reconcile_passes_iff:
  assumes "run_reconcile rd fl c staging scope (Some srows) = Inr r" and "threshold c = None"
    and "measures c = Some ms" and "ck_group_by c = Some gs"
    and "fetch_rows rd (staged_sql c staging scope) = Inr rows"
    and "res_mapM (staged_entry rd (dkeys ms) (length gs)) rows = Inr S" and "wf_dict S"
    and "res_mapM (source_entry rd fl (dkeys ms) gs) srows = Inr T" and "wf_dict T"
  shows "cr_passed r \<longleftrightarrow> set (dkeys S) = set (dkeys T)
    \<and> (\<forall>(key, s)\<in>set S. \<forall>t. dget T key = Some t \<longrightarrow> (\<forall>(m, spec)\<in>set ms.
          within_tolerance fl (distance fl (measured fl s m) (measured fl t m)) (measured fl t m) (measure_tolerance spec)))"
proof -
  have passed: "cr_passed r \<longleftrightarrow> (\<forall>k\<in>set (dkeys S) \<union> set (dkeys T). group_agrees fl ms (dmerge [] S) (dmerge [] T) k)"
  proof (rule reconcile_count [OF assms(1,3,4)])
    fix rows' S' T'
    assume "fetch_rows rd (staged_sql c staging scope) = Inr rows'"
      and "res_mapM (staged_entry rd (dkeys ms) (length gs)) rows' = Inr S'"
      and "res_mapM (source_entry rd fl (dkeys ms) gs) srows = Inr T'"
      and p: "cr_passed r = (\<not> trips (int (length (filter (\<lambda>k. \<not> group_agrees fl ms (dmerge [] S') (dmerge [] T') k)
           (dedup (dkeys (dmerge [] S') @ dkeys (dmerge [] T')))))) (threshold c))"
    then have "S' = S" "T' = T" using assms(5,6,8) by simp_all
    then show ?thesis using p assms(2,7,9) dkeys_entries [of S] dkeys_entries [of T]
      by (simp add: filter_empty_conv del: set_map)
  qed
  have agrees: "group_agrees fl ms (dmerge [] S) (dmerge [] T) k \<longleftrightarrow> (\<exists>s t. dget S k = Some s \<and> dget T k = Some t
      \<and> (\<forall>(m, spec)\<in>set ms. within_tolerance fl (distance fl (measured fl s m) (measured fl t m)) (measured fl t m) (measure_tolerance spec)))" for k
    unfolding group_agrees_def dget_entries [OF assms(7)] dget_entries [OF assms(9)] out_of_tolerance_def by (simp add: case_prod_beta)
  have members: "(k, s) \<in> set S \<longleftrightarrow> dget S k = Some s" for k s using assms(7) by (rule wf_dict_get)
  let ?ok = "\<lambda>s t. \<forall>(m, spec)\<in>set ms. within_tolerance fl (distance fl (measured fl s m) (measured fl t m)) (measured fl t m) (measure_tolerance spec)"
  have keys: "k \<in> set (dkeys D) \<longleftrightarrow> (\<exists>v. dget D k = Some v)" for k and D :: "('v list \<times> (string \<times> 'f) list) list"
    by (rule dkeys_get)
  have "(\<forall>k\<in>set (dkeys S) \<union> set (dkeys T). \<exists>s t. dget S k = Some s \<and> dget T k = Some t \<and> ?ok s t) \<longleftrightarrow>
      set (dkeys S) = set (dkeys T) \<and> (\<forall>k s. dget S k = Some s \<longrightarrow> (\<forall>t. dget T k = Some t \<longrightarrow> ?ok s t))"
    (is "?L \<longleftrightarrow> ?R")
  proof
    assume L: ?L
    have both: "\<exists>s t. dget S k = Some s \<and> dget T k = Some t \<and> ?ok s t" if "k \<in> set (dkeys S) \<or> k \<in> set (dkeys T)" for k
      using L that by blast
    have "k \<in> set (dkeys S) \<longleftrightarrow> k \<in> set (dkeys T)" for k
    proof
      assume "k \<in> set (dkeys S)"
      then show "k \<in> set (dkeys T)" using both [of k] keys [of k T] by blast
    next
      assume "k \<in> set (dkeys T)"
      then show "k \<in> set (dkeys S)" using both [of k] keys [of k S] by blast
    qed
    moreover have "?ok s t" if st: "dget S k = Some s" "dget T k = Some t" for k s t
    proof -
      have "k \<in> set (dkeys S)" using st keys by blast
      then obtain s' t' where "dget S k = Some s'" "dget T k = Some t'" "?ok s' t'" using both by blast
      then show ?thesis using st by simp
    qed
    ultimately show ?R by blast
  next
    assume R: ?R
    show ?L
    proof
      fix k assume "k \<in> set (dkeys S) \<union> set (dkeys T)"
      then obtain s t where "dget S k = Some s" "dget T k = Some t" using R keys [of k S] keys [of k T] by blast
      then show "\<exists>s t. dget S k = Some s \<and> dget T k = Some t \<and> ?ok s t" using R by blast
    qed
  qed
  moreover have "(\<forall>k s. dget S k = Some s \<longrightarrow> (\<forall>t. dget T k = Some t \<longrightarrow> ?ok s t))
      \<longleftrightarrow> (\<forall>(key, s)\<in>set S. \<forall>t. dget T key = Some t \<longrightarrow> ?ok s t)"
    unfolding members [symmetric] by blast
  ultimately show ?thesis unfolding passed agrees by (simp only:)
qed

text \<open>
  C26: The gate fails closed. A run of the checks that does not block the swap has run every check of
  severity \<open>error\<close> without an exception, and none of them tripped its threshold.
\<close>

theorem unblocked_run_passed_every_error_check:
  assumes "run_checks rd fl b period load_id totals = Inr run" and "\<not> blocked run"
  shows "\<exists>scope. staging_scope b period load_id = Inr scope
    \<and> (\<forall>c\<in>set (checks b). ck_severity c = Error \<longrightarrow>
          (\<exists>r n. run_check rd fl (staging_target b) scope totals c = Inr r \<and> cr_failing r = Some n \<and> \<not> trips n (threshold c)))"
proof -
  obtain scope rs where scope: "staging_scope b period load_id = Inr scope" and run: "run = \<lparr>verdict = verdict_of rs, results = rs\<rparr>"
    and rs: "res_mapM (guarded_check rd fl (staging_target b) scope totals) (checks b) = Inr rs"
    using assms(1) by (auto simp: run_checks_def res_simps)
  have clean: "cr_passed r" if "r \<in> set rs" "cr_severity r = Error" for r
    using assms(2) that by (auto simp: run blocked_def verdict_of_def list_ex_iff split: if_splits)
  have "\<exists>r n. run_check rd fl (staging_target b) scope totals c = Inr r \<and> cr_failing r = Some n \<and> \<not> trips n (threshold c)"
    if c: "c \<in> set (checks b)" "ck_severity c = Error" for c
  proof -
    obtain r where r: "r \<in> set rs" "guarded_check rd fl (staging_target b) scope totals c = Inr r"
      using res_mapM_mem [OF rs c(1)] by blast
    show ?thesis
    proof (cases "run_check rd fl (staging_target b) scope totals c")
      case (Inl e)
      then show ?thesis using r clean [of r] c(2) by (cases e) (auto simp: guarded_check_def)
    next
      case (Inr q)
      have "cr_severity q = ck_severity c \<and> (\<exists>n. cr_failing q = Some n \<and> cr_passed q = (\<not> trips n (threshold c)))"
        using Inr by (auto simp: run_check_def run_reconcile_def reconcile_result_def Let_def res_simps split: if_splits option.splits)
      then show ?thesis using Inr r clean [of r] c(2) by (auto simp: guarded_check_def)
    qed
  qed
  then show ?thesis using scope by blast
qed

section \<open>Examples\<close>

text \<open>Whole numbers in place of floats, and a store whose staged side has one row of the sum per company.\<close>

definition whole :: "int floats" where
  "whole = \<lparr>distance = (\<lambda>x y. abs (x - y)), magnitude = abs, quotient = (\<lambda>x y. x div y), at_most = (\<le>), exceeds = (>),
     float_zero = 0, minus_one = - 1\<rparr>"

definition sums_store :: "int list list \<Rightarrow> (int, int) store_reader" where
  "sums_store rows = \<lparr>count_rows = (\<lambda>q. Inr (Some 0)), fetch_rows = (\<lambda>q. Inr rows), number = Some\<rparr>"

definition sum_check :: "int check" where
  "sum_check = \<lparr>ck_name = ''totals'', ck_severity = Error, ck_where = None, threshold = None, ck_type = Some Reconcile, ck_sql = None,
     column = None, columns = None, accepted = None, min_bound = None, max_bound = None, references = None, ck_expression = None,
     ck_group_by = Some [''company''], measures = Some [(''amount'', \<lparr>measure_expr = ''sum(amount)'', measure_tolerance = [AbsTolerance 1]\<rparr>)],
     source_query = Some ''SELECT''\<rparr>"

definition sum_binding :: "int binding" where
  "sum_binding = \<lparr>bd_id = ''gl_erp'', bd_source = ''erp'', bd_target = ''live.fact_gl'', bd_scenario = ''ACT'', bd_kind = Snapshot,
     bd_schedule = \<lparr>sched_mode = Cron, cron_expression = Some ''0 6 * * *'', sched_timezone = Some ''UTC'',
       selection = \<lparr>sel_strategy = Lookback, lookback_periods = 3\<rparr>, push_auth = None, sched_watch = None\<rparr>,
     extract_query = ''SELECT'', checks = [sum_check]\<rparr>"

lemma sum_check_simps:
  "measures sum_check = Some [(''amount'', \<lparr>measure_expr = ''sum(amount)'', measure_tolerance = [AbsTolerance 1]\<rparr>)]"
  "ck_group_by sum_check = Some [''company'']" "threshold sum_check = None" "ck_name sum_check = ''totals''"
  "ck_type sum_check = Some Reconcile" "ck_severity sum_check = Error"
  by (simp_all add: sum_check_def)

theorem reconcile_passes_iff_witness:
  "\<exists>r. run_reconcile (sums_store [[1, 100], [2, 51]]) whole sum_check ''staging.fact_gl'' ''all''
       (Some [[(''company'', 2), (''amount'', 50)], [(''company'', 1), (''amount'', 100)]]) = Inr r \<and> cr_passed r"
proof -
  let ?S = "[([1], [(''amount'', 100)]), ([2], [(''amount'', 51)])] :: (int list \<times> (string \<times> int) list) list"
    and ?T = "[([2], [(''amount'', 50)]), ([1], [(''amount'', 100)])] :: (int list \<times> (string \<times> int) list) list"
  let ?src = "[[(''company'', 2), (''amount'', 50)], [(''company'', 1), (''amount'', 100)]] :: (string \<times> int) list list"
  have S: "res_mapM (staged_entry (sums_store [[1, 100], [2, 51]]) [''amount''] 1) [[1, 100], [2, 51]] = Inr ?S"
    by (simp add: staged_entry_def sums_store_def as_number_def)
  have T: "res_mapM (source_entry (sums_store [[1, 100], [2, 51]]) whole [''amount''] [''company'']) ?src = Inr ?T"
    by (simp add: source_entry_def sums_store_def as_number_def)
  have rows: "fetch_rows (sums_store [[1, 100], [2, 51]]) q = Inr [[1, 100], [2, 51]]" for q
    by (simp add: sums_store_def)
  obtain r where run: "run_reconcile (sums_store [[1, 100], [2, 51]]) whole sum_check ''staging.fact_gl'' ''all'' (Some ?src) = Inr r"
    unfolding run_reconcile_def sum_check_simps Let_def using S T rows by simp
  have "cr_passed r"
    using reconcile_passes_iff [OF run sum_check_simps(3,1,2) rows, of ?S ?T] S T
    by (auto simp: wf_dict_def whole_def within_tolerance_def measured_def dget_or_def)
  then show ?thesis using run by blast
qed

lemma totals_agree:
  "cr_passed (reconcile_result whole sum_check [(''amount'', \<lparr>measure_expr = ''sum(amount)'', measure_tolerance = [AbsTolerance 1]\<rparr>)]
     (dmerge [] [([1 :: int], [(''amount'', 100)])]) (dmerge [] [([1], [(''amount'', 100)])]))"
  "cr_failing (reconcile_result whole sum_check [(''amount'', \<lparr>measure_expr = ''sum(amount)'', measure_tolerance = [AbsTolerance 1]\<rparr>)]
     (dmerge [] [([1 :: int], [(''amount'', 100)])]) (dmerge [] [([1], [(''amount'', 100)])])) = Some 0"
  "cr_severity (reconcile_result whole sum_check ms S T) = Error"
  by (code_simp, code_simp, simp add: reconcile_result_def sum_check_simps Let_def)

theorem unblocked_run_passed_every_error_check_witness:
  "\<exists>scope r. run_check (sums_store [[1, 100]]) whole ''staging.fact_gl'' scope
       [(''totals'', [[(''company'', 1), (''amount'', 100)]])] sum_check = Inr r \<and> cr_failing r = Some 0"
proof -
  let ?rd = "sums_store [[1, 100]]" and ?totals = "[(''totals'', [[(''company'', 1), (''amount'', 100 :: int)]])]"
  have rows: "fetch_rows ?rd q = Inr [[1, 100]]" for q by (simp add: sums_store_def)
  have S: "res_mapM (staged_entry ?rd [''amount''] 1) [[1, 100]] = Inr [([1], [(''amount'', 100)])]"
    by (simp add: staged_entry_def sums_store_def as_number_def)
  have T: "res_mapM (source_entry ?rd whole [''amount''] [''company'']) [[(''company'', 1), (''amount'', 100)]] = Inr [([1], [(''amount'', 100)])]"
    by (simp add: source_entry_def sums_store_def as_number_def)
  have rec: "\<exists>r. run_reconcile ?rd whole sum_check t scope (Some [[(''company'', 1), (''amount'', 100)]]) = Inr r \<and> cr_passed r
       \<and> cr_failing r = Some 0 \<and> cr_severity r = Error" for t scope
    unfolding run_reconcile_def sum_check_simps Let_def using S T rows totals_agree by simp
  then obtain rr where rr: "\<And>t scope. run_check ?rd whole t scope ?totals sum_check = Inr (rr t scope)"
      "\<And>t scope. cr_passed (rr t scope) \<and> cr_failing (rr t scope) = Some 0"
    unfolding run_check_def sum_check_simps by simp metis
  have target: "staging_target sum_binding = ''staging.fact_gl''" by code_simp
  have scope: "\<exists>scope. staging_scope sum_binding None ''L2'' = Inr scope"
    by (simp add: staging_scope_def sum_binding_def)
  have "checks sum_binding = [sum_check]" by (simp add: sum_binding_def)
  then obtain run where run: "run_checks ?rd whole sum_binding None ''L2'' ?totals = Inr run" "\<not> blocked run"
    using scope rr by (auto simp: run_checks_def guarded_check_def blocked_def verdict_of_def)
  show ?thesis using unblocked_run_passed_every_error_check [OF run] rr scope target by (auto simp: sum_check_simps)
qed

end
