(* ===== verification/Ingestion.thy ===== *)
theory Ingestion
  imports Checks
begin

text \<open>
  One ingestion run, \<open>run_binding\<close> of \<open>ingestion/orchestrator.py\<close>, with the stages it drives: the
  extract into staging (\<open>ibis_executor.py\<close>), the shape validation (\<open>validate.py\<close>), the data-quality
  checks, the swap into live (\<open>swap.py\<close>), the row of \<open>load_history\<close> it keeps (\<open>load_history.py\<close>) and
  the advisory lock around it (\<open>pg_lock.py\<close>). Every statement may raise: an action takes the state of
  the world and gives back the new state with a value or an exception, so that an exception keeps the
  effects made before it, as in Python. What lies outside, the warehouse, the source, the catalogue
  refresh and the failures of PostgreSQL, is a record of functions.
\<close>

section \<open>Actions that may raise\<close>

datatype exn =
    ValueError string
  | ConfigError config_error
  | ExecutorError string
  | ValidationError string
  | RuntimeError string
  | SwapError string
  | CheckFault check_fault
  | InferenceError string
  | OtherError string

(* ingestion/load_history.py:102-129 insert_attempt *)
record load_row =
  lh_binding :: string
  lh_source :: string
  lh_dataset :: string
  lh_period :: string
  lh_scenario :: string
  lh_triggered_by :: string
  lh_notes :: "string option"
  lh_status :: string
  rows_landed :: "int option"
  control_total_result :: "verdict option"
  swap_committed :: bool
  dbt_refreshed :: bool
  lh_started :: int
  finished :: bool
  error_message :: "string option"

record 'w world =
  warehouse :: 'w
  load_history :: "(string, load_row) dict"
  locks :: "int list"

type_synonym ('w, 'a) act = "'w world \<Rightarrow> 'w world \<times> (exn, 'a) res"

definition give :: "'a \<Rightarrow> ('w, 'a) act" where
  "give x = (\<lambda>s. (s, Inr x))"

definition lift_res :: "(exn, 'a) res \<Rightarrow> ('w, 'a) act" where
  "lift_res r = (\<lambda>s. (s, r))"

definition andthen :: "('w, 'a) act \<Rightarrow> ('a \<Rightarrow> ('w, 'b) act) \<Rightarrow> ('w, 'b) act" where
  "andthen m f = (\<lambda>s. case m s of (s1, Inl e) \<Rightarrow> (s1, Inl e) | (s1, Inr x) \<Rightarrow> f x s1)"

text \<open>\<open>try: m except ...: h\<close>, with the exceptions \<open>catches\<close> accepts.\<close>

definition try_except :: "('w, 'a) act \<Rightarrow> (exn \<Rightarrow> bool) \<Rightarrow> (exn \<Rightarrow> ('w, 'a) act) \<Rightarrow> ('w, 'a) act" where
  "try_except m catches h = (\<lambda>s. case m s of (s1, Inl e) \<Rightarrow> if catches e then h e s1 else (s1, Inl e) | out \<Rightarrow> out)"

text \<open>\<open>try: m finally: cleanup\<close>, where the cleanup never raises.\<close>

definition and_finally :: "('w, 'a) act \<Rightarrow> ('w world \<Rightarrow> 'w world) \<Rightarrow> ('w, 'a) act" where
  "and_finally m cleanup = (\<lambda>s. case m s of (s1, r) \<Rightarrow> (cleanup s1, r))"

section \<open>The environment\<close>

text \<open>A row of the source, and the row it becomes in the warehouse.\<close>

record 'r extracted =
  ex_period :: string
  ex_data :: 'r

record 'r landed =
  row_period :: string
  row_data :: 'r
  load_tag :: string

definition tag :: "string \<Rightarrow> 'r extracted \<Rightarrow> 'r landed" where
  "tag load_id r = \<lparr>row_period = ex_period r, row_data = ex_data r, load_tag = load_id\<rparr>"

text \<open>The statements the program sends to the warehouse.\<close>

datatype 'r command =
    DropPartition string string
  | TruncateIfExists string
  | InsertRows string "'r landed list"
  | ReplacePartition string string string
  | ExchangeTables string string

datatype history_op = InsertAttempt | RecordExtract | RecordSwap | RecordChecks | RecordRefresh | Finalise string | FindRunning
  | LastScheduled | LatestPeriod | WatchKeys

text \<open>
  \<open>exec\<close> gives the warehouse after a statement, also when the statement raises; \<open>columns_of\<close> is the
  answer of \<open>system.columns\<close>; the two source functions run a rendered query on the backend of a source;
  \<open>history_error\<close> and \<open>lock_error\<close> say which calls to PostgreSQL raise; \<open>hashtext\<close> is its hash function
  and \<open>clock\<close> its time, the default of \<open>started_at\<close>.
\<close>

record ('w, 'r, 'v, 'f) env =
  exec :: "'w \<Rightarrow> 'r command \<Rightarrow> 'w \<times> exn option"
  columns_of :: "'w \<Rightarrow> string \<Rightarrow> string \<Rightarrow> (exn, (string \<times> string) list) res"
  check_reader :: "'w \<Rightarrow> ('v, 'f) store_reader"
  float_ops :: "'f floats"
  backend_error :: "string \<Rightarrow> exn option"
  source_path :: "string \<Rightarrow> string option"
  extract_rows :: "string \<Rightarrow> string \<Rightarrow> (exn, 'r extracted list) res"
  total_rows :: "string \<Rightarrow> string \<Rightarrow> (exn, (string, 'v) dict list) res"
  refresh_hierarchies :: "('w \<Rightarrow> 'w \<times> exn option) option"
  history_error :: "history_op \<Rightarrow> exn option"
  lock_error :: "exn option"
  hashtext :: "string \<Rightarrow> int"
  new_load_id :: string
  clock :: int
  this_month :: string

definition raise_if :: "exn option \<Rightarrow> (exn, unit) res" where
  "raise_if e = (case e of None \<Rightarrow> Inr () | Some x \<Rightarrow> Inl x)"

definition command :: "('w, 'r, 'v, 'f) env \<Rightarrow> 'r command \<Rightarrow> ('w, unit) act" where
  "command env c = (\<lambda>s. case exec env (warehouse s) c of (w, e) \<Rightarrow> (s\<lparr>warehouse := w\<rparr>, raise_if e))"

section \<open>Extract\<close>

definition month_codes :: "string list" where
  "month_codes = map (\<lambda>k. fmt_int 2 k) [1..13]"

text \<open>\<open>^\d{4}-(?:0[1-9]|1[0-2]|13)(?:-ADJ)?$\<close>\<close>

(* ingestion/ibis_executor.py:64-64 _PERIOD_RE *)
definition period_re :: "string \<Rightarrow> bool" where
  "period_re s =
     (let t = (if endswith s [CHR 0x0A] then butlast s else s);
          u = (if endswith t ''-ADJ'' then strip_suffix t ''-ADJ'' else t)
      in length u = 7 \<and> digit_text (take 4 u) \<and> u ! 4 = CHR ''-'' \<and> drop 5 u \<in> set month_codes)"

(* ingestion/ibis_executor.py:195-220 _validate_period_args *)
definition validate_period_args :: "kind \<Rightarrow> string option \<Rightarrow> (exn, unit) res" where
  "validate_period_args k period =
     (case (k, period) of
        (Period, None) \<Rightarrow> Inl (ExecutorError ''period required'')
      | (Period, Some p) \<Rightarrow> res_guard (period_re p) (ExecutorError ''period format'')
      | (Snapshot, Some p) \<Rightarrow> Inl (ExecutorError ''period given'')
      | (Snapshot, None) \<Rightarrow> Inr ())"

text \<open>The table of the same name in the staging schema.\<close>

definition twin :: "string \<Rightarrow> string" where
  "twin target = ''staging.'' @ drop 5 target"

(* ingestion/ibis_executor.py:223-231 _staging_table *)
definition staging_table :: "string \<Rightarrow> (exn, string) res" where
  "staging_table target =
     (if startswith target ''live.'' then Inr (twin target) else Inl (ExecutorError ''target''))"

(* ingestion/ibis_executor.py:234-255 _render_source_query *)
definition render_source_query :: "string \<Rightarrow> string option \<Rightarrow> (string, string) dict \<Rightarrow> string" where
  "render_source_query q period vars =
     fold (\<lambda>(name, v) q. replace_all (''${'' @ name @ ''}'') v q) vars
       (case period of None \<Rightarrow> q | Some p \<Rightarrow> replace_all '':period'' ([quote] @ p @ [quote]) q)"

(* ingestion/ibis_executor.py:124-131 execute *)
definition clear_staging :: "('w, 'r, 'v, 'f) env \<Rightarrow> kind \<Rightarrow> string option \<Rightarrow> string \<Rightarrow> ('w, unit) act" where
  "clear_staging env k period staging =
     command env (case (k, period) of (Period, Some p) \<Rightarrow> DropPartition staging p | _ \<Rightarrow> TruncateIfExists staging)"

(* ingestion/ibis_executor.py:81-187 execute *)
definition execute ::
  "('w, 'r, 'v, 'f) env \<Rightarrow> 'f binding \<Rightarrow> string option \<Rightarrow> string \<Rightarrow> (string, string) dict \<Rightarrow> ('w, int) act" where
  "execute env b period load_id vars =
     andthen (lift_res (validate_period_args (bd_kind b) period))
       (\<lambda>_. andthen (lift_res (staging_table (bd_target b)))
         (\<lambda>staging. andthen (clear_staging env (bd_kind b) period staging)
           (\<lambda>_. case extract_rows env (bd_source b) (render_source_query (extract_query b) period vars) of
                  Inl e \<Rightarrow> lift_res (Inl (ExecutorError ''source query''))
                | Inr rs \<Rightarrow>
                    (if rs = [] then give 0
                     else try_except (andthen (command env (InsertRows staging (map (tag load_id) rs))) (\<lambda>_. give (int (length rs))))
                            (\<lambda>_. True) (\<lambda>e. lift_res (Inl (ExecutorError ''staging insert'')))))))"

section \<open>Shape validation\<close>

(* ingestion/validate.py:45-54 ValidationResult *)
record shape_diff =
  missing_in_staging :: "string list"
  extra_in_staging :: "string list"
  type_mismatches :: "(string \<times> string \<times> string) list"

definition shape_passed :: "shape_diff \<Rightarrow> bool" where
  "shape_passed d = (missing_in_staging d = [] \<and> extra_in_staging d = [] \<and> type_mismatches d = [])"

(* ingestion/validate.py:180-184 _normalise_type *)
definition normalise_type :: "string \<Rightarrow> string" where
  "normalise_type t = filter (\<lambda>c. \<not> is_space c) t"

(* ingestion/validate.py:164-177 _read_column_shape *)
definition read_column_shape ::
  "('w, 'r, 'v, 'f) env \<Rightarrow> 'w \<Rightarrow> string \<Rightarrow> string \<Rightarrow> (exn, (string, string) dict option) res" where
  "read_column_shape env w database table =
     res_map (\<lambda>rows. if rows = [] then None else Some (dmerge [] rows)) (columns_of env w database table)"

(* ingestion/validate.py:113-124 validate_staging_shape *)
definition diff_shapes :: "(string, string) dict \<Rightarrow> (string, string) dict \<Rightarrow> shape_diff" where
  "diff_shapes live staging =
     \<lparr>missing_in_staging = sorted_diff (dkeys live) (dkeys staging),
      extra_in_staging = sorted_diff (dkeys staging) (dkeys live),
      type_mismatches =
        map (\<lambda>col. (col, dget_or [] live col, dget_or [] staging col))
          (filter (\<lambda>col. normalise_type (dget_or [] live col) \<noteq> normalise_type (dget_or [] staging col))
            (sorted_inter (dkeys live) (dkeys staging)))\<rparr>"

(* ingestion/validate.py:77-156 validate_staging_shape *)
definition validate_staging_shape :: "('w, 'r, 'v, 'f) env \<Rightarrow> 'w \<Rightarrow> string \<Rightarrow> (exn, shape_diff) res" where
  "validate_staging_shape env w target =
     (if \<not> startswith target ''live.'' then Inl (ValidationError ''target'')
      else let table = drop 5 target
        in res_bind (read_column_shape env w ''live'' table)
          (\<lambda>live. res_bind (read_column_shape env w ''staging'' table)
            (\<lambda>staging. case (live, staging) of
               (None, _) \<Rightarrow> Inl (ValidationError ''live table'')
             | (Some _, None) \<Rightarrow> Inl (ValidationError ''staging table'')
             | (Some l, Some g) \<Rightarrow> Inr (diff_shapes l g))))"

section \<open>Swap\<close>

(* ingestion/swap.py:198-205 _staging_for *)
definition staging_for :: "string \<Rightarrow> (exn, string) res" where
  "staging_for target =
     (if startswith target ''live.'' then Inr (twin target) else Inl (SwapError ''target''))"

(* ingestion/swap.py:123-158 _swap_partition *)
definition swap_partition :: "('w, 'r, 'v, 'f) env \<Rightarrow> string \<Rightarrow> string \<Rightarrow> ('w, unit) act" where
  "swap_partition env period target =
     andthen (lift_res (staging_for target))
       (\<lambda>staging. andthen (command env (ReplacePartition target period staging))
         (\<lambda>_. command env (DropPartition staging period)))"

(* ingestion/swap.py:161-190 _swap_snapshot *)
definition swap_snapshot :: "('w, 'r, 'v, 'f) env \<Rightarrow> string \<Rightarrow> ('w, unit) act" where
  "swap_snapshot env target =
     andthen (lift_res (staging_for target)) (\<lambda>staging. command env (ExchangeTables target staging))"

(* ingestion/swap.py:76-115 swap *)
definition do_swap :: "('w, 'r, 'v, 'f) env \<Rightarrow> kind \<Rightarrow> string option \<Rightarrow> string \<Rightarrow> ('w, unit) act" where
  "do_swap env k period target =
     (case (k, period) of
        (Period, None) \<Rightarrow> lift_res (Inl (SwapError ''period required''))
      | (Period, Some p) \<Rightarrow> swap_partition env p target
      | (Snapshot, Some p) \<Rightarrow> lift_res (Inl (SwapError ''period given''))
      | (Snapshot, None) \<Rightarrow> swap_snapshot env target)"

section \<open>Load history\<close>

definition history_step ::
  "('w, 'r, 'v, 'f) env \<Rightarrow> history_op \<Rightarrow> ((string, load_row) dict \<Rightarrow> (exn, (string, load_row) dict) res) \<Rightarrow> ('w, unit) act" where
  "history_step env op f = (\<lambda>s.
     case res_bind (raise_if (history_error env op)) (\<lambda>_. f (load_history s)) of
       Inl e \<Rightarrow> (s, Inl e)
     | Inr h \<Rightarrow> (s\<lparr>load_history := h\<rparr>, Inr ()))"

text \<open>\<open>UPDATE ... WHERE load_id = id\<close>: nothing happens when there is no such row.\<close>

definition update_row :: "string \<Rightarrow> (load_row \<Rightarrow> load_row) \<Rightarrow> (string, load_row) dict \<Rightarrow> (string, load_row) dict" where
  "update_row load_id f h = (case dget h load_id of None \<Rightarrow> h | Some row \<Rightarrow> dset load_id (f row) h)"

(* ingestion/load_history.py:105-133 insert_attempt *)
definition insert_attempt ::
  "('w, 'r, 'v, 'f) env \<Rightarrow> string \<Rightarrow> 'f binding \<Rightarrow> source \<Rightarrow> string \<Rightarrow> string \<Rightarrow> string option \<Rightarrow> ('w, unit) act" where
  "insert_attempt env load_id b src period triggered_by notes =
     history_step env InsertAttempt
       (\<lambda>h. if dhas load_id h then Inl (OtherError ''duplicate key'')
            else Inr (dset load_id
              \<lparr>lh_binding = bd_id b, lh_source = src_id src, lh_dataset = table_name b, lh_period = period,
               lh_scenario = bd_scenario b, lh_triggered_by = triggered_by, lh_notes = notes, lh_status = ''running'',
               rows_landed = None, control_total_result = None, swap_committed = False, dbt_refreshed = False, lh_started = clock env, finished = False, error_message = None\<rparr> h))"

(* ingestion/load_history.py:135-149 record_extract *)
definition record_extract :: "('w, 'r, 'v, 'f) env \<Rightarrow> string \<Rightarrow> int \<Rightarrow> ('w, unit) act" where
  "record_extract env load_id n = history_step env RecordExtract (\<lambda>h. Inr (update_row load_id (\<lambda>r. r\<lparr>rows_landed := Some n\<rparr>) h))"

(* ingestion/load_history.py:151-159 record_swap *)
definition record_swap :: "('w, 'r, 'v, 'f) env \<Rightarrow> string \<Rightarrow> ('w, unit) act" where
  "record_swap env load_id = history_step env RecordSwap (\<lambda>h. Inr (update_row load_id (\<lambda>r. r\<lparr>swap_committed := True\<rparr>) h))"

(* ingestion/load_history.py:161-171 record_checks *)
definition record_checks :: "('w, 'r, 'v, 'f) env \<Rightarrow> string \<Rightarrow> verdict \<Rightarrow> ('w, unit) act" where
  "record_checks env load_id v =
     history_step env RecordChecks (\<lambda>h. Inr (update_row load_id (\<lambda>r. r\<lparr>control_total_result := Some v\<rparr>) h))"

(* ingestion/load_history.py:173-181 record_dbt_refresh *)
definition record_dbt_refresh :: "('w, 'r, 'v, 'f) env \<Rightarrow> string \<Rightarrow> ('w, unit) act" where
  "record_dbt_refresh env load_id = history_step env RecordRefresh (\<lambda>h. Inr (update_row load_id (\<lambda>r. r\<lparr>dbt_refreshed := True\<rparr>) h))"

(* ingestion/load_history.py:183-203 finalise *)
definition finalise :: "('w, 'r, 'v, 'f) env \<Rightarrow> string \<Rightarrow> string \<Rightarrow> string option \<Rightarrow> ('w, unit) act" where
  "finalise env load_id status msg =
     history_step env (Finalise status)
       (\<lambda>h. Inr (update_row load_id (\<lambda>r. r\<lparr>lh_status := status, finished := True, error_message := msg\<rparr>) h))"

text \<open>The most recent attempt of the binding that still runs; rows are kept in the order they were inserted.\<close>

(* ingestion/load_history.py:205-216 find_running_for_binding *)
definition find_running_for_binding :: "('w, 'r, 'v, 'f) env \<Rightarrow> string \<Rightarrow> ('w, string option) act" where
  "find_running_for_binding env binding_id = (\<lambda>s.
     case history_error env FindRunning of
       Some e \<Rightarrow> (s, Inl e)
     | None \<Rightarrow> (s, Inr (map_option fst (List.find (\<lambda>(_, r). lh_binding r = binding_id \<and> lh_status r = ''running'') (rev (load_history s))))))"

section \<open>The lock\<close>

text \<open>
  A session lock of PostgreSQL on the hash of the key. The run either gets it within the bounded wait
  or not; while another session holds it the answer is no.
\<close>

(* ingestion/pg_lock.py:62-83 acquire *)
definition acquire_lock :: "('w, 'r, 'v, 'f) env \<Rightarrow> string \<Rightarrow> ('w, bool) act" where
  "acquire_lock env key = (\<lambda>s.
     case lock_error env of
       Some e \<Rightarrow> (s, Inl e)
     | None \<Rightarrow> if hashtext env key \<in> set (locks s) then (s, Inr False)
               else (s\<lparr>locks := hashtext env key # locks s\<rparr>, Inr True))"

(* ingestion/pg_lock.py:85-101 release *)
definition release_lock :: "('w, 'r, 'v, 'f) env \<Rightarrow> string \<Rightarrow> 'w world \<Rightarrow> 'w world" where
  "release_lock env key s = s\<lparr>locks := remove1 (hashtext env key) (locks s)\<rparr>"

section \<open>The run\<close>

(* ingestion/orchestrator.py:100-109 LoadAttemptResult *)
record attempt =
  at_load_id :: string
  at_status :: string
  at_rows :: "int option"
  at_error :: "string option"
  stopped_after :: "string option"

(* ingestion/orchestrator.py:233-234 _STAGE_ORDER *)
definition STAGE_ORDER :: "string list" where
  "STAGE_ORDER = [''extract'', ''validate'', ''swap'']"

fun exn_text :: "exn \<Rightarrow> string" where
  "exn_text (ValueError m) = m"
| "exn_text (ConfigError c) = ''integration config''"
| "exn_text (ExecutorError m) = m"
| "exn_text (ValidationError m) = m"
| "exn_text (RuntimeError m) = m"
| "exn_text (SwapError m) = m"
| "exn_text (CheckFault (CheckError m)) = m"
| "exn_text (CheckFault (QueryError m)) = m"
| "exn_text (InferenceError m) = m"
| "exn_text (OtherError m) = m"

text \<open>The end of a failed stage: the row is finalised and the failure is the value of the run.\<close>

definition fail ::
  "('w, 'r, 'v, 'f) env \<Rightarrow> string \<Rightarrow> string \<Rightarrow> int option \<Rightarrow> string \<Rightarrow> ('w, attempt) act" where
  "fail env load_id status n msg =
     andthen (finalise env load_id status (Some msg))
       (\<lambda>_. give \<lparr>at_load_id = load_id, at_status = status, at_rows = n, at_error = Some msg, stopped_after = None\<rparr>)"

(* ingestion/orchestrator.py:237-267 _early_finalise *)
definition early_finalise :: "('w, 'r, 'v, 'f) env \<Rightarrow> string \<Rightarrow> string \<Rightarrow> int option \<Rightarrow> ('w, attempt) act" where
  "early_finalise env load_id stage n =
     andthen (finalise env load_id ''success'' None)
       (\<lambda>_. give \<lparr>at_load_id = load_id, at_status = ''success'', at_rows = n, at_error = None, stopped_after = Some stage\<rparr>)"

text \<open>
  \<open>try: x = stage except ...: return failure\<close> followed by the rest of the run: the failure skips the rest.
\<close>

definition stage :: "('w, 'a) act \<Rightarrow> (exn \<Rightarrow> bool) \<Rightarrow> (exn \<Rightarrow> ('w, attempt) act) \<Rightarrow> ('a \<Rightarrow> ('w, attempt) act) \<Rightarrow> ('w, attempt) act" where
  "stage m catches failure rest =
     andthen (try_except (andthen m (\<lambda>x. give (Inr x))) catches (\<lambda>e. andthen (failure e) (\<lambda>a. give (Inl a))))
       (\<lambda>out. case out of Inl a \<Rightarrow> give a | Inr x \<Rightarrow> rest x)"

(* ingestion/orchestrator.py:394-396 run_binding *)
definition template_vars :: "('w, 'r, 'v, 'f) env \<Rightarrow> string \<Rightarrow> (string, string) dict" where
  "template_vars env source_id =
     (case source_path env source_id of None \<Rightarrow> [] | Some p \<Rightarrow> if p = [] then [] else [(''source_path'', p)])"

(* ingestion/orchestrator.py:412-420 run_binding *)
definition capture_totals ::
  "('w, 'r, 'v, 'f) env \<Rightarrow> 'f binding \<Rightarrow> string option \<Rightarrow> (exn, (string, (string, 'v) dict list) dict) res" where
  "capture_totals env b period =
     res_foldM (\<lambda>acc rc. res_map (\<lambda>rows. dset (ck_name rc) rows acc)
         (total_rows env (bd_source b) (render_source_query (text_of (source_query rc)) period (template_vars env (bd_source b)))))
       [] (reconcile_checks b)"

(* ingestion/orchestrator.py:390-427 run_binding *)
definition extract_stage ::
  "('w, 'r, 'v, 'f) env \<Rightarrow> 'f binding \<Rightarrow> string option \<Rightarrow> string \<Rightarrow> ('w, int \<times> (string, (string, 'v) dict list) dict) act" where
  "extract_stage env b period load_id =
     andthen (lift_res (raise_if (backend_error env (bd_source b))))
       (\<lambda>_. andthen (execute env b period load_id (template_vars env (bd_source b)))
         (\<lambda>n. lift_res (res_map (Pair n) (capture_totals env b period))))"

(* ingestion/orchestrator.py:489-500 run_binding *)
definition validate_stage :: "('w, 'r, 'v, 'f) env \<Rightarrow> 'f binding \<Rightarrow> ('w, unit) act" where
  "validate_stage env b = (\<lambda>s.
     (s, res_bind (validate_staging_shape env (warehouse s) (bd_target b))
        (\<lambda>d. res_guard (shape_passed d) (RuntimeError ''Shape validation failed''))))"

(* ingestion/orchestrator.py:528-536 run_binding *)
definition checks_stage ::
  "('w, 'r, 'v, 'f) env \<Rightarrow> 'f binding \<Rightarrow> string option \<Rightarrow> string \<Rightarrow> (string, (string, 'v) dict list) dict \<Rightarrow> ('w, 'f check_run) act" where
  "checks_stage env b period load_id totals = (\<lambda>s.
     (s, res_wrap CheckFault (run_checks (check_reader env (warehouse s)) (float_ops env) b period load_id totals)))"

(* ingestion/orchestrator.py:582-597 run_binding *)
definition swap_stage :: "('w, 'r, 'v, 'f) env \<Rightarrow> 'f binding \<Rightarrow> string option \<Rightarrow> string \<Rightarrow> ('w, unit) act" where
  "swap_stage env b period load_id =
     andthen (do_swap env (bd_kind b) period (bd_target b))
       (\<lambda>_. andthen (record_swap env load_id)
         (\<lambda>_. case (bd_kind b, refresh_hierarchies env) of
                (Snapshot, Some refresh) \<Rightarrow> (\<lambda>s. case refresh (warehouse s) of (w, e) \<Rightarrow> (s\<lparr>warehouse := w\<rparr>, raise_if e))
              | _ \<Rightarrow> give ()))"

(* ingestion/orchestrator.py:582-625 run_binding *)
definition publish ::
  "('w, 'r, 'v, 'f) env \<Rightarrow> 'f binding \<Rightarrow> string option \<Rightarrow> string \<Rightarrow> int \<Rightarrow> ('w, attempt) act" where
  "publish env b period load_id n =
     stage (swap_stage env b period load_id) (\<lambda>_. True)
       (\<lambda>e. fail env load_id ''failed_swap'' (Some n) (''Swap failed: '' @ exn_text e))
       (\<lambda>_. andthen (finalise env load_id ''success'' None)
         (\<lambda>_. give \<lparr>at_load_id = load_id, at_status = ''success'', at_rows = Some n, at_error = None, stopped_after = None\<rparr>))"

(* ingestion/orchestrator.py:576-580 run_binding *)
definition after_checks ::
  "('w, 'r, 'v, 'f) env \<Rightarrow> 'f binding \<Rightarrow> string option \<Rightarrow> string \<Rightarrow> string option \<Rightarrow> int \<Rightarrow> ('w, attempt) act" where
  "after_checks env b period load_id stop_after n =
     (if stop_after = Some ''validate'' then early_finalise env load_id ''validate'' (Some n)
      else publish env b period load_id n)"

(* ingestion/orchestrator.py:522-574 run_binding *)
definition check_gate ::
  "('w, 'r, 'v, 'f) env \<Rightarrow> 'f binding \<Rightarrow> string option \<Rightarrow> string \<Rightarrow> string option \<Rightarrow> int \<Rightarrow> (string, (string, 'v) dict list) dict
     \<Rightarrow> ('w, attempt) act" where
  "check_gate env b period load_id stop_after n totals =
     (if checks b = [] then after_checks env b period load_id stop_after n
      else stage (checks_stage env b period load_id totals) (\<lambda>_. True)
        (\<lambda>e. fail env load_id ''failed_recon'' (Some n) (''Data-quality checks could not run: '' @ exn_text e))
        (\<lambda>run. andthen (record_checks env load_id (verdict run))
          (\<lambda>_. if blocked run then fail env load_id ''failed_checks'' (Some n) ''Data-quality checks failed''
               else after_checks env b period load_id stop_after n)))"

text \<open>Only these two are caught around the shape validation; another exception leaves the run.\<close>

(* ingestion/orchestrator.py:501-501 run_binding *)
fun caught_by_validate :: "exn \<Rightarrow> bool" where
  "caught_by_validate (ValidationError m) = True"
| "caught_by_validate (RuntimeError m) = True"
| "caught_by_validate _ = False"

(* ingestion/orchestrator.py:455-520 run_binding *)
definition after_extract ::
  "('w, 'r, 'v, 'f) env \<Rightarrow> 'f binding \<Rightarrow> string option \<Rightarrow> string \<Rightarrow> string option \<Rightarrow> int \<Rightarrow> (string, (string, 'v) dict list) dict
     \<Rightarrow> ('w, attempt) act" where
  "after_extract env b period load_id stop_after n totals =
     (if stop_after = Some ''extract'' then early_finalise env load_id ''extract'' (Some n)
      else if n = 0 then fail env load_id ''failed_validation'' (Some 0) ''Extract returned 0 rows''
      else stage (validate_stage env b) caught_by_validate
        (\<lambda>e. fail env load_id ''failed_recon'' (Some n) (''Validation failed: '' @ exn_text e))
        (\<lambda>_. check_gate env b period load_id stop_after n totals))"

(* ingestion/orchestrator.py:389-454 run_binding *)
definition locked_run ::
  "('w, 'r, 'v, 'f) env \<Rightarrow> 'f binding \<Rightarrow> string option \<Rightarrow> string \<Rightarrow> string option \<Rightarrow> ('w, attempt) act" where
  "locked_run env b period load_id stop_after =
     stage (extract_stage env b period load_id) (\<lambda>_. True)
       (\<lambda>e. fail env load_id ''failed_extract'' None (''Extract failed: '' @ exn_text e))
       (\<lambda>(n, totals). andthen (record_extract env load_id n) (\<lambda>_. after_extract env b period load_id stop_after n totals))"

(* ingestion/orchestrator.py:361-387 run_binding *)
definition with_lock ::
  "('w, 'r, 'v, 'f) env \<Rightarrow> 'f binding \<Rightarrow> string option \<Rightarrow> string \<Rightarrow> string option \<Rightarrow> ('w, attempt) act" where
  "with_lock env b period load_id stop_after =
     (let key = ''ingest_lock:'' @ bd_id b
      in andthen (acquire_lock env key)
        (\<lambda>got. if got then and_finally (locked_run env b period load_id stop_after) (release_lock env key)
          else andthen (find_running_for_binding env (bd_id b))
            (\<lambda>in_flight. fail env load_id ''failed_other'' None
               (''Lock conflict; in-flight load: '' @ text_of in_flight))))"

(* ingestion/orchestrator.py:302-331 run_binding *)
definition open_attempt ::
  "('w, 'r, 'v, 'f) env \<Rightarrow> 'f binding \<Rightarrow> source \<Rightarrow> string option \<Rightarrow> string \<Rightarrow> string option \<Rightarrow> ('w, unit) act" where
  "open_attempt env b src period triggered_by notes =
     andthen (lift_res (res_guard (\<not> (bd_kind b = Snapshot \<and> period \<noteq> None)) (ValueError ''period must be None'')))
       (\<lambda>_. andthen (lift_res (res_guard (\<not> (bd_kind b = Period \<and> period = None)) (ValueError ''period is required'')))
         (\<lambda>_. insert_attempt env (new_load_id env) b src (case period of None \<Rightarrow> this_month env | Some p \<Rightarrow> p) triggered_by notes))"

(* ingestion/orchestrator.py:270-635 run_binding *)
definition run_binding ::
  "('w, 'r, 'v, 'f) env \<Rightarrow> 'f registry \<Rightarrow> string \<Rightarrow> string option \<Rightarrow> string \<Rightarrow> string option \<Rightarrow> string option \<Rightarrow> ('w, attempt) act" where
  "run_binding env reg binding_id period triggered_by notes stop_after =
     andthen (lift_res (res_guard (case stop_after of None \<Rightarrow> True | Some st \<Rightarrow> st \<in> set STAGE_ORDER) (ValueError ''stop_after'')))
       (\<lambda>_. andthen (lift_res (res_wrap ConfigError (get_binding reg binding_id)))
         (\<lambda>b. andthen (lift_res (res_wrap ConfigError (get_source reg (bd_source b))))
           (\<lambda>src. andthen (open_attempt env b src period triggered_by notes)
             (\<lambda>_. with_lock env b period (new_load_id env) stop_after))))"

end
