(* ===== verification/LoadSafety.thy ===== *)
theory LoadSafety
  imports Ingestion "HOL-Library.Multiset"
begin

text \<open>
  What an ingestion run guarantees, whatever the source answers and whichever call outside fails. The
  warehouse is used through an interface: the documented effect of the five statements the program
  sends, and that replacing a partition or exchanging two tables happens entirely or not at all. From it
  follow, for every run, that live tables are only ever changed by publishing one whole extract, that a
  run which reports success has published, that the lock is given back, and that the history says what
  happened.
\<close>

section \<open>The warehouse\<close>

definition partition_of :: "string \<Rightarrow> 'r landed multiset \<Rightarrow> 'r landed multiset" where
  "partition_of p m = filter_mset (\<lambda>r. row_period r = p) m"

definition without_partition :: "string \<Rightarrow> 'r landed multiset \<Rightarrow> 'r landed multiset" where
  "without_partition p m = filter_mset (\<lambda>r. row_period r \<noteq> p) m"

fun tables_of :: "'r command \<Rightarrow> string set" where
  "tables_of (DropPartition t p) = {t}"
| "tables_of (TruncateIfExists t) = {t}"
| "tables_of (InsertRows t rs) = {t}"
| "tables_of (ReplacePartition t p src) = {t}"
| "tables_of (ExchangeTables t u) = {t, u}"

locale column_store =
  fixes run_command :: "'w \<Rightarrow> 'r command \<Rightarrow> 'w \<times> exn option"
    and rows :: "'w \<Rightarrow> string \<Rightarrow> 'r landed multiset"
  assumes other_tables: "t \<notin> tables_of c \<Longrightarrow> rows (fst (run_command w c)) t = rows w t"
    and dropped: "run_command w (DropPartition t p) = (w', None) \<Longrightarrow> rows w' t = without_partition p (rows w t)"
    and truncated: "run_command w (TruncateIfExists t) = (w', None) \<Longrightarrow> rows w' t = {#}"
    and inserted: "run_command w (InsertRows t rs) = (w', None) \<Longrightarrow> rows w' t = rows w t + mset rs"
    and replaced: "run_command w (ReplacePartition t p src) = (w', None) \<Longrightarrow>
          rows w' t = without_partition p (rows w t) + partition_of p (rows w src)"
    and replace_atomic: "run_command w (ReplacePartition t p src) = (w', Some e) \<Longrightarrow>
          rows w' t = rows w t \<or> rows w' t = without_partition p (rows w t) + partition_of p (rows w src)"
    and exchanged: "run_command w (ExchangeTables t u) = (w', None) \<Longrightarrow> rows w' t = rows w u \<and> rows w' u = rows w t"
    and exchange_atomic: "run_command w (ExchangeTables t u) = (w', Some e) \<Longrightarrow>
          (rows w' t = rows w t \<and> rows w' u = rows w u) \<or> (rows w' t = rows w u \<and> rows w' u = rows w t)"
begin

lemma command_keeps_others:
  assumes "run_command w c = (w', e)" and "t \<notin> tables_of c"
  shows "rows w' t = rows w t"
  using other_tables [OF assms(2), of w] assms(1) by simp

lemma replace_all_or_nothing:
  assumes "run_command w (ReplacePartition t p src) = (w', e)"
  shows "rows w' t = rows w t \<and> e \<noteq> None \<or> rows w' t = without_partition p (rows w t) + partition_of p (rows w src)"
  using assms replaced replace_atomic by (cases e) auto

lemma exchange_all_or_nothing:
  assumes "run_command w (ExchangeTables t u) = (w', e)"
  shows "rows w' t = rows w t \<and> e \<noteq> None \<or> rows w' t = rows w u"
  using assms exchanged [of w t u w'] exchange_atomic [of w t u w'] by (cases e) auto

lemma refilled_partition:
  assumes "run_command w (DropPartition t p) = (w1, None)" and "run_command w1 (InsertRows t rs) = (w2, None)"
  shows "partition_of p (rows w2 t) = partition_of p (mset rs)"
proof -
  have "partition_of p (without_partition p (rows w t)) = {#}"
    by (simp add: partition_of_def without_partition_def filter_filter_mset)
  then show ?thesis using dropped [OF assms(1)] inserted [OF assms(2)] by (simp add: partition_of_def)
qed

lemma refilled_table:
  assumes "run_command w (TruncateIfExists t) = (w1, None)" and "run_command w1 (InsertRows t rs) = (w2, None)"
  shows "rows w2 t = mset rs"
  using truncated [OF assms(1)] inserted [OF assms(2)] by simp

end

section \<open>What actions keep\<close>

text \<open>A relation between the states before and after; an action built from actions that keep it keeps it.\<close>

definition keeps :: "('w world \<Rightarrow> 'w world \<Rightarrow> bool) \<Rightarrow> ('w, 'a) act \<Rightarrow> bool" where
  "keeps P m \<longleftrightarrow> (\<forall>s s' r. m s = (s', r) \<longrightarrow> P s s')"

lemma keepsI: "(\<And>s s' r. m s = (s', r) \<Longrightarrow> P s s') \<Longrightarrow> keeps P m"
  by (simp add: keeps_def)

lemma keepsD: "keeps P m \<Longrightarrow> m s = (s', r) \<Longrightarrow> P s s'"
  by (simp add: keeps_def)

lemma andthen_cases:
  assumes "andthen m f s = (s', r)"
  obtains (stops) e where "m s = (s', Inl e)" "r = Inl e" | (goes) s1 x where "m s = (s1, Inr x)" "f x s1 = (s', r)"
  using assms by (auto simp: andthen_def split: prod.splits sum.splits)

lemma try_cases:
  assumes "try_except m catches h s = (s', r)"
  obtains (caught) s1 e where "m s = (s1, Inl e)" "catches e" "h e s1 = (s', r)"
    | (through) "m s = (s', r)" "\<And>e. r = Inl e \<Longrightarrow> \<not> catches e"
  using assms by (auto simp: try_except_def split: prod.splits sum.splits if_splits)

lemma stage_cases:
  assumes "stage m catches failure rest s = (s', r)"
  obtains (failed) s1 e where "m s = (s1, Inl e)" "catches e" "failure e s1 = (s', r)"
    | (escaped) e where "m s = (s', Inl e)" "\<not> catches e" "r = Inl e"
    | (went) s1 x where "m s = (s1, Inr x)" "rest x s1 = (s', r)"
  using assms by (auto simp: stage_def andthen_def try_except_def give_def split: prod.splits sum.splits if_splits)

locale kept =
  fixes P :: "'w world \<Rightarrow> 'w world \<Rightarrow> bool"
  assumes same: "P s s"
    and chain: "P s s1 \<Longrightarrow> P s1 s2 \<Longrightarrow> P s s2"
begin

lemma keeps_give: "keeps P (give x)"
  by (simp add: keeps_def give_def same)

lemma keeps_lift: "keeps P (lift_res r)"
  by (simp add: keeps_def lift_res_def same)

lemma keeps_andthen: "keeps P m \<Longrightarrow> (\<And>x. keeps P (f x)) \<Longrightarrow> keeps P (andthen m f)"
  by (rule keepsI, erule andthen_cases) (blast intro: chain dest: keepsD)+

lemma keeps_try: "keeps P m \<Longrightarrow> (\<And>e. keeps P (h e)) \<Longrightarrow> keeps P (try_except m c h)"
  by (rule keepsI, erule try_cases) (blast intro: chain dest: keepsD)+

lemma keeps_stage: "keeps P m \<Longrightarrow> (\<And>e. keeps P (h e)) \<Longrightarrow> (\<And>x. keeps P (rest x)) \<Longrightarrow> keeps P (stage m c h rest)"
  by (rule keepsI, erule stage_cases) (blast intro: chain dest: keepsD)+

lemma keeps_fail: "keeps P (fail env i st n msg)" if "\<And>st m. keeps P (finalise env i st m)"
  unfolding fail_def by (intro keeps_andthen keeps_give that)

lemma keeps_early: "keeps P (early_finalise env i st n)" if "\<And>st m. keeps P (finalise env i st m)"
  unfolding early_finalise_def by (intro keeps_andthen keeps_give that)

end

text \<open>The relations of this theory: live tables unchanged, the whole warehouse, other attempts, the locks.\<close>

definition live :: "string \<Rightarrow> bool" where
  "live t = startswith t ''live.''"

definition live_same :: "('w \<Rightarrow> string \<Rightarrow> 'r landed multiset) \<Rightarrow> 'w world \<Rightarrow> 'w world \<Rightarrow> bool" where
  "live_same rows s s' \<longleftrightarrow> (\<forall>t. live t \<longrightarrow> rows (warehouse s') t = rows (warehouse s) t)"

definition store_same :: "'w world \<Rightarrow> 'w world \<Rightarrow> bool" where
  "store_same s s' \<longleftrightarrow> warehouse s' = warehouse s"

definition locks_same :: "'w world \<Rightarrow> 'w world \<Rightarrow> bool" where
  "locks_same s s' \<longleftrightarrow> locks s' = locks s"

definition others_same :: "string \<Rightarrow> 'w world \<Rightarrow> 'w world \<Rightarrow> bool" where
  "others_same i s s' \<longleftrightarrow> (\<forall>k. k \<noteq> i \<longrightarrow> dget (load_history s') k = dget (load_history s) k)
     \<and> (dhas i (load_history s) \<longrightarrow> dhas i (load_history s'))"

interpretation live_kept: kept "live_same rows" for rows
  by unfold_locales (simp_all add: live_same_def)

interpretation store_kept: kept store_same
  by unfold_locales (simp_all add: store_same_def)

interpretation locks_kept: kept locks_same
  by unfold_locales (simp_all add: locks_same_def)

interpretation others_kept: kept "others_same i" for i
  by unfold_locales (simp_all add: others_same_def)

lemma store_to_live: "keeps store_same m \<Longrightarrow> keeps (live_same rows) m"
  unfolding keeps_def store_same_def live_same_def by metis

section \<open>History and lock\<close>

lemma history_step_cases:
  assumes "history_step env op f s = (s', r)"
  obtains (kept) "s' = s" "\<And>u. r \<noteq> Inr u" | (stored) h where "s' = s\<lparr>load_history := h\<rparr>" "f (load_history s) = Inr h" "r = Inr ()"
  using assms by (auto simp: history_step_def res_simps split: sum.splits)

lemma history_keeps: "keeps store_same (history_step env op f)" "keeps locks_same (history_step env op f)"
  by (rule keepsI, erule history_step_cases; simp add: store_same_def locks_same_def)+

lemma update_row_get:
  "dget (update_row i f h) k = (if k = i then map_option f (dget h i) else dget h k)"
  by (simp add: update_row_def dict_simps split: option.splits)

lemma update_keeps: "keeps (others_same i) (history_step env op (\<lambda>h. Inr (update_row i f h)))"
  by (rule keepsI, erule history_step_cases) (auto simp: others_same_def update_row_get dhas_iff)

lemmas history_defs = record_extract_def record_swap_def record_checks_def finalise_def

lemma history_kept [intro, simp]:
  "keeps store_same (record_extract env i n)" "keeps store_same (record_swap env i)" "keeps store_same (record_checks env i v)"
  "keeps store_same (finalise env i st m)" "keeps store_same (insert_attempt env i b src p tr notes)"
  "keeps locks_same (record_extract env i n)" "keeps locks_same (record_swap env i)" "keeps locks_same (record_checks env i v)"
  "keeps locks_same (finalise env i st m)" "keeps locks_same (insert_attempt env i b src p tr notes)"
  "keeps (others_same i) (record_extract env i n)" "keeps (others_same i) (record_swap env i)"
  "keeps (others_same i) (record_checks env i v)" "keeps (others_same i) (finalise env i st m)"
  by (simp_all add: history_defs insert_attempt_def history_keeps update_keeps)

lemma insert_keeps_others: "keeps (others_same i) (insert_attempt env i b src p tr notes)"
  by (rule keepsI) (auto simp: insert_attempt_def others_same_def dict_simps dhas_iff elim!: history_step_cases split: if_splits)

text \<open>A finalised attempt: its row says how it ended.\<close>

definition recorded :: "'w world \<Rightarrow> attempt \<Rightarrow> bool" where
  "recorded s a \<longleftrightarrow> (\<exists>row. dget (load_history s) (at_load_id a) = Some row \<and> lh_status row = at_status a
     \<and> error_message row = at_error a \<and> finished row)"

lemma finalise_records:
  assumes "andthen (finalise env i st m) (\<lambda>_. give a) s = (s', Inr a')" and "dhas i (load_history s)"
    and "at_load_id a = i" and "at_status a = st" and "at_error a = m"
  shows "a' = a \<and> recorded s' a"
  using assms(1)
proof (rule andthen_cases)
  fix s1 x
  assume f: "finalise env i st m s = (s1, Inr x)" and "give a s1 = (s', Inr a')"
  then have "s' = s1" "a' = a" by (simp_all add: give_def)
  then show ?thesis using f assms(2-5) unfolding finalise_def
    by (auto elim!: history_step_cases simp: recorded_def update_row_get dhas_iff)
qed simp

lemma fail_records:
  "fail env i st n msg s = (s', Inr a) \<Longrightarrow> dhas i (load_history s) \<Longrightarrow> recorded s' a \<and> at_load_id a = i \<and> at_status a = st \<and> stopped_after a = None"
  unfolding fail_def by (drule (1) finalise_records) simp_all

lemma early_records:
  "early_finalise env i stg n s = (s', Inr a) \<Longrightarrow> dhas i (load_history s)
     \<Longrightarrow> recorded s' a \<and> at_load_id a = i \<and> at_status a = ''success'' \<and> stopped_after a = Some stg"
  unfolding early_finalise_def by (drule (1) finalise_records) simp_all

section \<open>Extract\<close>

text \<open>The rows of an extract as they land, and what a swap makes of the target.\<close>

definition landing :: "string \<Rightarrow> 'r extracted list \<Rightarrow> 'r landed multiset" where
  "landing i ex = mset (map (tag i) ex)"

definition staged :: "'f binding \<Rightarrow> string option \<Rightarrow> string \<Rightarrow> 'r extracted list \<Rightarrow> 'r landed multiset \<Rightarrow> bool" where
  "staged b period i ex m =
     (case (bd_kind b, period) of
        (Period, Some p) \<Rightarrow> partition_of p m = partition_of p (landing i ex)
      | _ \<Rightarrow> m = landing i ex)"

definition published :: "'f binding \<Rightarrow> string option \<Rightarrow> string \<Rightarrow> 'r extracted list \<Rightarrow> 'r landed multiset \<Rightarrow> 'r landed multiset" where
  "published b period i ex before =
     (case (bd_kind b, period) of
        (Period, Some p) \<Rightarrow> without_partition p before + partition_of p (landing i ex)
      | _ \<Rightarrow> landing i ex)"

lemma twin_not_live: "\<not> live (twin t)"
  by (simp add: live_def startswith_def twin_def)

lemma live_not_twin: "live t \<Longrightarrow> t \<noteq> twin u"
  using twin_not_live by blast

lemma command_run: "command env c s = (s', r) \<Longrightarrow> \<exists>w e. exec env (warehouse s) c = (w, e) \<and> s' = s\<lparr>warehouse := w\<rparr> \<and> r = raise_if e"
  by (auto simp: command_def split: prod.splits)

lemma raise_if_simps [simp]: "raise_if None = Inr ()" "raise_if (Some e) = Inl e" "raise_if x = Inr u \<longleftrightarrow> x = None" "Inr u = raise_if x \<longleftrightarrow> x = None"
  by (auto simp: raise_if_def split: option.splits)

lemma command_keeps_live:
  assumes "column_store (exec env) rows" and "\<And>t. live t \<Longrightarrow> t \<notin> tables_of c"
  shows "keeps (live_same rows) (command env c)"
  using column_store.command_keeps_others [OF assms(1)] assms(2)
  by (intro keepsI) (fastforce simp: live_same_def dest!: command_run)

lemma command_keeps_rest: "keeps locks_same (command env c)" "keeps (others_same i) (command env c)"
  by (rule keepsI; fastforce simp: locks_same_def others_same_def dest!: command_run)+

lemma clear_tables: "tables_of (case (k, period) of (Period, Some p) \<Rightarrow> DropPartition t p | _ \<Rightarrow> TruncateIfExists t) = {t}"
  by (simp split: kind.splits option.splits)

lemma andthen_lift [simp]: "andthen (lift_res (Inr x)) f = f x" "andthen (lift_res (Inl e)) f = lift_res (Inl e)"
  by (simp_all add: andthen_def lift_res_def)

lemma lift_res_apply [simp]: "lift_res r s = (s, r)"
  by (simp add: lift_res_def)

context kept
begin

lemma keeps_if: "(c \<Longrightarrow> keeps P m) \<Longrightarrow> (\<not> c \<Longrightarrow> keeps P m') \<Longrightarrow> keeps P (if c then m else m')"
  by simp

lemma keeps_execute:
  assumes "\<And>cmd. tables_of cmd = {twin (bd_target b)} \<Longrightarrow> keeps P (command env cmd)"
  shows "keeps P (execute env b period i vars)"
proof (cases "startswith (bd_target b) ''live.''")
  case True
  then have table: "staging_table (bd_target b) = Inr (twin (bd_target b))" by (simp add: staging_table_def)
  have clear: "keeps P (clear_staging env (bd_kind b) period (twin (bd_target b)))"
    unfolding clear_staging_def by (rule assms) (rule clear_tables)
  have insert_rows: "keeps P (command env (InsertRows (twin (bd_target b)) rs))" for rs by (rule assms) simp
  have query: "keeps P (case q of Inl e \<Rightarrow> lift_res (Inl (ExecutorError m))
      | Inr rs \<Rightarrow> if rs = [] then give 0
          else try_except (andthen (command env (InsertRows (twin (bd_target b)) (map (tag i) rs))) (\<lambda>_. give (int (length rs))))
                 (\<lambda>_. True) (\<lambda>e. lift_res (Inl (ExecutorError m'))))" for q m m'
    by (cases q) (simp_all add: keeps_give keeps_lift keeps_try keeps_andthen insert_rows)
  show ?thesis unfolding execute_def table andthen_lift by (intro keeps_andthen keeps_lift clear query)
next
  case False
  then have "staging_table (bd_target b) = Inl (ExecutorError ''target'')" by (simp add: staging_table_def)
  then show ?thesis unfolding execute_def by (simp add: keeps_andthen keeps_lift)
qed

lemma keeps_extract:
  assumes "\<And>cmd. tables_of cmd = {twin (bd_target b)} \<Longrightarrow> keeps P (command env cmd)"
  shows "keeps P (extract_stage env b period i)"
  unfolding extract_stage_def by (intro keeps_andthen keeps_lift keeps_execute assms)

lemma keeps_validate: "keeps P (validate_stage env b)"
  by (simp add: keeps_def validate_stage_def same)

lemma keeps_checks: "keeps P (checks_stage env b period i totals)"
  by (simp add: keeps_def checks_stage_def same)

lemma keeps_swap_stage:
  assumes "\<And>cmd. keeps P (command env cmd)" and "keeps P (record_swap env i)" and "\<And>s w. P s (s\<lparr>warehouse := w\<rparr>)"
  shows "keeps P (swap_stage env b period i)"
proof -
  have "keeps P (do_swap env (bd_kind b) period (bd_target b))"
    unfolding do_swap_def swap_partition_def swap_snapshot_def
    by (auto intro!: keeps_andthen keeps_lift assms split: kind.splits option.splits)
  moreover have "keeps P (\<lambda>s. case refresh (warehouse s) of (w, e) \<Rightarrow> (s\<lparr>warehouse := w\<rparr>, raise_if e))" for refresh
    using assms(3) by (auto simp: keeps_def split: prod.splits)
  ultimately show ?thesis
    unfolding swap_stage_def
    by (auto intro!: keeps_andthen keeps_give assms(2) split: kind.splits option.splits)
qed

lemma keeps_locked_run:
  assumes "\<And>cmd. keeps P (command env cmd)" and "\<And>s w. P s (s\<lparr>warehouse := w\<rparr>)"
    and "\<And>st m. keeps P (finalise env i st m)" and "\<And>n. keeps P (record_extract env i n)"
    and "keeps P (record_swap env i)" and "\<And>v. keeps P (record_checks env i v)"
  shows "keeps P (locked_run env b period i stop)"
  unfolding locked_run_def after_extract_def check_gate_def after_checks_def publish_def
  by (auto intro!: keeps_stage keeps_andthen keeps_give keeps_fail keeps_early keeps_extract keeps_validate keeps_checks
      keeps_swap_stage assms)

end

lemma locked_run_keeps_rest:
  "keeps locks_same (locked_run env b period i stop)" "keeps (others_same i) (locked_run env b period i stop)"
  by (intro locks_kept.keeps_locked_run others_kept.keeps_locked_run command_keeps_rest history_kept;
      simp add: locks_same_def others_same_def)+

lemma extract_keeps_live:
  assumes "column_store (exec env) rows"
  shows "keeps (live_same rows) (extract_stage env b period i)"
  by (rule live_kept.keeps_extract, rule command_keeps_live [OF assms]) (simp add: live_not_twin)

lemma execute_lands:
  assumes "column_store (exec env) rows" and "execute env b period i vars s = (s', Inr n)"
  obtains ex where "extract_rows env (bd_source b) (render_source_query (extract_query b) period vars) = Inr ex"
    and "n = int (length ex)" and "ex \<noteq> [] \<Longrightarrow> staged b period i ex (rows (warehouse s') (twin (bd_target b)))"
    and "live (bd_target b)"
proof -
  let ?t = "twin (bd_target b)"
  let ?q = "extract_rows env (bd_source b) (render_source_query (extract_query b) period vars)"
  let ?land = "\<lambda>rs. if rs = [] then give 0
          else try_except (andthen (command env (InsertRows ?t (map (tag i) rs))) (\<lambda>_. give (int (length rs))))
                 (\<lambda>_. True) (\<lambda>e. lift_res (Inl (ExecutorError ''staging insert'')))"
  have args: "validate_period_args (bd_kind b) period = Inr ()" and table: "staging_table (bd_target b) = Inr ?t" and lv: "live (bd_target b)"
    using assms(2) unfolding execute_def
    by (auto simp: lift_res_def andthen_def staging_table_def live_def split: sum.splits if_splits)
  obtain s1 where clear: "clear_staging env (bd_kind b) period ?t s = (s1, Inr ())"
    and query: "(case ?q of Inl e \<Rightarrow> lift_res (Inl (ExecutorError ''source query'')) | Inr rs \<Rightarrow> ?land rs) s1 = (s', Inr n)"
    using assms(2) unfolding execute_def args table andthen_lift by (auto elim: andthen_cases)
  then obtain ex where ex: "?q = Inr ex" and land: "?land ex s1 = (s', Inr n)"
    by (cases ?q) (auto simp: lift_res_def)
  have n: "n = int (length ex)" and ins: "command env (InsertRows ?t (map (tag i) ex)) s1 = (s', Inr ())" if "ex \<noteq> []"
    using land that by (auto simp: give_def lift_res_def elim!: try_cases andthen_cases)
  have "n = int (length ex)" using land n by (cases "ex = []") (auto simp: give_def)
  moreover have "staged b period i ex (rows (warehouse s') ?t)" if ne: "ex \<noteq> []"
  proof -
    obtain w1 where w1: "exec env (warehouse s) (case (bd_kind b, period) of (Period, Some p) \<Rightarrow> DropPartition ?t p | _ \<Rightarrow> TruncateIfExists ?t) = (w1, None)"
      "warehouse s1 = w1"
      using clear unfolding clear_staging_def by (auto dest!: command_run)
    have w2: "exec env w1 (InsertRows ?t (map (tag i) ex)) = (warehouse s', None)"
      using command_run [OF ins [OF ne]] w1(2) by auto
    show ?thesis
      using column_store.refilled_partition [OF assms(1) _ w2] column_store.refilled_table [OF assms(1) _ w2] w1(1)
      by (auto simp: staged_def landing_def split: kind.splits option.splits)
  qed
  ultimately show ?thesis using that ex lv by blast
qed

section \<open>Swap\<close>

text \<open>A change of the target table that is either none or the whole publication, with every other live table left alone.\<close>

definition publishes ::
  "('w \<Rightarrow> string \<Rightarrow> 'r landed multiset) \<Rightarrow> 'f binding \<Rightarrow> string option \<Rightarrow> string \<Rightarrow> 'r extracted list \<Rightarrow> 'w world \<Rightarrow> 'w world \<Rightarrow> bool" where
  "publishes rows b period i ex s s' \<longleftrightarrow>
     rows (warehouse s') (bd_target b) = published b period i ex (rows (warehouse s) (bd_target b))
     \<and> (\<forall>t. live t \<longrightarrow> t \<noteq> bd_target b \<longrightarrow> rows (warehouse s') t = rows (warehouse s) t)"

lemma publishes_chain:
  "live_same rows s s1 \<Longrightarrow> publishes rows b period i ex s1 s2 \<Longrightarrow> live (bd_target b) \<Longrightarrow> publishes rows b period i ex s s2"
  "publishes rows b period i ex s s1 \<Longrightarrow> live_same rows s1 s2 \<Longrightarrow> live (bd_target b) \<Longrightarrow> publishes rows b period i ex s s2"
  by (auto simp: publishes_def live_same_def)

lemma other_command_live:
  assumes "column_store (exec env) rows" and "command env c s = (s', r)" and "\<And>t. live t \<Longrightarrow> t \<notin> tables_of c"
  shows "live_same rows s s'"
  using keepsD [OF command_keeps_live [OF assms(1,3)] assms(2)] .

lemma do_swap_publishes:
  assumes store: "column_store (exec env) rows" and lv: "live (bd_target b)"
    and st: "staged b period i ex (rows (warehouse s) (twin (bd_target b)))"
    and swap: "do_swap env (bd_kind b) period (bd_target b) s = (s', r)"
  shows "(live_same rows s s' \<and> (\<forall>u. r \<noteq> Inr u)) \<or> publishes rows b period i ex s s'"
proof -
  let ?t = "bd_target b" and ?g = "twin (bd_target b)"
  have twin: "staging_for ?t = Inr ?g" using lv by (simp add: staging_for_def live_def)
  consider (refused) "live_same rows s s'" "\<forall>u. r \<noteq> Inr u"
    | (part) p where "bd_kind b = Period" "period = Some p" "swap_partition env p ?t s = (s', r)"
    | (snap) "bd_kind b = Snapshot" "period = None" "swap_snapshot env ?t s = (s', r)"
    using swap by (auto simp: do_swap_def lift_res_def live_same_def split: kind.splits option.splits)
  then show ?thesis
  proof cases
    case (part p)
    obtain w e where w: "exec env (warehouse s) (ReplacePartition ?t p ?g) = (w, e)" by fastforce
    let ?s1 = "s\<lparr>warehouse := w\<rparr>"
    have others: "rows w t = rows (warehouse s) t" if "live t" "t \<noteq> ?t" for t
      using column_store.command_keeps_others [OF store w] that by simp
    have target: "rows w ?t = rows (warehouse s) ?t \<and> e \<noteq> None \<or> rows w ?t = published b period i ex (rows (warehouse s) ?t)"
      using column_store.replace_all_or_nothing [OF store w] st part(1,2) by (simp add: published_def staged_def)
    have first: "live_same rows s ?s1 \<and> e \<noteq> None \<or> publishes rows b period i ex s ?s1"
      using target others by (auto simp: live_same_def publishes_def)
    have "andthen (command env (ReplacePartition ?t p ?g)) (\<lambda>_. command env (DropPartition ?g p)) s = (s', r)"
      using part(3) unfolding swap_partition_def twin by simp
    then show ?thesis
    proof (rule andthen_cases)
      fix e' assume "command env (ReplacePartition ?t p ?g) s = (s', Inl e')" "r = Inl e'"
      then show ?thesis using first w by (auto dest!: command_run)
    next
      fix s1 x assume c: "command env (ReplacePartition ?t p ?g) s = (s1, Inr x)" and d: "command env (DropPartition ?g p) s1 = (s', r)"
      then have "publishes rows b period i ex s s1" using first w by (auto dest!: command_run)
      moreover have "live_same rows s1 s'" using other_command_live [OF store d] live_not_twin by simp
      ultimately show ?thesis using publishes_chain(2) lv by blast
    qed
  next
    case snap
    have c: "command env (ExchangeTables ?t ?g) s = (s', r)"
      using snap(3) unfolding swap_snapshot_def twin by simp
    obtain w e where w: "exec env (warehouse s) (ExchangeTables ?t ?g) = (w, e)" and s': "s' = s\<lparr>warehouse := w\<rparr>" "r = raise_if e"
      using command_run [OF c] by blast
    have "rows w t = rows (warehouse s) t" if "live t" "t \<noteq> ?t" for t
      using column_store.command_keeps_others [OF store w] that live_not_twin [of t] by simp
    moreover have "rows w ?t = rows (warehouse s) ?t \<and> e \<noteq> None \<or> rows w ?t = published b period i ex (rows (warehouse s) ?t)"
      using column_store.exchange_all_or_nothing [OF store w] st snap(1,2) by (simp add: published_def staged_def)
    ultimately show ?thesis by (auto simp: s' live_same_def publishes_def)
  qed simp
qed

section \<open>A run publishes all or nothing\<close>

text \<open>The catalogue refresh rebuilds the hierarchy tables, never a live table.\<close>

definition refresh_keeps_live :: "('w, 'r, 'v, 'f) env \<Rightarrow> ('w \<Rightarrow> string \<Rightarrow> 'r landed multiset) \<Rightarrow> bool" where
  "refresh_keeps_live env rows \<longleftrightarrow>
     (\<forall>refresh w t. refresh_hierarchies env = Some refresh \<longrightarrow> live t \<longrightarrow> rows (fst (refresh w)) t = rows w t)"

text \<open>What a state must satisfy before a publication: the shapes agree and the checks do not block.\<close>

definition gate_open :: "('w, 'r, 'v, 'f) env \<Rightarrow> 'f binding \<Rightarrow> string option \<Rightarrow> string \<Rightarrow> 'w \<Rightarrow> bool" where
  "gate_open env b period i w \<longleftrightarrow>
     (\<exists>d. validate_staging_shape env w (bd_target b) = Inr d \<and> shape_passed d)
     \<and> (checks b = [] \<or> (\<exists>totals run. run_checks (check_reader env w) (float_ops env) b period i totals = Inr run \<and> \<not> blocked run))"

text \<open>The two ways a run can end for the live tables.\<close>

definition not_published :: "('w \<Rightarrow> string \<Rightarrow> 'r landed multiset) \<Rightarrow> 'w world \<Rightarrow> 'w world \<Rightarrow> (exn, attempt) res \<Rightarrow> bool" where
  "not_published rows s s' r \<longleftrightarrow> live_same rows s s' \<and> (\<forall>a. r = Inr a \<longrightarrow> at_status a \<noteq> ''success'' \<or> stopped_after a \<noteq> None)"

definition was_published ::
  "('w \<Rightarrow> string \<Rightarrow> 'r landed multiset) \<Rightarrow> 'f binding \<Rightarrow> string option \<Rightarrow> string \<Rightarrow> 'r extracted list \<Rightarrow> 'w world \<Rightarrow> 'w world
     \<Rightarrow> (exn, attempt) res \<Rightarrow> bool" where
  "was_published rows b period i ex s s' r \<longleftrightarrow> publishes rows b period i ex s s'
     \<and> (\<forall>a. r = Inr a \<longrightarrow> at_status a \<in> {''success'', ''failed_swap''} \<and> stopped_after a = None)"

lemma not_published_chain: "live_same rows s s1 \<Longrightarrow> not_published rows s1 s' r \<Longrightarrow> not_published rows s s' r"
  by (auto simp: not_published_def live_same_def)

lemma was_published_chain:
  "live_same rows s s1 \<Longrightarrow> was_published rows b period i ex s1 s' r \<Longrightarrow> live (bd_target b) \<Longrightarrow> was_published rows b period i ex s s' r"
  unfolding was_published_def using publishes_chain(1) by blast

lemma keeps_live_status:
  "keeps (live_same rows) (fail env i st n msg)" "keeps (live_same rows) (early_finalise env i st n)"
  by (intro live_kept.keeps_fail live_kept.keeps_early store_to_live history_kept)+

lemma finalised_attempt:
  "fail env i st n msg s = (s', Inr a) \<Longrightarrow> at_status a = st \<and> stopped_after a = None"
  "early_finalise env i stg n s = (s', Inr a) \<Longrightarrow> stopped_after a = Some stg"
  by (auto simp: fail_def early_finalise_def give_def elim!: andthen_cases)

lemma fail_not_published: "fail env i st n msg s = (s', r) \<Longrightarrow> st \<noteq> ''success'' \<Longrightarrow> not_published rows s s' r"
  using keepsD [OF keeps_live_status(1)] finalised_attempt(1) unfolding not_published_def by metis

lemma early_not_published: "early_finalise env i stg n s = (s', r) \<Longrightarrow> not_published rows s s' r"
  using keepsD [OF keeps_live_status(2)] finalised_attempt(2) unfolding not_published_def by (metis option.distinct(1))

lemma swap_stage_publishes:
  assumes store: "column_store (exec env) rows" and refresh: "refresh_keeps_live env rows" and lv: "live (bd_target b)"
    and st: "staged b period i ex (rows (warehouse s) (twin (bd_target b)))"
    and run: "swap_stage env b period i s = (s', r)"
  shows "(live_same rows s s' \<and> (\<forall>u. r \<noteq> Inr u)) \<or> publishes rows b period i ex s s'"
  using run unfolding swap_stage_def
proof (rule andthen_cases)
  fix e assume "do_swap env (bd_kind b) period (bd_target b) s = (s', Inl e)" "r = Inl e"
  then show ?thesis using do_swap_publishes [OF store lv st] by blast
next
  fix s1 x
  assume d: "do_swap env (bd_kind b) period (bd_target b) s = (s1, Inr x)"
    and rest: "andthen (record_swap env i) (\<lambda>_. case (bd_kind b, refresh_hierarchies env) of
                (Snapshot, Some refresh) \<Rightarrow> (\<lambda>s. case refresh (warehouse s) of (w, e) \<Rightarrow> (s\<lparr>warehouse := w\<rparr>, raise_if e))
              | _ \<Rightarrow> give ()) s1 = (s', r)"
  have "keeps (live_same rows) (\<lambda>s. case refresh (warehouse s) of (w, e) \<Rightarrow> (s\<lparr>warehouse := w\<rparr>, raise_if e))"
    if "refresh_hierarchies env = Some refresh" for refresh
    using refresh that by (auto simp: refresh_keeps_live_def keeps_def live_same_def split: prod.splits) (metis fst_conv)
  then have "keeps (live_same rows) (andthen (record_swap env i) (\<lambda>_. case (bd_kind b, refresh_hierarchies env) of
                (Snapshot, Some refresh) \<Rightarrow> (\<lambda>s. case refresh (warehouse s) of (w, e) \<Rightarrow> (s\<lparr>warehouse := w\<rparr>, raise_if e))
              | _ \<Rightarrow> give ()))"
    by (intro live_kept.keeps_andthen [OF store_to_live [OF history_kept(2)]])
       (auto simp: live_kept.keeps_give split: kind.splits option.splits)
  then have "live_same rows s1 s'" using rest by (rule keepsD)
  moreover have "publishes rows b period i ex s s1" using do_swap_publishes [OF store lv st d] by simp
  ultimately show ?thesis using publishes_chain(2) lv by blast
qed

lemma publish_outcome:
  assumes store: "column_store (exec env) rows" and refresh: "refresh_keeps_live env rows" and lv: "live (bd_target b)"
    and st: "staged b period i ex (rows (warehouse s) (twin (bd_target b)))"
    and run: "publish env b period i n s = (s', r)"
  shows "not_published rows s s' r \<or> was_published rows b period i ex s s' r"
  using run unfolding publish_def
proof (rule stage_cases)
  fix s1 e
  assume sw: "swap_stage env b period i s = (s1, Inl e)"
    and f: "fail env i ''failed_swap'' (Some n) (''Swap failed: '' @ exn_text e) s1 = (s', r)"
  have live1: "live_same rows s1 s'" using keeps_live_status(1) f by (rule keepsD)
  have status: "at_status a = ''failed_swap'' \<and> stopped_after a = None" if "r = Inr a" for a using finalised_attempt(1) f that by blast
  from swap_stage_publishes [OF store refresh lv st sw] show ?thesis
  proof
    assume "live_same rows s s1 \<and> (\<forall>u. Inl e \<noteq> (Inr u :: (exn, unit) res))"
    then show ?thesis using live1 status live_kept.chain by (force simp: not_published_def)
  next
    assume "publishes rows b period i ex s s1"
    then show ?thesis using live1 status publishes_chain(2) lv by (force simp: was_published_def)
  qed
next
  fix s1 x
  assume sw: "swap_stage env b period i s = (s1, Inr x)"
    and f: "andthen (finalise env i ''success'' None)
         (\<lambda>_. give \<lparr>at_load_id = i, at_status = ''success'', at_rows = Some n, at_error = None, stopped_after = None\<rparr>) s1 = (s', r)"
  have "keeps (live_same rows) (andthen (finalise env i ''success'' None)
         (\<lambda>_. give \<lparr>at_load_id = i, at_status = ''success'', at_rows = Some n, at_error = None, stopped_after = None\<rparr>))"
    by (intro live_kept.keeps_andthen live_kept.keeps_give store_to_live history_kept)
  then have "live_same rows s1 s'" using f by (rule keepsD)
  moreover have "publishes rows b period i ex s s1" using swap_stage_publishes [OF store refresh lv st sw] by simp
  moreover have "at_status a = ''success'' \<and> stopped_after a = None" if "r = Inr a" for a
    using f that by (auto simp: give_def elim!: andthen_cases)
  ultimately show ?thesis using publishes_chain(2) [of rows b period i ex s s1 s'] lv by (auto simp: was_published_def)
qed simp

definition run_outcome ::
  "('w, 'r, 'v, 'f) env \<Rightarrow> ('w \<Rightarrow> string \<Rightarrow> 'r landed multiset) \<Rightarrow> 'f binding \<Rightarrow> string option \<Rightarrow> 'w world \<Rightarrow> 'w world
     \<Rightarrow> (exn, attempt) res \<Rightarrow> bool" where
  "run_outcome env rows b period s s' r \<longleftrightarrow> not_published rows s s' r
     \<or> (\<exists>ex w. extract_rows env (bd_source b) (render_source_query (extract_query b) period (template_vars env (bd_source b))) = Inr ex
          \<and> ex \<noteq> [] \<and> staged b period (new_load_id env) ex (rows w (twin (bd_target b))) \<and> gate_open env b period (new_load_id env) w
          \<and> was_published rows b period (new_load_id env) ex s s' r)"

lemma run_outcome_chain:
  assumes "live_same rows s s1" and "run_outcome env rows b period s1 s' r" and "live (bd_target b)"
  shows "run_outcome env rows b period s s' r"
  using assms(2) not_published_chain [OF assms(1)] was_published_chain [OF assms(1) _ assms(3)] unfolding run_outcome_def by meson

lemma store_live: "store_same s s1 \<Longrightarrow> live_same rows s s1"
  by (simp add: store_same_def live_same_def)

lemma not_published_outcome: "not_published rows s s' r \<Longrightarrow> run_outcome env rows b period s s' r"
  by (simp add: run_outcome_def)

lemma fail_outcome: "fail env i st n msg s = (s', r) \<Longrightarrow> st \<noteq> ''success'' \<Longrightarrow> run_outcome env' rows b period s s' r"
  by (intro not_published_outcome fail_not_published)

lemma early_outcome: "early_finalise env i stg n s = (s', r) \<Longrightarrow> run_outcome env' rows b period s s' r"
  by (intro not_published_outcome early_not_published)

lemma after_checks_outcome:
  assumes store: "column_store (exec env) rows" and refresh: "refresh_keeps_live env rows" and lv: "live (bd_target b)"
    and ex: "extract_rows env (bd_source b) (render_source_query (extract_query b) period (template_vars env (bd_source b))) = Inr ex" "ex \<noteq> []"
    and st: "staged b period (new_load_id env) ex (rows (warehouse s) (twin (bd_target b)))"
    and gate: "gate_open env b period (new_load_id env) (warehouse s)"
    and run: "after_checks env b period (new_load_id env) stop n s = (s', r)"
  shows "run_outcome env rows b period s s' r"
proof (cases "stop = Some ''validate''")
  case True
  then show ?thesis using run by (auto simp: after_checks_def intro: early_outcome)
next
  case False
  then have "publish env b period (new_load_id env) n s = (s', r)" using run by (simp add: after_checks_def)
  from publish_outcome [OF store refresh lv st this] show ?thesis
    using ex st gate unfolding run_outcome_def by blast
qed

lemma check_gate_outcome:
  assumes store: "column_store (exec env) rows" and refresh: "refresh_keeps_live env rows" and lv: "live (bd_target b)"
    and ex: "extract_rows env (bd_source b) (render_source_query (extract_query b) period (template_vars env (bd_source b))) = Inr ex" "ex \<noteq> []"
    and st: "staged b period (new_load_id env) ex (rows (warehouse s) (twin (bd_target b)))"
    and shape: "validate_staging_shape env (warehouse s) (bd_target b) = Inr d" "shape_passed d"
    and run: "check_gate env b period (new_load_id env) stop n totals s = (s', r)"
  shows "run_outcome env rows b period s s' r"
proof (cases "checks b = []")
  case True
  then have "gate_open env b period (new_load_id env) (warehouse s)" using shape by (simp add: gate_open_def)
  then show ?thesis using run True after_checks_outcome [OF store refresh lv ex st] by (simp add: check_gate_def)
next
  case False
  let ?i = "new_load_id env"
  have "stage (checks_stage env b period ?i totals) (\<lambda>_. True)
        (\<lambda>e. fail env ?i ''failed_recon'' (Some n) (''Data-quality checks could not run: '' @ exn_text e))
        (\<lambda>run. andthen (record_checks env ?i (verdict run))
          (\<lambda>_. if blocked run then fail env ?i ''failed_checks'' (Some n) ''Data-quality checks failed''
               else after_checks env b period ?i stop n)) s = (s', r)"
    using run False by (simp add: check_gate_def)
  then show ?thesis
  proof (rule stage_cases)
    fix s1 e
    assume "checks_stage env b period ?i totals s = (s1, Inl e)"
      and f: "fail env ?i ''failed_recon'' (Some n) (''Data-quality checks could not run: '' @ exn_text e) s1 = (s', r)"
    then have "s1 = s" by (simp add: checks_stage_def)
    then show ?thesis using f by (auto intro!: fail_outcome)
  next
    fix s1 run
    assume c: "checks_stage env b period ?i totals s = (s1, Inr run)"
      and rest: "andthen (record_checks env ?i (verdict run))
          (\<lambda>_. if blocked run then fail env ?i ''failed_checks'' (Some n) ''Data-quality checks failed''
               else after_checks env b period ?i stop n) s1 = (s', r)"
    have s1: "s1 = s" and ran: "run_checks (check_reader env (warehouse s)) (float_ops env) b period ?i totals = Inr run"
      using c by (auto simp: checks_stage_def res_simps)
    from rest show ?thesis
    proof (rule andthen_cases)
      fix e assume "record_checks env ?i (verdict run) s1 = (s', Inl e)" "r = Inl e"
      then show ?thesis using keepsD [OF history_kept(3)] s1 store_live
        by (fastforce simp: not_published_def intro!: not_published_outcome)
    next
      fix s2 x
      assume rec: "record_checks env ?i (verdict run) s1 = (s2, Inr x)"
        and more: "(if blocked run then fail env ?i ''failed_checks'' (Some n) ''Data-quality checks failed''
               else after_checks env b period ?i stop n) s2 = (s', r)"
      have same: "warehouse s2 = warehouse s" using keepsD [OF history_kept(3) rec] s1 by (simp add: store_same_def)
      have "run_outcome env rows b period s2 s' r"
      proof (cases "blocked run")
        case True
        then show ?thesis using more by (auto intro: fail_outcome)
      next
        case False
        then have "gate_open env b period ?i (warehouse s2)" using shape ran same by (auto simp: gate_open_def)
        then show ?thesis using after_checks_outcome [OF store refresh lv ex, of s2] st same more False by simp
      qed
      then show ?thesis using run_outcome_chain [OF _ _ lv, of rows s s2] same by (simp add: live_same_def)
    qed
  qed simp
qed

lemma after_extract_outcome:
  assumes store: "column_store (exec env) rows" and refresh: "refresh_keeps_live env rows" and lv: "live (bd_target b)"
    and ex: "extract_rows env (bd_source b) (render_source_query (extract_query b) period (template_vars env (bd_source b))) = Inr ex"
    and n: "n = int (length ex)"
    and st: "ex \<noteq> [] \<Longrightarrow> staged b period (new_load_id env) ex (rows (warehouse s) (twin (bd_target b)))"
    and run: "after_extract env b period (new_load_id env) stop n totals s = (s', r)"
  shows "run_outcome env rows b period s s' r"
proof (cases "stop = Some ''extract'' \<or> n = 0")
  case True
  then show ?thesis using run by (auto simp: after_extract_def intro: early_outcome fail_outcome split: if_splits)
next
  case False
  let ?i = "new_load_id env"
  have "stage (validate_stage env b) caught_by_validate
        (\<lambda>e. fail env ?i ''failed_recon'' (Some n) (''Validation failed: '' @ exn_text e))
        (\<lambda>_. check_gate env b period ?i stop n totals) s = (s', r)"
    using run False by (simp add: after_extract_def)
  then show ?thesis
  proof (rule stage_cases)
    fix s1 e
    assume "validate_stage env b s = (s1, Inl e)"
      and f: "fail env ?i ''failed_recon'' (Some n) (''Validation failed: '' @ exn_text e) s1 = (s', r)"
    then have "s1 = s" by (simp add: validate_stage_def)
    then show ?thesis using f by (auto intro!: fail_outcome)
  next
    fix e assume "validate_stage env b s = (s', Inl e)" "r = Inl e"
    then show ?thesis by (auto simp: validate_stage_def not_published_def live_same_def intro!: not_published_outcome)
  next
    fix s1 x
    assume v: "validate_stage env b s = (s1, Inr x)" and rest: "check_gate env b period ?i stop n totals s1 = (s', r)"
    obtain d where "s1 = s" "validate_staging_shape env (warehouse s) (bd_target b) = Inr d" "shape_passed d"
      using v by (auto simp: validate_stage_def res_simps)
    moreover have "ex \<noteq> []" using False n by auto
    ultimately show ?thesis using check_gate_outcome [OF store refresh lv ex _ st] rest by blast
  qed
qed

lemma locked_run_outcome:
  assumes store: "column_store (exec env) rows" and refresh: "refresh_keeps_live env rows"
    and run: "locked_run env b period (new_load_id env) stop s = (s', r)"
  shows "run_outcome env rows b period s s' r"
  using run unfolding locked_run_def
proof (rule stage_cases)
  fix s1 e
  assume x: "extract_stage env b period (new_load_id env) s = (s1, Inl e)"
    and f: "fail env (new_load_id env) ''failed_extract'' None (''Extract failed: '' @ exn_text e) s1 = (s', r)"
  show ?thesis
    using not_published_chain [OF keepsD [OF extract_keeps_live [OF store] x] fail_not_published [OF f]] not_published_outcome by simp
next
  fix s1 x
  assume x: "extract_stage env b period (new_load_id env) s = (s1, Inr x)"
    and rest: "(case x of (n, totals) \<Rightarrow> andthen (record_extract env (new_load_id env) n)
        (\<lambda>_. after_extract env b period (new_load_id env) stop n totals)) s1 = (s', r)"
  obtain n totals where nt: "x = (n, totals)" by (cases x)
  have live1: "live_same rows s s1" using extract_keeps_live [OF store] x by (rule keepsD)
  have ran: "execute env b period (new_load_id env) (template_vars env (bd_source b)) s = (s1, Inr n)"
    using x unfolding extract_stage_def nt by (auto simp: lift_res_def res_simps raise_if_def split: option.splits elim!: andthen_cases)
  obtain ex where ex: "extract_rows env (bd_source b) (render_source_query (extract_query b) period (template_vars env (bd_source b))) = Inr ex"
    and n: "n = int (length ex)" and st: "ex \<noteq> [] \<Longrightarrow> staged b period (new_load_id env) ex (rows (warehouse s1) (twin (bd_target b)))"
    and lv: "live (bd_target b)"
    using execute_lands [OF store ran] by metis
  from rest have "andthen (record_extract env (new_load_id env) n) (\<lambda>_. after_extract env b period (new_load_id env) stop n totals) s1 = (s', r)"
    by (simp add: nt)
  then have "run_outcome env rows b period s1 s' r"
  proof (rule andthen_cases)
    fix e assume "record_extract env (new_load_id env) n s1 = (s', Inl e)" "r = Inl e"
    then show ?thesis using keepsD [OF history_kept(1)] store_live
      by (fastforce simp: not_published_def intro!: not_published_outcome)
  next
    fix s2 u
    assume rec: "record_extract env (new_load_id env) n s1 = (s2, Inr u)"
      and more: "after_extract env b period (new_load_id env) stop n totals s2 = (s', r)"
    have same: "warehouse s2 = warehouse s1" using keepsD [OF history_kept(1) rec] by (simp add: store_same_def)
    then have "run_outcome env rows b period s2 s' r"
      using after_extract_outcome [OF store refresh lv ex n _ more] st by simp
    then show ?thesis using run_outcome_chain [OF _ _ lv, of rows s1 s2] same by (simp add: live_same_def)
  qed
  then show ?thesis by (rule run_outcome_chain [OF live1 _ lv])
qed simp

lemma with_lock_cases:
  assumes "with_lock env b period i stop s = (s', r)"
  obtains (raised) e where "r = Inl e" "s' = s"
    | (held) in_flight where "hashtext env (''ingest_lock:'' @ bd_id b) \<in> set (locks s)"
        "fail env i ''failed_other'' None (''Lock conflict; in-flight load: '' @ text_of in_flight) s = (s', r)"
        "find_running_for_binding env (bd_id b) s = (s, Inr in_flight)"
    | (ran) s1 where "hashtext env (''ingest_lock:'' @ bd_id b) \<notin> set (locks s)"
        "locked_run env b period i stop (s\<lparr>locks := hashtext env (''ingest_lock:'' @ bd_id b) # locks s\<rparr>) = (s1, r)"
        "s' = release_lock env (''ingest_lock:'' @ bd_id b) s1"
proof (cases "lock_error env")
  case (Some e)
  then show ?thesis using assms that(1) by (auto simp: with_lock_def Let_def andthen_def acquire_lock_def)
next
  case None
  show ?thesis
  proof (cases "hashtext env (''ingest_lock:'' @ bd_id b) \<in> set (locks s)")
    case held: True
    then have "andthen (find_running_for_binding env (bd_id b)) (\<lambda>in_flight. fail env i ''failed_other'' None
               (''Lock conflict; in-flight load: '' @ text_of in_flight)) s = (s', r)"
      using assms None by (simp add: with_lock_def Let_def andthen_def acquire_lock_def)
    then show ?thesis
    proof (rule andthen_cases)
      fix s1 x
      assume f: "find_running_for_binding env (bd_id b) s = (s1, Inr x)"
        and g: "fail env i ''failed_other'' None (''Lock conflict; in-flight load: '' @ text_of x) s1 = (s', r)"
      then have "s1 = s" by (auto simp: find_running_for_binding_def split: option.splits)
      then show ?thesis using that(2) f g held by simp
    next
      fix e assume "find_running_for_binding env (bd_id b) s = (s', Inl e)" "r = Inl e"
      then show ?thesis using that(1) by (auto simp: find_running_for_binding_def split: option.splits)
    qed
  next
    case False
    then show ?thesis using assms None that(3)
      by (auto simp: with_lock_def Let_def andthen_def acquire_lock_def and_finally_def split: prod.splits)
  qed
qed

lemma run_binding_cases:
  assumes "run_binding env reg bid period tr notes stop s = (s', r)"
  obtains (refused) e where "r = Inl e" "s' = s"
    | (started) b src s1 where "get_binding reg bid = Inr b" "get_source reg (bd_source b) = Inr src"
        "insert_attempt env (new_load_id env) b src (case period of None \<Rightarrow> this_month env | Some p \<Rightarrow> p) tr notes s = (s1, Inr ())"
        "with_lock env b period (new_load_id env) stop s1 = (s', r)"
proof -
  let ?ins = "\<lambda>b src. insert_attempt env (new_load_id env) b src (case period of None \<Rightarrow> this_month env | Some p \<Rightarrow> p) tr notes"
  have ins: "s2 = s" if "?ins b src s = (s2, Inl e)" for b src s2 e
    using that unfolding insert_attempt_def by (auto elim!: history_step_cases)
  show ?thesis
  proof (cases "get_binding reg bid")
    case (Inl e)
    then show ?thesis using assms that(1)
      by (auto simp: run_binding_def andthen_def res_guard_def split: if_splits option.splits)
  next
    case (Inr b)
    show ?thesis
    proof (cases "get_source reg (bd_source b)")
      case (Inl e)
      then show ?thesis using assms that(1) Inr
        by (auto simp: run_binding_def andthen_def res_guard_def split: if_splits option.splits)
    next
      case src: (Inr src)
      have "andthen (open_attempt env b src period tr notes) (\<lambda>_. with_lock env b period (new_load_id env) stop) s = (s', r) \<or> (\<exists>e. r = Inl e \<and> s' = s)"
        using assms by (auto simp: run_binding_def Inr src res_guard_def split: if_splits)
      then show ?thesis
      proof
        assume "andthen (open_attempt env b src period tr notes) (\<lambda>_. with_lock env b period (new_load_id env) stop) s = (s', r)"
        then show ?thesis
        proof (rule andthen_cases)
          fix e assume o: "open_attempt env b src period tr notes s = (s', Inl e)" "r = Inl e"
          then have "s' = s" using ins unfolding open_attempt_def
            by (auto simp: res_guard_def split: if_splits)
          then show ?thesis using that(1) o by blast
        next
          fix s1 x assume o: "open_attempt env b src period tr notes s = (s1, Inr x)" and w: "with_lock env b period (new_load_id env) stop s1 = (s', r)"
          have "?ins b src s = (s1, Inr ())"
            using o unfolding open_attempt_def by (auto simp: res_guard_def split: if_splits)
          then show ?thesis using that(2) Inr src w by blast
        qed
      qed (use that(1) in blast)
    qed
  qed
qed

lemma run_binding_outcome:
  assumes store: "column_store (exec env) rows" and refresh: "refresh_keeps_live env rows"
    and run: "run_binding env reg bid period tr notes stop s = (s', r)"
  shows "not_published rows s s' r
    \<or> (\<exists>b ex w. get_binding reg bid = Inr b
         \<and> extract_rows env (bd_source b) (render_source_query (extract_query b) period (template_vars env (bd_source b))) = Inr ex
         \<and> ex \<noteq> [] \<and> staged b period (new_load_id env) ex (rows w (twin (bd_target b)))
         \<and> gate_open env b period (new_load_id env) w
         \<and> was_published rows b period (new_load_id env) ex s s' r)"
  using run
proof (rule run_binding_cases)
  fix e assume "r = Inl e" "s' = s"
  then show ?thesis by (simp add: not_published_def live_same_def)
next
  fix b src s1
  assume b: "get_binding reg bid = Inr b"
    and i: "insert_attempt env (new_load_id env) b src (case period of None \<Rightarrow> this_month env | Some p \<Rightarrow> p) tr notes s = (s1, Inr ())"
    and w: "with_lock env b period (new_load_id env) stop s1 = (s', r)"
  have "warehouse s1 = warehouse s" using keepsD [OF history_kept(5) i] by (simp add: store_same_def)
  then have live1: "live_same rows s s1" by (simp add: live_same_def)
  from w show ?thesis
  proof (rule with_lock_cases)
    fix e assume "r = Inl e" "s' = s1"
    then show ?thesis using live1 by (simp add: not_published_def)
  next
    fix in_flight
    assume "fail env (new_load_id env) ''failed_other'' None (''Lock conflict; in-flight load: '' @ text_of in_flight) s1 = (s', r)"
    then have "not_published rows s1 s' r" by (rule fail_not_published) simp
    then show ?thesis using not_published_chain [OF live1] by blast
  next
    fix s2
    let ?key = "hashtext env (''ingest_lock:'' @ bd_id b)"
    assume l: "locked_run env b period (new_load_id env) stop (s1\<lparr>locks := ?key # locks s1\<rparr>) = (s2, r)"
      and s': "s' = release_lock env (''ingest_lock:'' @ bd_id b) s2"
    have "run_outcome env rows b period (s1\<lparr>locks := ?key # locks s1\<rparr>) s2 r" using locked_run_outcome [OF store refresh l] .
    then have "run_outcome env rows b period s s' r"
      using \<open>warehouse s1 = warehouse s\<close>
      by (simp add: run_outcome_def not_published_def was_published_def publishes_def live_same_def s' release_lock_def)
    then show ?thesis using b unfolding run_outcome_def by blast
  qed
qed

text \<open>
  C3: A load publishes all or nothing. Whatever the source answers and whichever statement, history
  write, check or refresh fails, a run either leaves every live table as it was, and then does not
  report a completed success; or the source gave at least one row, the shapes agreed and no check
  blocked while exactly the extract was staged, the target holds exactly the extract (for a period
  binding: in the period, with the other periods as before), no other live table changed, and the run
  reports success or a failure of the swap stage.
\<close>

theorem load_publishes_all_or_nothing:
  assumes store: "column_store (exec env) rows" and refresh: "refresh_keeps_live env rows"
    and run: "run_binding env reg bid period tr notes stop s = (s', r)"
  shows "not_published rows s s' r
    \<or> (\<exists>b ex w. get_binding reg bid = Inr b
         \<and> extract_rows env (bd_source b) (render_source_query (extract_query b) period (template_vars env (bd_source b))) = Inr ex
         \<and> ex \<noteq> [] \<and> staged b period (new_load_id env) ex (rows w (twin (bd_target b)))
         \<and> gate_open env b period (new_load_id env) w
         \<and> was_published rows b period (new_load_id env) ex s s' r)"
  using run_binding_outcome [OF store refresh run] .

section \<open>The history tells how a run ended, and the lock is given back\<close>

text \<open>The statuses a run can end in, all of them in the \<open>CHECK\<close> of the table.\<close>

definition end_statuses :: "string list" where
  "end_statuses = [''success'', ''failed_extract'', ''failed_recon'', ''failed_swap'', ''failed_validation'', ''failed_other'', ''failed_checks'']"

definition ends :: "string \<Rightarrow> ('w, attempt) act \<Rightarrow> bool" where
  "ends i m \<longleftrightarrow> (\<forall>s s' a. dhas i (load_history s) \<longrightarrow> m s = (s', Inr a) \<longrightarrow>
     recorded s' a \<and> at_load_id a = i \<and> at_status a \<in> set end_statuses)"

lemma endsD: "ends i m \<Longrightarrow> dhas i (load_history s) \<Longrightarrow> m s = (s', Inr a) \<Longrightarrow>
     recorded s' a \<and> at_load_id a = i \<and> at_status a \<in> set end_statuses"
  unfolding ends_def by blast

lemma keeps_row: "keeps (others_same i) m \<Longrightarrow> m s = (s', r) \<Longrightarrow> dhas i (load_history s) \<Longrightarrow> dhas i (load_history s')"
  using keepsD others_same_def by blast

lemma ends_andthen: "keeps (others_same i) m \<Longrightarrow> (\<And>x. ends i (f x)) \<Longrightarrow> ends i (andthen m f)"
  unfolding ends_def by (auto elim!: andthen_cases dest: keeps_row)

lemma ends_stage:
  "keeps (others_same i) m \<Longrightarrow> (\<And>e. ends i (h e)) \<Longrightarrow> (\<And>x. ends i (rest x)) \<Longrightarrow> ends i (stage m c h rest)"
  unfolding ends_def by (auto elim!: stage_cases dest: keeps_row)

lemma ends_fail: "st \<in> set end_statuses \<Longrightarrow> ends i (fail env i st n msg)"
  unfolding ends_def by (auto dest: fail_records)

lemma ends_early: "ends i (early_finalise env i stg n)"
  unfolding ends_def by (auto dest: early_records simp: end_statuses_def)

lemma ends_success:
  "ends i (andthen (finalise env i ''success'' None)
     (\<lambda>_. give \<lparr>at_load_id = i, at_status = ''success'', at_rows = n, at_error = None, stopped_after = None\<rparr>))"
  unfolding ends_def by (auto dest!: finalise_records simp: end_statuses_def)

lemma locked_run_ends: "ends i (locked_run env b period i stop)"
proof -
  have swap: "keeps (others_same i) (swap_stage env b period i)"
    by (intro others_kept.keeps_swap_stage command_keeps_rest history_kept) (simp add: others_same_def)
  have publish: "ends i (publish env b period i n)" for n
    unfolding publish_def by (intro ends_stage swap ends_fail ends_success) (simp add: end_statuses_def)
  have checks: "ends i (after_checks env b period i stop n)" for n
    by (simp add: after_checks_def ends_early publish)
  have blocked: "ends i (if blocked run then fail env i ''failed_checks'' (Some n) msg else after_checks env b period i stop n)" for run n msg
    using ends_fail [of "''failed_checks''" i env "Some n" msg] checks [of n] by (simp add: end_statuses_def)
  have gate: "ends i (check_gate env b period i stop n totals)" for n totals
    unfolding check_gate_def using checks [of n]
    by (auto intro!: ends_stage ends_andthen others_kept.keeps_checks ends_fail blocked simp: end_statuses_def)
  have extracted: "ends i (after_extract env b period i stop n totals)" for n totals
    unfolding after_extract_def
    by (auto intro!: ends_stage others_kept.keeps_validate ends_fail ends_early gate simp: end_statuses_def)
  show ?thesis
    unfolding locked_run_def
    by (intro ends_stage others_kept.keeps_extract command_keeps_rest ends_fail)
       (auto intro!: ends_andthen extracted simp: end_statuses_def)
qed

text \<open>
  C6: Every run gives its lock back and tells how it ended. After a run, however it ends, the locks are
  those held before it, and every other attempt in the history is as it was. A run that returns has its
  own attempt in the history, finished, with the status and error it returns, and the status is one the
  table admits. While the lock of the binding is held elsewhere, the warehouse is left untouched.
\<close>

theorem run_returns_lock_and_records_end:
  assumes "run_binding env reg bid period tr notes stop s = (s', r)"
  shows "locks s' = locks s
    \<and> (\<forall>k. k \<noteq> new_load_id env \<longrightarrow> dget (load_history s') k = dget (load_history s) k)
    \<and> (\<forall>a. r = Inr a \<longrightarrow> at_load_id a = new_load_id env \<and> recorded s' a \<and> at_status a \<in> set end_statuses)
    \<and> (hashtext env (''ingest_lock:'' @ bid) \<in> set (locks s) \<longrightarrow> well_formed reg \<longrightarrow> warehouse s' = warehouse s)"
  using assms
proof (rule run_binding_cases)
  fix e assume "r = Inl e" "s' = s"
  then show ?thesis by simp
next
  fix b src s1
  let ?i = "new_load_id env"
  assume b: "get_binding reg bid = Inr b"
    and ins: "insert_attempt env ?i b src (case period of None \<Rightarrow> this_month env | Some p \<Rightarrow> p) tr notes s = (s1, Inr ())"
    and w: "with_lock env b period ?i stop s1 = (s', r)"
  have s1: "locks s1 = locks s" "warehouse s1 = warehouse s" "others_same ?i s s1"
    using keepsD [OF history_kept(10) ins] keepsD [OF history_kept(5) ins] keepsD [OF insert_keeps_others ins]
    by (simp_all add: locks_same_def store_same_def)
  have row: "dhas ?i (load_history s1)"
    using ins unfolding insert_attempt_def by (auto elim!: history_step_cases simp: dict_simps dhas_iff split: if_splits)
  have own: "well_formed reg \<longrightarrow> bd_id b = bid" using well_formed_lookup(1) b by blast
  from w show ?thesis
  proof (rule with_lock_cases)
    fix e assume "r = Inl e" "s' = s1"
    then show ?thesis using s1 by (simp add: others_same_def)
  next
    fix in_flight
    assume f: "fail env ?i ''failed_other'' None (''Lock conflict; in-flight load: '' @ text_of in_flight) s1 = (s', r)"
    have "store_same s1 s'" "locks_same s1 s'" "others_same ?i s1 s'"
      using keepsD [OF store_kept.keeps_fail [OF history_kept(4)] f] keepsD [OF locks_kept.keeps_fail [OF history_kept(9)] f]
        keepsD [OF others_kept.keeps_fail [OF history_kept(14)] f] by simp_all
    moreover have "recorded s' a \<and> at_load_id a = ?i \<and> at_status a \<in> set end_statuses" if "r = Inr a" for a
      by (rule endsD [OF ends_fail row]) (use f that in \<open>simp_all add: end_statuses_def\<close>)
    ultimately show ?thesis using s1 by (auto simp: store_same_def locks_same_def others_same_def)
  next
    fix s2
    let ?key = "hashtext env (''ingest_lock:'' @ bd_id b)"
    assume free: "?key \<notin> set (locks s1)"
      and l: "locked_run env b period ?i stop (s1\<lparr>locks := ?key # locks s1\<rparr>) = (s2, r)"
      and s': "s' = release_lock env (''ingest_lock:'' @ bd_id b) s2"
    have "locks s2 = ?key # locks s1" "others_same ?i s1 s2"
      using keepsD [OF locked_run_keeps_rest(1) l] keepsD [OF locked_run_keeps_rest(2) l]
      by (simp_all add: locks_same_def others_same_def)
    moreover have "recorded s2 a \<and> at_load_id a = ?i \<and> at_status a \<in> set end_statuses" if "r = Inr a" for a
      by (rule endsD [OF locked_run_ends]) (use row l that in simp_all)
    ultimately show ?thesis using s1 own free
      by (auto simp: s' release_lock_def others_same_def recorded_def)
  qed
qed

section \<open>A warehouse in memory\<close>

text \<open>Tables as lists of rows; some statements can be made to fail before they do anything.\<close>

type_synonym 'r tables = "(string, 'r landed list) dict"

fun apply_command :: "'r tables \<Rightarrow> 'r command \<Rightarrow> 'r tables" where
  "apply_command w (DropPartition t p) = dset t (filter (\<lambda>r. row_period r \<noteq> p) (dget_or [] w t)) w"
| "apply_command w (TruncateIfExists t) = dset t [] w"
| "apply_command w (InsertRows t rs) = dset t (dget_or [] w t @ rs) w"
| "apply_command w (ReplacePartition t p src) =
     dset t (filter (\<lambda>r. row_period r \<noteq> p) (dget_or [] w t) @ filter (\<lambda>r. row_period r = p) (dget_or [] w src)) w"
| "apply_command w (ExchangeTables t u) = dset t (dget_or [] w u) (dset u (dget_or [] w t) w)"

definition memory_command :: "('r tables \<Rightarrow> 'r command \<Rightarrow> exn option) \<Rightarrow> 'r tables \<Rightarrow> 'r command \<Rightarrow> 'r tables \<times> exn option" where
  "memory_command fault w c = (case fault w c of None \<Rightarrow> (apply_command w c, None) | Some e \<Rightarrow> (w, Some e))"

definition memory_rows :: "'r tables \<Rightarrow> string \<Rightarrow> 'r landed multiset" where
  "memory_rows w t = mset (dget_or [] w t)"

lemma memory_run:
  "memory_command fault w c = (w', None) \<Longrightarrow> w' = apply_command w c"
  "memory_command fault w c = (w', Some e) \<Longrightarrow> w' = w"
  by (auto simp: memory_command_def split: option.splits)

interpretation memory: column_store "memory_command fault" memory_rows for fault
proof
  show "memory_rows (fst (memory_command fault w c)) t = memory_rows w t" if "t \<notin> tables_of c" for t c and w :: "'a tables"
    using that by (cases c) (auto simp: memory_command_def memory_rows_def dget_or_dset split: option.splits)
qed (auto simp: memory_rows_def partition_of_def without_partition_def dget_or_dset dest!: memory_run)

section \<open>Examples\<close>

definition gl_schedule :: schedule where
  "gl_schedule = \<lparr>sched_mode = Cron, cron_expression = Some ''0 6 * * *'', sched_timezone = Some ''UTC'',
     selection = \<lparr>sel_strategy = Lookback, lookback_periods = 3\<rparr>, push_auth = None, sched_watch = None\<rparr>"

definition gl_binding :: "int binding" where
  "gl_binding = \<lparr>bd_id = ''gl_erp'', bd_source = ''erp'', bd_target = ''live.fact_gl'', bd_scenario = ''ACT'', bd_kind = Period,
     bd_schedule = gl_schedule, extract_query = ''SELECT * FROM gl'', checks = []\<rparr>"

definition gl_registry :: "int registry" where
  "gl_registry = \<lparr>sources = [(''erp'', \<lparr>src_id = ''erp'', src_kind = ''postgres'', secret_ref = ''ERP''\<rparr>)], bindings = [(''gl_erp'', gl_binding)]\<rparr>"

definition gl_env ::
  "(int tables \<Rightarrow> int command \<Rightarrow> exn option) \<Rightarrow> (string \<Rightarrow> string \<Rightarrow> (exn, (string \<times> string) list) res) \<Rightarrow> int extracted list
     \<Rightarrow> (int tables, int, int, int) env" where
  "gl_env fault cols ex =
     \<lparr>exec = memory_command fault, columns_of = (\<lambda>w. cols),
      check_reader = (\<lambda>w. \<lparr>count_rows = (\<lambda>q. Inr (Some 0)), fetch_rows = (\<lambda>q. Inr []), number = Some\<rparr>),
      float_ops = \<lparr>distance = (\<lambda>x y. abs (x - y)), magnitude = abs, quotient = (\<lambda>x y. x div y), at_most = (\<le>), exceeds = (>),
         float_zero = 0, minus_one = - 1\<rparr>,
      backend_error = (\<lambda>src. None), source_path = (\<lambda>src. None), extract_rows = (\<lambda>src q. Inr ex), total_rows = (\<lambda>src q. Inr []),
      refresh_hierarchies = None, history_error = (\<lambda>op. None), lock_error = None, hashtext = (\<lambda>k. int (length k)),
      new_load_id = ''L2'', clock = 50, this_month = ''2025-06''\<rparr>"

definition same_columns :: "string \<Rightarrow> string \<Rightarrow> (exn, (string \<times> string) list) res" where
  "same_columns database table = Inr [(''period'', ''String''), (''amount'', ''Decimal(18, 2)'')]"

definition old_row :: "string \<Rightarrow> int landed" where
  "old_row p = \<lparr>row_period = p, row_data = 10, load_tag = ''L1''\<rparr>"

definition gl_world :: "int tables world" where
  "gl_world = \<lparr>warehouse = [(''live.fact_gl'', [old_row ''2025-04'', old_row ''2025-05''])], load_history = [], locks = []\<rparr>"

lemma gl_lookup: "get_binding gl_registry ''gl_erp'' = Inr gl_binding"
  "get_source gl_registry ''erp'' = Inr \<lparr>src_id = ''erp'', src_kind = ''postgres'', secret_ref = ''ERP''\<rparr>"
  by (simp_all add: get_binding_def get_source_def gl_registry_def)

lemma gl_target: "bd_target gl_binding = ''live.fact_gl''" "startswith ''live.fact_gl'' ''live.''" "twin ''live.fact_gl'' = ''staging.fact_gl''"
  "period_re ''2025-05''" "bd_kind gl_binding = Period" "checks gl_binding = []" "bd_id gl_binding = ''gl_erp''" "bd_source gl_binding = ''erp''"
  by code_simp+

lemma gl_shape: "shape_passed (diff_shapes (dmerge [] [(''period'', ''String''), (''amount'', ''Decimal(18, 2)'')])
    (dmerge [] [(''period'', ''String''), (''amount'', ''Decimal(18, 2)'')]))"
  by code_simp

text \<open>The run up to the lock, the extract into staging, and the validation of equal shapes.\<close>

definition gl_row :: load_row where
  "gl_row = \<lparr>lh_binding = ''gl_erp'', lh_source = ''erp'', lh_dataset = ''fact_gl'', lh_period = ''2025-05'', lh_scenario = ''ACT'',
     lh_triggered_by = ''cron'', lh_notes = None, lh_status = ''running'', rows_landed = None, control_total_result = None,
     swap_committed = False, dbt_refreshed = False, lh_started = 50, finished = False, error_message = None\<rparr>"

definition gl_started :: "int tables world" where
  "gl_started = gl_world\<lparr>load_history := [(''L2'', gl_row)], locks := [18]\<rparr>"

lemma gl_open:
  "run_binding (gl_env fault cols ex) gl_registry ''gl_erp'' (Some ''2025-05'') ''cron'' None None gl_world
     = (case locked_run (gl_env fault cols ex) gl_binding (Some ''2025-05'') ''L2'' None gl_started of
          (s1, r) \<Rightarrow> (s1\<lparr>locks := remove1 18 (locks s1)\<rparr>, r))"
proof -
  have ins: "open_attempt (gl_env fault cols ex) gl_binding \<lparr>src_id = ''erp'', src_kind = ''postgres'', secret_ref = ''ERP''\<rparr> (Some ''2025-05'')
       ''cron'' None gl_world = (gl_world\<lparr>load_history := [(''L2'', gl_row)]\<rparr>, Inr ())"
    by (simp add: open_attempt_def gl_target insert_attempt_def history_step_def gl_env_def gl_world_def gl_row_def
        dhas_def table_name_def gl_binding_def)
  have lock: "with_lock (gl_env fault cols ex) gl_binding (Some ''2025-05'') ''L2'' None (gl_world\<lparr>load_history := [(''L2'', gl_row)]\<rparr>)
     = (case locked_run (gl_env fault cols ex) gl_binding (Some ''2025-05'') ''L2'' None gl_started of
          (s1, r) \<Rightarrow> (s1\<lparr>locks := remove1 18 (locks s1)\<rparr>, r))"
    by (simp add: with_lock_def Let_def andthen_def acquire_lock_def gl_target gl_started_def gl_world_def and_finally_def release_lock_def gl_env_def)
  show ?thesis
    unfolding run_binding_def gl_lookup res_wrap_Inr andthen_lift gl_target
    using ins lock by (simp add: andthen_def gl_env_def)
qed

lemma gl_staged:
  assumes "ex \<noteq> []" and "fault (warehouse s) (DropPartition ''staging.fact_gl'' ''2025-05'') = None"
    and "w1 = apply_command (warehouse s) (DropPartition ''staging.fact_gl'' ''2025-05'')"
    and "fault w1 (InsertRows ''staging.fact_gl'' (map (tag ''L2'') ex)) = None"
    and "w2 = apply_command w1 (InsertRows ''staging.fact_gl'' (map (tag ''L2'') ex))"
  shows "locked_run (gl_env fault cols ex) gl_binding (Some ''2025-05'') ''L2'' None s
     = stage (validate_stage (gl_env fault cols ex) gl_binding) caught_by_validate
        (\<lambda>e. fail (gl_env fault cols ex) ''L2'' ''failed_recon'' (Some (int (length ex))) (''Validation failed: '' @ exn_text e))
        (\<lambda>_. publish (gl_env fault cols ex) gl_binding (Some ''2025-05'') ''L2'' (int (length ex)))
        (s\<lparr>warehouse := w2, load_history := update_row ''L2'' (\<lambda>r. r\<lparr>rows_landed := Some (int (length ex))\<rparr>) (load_history s)\<rparr>)"
proof -
  let ?env = "gl_env fault cols ex"
  have "execute ?env gl_binding (Some ''2025-05'') ''L2'' vars s = (s\<lparr>warehouse := w2\<rparr>, Inr (int (length ex)))" for vars
    using assms by (simp add: execute_def validate_period_args_def gl_target staging_table_def clear_staging_def command_def
        andthen_def try_except_def give_def gl_env_def memory_command_def del: apply_command.simps)
  then have "extract_stage ?env gl_binding (Some ''2025-05'') ''L2'' s = (s\<lparr>warehouse := w2\<rparr>, Inr (int (length ex), []))"
    by (simp add: extract_stage_def andthen_def capture_totals_def reconcile_checks_def gl_target gl_env_def)
  moreover have "record_extract ?env ''L2'' (int (length ex)) (s\<lparr>warehouse := w2\<rparr>) =
      (s\<lparr>warehouse := w2, load_history := update_row ''L2'' (\<lambda>r. r\<lparr>rows_landed := Some (int (length ex))\<rparr>) (load_history s)\<rparr>, Inr ())"
    by (simp add: record_extract_def history_step_def gl_env_def)
  moreover have "check_gate ?env gl_binding (Some ''2025-05'') ''L2'' None n totals = publish ?env gl_binding (Some ''2025-05'') ''L2'' n" for n totals
    by (simp add: check_gate_def after_checks_def gl_target)
  ultimately show ?thesis using assms(1)
    by (simp add: locked_run_def stage_def andthen_def try_except_def give_def after_extract_def)
qed

lemma gl_valid: "validate_stage (gl_env fault same_columns ex) gl_binding s = (s, Inr ())"
  using gl_shape by (simp add: validate_stage_def validate_staging_shape_def read_column_shape_def gl_target gl_env_def same_columns_def)

lemma gl_publish:
  assumes "fault (warehouse s) (ReplacePartition ''live.fact_gl'' ''2025-05'' ''staging.fact_gl'') = None"
    and "w1 = apply_command (warehouse s) (ReplacePartition ''live.fact_gl'' ''2025-05'' ''staging.fact_gl'')"
  shows "fault w1 (DropPartition ''staging.fact_gl'' ''2025-05'') = None \<Longrightarrow>
      \<exists>s'. publish (gl_env fault cols ex) gl_binding (Some ''2025-05'') ''L2'' n s =
           (s', Inr \<lparr>at_load_id = ''L2'', at_status = ''success'', at_rows = Some n, at_error = None, stopped_after = None\<rparr>)
         \<and> warehouse s' = apply_command w1 (DropPartition ''staging.fact_gl'' ''2025-05'') \<and> locks s' = locks s"
    and "fault w1 (DropPartition ''staging.fact_gl'' ''2025-05'') = Some e \<Longrightarrow>
      publish (gl_env fault cols ex) gl_binding (Some ''2025-05'') ''L2'' n s =
        (s\<lparr>warehouse := w1, load_history := update_row ''L2'' (\<lambda>r. r\<lparr>lh_status := ''failed_swap'', finished := True,
             error_message := Some (''Swap failed: '' @ exn_text e)\<rparr>) (load_history s)\<rparr>,
         Inr \<lparr>at_load_id = ''L2'', at_status = ''failed_swap'', at_rows = Some n, at_error = Some (''Swap failed: '' @ exn_text e), stopped_after = None\<rparr>)"
  using assms
  by (simp_all add: publish_def stage_def swap_stage_def do_swap_def swap_partition_def staging_for_def gl_target gl_env_def command_def
      andthen_def try_except_def give_def memory_command_def record_swap_def finalise_def history_step_def fail_def del: apply_command.simps)

lemma gl_run:
  assumes "ex \<noteq> []"
  shows "\<exists>s'. run_binding (gl_env (\<lambda>w c. None) same_columns ex) gl_registry ''gl_erp'' (Some ''2025-05'') ''cron'' None None gl_world
     = (s', Inr \<lparr>at_load_id = ''L2'', at_status = ''success'', at_rows = Some (int (length ex)), at_error = None, stopped_after = None\<rparr>)"
proof -
  let ?env = "gl_env (\<lambda>w c. None) same_columns ex" and ?n = "int (length ex)"
  obtain s1 where s1: "locked_run ?env gl_binding (Some ''2025-05'') ''L2'' None gl_started
      = stage (validate_stage ?env gl_binding) caught_by_validate
        (\<lambda>e. fail ?env ''L2'' ''failed_recon'' (Some ?n) (''Validation failed: '' @ exn_text e))
        (\<lambda>_. publish ?env gl_binding (Some ''2025-05'') ''L2'' ?n) s1"
    using gl_staged [where fault = "\<lambda>w c. None", OF assms refl refl refl refl] by metis
  have "locked_run ?env gl_binding (Some ''2025-05'') ''L2'' None gl_started = publish ?env gl_binding (Some ''2025-05'') ''L2'' ?n s1"
    unfolding s1 by (simp add: stage_def andthen_def try_except_def give_def gl_valid)
  then show ?thesis
    using gl_publish(1) [where fault = "\<lambda>w c. None" and s = s1, OF refl refl refl, of same_columns ex ?n] unfolding gl_open by auto
qed

definition new_row :: "string \<Rightarrow> int extracted" where
  "new_row p = \<lparr>ex_period = p, ex_data = 25\<rparr>"

lemma gl_refresh: "refresh_keeps_live (gl_env fault cols ex) rows"
  by (simp add: refresh_keeps_live_def gl_env_def)

lemma gl_memory: "column_store (exec (gl_env fault cols ex)) memory_rows"
  using memory.column_store_axioms by (simp add: gl_env_def)

theorem load_publishes_all_or_nothing_witness:
  "\<exists>s' r. run_binding (gl_env (\<lambda>w c. None) same_columns [new_row ''2025-05'']) gl_registry ''gl_erp'' (Some ''2025-05'') ''cron'' None None gl_world = (s', r)
     \<and> memory_rows (warehouse s') ''live.fact_gl'' = {#old_row ''2025-04'', tag ''L2'' (new_row ''2025-05'')#}"
proof -
  let ?env = "gl_env (\<lambda>w c. None) same_columns [new_row ''2025-05'']"
  obtain s' where run: "run_binding ?env gl_registry ''gl_erp'' (Some ''2025-05'') ''cron'' None None gl_world
     = (s', Inr \<lparr>at_load_id = ''L2'', at_status = ''success'', at_rows = Some (int (length [new_row ''2025-05''])), at_error = None, stopped_after = None\<rparr>)"
    using gl_run [of "[new_row ''2025-05'']"] by auto
  have "memory_rows (warehouse s') ''live.fact_gl'' = published gl_binding (Some ''2025-05'') ''L2'' [new_row ''2025-05''] (memory_rows (warehouse gl_world) ''live.fact_gl'')"
    using load_publishes_all_or_nothing [OF gl_memory gl_refresh run]
    by (auto simp: not_published_def was_published_def publishes_def gl_lookup gl_target) (auto simp: gl_env_def)
  also have "\<dots> = {#old_row ''2025-04'', tag ''L2'' (new_row ''2025-05'')#}"
    by (simp add: published_def gl_target memory_rows_def gl_world_def dget_or_def without_partition_def partition_of_def landing_def
        old_row_def new_row_def tag_def)
  finally show ?thesis using run by blast
qed

theorem run_returns_lock_and_records_end_witness:
  "\<exists>s' a. run_binding (gl_env (\<lambda>w c. None) same_columns [new_row ''2025-05'']) gl_registry ''gl_erp'' (Some ''2025-05'') ''cron'' None None gl_world = (s', Inr a)
     \<and> recorded s' a \<and> locks s' = []"
proof -
  obtain s' a where run: "run_binding (gl_env (\<lambda>w c. None) same_columns [new_row ''2025-05'']) gl_registry ''gl_erp'' (Some ''2025-05'') ''cron'' None None gl_world
     = (s', Inr a)"
    using gl_run [of "[new_row ''2025-05'']"] by auto
  have "locks gl_world = []" by (simp add: gl_world_def)
  then show ?thesis using run_returns_lock_and_records_end [OF run] run by auto
qed

section \<open>Where the run falls short of its intention\<close>

text \<open>
  C27: An extract of other periods wipes the period. The guard against publishing an empty partition
  counts the rows of the extract, not those of the period: when the source answers with rows of another
  period only, the run of period \<open>2025-05\<close> reports success and the period is gone from the live table.
\<close>

theorem extract_of_other_period_wipes_live:
  "\<exists>s' a. run_binding (gl_env (\<lambda>w c. None) same_columns [new_row ''2025-06'']) gl_registry ''gl_erp'' (Some ''2025-05'') ''cron'' None None gl_world = (s', Inr a)
     \<and> at_status a = ''success''
     \<and> partition_of ''2025-05'' (memory_rows (warehouse gl_world) ''live.fact_gl'') \<noteq> {#}
     \<and> partition_of ''2025-05'' (memory_rows (warehouse s') ''live.fact_gl'') = {#}"
proof -
  let ?env = "gl_env (\<lambda>w c. None) same_columns [new_row ''2025-06'']"
  obtain s' where run: "run_binding ?env gl_registry ''gl_erp'' (Some ''2025-05'') ''cron'' None None gl_world
     = (s', Inr \<lparr>at_load_id = ''L2'', at_status = ''success'', at_rows = Some (int (length [new_row ''2025-06''])), at_error = None, stopped_after = None\<rparr>)"
    using gl_run [of "[new_row ''2025-06'']"] by auto
  have "memory_rows (warehouse s') ''live.fact_gl'' = published gl_binding (Some ''2025-05'') ''L2'' [new_row ''2025-06''] (memory_rows (warehouse gl_world) ''live.fact_gl'')"
    using run_binding_outcome [OF gl_memory gl_refresh run]
    by (auto simp: not_published_def was_published_def publishes_def gl_lookup gl_target) (auto simp: gl_env_def)
  then have "partition_of ''2025-05'' (memory_rows (warehouse s') ''live.fact_gl'') = {#}"
    by (simp add: published_def gl_target without_partition_def partition_of_def landing_def new_row_def tag_def filter_filter_mset)
  moreover have "partition_of ''2025-05'' (memory_rows (warehouse gl_world) ''live.fact_gl'') \<noteq> {#}"
    by (simp add: partition_of_def memory_rows_def gl_world_def dget_or_def old_row_def)
  ultimately show ?thesis using run by fastforce
qed


text \<open>The row just inserted is the last one, so it is the one the search for a running attempt finds.\<close>

lemma find_last: "List.find P (rev (xs @ [x])) = (if P x then Some x else List.find P (rev xs))"
  by simp

lemma dset_new: "\<not> dhas k d \<Longrightarrow> dset k v d = d @ [(k, v)]"
  by (induction d) (auto simp: dhas_def)

lemma inserted_is_found:
  assumes "insert_attempt env i b src p tr notes s = (s1, Inr ())" and "find_running_for_binding env (bd_id b) s1 = (s1, Inr found)"
  shows "found = Some i"
  using assms unfolding insert_attempt_def find_running_for_binding_def
  by (auto elim!: history_step_cases simp: dset_new find_last split: if_splits option.splits)

text \<open>
  A conflict names the run itself. The attempt is recorded as running before the lock is tried, so when
  the lock of the binding is held by another run, the load the conflict reports as in flight is the
  refused attempt, not the run that holds the lock.
\<close>

theorem lock_conflict_names_itself:
  assumes run: "run_binding env reg bid period tr notes stop s = (s', Inr a)" and reg: "well_formed reg"
    and held: "hashtext env (''ingest_lock:'' @ bid) \<in> set (locks s)"
  shows "at_status a = ''failed_other'' \<and> at_error a = Some (''Lock conflict; in-flight load: '' @ new_load_id env)"
  using run
proof (rule run_binding_cases)
  fix e assume "Inr a = Inl e"
  then show ?thesis by simp
next
  fix b src s1
  let ?i = "new_load_id env"
  assume b: "get_binding reg bid = Inr b"
    and ins: "insert_attempt env ?i b src (case period of None \<Rightarrow> this_month env | Some p \<Rightarrow> p) tr notes s = (s1, Inr ())"
    and w: "with_lock env b period ?i stop s1 = (s', Inr a)"
  have own: "bd_id b = bid" using well_formed_lookup(1) b reg by blast
  have still: "locks s1 = locks s" using keepsD [OF history_kept(10) ins] by (simp add: locks_same_def)
  from w show ?thesis
  proof (rule with_lock_cases)
    fix in_flight
    assume f: "fail env ?i ''failed_other'' None (''Lock conflict; in-flight load: '' @ text_of in_flight) s1 = (s', Inr a)"
      and "find_running_for_binding env (bd_id b) s1 = (s1, Inr in_flight)"
    then have "in_flight = Some ?i" using inserted_is_found [OF ins] by simp
    then show ?thesis using f by (auto simp: fail_def give_def text_of_def elim!: andthen_cases)
  qed (use held own still in simp_all)
qed

lemma gl_well_formed: "well_formed gl_registry"
  by code_simp

theorem lock_conflict_names_itself_witness:
  "\<exists>s' a. run_binding (gl_env (\<lambda>w c. None) same_columns []) gl_registry ''gl_erp'' (Some ''2025-05'') ''cron'' None None (gl_world\<lparr>locks := [18]\<rparr>) = (s', Inr a)
     \<and> at_error a = Some ''Lock conflict; in-flight load: L2''"
proof -
  let ?env = "gl_env (\<lambda>w c. None) same_columns []" and ?s = "gl_world\<lparr>locks := [18]\<rparr>"
  have "\<exists>s' a. run_binding ?env gl_registry ''gl_erp'' (Some ''2025-05'') ''cron'' None None ?s = (s', Inr a)"
    unfolding run_binding_def gl_lookup res_wrap_Inr andthen_lift gl_target
    by (simp add: andthen_def open_attempt_def gl_target insert_attempt_def history_step_def gl_env_def gl_world_def dhas_def
        with_lock_def Let_def acquire_lock_def find_running_for_binding_def fail_def finalise_def give_def)
  then obtain s' a where run: "run_binding ?env gl_registry ''gl_erp'' (Some ''2025-05'') ''cron'' None None ?s = (s', Inr a)" by blast
  have "hashtext ?env (''ingest_lock:'' @ ''gl_erp'') \<in> set (locks ?s)" by (simp add: gl_env_def)
  from lock_conflict_names_itself [OF run gl_well_formed this] show ?thesis
    using run by (auto simp: gl_env_def)
qed

text \<open>
  A fault of the column query leaves a run running. The validation stage catches the errors of the
  shape check, not those of the query behind it, so such an error ends the run with an exception: the row
  of the attempt stays \<open>running\<close> for ever, while the lock is given back.
\<close>

theorem column_query_fault_leaves_run_running:
  "\<exists>s' row. run_binding (gl_env (\<lambda>w c. None) (\<lambda>database table. Inl (OtherError m)) [new_row ''2025-05'']) gl_registry ''gl_erp''
        (Some ''2025-05'') ''cron'' None None gl_world = (s', Inl (OtherError m))
     \<and> dget (load_history s') ''L2'' = Some row \<and> lh_status row = ''running'' \<and> \<not> finished row \<and> locks s' = []"
proof -
  let ?env = "gl_env (\<lambda>w c. None) (\<lambda>database table. Inl (OtherError m)) [new_row ''2025-05'']"
  obtain w where w: "locked_run ?env gl_binding (Some ''2025-05'') ''L2'' None gl_started
      = stage (validate_stage ?env gl_binding) caught_by_validate
        (\<lambda>e. fail ?env ''L2'' ''failed_recon'' (Some 1) (''Validation failed: '' @ exn_text e))
        (\<lambda>_. publish ?env gl_binding (Some ''2025-05'') ''L2'' 1)
        (gl_started\<lparr>warehouse := w, load_history := update_row ''L2'' (\<lambda>r. r\<lparr>rows_landed := Some 1\<rparr>) (load_history gl_started)\<rparr>)"
    using gl_staged [where fault = "\<lambda>w c. None" and ex = "[new_row ''2025-05'']", OF _ refl refl refl refl] by fastforce
  have "validate_stage ?env gl_binding s = (s, Inl (OtherError m))" for s
    by (simp add: validate_stage_def validate_staging_shape_def read_column_shape_def gl_target gl_env_def)
  then have "locked_run ?env gl_binding (Some ''2025-05'') ''L2'' None gl_started
      = (gl_started\<lparr>warehouse := w, load_history := update_row ''L2'' (\<lambda>r. r\<lparr>rows_landed := Some 1\<rparr>) (load_history gl_started)\<rparr>, Inl (OtherError m))"
    unfolding w by (simp add: stage_def andthen_def try_except_def give_def)
  then show ?thesis unfolding gl_open
    by (simp add: gl_started_def gl_world_def update_row_get gl_row_def)
qed

text \<open>
  A fault of the cleanup hides a publication. When the staged partition cannot be dropped after the
  live one was replaced, the run reports \<open>failed_swap\<close> and its row does not record a committed swap,
  although the new rows are live.
\<close>

definition cleanup_fault :: "int tables \<Rightarrow> int command \<Rightarrow> exn option" where
  "cleanup_fault w c = (if c = DropPartition ''staging.fact_gl'' ''2025-05'' \<and> dhas ''staging.fact_gl'' w then Some (OtherError ''timeout'') else None)"

theorem cleanup_fault_hides_publication:
  "\<exists>s' a row. run_binding (gl_env cleanup_fault same_columns [new_row ''2025-05'']) gl_registry ''gl_erp''
        (Some ''2025-05'') ''cron'' None None gl_world = (s', Inr a)
     \<and> at_status a = ''failed_swap'' \<and> dget (load_history s') ''L2'' = Some row \<and> \<not> swap_committed row
     \<and> memory_rows (warehouse s') ''live.fact_gl'' = {#old_row ''2025-04'', tag ''L2'' (new_row ''2025-05'')#}"
proof -
  let ?env = "gl_env cleanup_fault same_columns [new_row ''2025-05'']"
  let ?w1 = "apply_command (warehouse gl_started) (DropPartition ''staging.fact_gl'' ''2025-05'')"
  let ?w2 = "apply_command ?w1 (InsertRows ''staging.fact_gl'' (map (tag ''L2'') [new_row ''2025-05'']))"
  let ?w3 = "apply_command ?w2 (ReplacePartition ''live.fact_gl'' ''2025-05'' ''staging.fact_gl'')"
  let ?s = "gl_started\<lparr>warehouse := ?w2, load_history := update_row ''L2'' (\<lambda>r. r\<lparr>rows_landed := Some 1\<rparr>) (load_history gl_started)\<rparr>"
  have free: "cleanup_fault (warehouse gl_started) (DropPartition ''staging.fact_gl'' ''2025-05'') = None"
    "cleanup_fault w (InsertRows t rs) = None" "cleanup_fault w (ReplacePartition t p src) = None" for w t rs p src
    by (simp_all add: cleanup_fault_def gl_started_def gl_world_def dhas_def)
  have stuck: "cleanup_fault ?w3 (DropPartition ''staging.fact_gl'' ''2025-05'') = Some (OtherError ''timeout'')"
    by (simp add: cleanup_fault_def dhas_iff dict_simps)
  have "locked_run ?env gl_binding (Some ''2025-05'') ''L2'' None gl_started
      = stage (validate_stage ?env gl_binding) caught_by_validate
        (\<lambda>e. fail ?env ''L2'' ''failed_recon'' (Some 1) (''Validation failed: '' @ exn_text e))
        (\<lambda>_. publish ?env gl_binding (Some ''2025-05'') ''L2'' 1) ?s"
    using gl_staged [where fault = cleanup_fault and ex = "[new_row ''2025-05'']" and s = gl_started, OF _ free(1) refl free(2) refl] by simp
  then have "locked_run ?env gl_binding (Some ''2025-05'') ''L2'' None gl_started = publish ?env gl_binding (Some ''2025-05'') ''L2'' 1 ?s"
    by (simp add: stage_def andthen_def try_except_def give_def gl_valid)
  also have "\<dots> = (?s\<lparr>warehouse := ?w3, load_history := update_row ''L2'' (\<lambda>r. r\<lparr>lh_status := ''failed_swap'', finished := True,
             error_message := Some (''Swap failed: '' @ exn_text (OtherError ''timeout''))\<rparr>) (load_history ?s)\<rparr>,
         Inr \<lparr>at_load_id = ''L2'', at_status = ''failed_swap'', at_rows = Some 1, at_error = Some (''Swap failed: '' @ exn_text (OtherError ''timeout'')), stopped_after = None\<rparr>)"
    using gl_publish(2) [where fault = cleanup_fault and s = ?s, OF free(3) refl] stuck by simp
  finally have ran: "locked_run ?env gl_binding (Some ''2025-05'') ''L2'' None gl_started = \<dots>" .
  have "memory_rows ?w3 ''live.fact_gl'' = {#old_row ''2025-04'', tag ''L2'' (new_row ''2025-05'')#}"
    by (simp add: memory_rows_def dget_or_dset gl_started_def gl_world_def old_row_def new_row_def tag_def) (simp add: dget_or_def)
  then show ?thesis unfolding gl_open ran
    by (simp add: gl_started_def gl_world_def update_row_get gl_row_def del: apply_command.simps)
qed

end
