(* ===== verification/Schedule.thy ===== *)
theory Schedule
  imports LoadSafety Periods
begin

text \<open>
  When loads run. The periods a binding loads at a tick (\<open>ingestion/period_selection.py\<close>), the questions
  the triggers ask of the load history (\<open>ingestion/load_history.py\<close>), and the tick of the cron scheduler
  (\<open>ingestion/scheduler.py\<close>) over the runs of the theory \<open>Ingestion\<close>. A time is an instant with the year
  and month its clock shows; the cron library and the surroundings of each run are parameters.
\<close>

section \<open>Period selection\<close>

record moment =
  instant :: int
  dt_year :: int
  dt_month :: int

datatype selection_error = InvalidCalendarPeriod string | NonCalendarPeriod string | YearOutOfRange string
  | ExplicitPeriodMissing | EmptyExplicitPeriod

(* ingestion/period_selection.py:58-74 SelectionContext *)
record selection_context =
  sc_now :: moment
  explicit_period :: "string option"
  latest_loaded_period :: "string option"
  watermark_fallback_periods :: int

(* ingestion/period_selection.py:82-85 datetime_to_period *)
definition datetime_to_period :: "moment \<Rightarrow> string" where
  "datetime_to_period t = month_code (dt_year t) (dt_month t)"

(* ingestion/period_selection.py:88-108 _parse_calendar_period *)
definition parse_calendar_period :: "string \<Rightarrow> (selection_error, int \<times> int) res" where
  "parse_calendar_period p =
     (if length p \<noteq> 7 \<or> p ! 4 \<noteq> CHR ''-'' \<or> \<not> digit_text (take 4 p) \<or> \<not> digit_text (drop 5 p)
      then Inl (InvalidCalendarPeriod p)
      else let year = int (num_val (take 4 p)); month = int (num_val (drop 5 p))
        in if \<not> (1 \<le> month \<and> month \<le> 12) then Inl (NonCalendarPeriod p) else Inr (year, month))"

text \<open>\<open>datetime(year, month, 1)\<close>, which exists from year 1 on, as the number of its month.\<close>

(* ingestion/period_selection.py:111-114 period_to_first_of_month *)
definition period_to_first_of_month :: "string \<Rightarrow> (selection_error, int) res" where
  "period_to_first_of_month p =
     res_bind (parse_calendar_period p)
       (\<lambda>(year, month). if year < 1 then Inl (YearOutOfRange p) else Inr (month_index year month))"

(* ingestion/period_selection.py:117-122 shift_month *)
definition shift_month :: "string \<Rightarrow> int \<Rightarrow> (selection_error, string) res" where
  "shift_month p delta = res_map (\<lambda>(year, month). index_code (month_index year month + delta)) (parse_calendar_period p)"

definition trailing :: "string \<Rightarrow> int \<Rightarrow> (selection_error, string list) res" where
  "trailing last_period n = res_mapM (\<lambda>i. shift_month last_period (- i)) (rev [0..n - 1])"

(* ingestion/period_selection.py:168-172 _select_lookback *)
definition select_lookback :: "'f binding \<Rightarrow> selection_context \<Rightarrow> (selection_error, string list) res" where
  "select_lookback b ctx = trailing (datetime_to_period (sc_now ctx)) (lookback_periods (selection (bd_schedule b)))"

(* ingestion/period_selection.py:175-185 _select_explicit *)
definition select_explicit :: "selection_context \<Rightarrow> (selection_error, string list) res" where
  "select_explicit ctx =
     (case explicit_period ctx of
        None \<Rightarrow> Inl ExplicitPeriodMissing
      | Some p \<Rightarrow> if p = [] then Inl EmptyExplicitPeriod else Inr [p])"

text \<open>The loop of the watermark: at most \<open>safety\<close> steps from the cursor up to the last month.\<close>

(* ingestion/period_selection.py:202-206 _select_watermark *)
fun walk_months :: "nat \<Rightarrow> string \<Rightarrow> int \<Rightarrow> (selection_error, string list) res" where
  "walk_months 0 cursor last_month = res_map (\<lambda>_. []) (period_to_first_of_month cursor)"
| "walk_months (Suc safety) cursor last_month =
     res_bind (period_to_first_of_month cursor)
       (\<lambda>c. if c \<le> last_month
             then res_bind (shift_month cursor 1) (\<lambda>next_month. res_map ((#) cursor) (walk_months safety next_month last_month))
             else Inr [])"

(* ingestion/period_selection.py:188-206 _select_watermark *)
definition select_watermark :: "selection_context \<Rightarrow> (selection_error, string list) res" where
  "select_watermark ctx =
     (let tick_period = datetime_to_period (sc_now ctx)
      in case latest_loaded_period ctx of
           None \<Rightarrow> trailing tick_period (watermark_fallback_periods ctx)
         | Some latest \<Rightarrow>
             res_bind (shift_month latest 1)
               (\<lambda>cursor. res_bind (period_to_first_of_month tick_period) (walk_months 240 cursor)))"

(* ingestion/period_selection.py:130-165 select_periods *)
definition select_periods :: "'f binding \<Rightarrow> selection_context \<Rightarrow> (selection_error, string option list) res" where
  "select_periods b ctx =
     (if bd_kind b = Snapshot then Inr [None]
      else res_map (map Some)
        (case sel_strategy (selection (bd_schedule b)) of
           Lookback \<Rightarrow> select_lookback b ctx
         | Explicit \<Rightarrow> select_explicit ctx
         | Watermark \<Rightarrow> select_watermark ctx))"

subsection \<open>The months selected\<close>

lemma parse_index_code:
  assumes "0 \<le> t" "t < 120000"
  shows "parse_calendar_period (index_code t) = Inr (t div 12, t mod 12 + 1)"
proof -
  have r: "year_range (t div 12)" "1 \<le> t mod 12 + 1 \<and> t mod 12 + 1 \<le> 12" using index_range [of t] assms by auto
  have f: "length (fmt_int 4 (t div 12)) = 4" "digit_text (fmt_int 4 (t div 12))" "num_val (fmt_int 4 (t div 12)) = nat (t div 12)"
    "length (fmt_int 2 (t mod 12 + 1)) = 2" "digit_text (fmt_int 2 (t mod 12 + 1))" "num_val (fmt_int 2 (t mod 12 + 1)) = nat (t mod 12 + 1)"
    using fmt4 [OF r(1)] fmt2 [of "t mod 12 + 1"] r(2) by auto
  show ?thesis using r f
    by (simp add: parse_calendar_period_def index_code_def month_code_def nth_append Let_def)
qed

lemma shift_month_index_code: "0 \<le> t \<Longrightarrow> t < 120000 \<Longrightarrow> shift_month (index_code t) d = Inr (index_code (t + d))"
  by (simp add: shift_month_def parse_index_code month_index_def)

lemma first_index_code: "12 \<le> t \<Longrightarrow> t < 120000 \<Longrightarrow> period_to_first_of_month (index_code t) = Inr t"
  by (simp add: period_to_first_of_month_def parse_index_code month_index_def)

lemma tick_code: "1 \<le> dt_month now \<Longrightarrow> dt_month now \<le> 12 \<Longrightarrow> datetime_to_period now = index_code (month_index (dt_year now) (dt_month now))"
  by (simp add: datetime_to_period_def index_code_month_index)

lemma trailing_months:
  assumes "0 \<le> t" "t < 120000"
  shows "trailing (index_code t) n = Inr (map index_code [t - n + 1..t])"
proof -
  have "map (\<lambda>i. t - i) (rev [0..n - 1]) = [t - n + 1..t]"
  proof (rule nth_equalityI)
    show "length (map (\<lambda>i. t - i) (rev [0..n - 1])) = length [t - n + 1..t]" by simp
    fix i assume "i < length (map (\<lambda>i. t - i) (rev [0..n - 1]))"
    then have "i < nat n" by simp
    then have "[0..n - 1] ! (nat n - Suc i) = 0 + int (nat n - Suc i)" by (intro nth_upto) linarith
    then show "map (\<lambda>i. t - i) (rev [0..n - 1]) ! i = [t - n + 1..t] ! i"
      using \<open>i < nat n\<close> by (simp add: rev_nth)
  qed
  then have "map index_code [t - n + 1..t] = map (\<lambda>i. index_code (t - i)) (rev [0..n - 1])"
    by (metis (no_types, lifting) map_map comp_apply map_cong)
  moreover have "res_mapM (\<lambda>i. shift_month (index_code t) (- i)) xs = Inr (map (\<lambda>i. index_code (t - i)) xs)" for xs
    using assms by (induction xs) (simp_all add: shift_month_index_code)
  ultimately show ?thesis by (simp add: trailing_def)
qed

lemma walk_months_exact:
  assumes "12 \<le> c" "c \<le> e + 1" "e < 119999"
  shows "walk_months k (index_code c) e = Inr (map index_code [c..min e (c + int k - 1)])"
  using assms
proof (induction k arbitrary: c)
  case 0
  then show ?case by (simp add: first_index_code)
next
  case (Suc k)
  show ?case
  proof (cases "c \<le> e")
    case True
    have "walk_months k (index_code (c + 1)) e = Inr (map index_code [c + 1..min e (c + 1 + int k - 1)])"
      using Suc.IH [of "c + 1"] Suc.prems True by simp
    moreover have "[c..min e (c + int (Suc k) - 1)] = c # [c + 1..min e (c + 1 + int k - 1)]"
      using True by (simp add: upto_rec1)
    ultimately show ?thesis using Suc.prems True by (simp add: first_index_code shift_month_index_code)
  next
    case False
    then show ?thesis using Suc.prems by (simp add: first_index_code)
  qed
qed

text \<open>
  C28: The months a tick loads. For a period binding, at a tick in a month of the calendar from year 1 to
  November 9999: the lookback strategy loads exactly the trailing months its schedule asks for, oldest
  first, the last of them the month of the tick; the watermark strategy, when a calendar month was
  loaded last and it does not lie after the tick, loads exactly the months after it up to the tick, oldest
  first, cut to the first 240.
\<close>

theorem selected_months_exact:
  assumes "bd_kind b = Period" and "1 \<le> dt_month (sc_now ctx)" and "dt_month (sc_now ctx) \<le> 12"
    and "now = month_index (dt_year (sc_now ctx)) (dt_month (sc_now ctx))" and "12 \<le> now" and "now < 119999"
  shows "(sel_strategy (selection (bd_schedule b)) = Lookback \<longrightarrow>
       select_periods b ctx = Inr (map (Some \<circ> index_code) [now - lookback_periods (selection (bd_schedule b)) + 1..now]))
    \<and> (sel_strategy (selection (bd_schedule b)) = Watermark \<longrightarrow> latest_loaded_period ctx = Some (index_code latest) \<longrightarrow>
         12 \<le> latest \<longrightarrow> latest \<le> now \<longrightarrow>
       select_periods b ctx = Inr (map (Some \<circ> index_code) [latest + 1..min now (latest + 240)]))"
proof -
  have tick: "datetime_to_period (sc_now ctx) = index_code now" using tick_code assms(2-4) by simp
  have look: "select_lookback b ctx = Inr (map index_code [now - lookback_periods (selection (bd_schedule b)) + 1..now])"
    using assms(5,6) by (simp add: select_lookback_def tick trailing_months)
  have water: "select_watermark ctx = Inr (map index_code [latest + 1..min now (latest + 240)])"
    if "latest_loaded_period ctx = Some (index_code latest)" "12 \<le> latest" "latest \<le> now"
  proof -
    have "walk_months 240 (index_code (latest + 1)) now = Inr (map index_code [latest + 1..min now (latest + 1 + int 240 - 1)])"
      by (rule walk_months_exact) (use that assms in simp_all)
    moreover have "latest + 1 + int 240 - 1 = latest + 240" by simp
    ultimately show ?thesis using that assms(5,6)
      by (simp only: select_watermark_def tick Let_def option.case) (simp add: select_watermark_def tick Let_def shift_month_index_code first_index_code)
  qed
  show ?thesis using look water assms(1) by (auto simp: select_periods_def)
qed

definition april_tick :: moment where
  "april_tick = \<lparr>instant = 100, dt_year = 2026, dt_month = 4\<rparr>"

definition monthly_binding :: "strategy \<Rightarrow> int \<Rightarrow> int binding" where
  "monthly_binding st n = gl_binding\<lparr>bd_schedule := gl_schedule\<lparr>selection := \<lparr>sel_strategy = st, lookback_periods = n\<rparr>\<rparr>\<rparr>"

lemma month_texts: "month_code 2025 12 = ''2025-12''" "month_code 2026 1 = ''2026-01''" "month_code 2026 2 = ''2026-02''"
  "month_code 2026 3 = ''2026-03''" "month_code 2026 4 = ''2026-04''"
  by (simp_all add: month_code_def fmt_int_def pad_nat_def nat_text.simps digit_char_def) code_simp+

theorem selected_months_exact_witness:
  "select_periods (monthly_binding Lookback 3) \<lparr>sc_now = april_tick, explicit_period = None, latest_loaded_period = None, watermark_fallback_periods = 3\<rparr>
     = Inr [Some ''2026-02'', Some ''2026-03'', Some ''2026-04'']
   \<and> select_periods (monthly_binding Watermark 3) \<lparr>sc_now = april_tick, explicit_period = None, latest_loaded_period = Some ''2025-12'', watermark_fallback_periods = 3\<rparr>
     = Inr [Some ''2026-01'', Some ''2026-02'', Some ''2026-03'', Some ''2026-04'']"
proof -
  let ?ctx = "\<lambda>latest. \<lparr>sc_now = april_tick, explicit_period = None, latest_loaded_period = latest, watermark_fallback_periods = 3\<rparr>"
  have codes: "map (Some \<circ> index_code) [24313..24315] = [Some ''2026-02'', Some ''2026-03'', Some ''2026-04'']"
    "map (Some \<circ> index_code) [24312..24315] = [Some ''2026-01'', Some ''2026-02'', Some ''2026-03'', Some ''2026-04'']"
    "index_code 24311 = ''2025-12''"
    by (simp_all add: index_code_def upto.simps month_texts)
  have one: "select_periods (monthly_binding Lookback 3) (?ctx None) = Inr (map (Some \<circ> index_code) [24313..24315])"
    using selected_months_exact [of "monthly_binding Lookback 3" "?ctx None" 24315 0]
    by (simp add: monthly_binding_def april_tick_def gl_binding_def month_index_def)
  have two: "select_periods (monthly_binding Watermark 3) (?ctx (Some ''2025-12'')) = Inr (map (Some \<circ> index_code) [24312..24315])"
    using selected_months_exact [of "monthly_binding Watermark 3" "?ctx (Some ''2025-12'')" 24315 24311] codes(3)
    by (simp add: monthly_binding_def april_tick_def gl_binding_def month_index_def)
  show ?thesis unfolding one two codes by simp
qed

section \<open>What the triggers ask of the history\<close>

definition triggered :: "string \<Rightarrow> string \<Rightarrow> 'w world \<Rightarrow> load_row list" where
  "triggered start bid s = filter (\<lambda>r. lh_binding r = bid \<and> startswith (lh_triggered_by r) start) (map snd (load_history s))"

definition greatest :: "'a :: linorder list \<Rightarrow> 'a option" where
  "greatest xs = (if xs = [] then None else Some (Max (set xs)))"

definition history_query :: "('w, 'r, 'v, 'f) env \<Rightarrow> history_op \<Rightarrow> ('w world \<Rightarrow> 'a) \<Rightarrow> ('w, 'a) act" where
  "history_query env op f = (\<lambda>s. (s, case history_error env op of Some e \<Rightarrow> Inl e | None \<Rightarrow> Inr (f s)))"

(* ingestion/load_history.py:218-236 last_scheduled_attempt_at *)
definition last_scheduled_attempt_at :: "('w, 'r, 'v, 'f) env \<Rightarrow> string \<Rightarrow> ('w, int option) act" where
  "last_scheduled_attempt_at env bid =
     history_query env LastScheduled (\<lambda>s. greatest (map lh_started (triggered ''schedule:'' bid s)))"

(* ingestion/load_history.py:238-256 latest_successful_period *)
definition latest_successful_period :: "('w, 'r, 'v, 'f) env \<Rightarrow> string \<Rightarrow> ('w, string option) act" where
  "latest_successful_period env bid =
     history_query env LatestPeriod
       (\<lambda>s. greatest (map lh_period (filter (\<lambda>r. lh_binding r = bid \<and> lh_status r = ''success'') (map snd (load_history s)))))"

section \<open>The scheduler\<close>

text \<open>
  The surroundings of a run may differ from run to run (a fresh load id, the clock, what fails); they are
  a function of the state. \<open>crontab_ok\<close> and \<open>next_fire_time\<close> stand for the cron library: whether an
  expression with a time zone can be read, and the first time it fires after an instant.
\<close>

record ('w, 'r, 'v, 'f) triggers =
  surroundings :: "'w world \<Rightarrow> ('w, 'r, 'v, 'f) env"
  crontab_ok :: "string \<Rightarrow> string \<Rightarrow> bool"
  next_fire_time :: "string \<Rightarrow> string \<Rightarrow> int \<Rightarrow> int option"

(* ingestion/scheduler.py:42-47 SchedulerTickResult *)
record tick_result =
  bindings_inspected :: int
  bindings_fired :: int
  loads_fired :: int
  tick_attempts :: "attempt list"

primrec act_fold :: "('x \<Rightarrow> 'a \<Rightarrow> ('w, 'a) act) \<Rightarrow> 'x list \<Rightarrow> 'a \<Rightarrow> ('w, 'a) act" where
  "act_fold f [] a = give a"
| "act_fold f (x # xs) a = andthen (f x a) (act_fold f xs)"

definition text_or :: "string \<Rightarrow> string option \<Rightarrow> string" where
  "text_or d x = (case x of None \<Rightarrow> d | Some t \<Rightarrow> if t = [] then d else t)"

(* ingestion/scheduler.py:136-142 _cron_trigger *)
definition cron_of :: "'f binding \<Rightarrow> string \<times> string" where
  "cron_of b = (text_or [] (cron_expression (bd_schedule b)), text_or ''UTC'' (sched_timezone (bd_schedule b)))"

(* ingestion/scheduler.py:103-134 _should_fire *)
definition should_fire :: "('w, 'r, 'v, 'f) triggers \<Rightarrow> 'f binding \<Rightarrow> moment \<Rightarrow> ('w, bool) act" where
  "should_fire tr b now = (\<lambda>s.
     let (expression, zone) = cron_of b
     in if \<not> crontab_ok tr expression zone then (s, Inr False)
        else andthen (last_scheduled_attempt_at (surroundings tr s) (bd_id b))
          (\<lambda>last_attempt. give (case last_attempt of
             None \<Rightarrow> True
           | Some t \<Rightarrow> (case next_fire_time tr expression zone t of None \<Rightarrow> False | Some f \<Rightarrow> f \<le> instant now))) s)"

(* ingestion/scheduler.py:175-195 _fire *)
definition fire_period ::
  "('w, 'r, 'v, 'f) triggers \<Rightarrow> 'f registry \<Rightarrow> 'f binding \<Rightarrow> string option \<Rightarrow> tick_result \<Rightarrow> ('w, tick_result) act" where
  "fire_period tr reg b period res = (\<lambda>s.
     case run_binding (surroundings tr s) reg (bd_id b) period (''schedule:'' @ bd_id b) None None s of
       (s1, Inl e) \<Rightarrow> (s1, Inr res)
     | (s1, Inr a) \<Rightarrow> (s1, Inr (res\<lparr>loads_fired := loads_fired res + 1, tick_attempts := tick_attempts res @ [a]\<rparr>)))"

(* ingestion/scheduler.py:146-195 _fire *)
definition fire ::
  "('w, 'r, 'v, 'f) triggers \<Rightarrow> 'f registry \<Rightarrow> 'f binding \<Rightarrow> moment \<Rightarrow> tick_result \<Rightarrow> ('w, tick_result) act" where
  "fire tr reg b now res = (\<lambda>s.
     andthen (latest_successful_period (surroundings tr s) (bd_id b))
       (\<lambda>latest. case select_periods b \<lparr>sc_now = now, explicit_period = None, latest_loaded_period = latest, watermark_fallback_periods = 3\<rparr> of
          Inl e \<Rightarrow> give res
        | Inr periods \<Rightarrow> act_fold (fire_period tr reg b) periods res) s)"

(* ingestion/scheduler.py:70-76 tick *)
definition visit ::
  "('w, 'r, 'v, 'f) triggers \<Rightarrow> 'f registry \<Rightarrow> moment \<Rightarrow> 'f binding \<Rightarrow> tick_result \<Rightarrow> ('w, tick_result) act" where
  "visit tr reg now b res =
     (if sched_mode (bd_schedule b) \<noteq> Cron then give res
      else let res = res\<lparr>bindings_inspected := bindings_inspected res + 1\<rparr>
        in andthen (should_fire tr b now)
          (\<lambda>due. if due then fire tr reg b now (res\<lparr>bindings_fired := bindings_fired res + 1\<rparr>) else give res))"

(* ingestion/scheduler.py:66-83 tick *)
definition tick :: "('w, 'r, 'v, 'f) triggers \<Rightarrow> 'f registry \<Rightarrow> moment \<Rightarrow> ('w, tick_result) act" where
  "tick tr reg now =
     act_fold (visit tr reg now) (map snd (bindings reg))
       \<lparr>bindings_inspected = 0, bindings_fired = 0, loads_fired = 0, tick_attempts = []\<rparr>"

text \<open>The first ticks of \<open>run_forever\<close>: a tick that raises does not end the loop.\<close>

(* ingestion/scheduler.py:84-99 run_forever *)
fun run_ticks :: "('w, 'r, 'v, 'f) triggers \<Rightarrow> 'f registry \<Rightarrow> moment list \<Rightarrow> 'w world \<Rightarrow> 'w world" where
  "run_ticks tr reg [] s = s"
| "run_ticks tr reg (now # rest) s = run_ticks tr reg rest (fst (tick tr reg now s))"

section \<open>What runs leave in the history\<close>

text \<open>Rows are never lost, keep who started them, and the rows added since are not older than a given time.\<close>

definition origin :: "load_row \<Rightarrow> string \<times> string \<times> int" where
  "origin r = (lh_binding r, lh_triggered_by r, lh_started r)"

definition grows :: "int \<Rightarrow> 'w world \<Rightarrow> 'w world \<Rightarrow> bool" where
  "grows t s s' \<longleftrightarrow> (wf_dict (load_history s) \<longrightarrow> wf_dict (load_history s'))
     \<and> (\<forall>k r. dget (load_history s) k = Some r \<longrightarrow> (\<exists>r'. dget (load_history s') k = Some r' \<and> origin r' = origin r))
     \<and> (\<forall>k r'. dget (load_history s') k = Some r' \<longrightarrow> dget (load_history s) k = None \<longrightarrow> t \<le> lh_started r')"

lemma grows_refl: "grows t s s"
  by (simp add: grows_def)

lemma grows_chain:
  assumes "grows t s s1" and "grows t s1 s2"
  shows "grows t s s2"
  unfolding grows_def
proof (intro conjI allI impI)
  show "wf_dict (load_history s2)" if "wf_dict (load_history s)" using assms that by (simp add: grows_def)
  show "\<exists>r'. dget (load_history s2) k = Some r' \<and> origin r' = origin r" if "dget (load_history s) k = Some r" for k r
    using assms that unfolding grows_def by metis
  show "t \<le> lh_started r'" if "dget (load_history s2) k = Some r'" "dget (load_history s) k = None" for k r'
  proof (cases "dget (load_history s1) k")
    case None
    then show ?thesis using assms(2) that(1) by (simp add: grows_def)
  next
    case (Some r1)
    then have "t \<le> lh_started r1" using assms(1) that(2) by (simp add: grows_def)
    moreover have "origin r' = origin r1" using assms(2) Some that(1) unfolding grows_def by (metis option.inject)
    ultimately show ?thesis by (simp add: origin_def)
  qed
qed

interpretation grown: kept "grows t" for t
  by unfold_locales (fact grows_refl, rule grows_chain)

lemma grows_same_history: "load_history s' = load_history s \<Longrightarrow> grows t s s'"
  by (simp add: grows_def)

lemma update_grows:
  assumes "\<And>r. origin (f r) = origin r"
  shows "keeps (grows t) (history_step env op (\<lambda>h. Inr (update_row i f h)))"
  by (rule keepsI, erule history_step_cases)
     (auto simp: grows_def assms update_row_get update_row_def wf_dict_dset dict_simps split: option.splits if_splits)

lemma history_grows:
  "keeps (grows t) (record_extract env i n)" "keeps (grows t) (record_swap env i)"
  "keeps (grows t) (record_checks env i v)" "keeps (grows t) (finalise env i st m)"
  unfolding history_defs by (rule update_grows; simp add: origin_def)+

lemma locked_run_grows: "keeps (grows t) (locked_run env b period i stop)"
  by (intro grown.keeps_locked_run history_grows)
     (auto intro!: keepsI grows_same_history dest!: command_run)

lemma insert_grows:
  assumes "t \<le> clock env"
  shows "keeps (grows t) (insert_attempt env i b src p tr notes)"
  unfolding insert_attempt_def
  by (rule keepsI, erule history_step_cases) (auto simp: grows_def assms wf_dict_dset dict_simps split: if_splits)

lemma with_lock_grows: "keeps (grows t) (with_lock env b period i stop)"
proof (rule keepsI)
  fix s s' r assume "with_lock env b period i stop s = (s', r)"
  then show "grows t s s'"
  proof (rule with_lock_cases)
    fix in_flight
    assume "fail env i ''failed_other'' None (''Lock conflict; in-flight load: '' @ text_of in_flight) s = (s', r)"
    then show ?thesis by (rule keepsD [OF grown.keeps_fail [OF history_grows(4)]])
  next
    fix s1
    let ?key = "hashtext env (''ingest_lock:'' @ bd_id b)"
    assume l: "locked_run env b period i stop (s\<lparr>locks := ?key # locks s\<rparr>) = (s1, r)"
      and s': "s' = release_lock env (''ingest_lock:'' @ bd_id b) s1"
    have "grows t (s\<lparr>locks := ?key # locks s\<rparr>) s1" using keepsD [OF locked_run_grows l] .
    then show ?thesis by (simp add: s' release_lock_def grows_def)
  qed (simp add: grows_refl)
qed

lemma run_binding_grows:
  assumes "run_binding env reg bid period tr notes stop s = (s', r)" and "t \<le> clock env"
  shows "grows t s s'"
  using assms(1)
proof (rule run_binding_cases)
  fix b src s1
  assume "insert_attempt env (new_load_id env) b src (case period of None \<Rightarrow> this_month env | Some p \<Rightarrow> p) tr notes s = (s1, Inr ())"
    and "with_lock env b period (new_load_id env) stop s1 = (s', r)"
  then show ?thesis by (intro grows_chain [OF keepsD [OF insert_grows [OF assms(2)]] keepsD [OF with_lock_grows]])
qed (simp add: grows_refl)

text \<open>A run that can start leaves an attempt of its trigger behind, however it ends.\<close>

definition marked :: "int \<Rightarrow> string \<Rightarrow> string \<Rightarrow> 'w world \<Rightarrow> bool" where
  "marked t bid tr s \<longleftrightarrow> (\<exists>k r. dget (load_history s) k = Some r \<and> lh_binding r = bid \<and> lh_triggered_by r = tr \<and> t \<le> lh_started r)"

lemma marked_grows: "marked t bid tr s \<Longrightarrow> grows t' s s' \<Longrightarrow> marked t bid tr s'"
  unfolding marked_def grows_def origin_def by (metis prod.inject)

lemma run_binding_marks:
  assumes run: "run_binding env reg bid period tr notes None s = (s', r)" and reg: "well_formed reg"
    and b: "get_binding reg bid = Inr b" and kind: "bd_kind b = Snapshot \<longleftrightarrow> period = None"
    and free: "history_error env InsertAttempt = None" "\<not> dhas (new_load_id env) (load_history s)"
  shows "marked (clock env) bid tr s'"
proof -
  let ?i = "new_load_id env" and ?p = "case period of None \<Rightarrow> this_month env | Some p \<Rightarrow> p"
  obtain src where src: "get_source reg (bd_source b) = Inr src"
    using well_formed_lookup(3) [OF reg b] by (auto simp: get_source_def dhas_iff)
  obtain s1 where ins: "insert_attempt env ?i b src ?p tr notes s = (s1, Inr ())"
    using free by (simp add: insert_attempt_def history_step_def raise_if_def)
  have kinds: "\<not> (bd_kind b = Snapshot \<and> period \<noteq> None)" "\<not> (bd_kind b = Period \<and> period = None)"
    using kind by (cases "bd_kind b"; simp)+
  have "open_attempt env b src period tr notes s = (s1, Inr ())"
    using ins kinds unfolding open_attempt_def by (simp add: res_guard_def)
  then have w: "with_lock env b period ?i None s1 = (s', r)"
    using run by (simp add: run_binding_def b src andthen_def lift_res_def res_guard_def)
  have "bd_id b = bid" using well_formed_lookup(1) [OF reg b] .
  then have "marked (clock env) bid tr s1"
    using ins unfolding insert_attempt_def marked_def
    by (intro exI [of _ ?i]) (auto elim!: history_step_cases simp: dict_simps split: if_splits)
  then show ?thesis using keepsD [OF with_lock_grows w] marked_grows by blast
qed

section \<open>Every due window is attempted once\<close>

lemma act_fold_grows: "(\<And>x a. x \<in> set xs \<Longrightarrow> keeps (grows t) (f x a)) \<Longrightarrow> keeps (grows t) (act_fold f xs a)"
  by (induction xs arbitrary: a) (simp_all add: grown.keeps_give grown.keeps_andthen)

lemma query_same: "history_query env op f s = (s', r) \<Longrightarrow> s' = s"
  by (simp add: history_query_def)

lemma query_grows: "keeps (grows t) (history_query env op f)"
  by (rule keepsI) (auto simp: grows_refl dest: query_same)

text \<open>What the surroundings must give: inserts that work, fresh ids, and a clock not before the tick.\<close>

definition fair :: "('w, 'r, 'v, 'f) triggers \<Rightarrow> int \<Rightarrow> bool" where
  "fair tr t \<longleftrightarrow> (\<forall>s. history_error (surroundings tr s) InsertAttempt = None
     \<and> \<not> dhas (new_load_id (surroundings tr s)) (load_history s) \<and> t \<le> clock (surroundings tr s))"

lemma fire_period_grows: "fair tr t \<Longrightarrow> keeps (grows t) (fire_period tr reg b period res)"
  by (rule keepsI) (auto simp: fire_period_def fair_def split: prod.splits sum.splits intro: run_binding_grows)

lemma fire_grows:
  assumes "fair tr t"
  shows "keeps (grows t) (fire tr reg b now res)"
proof (rule keepsI)
  fix s s' r assume f: "fire tr reg b now res s = (s', r)"
  have "keeps (grows t) (\<lambda>s. andthen (latest_successful_period env (bd_id b))
       (\<lambda>latest. case select_periods b \<lparr>sc_now = now, explicit_period = None, latest_loaded_period = latest, watermark_fallback_periods = 3\<rparr> of
          Inl e \<Rightarrow> give res
        | Inr periods \<Rightarrow> act_fold (fire_period tr reg b) periods res) s)" for env
    unfolding latest_successful_period_def
    by (intro grown.keeps_andthen query_grows)
       (auto intro!: grown.keeps_give act_fold_grows fire_period_grows [OF assms] split: sum.splits)
  then show "grows t s s'" using f unfolding fire_def by (rule keepsD)
qed

lemma should_fire_same: "should_fire tr b now s = (s', r) \<Longrightarrow> s' = s"
  by (auto simp: should_fire_def last_scheduled_attempt_at_def give_def andthen_def history_query_def Let_def
      split: prod.splits sum.splits if_splits option.splits)

lemma visit_grows:
  assumes "fair tr t"
  shows "keeps (grows t) (visit tr reg now b res)"
proof -
  have "keeps (grows t) (should_fire tr b now)"
    by (rule keepsI) (auto simp: grows_refl dest: should_fire_same)
  then show ?thesis unfolding visit_def Let_def
    by (auto intro!: grown.keeps_give grown.keeps_andthen fire_grows [OF assms])
qed

text \<open>
  The windows of a binding up to a time are served: the next fire after its last scheduled attempt lies
  beyond that time.
\<close>

definition served :: "('w, 'r, 'v, 'f) triggers \<Rightarrow> moment \<Rightarrow> 'f binding \<Rightarrow> 'w world \<Rightarrow> bool" where
  "served tr now b s \<longleftrightarrow> (\<exists>t. greatest (map lh_started (triggered ''schedule:'' (bd_id b) s)) = Some t
     \<and> (\<forall>f. next_fire_time tr (fst (cron_of b)) (snd (cron_of b)) t = Some f \<longrightarrow> instant now < f))"

definition fires_later :: "('w, 'r, 'v, 'f) triggers \<Rightarrow> bool" where
  "fires_later tr \<longleftrightarrow> (\<forall>expression zone t f. next_fire_time tr expression zone t = Some f \<longrightarrow> t < f)"

lemma in_triggered:
  assumes "wf_dict (load_history s)"
  shows "r \<in> set (triggered start bid s) \<longleftrightarrow>
     (\<exists>k. dget (load_history s) k = Some r \<and> lh_binding r = bid \<and> startswith (lh_triggered_by r) start)"
  using wf_dict_get [OF assms] by (force simp: triggered_def)

lemma greatest_some: "greatest xs = Some m \<longleftrightarrow> m \<in> set xs \<and> (\<forall>x\<in>set xs. x \<le> m)"
  by (auto simp: greatest_def intro: Max_eqI Max_in)

lemma served_if_marked:
  assumes "marked (instant now) (bd_id b) (''schedule:'' @ x) s" and "wf_dict (load_history s)" and "fires_later tr"
  shows "served tr now b s"
proof -
  obtain k r where r: "dget (load_history s) k = Some r" "lh_binding r = bd_id b" "lh_triggered_by r = ''schedule:'' @ x" "instant now \<le> lh_started r"
    using assms(1) by (auto simp: marked_def)
  have "startswith (lh_triggered_by r) ''schedule:''" by (simp add: r(3) startswith_def)
  then have mem: "r \<in> set (triggered ''schedule:'' (bd_id b) s)"
    using r(1,2) in_triggered [OF assms(2)] by blast
  then obtain t where t: "greatest (map lh_started (triggered ''schedule:'' (bd_id b) s)) = Some t"
    by (cases "triggered ''schedule:'' (bd_id b) s") (auto simp: greatest_def)
  then have "lh_started r \<le> t" using mem unfolding greatest_some by auto
  then show ?thesis using t r(4) assms(3) unfolding served_def fires_later_def by fastforce
qed


lemma served_grows:
  assumes "served tr now b s" and "grows (instant now) s s'" and "wf_dict (load_history s)" and "fires_later tr"
  shows "served tr now b s'"
proof -
  let ?S = "\<lambda>s. set (map lh_started (triggered ''schedule:'' (bd_id b) s))"
  obtain t where t: "t \<in> ?S s" "\<forall>x\<in>?S s. x \<le> t"
    and later: "\<And>f. next_fire_time tr (fst (cron_of b)) (snd (cron_of b)) t = Some f \<Longrightarrow> instant now < f"
    using assms(1) by (auto simp: served_def greatest_some)
  have wf: "wf_dict (load_history s')" using assms(2,3) by (simp add: grows_def)
  have old: "x \<in> ?S s'" if x: "x \<in> ?S s" for x
  proof -
    obtain r k where r: "x = lh_started r" "dget (load_history s) k = Some r" "lh_binding r = bd_id b" "startswith (lh_triggered_by r) ''schedule:''"
      using x in_triggered [OF assms(3)] by auto
    then obtain r' where "dget (load_history s') k = Some r'" "origin r' = origin r" using assms(2) unfolding grows_def by blast
    then have "r' \<in> set (triggered ''schedule:'' (bd_id b) s')" "lh_started r' = x"
      using r in_triggered [OF wf] by (auto simp: origin_def)
    then show ?thesis by force
  qed
  have new: "x \<in> ?S s \<or> instant now \<le> x" if x: "x \<in> ?S s'" for x
  proof -
    obtain r' k where r': "x = lh_started r'" "dget (load_history s') k = Some r'" "lh_binding r' = bd_id b" "startswith (lh_triggered_by r') ''schedule:''"
      using x in_triggered [OF wf] by auto
    show ?thesis
    proof (cases "dget (load_history s) k")
      case None
      then show ?thesis using assms(2) r' unfolding grows_def by blast
    next
      case (Some r)
      then have "origin r = origin r'" using assms(2) r' unfolding grows_def by (metis option.inject)
      then have "r \<in> set (triggered ''schedule:'' (bd_id b) s)" "lh_started r = x"
        using r' Some in_triggered [OF assms(3)] by (auto simp: origin_def)
      then show ?thesis by force
    qed
  qed
  show ?thesis
  proof (cases "\<exists>x\<in>?S s'. instant now \<le> x")
    case False
    then have "greatest (map lh_started (triggered ''schedule:'' (bd_id b) s')) = Some t"
      unfolding greatest_some using t old new by blast
    then show ?thesis using later by (auto simp: served_def)
  next
    case True
    then obtain x where x: "x \<in> ?S s'" "instant now \<le> x" by blast
    then obtain m where m: "greatest (map lh_started (triggered ''schedule:'' (bd_id b) s')) = Some m"
      by (cases "triggered ''schedule:'' (bd_id b) s'") (auto simp: greatest_def)
    then have "x \<le> m" using x unfolding greatest_some by blast
    then show ?thesis using m x(2) assms(4) unfolding served_def fires_later_def by fastforce
  qed
qed

text \<open>A binding whose tick selects at least one period.\<close>

definition always_selects :: "moment \<Rightarrow> 'f binding \<Rightarrow> bool" where
  "always_selects now b \<longleftrightarrow> (\<forall>latest. \<exists>p ps. select_periods b
     \<lparr>sc_now = now, explicit_period = None, latest_loaded_period = latest, watermark_fallback_periods = 3\<rparr> = Inr (p # ps)
     \<and> (bd_kind b = Snapshot \<longleftrightarrow> p = None))"

lemma selects_nonempty:
  assumes "validate_binding b = Inr ()" and "bd_kind b = Snapshot \<or> sel_strategy (selection (bd_schedule b)) = Lookback"
    and "1 \<le> dt_month now" "dt_month now \<le> 12" "1 \<le> dt_year now" "dt_year now \<le> 9999"
  shows "always_selects now b"
  unfolding always_selects_def
proof (intro allI)
  fix latest
  let ?ctx = "\<lparr>sc_now = now, explicit_period = None, latest_loaded_period = latest, watermark_fallback_periods = 3\<rparr>"
  show "\<exists>p ps. select_periods b ?ctx = Inr (p # ps) \<and> (bd_kind b = Snapshot \<longleftrightarrow> p = None)"
  proof (cases "bd_kind b = Snapshot")
    case False
    let ?n = "lookback_periods (selection (bd_schedule b))" and ?t = "month_index (dt_year now) (dt_month now)"
    have look: "sel_strategy (selection (bd_schedule b)) = Lookback" using assms(2) False by simp
    then have n: "1 \<le> ?n" using assms(1)
      by (auto simp: validate_binding_def validate_schedule_def check_selection_def res_guard_def res_simps split: if_splits)
    have "select_lookback b ?ctx = Inr (map index_code [?t - ?n + 1..?t])"
      unfolding select_lookback_def using tick_code [OF assms(3,4)] trailing_months [of ?t ?n] assms(3-6)
      by (simp add: month_index_def)
    then have "select_periods b ?ctx = Inr (map Some (map index_code [?t - ?n + 1..?t]))"
      using False look by (simp add: select_periods_def)
    moreover have "[?t - ?n + 1..?t] = (?t - ?n + 1) # [?t - ?n + 1 + 1..?t]" using n by (intro upto_rec1) simp
    ultimately show ?thesis using False by simp
  qed (simp add: select_periods_def)
qed

lemma fire_serves:
  assumes fire: "fire tr reg b now res s = (s', Inr out)" and reg: "well_formed reg" and b: "b \<in> set (map snd (bindings reg))"
    and sel: "always_selects now b" and fair: "fair tr (instant now)" and wf: "wf_dict (load_history s)" and cron: "fires_later tr"
  shows "served tr now b s'"
proof -
  have look: "get_binding reg (bd_id b) = Inr b"
    using reg b by (auto simp: well_formed_def get_binding_def res_of_option_def wf_dict_get split: option.splits)
  obtain latest where l: "latest_successful_period (surroundings tr s) (bd_id b) s = (s, Inr latest)"
    and rest: "(case select_periods b \<lparr>sc_now = now, explicit_period = None, latest_loaded_period = latest, watermark_fallback_periods = 3\<rparr> of
          Inl e \<Rightarrow> give res | Inr periods \<Rightarrow> act_fold (fire_period tr reg b) periods res) s = (s', Inr out)"
    using fire unfolding fire_def by (auto elim!: andthen_cases simp: latest_successful_period_def dest: query_same)
  obtain p ps where p: "select_periods b \<lparr>sc_now = now, explicit_period = None, latest_loaded_period = latest, watermark_fallback_periods = 3\<rparr> = Inr (p # ps)"
    and kind: "bd_kind b = Snapshot \<longleftrightarrow> p = None"
    using sel unfolding always_selects_def by blast
  obtain s1 a where first: "fire_period tr reg b p res s = (s1, Inr a)" and others: "act_fold (fire_period tr reg b) ps a s1 = (s', Inr out)"
    using rest p by (auto elim: andthen_cases)
  obtain s2 r where run: "run_binding (surroundings tr s) reg (bd_id b) p (''schedule:'' @ bd_id b) None None s = (s2, r)" by fastforce
  have "s1 = s2" using first run by (auto simp: fire_period_def split: sum.splits)
  then have "marked (clock (surroundings tr s)) (bd_id b) (''schedule:'' @ bd_id b) s1"
    using run_binding_marks [OF run reg look kind] fair by (simp add: fair_def)
  then have m1: "marked (instant now) (bd_id b) (''schedule:'' @ bd_id b) s1"
    using fair unfolding marked_def fair_def by (meson order_trans)
  have g1: "grows (instant now) s s1" using keepsD [OF fire_period_grows [OF fair] first] .
  have g2: "grows (instant now) s1 s'"
    using keepsD [OF act_fold_grows others] fire_period_grows [OF fair] by blast
  have "marked (instant now) (bd_id b) (''schedule:'' @ bd_id b) s'" using marked_grows [OF m1 g2] .
  moreover have "wf_dict (load_history s')" using g1 g2 wf by (simp add: grows_def)
  ultimately show ?thesis using cron by (rule served_if_marked)
qed

lemma visit_serves:
  assumes v: "visit tr reg now b res s = (s', Inr out)" and reg: "well_formed reg" and b: "b \<in> set (map snd (bindings reg))"
    and mode: "sched_mode (bd_schedule b) = Cron" and ok: "crontab_ok tr (fst (cron_of b)) (snd (cron_of b))"
    and sel: "always_selects now b" and fair: "fair tr (instant now)" and wf: "wf_dict (load_history s)" and cron: "fires_later tr"
  shows "served tr now b s'"
proof -
  let ?res = "res\<lparr>bindings_inspected := bindings_inspected res + 1\<rparr>"
  have "andthen (should_fire tr b now) (\<lambda>due. if due then fire tr reg b now (?res\<lparr>bindings_fired := bindings_fired ?res + 1\<rparr>) else give ?res) s
      = (s', Inr out)"
    using v mode by (simp add: visit_def Let_def)
  then obtain due where due: "should_fire tr b now s = (s, Inr due)"
    and rest: "(if due then fire tr reg b now (?res\<lparr>bindings_fired := bindings_fired ?res + 1\<rparr>) else give ?res) s = (s', Inr out)"
    by (auto elim!: andthen_cases dest: should_fire_same)
  show ?thesis
  proof (cases due)
    case True
    then show ?thesis using rest fire_serves [OF _ reg b sel fair wf cron] by simp
  next
    case False
    then have "s' = s" using rest by (simp add: give_def)
    moreover have "served tr now b s"
      using due False ok unfolding should_fire_def served_def last_scheduled_attempt_at_def history_query_def
      by (auto simp: case_prod_beta andthen_def give_def Let_def split: option.splits sum.splits)
    ultimately show ?thesis by simp
  qed
qed

lemma visits_serve:
  assumes run: "act_fold (visit tr reg now) bs res s = (s', Inr out)" and reg: "well_formed reg"
    and bs: "set bs \<subseteq> set (map snd (bindings reg))" and fair: "fair tr (instant now)" and wf: "wf_dict (load_history s)"
    and cron: "fires_later tr" and b: "b \<in> set bs" "sched_mode (bd_schedule b) = Cron" "crontab_ok tr (fst (cron_of b)) (snd (cron_of b))"
      "always_selects now b"
  shows "served tr now b s'"
  using run bs wf b(1)
proof (induction bs arbitrary: s res)
  case (Cons x bs)
  obtain s1 a where first: "visit tr reg now x res s = (s1, Inr a)" and rest: "act_fold (visit tr reg now) bs a s1 = (s', Inr out)"
    using Cons.prems(1) by (auto elim: andthen_cases)
  have g1: "grows (instant now) s s1" using keepsD [OF visit_grows [OF fair] first] .
  have wf1: "wf_dict (load_history s1)" using g1 Cons.prems(3) by (simp add: grows_def)
  show ?case
  proof (cases "b = x")
    case True
    have mem: "b \<in> set (map snd (bindings reg))" using Cons.prems(2) True by simp
    have "served tr now b s1"
      using visit_serves [OF _ reg mem b(2-4) fair Cons.prems(3) cron] first True by blast
    moreover have "grows (instant now) s1 s'" using keepsD [OF act_fold_grows rest] visit_grows [OF fair] by blast
    ultimately show ?thesis using served_grows wf1 cron by blast
  next
    case False
    then show ?thesis using Cons.IH [OF rest _ wf1] Cons.prems(2,4) by simp
  qed
qed simp

text \<open>
  C29: A tick attempts every due window. When the tick of the scheduler returns, inserts into the history
  work and the clock does not run back, then for every cron binding with a readable schedule that
  loads snapshots or a trailing window, the next fire after its last scheduled attempt lies after the
  tick: no window that came due was left without an attempt, whatever runs failed on the way, and a
  second tick at that time fires none of them again.
\<close>

theorem tick_attempts_every_due_window:
  assumes "tick tr reg now s = (s', Inr out)" and "well_formed reg" and "wf_dict (load_history s)"
    and "fair tr (instant now)" and "fires_later tr"
    and "1 \<le> dt_month now" "dt_month now \<le> 12" "1 \<le> dt_year now" "dt_year now \<le> 9999"
    and "get_binding reg bid = Inr b" and "sched_mode (bd_schedule b) = Cron" and "crontab_ok tr (fst (cron_of b)) (snd (cron_of b))"
    and "bd_kind b = Snapshot \<or> sel_strategy (selection (bd_schedule b)) = Lookback"
  shows "(\<exists>t. greatest (map lh_started (triggered ''schedule:'' bid s')) = Some t
       \<and> (\<forall>f. next_fire_time tr (fst (cron_of b)) (snd (cron_of b)) t = Some f \<longrightarrow> instant now < f))
     \<and> (history_error (surroundings tr s') LastScheduled = None \<longrightarrow> should_fire tr b now s' = (s', Inr False))"
proof -
  have b: "bd_id b = bid" "validate_binding b = Inr ()" using well_formed_lookup [OF assms(2,10)] by simp_all
  have mem: "b \<in> set (map snd (bindings reg))"
    using assms(10) by (force simp: get_binding_def res_simps dest: map_of_SomeD)
  have sel: "always_selects now b" using selects_nonempty [OF b(2) assms(13,6-9)] .
  have "served tr now b s'"
    using visits_serve [OF _ assms(2) order_refl assms(4,3,5) mem assms(11,12) sel] assms(1) unfolding tick_def by blast
  then obtain t where t: "greatest (map lh_started (triggered ''schedule:'' bid s')) = Some t"
    and later: "\<And>f. next_fire_time tr (fst (cron_of b)) (snd (cron_of b)) t = Some f \<Longrightarrow> instant now < f"
    unfolding served_def b(1) by blast
  have "should_fire tr b now s' = (s', Inr False)" if "history_error (surroundings tr s') LastScheduled = None"
    using t later assms(12) that
    by (auto simp: should_fire_def case_prod_beta last_scheduled_attempt_at_def history_query_def andthen_def give_def b(1)
        split: option.splits)
  then show ?thesis using t later by blast
qed

text \<open>
  Example: the surroundings of the theory \<open>LoadSafety\<close> with a fresh id for every run, and a schedule that
  fires every hour.
\<close>

definition fresh_id :: "'w world \<Rightarrow> string" where
  "fresh_id s = CHR ''L'' # concat (dkeys (load_history s))"

lemma length_concat_mem: "x \<in> set xs \<Longrightarrow> length x \<le> length (concat xs)"
  by (induction xs) auto

lemma fresh_id_new: "\<not> dhas (fresh_id s) (load_history s)"
proof
  assume "dhas (fresh_id s) (load_history s)"
  then have "fresh_id s \<in> set (dkeys (load_history s))" by (simp add: dhas_def)
  then show False using length_concat_mem by (fastforce simp: fresh_id_def)
qed

definition hourly :: "(int tables, int, int, int) triggers" where
  "hourly = \<lparr>surroundings = (\<lambda>s. (gl_env (\<lambda>w c. None) same_columns [])\<lparr>new_load_id := fresh_id s, clock := 7300\<rparr>),
     crontab_ok = (\<lambda>e z. True), next_fire_time = (\<lambda>e z t. Some (3600 * (t div 3600 + 1)))\<rparr>"

lemma hourly_fair: "t \<le> 7300 \<Longrightarrow> fair hourly t"
  by (simp add: fair_def hourly_def gl_env_def fresh_id_new)

lemma hourly_later: "fires_later hourly"
  by (auto simp: fires_later_def hourly_def)

lemma fire_returns:
  assumes "\<And>s. history_error (surroundings tr s) LatestPeriod = None"
  shows "\<exists>s' out. fire tr reg b now res s = (s', Inr out)"
proof -
  have fold: "\<exists>s' out. act_fold (fire_period tr reg b) ps res s = (s', Inr out)" for ps res s
    by (induction ps arbitrary: res s)
       (auto simp: give_def andthen_def fire_period_def split: prod.splits sum.splits)
  show ?thesis using fold
    by (auto simp: fire_def latest_successful_period_def history_query_def andthen_def give_def assms split: sum.splits)
qed

theorem tick_attempts_every_due_window_witness:
  "\<exists>s' out t. tick hourly gl_registry \<lparr>instant = 7250, dt_year = 2026, dt_month = 4\<rparr> gl_world = (s', Inr out)
     \<and> greatest (map lh_started (triggered ''schedule:'' ''gl_erp'' s')) = Some t"
proof -
  let ?now = "\<lparr>instant = 7250, dt_year = 2026, dt_month = 4\<rparr>"
  have bs: "map snd (bindings gl_registry) = [gl_binding]" by (simp add: gl_registry_def)
  have cron: "sched_mode (bd_schedule gl_binding) = Cron" "crontab_ok hourly e z"
    "sel_strategy (selection (bd_schedule gl_binding)) = Lookback" for e z
    by (simp_all add: gl_binding_def gl_schedule_def hourly_def)
  have err: "history_error (surroundings hourly s) op = None" for s op by (simp add: hourly_def gl_env_def)
  have "should_fire hourly gl_binding ?now gl_world = (gl_world, Inr True)"
    by (simp add: should_fire_def case_prod_beta last_scheduled_attempt_at_def history_query_def andthen_def give_def err cron
        greatest_def triggered_def gl_world_def)
  moreover obtain s' out where "fire hourly gl_registry gl_binding ?now \<lparr>bindings_inspected = 1, bindings_fired = 1, loads_fired = 0, tick_attempts = []\<rparr> gl_world
      = (s', Inr out)"
    using fire_returns [OF err] by blast
  ultimately have run: "tick hourly gl_registry ?now gl_world = (s', Inr out)"
    unfolding tick_def bs by (simp add: visit_def cron andthen_def give_def Let_def)
  have "get_binding gl_registry ''gl_erp'' = Inr gl_binding" by (rule gl_lookup)
  then show ?thesis
    using tick_attempts_every_due_window [OF run gl_well_formed _ hourly_fair hourly_later, of "''gl_erp''" gl_binding] cron run
    by (auto simp: gl_world_def)
qed

section \<open>Where the schedule stops\<close>

lemma month_thirteen: "fmt_int 2 13 = ''13''"
  and year_text: "fmt_int 4 2025 = ''2025''"
  by (simp_all add: fmt_int_def pad_nat_def nat_text.simps digit_char_def) code_simp+

text \<open>
  An adjustment period stops a watermark. The swap accepts a thirteenth period, and once it is the
  greatest period a watermark binding has loaded, the selection cannot read it: whenever the schedule of
  the binding comes due, nothing is run and nothing is recorded, however many months have passed.
\<close>

theorem adjustment_period_stops_watermark:
  assumes "bd_kind b = Period" and "sel_strategy (selection (bd_schedule b)) = Watermark" and "0 \<le> y" "y \<le> 9999"
    and "greatest (map lh_period (filter (\<lambda>r. lh_binding r = bd_id b \<and> lh_status r = ''success'') (map snd (load_history s)))) = Some (month_code y 13)"
    and "history_error (surroundings tr s) LatestPeriod = None"
  shows "period_re (month_code y 13) \<and> fire tr reg b now res s = (s, Inr res)"
proof -
  have y: "length (fmt_int 4 y) = 4" "digit_text (fmt_int 4 y)" using fmt4 [of y] assms(3,4) by auto
  have thirteen: "length (fmt_int 2 13) = 2" "digit_text (fmt_int 2 13)" "num_val (fmt_int 2 13) = 13" using fmt2 [of 13] by auto
  have "parse_calendar_period (month_code y 13) = Inl (NonCalendarPeriod (month_code y 13))"
    using y thirteen by (simp add: parse_calendar_period_def month_code_def nth_append Let_def)
  then have "select_watermark ctx = Inl (NonCalendarPeriod (month_code y 13))" if "latest_loaded_period ctx = Some (month_code y 13)" for ctx
    by (simp add: select_watermark_def shift_month_def that Let_def)
  then have "fire tr reg b now res s = (s, Inr res)"
    using assms(1,2,5,6)
    by (simp add: fire_def latest_successful_period_def history_query_def andthen_def give_def select_periods_def)
  moreover have "period_re (month_code y 13)"
  proof -
    let ?t = "month_code y 13"
    have dash: "?t = fmt_int 4 y @ ''-13''" by (simp add: month_code_def month_thirteen)
    have "\<not> endswith ?t [CHR 0x0A]" "\<not> endswith ?t ''-ADJ''"
      unfolding dash endswith_iff by (auto dest: arg_cong [of _ _ last])
    moreover have "''13'' \<in> set month_codes" by code_simp
    ultimately show ?thesis using y by (simp add: period_re_def Let_def dash nth_append)
  qed
  ultimately show ?thesis by blast
qed

definition closed_year :: "int tables world" where
  "closed_year = gl_world\<lparr>load_history :=
     [(''L1'', gl_row\<lparr>lh_period := month_code 2025 12, lh_status := ''success''\<rparr>), (''L2'', gl_row\<lparr>lh_period := month_code 2025 13, lh_status := ''success''\<rparr>)]\<rparr>"

theorem adjustment_period_stops_watermark_witness:
  "\<exists>out. fire hourly gl_registry (monthly_binding Watermark 3) april_tick out closed_year = (closed_year, Inr out)"
proof -
  let ?b = "monthly_binding Watermark 3"
  have parts: "bd_kind ?b = Period" "sel_strategy (selection (bd_schedule ?b)) = Watermark" "bd_id ?b = ''gl_erp''"
    by (simp_all add: monthly_binding_def gl_binding_def)
  have order: "month_code 2025 12 \<le> month_code 2025 13"
    unfolding month_texts(1) by (simp add: month_code_def month_thirteen year_text)
  have "map lh_period (filter (\<lambda>r. lh_binding r = bd_id ?b \<and> lh_status r = ''success'') (map snd (load_history closed_year)))
      = [month_code 2025 12, month_code 2025 13]"
    by (simp add: parts closed_year_def gl_row_def)
  then have "greatest (map lh_period (filter (\<lambda>r. lh_binding r = bd_id ?b \<and> lh_status r = ''success'') (map snd (load_history closed_year))))
      = Some (month_code 2025 13)"
    unfolding greatest_some using order by simp
  then show ?thesis
    using adjustment_period_stops_watermark [OF parts(1,2), of 2025 closed_year hourly gl_registry april_tick]
    by (auto simp: hourly_def gl_env_def)
qed

end
