(* ===== verification/Watcher.thy ===== *)
theory Watcher
  imports Schedule
begin

text \<open>
  Loads started by new files: the period a file is for (\<open>ingestion/period_inference.py\<close>) and the tick of
  the watcher (\<open>ingestion/watcher.py\<close>), which lists the files of every watched binding, leaves those the
  load history knows alone and runs the binding for each of the others. The object store, the file
  readers and \<open>re.search\<close> are parameters.
\<close>

section \<open>The period of a file\<close>

definition upper :: "char \<Rightarrow> bool" where
  "upper c = (CHR ''A'' \<le> c \<and> c \<le> CHR ''Z'')"

text \<open>\<open>^\d{4}-(\d{2}|\d{2}-[A-Z]+)$\<close>, on a text without white space at its end.\<close>

(* ingestion/period_inference.py:29-29 _DASHED_RE *)
definition dashed :: "string \<Rightarrow> bool" where
  "dashed t = (7 \<le> length t \<and> digit_text (take 4 t) \<and> t ! 4 = CHR ''-'' \<and> digit_text (take 2 (drop 5 t))
     \<and> (length t = 7 \<or> (9 \<le> length t \<and> t ! 7 = CHR ''-'' \<and> list_all upper (drop 8 t))))"

(* ingestion/period_inference.py:27-27 _YYYYMM_RE *)
definition compact :: "string \<Rightarrow> bool" where
  "compact t = (length t = 6 \<and> digit_text t)"

(* ingestion/period_inference.py:31-31 _DATE_RE *)
definition date_like :: "string \<Rightarrow> bool" where
  "date_like t = (7 \<le> length t \<and> digit_text (take 4 t) \<and> t ! 4 \<in> {CHR ''-'', CHR ''/''} \<and> digit_text (take 2 (drop 5 t)))"

(* ingestion/period_inference.py:34-54 normalise_period *)
definition normalise_period :: "string \<Rightarrow> (exn, string) res" where
  "normalise_period raw =
     (let t = strip raw
      in if dashed t then Inr t
         else if compact t then Inr (take 4 t @ ''-'' @ drop 4 t)
         else if date_like t then Inr (take 4 t @ ''-'' @ take 2 (drop 5 t))
         else Inl (InferenceError ''normalise''))"

text \<open>What \<open>re.search\<close> with the pattern of a binding gives, and its group \<open>period\<close>.\<close>

datatype pattern_match = BadPattern | NoMatch | NoGroup | UnsetGroup | Captured string

(* ingestion/period_inference.py:57-72 infer_period_from_filename *)
fun infer_period_from_filename :: "pattern_match \<Rightarrow> (exn, string) res" where
  "infer_period_from_filename BadPattern = Inl (OtherError ''re.error'')"
| "infer_period_from_filename NoMatch = Inl (InferenceError ''no match'')"
| "infer_period_from_filename NoGroup = Inl (InferenceError ''no group'')"
| "infer_period_from_filename UnsetGroup = Inl (OtherError ''AttributeError'')"
| "infer_period_from_filename (Captured raw) = normalise_period raw"

text \<open>The first row of a file, the text of its values; an absent row ends the inference.\<close>

(* ingestion/period_inference.py:75-98 infer_period_from_rows *)
definition infer_period_from_rows :: "(string, string option) dict option \<Rightarrow> string \<Rightarrow> (exn, string) res" where
  "infer_period_from_rows first_row col =
     (case first_row of
        None \<Rightarrow> Inl (InferenceError ''no rows'')
      | Some row \<Rightarrow>
          (case dget row col of
             None \<Rightarrow> Inl (InferenceError ''no column'')
           | Some None \<Rightarrow> Inl (InferenceError ''null'')
           | Some (Some v) \<Rightarrow> normalise_period v))"

section \<open>The watcher\<close>

text \<open>
  The files of a source at a tick: whether its store opens, the keys it lists for a pattern, the configured
  format, the size of a file, its first row as the reader of the format gives it, and the match of a
  pattern in a name.
\<close>

record files =
  opens :: "string \<Rightarrow> exn option"
  list_keys :: "string \<Rightarrow> string \<Rightarrow> (exn, string list) res"
  file_format :: "string \<Rightarrow> string option"
  has_reader :: "string \<Rightarrow> bool"
  get_size :: "string \<Rightarrow> string \<Rightarrow> (exn, nat) res"
  first_row_of :: "string \<Rightarrow> string \<Rightarrow> (exn, (string, string option) dict option) res"
  search :: "string \<Rightarrow> string \<Rightarrow> pattern_match"

(* ingestion/watcher.py:40-40 _MAX_INFERENCE_BYTES *)
definition MAX_INFERENCE_BYTES :: nat where
  "MAX_INFERENCE_BYTES = 256 * 1024 * 1024"

(* ingestion/watcher.py:48-62 WatcherTickResult *)
record watch_result =
  wr_inspected :: int
  files_seen :: int
  files_new :: int
  wr_loads :: int
  loads_skipped :: int
  wr_attempts :: "attempt list"

(* ingestion/watcher.py:208-251 _infer_period_from_file_column *)
definition infer_period_from_file_column :: "files \<Rightarrow> string \<Rightarrow> string \<Rightarrow> string \<Rightarrow> (exn, string) res" where
  "infer_period_from_file_column fs key src col =
     (if blank_text (file_format fs src) then Inl (InferenceError ''file_format'')
      else if \<not> has_reader fs (text_of (file_format fs src)) then Inl (InferenceError ''no reader'')
      else res_bind (get_size fs src key)
        (\<lambda>n. if n > MAX_INFERENCE_BYTES then Inl (InferenceError ''size'')
             else res_bind (first_row_of fs src key) (\<lambda>row. infer_period_from_rows row col)))"

(* ingestion/watcher.py:172-206 _infer_period *)
definition infer_period :: "files \<Rightarrow> watch_spec \<Rightarrow> string \<Rightarrow> string \<Rightarrow> (exn, string) res" where
  "infer_period fs w src key =
     (case watch_period_from w of
        FilenameRegex \<Rightarrow>
          (if blank_text (filename_regex w) then Inl (InferenceError ''filename_regex'')
           else infer_period_from_filename (search fs (text_of (filename_regex w)) (last (split_on (CHR ''/'') key))))
      | ColumnValue \<Rightarrow>
          (if blank_text (watch_period_column w) then Inl (InferenceError ''period_column'')
           else infer_period_from_file_column fs key src (text_of (watch_period_column w))))"

(* ingestion/load_history.py:258-280 processed_watch_keys_for_binding *)
definition processed_watch_keys_for_binding :: "('w, 'r, 'v, 'f) env \<Rightarrow> string \<Rightarrow> ('w, string list) act" where
  "processed_watch_keys_for_binding env bid =
     history_query env WatchKeys (\<lambda>s. map (\<lambda>r. drop 6 (lh_triggered_by r)) (triggered ''watch:'' bid s))"

(* ingestion/watcher.py:139-170 _process_binding *)
definition watch_file ::
  "('w, 'r, 'v, 'f) triggers \<Rightarrow> files \<Rightarrow> 'f registry \<Rightarrow> 'f binding \<Rightarrow> watch_spec \<Rightarrow> string \<Rightarrow> string list \<Rightarrow> string \<Rightarrow> watch_result
     \<Rightarrow> ('w, watch_result) act" where
  "watch_file tr fs reg b w src already key res =
     (if key \<in> set already then give res
      else let res = res\<lparr>files_new := files_new res + 1\<rparr>
        in case infer_period fs w src key of
             Inl (InferenceError m) \<Rightarrow> give (res\<lparr>loads_skipped := loads_skipped res + 1\<rparr>)
           | Inl e \<Rightarrow> lift_res (Inl e)
           | Inr period \<Rightarrow>
               andthen (\<lambda>s. run_binding (surroundings tr s) reg (bd_id b) (Some period) (''watch:'' @ key) None None s)
                 (\<lambda>a. give (res\<lparr>wr_loads := wr_loads res + 1, wr_attempts := wr_attempts res @ [a]\<rparr>)))"

(* ingestion/watcher.py:115-170 _process_binding *)
definition process_binding ::
  "('w, 'r, 'v, 'f) triggers \<Rightarrow> files \<Rightarrow> 'f registry \<Rightarrow> 'f binding \<Rightarrow> watch_result \<Rightarrow> ('w, watch_result) act" where
  "process_binding tr fs reg b res =
     (case sched_watch (bd_schedule b) of
        None \<Rightarrow> give res
      | Some w \<Rightarrow>
          andthen (lift_res (res_wrap ConfigError (get_source reg (bd_source b))))
            (\<lambda>source. andthen (lift_res (raise_if (opens fs (src_id source))))
              (\<lambda>_. case list_keys fs (src_id source) (file_glob w) of
                     Inl e \<Rightarrow> give res
                   | Inr keys \<Rightarrow>
                       andthen (\<lambda>s. processed_watch_keys_for_binding (surroundings tr s) (bd_id b) s)
                         (\<lambda>already. act_fold (watch_file tr fs reg b w (src_id source) already) keys
                            (res\<lparr>files_seen := files_seen res + int (length keys)\<rparr>)))))"

(* ingestion/watcher.py:80-84 tick *)
definition watch_visit ::
  "('w, 'r, 'v, 'f) triggers \<Rightarrow> files \<Rightarrow> 'f registry \<Rightarrow> 'f binding \<Rightarrow> watch_result \<Rightarrow> ('w, watch_result) act" where
  "watch_visit tr fs reg b res =
     (if sched_mode (bd_schedule b) \<noteq> Watch then give res
      else process_binding tr fs reg b (res\<lparr>wr_inspected := wr_inspected res + 1\<rparr>))"

(* ingestion/watcher.py:78-93 tick *)
definition watch_tick :: "('w, 'r, 'v, 'f) triggers \<Rightarrow> files \<Rightarrow> 'f registry \<Rightarrow> ('w, watch_result) act" where
  "watch_tick tr fs reg =
     act_fold (watch_visit tr fs reg) (map snd (bindings reg))
       \<lparr>wr_inspected = 0, files_seen = 0, files_new = 0, wr_loads = 0, loads_skipped = 0, wr_attempts = []\<rparr>"

section \<open>Inferred periods\<close>

lemma strip_id:
  assumes "s \<noteq> []" and "\<not> is_space (hd s)" and "\<not> is_space (last s)"
  shows "strip s = s"
proof -
  have "dropWhile is_space s = s" using assms(1,2) by (cases s) simp_all
  moreover have "dropWhile is_space (rev s) = rev s"
    using assms(1,3) by (cases "rev s") (auto simp: last_rev [of "rev s", simplified])
  ultimately show ?thesis by (simp add: strip_def)
qed

lemma upper_not_space: "upper c \<Longrightarrow> \<not> is_space c"
  by (auto simp: upper_def is_space_def less_eq_char_def)

lemma dashed_ends: "dashed t \<Longrightarrow> t \<noteq> [] \<and> is_digit (hd t) \<and> (is_digit (last t) \<or> upper (last t))"
proof -
  assume d: "dashed t"
  then have len: "7 \<le> length t" and four: "digit_text (take 4 t)" and two: "digit_text (take 2 (drop 5 t))"
    and rest: "length t = 7 \<or> 9 \<le> length t \<and> list_all upper (drop 8 t)"
    by (auto simp: dashed_def)
  have "t \<noteq> []" using len by auto
  have "hd (take 4 t) \<in> set (take 4 t)" using len by (intro hd_in_set) auto
  then have "is_digit (hd t)" using four len by (auto simp: digit_text_def list_all_iff)
  moreover have "is_digit (last t) \<or> upper (last t)"
    using rest
  proof
    assume "length t = 7"
    then have "last (take 2 (drop 5 t)) = last t" by simp
    moreover have "last (take 2 (drop 5 t)) \<in> set (take 2 (drop 5 t))" using len by (intro last_in_set) auto
    ultimately show ?thesis using two by (auto simp: digit_text_def list_all_iff)
  next
    assume long: "9 \<le> length t \<and> list_all upper (drop 8 t)"
    then have "last (drop 8 t) = last t" by (intro last_drop) simp
    moreover have "last (drop 8 t) \<in> set (drop 8 t)" using long by (intro last_in_set) auto
    ultimately show ?thesis using long by (auto simp: list_all_iff)
  qed
  ultimately show ?thesis using \<open>t \<noteq> []\<close> by blast
qed

text \<open>
  Whatever text a period is taken from, the result has the canonical dashed form, and normalising it
  again changes nothing.
\<close>

lemma normalise_period_canonical:
  assumes "normalise_period raw = Inr p"
  shows "dashed p \<and> normalise_period p = Inr p"
proof -
  let ?t = "strip raw"
  have form: "dashed p"
  proof -
    consider "dashed ?t" "p = ?t" | "compact ?t" "p = take 4 ?t @ ''-'' @ drop 4 ?t"
      | "date_like ?t" "p = take 4 ?t @ ''-'' @ take 2 (drop 5 ?t)"
      using assms by (cases "dashed ?t"; cases "compact ?t"; cases "date_like ?t"; simp add: normalise_period_def Let_def)
    then show ?thesis
    proof cases
      case 2
      have "digit_text (take 4 ?t)" "digit_text (drop 4 ?t)"
        using 2(1) by (auto simp: compact_def digit_text_def list_all_iff dest: in_set_takeD in_set_dropD)
      then show ?thesis using 2 by (simp add: dashed_def compact_def nth_append)
    next
      case 3
      then show ?thesis by (auto simp: dashed_def date_like_def nth_append)
    qed simp
  qed
  then have "strip p = p" using dashed_ends is_digit_not_space upper_not_space by (intro strip_id) blast+
  then show ?thesis using form by (simp add: normalise_period_def)
qed

text \<open>More than a period is accepted: a month that does not exist, and a text that only begins like a date.\<close>

lemma normalise_period_lax:
  "normalise_period ''202699'' = Inr ''2026-99''" "normalise_period ''2026-041'' = Inr ''2026-04''"
  by code_simp+

section \<open>Each file starts one load\<close>

definition rows_stay :: "'w world \<Rightarrow> 'w world \<Rightarrow> bool" where
  "rows_stay s s' \<longleftrightarrow> (wf_dict (load_history s) \<longrightarrow> wf_dict (load_history s'))
     \<and> (\<forall>k r. dget (load_history s) k = Some r \<longrightarrow> (\<exists>r'. dget (load_history s') k = Some r' \<and> origin r' = origin r))"

interpretation stay: kept rows_stay
proof
  show "rows_stay s s2" if "rows_stay s s1" "rows_stay s1 s2" for s s1 s2 :: "'a world"
    using that unfolding rows_stay_def by metis
qed (simp add: rows_stay_def)

lemma grows_stay: "grows t s s' \<Longrightarrow> rows_stay s s'"
  by (simp add: grows_def rows_stay_def)

lemma run_stays: "keeps rows_stay (\<lambda>s. run_binding (surroundings tr s) reg bid period trig notes stop s)"
  by (rule keepsI) (rule grows_stay, erule run_binding_grows, rule order_refl)

lemma act_fold_stays: "(\<And>x a. x \<in> set xs \<Longrightarrow> keeps rows_stay (f x a)) \<Longrightarrow> keeps rows_stay (act_fold f xs a)"
  by (induction xs arbitrary: a) (simp_all add: stay.keeps_give stay.keeps_andthen)

lemma watch_file_stays: "keeps rows_stay (watch_file tr fs reg b w src already key res)"
  unfolding watch_file_def Let_def
  by (auto intro!: stay.keeps_give stay.keeps_lift stay.keeps_andthen run_stays split: sum.splits exn.splits)

lemma query_stays: "keeps rows_stay (\<lambda>s. processed_watch_keys_for_binding (surroundings tr s) bid s)"
  by (rule keepsI) (auto simp: processed_watch_keys_for_binding_def rows_stay_def dest: query_same)

lemma process_binding_stays: "keeps rows_stay (process_binding tr fs reg b res)"
  unfolding process_binding_def
  by (auto intro!: stay.keeps_give stay.keeps_lift stay.keeps_andthen query_stays act_fold_stays watch_file_stays
      split: option.splits sum.splits)

lemma watch_visit_stays: "keeps rows_stay (watch_visit tr fs reg b res)"
  by (simp add: watch_visit_def process_binding_stays stay.keeps_give)

text \<open>A file is settled when the history has an attempt for it, or its period cannot be inferred.\<close>

definition processed :: "'w world \<Rightarrow> string \<Rightarrow> string \<Rightarrow> bool" where
  "processed s bid key \<longleftrightarrow> key \<in> set (map (\<lambda>r. drop 6 (lh_triggered_by r)) (triggered ''watch:'' bid s))"

definition settled :: "files \<Rightarrow> 'f binding \<Rightarrow> watch_spec \<Rightarrow> string \<Rightarrow> 'w world \<Rightarrow> string \<Rightarrow> bool" where
  "settled fs b w src s key \<longleftrightarrow> processed s (bd_id b) key \<or> (\<exists>m. infer_period fs w src key = Inl (InferenceError m))"

lemma processed_stay: "processed s bid key \<Longrightarrow> rows_stay s s' \<Longrightarrow> wf_dict (load_history s) \<Longrightarrow> processed s' bid key"
proof -
  assume p: "processed s bid key" and g: "rows_stay s s'" and wf: "wf_dict (load_history s)"
  have wf': "wf_dict (load_history s')" using g wf by (simp add: rows_stay_def)
  obtain r k where r: "key = drop 6 (lh_triggered_by r)" "dget (load_history s) k = Some r" "lh_binding r = bid" "startswith (lh_triggered_by r) ''watch:''"
    using p in_triggered [OF wf] by (auto simp: processed_def)
  then obtain r' where "dget (load_history s') k = Some r'" "origin r' = origin r" using g unfolding rows_stay_def by blast
  then have "r' \<in> set (triggered ''watch:'' bid s')" "drop 6 (lh_triggered_by r') = key"
    using r in_triggered [OF wf'] by (auto simp: origin_def)
  then show ?thesis by (force simp: processed_def)
qed

lemma settled_stay: "settled fs b w src s key \<Longrightarrow> rows_stay s s' \<Longrightarrow> wf_dict (load_history s) \<Longrightarrow> settled fs b w src s' key"
  using processed_stay by (auto simp: settled_def)

lemma returned_run_marks:
  assumes "run_binding env reg bid period trig notes stop s = (s', Inr a)" and "well_formed reg"
  shows "marked (clock env) bid trig s'"
  using assms(1)
proof (rule run_binding_cases)
  fix b src s1
  assume b: "get_binding reg bid = Inr b"
    and ins: "insert_attempt env (new_load_id env) b src (case period of None \<Rightarrow> this_month env | Some p \<Rightarrow> p) trig notes s = (s1, Inr ())"
    and w: "with_lock env b period (new_load_id env) stop s1 = (s', Inr a)"
  have "bd_id b = bid" using well_formed_lookup(1) [OF assms(2) b] .
  then have "marked (clock env) bid trig s1"
    using ins unfolding insert_attempt_def marked_def
    by (intro exI [of _ "new_load_id env"]) (auto elim!: history_step_cases simp: dict_simps split: if_splits)
  then show ?thesis using keepsD [OF with_lock_grows w] marked_grows by blast
qed simp

lemma marked_processed: "marked t bid (''watch:'' @ key) s \<Longrightarrow> processed s bid key"
proof -
  assume "marked t bid (''watch:'' @ key) s"
  then obtain k r where r: "(k, r) \<in> set (load_history s)" "lh_binding r = bid" "lh_triggered_by r = ''watch:'' @ key"
    by (auto simp: marked_def dest: map_of_SomeD)
  have "startswith (lh_triggered_by r) ''watch:''" "drop 6 (lh_triggered_by r) = key" by (simp_all add: r(3) startswith_def)
  then show ?thesis using r(1,2) by (force simp: processed_def triggered_def)
qed

lemma watch_file_settles:
  assumes run: "watch_file tr fs reg b w src already key res s = (s', Inr out)" and reg: "well_formed reg"
    and known: "\<And>k. k \<in> set already \<Longrightarrow> processed s (bd_id b) k"
  shows "settled fs b w src s' key"
proof (cases "key \<in> set already")
  case True
  then show ?thesis using run known by (simp add: watch_file_def give_def settled_def)
next
  case False
  show ?thesis
  proof (cases "infer_period fs w src key")
    case (Inl e)
    then show ?thesis using run False by (cases e) (auto simp: watch_file_def Let_def settled_def)
  next
    case (Inr period)
    then obtain a s1 where "run_binding (surroundings tr s) reg (bd_id b) (Some period) (''watch:'' @ key) None None s = (s1, Inr a)" "s' = s1"
      using run False by (auto simp: watch_file_def Let_def give_def elim!: andthen_cases)
    then show ?thesis using returned_run_marks [OF _ reg] marked_processed unfolding settled_def by blast
  qed
qed

lemma watch_files_settle:
  assumes "act_fold (watch_file tr fs reg b w src already) keys res s = (s', Inr out)" and "well_formed reg"
    and "\<And>k. k \<in> set already \<Longrightarrow> processed s (bd_id b) k" and "wf_dict (load_history s)" and "key \<in> set keys"
  shows "settled fs b w src s' key"
  using assms(1,3-5)
proof (induction keys arbitrary: s res)
  case (Cons k keys)
  obtain s1 a where first: "watch_file tr fs reg b w src already k res s = (s1, Inr a)"
    and rest: "act_fold (watch_file tr fs reg b w src already) keys a s1 = (s', Inr out)"
    using Cons.prems(1) by (auto elim: andthen_cases)
  have g: "rows_stay s s1" "rows_stay s1 s'"
    using keepsD [OF watch_file_stays first] keepsD [OF act_fold_stays [OF watch_file_stays] rest] by simp_all
  have wf1: "wf_dict (load_history s1)" using g(1) Cons.prems(3) by (simp add: rows_stay_def)
  have known: "processed s1 (bd_id b) k'" if "k' \<in> set already" for k'
    using Cons.prems(2) [OF that] g(1) Cons.prems(3) by (rule processed_stay)
  show ?case
  proof (cases "key = k")
    case True
    have "settled fs b w src s1 key" using watch_file_settles [OF first assms(2) Cons.prems(2)] True by simp
    then show ?thesis using settled_stay g(2) wf1 by blast
  next
    case False
    then show ?thesis using Cons.IH [OF rest known wf1] Cons.prems(4) by simp
  qed
qed simp

text \<open>The files a watched binding sees: its watch configuration, its source and the keys listed.\<close>

definition sees :: "files \<Rightarrow> 'f registry \<Rightarrow> 'f binding \<Rightarrow> watch_spec \<Rightarrow> string \<Rightarrow> string list \<Rightarrow> bool" where
  "sees fs reg b w src keys \<longleftrightarrow> sched_mode (bd_schedule b) = Watch \<and> sched_watch (bd_schedule b) = Some w
     \<and> (\<exists>source. get_source reg (bd_source b) = Inr source \<and> src = src_id source) \<and> list_keys fs src (file_glob w) = Inr keys"

text \<open>What a visit that returns must have found, or nothing to do.\<close>

definition passable :: "files \<Rightarrow> 'f registry \<Rightarrow> 'f binding \<Rightarrow> bool" where
  "passable fs reg b \<longleftrightarrow> sched_mode (bd_schedule b) = Watch \<longrightarrow> sched_watch (bd_schedule b) \<noteq> None \<longrightarrow>
     (\<exists>source. get_source reg (bd_source b) = Inr source \<and> opens fs (src_id source) = None)"

lemma visit_returns_passable:
  assumes "watch_visit tr fs reg b res s = (s', Inr out)"
  shows "passable fs reg b"
  using assms
  by (cases "get_source reg (bd_source b)")
     (auto simp: passable_def watch_visit_def process_binding_def res_wrap_def andthen_def raise_if_def split: option.splits)

lemma visit_settles:
  assumes run: "watch_visit tr fs reg b res s = (s', Inr out)" and reg: "well_formed reg" and wf: "wf_dict (load_history s)"
    and sees: "sees fs reg b w src keys" and key: "key \<in> set keys"
  shows "settled fs b w src s' key"
proof -
  let ?res = "res\<lparr>wr_inspected := wr_inspected res + 1\<rparr>"
  obtain source where source: "get_source reg (bd_source b) = Inr source" "src = src_id source"
    and w: "sched_mode (bd_schedule b) = Watch" "sched_watch (bd_schedule b) = Some w" and keys: "list_keys fs src (file_glob w) = Inr keys"
    using sees unfolding sees_def by blast
  have "opens fs src = None"
    using visit_returns_passable [OF run] source w by (auto simp: passable_def)
  then have "andthen (\<lambda>s. processed_watch_keys_for_binding (surroundings tr s) (bd_id b) s)
      (\<lambda>already. act_fold (watch_file tr fs reg b w src already) keys (?res\<lparr>files_seen := files_seen ?res + int (length keys)\<rparr>)) s = (s', Inr out)"
    using run w source keys by (simp add: watch_visit_def process_binding_def)
  then obtain already where q: "processed_watch_keys_for_binding (surroundings tr s) (bd_id b) s = (s, Inr already)"
    and rest: "act_fold (watch_file tr fs reg b w src already) keys (?res\<lparr>files_seen := files_seen ?res + int (length keys)\<rparr>) s = (s', Inr out)"
    by (auto elim!: andthen_cases simp: processed_watch_keys_for_binding_def dest: query_same)
  have "processed s (bd_id b) k" if "k \<in> set already" for k
    using q that by (auto simp: processed_watch_keys_for_binding_def history_query_def processed_def split: option.splits)
  then show ?thesis using watch_files_settle [OF rest reg _ wf key] by blast
qed

lemma visits_settle:
  assumes "act_fold (watch_visit tr fs reg) bs res s = (s', Inr out)" and "well_formed reg" and "wf_dict (load_history s)"
  shows "\<forall>b\<in>set bs. passable fs reg b \<and> (\<forall>w src keys key. sees fs reg b w src keys \<longrightarrow> key \<in> set keys \<longrightarrow> settled fs b w src s' key)"
  using assms(1,3)
proof (induction bs arbitrary: s res)
  case (Cons x bs)
  obtain s1 a where first: "watch_visit tr fs reg x res s = (s1, Inr a)" and rest: "act_fold (watch_visit tr fs reg) bs a s1 = (s', Inr out)"
    using Cons.prems(1) by (auto elim: andthen_cases)
  have g: "rows_stay s s1" "rows_stay s1 s'"
    using keepsD [OF watch_visit_stays first] keepsD [OF act_fold_stays [OF watch_visit_stays] rest] by simp_all
  have wf1: "wf_dict (load_history s1)" using g(1) Cons.prems(2) by (simp add: rows_stay_def)
  have "settled fs x w src s' key" if "sees fs reg x w src keys" "key \<in> set keys" for w src keys key
    using visit_settles [OF first assms(2) Cons.prems(2) that] settled_stay g(2) wf1 by blast
  then show ?case using Cons.IH [OF rest wf1] visit_returns_passable [OF first] by simp
qed simp

lemma settled_files_rest:
  assumes "\<And>key. key \<in> set keys \<Longrightarrow> key \<in> set already \<or> (\<exists>m. infer_period fs w src key = Inl (InferenceError m))"
  shows "\<exists>out. act_fold (watch_file tr fs reg b w src already) keys res s = (s, Inr out) \<and> wr_loads out = wr_loads res"
  using assms
proof (induction keys arbitrary: res)
  case (Cons k keys)
  have "\<exists>a. watch_file tr fs reg b w src already k res s = (s, Inr a) \<and> wr_loads a = wr_loads res"
    using Cons.prems [of k] by (auto simp: watch_file_def give_def Let_def)
  then obtain a where a: "watch_file tr fs reg b w src already k res s = (s, Inr a)" "wr_loads a = wr_loads res" by blast
  then show ?case using Cons.IH [of a] Cons.prems by (simp add: andthen_def)
qed (simp add: give_def)

lemma settled_visit_rests:
  assumes pass: "passable fs reg b" and err: "history_error (surroundings tr s) WatchKeys = None"
    and done_files: "\<And>w src keys key. sees fs reg b w src keys \<Longrightarrow> key \<in> set keys \<Longrightarrow> settled fs b w src s key"
  shows "\<exists>out. watch_visit tr fs reg b res s = (s, Inr out) \<and> wr_loads out = wr_loads res"
proof (cases "sched_mode (bd_schedule b) = Watch \<and> sched_watch (bd_schedule b) \<noteq> None")
  case False
  then show ?thesis by (auto simp: watch_visit_def process_binding_def give_def split: option.splits)
next
  case True
  then obtain w source where w: "sched_mode (bd_schedule b) = Watch" "sched_watch (bd_schedule b) = Some w"
    and source: "get_source reg (bd_source b) = Inr source" "opens fs (src_id source) = None"
    using pass by (auto simp: passable_def)
  show ?thesis
  proof (cases "list_keys fs (src_id source) (file_glob w)")
    case (Inl e)
    then show ?thesis using w source by (simp add: watch_visit_def process_binding_def give_def)
  next
    case (Inr keys)
    let ?already = "map (\<lambda>r. drop 6 (lh_triggered_by r)) (triggered ''watch:'' (bd_id b) s)"
    let ?res = "res\<lparr>wr_inspected := wr_inspected res + 1\<rparr>"
    have "sees fs reg b w (src_id source) keys" using w source Inr by (auto simp: sees_def)
    then have "key \<in> set ?already \<or> (\<exists>m. infer_period fs w (src_id source) key = Inl (InferenceError m))" if "key \<in> set keys" for key
      using done_files that unfolding settled_def processed_def by blast
    then obtain out where "act_fold (watch_file tr fs reg b w (src_id source) ?already) keys
        (?res\<lparr>files_seen := files_seen ?res + int (length keys)\<rparr>) s = (s, Inr out)" "wr_loads out = wr_loads res"
      using settled_files_rest [of keys ?already fs w "src_id source" tr reg b "?res\<lparr>files_seen := files_seen ?res + int (length keys)\<rparr>" s] by auto
    then show ?thesis using w source Inr err
      by (simp add: watch_visit_def process_binding_def andthen_def processed_watch_keys_for_binding_def history_query_def)
  qed
qed

lemma settled_visits_rest:
  assumes "\<forall>b\<in>set bs. passable fs reg b \<and> (\<forall>w src keys key. sees fs reg b w src keys \<longrightarrow> key \<in> set keys \<longrightarrow> settled fs b w src s key)"
    and "history_error (surroundings tr s) WatchKeys = None"
  shows "\<exists>out. act_fold (watch_visit tr fs reg) bs res s = (s, Inr out) \<and> wr_loads out = wr_loads res"
  using assms(1)
proof (induction bs arbitrary: res)
  case (Cons x bs)
  obtain a where a: "watch_visit tr fs reg x res s = (s, Inr a)" "wr_loads a = wr_loads res"
    using settled_visit_rests [OF _ assms(2), of fs reg x res] Cons.prems by auto
  show ?case using Cons.IH [of a] Cons.prems a by (simp add: andthen_def)
qed (simp add: give_def)

text \<open>
  C30: Each new file starts one load. When the tick of the watcher returns, every file it listed for a
  watched binding has an attempt in the history, unless its period cannot be inferred; so with the same
  files a further tick starts no load and changes nothing.
\<close>

theorem watched_files_load_once:
  assumes "watch_tick tr fs reg s = (s', Inr out)" and "well_formed reg" and "wf_dict (load_history s)"
    and "history_error (surroundings tr s') WatchKeys = None"
  shows "(\<forall>bid b w src keys. get_binding reg bid = Inr b \<and> sees fs reg b w src keys \<longrightarrow>
           (\<forall>key\<in>set keys. processed s' bid key \<or> (\<exists>m. infer_period fs w src key = Inl (InferenceError m))))
     \<and> (\<exists>out'. watch_tick tr fs reg s' = (s', Inr out') \<and> wr_loads out' = 0)"
proof
  have all_settled: "\<forall>b\<in>set (map snd (bindings reg)). passable fs reg b
      \<and> (\<forall>w src keys key. sees fs reg b w src keys \<longrightarrow> key \<in> set keys \<longrightarrow> settled fs b w src s' key)"
    using visits_settle [OF _ assms(2,3)] assms(1) unfolding watch_tick_def by blast
  show "\<forall>bid b w src keys. get_binding reg bid = Inr b \<and> sees fs reg b w src keys \<longrightarrow>
           (\<forall>key\<in>set keys. processed s' bid key \<or> (\<exists>m. infer_period fs w src key = Inl (InferenceError m)))"
  proof (intro allI impI ballI)
    fix bid b w src keys key
    assume b: "get_binding reg bid = Inr b \<and> sees fs reg b w src keys" and key: "key \<in> set keys"
    then have "b \<in> set (map snd (bindings reg))" by (force simp: get_binding_def res_simps dest: map_of_SomeD)
    then have "settled fs b w src s' key" using all_settled b key by blast
    moreover have "bd_id b = bid" using well_formed_lookup(1) assms(2) b by blast
    ultimately show "processed s' bid key \<or> (\<exists>m. infer_period fs w src key = Inl (InferenceError m))" by (simp add: settled_def)
  qed
  show "\<exists>out'. watch_tick tr fs reg s' = (s', Inr out') \<and> wr_loads out' = 0"
    using settled_visits_rest [OF all_settled assms(4),
        of "\<lparr>wr_inspected = 0, files_seen = 0, files_new = 0, wr_loads = 0, loads_skipped = 0, wr_attempts = []\<rparr>"]
    by (simp add: watch_tick_def)
qed

text \<open>
  A watched snapshot stops the watcher. The watcher always gives a run the period of the file, and a
  snapshot binding refuses one with an exception the watcher does not catch. So when the first binding is
  a watched snapshot and its source lists a new file whose period can be inferred, the tick raises
  before any other binding is looked at and leaves no trace; the next tick, in the same state, does the same.
\<close>

theorem watched_snapshot_stops_watcher:
  assumes "bindings reg = (bid, b) # others" and "bd_kind b = Snapshot" and "well_formed reg"
    and "sees fs reg b w src (key # keys)" and "opens fs src = None" and "infer_period fs w src key = Inr period"
    and "\<not> processed s bid key" and "history_error (surroundings tr s) WatchKeys = None"
  shows "watch_tick tr fs reg s = (s, Inl (exn.ValueError ''period must be None''))"
proof -
  have b: "get_binding reg bid = Inr b" using assms(1) by (simp add: get_binding_def)
  have own: "bd_id b = bid" using well_formed_lookup(1) [OF assms(3) b] .
  obtain source where source: "get_source reg (bd_source b) = Inr source" "src = src_id source"
    and w: "sched_mode (bd_schedule b) = Watch" "sched_watch (bd_schedule b) = Some w" "list_keys fs src (file_glob w) = Inr (key # keys)"
    using assms(4) unfolding sees_def by blast
  let ?already = "map (\<lambda>r. drop 6 (lh_triggered_by r)) (triggered ''watch:'' bid s)"
  have new: "key \<notin> set ?already" using assms(7) by (simp add: processed_def)
  have refused: "run_binding (surroundings tr s) reg bid (Some period) trig None None s = (s, Inl (exn.ValueError ''period must be None''))" for trig
    by (simp add: run_binding_def b source(1) open_attempt_def assms(2) andthen_def res_guard_def)
  have one: "watch_file tr fs reg b w src ?already key res s = (s, Inl (exn.ValueError ''period must be None''))" for res
    using new by (simp add: watch_file_def assms(6) own andthen_def refused del: set_map)
  have visit: "watch_visit tr fs reg b res s = (s, Inl (exn.ValueError ''period must be None''))" for res
    using w source assms(5,8) one
    by (simp add: watch_visit_def process_binding_def own andthen_def processed_watch_keys_for_binding_def history_query_def)
  then show ?thesis by (simp add: watch_tick_def assms(1) andthen_def visit)
qed

section \<open>Examples\<close>

text \<open>A drop folder with one file whose name carries the period, and a binding that watches it.\<close>

definition drop_files :: files where
  "drop_files = \<lparr>opens = (\<lambda>src. None), list_keys = (\<lambda>src glob. Inr [''in/gl_202505.csv'']), file_format = (\<lambda>src. Some ''csv''),
     has_reader = (\<lambda>f. True), get_size = (\<lambda>src key. Inr 1000), first_row_of = (\<lambda>src key. Inr None),
     search = (\<lambda>pattern name. if name = ''gl_202505.csv'' then Captured ''202505'' else NoMatch)\<rparr>"

definition drop_watch :: watch_spec where
  "drop_watch = \<lparr>file_glob = ''*.csv'', watch_period_from = FilenameRegex, filename_regex = Some ''gl_(?P<period>[0-9]+)'', watch_period_column = None\<rparr>"

definition drop_binding :: "kind \<Rightarrow> int binding" where
  "drop_binding k = gl_binding\<lparr>bd_kind := k, bd_schedule := gl_schedule\<lparr>sched_mode := Watch, sched_watch := Some drop_watch\<rparr>\<rparr>"

definition drop_registry :: "kind \<Rightarrow> int registry" where
  "drop_registry k = gl_registry\<lparr>bindings := [(''gl_erp'', drop_binding k)]\<rparr>"

lemma drop_well_formed: "well_formed (drop_registry k)"
  by (cases k) code_simp+

lemma drop_sees: "sees drop_files (drop_registry k) (drop_binding k) drop_watch ''erp'' [''in/gl_202505.csv'']"
  by (simp add: sees_def drop_files_def drop_registry_def drop_binding_def gl_binding_def get_source_def gl_registry_def)

lemma drop_infers: "infer_period drop_files drop_watch ''erp'' ''in/gl_202505.csv'' = Inr ''2025-05''"
  by code_simp

theorem watched_snapshot_stops_watcher_witness:
  "watch_tick hourly drop_files (drop_registry Snapshot) gl_world = (gl_world, Inl (exn.ValueError ''period must be None''))"
proof (rule watched_snapshot_stops_watcher [OF _ _ drop_well_formed drop_sees _ drop_infers])
  show "bindings (drop_registry Snapshot) = (''gl_erp'', drop_binding Snapshot) # []" by (simp add: drop_registry_def)
qed (simp_all add: drop_binding_def drop_files_def processed_def triggered_def gl_world_def hourly_def gl_env_def)

text \<open>A run that meets a held lock returns when the history works.\<close>

lemma conflict_returns:
  assumes "get_binding reg bid = Inr b" and "get_source reg (bd_source b) = Inr src" and "bd_kind b = Snapshot \<longleftrightarrow> period = None"
    and "history_error env = (\<lambda>op. None)" and "lock_error env = None" and "\<not> dhas (new_load_id env) (load_history s)"
    and "hashtext env (''ingest_lock:'' @ bd_id b) \<in> set (locks s)"
  shows "\<exists>s' a. run_binding env reg bid period trig notes None s = (s', Inr a)"
proof -
  let ?i = "new_load_id env" and ?p = "case period of None \<Rightarrow> this_month env | Some p \<Rightarrow> p"
  obtain s1 where ins: "insert_attempt env ?i b src ?p trig notes s = (s1, Inr ())"
    using assms(4,6) by (simp add: insert_attempt_def history_step_def raise_if_def)
  have kinds: "\<not> (bd_kind b = Snapshot \<and> period \<noteq> None)" "\<not> (bd_kind b = Period \<and> period = None)"
    using assms(3) by (cases "bd_kind b"; simp)+
  have run: "run_binding env reg bid period trig notes None s = with_lock env b period ?i None s1"
    using ins kinds by (simp add: run_binding_def assms(1,2) andthen_def res_guard_def open_attempt_def)
  have "locks s1 = locks s" using keepsD [OF history_kept(10) ins] by (simp add: locks_same_def)
  then show ?thesis unfolding run
    using assms(4,5,7) by (simp add: with_lock_def Let_def andthen_def acquire_lock_def find_running_for_binding_def fail_def finalise_def
        history_step_def raise_if_def give_def)
qed

definition busy_world :: "int tables world" where
  "busy_world = gl_world\<lparr>locks := [18]\<rparr>"

theorem watched_files_load_once_witness:
  "\<exists>s' out. watch_tick hourly drop_files (drop_registry Period) busy_world = (s', Inr out)
     \<and> processed s' ''gl_erp'' ''in/gl_202505.csv''"
proof -
  let ?env = "surroundings hourly busy_world" and ?b = "drop_binding Period" and ?key = "''in/gl_202505.csv''"
  have b: "get_binding (drop_registry Period) ''gl_erp'' = Inr ?b" "bd_id ?b = ''gl_erp''" "bd_kind ?b = Period"
    by (simp_all add: get_binding_def drop_registry_def drop_binding_def gl_binding_def)
  have source: "get_source (drop_registry Period) (bd_source ?b) = Inr \<lparr>src_id = ''erp'', src_kind = ''postgres'', secret_ref = ''ERP''\<rparr>"
    by (simp add: get_source_def drop_registry_def gl_registry_def drop_binding_def gl_binding_def)
  have "\<exists>s' a. run_binding ?env (drop_registry Period) ''gl_erp'' (Some ''2025-05'') trig None None busy_world = (s', Inr a)" for trig
    by (rule conflict_returns [OF b(1) source]) (simp_all add: b hourly_def gl_env_def busy_world_def gl_world_def dhas_def)
  then obtain s' a where ran: "run_binding ?env (drop_registry Period) ''gl_erp'' (Some ''2025-05'') (''watch:'' @ ?key) None None busy_world = (s', Inr a)"
    by blast
  have new: "triggered start ''gl_erp'' busy_world = []" for start by (simp add: triggered_def busy_world_def gl_world_def)
  have err: "history_error (surroundings hourly s) WatchKeys = None" for s by (simp add: hourly_def gl_env_def)
  have file_run: "\<exists>out. watch_file hourly drop_files (drop_registry Period) ?b drop_watch ''erp'' [] ?key res busy_world = (s', Inr out)" for res
    unfolding watch_file_def drop_infers Let_def using ran by (simp add: andthen_def give_def b)
  have store: "opens drop_files x = None" "list_keys drop_files x y = Inr [?key]" for x y by (simp_all add: drop_files_def)
  have "\<exists>out. watch_visit hourly drop_files (drop_registry Period) ?b res busy_world = (s', Inr out)" for res
  proof -
    let ?res = "res\<lparr>wr_inspected := wr_inspected res + 1, files_seen := files_seen res + 1\<rparr>"
    obtain out where "watch_file hourly drop_files (drop_registry Period) ?b drop_watch ''erp'' [] ?key ?res busy_world = (s', Inr out)"
      using file_run [of ?res] by blast
    then show ?thesis
      using drop_sees [of Period] source new err
      by (simp add: watch_visit_def process_binding_def sees_def andthen_def b processed_watch_keys_for_binding_def history_query_def
          store give_def)
  qed
  then obtain out where visit: "watch_visit hourly drop_files (drop_registry Period) ?b
      \<lparr>wr_inspected = 0, files_seen = 0, files_new = 0, wr_loads = 0, loads_skipped = 0, wr_attempts = []\<rparr> busy_world = (s', Inr out)" by blast
  have "map snd (bindings (drop_registry Period)) = [?b]" by (simp add: drop_registry_def)
  then have run: "watch_tick hourly drop_files (drop_registry Period) busy_world = (s', Inr out)"
    using visit by (simp add: watch_tick_def andthen_def give_def)
  have "wf_dict (load_history busy_world)" by (simp add: gl_world_def busy_world_def)
  from watched_files_load_once [OF run drop_well_formed this err] b drop_sees drop_infers
  show ?thesis using run by fastforce
qed

end
