(* ===== verification/Datasets.thy ===== *)
theory Datasets
  imports Permissions ToolArgs
begin

text \<open>
  The snapshot cache (\<open>datasets.py\<close>): every report result is kept in Redis under a reference that only
  its owner can resolve, and only while the owner's read grants are the ones it was made under. The
  state is the part of Redis the code uses: a string with an expiry per snapshot, and per user a sorted
  set of expiry scores and a hash of sizes. \<open>WATCH\<close> makes an attempt commit on the state it read or
  not at all, so an attempt is one transition; what other clients do between two attempts is an argument.

  Instants are microseconds and lifetimes seconds; one call reads the clock once. The length of a JSON
  encoding is a parameter, \<^const>\<open>None\<close> where \<open>json.dumps\<close> refuses a NaN, and so is SHA-256. Redis
  returns the envelope that was stored: encoding and decoding it are the identity on JSON values.
\<close>

section \<open>Access stamps\<close>

text \<open>Python's \<open>==\<close> on dictionaries: the same keys with equal values, in any order.\<close>

definition dict_eq :: "('v \<Rightarrow> 'v \<Rightarrow> bool) \<Rightarrow> ('k, 'v) dict \<Rightarrow> ('k, 'v) dict \<Rightarrow> bool" where
  "dict_eq eq d e \<longleftrightarrow> length d = length e
     \<and> list_all (\<lambda>(k, v). case dget e k of None \<Rightarrow> False | Some w \<Rightarrow> eq v w) d"

fun opt_eq :: "('v \<Rightarrow> 'v \<Rightarrow> bool) \<Rightarrow> 'v option \<Rightarrow> 'v option \<Rightarrow> bool" where
  "opt_eq eq None None = True"
| "opt_eq eq (Some x) (Some y) = eq x y"
| "opt_eq eq _ _ = False"

text \<open>The scopes as \<open>asdict\<close> writes them and \<open>==\<close> compares them.\<close>

definition dimension_scope_eq :: "dimension_scope \<Rightarrow> dimension_scope \<Rightarrow> bool" where
  "dimension_scope_eq a b \<longleftrightarrow> opt_eq (dict_eq (=)) (dims_allow a) (dims_allow b)
     \<and> opt_eq (dict_eq (=)) (dims_deny a) (dims_deny b)"

definition scope_eq :: "scope_spec \<Rightarrow> scope_spec \<Rightarrow> bool" where
  "scope_eq a b \<longleftrightarrow> opt_eq dimension_scope_eq (sc_dimensions a) (sc_dimensions b)
     \<and> opt_eq (=) (sc_domains a) (sc_domains b)"

record grants =
  stamp_admin :: bool
  stamp_scenarios :: "(string, scope_spec option) dict"

record access =
  acc_owner :: string
  acc_grants :: grants

(* datasets.py:33-47 permission_stamp *)
definition permission_stamp :: "user_permissions \<Rightarrow> grants" where
  "permission_stamp p = \<lparr>stamp_admin = perm_admin p,
     stamp_scenarios = List.map_filter (\<lambda>(sid, grant). map_option (Pair sid) (dget (tool_scopes grant) ''read''))
       (sort_key fst (perm_scenarios p))\<rparr>"

definition grants_eq :: "grants \<Rightarrow> grants \<Rightarrow> bool" where
  "grants_eq a b \<longleftrightarrow> stamp_admin a = stamp_admin b
     \<and> dict_eq (opt_eq scope_eq) (stamp_scenarios a) (stamp_scenarios b)"

text \<open>An absent or empty access document has no owner and refuses everybody.\<close>

(* datasets.py:50-55 check_access *)
definition check_access :: "access option \<Rightarrow> string \<Rightarrow> user_permissions \<Rightarrow> bool" where
  "check_access access user p =
     (case access of
        None \<Rightarrow> False
      | Some a \<Rightarrow> perm_user p = user \<and> acc_owner a = user \<and> grants_eq (acc_grants a) (permission_stamp p))"

section \<open>Settings and references\<close>

(* datasets.py:26-30 _limit *)
definition limit :: "(string \<Rightarrow> string option) \<Rightarrow> string \<Rightarrow> int \<Rightarrow> int option" where
  "limit getenv name dflt =
     (case getenv name of
        None \<Rightarrow> Some dflt
      | Some raw \<Rightarrow> (case py_int raw of None \<Rightarrow> None | Some n \<Rightarrow> if n \<le> 0 then None else Some n))"

definition idle_seconds :: "(string \<Rightarrow> string option) \<Rightarrow> int option" where
  "idle_seconds getenv = limit getenv ''PRECIS_DATASET_IDLE_SECONDS'' 600"

definition max_age_seconds :: "(string \<Rightarrow> string option) \<Rightarrow> int option" where
  "max_age_seconds getenv = limit getenv ''PRECIS_DATASET_MAX_AGE_SECONDS'' 3600"

definition max_bytes :: "(string \<Rightarrow> string option) \<Rightarrow> int option" where
  "max_bytes getenv = limit getenv ''PRECIS_DATASET_MAX_BYTES'' (4 * 1024 * 1024)"

definition user_bytes :: "(string \<Rightarrow> string option) \<Rightarrow> int option" where
  "user_bytes getenv = limit getenv ''PRECIS_DATASET_USER_BYTES'' (64 * 1024 * 1024)"

definition user_count :: "(string \<Rightarrow> string option) \<Rightarrow> int option" where
  "user_count getenv = limit getenv ''PRECIS_DATASET_USER_COUNT'' 128"

definition is_hex :: "char \<Rightarrow> bool" where
  "is_hex c = (is_digit c \<or> c \<in> set ''abcdef'')"

(* datasets.py:22-22 _REF *)
definition is_data_ref :: "string \<Rightarrow> bool" where
  "is_data_ref s = (startswith s ''ds_'' \<and> length s = 35 \<and> list_all is_hex (drop 3 s))"

text \<open>\<^const>\<open>Inl\<close> is the \<open>ValueError\<close> of a limit that is not a positive number.\<close>

(* datasets.py:58-66 normalize_data_refs *)
definition normalize_data_refs :: "(string \<Rightarrow> string option) \<Rightarrow> json \<Rightarrow> (string, string list option) res" where
  "normalize_data_refs getenv v =
     (case v of
        JList xs \<Rightarrow>
          if xs = [] then Inr None
          else (case limit getenv ''PRECIS_DATASET_MAX_INPUTS'' 8 of
                  None \<Rightarrow> Inl ''PRECIS_DATASET_MAX_INPUTS''
                | Some n \<Rightarrow>
                    if int (length xs) > n then Inr None
                    else Inr (those (map (\<lambda>x. case x of JStr s \<Rightarrow> if is_data_ref s then Some s else None | _ \<Rightarrow> None) xs)))
      | _ \<Rightarrow> Inr None)"

text \<open>\<open>sha256(user).hexdigest()\<close>: the digest, as a number, in 64 hexadecimal digits.\<close>

definition hex_char :: "nat \<Rightarrow> char" where
  "hex_char d = ''0123456789abcdef'' ! (d mod 16)"

definition hexdigest :: "nat \<Rightarrow> string" where
  "hexdigest n = map (\<lambda>i. hex_char (n div 16 ^ (63 - i))) [0..<64]"

(* datasets.py:72-73 _keys *)
definition keys_root :: "(string \<Rightarrow> nat) \<Rightarrow> string \<Rightarrow> string" where
  "keys_root sha user = ''precis:datasets:v1:{'' @ hexdigest (sha user) @ ''}''"

(* datasets.py:69-74 _keys *)
definition keys :: "(string \<Rightarrow> nat) \<Rightarrow> string \<Rightarrow> string \<Rightarrow> string \<times> string \<times> string" where
  "keys sha user ref = (let root = keys_root sha user in (root @ '':'' @ ref, root @ '':expiry'', root @ '':sizes''))"

section \<open>State\<close>

record auth_context =
  auth_user :: string
  auth_permissions :: user_permissions

(* datasets.py:91-96 cache_read_result *)
record 'v envelope =
  env_version :: int
  created_at :: int
  env_expires :: int
  env_access :: "access option"
  env_result :: "(string, 'v) dict"
  source_tool :: string
  source_args :: "(string, 'v) dict"

text \<open>Every value carries the instant at which Redis drops it.\<close>

record 'v redis =
  snapshots :: "string \<Rightarrow> ('v envelope \<times> int) option"
  indexes :: "string \<Rightarrow> ((string, int) dict \<times> int) option"
  size_table :: "string \<Rightarrow> ((string, nat) dict \<times> int) option"

definition empty_redis :: "'v redis" where
  "empty_redis = \<lparr>snapshots = \<lambda>_. None, indexes = \<lambda>_. None, size_table = \<lambda>_. None\<rparr>"

definition alive :: "int \<Rightarrow> ('a \<times> int) option \<Rightarrow> 'a option" where
  "alive now x = (case x of None \<Rightarrow> None | Some (v, e) \<Rightarrow> if now < e then Some v else None)"

definition stored_index :: "'v redis \<Rightarrow> string \<Rightarrow> int \<Rightarrow> (string, int) dict" where
  "stored_index r index now = (case alive now (indexes r index) of None \<Rightarrow> [] | Some d \<Rightarrow> d)"

definition stored_sizes :: "'v redis \<Rightarrow> string \<Rightarrow> int \<Rightarrow> (string, nat) dict" where
  "stored_sizes r szs now = (case alive now (size_table r szs) of None \<Rightarrow> [] | Some d \<Rightarrow> d)"

definition seconds :: "int \<Rightarrow> int" where
  "seconds n = n * 1000000"

section \<open>Storing a snapshot\<close>

(* datasets.py:106-106 cache_read_result *)
definition expired_keys :: "(string, int) dict \<Rightarrow> int \<Rightarrow> string list" where
  "expired_keys idx now = map fst (filter (\<lambda>(_, score). score \<le> now) idx)"

(* datasets.py:107-109 cache_read_result *)
definition active_sizes :: "(string, nat) dict \<Rightarrow> string list \<Rightarrow> (string, nat) dict" where
  "active_sizes szs expired = filter (\<lambda>(k, _). k \<notin> set expired) szs"

definition total_size :: "(string, nat) dict \<Rightarrow> nat" where
  "total_size d = sum_list (map snd d)"

text \<open>The transaction between \<open>MULTI\<close> and \<open>EXEC\<close>.\<close>

(* datasets.py:116-126 cache_read_result *)
definition store_snapshot ::
  "string \<times> string \<times> string \<Rightarrow> 'v envelope \<Rightarrow> nat \<Rightarrow> int \<Rightarrow> int \<Rightarrow> int \<Rightarrow> 'v redis \<Rightarrow> 'v redis" where
  "store_snapshot ks env bytes ttl max_age now r =
     (let (key, index, szs) = ks;
          idx = stored_index r index now;
          expired = expired_keys idx now
      in r\<lparr>snapshots := (\<lambda>k. if k \<in> set expired then None else snapshots r k)(key := Some (env, now + seconds ttl)),
           indexes := (indexes r)(index := Some (dset key (now + seconds ttl) (filter (\<lambda>(k, _). k \<notin> set expired) idx),
                                                 now + seconds max_age)),
           size_table := (size_table r)(szs := Some (dset key bytes (active_sizes (stored_sizes r szs now) expired),
                                                     now + seconds max_age))\<rparr>)"

text \<open>
  The five attempts. \<open>other i r\<close> is the state another client has left when attempt \<open>i\<close> reaches
  \<open>EXEC\<close>, \<^const>\<open>None\<close> when nobody touched the watched keys.
\<close>

(* datasets.py:102-132 cache_read_result *)
fun cache_attempts ::
  "nat \<Rightarrow> (string \<Rightarrow> string option) \<Rightarrow> (nat \<Rightarrow> 'v redis \<Rightarrow> 'v redis option) \<Rightarrow> string \<times> string \<times> string \<Rightarrow> string
     \<Rightarrow> 'v envelope \<Rightarrow> nat \<Rightarrow> int \<Rightarrow> int \<Rightarrow> int \<Rightarrow> 'v redis \<Rightarrow> 'v redis \<times> string option" where
  "cache_attempts 0 getenv other ks ref env bytes ttl max_age now r = (r, None)"
| "cache_attempts (Suc n) getenv other ks ref env bytes ttl max_age now r =
     (let (key, index, szs) = ks;
          active = active_sizes (stored_sizes r szs now) (expired_keys (stored_index r index now) now)
      in case user_bytes getenv of
           None \<Rightarrow> (r, None)
         | Some ub \<Rightarrow>
             if int (total_size active + bytes) > ub then (r, None)
             else (case user_count getenv of
                     None \<Rightarrow> (r, None)
                   | Some uc \<Rightarrow>
                       if int (length active) \<ge> uc then (r, None)
                       else (case other n r of
                               Some r' \<Rightarrow> cache_attempts n getenv other ks ref env bytes ttl max_age now r'
                             | None \<Rightarrow> (store_snapshot ks env bytes ttl max_age now r, Some ref))))"

text \<open>Any failure, a missing caller included, stores nothing and does not fail the read.\<close>

(* datasets.py:77-135 cache_read_result *)
definition cache_read_result ::
  "(string \<Rightarrow> string option) \<Rightarrow> (string \<Rightarrow> nat) \<Rightarrow> ('v envelope \<Rightarrow> nat option) \<Rightarrow> auth_context option \<Rightarrow> int \<Rightarrow> string
     \<Rightarrow> (nat \<Rightarrow> 'v redis \<Rightarrow> 'v redis option) \<Rightarrow> (string, 'v) dict \<Rightarrow> string \<Rightarrow> (string, 'v) dict
     \<Rightarrow> 'v redis \<Rightarrow> 'v redis \<times> string option" where
  "cache_read_result getenv sha encoded_size auth now token other result tool args r =
     (case (auth, idle_seconds getenv, max_age_seconds getenv) of
        (Some a, Some idle, Some max_age) \<Rightarrow>
          (let ref = ''ds_'' @ token;
               env = \<lparr>env_version = 1, created_at = now, env_expires = now + seconds max_age,
                      env_access = Some \<lparr>acc_owner = auth_user a, acc_grants = permission_stamp (auth_permissions a)\<rparr>,
                      env_result = filter (\<lambda>(k, _). k \<noteq> ''data_ref'') result, source_tool = tool, source_args = args\<rparr>
           in case (encoded_size env, max_bytes getenv) of
                (Some bytes, Some mb) \<Rightarrow>
                  if int bytes > mb then (r, None)
                  else cache_attempts 5 getenv other (keys sha (auth_user a) ref) ref env bytes (min idle max_age) max_age now r
              | _ \<Rightarrow> (r, None))
      | _ \<Rightarrow> (r, None))"

section \<open>Resolving a reference\<close>

text \<open>The messages of \<open>fetch_cached_read_result\<close>, in the order of its tests.\<close>

datatype dataset_error =
    InvalidFormat
  | NoAccess
  | ExpiredOrMissing
  | PermissionsChanged
  | CacheBusy
  | CacheUnavailable

(* datasets.py:164-169 fetch_cached_read_result *)
definition renew_snapshot :: "string \<times> string \<times> string \<Rightarrow> int \<Rightarrow> int \<Rightarrow> int \<Rightarrow> 'v redis \<Rightarrow> 'v redis" where
  "renew_snapshot ks ttl max_age now r =
     (let (key, index, szs) = ks
      in r\<lparr>snapshots := (snapshots r)(key := map_option (\<lambda>(env, _). (env, now + seconds ttl)) (snapshots r key)),
           indexes := (indexes r)(index := Some (dset key (now + seconds ttl) (stored_index r index now), now + seconds max_age)),
           size_table := (size_table r)(szs := map_option (\<lambda>d. (d, now + seconds max_age)) (alive now (size_table r szs)))\<rparr>)"

text \<open>\<open>int(expires_at - now)\<close> drops the fraction of a second. Each attempt reads the clock again: \<open>other\<close> gives the state
  and the instant at which the next attempt starts.\<close>

(* datasets.py:149-172 fetch_cached_read_result *)
fun fetch_attempts ::
  "nat \<Rightarrow> (string \<Rightarrow> string option) \<Rightarrow> (nat \<Rightarrow> 'v redis \<Rightarrow> ('v redis \<times> int) option) \<Rightarrow> string \<times> string \<times> string \<Rightarrow> string
     \<Rightarrow> user_permissions \<Rightarrow> int \<Rightarrow> 'v redis \<Rightarrow> 'v redis \<times> (dataset_error, 'v envelope) res" where
  "fetch_attempts 0 getenv other ks user p now r = (r, Inl CacheBusy)"
| "fetch_attempts (Suc n) getenv other ks user p now r =
     (case alive now (snapshots r (fst ks)) of
        None \<Rightarrow> (r, Inl ExpiredOrMissing)
      | Some env \<Rightarrow>
          (let remaining = (env_expires env - now) div 1000000
           in if env_version env \<noteq> 1 \<or> remaining \<le> 0 then (r, Inl ExpiredOrMissing)
              else if \<not> check_access (env_access env) user p then (r, Inl PermissionsChanged)
              else (case (idle_seconds getenv, max_age_seconds getenv) of
                      (Some idle, Some max_age) \<Rightarrow>
                        (case other n r of
                           Some (r', now') \<Rightarrow> fetch_attempts n getenv other ks user p now' r'
                         | None \<Rightarrow> (renew_snapshot ks (min idle remaining) max_age now r, Inr env))
                    | _ \<Rightarrow> (r, Inl CacheUnavailable))))"

(* datasets.py:138-176 fetch_cached_read_result *)
definition fetch_cached_read_result ::
  "(string \<Rightarrow> string option) \<Rightarrow> (string \<Rightarrow> nat) \<Rightarrow> auth_context option \<Rightarrow> int \<Rightarrow> (nat \<Rightarrow> 'v redis \<Rightarrow> ('v redis \<times> int) option)
     \<Rightarrow> string \<Rightarrow> string \<Rightarrow> 'v redis \<Rightarrow> 'v redis \<times> (dataset_error, 'v envelope) res" where
  "fetch_cached_read_result getenv sha auth now other user ref r =
     (if \<not> is_data_ref ref then (r, Inl InvalidFormat)
      else (case auth of
              None \<Rightarrow> (r, Inl CacheUnavailable)
            | Some a \<Rightarrow>
                if auth_user a \<noteq> user then (r, Inl NoAccess)
                else fetch_attempts 5 getenv other (keys sha user ref) user (auth_permissions a) now r))"

section \<open>Stamps compare read grants\<close>

definition read_grant :: "user_permissions \<Rightarrow> string \<Rightarrow> scope_spec option option" where
  "read_grant p sid = (case dget (perm_scenarios p) sid of None \<Rightarrow> None | Some g \<Rightarrow> dget (tool_scopes g) ''read'')"

lemma opt_eq_iff:
  "opt_eq eq x y \<longleftrightarrow> (case (x, y) of (None, None) \<Rightarrow> True | (Some a, Some b) \<Rightarrow> eq a b | _ \<Rightarrow> False)"
  by (cases "(eq, x, y)" rule: opt_eq.cases) auto

lemma dict_eq_iff:
  assumes "wf_dict d" and "wf_dict e"
  shows "dict_eq eq d e \<longleftrightarrow> (\<forall>k. opt_eq eq (dget d k) (dget e k))"
proof
  assume l: "dict_eq eq d e"
  have at: "\<exists>w. dget e k = Some w \<and> eq v w" if "dget d k = Some v" for k v
    using l that wf_dict_get [OF assms(1), of k v]
    by (fastforce simp: dict_eq_def list_all_iff split: option.splits)
  have sub: "set (dkeys d) \<subseteq> set (dkeys e)"
    using at by (metis dkeys_get subsetI)
  have "card (set (dkeys d)) = card (set (dkeys e))"
    using l assms by (simp add: dict_eq_def wf_dict_def distinct_card del: set_map)
  then have same: "set (dkeys d) = set (dkeys e)" using card_subset_eq [OF _ sub] by simp
  show "\<forall>k. opt_eq eq (dget d k) (dget e k)"
  proof
    fix k show "opt_eq eq (dget d k) (dget e k)"
    proof (cases "dget d k")
      case None
      then have "dget e k = None" using same by (metis dkeys_get not_Some_eq)
      then show ?thesis using None by simp
    next
      case (Some v)
      then show ?thesis using at [OF Some] by auto
    qed
  qed
next
  assume r: "\<forall>k. opt_eq eq (dget d k) (dget e k)"
  have same: "set (dkeys d) = set (dkeys e)"
    using r by (auto simp: dkeys_get opt_eq_iff simp del: set_map split: option.splits) (metis option.exhaust)+
  have "length (dkeys d) = length (dkeys e)"
    using same assms unfolding wf_dict_def by (metis distinct_card)
  moreover have "list_all (\<lambda>(k, v). case dget e k of None \<Rightarrow> False | Some w \<Rightarrow> eq v w) d"
    unfolding list_all_iff
  proof (clarify)
    fix k v assume "(k, v) \<in> set d"
    then have "dget d k = Some v" using wf_dict_get [OF assms(1)] by blast
    then show "case dget e k of None \<Rightarrow> False | Some w \<Rightarrow> eq v w"
      using spec [OF r, of k] by (simp add: opt_eq_iff split: option.splits)
  qed
  ultimately show "dict_eq eq d e" by (simp add: dict_eq_def)
qed

lemma wf_dict_sort_key: "wf_dict d \<Longrightarrow> wf_dict (sort_key fst d)"
  unfolding wf_dict_def distinct_map by (simp add: inj_on_def)

lemma dget_sort_key: "wf_dict d \<Longrightarrow> dget (sort_key fst d) k = dget d k"
  by (rule option.exhaust [of "dget d k"])
     (metis not_Some_eq set_sort wf_dict_get wf_dict_sort_key)+

lemma dget_map_filter:
  assumes "wf_dict d"
  shows "dget (List.map_filter (\<lambda>(k, v). map_option (Pair k) (f v)) d) k = Option.bind (dget d k) f"
  using assms
proof (induction d)
  case Nil
  then show ?case by (simp add: List.map_filter_def)
next
  case (Cons x d)
  obtain j v where x: "x = (j, v)" by (cases x)
  have fresh: "dget d j = None" using Cons.prems x by (simp add: map_of_eq_None_iff)
  show ?case
    using Cons x fresh by (cases "f v") (auto simp: List.map_filter_simps)
qed

lemma wf_dict_map_filter:
  "wf_dict d \<Longrightarrow> wf_dict (List.map_filter (\<lambda>(k, v). map_option (Pair k) (f v)) d)"
proof (induction d)
  case Nil
  then show ?case by (simp add: List.map_filter_def)
next
  case (Cons x d)
  obtain j v where x: "x = (j, v)" by (cases x)
  have "dget d j = None" using Cons.prems x by (simp add: map_of_eq_None_iff)
  then have "dget (List.map_filter (\<lambda>(k, v). map_option (Pair k) (f v)) d) j = None"
    using Cons.prems x dget_map_filter [of d f j] by simp
  then show ?case
    using Cons x by (cases "f v") (simp_all add: List.map_filter_simps map_of_eq_None_iff)
qed

lemma stamp_lookup:
  assumes "wf_dict (perm_scenarios p)"
  shows "dget (stamp_scenarios (permission_stamp p)) sid = read_grant p sid"
  using dget_map_filter [OF wf_dict_sort_key [OF assms], of "\<lambda>g. dget (tool_scopes g) ''read''" sid]
  by (simp add: permission_stamp_def read_grant_def dget_sort_key assms split: option.splits)

lemma wf_stamp: "wf_dict (perm_scenarios p) \<Longrightarrow> wf_dict (stamp_scenarios (permission_stamp p))"
  by (simp add: permission_stamp_def wf_dict_map_filter wf_dict_sort_key)

lemma stamps_equal_iff:
  assumes "wf_dict (perm_scenarios p)" and "wf_dict (perm_scenarios q)"
  shows "grants_eq (permission_stamp p) (permission_stamp q)
    \<longleftrightarrow> perm_admin p = perm_admin q \<and> (\<forall>sid. opt_eq (opt_eq scope_eq) (read_grant p sid) (read_grant q sid))"
  by (simp add: grants_eq_def dict_eq_iff wf_stamp assms stamp_lookup) (simp add: permission_stamp_def)

section \<open>What Redis holds\<close>

text \<open>
  Every run of the operations on an empty Redis, with the log of the results stored: who stored which
  result when. An attempt that loses to another client leaves that client's state, so a completed call
  is its last attempt and the calls below need no interference.
\<close>

type_synonym 'v stored = "auth_context \<times> int \<times> (string, 'v) dict"

inductive reach ::
  "(string \<Rightarrow> string option) \<Rightarrow> (string \<Rightarrow> nat) \<Rightarrow> ('v envelope \<Rightarrow> nat option) \<Rightarrow> 'v stored list \<Rightarrow> int \<Rightarrow> 'v redis \<Rightarrow> bool"
  for getenv sha encoded_size where
    started: "reach getenv sha encoded_size [] now empty_redis"
  | waited: "reach getenv sha encoded_size log now r \<Longrightarrow> now \<le> now' \<Longrightarrow> reach getenv sha encoded_size log now' r"
  | cached: "reach getenv sha encoded_size log now r
      \<Longrightarrow> cache_read_result getenv sha encoded_size (Some a) now token (\<lambda>_ _. None) result tool args r = (r', Some ref)
      \<Longrightarrow> reach getenv sha encoded_size ((a, now, result) # log) now r'"
  | not_cached: "reach getenv sha encoded_size log now r
      \<Longrightarrow> cache_read_result getenv sha encoded_size auth now token (\<lambda>_ _. None) result tool args r = (r', None)
      \<Longrightarrow> reach getenv sha encoded_size log now r'"
  | fetched: "reach getenv sha encoded_size log now r
      \<Longrightarrow> fetch_cached_read_result getenv sha auth now (\<lambda>_ _. None) user ref r = (r', res)
      \<Longrightarrow> reach getenv sha encoded_size log now r'"

text \<open>An envelope of the log: made by the logged caller, at the logged instant, from the logged result.\<close>

definition envelope_of :: "int \<Rightarrow> 'v stored \<Rightarrow> 'v envelope \<Rightarrow> bool" where
  "envelope_of max_age entry env = (case entry of (a, t, result) \<Rightarrow>
     created_at env = t \<and> env_expires env = t + seconds max_age \<and> env_result env = filter (\<lambda>(k, _). k \<noteq> ''data_ref'') result
     \<and> env_access env = Some \<lparr>acc_owner = auth_user a, acc_grants = permission_stamp (auth_permissions a)\<rparr>)"

definition logged :: "int \<Rightarrow> 'v stored list \<Rightarrow> int \<Rightarrow> 'v redis \<Rightarrow> bool" where
  "logged max_age log now r \<longleftrightarrow> (\<forall>k env e. snapshots r k = Some (env, e)
     \<longrightarrow> created_at env \<le> now \<and> (\<exists>entry\<in>set log. envelope_of max_age entry env))"

definition accounted :: "(string \<Rightarrow> nat) \<Rightarrow> ('v envelope \<Rightarrow> nat option) \<Rightarrow> int \<Rightarrow> int \<Rightarrow> 'v redis \<Rightarrow> bool" where
  "accounted sha encoded_size max_age now r \<longleftrightarrow> (\<forall>u ref env e key index szs.
     keys sha u ref = (key, index, szs) \<longrightarrow> snapshots r key = Some (env, e) \<longrightarrow> now < e
     \<longrightarrow> (\<exists>d h x n. indexes r index = Some (d, x) \<and> size_table r szs = Some (h, x) \<and> e \<le> x \<and> x \<le> now + seconds max_age
           \<and> dget d key = Some e \<and> encoded_size env = Some n \<and> dget h key = Some n))"

definition active_of :: "'v redis \<Rightarrow> string \<Rightarrow> string \<Rightarrow> int \<Rightarrow> (string, nat) dict" where
  "active_of r index szs now = active_sizes (stored_sizes r szs now) (expired_keys (stored_index r index now) now)"

definition within :: "(string \<Rightarrow> nat) \<Rightarrow> int \<Rightarrow> int \<Rightarrow> int \<Rightarrow> 'v redis \<Rightarrow> bool" where
  "within sha ub uc now r \<longleftrightarrow> (\<forall>u ref key index szs. keys sha u ref = (key, index, szs)
     \<longrightarrow> wf_dict (stored_index r index now) \<and> wf_dict (stored_sizes r szs now)
       \<and> map_option snd (indexes r index) = map_option snd (size_table r szs)
       \<and> int (total_size (active_of r index szs now)) \<le> ub \<and> int (length (active_of r index szs now)) \<le> uc)"

lemma keys_root_length: "length (keys_root sha u) = length (keys_root sha v)"
  by (simp add: keys_root_def hexdigest_def)

lemma keys_same_root:
  assumes "keys sha u ref = (key, index, szs)" and "keys sha v ref' = (key', index', szs')"
  shows "key = key' \<longleftrightarrow> index = index' \<and> ref = ref'" and "index = index' \<longleftrightarrow> szs = szs'"
  using assms keys_root_length [of sha u v] by (auto simp: keys_def Let_def)

lemma dget_filter_keys: "dget (filter (\<lambda>(k, _). k \<notin> S) d) k = (if k \<in> S then None else dget d k)"
  by (induction d) auto

lemma wf_dict_filter: "wf_dict d \<Longrightarrow> wf_dict (filter P d)"
  by (induction d) (auto simp: wf_dict_def)

lemma total_size_dset:
  "wf_dict d \<Longrightarrow> total_size (dset k n d) \<le> total_size d + n"
  by (induction d) (auto simp: total_size_def)

lemma length_dset: "length (dset k n d) \<le> Suc (length d)"
  by (induction d) auto

lemma total_size_filter: "total_size (filter P d) \<le> total_size d"
  by (induction d) (auto simp: total_size_def)

lemma not_expired_iff:
  assumes "wf_dict idx"
  shows "k \<in> set (expired_keys idx now) \<longleftrightarrow> (\<exists>e. dget idx k = Some e \<and> e \<le> now)"
  using wf_dict_get [OF assms, of k] by (force simp: expired_keys_def)

lemma limit_pos: "limit getenv name dflt = Some n \<Longrightarrow> 0 < dflt \<Longrightarrow> 0 < n"
  by (auto simp: limit_def split: option.splits if_splits)

lemma alive_Some [simp]: "alive now (Some (v, e)) = (if now < e then Some v else None)"
  by (simp add: alive_def)

lemma alive_None [simp]: "alive now None = None"
  by (simp add: alive_def)

lemma store_tables:
  assumes "wf_dict (stored_index r index now)" and "0 < ttl" and "0 < max_age"
  shows "stored_index (store_snapshot (key, index, szs) env n ttl max_age now r) index now
        = dset key (now + seconds ttl) (filter (\<lambda>(k, _). k \<notin> set (expired_keys (stored_index r index now) now)) (stored_index r index now))"
    and "stored_sizes (store_snapshot (key, index, szs) env n ttl max_age now r) szs now = dset key n (active_of r index szs now)"
    and "active_of (store_snapshot (key, index, szs) env n ttl max_age now r) index szs now = dset key n (active_of r index szs now)"
proof -
  let ?idx = "stored_index r index now"
  let ?kept = "filter (\<lambda>(k, _). k \<notin> set (expired_keys ?idx now)) ?idx"
  let ?new = "store_snapshot (key, index, szs) env n ttl max_age now r"
  show i: "stored_index ?new index now = dset key (now + seconds ttl) ?kept"
    using assms by (simp add: stored_index_def store_snapshot_def Let_def seconds_def)
  show z: "stored_sizes ?new szs now = dset key n (active_of r index szs now)"
    using assms by (simp add: stored_sizes_def store_snapshot_def active_of_def Let_def seconds_def)
  have wf: "wf_dict (dset key (now + seconds ttl) ?kept)" by (intro wf_dict_dset wf_dict_filter assms(1))
  have "k \<notin> set (expired_keys (dset key (now + seconds ttl) ?kept) now)" for k
  proof
    assume "k \<in> set (expired_keys (dset key (now + seconds ttl) ?kept) now)"
    then obtain e where e: "dget (dset key (now + seconds ttl) ?kept) k = Some e" "e \<le> now"
      using not_expired_iff [OF wf] by blast
    then have "k \<noteq> key" using assms(2) by (auto simp: dget_dset seconds_def)
    then have "k \<notin> set (expired_keys ?idx now)" "dget ?idx k = Some e"
      using e(1) unfolding dget_dset dget_filter_keys by (auto split: if_splits)
    then show False using e(2) not_expired_iff [OF assms(1)] by blast
  qed
  then have "expired_keys (dset key (now + seconds ttl) ?kept) now = []" by (metis empty_set last_in_set)
  then show "active_of ?new index szs now = dset key n (active_of r index szs now)"
    unfolding active_of_def [of ?new] i z by (simp add: active_sizes_def)
qed

lemma other_tables:
  assumes "index' \<noteq> index" and "szs' \<noteq> szs"
  shows "indexes (store_snapshot (key, index, szs) env n ttl max_age now r) index' = indexes r index'"
    and "size_table (store_snapshot (key, index, szs) env n ttl max_age now r) szs' = size_table r szs'"
    and "indexes (renew_snapshot (key, index, szs) ttl max_age now r) index' = indexes r index'"
    and "size_table (renew_snapshot (key, index, szs) ttl max_age now r) szs' = size_table r szs'"
  using assms by (simp_all add: store_snapshot_def renew_snapshot_def Let_def)

lemma wf_active: "wf_dict (stored_sizes r szs now) \<Longrightarrow> wf_dict (active_of r index szs now)"
  by (simp add: active_of_def active_sizes_def wf_dict_filter)

lemma store_within:
  assumes w: "within sha ub uc now r" and k: "keys sha a ref = (key, index, szs)" and "0 < ttl" and "0 < max_age"
    and "int (total_size (active_of r index szs now) + n) \<le> ub" and "int (length (active_of r index szs now)) < uc"
  shows "within sha ub uc now (store_snapshot (key, index, szs) env n ttl max_age now r)"
  unfolding within_def
proof (intro allI impI)
  fix u ref' key' index' szs'
  let ?new = "store_snapshot (key, index, szs) env n ttl max_age now r"
  assume k': "keys sha u ref' = (key', index', szs')"
  note here = w [unfolded within_def, rule_format, OF k]
  show "wf_dict (stored_index ?new index' now) \<and> wf_dict (stored_sizes ?new szs' now)
       \<and> map_option snd (indexes ?new index') = map_option snd (size_table ?new szs')
       \<and> int (total_size (active_of ?new index' szs' now)) \<le> ub \<and> int (length (active_of ?new index' szs' now)) \<le> uc"
  proof (cases "index' = index")
    case True
    then have z: "szs' = szs" using keys_same_root(2) [OF k k'] by simp
    have wf: "wf_dict (active_of r index szs now)" using here wf_active by blast
    have "total_size (dset key n (active_of r index szs now)) \<le> total_size (active_of r index szs now) + n"
      and "length (dset key n (active_of r index szs now)) \<le> Suc (length (active_of r index szs now))"
      using total_size_dset [OF wf] length_dset by auto
    moreover have "map_option snd (indexes ?new index) = map_option snd (size_table ?new szs)"
      by (simp add: store_snapshot_def Let_def)
    ultimately show ?thesis
      using assms(5,6) here wf unfolding True z
      by (simp add: store_tables assms(3,4) wf_dict_dset wf_dict_filter)
  next
    case False
    then have z: "szs' \<noteq> szs" using keys_same_root(2) [OF k k'] by simp
    note same = other_tables(1,2) [OF False z, of key env n ttl max_age now r]
    have "active_of ?new index' szs' now = active_of r index' szs' now"
      "stored_index ?new index' now = stored_index r index' now" "stored_sizes ?new szs' now = stored_sizes r szs' now"
      using same by (simp_all add: active_of_def stored_index_def stored_sizes_def)
    then show ?thesis using w [unfolded within_def, rule_format, OF k'] same by simp
  qed
qed

lemma store_accounted:
  assumes acc: "accounted sha encoded_size max_age now r" and w: "within sha ub uc now r"
    and k: "keys sha a ref = (key, index, szs)" and t: "0 < ttl" "ttl \<le> max_age" and n: "encoded_size env = Some n"
  shows "accounted sha encoded_size max_age now (store_snapshot (key, index, szs) env n ttl max_age now r)"
  unfolding accounted_def
proof (intro allI impI)
  fix u ref' env' e key' index' szs'
  let ?new = "store_snapshot (key, index, szs) env n ttl max_age now r"
  assume k': "keys sha u ref' = (key', index', szs')" and at: "snapshots ?new key' = Some (env', e)" and e: "now < e"
  note here = w [unfolded within_def, rule_format, OF k]
  let ?goal = "\<lambda>index' szs'. \<exists>d h x n. indexes ?new index' = Some (d, x) \<and> size_table ?new szs' = Some (h, x) \<and> e \<le> x
      \<and> x \<le> now + seconds max_age \<and> dget d key' = Some e \<and> encoded_size env' = Some n \<and> dget h key' = Some n"
  show "?goal index' szs'"
  proof (cases "key' = key")
    case True
    then have "index' = index" "szs' = szs" using keys_same_root [OF k k'] by auto
    moreover have "env' = env" "e = now + seconds ttl" using at True by (auto simp: store_snapshot_def Let_def)
    ultimately show ?thesis
      using True t n by (simp add: store_snapshot_def Let_def dget_dset seconds_def)
  next
    case other: False
    then have old: "snapshots r key' = Some (env', e)" and live: "key' \<notin> set (expired_keys (stored_index r index now) now)"
      using at by (auto simp: store_snapshot_def Let_def split: if_splits)
    obtain d h x m where o: "indexes r index' = Some (d, x)" "size_table r szs' = Some (h, x)" "e \<le> x"
      "x \<le> now + seconds max_age" "dget d key' = Some e" "encoded_size env' = Some m" "dget h key' = Some m"
      using acc [unfolded accounted_def, rule_format, OF k' old e] by blast
    show ?thesis
    proof (cases "index' = index")
      case True
      then have z: "szs' = szs" using keys_same_root(2) [OF k k'] by simp
      have i: "stored_index r index now = d" and h: "stored_sizes r szs now = h"
        using o(1,2,3) e True z by (auto simp: stored_index_def stored_sizes_def)
      show ?thesis
        using o other live True z i h t e
        by (simp add: store_snapshot_def Let_def dget_dset dget_filter_keys active_sizes_def)
    next
      case False
      then have "szs' \<noteq> szs" using keys_same_root(2) [OF k k'] by simp
      then show ?thesis using other_tables(1,2) [OF False] o by metis
    qed
  qed
qed

lemma renew_ok:
  assumes acc: "accounted sha encoded_size max_age now r" and w: "within sha ub uc now r"
    and k: "keys sha a ref = (key, index, szs)" and at: "snapshots r key = Some (env, e)" "now < e" and t: "0 < ttl" "ttl \<le> max_age"
  shows "accounted sha encoded_size max_age now (renew_snapshot (key, index, szs) ttl max_age now r)"
    and "within sha ub uc now (renew_snapshot (key, index, szs) ttl max_age now r)"
proof -
  let ?new = "renew_snapshot (key, index, szs) ttl max_age now r"
  note here = w [unfolded within_def, rule_format, OF k]
  obtain d h x n where o: "indexes r index = Some (d, x)" "size_table r szs = Some (h, x)" "e \<le> x"
    "dget d key = Some e" "encoded_size env = Some n" "dget h key = Some n"
    using acc [unfolded accounted_def, rule_format, OF k at] by blast
  have i: "stored_index r index now = d" and z: "stored_sizes r szs now = h"
    using o at(2) by (auto simp: stored_index_def stored_sizes_def)
  have ni: "indexes ?new index = Some (dset key (now + seconds ttl) d, now + seconds max_age)"
    and nz: "size_table ?new szs = Some (h, now + seconds max_age)"
    using o at(2) i by (simp_all add: renew_snapshot_def Let_def)
  have ni': "stored_index ?new index now = dset key (now + seconds ttl) d" and nz': "stored_sizes ?new szs now = h"
    using t by (simp_all add: stored_index_def stored_sizes_def ni nz seconds_def)
  have wfd: "wf_dict d" and wfn: "wf_dict (dset key (now + seconds ttl) d)" using here i by auto
  have "set (expired_keys (dset key (now + seconds ttl) d) now) = set (expired_keys d now)"
  proof (intro set_eqI iffI)
    have late: "\<not> now + seconds ttl \<le> now" using t by (simp add: seconds_def)
    fix j
    show "j \<in> set (expired_keys (dset key (now + seconds ttl) d) now) \<Longrightarrow> j \<in> set (expired_keys d now)"
      unfolding not_expired_iff [OF wfd] not_expired_iff [OF wfn] dget_dset using late by (auto split: if_splits)
    show "j \<in> set (expired_keys d now) \<Longrightarrow> j \<in> set (expired_keys (dset key (now + seconds ttl) d) now)"
      unfolding not_expired_iff [OF wfd] not_expired_iff [OF wfn] dget_dset using o(4) at(2) by auto
  qed
  then have same: "active_of ?new index szs now = active_of r index szs now"
    by (simp add: active_of_def i z ni' nz' active_sizes_def)
  show "within sha ub uc now ?new"
    unfolding within_def
  proof (intro allI impI)
    fix u ref' key' index' szs' assume k': "keys sha u ref' = (key', index', szs')"
    show "wf_dict (stored_index ?new index' now) \<and> wf_dict (stored_sizes ?new szs' now)
       \<and> map_option snd (indexes ?new index') = map_option snd (size_table ?new szs')
       \<and> int (total_size (active_of ?new index' szs' now)) \<le> ub \<and> int (length (active_of ?new index' szs' now)) \<le> uc"
    proof (cases "index' = index")
      case True
      then have "szs' = szs" using keys_same_root(2) [OF k k'] by simp
      then show ?thesis using here same ni' nz' ni nz wfn i z True by simp
    next
      case False
      then have "szs' \<noteq> szs" using keys_same_root(2) [OF k k'] by simp
      note rest = other_tables(3,4) [OF False this, of key ttl max_age now r]
      have "active_of ?new index' szs' now = active_of r index' szs' now"
        "stored_index ?new index' now = stored_index r index' now" "stored_sizes ?new szs' now = stored_sizes r szs' now"
        using rest by (simp_all add: active_of_def stored_index_def stored_sizes_def)
      then show ?thesis using w [unfolded within_def, rule_format, OF k'] rest by simp
    qed
  qed
  show "accounted sha encoded_size max_age now ?new"
    unfolding accounted_def
  proof (intro allI impI)
    fix u ref' env' e' key' index' szs'
    assume k': "keys sha u ref' = (key', index', szs')" and at': "snapshots ?new key' = Some (env', e')" and e': "now < e'"
    show "\<exists>d h x n. indexes ?new index' = Some (d, x) \<and> size_table ?new szs' = Some (h, x) \<and> e' \<le> x
      \<and> x \<le> now + seconds max_age \<and> dget d key' = Some e' \<and> encoded_size env' = Some n \<and> dget h key' = Some n"
    proof (cases "key' = key")
      case True
      then have "index' = index" "szs' = szs" using keys_same_root [OF k k'] by auto
      moreover have "env' = env" "e' = now + seconds ttl" using at at' True by (auto simp: renew_snapshot_def Let_def)
      ultimately show ?thesis using True ni nz o t by (simp add: dget_dset seconds_def)
    next
      case other: False
      then have old: "snapshots r key' = Some (env', e')" using at' by (simp add: renew_snapshot_def Let_def)
      obtain d' h' x' m where o': "indexes r index' = Some (d', x')" "size_table r szs' = Some (h', x')" "e' \<le> x'"
        "x' \<le> now + seconds max_age" "dget d' key' = Some e'" "encoded_size env' = Some m" "dget h' key' = Some m"
        using acc [unfolded accounted_def, rule_format, OF k' old e'] by blast
      show ?thesis
      proof (cases "index' = index")
        case True
        then have "szs' = szs" using keys_same_root(2) [OF k k'] by simp
        then show ?thesis using True ni nz o o' other by (simp add: dget_dset)
      next
        case False
        then have "szs' \<noteq> szs" using keys_same_root(2) [OF k k'] by simp
        then show ?thesis using other_tables(3,4) [OF False] o' by metis
      qed
    qed
  qed
qed

lemma later_ok:
  assumes acc: "accounted sha encoded_size max_age now r" and w: "within sha ub uc now r" and t: "now \<le> now'"
  shows "accounted sha encoded_size max_age now' r" and "within sha ub uc now' r"
proof -
  show "accounted sha encoded_size max_age now' r"
    unfolding accounted_def
  proof (intro allI impI)
    fix u ref env e key index szs
    assume "keys sha u ref = (key, index, szs)" "snapshots r key = Some (env, e)" "now' < e"
    then show "\<exists>d h x n. indexes r index = Some (d, x) \<and> size_table r szs = Some (h, x) \<and> e \<le> x \<and> x \<le> now' + seconds max_age
           \<and> dget d key = Some e \<and> encoded_size env = Some n \<and> dget h key = Some n"
      using acc [unfolded accounted_def, rule_format, of u ref key index szs env e] t by fastforce
  qed
  show "within sha ub uc now' r"
    unfolding within_def
  proof (intro allI impI)
    fix u ref key index szs assume k: "keys sha u ref = (key, index, szs)"
    note here = w [unfolded within_def, rule_format, OF k]
    show "wf_dict (stored_index r index now') \<and> wf_dict (stored_sizes r szs now')
       \<and> map_option snd (indexes r index) = map_option snd (size_table r szs)
       \<and> int (total_size (active_of r index szs now')) \<le> ub \<and> int (length (active_of r index szs now')) \<le> uc"
    proof (cases "\<exists>d h x. indexes r index = Some (d, x) \<and> size_table r szs = Some (h, x) \<and> now' < x")
      case True
      then obtain d h x where o: "indexes r index = Some (d, x)" "size_table r szs = Some (h, x)" "now' < x" by blast
      have s: "stored_index r index now = d" "stored_sizes r szs now = h" "stored_index r index now' = d" "stored_sizes r szs now' = h"
        using o t by (simp_all add: stored_index_def stored_sizes_def)
      have wf: "wf_dict d" using here s by simp
      have "k \<in> set (expired_keys d now) \<Longrightarrow> k \<in> set (expired_keys d now')" for k
        using t by (auto simp: not_expired_iff [OF wf])
      then have "active_of r index szs now' = filter (\<lambda>(k, _). k \<notin> set (expired_keys d now')) (active_of r index szs now)"
        by (auto simp: active_of_def active_sizes_def s intro!: filter_cong)
      then have "total_size (active_of r index szs now') \<le> total_size (active_of r index szs now)"
        and "length (active_of r index szs now') \<le> length (active_of r index szs now)"
        by (simp_all only: total_size_filter length_filter_le)
      then show ?thesis using here s by (simp add: order_trans [rotated])
    next
      case False
      then have "stored_index r index now' = []" "stored_sizes r szs now' = []"
        using here by (auto simp: stored_index_def stored_sizes_def alive_def split: option.splits)
      moreover have "0 \<le> ub" "0 \<le> uc" using here by linarith+
      ultimately show ?thesis using here by (simp add: active_of_def active_sizes_def total_size_def)
    qed
  qed
qed

text \<open>A completed call is a refusal that changes nothing or one transaction.\<close>

lemma cache_attempt:
  assumes "user_bytes getenv = Some ub" and "user_count getenv = Some uc"
  shows "cache_attempts (Suc j) getenv (\<lambda>_ _. None) (key, index, szs) ref env n ttl m now r
    = (if int (total_size (active_of r index szs now) + n) \<le> ub \<and> int (length (active_of r index szs now)) < uc
       then (store_snapshot (key, index, szs) env n ttl m now r, Some ref) else (r, None))"
  by (simp add: Let_def active_of_def assms)

lemma cache_result_cases:
  assumes c: "cache_read_result getenv sha encoded_size auth now token (\<lambda>_ _. None) result tool args r = (r', res)"
    and m: "max_age_seconds getenv = Some m" and ub: "user_bytes getenv = Some ub" and uc: "user_count getenv = Some uc"
  obtains "r' = r" and "res = None"
  | a idle env n key index szs where "auth = Some a" and "idle_seconds getenv = Some idle" and "res = Some (''ds_'' @ token)"
      and "env = \<lparr>env_version = 1, created_at = now, env_expires = now + seconds m,
        env_access = Some \<lparr>acc_owner = auth_user a, acc_grants = permission_stamp (auth_permissions a)\<rparr>,
        env_result = filter (\<lambda>(k, _). k \<noteq> ''data_ref'') result, source_tool = tool, source_args = args\<rparr>"
      and "encoded_size env = Some n" and "keys sha (auth_user a) (''ds_'' @ token) = (key, index, szs)"
      and "r' = store_snapshot (key, index, szs) env n (min idle m) m now r"
      and "int (total_size (active_of r index szs now) + n) \<le> ub" and "int (length (active_of r index szs now)) < uc"
proof (cases "auth = None \<or> idle_seconds getenv = None")
  case True
  then have "r' = r" "res = None" using c by (auto simp: cache_read_result_def m split: option.splits)
  then show thesis by (rule that(1))
next
  case False
  then obtain a idle where a: "auth = Some a" "idle_seconds getenv = Some idle" by auto
  define env where "env = \<lparr>env_version = 1, created_at = now, env_expires = now + seconds m,
        env_access = Some \<lparr>acc_owner = auth_user a, acc_grants = permission_stamp (auth_permissions a)\<rparr>,
        env_result = filter (\<lambda>(k, _). k \<noteq> ''data_ref'') result, source_tool = tool, source_args = args\<rparr>"
  obtain key index szs where k: "keys sha (auth_user a) (''ds_'' @ token) = (key, index, szs)"
    by (cases "keys sha (auth_user a) (''ds_'' @ token)") auto
  obtain j where five: "(5 :: nat) = Suc j" using numeral_eq_Suc by blast
  have c': "(case (encoded_size env, max_bytes getenv) of
      (Some n, Some mb) \<Rightarrow>
        if int n > mb then (r, None)
        else cache_attempts (Suc j) getenv (\<lambda>_ _. None) (key, index, szs) (''ds_'' @ token) env n (min idle m) m now r
    | _ \<Rightarrow> (r, None)) = (r', res)"
    using c unfolding cache_read_result_def a m env_def five Let_def by (simp only: prod.case option.case k)
  show thesis
  proof (cases "r' = r \<and> res = None")
    case True
    then show thesis using that(1) by blast
  next
    case changed: False
    then obtain n where n: "encoded_size env = Some n"
      "cache_attempts (Suc j) getenv (\<lambda>_ _. None) (key, index, szs) (''ds_'' @ token) env n (min idle m) m now r = (r', res)"
      using c' by (auto split: option.splits if_splits)
    then show thesis
      using changed that(2) [OF a _ env_def n(1) k] n(2) unfolding cache_attempt [OF ub uc] by (auto split: if_splits)
  qed
qed

lemma fetch_result_cases:
  assumes f: "fetch_cached_read_result getenv sha auth now (\<lambda>_ _. None) user ref r = (r', res)"
  obtains e where "r' = r" and "res = Inl e"
  | a idle max_age env e key index szs where "auth = Some a" and "auth_user a = user" and "is_data_ref ref"
      and "idle_seconds getenv = Some idle" and "max_age_seconds getenv = Some max_age"
      and "keys sha user ref = (key, index, szs)" and "snapshots r key = Some (env, e)" and "now < e" and "res = Inr env"
      and "env_version env = 1" and "0 < (env_expires env - now) div 1000000"
      and "check_access (env_access env) user (auth_permissions a)"
      and "r' = renew_snapshot (key, index, szs) (min idle ((env_expires env - now) div 1000000)) max_age now r"
proof (cases "\<exists>e. r' = r \<and> res = Inl e")
  case True
  then show thesis using that(1) by blast
next
  case False
  then obtain a where a: "is_data_ref ref" "auth = Some a" "auth_user a = user"
    using f by (auto simp: fetch_cached_read_result_def split: if_splits option.splits)
  obtain key index szs where k: "keys sha user ref = (key, index, szs)" by (cases "keys sha user ref") auto
  obtain j where five: "(5 :: nat) = Suc j" using numeral_eq_Suc by blast
  have f': "fetch_attempts (Suc j) getenv (\<lambda>_ _. None) (key, index, szs) user (auth_permissions a) now r = (r', res)"
    using f a unfolding fetch_cached_read_result_def five k by (simp del: fetch_attempts.simps)
  then obtain env where env: "alive now (snapshots r key) = Some env"
    using False by (auto split: option.splits)
  then obtain e where e: "snapshots r key = Some (env, e)" "now < e"
    by (auto simp: alive_def split: option.splits if_splits)
  have live: "env_version env = 1" "0 < (env_expires env - now) div 1000000"
    "check_access (env_access env) user (auth_permissions a)"
    using f' env False by (auto simp: Let_def not_le split: if_splits)
  then obtain idle max_age where s: "idle_seconds getenv = Some idle" "max_age_seconds getenv = Some max_age"
    using f' env False by (auto simp: Let_def split: if_splits option.splits)
  show thesis
    using that(2) [OF a(2,3,1) s k e _ live] f' env live s by (simp add: Let_def not_le)
qed

lemma logged_store:
  assumes l: "logged m log now r" and k: "envelope_of m entry env" and c: "created_at env \<le> now"
  shows "logged m (entry # log) now (store_snapshot (key, index, szs) env n ttl max_age now r)"
  unfolding logged_def
proof (intro allI impI)
  fix k env' e assume at: "snapshots (store_snapshot (key, index, szs) env n ttl max_age now r) k = Some (env', e)"
  show "created_at env' \<le> now \<and> (\<exists>entry\<in>set (entry # log). envelope_of m entry env')"
  proof (cases "k = key")
    case True
    then have "env' = env" using at by (simp add: store_snapshot_def Let_def)
    then show ?thesis using assms by auto
  next
    case False
    then have "snapshots r k = Some (env', e)" using at by (simp add: store_snapshot_def Let_def split: if_splits)
    then show ?thesis using l unfolding logged_def by fastforce
  qed
qed

lemma logged_renew:
  assumes "logged m log now r"
  shows "logged m log now (renew_snapshot (key, index, szs) ttl max_age now r)"
  using assms unfolding logged_def renew_snapshot_def Let_def by (auto split: if_splits option.splits)

lemma reach_ok:
  assumes "reach getenv sha encoded_size log now r"
    and m: "max_age_seconds getenv = Some m" and ub: "user_bytes getenv = Some ub" and uc: "user_count getenv = Some uc"
  shows "logged m log now r \<and> accounted sha encoded_size m now r \<and> within sha ub uc now r"
  using assms(1)
proof (induction rule: reach.induct)
  case (started now)
  have "0 < ub" "0 < uc" using ub uc limit_pos unfolding user_bytes_def user_count_def by fastforce+
  then show ?case
    by (simp add: logged_def accounted_def within_def empty_redis_def stored_index_def stored_sizes_def active_of_def
        active_sizes_def total_size_def)
next
  case (waited log now r now')
  then have "logged m log now' r" unfolding logged_def by fastforce
  then show ?case using waited later_ok by blast
next
  case (cached log now r a token result tool args r' ref)
  have m0: "0 < m" using m limit_pos unfolding max_age_seconds_def by fastforce
  from cached.hyps(2) m ub uc show ?case
  proof (cases rule: cache_result_cases)
    case (2 a' idle env n key index szs)
    have i0: "0 < idle" using 2(2) limit_pos unfolding idle_seconds_def by fastforce
    have t: "0 < min idle m" "min idle m \<le> m" using i0 m0 by auto
    have acc: "accounted sha encoded_size m now r" and w: "within sha ub uc now r" using cached.IH by auto
    have "envelope_of m (a, now, result) env" using 2(1,4) by (simp add: envelope_of_def)
    then have "logged m ((a, now, result) # log) now r'"
      using logged_store cached.IH 2(4,7) by fastforce
    moreover have "accounted sha encoded_size m now r'"
      unfolding 2(7) by (rule store_accounted [OF acc w 2(6) t 2(5)])
    moreover have "within sha ub uc now r'"
      unfolding 2(7) by (rule store_within [OF w 2(6) t(1) m0 2(8,9)])
    ultimately show ?thesis by blast
  qed simp
next
  case (not_cached log now r auth token result tool args r')
  from not_cached.hyps(2) m ub uc have "r' = r" by (cases rule: cache_result_cases) auto
  then show ?case using not_cached.IH by simp
next
  case (fetched log now r auth user ref r' res)
  from fetched.hyps(2) show ?case
  proof (cases rule: fetch_result_cases)
    case (1 e)
    then show ?thesis using fetched.IH by simp
  next
    case (2 a idle max_age env e key index szs)
    have acc: "accounted sha encoded_size m now r" and w: "within sha ub uc now r" using fetched.IH by auto
    have i0: "0 < idle" using 2(4) limit_pos unfolding idle_seconds_def by fastforce
    have mm: "max_age = m" using 2(5) m by simp
    obtain entry where "created_at env \<le> now" "envelope_of m entry env"
      using fetched.IH 2(7) unfolding logged_def by blast
    then have "env_expires env - now \<le> seconds m" by (auto simp: envelope_of_def)
    then have "(env_expires env - now) div 1000000 \<le> m" unfolding seconds_def by linarith
    then have t: "0 < min idle ((env_expires env - now) div 1000000)" "min idle ((env_expires env - now) div 1000000) \<le> m"
      using i0 2(11) by auto
    show ?thesis
      using renew_ok [OF acc w 2(6) 2(7,8) t] logged_renew fetched.IH unfolding 2(13) mm by blast
  qed
qed

lemma alive_eq_Some: "alive now x = Some v \<longleftrightarrow> (\<exists>e. x = Some (v, e) \<and> now < e)"
  by (auto simp: alive_def split: option.splits)

lemma wf_dict_sum_le:
  assumes "wf_dict d" and "distinct ks" and "\<And>k. k \<in> set ks \<Longrightarrow> dget d k = Some (f k)"
  shows "sum_list (map f ks) \<le> total_size d" and "length ks \<le> length d"
proof -
  let ?ps = "map (\<lambda>k. (k, f k)) ks"
  have ps: "distinct ?ps" "set ?ps \<subseteq> set d"
    using assms wf_dict_get [OF assms(1)] by (auto simp: distinct_map inj_on_def)
  have d: "distinct d" using assms(1) by (simp add: wf_dict_def distinct_map)
  have "sum snd (set ?ps) \<le> sum snd (set d)" by (rule sum_mono2) (use ps in auto)
  then show "sum_list (map f ks) \<le> total_size d"
    using sum_list_distinct_conv_sum_set [OF ps(1), of snd] sum_list_distinct_conv_sum_set [OF d, of snd]
    by (simp add: total_size_def comp_def)
  have "card (set ?ps) \<le> card (set d)" by (rule card_mono) (use ps in auto)
  then show "length ks \<le> length d" using distinct_card [OF ps(1)] distinct_card [OF d] by simp
qed

definition wf_scope :: "scope_spec \<Rightarrow> bool" where
  "wf_scope sc \<longleftrightarrow> (\<forall>ds. sc_dimensions sc = Some ds \<longrightarrow>
     (\<forall>d. dims_allow ds = Some d \<longrightarrow> wf_dict d) \<and> (\<forall>d. dims_deny ds = Some d \<longrightarrow> wf_dict d))"

definition wf_permissions :: "user_permissions \<Rightarrow> bool" where
  "wf_permissions p \<longleftrightarrow> wf_dict (perm_scenarios p) \<and> (\<forall>sid sc. read_grant p sid = Some (Some sc) \<longrightarrow> wf_scope sc)"

lemma opt_eq_refl: "(\<And>a. x = Some a \<Longrightarrow> eq a a) \<Longrightarrow> opt_eq eq x x"
  by (cases x) auto

lemma scope_eq_refl: "wf_scope sc \<Longrightarrow> scope_eq sc sc"
  by (auto simp: scope_eq_def dimension_scope_eq_def wf_scope_def dict_eq_iff intro!: opt_eq_refl)

lemma grants_eq_refl: "wf_permissions p \<Longrightarrow> grants_eq (permission_stamp p) (permission_stamp p)"
  by (auto simp: stamps_equal_iff wf_permissions_def scope_eq_refl intro!: opt_eq_refl)

lemma stored_result_found:
  assumes c: "cache_read_result getenv sha encoded_size (Some a) now token (\<lambda>_ _. None) result tool args r = (r', Some ref)"
    and lim: "idle_seconds getenv = Some idle" "max_age_seconds getenv = Some m"
      "user_bytes getenv = Some ub" "user_count getenv = Some uc"
    and token: "length token = 32" "list_all is_hex token"
    and held: "perm_user (auth_permissions a) = auth_user a" "wf_permissions (auth_permissions a)"
    and time: "now \<le> now'" "now' < now + seconds idle" "now' \<le> now + seconds (m - 1)"
  shows "\<exists>r'' env. fetch_cached_read_result getenv sha (Some a) now' (\<lambda>_ _. None) (auth_user a) ref r' = (r'', Inr env)
    \<and> env_result env = filter (\<lambda>(k, _). k \<noteq> ''data_ref'') result \<and> source_tool env = tool \<and> source_args env = args"
  using c lim(2-4)
proof (cases rule: cache_result_cases)
  case (2 a' idle' env n key index szs)
  have same: "a' = a" "idle' = idle" "ref = ''ds_'' @ token" using 2(1-3) lim(1) by simp_all
  have ref: "is_data_ref ref" using token same(3) by (simp add: is_data_ref_def startswith_def)
  have k: "keys sha (auth_user a) ref = (key, index, szs)" using 2(6) same by simp
  have at: "snapshots r' key = Some (env, now + seconds (min idle m))"
    using 2(7) same by (simp add: store_snapshot_def Let_def)
  have "now' < now + seconds (min idle m)" using time(2,3) by (auto simp: min_def seconds_def)
  then have live: "alive now' (snapshots r' key) = Some env" using at by simp
  have age: "0 < (env_expires env - now') div 1000000" "env_version env = 1"
    using 2(4) time(3) by (simp_all add: seconds_def)
  have "check_access (env_access env) (auth_user a) (auth_permissions a)"
    using 2(4) same held grants_eq_refl by (simp add: check_access_def)
  moreover obtain j where five: "(5 :: nat) = Suc j" using numeral_eq_Suc by blast
  ultimately have "fetch_cached_read_result getenv sha (Some a) now' (\<lambda>_ _. None) (auth_user a) ref r'
      = (renew_snapshot (key, index, szs) (min idle ((env_expires env - now') div 1000000)) m now' r', Inr env)"
    using ref k live age lim(1,2) unfolding fetch_cached_read_result_def five by (simp add: Let_def not_le)
  then show ?thesis using 2(4) by simp
qed simp

section \<open>Properties\<close>

text \<open>
  C32: Snapshots are resolved for their owner only. In every state the operations reach, a reference that
  resolves belongs to a result which the same user stored earlier, less than the maximal age ago, with
  the same administrator flag and, scenario by scenario, equal read scopes to those held now; and what is
  returned is that result.
\<close>

theorem snapshots_only_for_their_owner:
  assumes run: "reach getenv sha encoded_size log now r"
    and lim: "max_age_seconds getenv = Some m" "user_bytes getenv = Some ub" "user_count getenv = Some uc"
    and f: "fetch_cached_read_result getenv sha auth now (\<lambda>_ _. None) user ref r = (r', Inr env)"
    and wf: "\<forall>(a, t, result)\<in>set log. wf_permissions (auth_permissions a)" "\<forall>held. auth = Some held \<longrightarrow> wf_permissions (auth_permissions held)"
  shows "\<exists>held a t result. auth = Some held \<and> auth_user held = user \<and> (a, t, result) \<in> set log \<and> auth_user a = user
    \<and> t \<le> now \<and> now < t + seconds m \<and> env_result env = filter (\<lambda>(k, _). k \<noteq> ''data_ref'') result
    \<and> perm_admin (auth_permissions a) = perm_admin (auth_permissions held)
    \<and> (\<forall>sid. opt_eq (opt_eq scope_eq) (read_grant (auth_permissions a) sid) (read_grant (auth_permissions held) sid))"
  using f
proof (cases rule: fetch_result_cases)
  case (2 held idle max_age env' e key index szs)
  obtain a t result where entry: "created_at env \<le> now" "(a, t, result) \<in> set log" "envelope_of m (a, t, result) env"
    using reach_ok [OF run lim] 2(7,9) unfolding logged_def by fastforce
  have env: "created_at env = t" "env_expires env = t + seconds m" "env_result env = filter (\<lambda>(k, _). k \<noteq> ''data_ref'') result"
    "env_access env = Some \<lparr>acc_owner = auth_user a, acc_grants = permission_stamp (auth_permissions a)\<rparr>"
    using entry(3) by (simp_all add: envelope_of_def)
  have c: "auth_user a = user" "grants_eq (permission_stamp (auth_permissions a)) (permission_stamp (auth_permissions held))"
    using 2(9,12) env(4) by (simp_all add: check_access_def)
  have "wf_permissions (auth_permissions a)" "wf_permissions (auth_permissions held)" using wf entry(2) 2(1) by auto
  then have "perm_admin (auth_permissions a) = perm_admin (auth_permissions held)
    \<and> (\<forall>sid. opt_eq (opt_eq scope_eq) (read_grant (auth_permissions a) sid) (read_grant (auth_permissions held) sid))"
    using c(2) by (simp add: stamps_equal_iff wf_permissions_def)
  moreover have "now < t + seconds m" using 2(9,11) env(2) by simp
  ultimately show ?thesis using 2(1,2) entry(1,2) env(1,3) c(1) by blast
qed simp

text \<open>
  C33: The cache of a user is bounded. In every state the operations reach, the snapshots of one user that
  a reference still resolves are at most \<open>PRECIS_DATASET_USER_COUNT\<close>, and the lengths of their encodings
  add up to at most \<open>PRECIS_DATASET_USER_BYTES\<close>, however they were stored, renewed and left to expire.
\<close>

theorem snapshots_stay_within_capacity:
  assumes run: "reach getenv sha encoded_size log now r"
    and lim: "max_age_seconds getenv = Some m" "user_bytes getenv = Some ub" "user_count getenv = Some uc"
    and refs: "distinct refs" "\<forall>ref\<in>set refs. alive now (snapshots r (fst (keys sha user ref))) = Some (env ref)"
  shows "int (length refs) \<le> uc \<and> int (\<Sum>ref\<leftarrow>refs. the (encoded_size (env ref))) \<le> ub"
proof -
  obtain key0 index szs where k0: "keys sha user [] = (key0, index, szs)" by (cases "keys sha user []") auto
  have k: "keys sha user ref = (fst (keys sha user ref), index, szs)" for ref
    using k0 by (auto simp: keys_def Let_def)
  note ok = reach_ok [OF run lim]
  have w: "wf_dict (active_of r index szs now)" "int (total_size (active_of r index szs now)) \<le> ub"
    "int (length (active_of r index szs now)) \<le> uc"
    using ok wf_active k0 unfolding within_def by blast+
  define at where "at = (\<lambda>ref. fst (keys sha user ref))"
  have inj: "inj at" by (auto simp: inj_def at_def keys_def Let_def)
  have entry: "dget (active_of r index szs now) (at ref) = Some (the (encoded_size (env ref)))" if "ref \<in> set refs" for ref
  proof -
    have "alive now (snapshots r (at ref)) = Some (env ref)" using refs(2) that by (simp add: at_def)
    then obtain e where e: "snapshots r (at ref) = Some (env ref, e)" "now < e" by (auto simp: alive_eq_Some)
    obtain d h x n where o: "indexes r index = Some (d, x)" "size_table r szs = Some (h, x)" "e \<le> x"
      "dget d (at ref) = Some e" "encoded_size (env ref) = Some n" "dget h (at ref) = Some n"
      using ok k [of ref] e unfolding accounted_def at_def by blast
    have s: "stored_index r index now = d" "stored_sizes r szs now = h"
      using o e(2) by (simp_all add: stored_index_def stored_sizes_def)
    have "wf_dict d" using ok k0 s unfolding within_def by blast
    then have "at ref \<notin> set (expired_keys d now)" using o(4) e(2) by (auto simp: not_expired_iff)
    then show ?thesis using o(5,6) by (simp add: active_of_def active_sizes_def s dget_filter_keys)
  qed
  have d: "distinct (map at refs)" using refs(1) inj_on_subset [OF inj subset_UNIV] by (simp add: distinct_map)
  have "dget (active_of r index szs now) key = Some (the (encoded_size (env (inv at key))))" if "key \<in> set (map at refs)" for key
    using that entry inj by (auto simp: inv_f_f)
  note le = wf_dict_sum_le [OF w(1) d this]
  have "(\<Sum>ref\<leftarrow>refs. the (encoded_size (env ref))) = sum_list (map (\<lambda>key. the (encoded_size (env (inv at key)))) (map at refs))"
    using inj by (simp add: comp_def inv_f_f)
  then show ?thesis using le w(2,3) by simp
qed


section \<open>Witnesses\<close>

definition example_caller :: auth_context where
  "example_caller = \<lparr>auth_user = ''ana'', auth_permissions = \<lparr>perm_user = ''ana'', perm_admin = False,
     perm_scenarios = [(''B26'', \<lparr>effective_role = ''analyst'', tool_scopes = [(''read'', None)]\<rparr>)]\<rparr>\<rparr>"

definition example_token :: string where
  "example_token = replicate 32 (CHR ''a'')"

definition example_cached :: "nat redis \<times> string option" where
  "example_cached = cache_read_result (\<lambda>_. None) (\<lambda>_. 0) (\<lambda>_. Some 10) (Some example_caller) 0 example_token (\<lambda>_ _. None)
     [(''rows'', 7)] ''run_metric'' [] empty_redis"

lemma example_limits:
  "idle_seconds (\<lambda>_. None) = Some 600" "max_age_seconds (\<lambda>_. None) = Some 3600"
  "user_bytes (\<lambda>_. None) = Some 67108864" "user_count (\<lambda>_. None) = Some 128"
  by code_simp+

lemma example_wf: "wf_permissions (auth_permissions example_caller)"
  by (simp add: wf_permissions_def example_caller_def read_grant_def split: if_splits)

lemma example_stored: "snd example_cached = Some (''ds_'' @ example_token)"
proof -
  obtain j where five: "(5 :: nat) = Suc j" using numeral_eq_Suc by blast
  have "max_bytes (\<lambda>_. None) = Some 4194304" by code_simp
  moreover obtain key index szs where "keys (\<lambda>_. 0) ''ana'' (''ds_'' @ example_token) = (key, index, szs)"
    by (cases "keys (\<lambda>_. 0) ''ana'' (''ds_'' @ example_token)") auto
  moreover have "active_of (empty_redis :: nat redis) index szs 0 = []" for index szs
    by (simp add: active_of_def active_sizes_def stored_sizes_def empty_redis_def)
  ultimately show ?thesis
    by (simp add: example_cached_def cache_read_result_def example_limits example_caller_def Let_def five
        cache_attempt [OF example_limits(3,4)] total_size_def del: cache_attempts.simps)
qed

lemma example_call:
  "cache_read_result (\<lambda>_. None) (\<lambda>_. 0) (\<lambda>_. Some 10) (Some example_caller) 0 example_token (\<lambda>_ _. None)
     [(''rows'', 7)] ''run_metric'' [] empty_redis = (fst example_cached, Some (''ds_'' @ example_token))"
  by (simp only: example_cached_def [symmetric] example_stored [symmetric] prod.collapse)

lemma example_run: "reach (\<lambda>_. None) (\<lambda>_. 0) (\<lambda>_. Some 10) [(example_caller, 0, [(''rows'', 7)])] 0 (fst example_cached)"
  by (rule reach.cached [OF reach.started example_call])

lemma example_token_ok: "length example_token = 32" "list_all is_hex example_token"
  by code_simp+

lemma example_identity:
  "perm_user (auth_permissions example_caller) = auth_user example_caller" "auth_user example_caller = ''ana''"
  by (simp_all add: example_caller_def)

lemmas example_found = stored_result_found [OF example_call example_limits example_token_ok example_identity(1) example_wf]


theorem snapshots_stay_within_capacity_witness:
  "alive 0 (snapshots (fst example_cached) (fst (keys (\<lambda>_. 0) ''ana'' (''ds_'' @ example_token)))) \<noteq> None \<and> int 10 \<le> 67108864"
proof -
  let ?key = "fst (keys (\<lambda>_. 0) ''ana'' (''ds_'' @ example_token))"
  obtain r'' env where "fetch_cached_read_result (\<lambda>_. None) (\<lambda>_. 0) (Some example_caller) 0 (\<lambda>_ _. None) ''ana''
      (''ds_'' @ example_token) (fst example_cached) = (r'', Inr env)"
    using example_found [of 0] unfolding example_identity(2) by (auto simp: seconds_def)
  then have env: "alive 0 (snapshots (fst example_cached) ?key) = Some env"
    by (cases rule: fetch_result_cases) auto
  show ?thesis
    using snapshots_stay_within_capacity [OF example_run example_limits(2-4), of "[''ds_'' @ example_token]" "''ana''" "\<lambda>_. env"]
      env by simp
qed

theorem snapshots_only_for_their_owner_witness:
  "\<exists>env. snd (fetch_cached_read_result (\<lambda>_. None) (\<lambda>_. 0) (Some example_caller) 0 (\<lambda>_ _. None) ''ana'' (''ds_'' @ example_token)
     (fst example_cached)) = Inr env \<and> env_result env = [(''rows'', 7 :: nat)]"
proof -
  let ?f = "fetch_cached_read_result (\<lambda>_. None) (\<lambda>_. 0) (Some example_caller) 0 (\<lambda>_ _. None) ''ana'' (''ds_'' @ example_token)
     (fst example_cached)"
  obtain r'' env where "?f = (r'', Inr env)"
    using example_found [of 0] unfolding example_identity(2) by (auto simp: seconds_def)
  then have f: "?f = (fst ?f, Inr env)" by simp
  show ?thesis
  proof (intro exI conjI)
    show "snd ?f = Inr env" using f by (metis snd_conv)
    show "env_result env = [(''rows'', 7)]"
      using snapshots_only_for_their_owner [OF example_run example_limits(2-4) f] example_wf by auto
  qed
qed

end
