(* ===== verification/Artifacts.thy ===== *)
theory Artifacts
  imports Datasets
begin

text \<open>
  The artifact store (\<open>artifacts/registry.py\<close>, \<open>uploads.py\<close>, \<open>ids.py\<close>, \<open>tokens.py\<close>, \<open>routes.py\<close>):
  files that a user uploads or a tool produces. The state is three tables of the platform database, the
  blobs on disk and the clock. A transaction is one step on the tables: the advisory lock of its user
  and the row locks keep it apart from other transactions on the same rows. It commits, fails, or commits
  while its caller is told that it failed; blobs are written and unlinked outside the database, and each
  of these may fail as well. Those outcomes are arguments of the operations.

  Paths are lists of their parts; a blob is its bytes. Parameters stand for \<open>resolve()\<close> on the file
  system, SHA-256, \<open>mimetypes.guess_type\<close>, and the tokens that \<open>secrets\<close> draws. Instants are microseconds.
\<close>

section \<open>Names\<close>

(* artifacts/ids.py:18-18 _ALPHABET *)
definition ALPHABET :: string where
  "ALPHABET = ''abcdefghijklmnopqrstuvwxyz234567''"

text \<open>The 26 draws of \<open>secrets.choice\<close>, as positions in the alphabet.\<close>

(* artifacts/ids.py:21-24 generate_file_id *)
definition generate_file_id :: "nat list \<Rightarrow> string" where
  "generate_file_id draws = ''file_'' @ map (\<lambda>d. ALPHABET ! (d mod 32)) draws"

definition is_lower :: "char \<Rightarrow> bool" where
  "is_lower c = (97 \<le> (of_char c :: nat) \<and> (of_char c :: nat) \<le> 122)"

definition is_upper :: "char \<Rightarrow> bool" where
  "is_upper c = (65 \<le> (of_char c :: nat) \<and> (of_char c :: nat) \<le> 90)"

text \<open>\<open>re.match\<close> with \<open>$\<close>: the end of the text, or before a final newline.\<close>

(* artifacts/ids.py:27-33 is_valid_file_id *)
definition is_valid_file_id :: "string \<Rightarrow> bool" where
  "is_valid_file_id v \<longleftrightarrow> startswith v ''file_'' \<and> 26 \<le> length (drop 5 v)
     \<and> list_all (\<lambda>c. is_lower c \<or> is_digit c) (take 26 (drop 5 v))
     \<and> (drop 31 v = [] \<or> drop 31 v = [CHR 0x0A])"

definition lower :: "string \<Rightarrow> string" where
  "lower s = map (\<lambda>c. if is_upper c then char_of ((of_char c :: nat) + 32) else c) s"

text \<open>\<open>Path.suffix\<close> of a one-part path: from the last dot on, unless that dot is first or last.\<close>

definition path_suffix :: "string \<Rightarrow> string" where
  "path_suffix name =
     (let ext = rev (takeWhile (\<lambda>c. c \<noteq> CHR ''.'') (rev name))
      in if CHR ''.'' \<in> set name \<and> ext \<noteq> [] \<and> Suc (length ext) < length name then CHR ''.'' # ext else [])"

(* artifacts/registry.py:26-26 _ALLOWED_EXTENSIONS *)
definition ALLOWED_EXTENSIONS :: "string list" where
  "ALLOWED_EXTENSIONS = [''.xlsx'', ''.xls'', ''.csv'', ''.pdf'', ''.json'', ''.yaml'', ''.yml'', ''.txt'', ''.png'',
     ''.jpg'', ''.jpeg'', ''.py'']"

(* artifacts/registry.py:24-24 _MAX_QUOTA_BYTES *)
definition MAX_QUOTA_BYTES :: nat where
  "MAX_QUOTA_BYTES = 100 * 1024 * 1024"

(* artifacts/registry.py:25-25 _MAX_FILE_BYTES *)
definition MAX_FILE_BYTES :: nat where
  "MAX_FILE_BYTES = 10 * 1024 * 1024"

(* artifacts/registry.py:49-53 _validate_basename *)
definition valid_basename :: "string \<Rightarrow> bool" where
  "valid_basename name \<longleftrightarrow> name \<noteq> [] \<and> length name \<le> 255
     \<and> list_all (\<lambda>c. c \<notin> {CHR ''/'', CHR 0x5C, CHR 0x00, CHR 0x0D, CHR 0x0A}) name
     \<and> \<not> contains ''..'' name \<and> lower (path_suffix name) \<in> set ALLOWED_EXTENSIONS"

definition mime_char :: "char \<Rightarrow> bool" where
  "mime_char c \<longleftrightarrow> is_lower c \<or> is_upper c \<or> is_digit c \<or> c \<in> set ''!#$&^_.+-''"

(* artifacts/registry.py:56-59 validate_mime_type *)
definition validate_mime_type :: "string \<Rightarrow> string option" where
  "validate_mime_type v =
     (if length v > 127 then None
      else (case split_on (CHR ''/'') v of
              [a, b] \<Rightarrow> if a \<noteq> [] \<and> b \<noteq> [] \<and> list_all mime_char a \<and> list_all mime_char b then Some (lower v) else None
            | _ \<Rightarrow> None))"

type_synonym path = "string list"

datatype artifact_error =
    FileNotFound string
  | QuotaExceeded
  | FileTooLarge
  | InvalidBasename
  | ConflictError
  | BadValue string
  | DiskFault
  | DatabaseFault
  | NoAuthContext
  | AuthFailed auth_error
  | NotConfigured string

text \<open>\<open>root\<close> is the resolved data directory.\<close>

(* artifacts/registry.py:62-69 _user_root *)
definition user_root :: "(path \<Rightarrow> path) \<Rightarrow> path \<Rightarrow> string \<Rightarrow> (artifact_error, path) res" where
  "user_root resolve root uid =
     (if uid = [] \<or> uid \<in> {''.'', ''..''} \<or> \<not> list_all (\<lambda>c. c \<notin> {CHR ''/'', CHR 0x5C, CHR 0x00}) uid
      then Inl (BadValue ''Invalid artifact owner'')
      else let p = resolve (root @ [uid]) in if prefix root p then Inr p else Inl (BadValue ''Invalid artifact owner''))"

(* artifacts/registry.py:72-79 _blob_path *)
definition blob_path :: "(path \<Rightarrow> path) \<Rightarrow> path \<Rightarrow> string \<Rightarrow> string \<Rightarrow> (artifact_error, path) res" where
  "blob_path resolve root uid fid =
     (if \<not> is_valid_file_id fid then Inl (BadValue ''Invalid file_id'')
      else res_map (\<lambda>p. p @ [''blobs'', fid]) (user_root resolve root uid))"

text \<open>\<open>path.with_suffix(".receiving")\<close>\<close>

definition receiving :: "path \<Rightarrow> path" where
  "receiving p = butlast p @ [strip_suffix (last p) (path_suffix (last p)) @ ''.receiving'']"

section \<open>State\<close>

record file_row =
  f_id :: string
  f_user :: string
  f_basename :: string
  f_mime :: string
  f_size :: nat
  f_sha :: string
  f_path :: path
  f_created :: int
  f_updated :: int
  f_expires :: "int option"
  f_deleted :: "int option"
  f_source :: string
  f_tool :: "string option"
  f_version :: nat
  f_provenance :: args
  f_access :: "access option"

datatype upload_state = Pending | Receiving | Uploaded | Complete

record upload_row =
  u_id :: string
  u_user :: string
  u_basename :: string
  u_mime :: string
  u_size :: nat
  u_path :: path
  u_state :: upload_state
  u_file :: "string option"
  u_expires :: int

record retired_row =
  g_path :: path
  g_user :: string
  g_size :: nat

text \<open>A blob on disk and the instant it was last written.\<close>

record store =
  files :: "file_row list"
  uploads :: "upload_row list"
  retired :: "retired_row list"
  disk :: "path \<Rightarrow> (string \<times> int) option"
  clock :: int

definition empty_store :: "int \<Rightarrow> store" where
  "empty_store now = \<lparr>files = [], uploads = [], retired = [], disk = \<lambda>_. None, clock = now\<rparr>"

section \<open>Effects and their outcomes\<close>

text \<open>\<open>WriteUnsynced\<close>: the blob is in place and the sync of its directory fails.\<close>

datatype write_outcome = WriteDone | WriteFailed | WriteUnsynced

text \<open>\<open>CommitLost\<close>: the server commits and the client is told otherwise, or nothing.\<close>

datatype commit_outcome = CommitDone | CommitFailed | CommitLost

definition unlink :: "path \<Rightarrow> store \<Rightarrow> store" where
  "unlink p s = s\<lparr>disk := (disk s)(p := None)\<rparr>"

(* artifacts/registry.py:112-130 _write_atomic *)
definition write_atomic :: "write_outcome \<Rightarrow> path \<Rightarrow> string \<Rightarrow> store \<Rightarrow> store" where
  "write_atomic w p data s = (if w = WriteFailed then s else s\<lparr>disk := (disk s)(p := Some (data, clock s))\<rparr>)"

text \<open>The tables after a transaction from \<open>s\<close> that computed \<open>t\<close>; what is on disk stays.\<close>

definition commit :: "commit_outcome \<Rightarrow> store \<Rightarrow> store \<Rightarrow> store" where
  "commit c s t = (if c = CommitFailed then t\<lparr>files := files s, uploads := uploads s, retired := retired s\<rparr> else t)"

section \<open>Queries\<close>

text \<open>\<open>deleted_at IS NULL AND (expires_at IS NULL OR expires_at > now())\<close>\<close>

definition visible :: "int \<Rightarrow> file_row \<Rightarrow> bool" where
  "visible now row \<longleftrightarrow> f_deleted row = None \<and> (case f_expires row of None \<Rightarrow> True | Some e \<Rightarrow> now < e)"

definition find_file :: "string \<Rightarrow> string \<Rightarrow> store \<Rightarrow> file_row option" where
  "find_file fid user s = List.find (\<lambda>row. f_id row = fid \<and> f_user row = user \<and> visible (clock s) row) (files s)"

definition find_upload :: "string \<Rightarrow> string \<Rightarrow> store \<Rightarrow> upload_row option" where
  "find_upload uid user s = List.find (\<lambda>row. u_id row = uid \<and> u_user row = user \<and> clock s < u_expires row) (uploads s)"

(* artifacts/registry.py:93-109 quota_used *)
definition quota_used :: "string \<Rightarrow> string option \<Rightarrow> store \<Rightarrow> nat" where
  "quota_used user exclude s =
     (\<Sum>row\<leftarrow>filter (\<lambda>row. f_user row = user) (files s). f_size row)
     + (\<Sum>row\<leftarrow>filter (\<lambda>row. g_user row = user) (retired s). g_size row)
     + (\<Sum>row\<leftarrow>filter (\<lambda>row. u_user row = user \<and> u_state row \<noteq> Complete
           \<and> (case exclude of None \<Rightarrow> True | Some uid \<Rightarrow> u_id row \<noteq> uid)) (uploads s). u_size row)"

section \<open>Creating a file\<close>

text \<open>
  The surroundings of a call: paths, digest, the caller's context, the reload of permissions, and how
  the effects of this call turn out.
\<close>

record world =
  w_resolve :: "path \<Rightarrow> path"
  w_root :: path
  w_digest :: "string \<Rightarrow> string"
  w_guess :: "string \<Rightarrow> string option"
  w_auth :: "auth_context option"
  w_load :: "string \<Rightarrow> (auth_error, user_permissions) res"
  w_write :: write_outcome
  w_commit :: commit_outcome
  w_unlink :: "path \<Rightarrow> bool"

text \<open>\<open>unlink\<close> in an exception handler: an \<open>OSError\<close> is logged and swallowed.\<close>

definition try_unlink :: "world \<Rightarrow> path \<Rightarrow> store \<Rightarrow> store" where
  "try_unlink w p s = (if w_unlink w p then unlink p s else s)"

(* artifacts/registry.py:143-147 create_file *)
definition create_access :: "world \<Rightarrow> string \<Rightarrow> string \<Rightarrow> access option \<Rightarrow> (artifact_error, access option) res" where
  "create_access w user source access =
     (if source \<noteq> ''user_upload'' \<and> access = None
      then (case w_auth w of
              None \<Rightarrow> Inl NoAuthContext
            | Some a \<Rightarrow>
                if auth_user a \<noteq> user then Inl (BadValue ''Artifact owner does not match caller'')
                else Inr (Some \<lparr>acc_owner = user, acc_grants = permission_stamp (auth_permissions a)\<rparr>))
      else Inr access)"

text \<open>
  What the reservation of a completed upload decides: the file it was completed with, or that the file
  is still to be made.
\<close>

(* artifacts/registry.py:154-166 create_file *)
definition upload_check :: "string option \<Rightarrow> string \<Rightarrow> nat \<Rightarrow> store \<Rightarrow> (artifact_error, file_row option) res" where
  "upload_check upload user n s =
     (case upload of
        None \<Rightarrow> Inr None
      | Some uid \<Rightarrow>
          (case find_upload uid user s of
             None \<Rightarrow> Inl (FileNotFound ''Upload unavailable'')
           | Some u \<Rightarrow>
               if u_state u = Complete
               then (case Option.bind (u_file u) (\<lambda>fid. find_file fid user s) of
                       None \<Rightarrow> Inl (FileNotFound ''Uploaded artifact unavailable'')
                     | Some row \<Rightarrow> Inr (Some row))
               else if u_state u \<noteq> Uploaded \<or> u_size u \<noteq> n then Inl (BadValue ''Upload is incomplete'')
               else Inr None))"

(* artifacts/registry.py:179-180 create_file *)
definition complete_row :: "string \<Rightarrow> string \<Rightarrow> upload_row \<Rightarrow> upload_row" where
  "complete_row uid fid u = (if u_id u = uid then u\<lparr>u_state := Complete, u_file := Some fid\<rparr> else u)"

text \<open>
  The transaction, with the blob it writes. A duplicate key makes the insertion fail after the blob is
  written. The row is what \<open>RETURNING *\<close> gives.
\<close>

(* artifacts/registry.py:167-188 create_file *)
definition insert_file ::
  "world \<Rightarrow> file_row \<Rightarrow> string \<Rightarrow> string option \<Rightarrow> store \<Rightarrow> store \<times> (artifact_error, file_row) res" where
  "insert_file w row blob upload s =
     (if quota_used (f_user row) upload s + length blob > MAX_QUOTA_BYTES then (s, Inl QuotaExceeded)
      else let s1 = write_atomic (w_write w) (f_path row) blob s in
        if w_write w \<noteq> WriteDone then (s1, Inl DiskFault)
        else if f_id row \<in> f_id ` set (files s) then (try_unlink w (f_path row) s1, Inl DatabaseFault)
        else let s2 = s1\<lparr>files := files s @ [row],
                         uploads := (case upload of None \<Rightarrow> uploads s | Some uid \<Rightarrow> map (complete_row uid (f_id row)) (uploads s))\<rparr>;
                 s3 = commit (w_commit w) s1 s2
             in if w_commit w = CommitDone then (s3, Inr row) else (try_unlink w (f_path row) s3, Inl DatabaseFault))"

(* artifacts/registry.py:133-188 create_file *)
definition create_file ::
  "world \<Rightarrow> nat list \<Rightarrow> string \<Rightarrow> string \<Rightarrow> string \<Rightarrow> string \<Rightarrow> string option \<Rightarrow> int option \<Rightarrow> string option \<Rightarrow> args
     \<Rightarrow> access option \<Rightarrow> string option \<Rightarrow> store \<Rightarrow> store \<times> (artifact_error, file_row) res" where
  "create_file w draws user basename blob source tool expires mime provenance access upload s =
     (if \<not> valid_basename basename then (s, Inl InvalidBasename)
      else case validate_mime_type (case mime of Some (c # cs) \<Rightarrow> c # cs
                | _ \<Rightarrow> (case w_guess w basename of Some (c # cs) \<Rightarrow> c # cs | _ \<Rightarrow> ''application/octet-stream'')) of
        None \<Rightarrow> (s, Inl (BadValue ''Invalid MIME type''))
      | Some mime' \<Rightarrow>
          if source \<notin> {''user_upload'', ''agent_tool'', ''sandbox''} then (s, Inl (BadValue ''Invalid file source''))
          else if length blob > MAX_FILE_BYTES then (s, Inl FileTooLarge)
          else case create_access w user source access of
            Inl e \<Rightarrow> (s, Inl e)
          | Inr access' \<Rightarrow>
              let fid = generate_file_id draws in
              (case blob_path (w_resolve w) (w_root w) user fid of
                 Inl e \<Rightarrow> (s, Inl e)
               | Inr path \<Rightarrow>
                   (case upload_check upload user (length blob) s of
                      Inl e \<Rightarrow> (s, Inl e)
                    | Inr (Some row) \<Rightarrow> (s, if w_commit w = CommitDone then Inr row else Inl DatabaseFault)
                    | Inr None \<Rightarrow>
                        insert_file w \<lparr>f_id = fid, f_user = user, f_basename = basename, f_mime = mime', f_size = length blob,
                          f_sha = w_digest w blob, f_path = path, f_created = clock s, f_updated = clock s, f_expires = expires,
                          f_deleted = None, f_source = source, f_tool = tool, f_version = 1, f_provenance = provenance,
                          f_access = access'\<rparr> blob upload s)))"

section \<open>Reading and replacing a file\<close>

(* artifacts/registry.py:191-204 authorize_file *)
definition authorize_file :: "world \<Rightarrow> file_row \<Rightarrow> (artifact_error, unit) res" where
  "authorize_file w row =
     (case f_access row of
        None \<Rightarrow> Inr ()
      | Some access \<Rightarrow>
          res_bind (case w_auth w of
                      Some a \<Rightarrow> if auth_user a \<noteq> f_user row then Inl (FileNotFound ''Artifact unavailable'')
                               else Inr (auth_permissions a)
                    | None \<Rightarrow> res_wrap AuthFailed (w_load w (f_user row)))
            (\<lambda>p. res_guard (check_access (Some access) (f_user row) p)
                   (FileNotFound ''Artifact unavailable; source permissions changed'')))"

(* artifacts/registry.py:207-217 get_file *)
definition get_file :: "world \<Rightarrow> string \<Rightarrow> string \<Rightarrow> store \<Rightarrow> (artifact_error, file_row option) res" where
  "get_file w fid user s =
     (if \<not> is_valid_file_id fid then Inr None
      else case find_file fid user s of
        None \<Rightarrow> Inr None
      | Some row \<Rightarrow>
          (case authorize_file w row of
             Inr _ \<Rightarrow> Inr (Some row)
           | Inl (FileNotFound m) \<Rightarrow> Inr None
           | Inl e \<Rightarrow> Inl e))"

(* artifacts/registry.py:220-222 resolve_path *)
definition resolve_path :: "world \<Rightarrow> string \<Rightarrow> string \<Rightarrow> store \<Rightarrow> (artifact_error, path option) res" where
  "resolve_path w fid user s = res_map (map_option f_path) (get_file w fid user s)"

text \<open>One retired blob: unlinked and struck off in one transaction; any failure leaves the row.\<close>

(* artifacts/registry.py:390-400 _collect_retired *)
definition collect_one :: "(path \<Rightarrow> bool) \<Rightarrow> (path \<Rightarrow> commit_outcome) \<Rightarrow> store \<Rightarrow> path \<Rightarrow> store" where
  "collect_one unlinks commits s p =
     (if p \<notin> g_path ` set (retired s) \<or> \<not> unlinks p then s
      else let s1 = unlink p s in commit (commits p) s1 (s1\<lparr>retired := filter (\<lambda>g. g_path g \<noteq> p) (retired s1)\<rparr>))"

(* artifacts/registry.py:382-400 _collect_retired *)
definition collect_retired :: "(path \<Rightarrow> bool) \<Rightarrow> (path \<Rightarrow> commit_outcome) \<Rightarrow> string option \<Rightarrow> store \<Rightarrow> store" where
  "collect_retired unlinks commits user s =
     foldl (collect_one unlinks commits) s
       (map g_path (filter (\<lambda>g. case user of None \<Rightarrow> True | Some u \<Rightarrow> g_user g = u) (retired s)))"

definition version_path :: "file_row \<Rightarrow> string \<Rightarrow> path" where
  "version_path row token = butlast (f_path row) @ [f_id row @ ''.'' @ nat_text (Suc (f_version row)) @ ''.'' @ token]"

text \<open>The transaction of an update, with the blob it writes.\<close>

(* artifacts/registry.py:250-278 update_file_blob *)
definition replace_blob ::
  "world \<Rightarrow> string \<Rightarrow> file_row \<Rightarrow> access \<Rightarrow> string \<Rightarrow> string option \<Rightarrow> store \<Rightarrow> store \<times> (artifact_error, file_row) res" where
  "replace_blob w token row access blob tool s =
     (if int (quota_used (f_user row) None s) - int (f_size row) + int (length blob) > int MAX_QUOTA_BYTES then (s, Inl QuotaExceeded)
      else let p = version_path row token; s1 = write_atomic (w_write w) p blob s in
        if w_write w \<noteq> WriteDone then (s1, Inl DiskFault)
        else if f_path row \<in> g_path ` set (retired s) then (try_unlink w p s1, Inl DatabaseFault)
        else let row' = row\<lparr>f_size := length blob, f_sha := w_digest w blob, f_updated := clock s, f_version := Suc (f_version row),
                         f_tool := (case tool of None \<Rightarrow> f_tool row | Some t \<Rightarrow> Some t), f_path := p, f_access := Some access\<rparr>;
                 s2 = s1\<lparr>files := map (\<lambda>r. if f_id r = f_id row then row' else r) (files s),
                         retired := retired s @ [\<lparr>g_path = f_path row, g_user = f_user row, g_size = f_size row\<rparr>]\<rparr>;
                 s3 = commit (w_commit w) s1 s2
             in if w_commit w = CommitDone then (s3, Inr row') else (try_unlink w p s3, Inl DatabaseFault))"

(* artifacts/registry.py:225-266 update_file_blob *)
definition update_transaction ::
  "world \<Rightarrow> string \<Rightarrow> string \<Rightarrow> string \<Rightarrow> string \<Rightarrow> string option \<Rightarrow> string option \<Rightarrow> store
     \<Rightarrow> store \<times> (artifact_error, file_row) res" where
  "update_transaction w token fid user blob tool expected s =
     (if \<not> is_valid_file_id fid then (s, Inl (FileNotFound ''Artifact unavailable''))
      else if length blob > MAX_FILE_BYTES then (s, Inl FileTooLarge)
      else case find_file fid user s of
        None \<Rightarrow> (s, Inl (FileNotFound ''Artifact unavailable''))
      | Some row \<Rightarrow>
          (case authorize_file w row of
             Inl e \<Rightarrow> (s, Inl e)
           | Inr _ \<Rightarrow>
               (case w_auth w of
                  None \<Rightarrow> (s, Inl NoAuthContext)
                | Some a \<Rightarrow>
                    if auth_user a \<noteq> user then (s, Inl (FileNotFound ''Artifact unavailable''))
                    else if expected \<noteq> None \<and> expected \<noteq> Some (f_sha row) then (s, Inl ConflictError)
                    else replace_blob w token row
                           \<lparr>acc_owner = user, acc_grants = permission_stamp (auth_permissions a)\<rparr> blob tool s)))"

(* artifacts/registry.py:225-278 update_file_blob *)
definition update_file_blob ::
  "world \<Rightarrow> string \<Rightarrow> (path \<Rightarrow> commit_outcome) \<Rightarrow> string \<Rightarrow> string \<Rightarrow> string \<Rightarrow> string option \<Rightarrow> string option \<Rightarrow> store
     \<Rightarrow> store \<times> (artifact_error, file_row) res" where
  "update_file_blob w token commits fid user blob tool expected s =
     (case update_transaction w token fid user blob tool expected s of
        (s', Inl e) \<Rightarrow> (s', Inl e)
      | (s', Inr row) \<Rightarrow> (collect_retired (w_unlink w) commits (Some user) s', Inr row))"

section \<open>Materialised copies\<close>

(* artifacts/registry.py:281-289 materialize_blob *)
definition materialize_blob :: "world \<Rightarrow> string \<Rightarrow> string \<Rightarrow> store \<Rightarrow> (artifact_error, string \<times> file_row) res" where
  "materialize_blob w fid user s =
     res_bind (get_file w fid user s) (\<lambda>found.
       case found of
         None \<Rightarrow> Inl (FileNotFound ''Artifact unavailable'')
       | Some row \<Rightarrow> (case disk s (f_path row) of None \<Rightarrow> Inl DiskFault | Some (data, _) \<Rightarrow> Inr (data, row)))"

text \<open>
  The body of the context edits a private copy while the store moves on to \<open>meanwhile s\<close>; the update
  then names the digest that was read. \<open>w'\<close> is how the effects of the update turn out. A body that
  raises, \<^const>\<open>None\<close>, updates nothing.
\<close>

(* artifacts/registry.py:292-302 materialize_for_update *)
definition materialize_for_update ::
  "world \<Rightarrow> world \<Rightarrow> string \<Rightarrow> (path \<Rightarrow> commit_outcome) \<Rightarrow> string \<Rightarrow> string \<Rightarrow> string option \<Rightarrow> (string \<Rightarrow> string option)
     \<Rightarrow> (store \<Rightarrow> store) \<Rightarrow> store \<Rightarrow> store \<times> (artifact_error, file_row option) res" where
  "materialize_for_update w w' token commits fid user tool body meanwhile s =
     (case materialize_blob w fid user s of
        Inl e \<Rightarrow> (s, Inl e)
      | Inr (data, row) \<Rightarrow>
          (case body data of
             None \<Rightarrow> (meanwhile s, Inr None)
           | Some data' \<Rightarrow>
               (case update_file_blob w' token commits fid user data' tool (Some (f_sha row)) (meanwhile s) of
                  (s', r) \<Rightarrow> (s', res_map Some r))))"

text \<open>A row whose permissions changed is left out; any other failure ends the listing.\<close>

fun authorized_rows :: "world \<Rightarrow> file_row list \<Rightarrow> (artifact_error, file_row list) res" where
  "authorized_rows w [] = Inr []"
| "authorized_rows w (row # rows) =
     (case authorize_file w row of
        Inr _ \<Rightarrow> res_map (Cons row) (authorized_rows w rows)
      | Inl (FileNotFound m) \<Rightarrow> authorized_rows w rows
      | Inl e \<Rightarrow> Inl e)"

(* artifacts/registry.py:305-317 list_files *)
definition list_files :: "world \<Rightarrow> string \<Rightarrow> bool \<Rightarrow> store \<Rightarrow> (artifact_error, file_row list) res" where
  "list_files w user include_expired s =
     authorized_rows w (sort_key (\<lambda>row. - f_created row)
       (filter (\<lambda>row. f_user row = user \<and> (if include_expired then f_deleted row = None else visible (clock s) row)) (files s)))"

(* artifacts/registry.py:320-321 soft_delete *)
definition soft_delete :: "string \<Rightarrow> string \<Rightarrow> store \<Rightarrow> store \<times> bool" where
  "soft_delete fid user s =
     (let hit = (\<lambda>row. f_id row = fid \<and> f_user row = user \<and> f_deleted row = None)
      in (s\<lparr>files := map (\<lambda>row. if hit row then row\<lparr>f_deleted := Some (clock s)\<rparr> else row) (files s)\<rparr>,
          list_ex hit (files s)))"

section \<open>Collection\<close>

definition gone :: "int \<Rightarrow> file_row \<Rightarrow> bool" where
  "gone now row \<longleftrightarrow> f_deleted row \<noteq> None \<or> (case f_expires row of None \<Rightarrow> False | Some e \<Rightarrow> e \<le> now)"

text \<open>
  One candidate of the first loop: the blob and its receiving twin are unlinked, then the row goes, and
  with it the reference of the upload it came from; a failed unlink leaves a tombstone. The second
  component counts.
\<close>

(* artifacts/registry.py:332-344 gc_expired *)
definition gc_file :: "(path \<Rightarrow> bool) \<Rightarrow> string \<Rightarrow> store \<Rightarrow> store \<times> nat" where
  "gc_file unlinks fid s =
     (case List.find (\<lambda>row. f_id row = fid \<and> gone (clock s) row) (files s) of
        None \<Rightarrow> (s, 0)
      | Some row \<Rightarrow>
          let s1 = (if unlinks (f_path row) then unlink (f_path row) s else s);
              s2 = (if unlinks (f_path row) \<and> unlinks (receiving (f_path row)) then unlink (receiving (f_path row)) s1 else s1)
          in if unlinks (f_path row) \<and> unlinks (receiving (f_path row))
             then (s2\<lparr>files := filter (\<lambda>r. f_id r \<noteq> fid) (files s2),
                      uploads := map (\<lambda>u. if u_file u = Some fid then u\<lparr>u_file := None\<rparr> else u) (uploads s2)\<rparr>, 1)
             else (s2\<lparr>files := map (\<lambda>r. if f_id r = fid
                                        then r\<lparr>f_deleted := (case f_deleted r of None \<Rightarrow> Some (clock s) | Some t \<Rightarrow> Some t)\<rparr> else r)
                                  (files s2)\<rparr>, 0))"

(* artifacts/registry.py:349-359 gc_expired *)
definition gc_upload :: "(path \<Rightarrow> bool) \<Rightarrow> string \<Rightarrow> store \<Rightarrow> store" where
  "gc_upload unlinks uid s =
     (case List.find (\<lambda>row. u_id row = uid \<and> u_expires row \<le> clock s) (uploads s) of
        None \<Rightarrow> s
      | Some row \<Rightarrow>
          let s1 = (if unlinks (u_path row) then unlink (u_path row) s else s);
              s2 = (if unlinks (u_path row) \<and> unlinks (receiving (u_path row)) then unlink (receiving (u_path row)) s1 else s1)
          in if unlinks (u_path row) \<and> unlinks (receiving (u_path row))
             then s2\<lparr>uploads := filter (\<lambda>r. u_id r \<noteq> uid) (uploads s2)\<rparr> else s2)"

text \<open>A loop of transactions: the first that does not commit ends it.\<close>

fun gc_loop :: "(string \<Rightarrow> store \<Rightarrow> store \<times> nat) \<Rightarrow> (string \<Rightarrow> commit_outcome) \<Rightarrow> string list \<Rightarrow> nat \<Rightarrow> store
     \<Rightarrow> store \<times> nat option" where
  "gc_loop body commits [] n s = (s, Some n)"
| "gc_loop body commits (k # ks) n s =
     (let (t, m) = body k s; s' = commit (commits k) s t
      in if commits k = CommitDone then gc_loop body commits ks (n + m) s' else (s', None))"

text \<open>\<open>scanned\<close>: a file directly in the \<open>blobs\<close> or \<open>artifact_staging\<close> directory of a user.\<close>

definition scanned :: "path \<Rightarrow> path \<Rightarrow> bool" where
  "scanned root p \<longleftrightarrow> length p = length root + 3 \<and> take (length root) p = root
     \<and> p ! (length root + 1) \<in> {''blobs'', ''artifact_staging''}"

definition referenced :: "store \<Rightarrow> path set" where
  "referenced s = f_path ` set (files s) \<union> u_path ` set (uploads s) \<union> g_path ` set (retired s)"

(* artifacts/registry.py:364-379 reconcile_orphans *)
definition reconcile_orphans :: "(path \<Rightarrow> path) \<Rightarrow> path \<Rightarrow> (path \<Rightarrow> bool) \<Rightarrow> (path \<Rightarrow> bool) \<Rightarrow> store \<Rightarrow> store" where
  "reconcile_orphans resolve root symlink unlinks s =
     (let live = resolve ` referenced s \<union> (\<lambda>p. resolve (receiving p)) ` referenced s
      in s\<lparr>disk := (\<lambda>p. case disk s p of
             None \<Rightarrow> None
           | Some (data, written) \<Rightarrow>
               if scanned root p \<and> \<not> symlink (butlast p) \<and> \<not> symlink p \<and> written < clock s - seconds 3600
                  \<and> resolve p \<notin> live \<and> unlinks p
               then None else Some (data, written))\<rparr>)"

record gc_run =
  gc_unlinks :: "path \<Rightarrow> bool"
  gc_symlink :: "path \<Rightarrow> bool"
  gc_retired :: "path \<Rightarrow> commit_outcome"
  gc_files :: "string \<Rightarrow> commit_outcome"
  gc_uploads :: "string \<Rightarrow> commit_outcome"

(* artifacts/registry.py:324-361 gc_expired *)
definition gc_expired :: "(path \<Rightarrow> path) \<Rightarrow> path \<Rightarrow> gc_run \<Rightarrow> store \<Rightarrow> store \<times> (nat \<times> nat) option" where
  "gc_expired resolve root run s =
     (let s1 = collect_retired (gc_unlinks run) (gc_retired run) None s;
          expired = map f_id (filter (gone (clock s1)) (files s1))
      in case gc_loop (gc_file (gc_unlinks run)) (gc_files run) expired 0 s1 of
           (s2, None) \<Rightarrow> (s2, None)
         | (s2, Some removed) \<Rightarrow>
             (case gc_loop (\<lambda>k t. (gc_upload (gc_unlinks run) k t, 0)) (gc_uploads run)
                    (map u_id (filter (\<lambda>u. u_expires u \<le> clock s2) (uploads s2))) 0 s2 of
                (s3, None) \<Rightarrow> (s3, None)
              | (s3, Some _) \<Rightarrow>
                  (reconcile_orphans resolve root (gc_symlink run) (gc_unlinks run) s3, Some (length expired, removed))))"

end
