(* ===== verification/Transfers.thy ===== *)
theory Transfers
  imports Artifacts Concurrency
begin

text \<open>
  How bytes reach the artifact store and leave it (\<open>artifacts/tokens.py\<close>, \<open>uploads.py\<close>, \<open>routes.py\<close>):
  signed transfer capabilities, reservations of quota for an upload, the upload request as the steps
  between which other requests run, its completion, the download request, and the limiter of both
  routes. The JWT library is a pair of parameters, a token an abstract value; \<open>urlsplit\<close> is one too.
\<close>

section \<open>Transfer capabilities\<close>

record base_url =
  url_scheme :: string
  url_host :: "string option"
  url_user :: "string option"
  url_password :: "string option"
  url_query :: string
  url_fragment :: string

record site =
  site_key :: string
  site_base :: string
  site_auth_mode :: "string option"

(* artifacts/tokens.py:11-11 DEFAULT_TTL_SECONDS *)
definition DEFAULT_TTL_SECONDS :: int where
  "DEFAULT_TTL_SECONDS = 900"

definition truthy_text :: "string option \<Rightarrow> bool" where
  "truthy_text t \<longleftrightarrow> t \<noteq> None \<and> t \<noteq> Some []"

text \<open>\<open>base.rstrip("/")\<close>\<close>

definition strip_slashes :: "string \<Rightarrow> string" where
  "strip_slashes s = rev (dropWhile (\<lambda>c. c = CHR ''/'') (rev s))"

text \<open>\<open>Inl\<close> carries the message of the \<open>RuntimeError\<close>.\<close>

(* artifacts/tokens.py:14-27 require_configuration *)
definition require_configuration :: "(string \<Rightarrow> base_url) \<Rightarrow> site \<Rightarrow> (string, string) res" where
  "require_configuration urlsplit c =
     (let u = urlsplit (site_base c)
      in if length (site_key c) < 32 then Inl ''ARTIFACT_SIGNING_KEY must contain at least 32 bytes''
         else if site_base c = [] then Inl ''PRECIS_BASE_URL is required for artifact transfer''
         else if url_scheme u \<notin> {''http'', ''https''} \<or> \<not> truthy_text (url_host u) \<or> truthy_text (url_user u)
              \<or> truthy_text (url_password u) \<or> url_query u \<noteq> [] \<or> url_fragment u \<noteq> []
         then Inl ''Invalid artifact public base URL''
         else if url_scheme u \<noteq> ''https'' \<and> site_auth_mode c \<noteq> Some ''devkey''
              \<and> url_host u \<notin> {Some ''localhost'', Some ''127.0.0.1''}
         then Inl ''Public artifact transfer requires HTTPS''
         else Inr (strip_slashes (site_base c)))"

datatype purpose = Download | Upload

text \<open>\<open>f"precis-artifact-{purpose}-v1"\<close>: the audience of a token and the label of its key.\<close>

fun purpose_label :: "purpose \<Rightarrow> string" where
  "purpose_label Download = ''precis-artifact-download-v1''"
| "purpose_label Upload = ''precis-artifact-upload-v1''"

record claims =
  c_sub :: string
  c_object :: string
  c_audience :: string
  c_issued :: int
  c_expires :: int
  c_version :: "nat option"
  c_sha :: "string option"
  c_size :: "nat option"

text \<open>
  The signing service: \<open>hmac\<close>, \<open>jwt.encode\<close> and \<open>jwt.decode\<close>, which is given the key, the audience
  and the instant, and raises, \<^const>\<open>None\<close>, on a bad token.
\<close>

record 'tok signer =
  sg_hmac :: "string \<Rightarrow> string \<Rightarrow> string"
  sg_encode :: "claims \<Rightarrow> string \<Rightarrow> 'tok"
  sg_decode :: "'tok \<Rightarrow> string \<Rightarrow> string \<Rightarrow> int \<Rightarrow> claims option"

(* artifacts/tokens.py:30-34 _key *)
definition token_key :: "'tok signer \<Rightarrow> site \<Rightarrow> purpose \<Rightarrow> string" where
  "token_key sg c p = sg_hmac sg (site_key c) (purpose_label p)"

(* artifacts/tokens.py:37-43 make_token *)
definition make_token ::
  "'tok signer \<Rightarrow> (string \<Rightarrow> base_url) \<Rightarrow> site \<Rightarrow> purpose \<Rightarrow> string \<Rightarrow> string \<Rightarrow> nat option \<Rightarrow> string option \<Rightarrow> nat option
     \<Rightarrow> int \<Rightarrow> int \<Rightarrow> (string, 'tok) res" where
  "make_token sg urlsplit c p user object version sha bytes ttl now =
     (if ttl \<le> 0 \<or> ttl > DEFAULT_TTL_SECONDS then Inl ''Invalid transfer lifetime''
      else res_map (\<lambda>_. sg_encode sg \<lparr>c_sub = user, c_object = object, c_audience = purpose_label p, c_issued = now,
                          c_expires = now + seconds ttl, c_version = version, c_sha = sha, c_size = bytes\<rparr> (token_key sg c p))
             (require_configuration urlsplit c))"

(* artifacts/tokens.py:46-48 verify_token *)
definition verify_token :: "'tok signer \<Rightarrow> (string \<Rightarrow> base_url) \<Rightarrow> site \<Rightarrow> purpose \<Rightarrow> 'tok \<Rightarrow> int \<Rightarrow> claims option" where
  "verify_token sg urlsplit c p tok now =
     (case require_configuration urlsplit c of
        Inl _ \<Rightarrow> None
      | Inr _ \<Rightarrow> sg_decode sg tok (token_key sg c p) (purpose_label p) now)"

text \<open>The base, the purpose and the token of the URL.\<close>

(* artifacts/tokens.py:51-53 transfer_url *)
definition transfer_url ::
  "'tok signer \<Rightarrow> (string \<Rightarrow> base_url) \<Rightarrow> site \<Rightarrow> purpose \<Rightarrow> string \<Rightarrow> string \<Rightarrow> nat option \<Rightarrow> string option \<Rightarrow> nat option
     \<Rightarrow> int \<Rightarrow> int \<Rightarrow> (string, string \<times> purpose \<times> 'tok) res" where
  "transfer_url sg urlsplit c p user object version sha bytes ttl now =
     res_bind (make_token sg urlsplit c p user object version sha bytes ttl now) (\<lambda>tok.
       res_map (\<lambda>base. (base, p, tok)) (require_configuration urlsplit c))"

text \<open>The descriptor's capability: it ends with the file when that is sooner; \<open>int()\<close> drops a fraction.\<close>

(* artifacts/tokens.py:56-67 artifact_descriptor *)
definition artifact_descriptor ::
  "'tok signer \<Rightarrow> (string \<Rightarrow> base_url) \<Rightarrow> site \<Rightarrow> file_row \<Rightarrow> int \<Rightarrow> (string, (string \<times> purpose \<times> 'tok) \<times> int) res" where
  "artifact_descriptor sg urlsplit c row now =
     (let ttl = (case f_expires row of None \<Rightarrow> DEFAULT_TTL_SECONDS
                 | Some e \<Rightarrow> min DEFAULT_TTL_SECONDS ((e - now) div 1000000))
      in res_map (\<lambda>url. (url, now + seconds ttl))
           (transfer_url sg urlsplit c Download (f_user row) (f_id row) (Some (f_version row)) (Some (f_sha row)) None ttl now))"

section \<open>Reservations\<close>

record reservation =
  rs_id :: string
  rs_expires :: int
  rs_size :: nat

text \<open>\<open>token\<close> is drawn by \<open>secrets.token_hex(16)\<close>.\<close>

(* artifacts/uploads.py:18-26 begin_upload *)
definition reserve_upload ::
  "world \<Rightarrow> string \<Rightarrow> string \<Rightarrow> string \<Rightarrow> string \<Rightarrow> nat \<Rightarrow> store \<Rightarrow> store \<times> (artifact_error, upload_row) res" where
  "reserve_upload w token user filename mime n s =
     (case user_root (w_resolve w) (w_root w) user of
        Inl e \<Rightarrow> (s, Inl e)
      | Inr root \<Rightarrow>
          let uid = ''upload_'' @ token;
              row = \<lparr>u_id = uid, u_user = user, u_basename = filename, u_mime = mime, u_size = n,
                u_path = root @ [''artifact_staging'', uid], u_state = Pending, u_file = None,
                u_expires = clock s + seconds DEFAULT_TTL_SECONDS\<rparr>
          in if quota_used user None s + n > MAX_QUOTA_BYTES then (s, Inl QuotaExceeded)
             else if uid \<in> u_id ` set (uploads s) then (s, Inl DatabaseFault)
             else (commit (w_commit w) s (s\<lparr>uploads := uploads s @ [row]\<rparr>),
                   if w_commit w = CommitDone then Inr row else Inl DatabaseFault))"

text \<open>The size arrives as a JSON value.\<close>

(* artifacts/uploads.py:12-28 begin_upload *)
definition begin_upload ::
  "'tok signer \<Rightarrow> (string \<Rightarrow> base_url) \<Rightarrow> site \<Rightarrow> world \<Rightarrow> string \<Rightarrow> string \<Rightarrow> string \<Rightarrow> string \<Rightarrow> json \<Rightarrow> store
     \<Rightarrow> store \<times> (artifact_error, reservation \<times> (string \<times> purpose \<times> 'tok)) res" where
  "begin_upload sg urlsplit c w token user filename mime bytes s =
     (case require_configuration urlsplit c of
        Inl m \<Rightarrow> (s, Inl (NotConfigured m))
      | Inr _ \<Rightarrow>
          if \<not> valid_basename filename then (s, Inl InvalidBasename)
          else case validate_mime_type mime of
            None \<Rightarrow> (s, Inl (BadValue ''Invalid MIME type''))
          | Some mime' \<Rightarrow>
              (case bytes of
                 JNum n \<Rightarrow>
                   if n \<le> 0 \<or> n > int MAX_FILE_BYTES then (s, Inl FileTooLarge)
                   else (case reserve_upload w token user filename mime' (nat n) s of
                           (s', Inl e) \<Rightarrow> (s', Inl e)
                         | (s', Inr row) \<Rightarrow>
                             (s', res_wrap NotConfigured
                                    (res_map (Pair \<lparr>rs_id = u_id row, rs_expires = u_expires row, rs_size = nat n\<rparr>)
                                      (transfer_url sg urlsplit c Upload user (u_id row) None None (Some (nat n))
                                         DEFAULT_TTL_SECONDS (clock s)))))
               | _ \<Rightarrow> (s, Inl FileTooLarge)))"

(* artifacts/uploads.py:31-35 get_upload *)
definition get_upload :: "string \<Rightarrow> string \<Rightarrow> store \<Rightarrow> (artifact_error, upload_row) res" where
  "get_upload uid user s = res_of_option (FileNotFound ''Upload unavailable'') (find_upload uid user s)"

text \<open>
  Completion reads the reservation in one state, the staged bytes in another, and, when these are gone,
  the reservation again in a third: another completion may have finished in between. \<^const>\<open>Inl\<close> in the
  result is a file that is already registered.
\<close>

(* artifacts/uploads.py:38-59 complete_upload *)
definition read_staged :: "world \<Rightarrow> string \<Rightarrow> string \<Rightarrow> store \<Rightarrow> store \<Rightarrow> store \<Rightarrow> (artifact_error, file_row + upload_row \<times> string) res" where
  "read_staged w uid user s1 s2 s3 =
     res_bind (get_upload uid user s1) (\<lambda>u.
       if u_state u = Complete
       then res_bind (get_file w (case u_file u of None \<Rightarrow> [] | Some fid \<Rightarrow> fid) user s1) (\<lambda>found.
              res_of_option (FileNotFound ''Uploaded artifact unavailable'') (map_option Inl found))
       else if u_state u \<noteq> Uploaded then Inl (BadValue ''Upload bytes have not been received'')
       else (case disk s2 (u_path u) of
               None \<Rightarrow>
                 res_bind (get_upload uid user s3) (\<lambda>latest.
                   if u_state latest = Complete
                   then res_bind (get_file w (case u_file latest of None \<Rightarrow> [] | Some fid \<Rightarrow> fid) user s3) (\<lambda>found.
                          res_of_option (FileNotFound ''Upload bytes unavailable'') (map_option Inl found))
                   else Inl (FileNotFound ''Upload bytes unavailable''))
             | Some (data, _) \<Rightarrow>
                 let blob = take (Suc MAX_FILE_BYTES) data
                 in if length blob \<noteq> u_size u then Inl (BadValue ''Upload size mismatch'') else Inr (Inr (u, blob))))"

text \<open>Registration, after which the staged bytes go; failing to unlink them is not an error.\<close>

(* artifacts/uploads.py:60-68 complete_upload *)
definition register_staged :: "world \<Rightarrow> nat list \<Rightarrow> upload_row \<Rightarrow> string \<Rightarrow> store \<Rightarrow> store \<times> (artifact_error, file_row) res" where
  "register_staged w draws u blob s =
     (case create_file w draws (u_user u) (u_basename u) blob ''user_upload'' None (Some (clock s + seconds (24 * 3600)))
             (Some (u_mime u)) [] None (Some (u_id u)) s of
        (s', Inl e) \<Rightarrow> (s', Inl e)
      | (s', Inr row) \<Rightarrow> (try_unlink w (u_path u) s', Inr row))"

(* artifacts/uploads.py:38-68 complete_upload *)
definition complete_upload ::
  "world \<Rightarrow> nat list \<Rightarrow> string \<Rightarrow> string \<Rightarrow> (store \<Rightarrow> store) \<Rightarrow> store \<Rightarrow> store \<times> (artifact_error, file_row) res" where
  "complete_upload w draws uid user meanwhile s =
     (case read_staged w uid user s (meanwhile s) (meanwhile s) of
        Inl e \<Rightarrow> (meanwhile s, Inl e)
      | Inr (Inl row) \<Rightarrow> (meanwhile s, Inr row)
      | Inr (Inr (u, blob)) \<Rightarrow> register_staged w draws u blob (meanwhile s))"

section \<open>The upload request\<close>

text \<open>\<open>HTTPException\<close>, with its status.\<close>

type_synonym status = nat

(* artifacts/policy.py:13-17 external_uploads_enabled *)
definition external_uploads_enabled :: "(string \<Rightarrow> string option) \<Rightarrow> bool" where
  "external_uploads_enabled getenv \<longleftrightarrow>
     lower (strip (case getenv ''PRECIS_MCP_UPLOADS_ENABLED'' of None \<Rightarrow> [] | Some v \<Rightarrow> v)) \<in> {''1'', ''true'', ''yes''}"

text \<open>\<open>UPDATE ... WHERE state = 'pending' AND expires_at > now() RETURNING *\<close>\<close>

(* artifacts/routes.py:114-118 upload *)
definition claim_upload :: "string \<Rightarrow> string \<Rightarrow> store \<Rightarrow> store \<times> upload_row option" where
  "claim_upload uid user s =
     (let hit = (\<lambda>u. u_id u = uid \<and> u_user u = user \<and> u_state u = Pending \<and> clock s < u_expires u)
      in (s\<lparr>uploads := map (\<lambda>u. if hit u then u\<lparr>u_state := Receiving\<rparr> else u) (uploads s)\<rparr>,
          map_option (\<lambda>u. u\<lparr>u_state := Receiving\<rparr>) (List.find hit (uploads s))))"

text \<open>The sizes in the reservation, the capability and the \<open>Content-Length\<close> header agree.\<close>

(* artifacts/routes.py:124-129 upload *)
definition sizes_agree :: "upload_row \<Rightarrow> claims \<Rightarrow> string option \<Rightarrow> bool" where
  "sizes_agree u cl declared \<longleftrightarrow> c_size cl = Some (u_size u) \<and> u_size u \<le> MAX_FILE_BYTES
     \<and> (case declared of None \<Rightarrow> True | Some d \<Rightarrow> d \<noteq> [] \<and> digit_text d \<and> num_val d = u_size u)"

text \<open>A request in flight: the row it claimed, what it has written, whether the bytes are in place.\<close>

record handler =
  h_row :: upload_row
  h_received :: string
  h_replaced :: bool

(* artifacts/routes.py:119-121 upload *)
definition start_request :: "upload_row \<Rightarrow> handler" where
  "start_request u = \<lparr>h_row = u, h_received = [], h_replaced = False\<rparr>"

(* artifacts/routes.py:130-133 upload *)
definition open_temporary :: "handler \<Rightarrow> store \<Rightarrow> store" where
  "open_temporary h s = s\<lparr>disk := (disk s)(receiving (u_path (h_row h)) := Some ([], clock s))\<rparr>"

text \<open>One chunk of the body; \<^const>\<open>None\<close> is the 413 of a body longer than reserved.\<close>

(* artifacts/routes.py:134-138 upload *)
definition receive_chunk :: "string \<Rightarrow> handler \<Rightarrow> store \<Rightarrow> (store \<times> handler) option" where
  "receive_chunk chunk h s =
     (let got = h_received h @ chunk
      in if length got > u_size (h_row h) then None
         else Some (s\<lparr>disk := (disk s)(receiving (u_path (h_row h)) := Some (got, clock s))\<rparr>, h\<lparr>h_received := got\<rparr>))"

text \<open>The end of the body; \<^const>\<open>None\<close> is the 400 of a body shorter than reserved.\<close>

(* artifacts/routes.py:139-144 upload *)
definition place_bytes :: "handler \<Rightarrow> store \<Rightarrow> (store \<times> handler) option" where
  "place_bytes h s =
     (let p = u_path (h_row h)
      in if length (h_received h) \<noteq> u_size (h_row h) then None
         else Some (s\<lparr>disk := (disk s)(receiving p := None, p := Some (h_received h, clock s))\<rparr>, h\<lparr>h_replaced := True\<rparr>))"

(* artifacts/routes.py:145-149 upload *)
definition mark_uploaded :: "handler \<Rightarrow> store \<Rightarrow> store \<times> bool" where
  "mark_uploaded h s =
     (let hit = (\<lambda>u. u_id u = u_id (h_row h) \<and> u_user u = u_user (h_row h) \<and> u_state u = Receiving \<and> clock s < u_expires u)
      in (s\<lparr>uploads := map (\<lambda>u. if hit u then u\<lparr>u_state := Uploaded\<rparr> else u) (uploads s)\<rparr>, list_ex hit (uploads s)))"

text \<open>The exception handler, when the bytes are not in place: clean up and give the reservation back.\<close>

(* artifacts/routes.py:157-166 upload *)
definition abandon_upload :: "(path \<Rightarrow> bool) \<Rightarrow> handler \<Rightarrow> store \<Rightarrow> store" where
  "abandon_upload unlinks h s =
     (let p = u_path (h_row h);
          s1 = (if unlinks (receiving p) then unlink (receiving p) s else s);
          s2 = (if unlinks p then unlink p s1 else s1)
      in s2\<lparr>uploads := map (\<lambda>u. if u_id u = u_id (h_row h) \<and> u_user u = u_user (h_row h) \<and> u_state u = Receiving
                             then u\<lparr>u_state := Pending\<rparr> else u) (uploads s2)\<rparr>)"

text \<open>
  The whole request, run without interruption, on the chunks of its body and the outcomes of its last
  steps. \<open>stays\<close> is \<^const>\<open>False\<close> when the client goes away or the time is up before the body ends.
\<close>

fun receive_chunks :: "string list \<Rightarrow> handler \<Rightarrow> store \<Rightarrow> (store \<times> handler) \<times> bool" where
  "receive_chunks [] h s = ((s, h), True)"
| "receive_chunks (chunk # chunks) h s =
     (case receive_chunk chunk h s of None \<Rightarrow> ((s, h), False) | Some (s', h') \<Rightarrow> receive_chunks chunks h' s')"

(* artifacts/routes.py:106-169 upload *)
definition upload_request ::
  "(string \<Rightarrow> string option) \<Rightarrow> (path \<Rightarrow> bool) \<Rightarrow> claims option \<Rightarrow> string option \<Rightarrow> string list \<Rightarrow> bool \<Rightarrow> store \<Rightarrow> store \<times> status" where
  "upload_request getenv unlinks cl declared chunks stays s =
     (if \<not> external_uploads_enabled getenv then (s, 404)
      else case cl of
        None \<Rightarrow> (s, 404)
      | Some cl' \<Rightarrow>
          (case claim_upload (c_object cl') (c_sub cl') s of
             (s1, None) \<Rightarrow> (s1, 409)
           | (s1, Some u) \<Rightarrow>
               let h0 = start_request u
               in if \<not> sizes_agree u cl' declared then (abandon_upload unlinks h0 s1, 400)
                  else case receive_chunks chunks h0 (open_temporary h0 s1) of
                    ((s2, h), False) \<Rightarrow> (abandon_upload unlinks h s2, 413)
                  | ((s2, h), True) \<Rightarrow>
                      if \<not> stays then (abandon_upload unlinks h s2, 408)
                      else (case place_bytes h s2 of
                              None \<Rightarrow> (abandon_upload unlinks h s2, 400)
                            | Some (s3, h') \<Rightarrow>
                                (case mark_uploaded h' s3 of (s4, True) \<Rightarrow> (s4, 200) | (s4, False) \<Rightarrow> (s4, 410)))))"

section \<open>The download request\<close>

text \<open>
  \<open>registry.get_file\<close> runs under the context of the capability's user with the permissions loaded for
  this request. \<open>OSError\<close> and \<open>FileNotFoundError\<close> become the 404 of every other refusal; whatever else
  \<open>get_file\<close> raises is a 500.
\<close>

(* artifacts/routes.py:73-88 _download_bytes *)
definition download_bytes :: "world \<Rightarrow> claims \<Rightarrow> user_permissions \<Rightarrow> store \<Rightarrow> (status, file_row \<times> string) res" where
  "download_bytes w cl p s =
     (case get_file (w\<lparr>w_auth := Some \<lparr>auth_user = c_sub cl, auth_permissions = p\<rparr>\<rparr>) (c_object cl) (c_sub cl) s of
        Inl _ \<Rightarrow> Inl 500
      | Inr None \<Rightarrow> Inl 404
      | Inr (Some row) \<Rightarrow>
          if c_version cl \<noteq> Some (f_version row) \<or> c_sha cl \<noteq> Some (f_sha row) then Inl 404
          else (case disk s (f_path row) of
                  None \<Rightarrow> Inl 404
                | Some (data, _) \<Rightarrow>
                    let got = take (Suc MAX_FILE_BYTES) data
                    in if length got > MAX_FILE_BYTES \<or> w_digest w got \<noteq> f_sha row then Inl 404 else Inr (row, got)))"

text \<open>\<open>live\<close> loads the permissions of the capability's user; any failure is a 404.\<close>

(* artifacts/routes.py:64-70 _claims *)
definition request_claims ::
  "'tok signer \<Rightarrow> (string \<Rightarrow> base_url) \<Rightarrow> site \<Rightarrow> purpose \<Rightarrow> 'tok \<Rightarrow> int \<Rightarrow> (string \<Rightarrow> (auth_error, user_permissions) res)
     \<Rightarrow> (claims \<times> user_permissions) option" where
  "request_claims sg urlsplit c p tok now live =
     (case verify_token sg urlsplit c p tok now of
        None \<Rightarrow> None
      | Some cl \<Rightarrow> (case live (c_sub cl) of Inl _ \<Rightarrow> None | Inr perms \<Rightarrow> Some (cl, perms)))"

(* artifacts/routes.py:58-61 live_permissions *)
definition live_permissions ::
  "(string \<Rightarrow> string option) \<Rightarrow> (string \<Rightarrow> (auth_error, user_permissions) res) \<Rightarrow> string \<Rightarrow> (auth_error, user_permissions) res" where
  "live_permissions getenv load user =
     (if getenv ''PRECIS_AUTH_MODE'' = Some ''devkey'' \<and> getenv ''ENABLE_MCP_DEV_SERVER'' = Some ''1'' \<and> user = ''dev''
      then Inr \<lparr>perm_user = ''dev'', perm_admin = True, perm_scenarios = []\<rparr> else load user)"

(* artifacts/routes.py:91-98 download *)
definition download_request ::
  "'tok signer \<Rightarrow> (string \<Rightarrow> base_url) \<Rightarrow> site \<Rightarrow> world \<Rightarrow> (string \<Rightarrow> (auth_error, user_permissions) res) \<Rightarrow> 'tok \<Rightarrow> store
     \<Rightarrow> (status, file_row \<times> string) res" where
  "download_request sg urlsplit c w live tok s =
     (case request_claims sg urlsplit c Download tok (clock s) live of
        None \<Rightarrow> Inl 404
      | Some (cl, perms) \<Rightarrow> download_bytes w cl perms s)"

section \<open>The limiter of the routes\<close>

text \<open>
  A semaphore of two per user with the number of that user's requests, and one of four. Nothing awaits
  between the test and the acquisitions, so entering is one step, and so is leaving.
\<close>

(* artifacts/routes.py:21-22 _user_transfers *)
record transfer_slots =
  ts_users :: "(string, nat \<times> nat) dict"
  ts_free :: nat

(* artifacts/routes.py:27-35 transfer_slot *)
definition enter_slot :: "string \<Rightarrow> transfer_slots \<Rightarrow> transfer_slots option" where
  "enter_slot u s =
     (let (free, count) = dget_or (2, 0) (ts_users s) u
      in if free = 0 \<or> ts_free s = 0 then None
         else Some (s\<lparr>ts_users := dset u (free - 1, Suc count) (ts_users s), ts_free := ts_free s - 1\<rparr>))"

(* artifacts/routes.py:35-42 transfer_slot *)
definition leave_slot :: "string \<Rightarrow> transfer_slots \<Rightarrow> transfer_slots" where
  "leave_slot u s =
     (let (free, count) = dget_or (2, 0) (ts_users s) u
      in s\<lparr>ts_users := (if count = 1 then AList.delete u (ts_users s) else dset u (Suc free, count - 1) (ts_users s)),
           ts_free := Suc (ts_free s)\<rparr>)"

definition idle_slots :: transfer_slots where
  "idle_slots = \<lparr>ts_users = [], ts_free = 4\<rparr>"

text \<open>The slots after a run of requests, with the users of the requests still in flight.\<close>

inductive slots_run :: "string list \<Rightarrow> transfer_slots \<Rightarrow> bool" where
    slots_idle: "slots_run [] idle_slots"
  | slots_enter: "slots_run active s \<Longrightarrow> enter_slot u s = Some s' \<Longrightarrow> slots_run (u # active) s'"
  | slots_leave: "slots_run active s \<Longrightarrow> u \<in> set active \<Longrightarrow> slots_run (remove1 u active) (leave_slot u s)"

definition slots_match :: "string list \<Rightarrow> transfer_slots \<Rightarrow> bool" where
  "slots_match active s \<longleftrightarrow> wf_dict (ts_users s) \<and> length active + ts_free s = 4
     \<and> (\<forall>u. count_list active u \<le> 2
          \<and> dget (ts_users s) u = (if count_list active u = 0 then None else Some (2 - count_list active u, count_list active u)))"

lemma count_list_remove1: "count_list (remove1 u xs) v = count_list xs v - (if u = v then 1 else 0)"
  by (induction xs) auto

lemma slots_run_match: "slots_run active s \<Longrightarrow> slots_match active s"
proof (induction rule: slots_run.induct)
  case slots_idle
  then show ?case by (simp add: slots_match_def idle_slots_def)
next
  case (slots_enter active s u s')
  then have m: "count_list active u < 2" "dget_or (2, 0) (ts_users s) u = (2 - count_list active u, count_list active u)"
    "0 < ts_free s"
    by (auto simp: slots_match_def enter_slot_def dget_or_def Let_def split: if_splits)
  then have s': "s' = s\<lparr>ts_users := dset u (2 - count_list active u - 1, Suc (count_list active u)) (ts_users s), ts_free := ts_free s - 1\<rparr>"
    using slots_enter.hyps(2) by (simp add: enter_slot_def split: if_splits)
  note old = slots_enter.IH [unfolded slots_match_def]
  have "count_list (u # active) v \<le> 2 \<and> dget (ts_users s') v
      = (if count_list (u # active) v = 0 then None else Some (2 - count_list (u # active) v, count_list (u # active) v))" for v
    using m(1) old s' by (cases "v = u") (simp_all add: dget_dset)
  moreover have "wf_dict (ts_users s')" "length (u # active) + ts_free s' = 4"
    using old m(3) s' wf_dict_dset by auto
  ultimately show ?case unfolding slots_match_def by blast
next
  case (slots_leave active s u)
  then have c: "0 < count_list active u" using count_list_0_iff by (metis neq0_conv)
  then have d: "dget_or (2, 0) (ts_users s) u = (2 - count_list active u, count_list active u)" "0 < length active"
    using slots_leave by (auto simp: slots_match_def dget_or_def)
  note old = slots_leave.IH [unfolded slots_match_def]
  have two: "count_list active u \<le> 2" using old by blast
  let ?s = "leave_slot u s"
  have s': "ts_users ?s = (if count_list active u = 1 then AList.delete u (ts_users s)
      else dset u (Suc (2 - count_list active u), count_list active u - 1) (ts_users s))" "ts_free ?s = Suc (ts_free s)"
    by (simp_all add: leave_slot_def d(1))
  have "count_list (remove1 u active) v \<le> 2 \<and> dget (ts_users ?s) v
      = (if count_list (remove1 u active) v = 0 then None else Some (2 - count_list (remove1 u active) v, count_list (remove1 u active) v))" for v
  proof (cases "v = u")
    case True
    have "count_list active u = 1 \<or> count_list active u = 2" using c two by linarith
    then show ?thesis by (auto simp: True s'(1) count_list_remove1 AList.delete_conv' dget_dset)
  next
    case False
    have "dget (ts_users s) v = (if count_list active v = 0 then None else Some (2 - count_list active v, count_list active v))"
      and "count_list active v \<le> 2"
      using old by blast+
    then show ?thesis using False by (simp add: s'(1) count_list_remove1 AList.delete_conv' dget_dset)
  qed
  moreover have "wf_dict (ts_users ?s)"
    using old by (simp add: s'(1) wf_dict_dset) (simp add: wf_dict_def AList.distinct_delete)
  moreover have "length (remove1 u active) + ts_free ?s = 4"
  proof -
    have "length (remove1 u active) = length active - 1" using slots_leave.hyps(2) by (simp add: length_remove1)
    moreover have "length active + ts_free s = 4" using old by blast
    ultimately show ?thesis using d(2) unfolding s'(2) by linarith
  qed
  ultimately show ?case unfolding slots_match_def by blast
qed

end
