(* ===== verification/ArtifactSafety.thy ===== *)
theory ArtifactSafety
  imports Transfers
begin

text \<open>
  The artifact store under every interleaving of its operations: transactions, upload requests step by
  step, completions between whose reads and transaction other requests run, collection and the orphan
  sweep, each with any outcome of its effects. The theorems bound the storage of a user, show that the
  blob of a file that can be read is intact, and that a file made from an upload holds the bytes the
  upload delivered. Identifiers and version tokens drawn by \<open>secrets\<close> are fresh.
\<close>

section \<open>Runs\<close>

text \<open>
  Beside the store: the upload requests in flight, the completions that have read a reservation and
  perhaps its bytes, and the record of what each upload delivered: its path and bytes when it was marked.
\<close>

record system =
  sys_store :: store
  requests :: "handler list"
  completions :: "(upload_row \<times> string option) list"
  delivered :: "(string \<times> path \<times> string) list"

definition used_ids :: "system \<Rightarrow> string set" where
  "used_ids y = u_id ` set (uploads (sys_store y)) \<union> (\<lambda>h. u_id (h_row h)) ` set (requests y)
     \<union> (\<lambda>c. u_id (fst c)) ` set (completions y) \<union> fst ` set (delivered y)"

definition fits :: "(path \<Rightarrow> path) \<Rightarrow> path \<Rightarrow> (string \<Rightarrow> string) \<Rightarrow> bool \<Rightarrow> world \<Rightarrow> bool" where
  "fits resolve root digest lost w \<longleftrightarrow> w_resolve w = resolve \<and> w_root w = root \<and> w_digest w = digest
     \<and> (w_commit w = CommitLost \<longrightarrow> lost)"

definition fresh_file :: "(path \<Rightarrow> path) \<Rightarrow> path \<Rightarrow> nat list \<Rightarrow> string \<Rightarrow> store \<Rightarrow> bool" where
  "fresh_file resolve root draws user s \<longleftrightarrow> length draws = 26 \<and> generate_file_id draws \<notin> f_id ` set (files s)
     \<and> (\<forall>p. blob_path resolve root user (generate_file_id draws) = Inr p \<longrightarrow> p \<notin> referenced s)"

definition fresh_version :: "string \<Rightarrow> string \<Rightarrow> string \<Rightarrow> store \<Rightarrow> bool" where
  "fresh_version token fid user s \<longleftrightarrow> token \<noteq> [] \<and> list_all is_hex token
     \<and> (\<forall>row. find_file fid user s = Some row \<longrightarrow> version_path row token \<notin> referenced s)"

text \<open>\<open>lost\<close>: whether a commit may succeed on the server and be reported as failed.\<close>

inductive reach :: "(path \<Rightarrow> path) \<Rightarrow> path \<Rightarrow> (string \<Rightarrow> string) \<Rightarrow> bool \<Rightarrow> system \<Rightarrow> bool"
  for resolve root digest lost where
    started: "reach resolve root digest lost
      \<lparr>sys_store = empty_store now, requests = [], completions = [], delivered = []\<rparr>"
  | ticked: "reach resolve root digest lost y \<Longrightarrow> clock (sys_store y) \<le> now
      \<Longrightarrow> reach resolve root digest lost (y\<lparr>sys_store := (sys_store y)\<lparr>clock := now\<rparr>\<rparr>)"
  | reserved: "reach resolve root digest lost y \<Longrightarrow> fits resolve root digest lost w
      \<Longrightarrow> token \<noteq> [] \<Longrightarrow> list_all is_hex token \<Longrightarrow> ''upload_'' @ token \<notin> used_ids y \<Longrightarrow> 0 < n \<Longrightarrow> n \<le> MAX_FILE_BYTES
      \<Longrightarrow> reserve_upload w token user filename mime n (sys_store y) = (s', r)
      \<Longrightarrow> reach resolve root digest lost (y\<lparr>sys_store := s'\<rparr>)"
  | created: "reach resolve root digest lost y \<Longrightarrow> fits resolve root digest lost w
      \<Longrightarrow> fresh_file resolve root draws user (sys_store y)
      \<Longrightarrow> create_file w draws user basename blob source tool expires mime provenance access None (sys_store y) = (s', r)
      \<Longrightarrow> reach resolve root digest lost (y\<lparr>sys_store := s'\<rparr>)"
  | updated: "reach resolve root digest lost y \<Longrightarrow> fits resolve root digest lost w
      \<Longrightarrow> fresh_version token fid user (sys_store y)
      \<Longrightarrow> update_transaction w token fid user blob tool expected (sys_store y) = (s', r)
      \<Longrightarrow> reach resolve root digest lost (y\<lparr>sys_store := s'\<rparr>)"
  | deleted: "reach resolve root digest lost y
      \<Longrightarrow> reach resolve root digest lost (y\<lparr>sys_store := fst (soft_delete fid user (sys_store y))\<rparr>)"
  | collected: "reach resolve root digest lost y \<Longrightarrow> (commits p = CommitLost \<longrightarrow> lost)
      \<Longrightarrow> reach resolve root digest lost (y\<lparr>sys_store := collect_one unlinks commits (sys_store y) p\<rparr>)"
  | file_collected: "reach resolve root digest lost y \<Longrightarrow> (c = CommitLost \<longrightarrow> lost)
      \<Longrightarrow> reach resolve root digest lost (y\<lparr>sys_store := commit c (sys_store y) (fst (gc_file unlinks fid (sys_store y)))\<rparr>)"
  | upload_collected: "reach resolve root digest lost y \<Longrightarrow> (c = CommitLost \<longrightarrow> lost)
      \<Longrightarrow> reach resolve root digest lost (y\<lparr>sys_store := commit c (sys_store y) (gc_upload unlinks uid (sys_store y))\<rparr>)"
  | swept: "reach resolve root digest lost y
      \<Longrightarrow> reach resolve root digest lost (y\<lparr>sys_store := reconcile_orphans resolve root symlink unlinks (sys_store y)\<rparr>)"
  | claimed: "reach resolve root digest lost y \<Longrightarrow> claim_upload uid user (sys_store y) = (s', Some u)
      \<Longrightarrow> reach resolve root digest lost (y\<lparr>sys_store := s', requests := start_request u # requests y\<rparr>)"
  | claim_cancelled: "reach resolve root digest lost y
      \<Longrightarrow> reach resolve root digest lost (y\<lparr>sys_store := fst (claim_upload uid user (sys_store y))\<rparr>)"
  | opened: "reach resolve root digest lost y \<Longrightarrow> requests y = hs @ h # hs' \<Longrightarrow> \<not> h_replaced h
      \<Longrightarrow> reach resolve root digest lost (y\<lparr>sys_store := open_temporary h (sys_store y)\<rparr>)"
  | received: "reach resolve root digest lost y \<Longrightarrow> requests y = hs @ h # hs' \<Longrightarrow> \<not> h_replaced h
      \<Longrightarrow> receive_chunk chunk h (sys_store y) = Some (s', h')
      \<Longrightarrow> reach resolve root digest lost (y\<lparr>sys_store := s', requests := hs @ h' # hs'\<rparr>)"
  | placed: "reach resolve root digest lost y \<Longrightarrow> requests y = hs @ h # hs' \<Longrightarrow> \<not> h_replaced h
      \<Longrightarrow> place_bytes h (sys_store y) = Some (s', h')
      \<Longrightarrow> reach resolve root digest lost (y\<lparr>sys_store := s', requests := hs @ h' # hs'\<rparr>)"
  | marked: "reach resolve root digest lost y \<Longrightarrow> requests y = hs @ h # hs' \<Longrightarrow> h_replaced h
      \<Longrightarrow> mark_uploaded h (sys_store y) = (s', hit)
      \<Longrightarrow> reach resolve root digest lost (y\<lparr>sys_store := s', requests := hs @ hs',
            delivered := (if hit then (u_id (h_row h), u_path (h_row h), h_received h) # delivered y else delivered y)\<rparr>)"
  | mark_failed: "reach resolve root digest lost y \<Longrightarrow> requests y = hs @ h # hs' \<Longrightarrow> h_replaced h
      \<Longrightarrow> reach resolve root digest lost (y\<lparr>requests := hs @ hs'\<rparr>)"
  | abandoned: "reach resolve root digest lost y \<Longrightarrow> requests y = hs @ h # hs' \<Longrightarrow> \<not> h_replaced h
      \<Longrightarrow> reach resolve root digest lost (y\<lparr>sys_store := abandon_upload unlinks h (sys_store y), requests := hs @ hs'\<rparr>)"
  | completion_started: "reach resolve root digest lost y \<Longrightarrow> get_upload uid user (sys_store y) = Inr u \<Longrightarrow> u_state u = Uploaded
      \<Longrightarrow> reach resolve root digest lost (y\<lparr>completions := (u, None) # completions y\<rparr>)"
  | bytes_read: "reach resolve root digest lost y \<Longrightarrow> completions y = cs @ (u, None) # cs'
      \<Longrightarrow> disk (sys_store y) (u_path u) = Some (data, t) \<Longrightarrow> length (take (Suc MAX_FILE_BYTES) data) = u_size u
      \<Longrightarrow> reach resolve root digest lost (y\<lparr>completions := cs @ (u, Some (take (Suc MAX_FILE_BYTES) data)) # cs'\<rparr>)"
  | registered: "reach resolve root digest lost y \<Longrightarrow> completions y = cs @ (u, Some blob) # cs' \<Longrightarrow> fits resolve root digest lost w
      \<Longrightarrow> fresh_file resolve root draws (u_user u) (sys_store y)
      \<Longrightarrow> register_staged w draws u blob (sys_store y) = (s', r)
      \<Longrightarrow> reach resolve root digest lost (y\<lparr>sys_store := s', completions := cs @ cs'\<rparr>)"
  | completion_ended: "reach resolve root digest lost y \<Longrightarrow> completions y = cs @ c # cs'
      \<Longrightarrow> reach resolve root digest lost (y\<lparr>completions := cs @ cs'\<rparr>)"

section \<open>Paths\<close>

definition blob_like :: "path \<Rightarrow> bool" where
  "blob_like p \<longleftrightarrow> 2 \<le> length p \<and> last (butlast p) = ''blobs'' \<and> \<not> endswith (last p) ''.receiving''"

definition staged_like :: "path \<Rightarrow> bool" where
  "staged_like p \<longleftrightarrow> 2 \<le> length p \<and> last (butlast p) = ''artifact_staging'' \<and> CHR ''.'' \<notin> set (last p)"

lemma endswith_suffix: "endswith s t \<Longrightarrow> \<exists>a. s = a @ t"
  by (metis append_take_drop_id endswith_def)

lemma path_suffix_no_dot [simp]: "CHR ''.'' \<notin> set s \<Longrightarrow> path_suffix s = []"
  by (simp add: path_suffix_def Let_def)

lemma receiving_last: "endswith (last (receiving p)) ''.receiving''"
  unfolding receiving_def by (simp only: last_snoc endswith_append)

lemma receiving_staged: "staged_like p \<Longrightarrow> receiving p = butlast p @ [last p @ ''.receiving'']"
  by (simp add: receiving_def staged_like_def strip_suffix_def)

lemma staged_not_receiving: "staged_like p \<Longrightarrow> p \<noteq> receiving q"
  using receiving_last [of q] endswith_suffix [of "last p" "''.receiving''"] by (force simp: staged_like_def)

lemma blob_not_receiving: "blob_like p \<Longrightarrow> p \<noteq> receiving q"
  using receiving_last [of q] by (auto simp: blob_like_def)

lemma blob_not_staged: "blob_like p \<Longrightarrow> staged_like q \<Longrightarrow> p \<noteq> q"
  by (auto simp: blob_like_def staged_like_def)

lemma receiving_inj: "staged_like p \<Longrightarrow> staged_like q \<Longrightarrow> receiving p = receiving q \<Longrightarrow> p = q"
  by (auto simp: receiving_staged staged_like_def) (metis append_butlast_last_id length_greater_0_conv list.size(3) not_numeral_le_zero)

lemma hex_not_dot: "is_hex c \<Longrightarrow> c \<noteq> CHR ''.''"
  by (auto simp: is_hex_def is_digit_def)

lemma hex_not_g: "is_hex c \<Longrightarrow> c \<noteq> CHR ''g''"
  by (auto simp: is_hex_def is_digit_def)

lemma file_id_no_dot: "CHR ''.'' \<notin> set (generate_file_id draws)"
proof -
  have "ALPHABET ! (d mod 32) \<in> set ALPHABET" for d
    by (rule nth_mem) (simp add: ALPHABET_def)
  moreover have "CHR ''.'' \<notin> set ALPHABET" by (simp add: ALPHABET_def)
  ultimately show ?thesis by (auto simp: generate_file_id_def)
qed

lemma blob_path_like:
  assumes "blob_path resolve root user (generate_file_id draws) = Inr p"
  shows "blob_like p"
proof -
  obtain q where p: "p = q @ [''blobs'', generate_file_id draws]"
    using assms by (auto simp: blob_path_def res_simps split: if_splits)
  have "\<not> endswith (generate_file_id draws) ''.receiving''"
  proof
    assume "endswith (generate_file_id draws) ''.receiving''"
    then obtain a where "generate_file_id draws = a @ ''.receiving''" using endswith_suffix by blast
    then have "CHR ''.'' \<in> set (generate_file_id draws)" by simp
    then show False using file_id_no_dot by blast
  qed
  then show ?thesis by (simp add: p blob_like_def butlast_append)
qed

lemma version_path_like:
  assumes "blob_like (f_path row)" and "token \<noteq> []" and "list_all is_hex token"
  shows "blob_like (version_path row token)"
proof -
  let ?name = "f_id row @ ''.'' @ nat_text (Suc (f_version row)) @ ''.'' @ token"
  have "last ?name = last token" using assms(2) by simp
  moreover have "is_hex (last token)" using assms(2,3) by (simp add: list_all_iff)
  ultimately have "last ?name \<noteq> CHR ''g''" using hex_not_g by metis
  moreover have "last (a @ ''.receiving'') = CHR ''g''" for a by simp
  ultimately have "\<not> endswith ?name ''.receiving''" using endswith_suffix by metis
  moreover have "2 \<le> length (version_path row token)" using assms(1) by (simp add: version_path_def blob_like_def) linarith
  ultimately show ?thesis using assms(1) by (simp add: version_path_def blob_like_def)
qed

section \<open>The store invariant\<close>

definition tables_ok :: "store \<Rightarrow> bool" where
  "tables_ok s \<longleftrightarrow> distinct (map f_id (files s)) \<and> distinct (map u_id (uploads s))
     \<and> distinct (map f_path (files s) @ map g_path (retired s))
     \<and> (\<forall>row\<in>set (files s). blob_like (f_path row) \<and> f_size row \<le> MAX_FILE_BYTES)
     \<and> (\<forall>g\<in>set (retired s). blob_like (g_path g))
     \<and> (\<forall>u\<in>set (uploads s). staged_like (u_path u) \<and> last (u_path u) = u_id u \<and> u_size u \<le> MAX_FILE_BYTES)"

definition intact :: "(string \<Rightarrow> string) \<Rightarrow> store \<Rightarrow> bool" where
  "intact digest s \<longleftrightarrow> (\<forall>row\<in>set (files s). visible (clock s) row
     \<longrightarrow> (\<exists>b t. disk s (f_path row) = Some (b, t) \<and> digest b = f_sha row \<and> length b = f_size row))"

text \<open>What a user occupies beside retired versions.\<close>

definition live_used :: "string \<Rightarrow> store \<Rightarrow> nat" where
  "live_used user s = (\<Sum>row\<leftarrow>filter (\<lambda>row. f_user row = user) (files s). f_size row)
     + (\<Sum>row\<leftarrow>filter (\<lambda>row. u_user row = user \<and> u_state row \<noteq> Complete) (uploads s). u_size row)"

lemma quota_live: "quota_used user None s = live_used user s + (\<Sum>row\<leftarrow>filter (\<lambda>row. g_user row = user) (retired s). g_size row)"
  by (simp add: quota_used_def live_used_def)

definition bounded :: "store \<Rightarrow> bool" where
  "bounded s \<longleftrightarrow> (\<forall>user. live_used user s \<le> MAX_QUOTA_BYTES \<and> quota_used user None s \<le> MAX_QUOTA_BYTES + MAX_FILE_BYTES)"

definition ok :: "(string \<Rightarrow> string) \<Rightarrow> bool \<Rightarrow> store \<Rightarrow> bool" where
  "ok digest lost s \<longleftrightarrow> tables_ok s \<and> (\<not> lost \<longrightarrow> intact digest s) \<and> bounded s"

lemma visible_earlier: "visible now' row \<Longrightarrow> now \<le> now' \<Longrightarrow> visible now row"
  by (auto simp: visible_def split: option.splits)

text \<open>The blobs of the readable files are untouched when neither the rows nor their blobs change.\<close>

lemma intact_frame:
  assumes "intact digest s"
    and "\<And>row. row \<in> set (files s') \<Longrightarrow> visible (clock s') row
      \<Longrightarrow> row \<in> set (files s) \<and> visible (clock s) row \<and> disk s' (f_path row) = disk s (f_path row)"
  shows "intact digest s'"
  using assms unfolding intact_def by metis

text \<open>Steps of an upload change states and staged paths only.\<close>

lemma ok_staging:
  assumes o: "ok digest lost s"
    and u: "uploads s' = map f (uploads s)"
      "\<And>u. u_id (f u) = u_id u \<and> u_path (f u) = u_path u \<and> u_size (f u) = u_size u \<and> u_user (f u) = u_user u
         \<and> (u_state (f u) = Complete \<longleftrightarrow> u_state u = Complete)"
    and rest: "files s' = files s" "retired s' = retired s" "clock s \<le> clock s'"
    and d: "\<And>p. blob_like p \<Longrightarrow> disk s' p = disk s p"
  shows "ok digest lost s'"
proof -
  have ids: "map u_id (uploads s') = map u_id (uploads s)" by (simp add: u comp_def)
  have t: "tables_ok s'"
    using o u(2) unfolding ok_def tables_ok_def rest ids by (simp add: u(1))
  have "intact digest s'" if "\<not> lost"
  proof (rule intact_frame)
    show "intact digest s" using o that by (simp add: ok_def)
    show "row \<in> set (files s) \<and> visible (clock s) row \<and> disk s' (f_path row) = disk s (f_path row)"
      if "row \<in> set (files s')" "visible (clock s') row" for row
      using that rest d o visible_earlier [OF that(2) rest(3)] by (auto simp: ok_def tables_ok_def)
  qed
  moreover have "live_used user s' = live_used user s" for user
    by (simp add: live_used_def rest u filter_map comp_def)
  ultimately show ?thesis using t o by (simp add: ok_def bounded_def quota_live rest)
qed

section \<open>Each transaction keeps the invariant\<close>

text \<open>Adding or removing rows, with their bytes.\<close>

lemma quota_cong:
  "files s' = files s \<Longrightarrow> uploads s' = uploads s \<Longrightarrow> retired s' = retired s \<Longrightarrow> quota_used user x s' = quota_used user x s"
  by (simp add: quota_used_def)

lemma live_cong: "files s' = files s \<Longrightarrow> uploads s' = uploads s \<Longrightarrow> live_used user s' = live_used user s"
  by (simp add: live_used_def)

lemma live_append_upload:
  "live_used user (s\<lparr>uploads := uploads s @ [row]\<rparr>)
    = live_used user s + (if u_user row = user \<and> u_state row \<noteq> Complete then u_size row else 0)"
  by (simp add: live_used_def)

lemma commit_same_tables: "commit c s (s\<lparr>uploads := us\<rparr>) = (if c = CommitFailed then s else s\<lparr>uploads := us\<rparr>)"
  by (simp add: commit_def)

lemma reserve_ok:
  assumes o: "ok digest lost s" and r: "reserve_upload w token user filename mime n s = (s', r)"
    and hex: "list_all is_hex token" and n: "n \<le> MAX_FILE_BYTES"
  shows "ok digest lost s'"
proof (cases "s' = s")
  case True
  then show ?thesis using o by simp
next
  case False
  then obtain root where root: "user_root (w_resolve w) (w_root w) user = Inr root"
    using r by (auto simp: reserve_upload_def split: sum.splits)
  define row where "row = \<lparr>u_id = ''upload_'' @ token, u_user = user, u_basename = filename, u_mime = mime, u_size = n,
    u_path = root @ [''artifact_staging'', ''upload_'' @ token], u_state = Pending, u_file = None,
    u_expires = clock s + seconds DEFAULT_TTL_SECONDS\<rparr>"
  have q: "quota_used user None s + n \<le> MAX_QUOTA_BYTES" and new: "''upload_'' @ token \<notin> u_id ` set (uploads s)"
    and s': "s' = s\<lparr>uploads := uploads s @ [row]\<rparr>"
    using r False by (auto simp: reserve_upload_def root Let_def row_def commit_same_tables split: if_splits)
  have nodot: "CHR ''.'' \<notin> set (''upload_'' @ token)" using hex hex_not_dot by (auto simp: list_all_iff)
  have "staged_like (u_path row)" "last (u_path row) = u_id row"
    using nodot by (simp_all add: row_def staged_like_def butlast_append)
  then have "tables_ok s'"
    using o new n by (simp add: ok_def tables_ok_def s' row_def)
  moreover have "intact digest s'" if "\<not> lost" using o that by (simp add: ok_def intact_def s')
  moreover have "bounded s'"
    using o q by (auto simp: ok_def bounded_def s' live_append_upload quota_live row_def)
  ultimately show ?thesis by (simp add: ok_def)
qed

lemma quota_complete_row:
  "(\<Sum>u\<leftarrow>filter (\<lambda>u. u_user u = user \<and> u_state u \<noteq> Complete) (map (complete_row uid fid) us). u_size u)
    = (\<Sum>u\<leftarrow>filter (\<lambda>u. u_user u = user \<and> u_state u \<noteq> Complete \<and> u_id u \<noteq> uid) us. u_size u)"
  by (induction us) (auto simp: complete_row_def)

lemma sum_filter_le:
  fixes f :: "'a \<Rightarrow> nat"
  shows "(\<And>x. P x \<Longrightarrow> Q x) \<Longrightarrow> (\<Sum>x\<leftarrow>filter P xs. f x) \<le> (\<Sum>x\<leftarrow>filter Q xs. f x)"
  by (induction xs) (auto simp: add_increasing)

definition completed_uploads :: "string option \<Rightarrow> string \<Rightarrow> upload_row list \<Rightarrow> upload_row list" where
  "completed_uploads upload fid us = (case upload of None \<Rightarrow> us | Some uid \<Rightarrow> map (complete_row uid fid) us)"

lemma quota_insert:
  assumes "files s' = files s @ [row]" and "retired s' = retired s" and "uploads s' = completed_uploads upload fid (uploads s)"
  shows "quota_used user None s' \<le> quota_used user upload s + (if f_user row = user then f_size row else 0)"
    and "f_user row \<noteq> user \<Longrightarrow> live_used user s' \<le> live_used user s"
proof -
  show "quota_used user None s' \<le> quota_used user upload s + (if f_user row = user then f_size row else 0)"
    by (cases upload) (simp_all add: quota_used_def assms completed_uploads_def quota_complete_row)
  show "live_used user s' \<le> live_used user s" if "f_user row \<noteq> user"
    using that by (cases upload) (auto simp: live_used_def assms completed_uploads_def quota_complete_row intro!: sum_filter_le)
qed

lemma completed_uploads_ids:
  "map u_id (completed_uploads upload fid us) = map u_id us"
  "u \<in> set (completed_uploads upload fid us) \<Longrightarrow> \<exists>u0\<in>set us. u_path u = u_path u0 \<and> u_id u = u_id u0 \<and> u_size u = u_size u0"
  by (auto simp: completed_uploads_def complete_row_def comp_def split: option.splits)

text \<open>A store whose tables are the old ones and whose disk differs at unreferenced blobs only.\<close>

lemma ok_same_tables:
  assumes o: "ok digest lost s"
    and same: "files s' = files s" "uploads s' = uploads s" "retired s' = retired s" "clock s' = clock s"
    and d: "\<And>p. p \<in> f_path ` set (files s) \<Longrightarrow> disk s' p = disk s p"
  shows "ok digest lost s'"
proof -
  have "intact digest s'" if "\<not> lost"
    by (rule intact_frame [of _ s]) (use o that d same in \<open>auto simp: ok_def\<close>)
  then show ?thesis using o by (simp add: ok_def tables_ok_def bounded_def quota_cong [OF same(1-3)] live_cong [OF same(1,2)] same)
qed

lemma insert_file_cases:
  assumes r: "insert_file w row blob upload s = (s', r)"
  obtains (unchanged) "files s' = files s" and "uploads s' = uploads s" and "retired s' = retired s" and "clock s' = clock s"
      and "\<And>p. p \<noteq> f_path row \<Longrightarrow> disk s' p = disk s p" and "is_ok r \<Longrightarrow> False"
  | (inserted) "files s' = files s @ [row]" and "uploads s' = completed_uploads upload (f_id row) (uploads s)"
      and "retired s' = retired s" and "clock s' = clock s" and "f_id row \<notin> f_id ` set (files s)"
      and "quota_used (f_user row) upload s + length blob \<le> MAX_QUOTA_BYTES"
      and "\<And>p. p \<noteq> f_path row \<Longrightarrow> disk s' p = disk s p"
      and "w_commit w \<noteq> CommitLost \<Longrightarrow> disk s' (f_path row) = Some (blob, clock s) \<and> r = Inr row" and "\<And>x. r = Inr x \<Longrightarrow> x = row"
proof -
  let ?s1 = "write_atomic (w_write w) (f_path row) blob s"
  have s1: "files ?s1 = files s" "uploads ?s1 = uploads s" "retired ?s1 = retired s" "clock ?s1 = clock s"
    "p \<noteq> f_path row \<Longrightarrow> disk ?s1 p = disk s p" for p
    by (simp_all add: write_atomic_def)
  have at: "w_write w = WriteDone \<Longrightarrow> disk ?s1 (f_path row) = Some (blob, clock s)" by (simp add: write_atomic_def)
  have un: "files (try_unlink w (f_path row) t) = files t" "uploads (try_unlink w (f_path row) t) = uploads t"
    "retired (try_unlink w (f_path row) t) = retired t" "clock (try_unlink w (f_path row) t) = clock t"
    "p \<noteq> f_path row \<Longrightarrow> disk (try_unlink w (f_path row) t) p = disk t p" for t p
    by (simp_all add: try_unlink_def unlink_def)
  show thesis
  proof (cases "quota_used (f_user row) upload s + length blob > MAX_QUOTA_BYTES \<or> w_write w \<noteq> WriteDone
      \<or> f_id row \<in> f_id ` set (files s)")
    case True
    then have "(s' = s \<or> s' = ?s1 \<or> s' = try_unlink w (f_path row) ?s1) \<and> \<not> is_ok r"
      using r s1(1) by (auto simp: insert_file_def Let_def split: if_splits)
    then show thesis using that(1) s1 un by metis
  next
    case False
    define s2 where "s2 = ?s1\<lparr>files := files s @ [row], uploads := completed_uploads upload (f_id row) (uploads s)\<rparr>"
    have s': "(s', r) = (if w_commit w = CommitDone then (commit (w_commit w) ?s1 s2, Inr row)
        else (try_unlink w (f_path row) (commit (w_commit w) ?s1 s2), Inl DatabaseFault))"
      using r False s1(1,2) unfolding insert_file_def s2_def completed_uploads_def by (auto simp: Let_def split: if_splits)
    have t: "files (commit c ?s1 s2) = (if c = CommitFailed then files s else files s @ [row])"
      "uploads (commit c ?s1 s2) = (if c = CommitFailed then uploads s else completed_uploads upload (f_id row) (uploads s))"
      "retired (commit c ?s1 s2) = retired s" "clock (commit c ?s1 s2) = clock s" "disk (commit c ?s1 s2) = disk ?s1" for c
      by (simp_all add: commit_def s2_def s1)
    show thesis
    proof (cases "w_commit w = CommitFailed")
      case True
      then show thesis using s' by (intro that(1)) (simp_all add: un t s1)
    next
      case nofail: False
      show thesis
      proof (rule that(2))
        show "files s' = files s @ [row]" "uploads s' = completed_uploads upload (f_id row) (uploads s)" "retired s' = retired s"
          "clock s' = clock s" "p \<noteq> f_path row \<Longrightarrow> disk s' p = disk s p" "r = Inr x \<Longrightarrow> x = row" for p x
          using s' nofail by (simp_all add: un t s1 split: if_splits)
        show "disk s' (f_path row) = Some (blob, clock s) \<and> r = Inr row" if "w_commit w \<noteq> CommitLost"
        proof -
          have "w_commit w = CommitDone" using that nofail by (cases "w_commit w") auto
          then have "disk s' = disk ?s1" "r = Inr row" using s' t(5) by simp_all
          then show ?thesis using at False by metis
        qed
      qed (use False in auto)
    qed
  qed
qed

lemma insert_ok:
  assumes o: "ok digest lost s" and r: "insert_file w row blob upload s = (s', r)"
    and lost: "w_commit w = CommitLost \<longrightarrow> lost"
    and row: "f_path row \<notin> referenced s" "blob_like (f_path row)" "f_size row = length blob" "length blob \<le> MAX_FILE_BYTES"
      "f_sha row = digest blob"
  shows "ok digest lost s'"
  using r
proof (cases rule: insert_file_cases)
  case unchanged
  then have "disk s' p = disk s p" if "p \<in> f_path ` set (files s)" for p
    using row(1) that by (metis UnCI referenced_def)
  then show ?thesis using ok_same_tables [OF o unchanged(1-4)] by blast
next
  case inserted
  have t: "tables_ok s'"
    using o row(1-4) inserted(1-5) completed_uploads_ids [where us = "uploads s"]
    by (simp add: ok_def tables_ok_def referenced_def) metis
  have "intact digest s'" if "\<not> lost"
  proof -
    have at: "disk s' (f_path row) = Some (blob, clock s)" using inserted(8) lost that by blast
    have "disk s' (f_path x) = disk s (f_path x)" if "x \<in> set (files s)" for x
      using inserted(7) row(1) that by (metis UnCI imageI referenced_def)
    then show ?thesis
      using o that at row(3,5) unfolding ok_def intact_def by (auto simp: inserted(1,4))
  qed
  moreover have "bounded s'"
    unfolding bounded_def
  proof
    fix user
    have old: "live_used user s \<le> MAX_QUOTA_BYTES" "quota_used user None s \<le> MAX_QUOTA_BYTES + MAX_FILE_BYTES"
      using o by (auto simp: ok_def bounded_def)
    show "live_used user s' \<le> MAX_QUOTA_BYTES \<and> quota_used user None s' \<le> MAX_QUOTA_BYTES + MAX_FILE_BYTES"
    proof (cases "f_user row = user")
      case True
      then have "quota_used user None s' \<le> MAX_QUOTA_BYTES"
        using quota_insert(1) [OF inserted(1,3,2), of user] inserted(6) row(3) by simp
      then show ?thesis unfolding quota_live by simp
    next
      case False
      then show ?thesis using quota_insert(2) [OF inserted(1,3,2) False] old unfolding quota_live inserted(3) by simp
    qed
  qed
  ultimately show ?thesis using t by (simp add: ok_def)
qed

lemma create_ok:
  assumes o: "ok digest lost s" and w: "fits resolve root digest lost w" and f: "fresh_file resolve root draws user s"
    and c: "create_file w draws user basename blob source tool expires mime provenance access upload s = (s', r)"
  shows "ok digest lost s'"
proof (cases "s' = s")
  case True
  then show ?thesis using o by simp
next
  case False
  then obtain row where row: "insert_file w row blob upload s = (s', r)" "length blob \<le> MAX_FILE_BYTES"
    "blob_path (w_resolve w) (w_root w) user (generate_file_id draws) = Inr (f_path row)"
    "f_size row = length blob" "f_sha row = w_digest w blob"
    using c by (auto simp: create_file_def Let_def split: if_splits option.splits sum.splits)
  then have "f_path row \<notin> referenced s" "blob_like (f_path row)"
    using f w blob_path_like by (auto simp: fresh_file_def fits_def)
  then show ?thesis using insert_ok [OF o row(1)] row w by (simp add: fits_def)
qed

lemma find_file_Some:
  assumes "find_file fid user s = Some row"
  shows "row \<in> set (files s)" and "f_id row = fid" and "f_user row = user" and "visible (clock s) row"
  using find_SomeD [OF assms [unfolded find_file_def]] by auto

lemma map_replace_none: "f_id row \<notin> f_id ` set xs \<Longrightarrow> map (\<lambda>r. if f_id r = f_id row then row' else r) xs = xs"
  by (induction xs) auto

lemma map_replace_one:
  assumes "distinct (map f_id (xs @ row # ys))"
  shows "map (\<lambda>r. if f_id r = f_id row then row' else r) (xs @ row # ys) = xs @ row' # ys"
  using assms by (simp add: map_replace_none)

lemma replace_blob_cases:
  assumes r: "replace_blob w token row access blob tool s = (s', r)"
  obtains (unchanged) "files s' = files s" and "uploads s' = uploads s" and "retired s' = retired s" and "clock s' = clock s"
      and "\<And>p. p \<noteq> version_path row token \<Longrightarrow> disk s' p = disk s p" and "is_ok r \<Longrightarrow> False"
  | (replaced) row' where "row' = row\<lparr>f_size := length blob, f_sha := w_digest w blob, f_updated := clock s,
        f_version := Suc (f_version row), f_tool := (case tool of None \<Rightarrow> f_tool row | Some t \<Rightarrow> Some t),
        f_path := version_path row token, f_access := Some access\<rparr>"
      and "files s' = map (\<lambda>r. if f_id r = f_id row then row' else r) (files s)" and "uploads s' = uploads s"
      and "retired s' = retired s @ [\<lparr>g_path = f_path row, g_user = f_user row, g_size = f_size row\<rparr>]" and "clock s' = clock s"
      and "int (quota_used (f_user row) None s) - int (f_size row) + int (length blob) \<le> int MAX_QUOTA_BYTES"
      and "\<And>p. p \<noteq> version_path row token \<Longrightarrow> disk s' p = disk s p"
      and "w_commit w \<noteq> CommitLost \<Longrightarrow> disk s' (version_path row token) = Some (blob, clock s) \<and> r = Inr row'"
      and "\<And>x. r = Inr x \<Longrightarrow> x = row'"
proof -
  let ?p = "version_path row token"
  let ?s1 = "write_atomic (w_write w) ?p blob s"
  have s1: "files ?s1 = files s" "uploads ?s1 = uploads s" "retired ?s1 = retired s" "clock ?s1 = clock s"
    "p \<noteq> ?p \<Longrightarrow> disk ?s1 p = disk s p" for p
    by (simp_all add: write_atomic_def)
  have at: "w_write w = WriteDone \<Longrightarrow> disk ?s1 ?p = Some (blob, clock s)" by (simp add: write_atomic_def)
  have un: "files (try_unlink w ?p t) = files t" "uploads (try_unlink w ?p t) = uploads t"
    "retired (try_unlink w ?p t) = retired t" "clock (try_unlink w ?p t) = clock t"
    "p \<noteq> ?p \<Longrightarrow> disk (try_unlink w ?p t) p = disk t p" for t p
    by (simp_all add: try_unlink_def unlink_def)
  show thesis
  proof (cases "int (quota_used (f_user row) None s) - int (f_size row) + int (length blob) > int MAX_QUOTA_BYTES
      \<or> w_write w \<noteq> WriteDone \<or> f_path row \<in> g_path ` set (retired s)")
    case True
    then have "(s' = s \<or> s' = ?s1 \<or> s' = try_unlink w ?p ?s1) \<and> \<not> is_ok r"
      using r s1(3) by (auto simp: replace_blob_def Let_def split: if_splits)
    then show thesis using that(1) s1 un by metis
  next
    case False
    define row' where "row' = row\<lparr>f_size := length blob, f_sha := w_digest w blob, f_updated := clock s,
        f_version := Suc (f_version row), f_tool := (case tool of None \<Rightarrow> f_tool row | Some t \<Rightarrow> Some t),
        f_path := ?p, f_access := Some access\<rparr>"
    define s2 where "s2 = ?s1\<lparr>files := map (\<lambda>r. if f_id r = f_id row then row' else r) (files s),
        retired := retired s @ [\<lparr>g_path = f_path row, g_user = f_user row, g_size = f_size row\<rparr>]\<rparr>"
    have s': "(s', r) = (if w_commit w = CommitDone then (commit (w_commit w) ?s1 s2, Inr row')
        else (try_unlink w ?p (commit (w_commit w) ?s1 s2), Inl DatabaseFault))"
      using r False s1(3) unfolding replace_blob_def s2_def row'_def by (auto simp: Let_def split: if_splits)
    have t: "files (commit c ?s1 s2) = (if c = CommitFailed then files s else map (\<lambda>r. if f_id r = f_id row then row' else r) (files s))"
      "retired (commit c ?s1 s2) = (if c = CommitFailed then retired s
         else retired s @ [\<lparr>g_path = f_path row, g_user = f_user row, g_size = f_size row\<rparr>])"
      "uploads (commit c ?s1 s2) = uploads s" "clock (commit c ?s1 s2) = clock s" "disk (commit c ?s1 s2) = disk ?s1" for c
      by (simp_all add: commit_def s2_def s1)
    show thesis
    proof (cases "w_commit w = CommitFailed")
      case True
      then show thesis using s' by (intro that(1)) (simp_all add: un t s1)
    next
      case nofail: False
      show thesis
      proof (rule that(2) [OF row'_def])
        show "files s' = map (\<lambda>r. if f_id r = f_id row then row' else r) (files s)" "uploads s' = uploads s"
          "retired s' = retired s @ [\<lparr>g_path = f_path row, g_user = f_user row, g_size = f_size row\<rparr>]"
          "clock s' = clock s" "p \<noteq> ?p \<Longrightarrow> disk s' p = disk s p" "r = Inr x \<Longrightarrow> x = row'" for p x
          using s' nofail by (simp_all add: un t s1 split: if_splits)
        show "disk s' ?p = Some (blob, clock s) \<and> r = Inr row'" if "w_commit w \<noteq> CommitLost"
        proof -
          have "w_commit w = CommitDone" using that nofail by (cases "w_commit w") auto
          then have "disk s' = disk ?s1" "r = Inr row'" using s' t(5) by simp_all
          then show ?thesis using at False by metis
        qed
      qed (use False in auto)
    qed
  qed
qed

lemma sum_list_split_row:
  "(\<Sum>r\<leftarrow>filter P (xs @ row # ys). f_size r)
    = (\<Sum>r\<leftarrow>filter P (xs @ ys). f_size r) + (if P row then f_size row else 0)"
  by simp

lemma replace_ok:
  assumes o: "ok digest lost s" and r: "replace_blob w token row access blob tool s = (s', r)"
    and w: "w_digest w = digest" "w_commit w = CommitLost \<longrightarrow> lost"
    and row: "row \<in> set (files s)" and n: "length blob \<le> MAX_FILE_BYTES"
    and p: "version_path row token \<notin> referenced s" "blob_like (version_path row token)"
  shows "ok digest lost s'"
  using r
proof (cases rule: replace_blob_cases)
  case unchanged
  then have "disk s' q = disk s q" if "q \<in> f_path ` set (files s)" for q
    using p(1) that by (metis UnCI referenced_def)
  then show ?thesis using ok_same_tables [OF o unchanged(1-4)] by blast
next
  case (replaced row')
  obtain xs ys where split: "files s = xs @ row # ys" using row by (meson split_list)
  have dist: "distinct (map f_id (xs @ row # ys))" using o split by (simp add: ok_def tables_ok_def)
  have files': "files s' = xs @ row' # ys" using replaced(2) map_replace_one [OF dist] split by simp
  have row': "f_id row' = f_id row" "f_user row' = f_user row" "f_size row' = length blob" "f_path row' = version_path row token"
    "f_sha row' = digest blob" "f_expires row' = f_expires row" "f_deleted row' = f_deleted row"
    by (simp_all add: replaced(1) w(1))
  have new: "version_path row token \<notin> f_path ` set (xs @ ys)" "version_path row token \<notin> g_path ` set (retired s)"
    "version_path row token \<noteq> f_path row"
    using p(1) by (auto simp: referenced_def split)
  have t: "tables_ok s'"
    using o dist new row' p(2) n unfolding ok_def tables_ok_def files' replaced(3,4) split by auto
  have "intact digest s'" if "\<not> lost"
    unfolding intact_def
  proof (intro ballI impI)
    fix x assume x: "x \<in> set (files s')" "visible (clock s') x"
    show "\<exists>b t. disk s' (f_path x) = Some (b, t) \<and> digest b = f_sha x \<and> length b = f_size x"
    proof (cases "x = row'")
      case True
      then show ?thesis using replaced(8) w(2) that row' by auto
    next
      case False
      then have old: "x \<in> set (xs @ ys)" using x(1) files' by auto
      then have "disk s' (f_path x) = disk s (f_path x)" using replaced(7) new(1) by (metis image_eqI)
      then show ?thesis using o that old x(2) unfolding ok_def intact_def split by (auto simp: replaced(5))
    qed
  qed
  moreover have "bounded s'"
    unfolding bounded_def
  proof
    fix user
    have size: "f_size row \<le> MAX_FILE_BYTES" using o row by (auto simp: ok_def tables_ok_def)
    have "live_used user s' + (if f_user row = user then f_size row else 0)
        = live_used user s + (if f_user row = user then length blob else 0)"
      by (simp add: live_used_def files' replaced(3) split row')
    moreover have "quota_used user None s' + (if f_user row = user then f_size row else 0)
        = quota_used user None s + (if f_user row = user then length blob + f_size row else 0)"
      by (simp add: quota_used_def files' replaced(3,4) split row')
    moreover have "live_used user s \<le> quota_used user None s" by (simp add: quota_live)
    ultimately show "live_used user s' \<le> MAX_QUOTA_BYTES \<and> quota_used user None s' \<le> MAX_QUOTA_BYTES + MAX_FILE_BYTES"
      using o replaced(6) size by (cases "f_user row = user") (auto simp: ok_def bounded_def)
  qed
  ultimately show ?thesis using t by (simp add: ok_def)
qed

lemma update_ok:
  assumes o: "ok digest lost s" and w: "fits resolve root digest lost w" and f: "fresh_version token fid user s"
    and c: "update_transaction w token fid user blob tool expected s = (s', r)"
  shows "ok digest lost s'"
proof (cases "s' = s")
  case True
  then show ?thesis using o by simp
next
  case False
  then obtain row access where row: "find_file fid user s = Some row" "length blob \<le> MAX_FILE_BYTES"
    "replace_blob w token row access blob tool s = (s', r)"
    using c by (auto simp: update_transaction_def split: if_splits option.splits sum.splits)
  have "blob_like (f_path row)" using o find_file_Some(1) [OF row(1)] by (auto simp: ok_def tables_ok_def)
  then show ?thesis
    using replace_ok [OF o row(3) _ _ find_file_Some(1) [OF row(1)] row(2)] w f row(1) version_path_like
    by (auto simp: fits_def fresh_version_def)
qed

text \<open>Marking rows as deleted, and removing rows with whatever they keep on disk.\<close>

lemma ok_marked:
  assumes o: "ok digest lost s"
    and f: "files s' = map f (files s)"
      "\<And>r. r \<in> set (files s) \<Longrightarrow> f_id (f r) = f_id r \<and> f_path (f r) = f_path r \<and> f_size (f r) = f_size r \<and> f_user (f r) = f_user r"
      "\<And>r. r \<in> set (files s) \<Longrightarrow> visible (clock s) (f r) \<Longrightarrow> f r = r \<and> disk s' (f_path r) = disk s (f_path r)"
    and same: "uploads s' = uploads s" "retired s' = retired s" "clock s' = clock s"
  shows "ok digest lost s'"
proof -
  have ids: "map f_id (files s') = map f_id (files s)" and paths: "map f_path (files s') = map f_path (files s)"
    using f(2) by (simp_all add: f(1))
  have t: "tables_ok s'"
    using o f(2) unfolding ok_def tables_ok_def ids same map_append paths by (auto simp: f(1))
  have "intact digest s'" if "\<not> lost"
  proof (rule intact_frame)
    show "intact digest s" using o that by (simp add: ok_def)
    show "row \<in> set (files s) \<and> visible (clock s) row \<and> disk s' (f_path row) = disk s (f_path row)"
      if in': "row \<in> set (files s')" and vis: "visible (clock s') row" for row
    proof -
      obtain r where r: "r \<in> set (files s)" "row = f r" using in' by (auto simp: f(1))
      then have "f r = r" "disk s' (f_path r) = disk s (f_path r)" using f(3) [OF r(1)] vis by (auto simp: same)
      then show ?thesis using r vis by (simp add: same)
    qed
  qed
  moreover have "(\<Sum>r\<leftarrow>filter (\<lambda>r. f_user r = user) (map f rs). f_size r) = (\<Sum>r\<leftarrow>filter (\<lambda>r. f_user r = user) rs. f_size r)"
    if "set rs \<subseteq> set (files s)" for user rs
    using that f(2) by (induction rs) auto
  then have "live_used user s' = live_used user s" for user
    by (simp add: live_used_def f(1) same)
  ultimately show ?thesis using t o by (simp add: ok_def bounded_def quota_live same)
qed

lemma delete_ok: "ok digest lost s \<Longrightarrow> ok digest lost (fst (soft_delete fid user s))"
  by (rule ok_marked [where f = "\<lambda>row. if f_id row = fid \<and> f_user row = user \<and> f_deleted row = None
        then row\<lparr>f_deleted := Some (clock s)\<rparr> else row"])
     (auto simp: soft_delete_def Let_def visible_def split: if_splits)

text \<open>Fewer rows, and a disk that changes only away from the readable files that are left.\<close>

lemma ok_fewer:
  assumes o: "ok digest lost s"
    and f: "files s' = filter P (files s)" "retired s' = filter Q (retired s)"
    and u: "uploads s' = map g (filter R (uploads s))"
      "\<And>u. u_id (g u) = u_id u \<and> u_path (g u) = u_path u \<and> u_size (g u) = u_size u \<and> u_user (g u) = u_user u \<and> u_state (g u) = u_state u"
    and c: "clock s' = clock s"
    and d: "\<And>row. row \<in> set (files s') \<Longrightarrow> visible (clock s) row \<Longrightarrow> disk s' (f_path row) = disk s (f_path row)"
  shows "ok digest lost s'"
proof -
  have ids: "map u_id (uploads s') = map u_id (filter R (uploads s))" by (simp add: u comp_def)
  have "distinct (map f_path (files s')) \<and> distinct (map g_path (retired s'))
      \<and> f_path ` set (files s') \<inter> g_path ` set (retired s') = {}"
    using o unfolding f ok_def tables_ok_def by (auto intro: distinct_map_filter)
  then have t: "tables_ok s'"
    using o u(2) unfolding ok_def tables_ok_def ids by (auto simp: f u(1) intro: distinct_map_filter)
  have "intact digest s'" if "\<not> lost"
    by (rule intact_frame [of _ s]) (use o that d in \<open>auto simp: ok_def f c\<close>)
  moreover have "live_used user s' \<le> live_used user s" for user
  proof -
    have "(\<Sum>u\<leftarrow>filter (\<lambda>u. u_user u = user \<and> u_state u \<noteq> Complete) (map g (filter R (uploads s))). u_size u)
        = (\<Sum>u\<leftarrow>filter (\<lambda>u. R u \<and> u_user u = user \<and> u_state u \<noteq> Complete) (uploads s). u_size u)"
      by (simp add: filter_map comp_def u(2) conj_commute)
    also have "\<dots> \<le> (\<Sum>u\<leftarrow>filter (\<lambda>u. u_user u = user \<and> u_state u \<noteq> Complete) (uploads s). u_size u)"
      by (rule sum_filter_le) simp
    finally show ?thesis
      unfolding live_used_def f u(1) filter_filter
      by (intro add_mono sum_filter_le) auto
  qed
  moreover have "(\<Sum>g\<leftarrow>filter (\<lambda>g. g_user g = user) (retired s'). g_size g)
      \<le> (\<Sum>g\<leftarrow>filter (\<lambda>g. g_user g = user) (retired s). g_size g)" for user
    unfolding f filter_filter by (rule sum_filter_le) simp
  ultimately show ?thesis
    using t o unfolding ok_def bounded_def quota_live by (meson add_mono order_trans)
qed

lemma collect_one_ok:
  assumes o: "ok digest lost s"
  shows "ok digest lost (collect_one unlinks commits s p)"
proof (cases "p \<in> g_path ` set (retired s) \<and> unlinks p")
  case True
  let ?s' = "collect_one unlinks commits s p"
  have s': "files ?s' = files s" "uploads ?s' = uploads s" "clock ?s' = clock s" "disk ?s' = (disk s)(p := None)"
    "retired ?s' = filter (\<lambda>g. commits p = CommitFailed \<or> g_path g \<noteq> p) (retired s)"
    using True by (auto simp: collect_one_def commit_def unlink_def Let_def)
  have "p \<notin> f_path ` set (files s)" using o True by (auto simp: ok_def tables_ok_def)
  then show ?thesis
    using s' by (intro ok_fewer [OF o, where P = "\<lambda>_. True" and g = id and R = "\<lambda>_. True"]) auto
next
  case False
  then show ?thesis using o by (auto simp: collect_one_def)
qed

lemma gone_not_visible: "gone now row \<Longrightarrow> \<not> visible now row"
  by (auto simp: gone_def visible_def split: option.splits)

lemma gc_file_ok:
  assumes o: "ok digest lost s"
  shows "ok digest lost (commit c s (fst (gc_file unlinks fid s)))"
proof (cases "List.find (\<lambda>row. f_id row = fid \<and> gone (clock s) row) (files s)")
  case None
  then show ?thesis using o by (simp add: gc_file_def commit_def)
next
  case (Some row)
  then have row: "row \<in> set (files s)" "f_id row = fid" "gone (clock s) row" using find_SomeD by fastforce+
  let ?t = "fst (gc_file unlinks fid s)" and ?both = "unlinks (f_path row) \<and> unlinks (receiving (f_path row))"
  have t: "clock ?t = clock s" "retired ?t = retired s"
    "uploads ?t = (if ?both then map (\<lambda>u. if u_file u = Some fid then u\<lparr>u_file := None\<rparr> else u) (uploads s) else uploads s)"
    "files ?t = (if ?both then filter (\<lambda>r. f_id r \<noteq> fid) (files s)
       else map (\<lambda>r. if f_id r = fid then r\<lparr>f_deleted := (case f_deleted r of None \<Rightarrow> Some (clock s) | Some t \<Rightarrow> Some t)\<rparr> else r) (files s))"
    "q \<noteq> f_path row \<Longrightarrow> q \<noteq> receiving (f_path row) \<Longrightarrow> disk ?t q = disk s q" for q
    using Some by (auto simp: gc_file_def Let_def unlink_def)
  have one: "r = row" if "r \<in> set (files s)" "f_id r = fid" for r
    using o that row(1,2) by (metis distinct_map inj_onD ok_def tables_ok_def)
  have away: "disk ?t (f_path r) = disk s (f_path r)" if "r \<in> set (files s)" "visible (clock s) r" for r
  proof (rule t(5))
    have "r \<noteq> row" using that(2) row(3) gone_not_visible by blast
    then show "f_path r \<noteq> f_path row"
      using o that(1) row(1) by (auto simp: ok_def tables_ok_def distinct_map inj_on_def)
    show "f_path r \<noteq> receiving (f_path row)"
      using o that(1) blob_not_receiving by (auto simp: ok_def tables_ok_def)
  qed
  show ?thesis
  proof (cases "c = CommitFailed")
    case True
    then show ?thesis
      using away t(1) by (intro ok_fewer [OF o, where P = "\<lambda>_. True" and Q = "\<lambda>_. True" and g = id and R = "\<lambda>_. True"])
        (auto simp: commit_def)
  next
    case False
    then have c: "commit c s ?t = ?t" by (simp add: commit_def)
    show ?thesis
    proof (cases ?both)
      case True
      then show ?thesis unfolding c
        using t away
        by (intro ok_fewer [OF o, where P = "\<lambda>r. f_id r \<noteq> fid" and Q = "\<lambda>_. True" and R = "\<lambda>_. True"
              and g = "\<lambda>u. if u_file u = Some fid then u\<lparr>u_file := None\<rparr> else u"]) auto
    next
      case False
      show ?thesis unfolding c
      proof (rule ok_marked [OF o])
        show "files ?t = map (\<lambda>r. if f_id r = fid
            then r\<lparr>f_deleted := (case f_deleted r of None \<Rightarrow> Some (clock s) | Some t \<Rightarrow> Some t)\<rparr> else r) (files s)"
          using False t(4) by (simp only: if_False)
        show "(if f_id r = fid then r\<lparr>f_deleted := (case f_deleted r of None \<Rightarrow> Some (clock s) | Some t \<Rightarrow> Some t)\<rparr> else r) = r
          \<and> disk ?t (f_path r) = disk s (f_path r)"
          if "r \<in> set (files s)" "visible (clock s) (if f_id r = fid
            then r\<lparr>f_deleted := (case f_deleted r of None \<Rightarrow> Some (clock s) | Some t \<Rightarrow> Some t)\<rparr> else r)" for r
          using that away [of r] by (auto simp: visible_def split: if_splits option.splits)
      qed (use False t in auto)
    qed
  qed
qed

lemma gc_upload_ok:
  assumes o: "ok digest lost s"
  shows "ok digest lost (commit c s (gc_upload unlinks uid s))"
proof (cases "List.find (\<lambda>row. u_id row = uid \<and> u_expires row \<le> clock s) (uploads s)")
  case None
  then show ?thesis using o by (simp add: gc_upload_def commit_def)
next
  case (Some row)
  then have row: "row \<in> set (uploads s)" using find_SomeD by fastforce
  then have st: "staged_like (u_path row)" using o by (auto simp: ok_def tables_ok_def)
  let ?t = "gc_upload unlinks uid s" and ?both = "unlinks (u_path row) \<and> unlinks (receiving (u_path row))"
  have t: "clock ?t = clock s" "retired ?t = retired s" "files ?t = files s"
    "uploads ?t = (if ?both then filter (\<lambda>r. u_id r \<noteq> uid) (uploads s) else uploads s)"
    "q \<noteq> u_path row \<Longrightarrow> q \<noteq> receiving (u_path row) \<Longrightarrow> disk ?t q = disk s q" for q
    using Some by (auto simp: gc_upload_def Let_def unlink_def)
  have away: "disk ?t (f_path r) = disk s (f_path r)" if "r \<in> set (files s)" for r
    using o that st blob_not_receiving blob_not_staged by (intro t(5)) (auto simp: ok_def tables_ok_def)
  have c: "files (commit c s ?t) = files s" "retired (commit c s ?t) = retired s" "clock (commit c s ?t) = clock s"
    "disk (commit c s ?t) = disk ?t"
    "uploads (commit c s ?t) = filter (\<lambda>r. c = CommitFailed \<or> \<not> ?both \<or> u_id r \<noteq> uid) (uploads s)"
    using t by (auto simp: commit_def)
  show ?thesis
    using c away by (intro ok_fewer [OF o, where P = "\<lambda>_. True" and Q = "\<lambda>_. True" and g = id
        and R = "\<lambda>r. c = CommitFailed \<or> \<not> ?both \<or> u_id r \<noteq> uid"]) auto
qed

lemma reconcile_keeps:
  assumes "p \<in> referenced s"
  shows "disk (reconcile_orphans resolve root symlink unlinks s) p = disk s p"
  using assms by (auto simp: reconcile_orphans_def Let_def split: option.splits)

lemma reconcile_ok:
  assumes o: "ok digest lost s"
  shows "ok digest lost (reconcile_orphans resolve root symlink unlinks s)"
proof (rule ok_same_tables [OF o])
  show "disk (reconcile_orphans resolve root symlink unlinks s) p = disk s p" if "p \<in> f_path ` set (files s)" for p
    using that by (intro reconcile_keeps) (auto simp: referenced_def)
qed (simp_all add: reconcile_orphans_def Let_def)

lemma claim_ok: "ok digest lost s \<Longrightarrow> ok digest lost (fst (claim_upload uid user s))"
  by (rule ok_staging [where f = "\<lambda>u. if u_id u = uid \<and> u_user u = user \<and> u_state u = Pending \<and> clock s < u_expires u
        then u\<lparr>u_state := Receiving\<rparr> else u"])
     (auto simp: claim_upload_def Let_def)

lemma claim_row:
  assumes "claim_upload uid user s = (s', Some u)"
  obtains u0 where "u0 \<in> set (uploads s)" and "u = u0\<lparr>u_state := Receiving\<rparr>" and "u_id u0 = uid" and "u_user u0 = user"
    and "u_state u0 = Pending" and "clock s < u_expires u0"
  using assms by (auto simp: claim_upload_def Let_def dest: find_SomeD)

lemma ok_staged_disk:
  assumes o: "ok digest lost s" and u: "staged_like (u_path u)"
    and d: "\<And>p. p \<noteq> u_path u \<Longrightarrow> p \<noteq> receiving (u_path u) \<Longrightarrow> f p = disk s p"
  shows "ok digest lost (s\<lparr>disk := f\<rparr>)"
  using u d blob_not_receiving blob_not_staged by (intro ok_staging [OF o, where f = id]) auto

lemma mark_ok: "ok digest lost s \<Longrightarrow> ok digest lost (fst (mark_uploaded h s))"
  by (rule ok_staging [where f = "\<lambda>u. if u_id u = u_id (h_row h) \<and> u_user u = u_user (h_row h) \<and> u_state u = Receiving
        \<and> clock s < u_expires u then u\<lparr>u_state := Uploaded\<rparr> else u"])
     (auto simp: mark_uploaded_def Let_def)

lemma abandon_disk:
  "p \<noteq> u_path (h_row h) \<Longrightarrow> p \<noteq> receiving (u_path (h_row h)) \<Longrightarrow> disk (abandon_upload unlinks h s) p = disk s p"
  by (simp add: abandon_upload_def Let_def unlink_def)

lemma abandon_ok:
  assumes o: "ok digest lost s" and u: "staged_like (u_path (h_row h))"
  shows "ok digest lost (abandon_upload unlinks h s)"
proof (rule ok_staging [OF o])
  show "uploads (abandon_upload unlinks h s) = map (\<lambda>u. if u_id u = u_id (h_row h) \<and> u_user u = u_user (h_row h)
      \<and> u_state u = Receiving then u\<lparr>u_state := Pending\<rparr> else u) (uploads s)"
    by (simp add: abandon_upload_def Let_def unlink_def)
  show "disk (abandon_upload unlinks h s) p = disk s p" if "blob_like p" for p
    using that u blob_not_receiving blob_not_staged by (intro abandon_disk) auto
qed (auto simp: abandon_upload_def Let_def unlink_def)

lemma register_ok:
  assumes o: "ok digest lost s" and w: "fits resolve root digest lost w" and f: "fresh_file resolve root draws (u_user u) s"
    and u: "staged_like (u_path u)" and c: "register_staged w draws u blob s = (s', r)"
  shows "ok digest lost s'"
proof -
  obtain s1 r1 where s1: "create_file w draws (u_user u) (u_basename u) blob ''user_upload'' None
      (Some (clock s + seconds (24 * 3600))) (Some (u_mime u)) [] None (Some (u_id u)) s = (s1, r1)"
    by fastforce
  then have "ok digest lost s1" using create_ok [OF o w f] by blast
  moreover have "s' = s1 \<or> s' = s1\<lparr>disk := (disk s1)(u_path u := None)\<rparr>"
    using c s1 by (auto simp: register_staged_def try_unlink_def unlink_def split: sum.splits if_splits)
  ultimately show ?thesis using ok_staged_disk [OF _ u, of digest lost s1 "(disk s1)(u_path u := None)"] by auto
qed

section \<open>The store invariant of every run\<close>

definition in_flight_staged :: "system \<Rightarrow> bool" where
  "in_flight_staged y \<longleftrightarrow> (\<forall>h\<in>set (requests y). staged_like (u_path (h_row h)))
     \<and> (\<forall>c\<in>set (completions y). staged_like (u_path (fst c)))"

lemma empty_ok: "ok digest lost (empty_store now)"
  by (simp add: ok_def tables_ok_def intact_def bounded_def empty_store_def quota_used_def live_used_def)

lemma reach_store_ok:
  "reach resolve root digest lost y \<Longrightarrow> ok digest lost (sys_store y) \<and> in_flight_staged y"
proof (induction rule: reach.induct)
  case (started now)
  then show ?case by (simp add: empty_ok in_flight_staged_def)
next
  case (ticked y now)
  have "ok digest lost ((sys_store y)\<lparr>clock := now\<rparr>)"
    by (rule ok_staging [OF conjunct1 [OF ticked.IH], where f = id]) (use ticked.hyps in auto)
  then show ?case using ticked by (simp add: in_flight_staged_def)
next
  case (reserved y w token n user filename mime s' r)
  then show ?case using reserve_ok [OF _ reserved.hyps(8,4,7)] by (simp add: in_flight_staged_def)
next
  case (created y w draws user basename blob source tool expires mime provenance access s' r)
  then show ?case using create_ok [OF _ created.hyps(2,3,4)] by (simp add: in_flight_staged_def)
next
  case (updated y w token fid user blob tool expected s' r)
  then show ?case using update_ok [OF _ updated.hyps(2,3,4)] by (simp add: in_flight_staged_def)
next
  case (deleted y fid user)
  then show ?case using delete_ok by (simp add: in_flight_staged_def)
next
  case (collected y commits p unlinks)
  then show ?case using collect_one_ok by (simp add: in_flight_staged_def)
next
  case (file_collected y c unlinks fid)
  then show ?case using gc_file_ok by (simp add: in_flight_staged_def)
next
  case (upload_collected y c unlinks uid)
  then show ?case using gc_upload_ok by (simp add: in_flight_staged_def)
next
  case (swept y symlink unlinks)
  then show ?case using reconcile_ok by (simp add: in_flight_staged_def)
next
  case (claimed y uid user s' u)
  obtain u0 where "u0 \<in> set (uploads (sys_store y))" "u = u0\<lparr>u_state := Receiving\<rparr>" using claim_row [OF claimed.hyps(2)] by blast
  then have "staged_like (u_path u)" using claimed.IH by (auto simp: ok_def tables_ok_def)
  then show ?case
    using claimed.IH claim_ok [of digest lost "sys_store y" uid user] claimed.hyps(2)
    by (simp add: in_flight_staged_def start_request_def)
next
  case (claim_cancelled y uid user)
  then show ?case using claim_ok by (simp add: in_flight_staged_def)
next
  case (opened y hs h hs')
  then have "staged_like (u_path (h_row h))" by (simp add: in_flight_staged_def)
  then show ?case using opened by (auto simp: in_flight_staged_def open_temporary_def intro!: ok_staged_disk)
next
  case (received y hs h hs' chunk s' h')
  then have "staged_like (u_path (h_row h))" by (simp add: in_flight_staged_def)
  then show ?case using received
    by (auto simp: in_flight_staged_def receive_chunk_def Let_def split: if_splits intro!: ok_staged_disk)
next
  case (placed y hs h hs' s' h')
  then have "staged_like (u_path (h_row h))" by (simp add: in_flight_staged_def)
  then show ?case using placed
    by (auto simp: in_flight_staged_def place_bytes_def Let_def split: if_splits intro!: ok_staged_disk)
next
  case (marked y hs h hs' s' hit)
  then show ?case using mark_ok [of digest lost "sys_store y" h] by (simp add: in_flight_staged_def)
next
  case (mark_failed y hs h hs')
  then show ?case by (simp add: in_flight_staged_def)
next
  case (abandoned y hs h hs' unlinks)
  then show ?case using abandon_ok by (simp add: in_flight_staged_def)
next
  case (completion_started y uid user u)
  then have "find_upload uid user (sys_store y) = Some u" by (simp add: get_upload_def res_simps)
  then have "u \<in> set (uploads (sys_store y))" by (auto simp: find_upload_def dest: find_SomeD)
  then show ?case using completion_started by (auto simp: in_flight_staged_def ok_def tables_ok_def)
next
  case (bytes_read y cs u cs' data t)
  then show ?case by (simp add: in_flight_staged_def)
next
  case (registered y cs u blob cs' w draws s' r)
  then have "staged_like (u_path u)" by (simp add: in_flight_staged_def)
  then show ?case
    using registered.IH register_ok [OF _ registered.hyps(3,4) _ registered.hyps(5)] registered.hyps(2)
    by (simp add: in_flight_staged_def)
next
  case (completion_ended y cs c cs')
  then show ?case by (simp add: in_flight_staged_def)
qed

section \<open>The properties\<close>

text \<open>
  C35: The storage of a user is bounded. In every state reached by any interleaving of the operations, with
  any failures of writes, unlinks and commits, the files of a user together with the reservations of the
  uploads that are not complete stay within the quota, and with the replaced versions still to be collected
  they exceed it by at most the size of one file.
\<close>

theorem storage_of_a_user_bounded:
  assumes "reach resolve root digest lost y"
  shows "live_used user (sys_store y) \<le> MAX_QUOTA_BYTES
    \<and> quota_used user None (sys_store y) \<le> MAX_QUOTA_BYTES + MAX_FILE_BYTES"
  using reach_store_ok [OF assms] by (simp add: ok_def bounded_def)

lemma reach_intact: "reach resolve root digest False y \<Longrightarrow> intact digest (sys_store y)"
  using reach_store_ok by (metis ok_def)

lemma get_file_row:
  assumes "get_file w fid user s = Inr (Some row)"
  shows "find_file fid user s = Some row" and "is_ok (authorize_file w row)"
  using assms by (auto simp: get_file_def split: if_splits option.splits sum.splits artifact_error.splits)


text \<open>
  C37: A download serves what its capability names and nothing else. When the route answers with bytes, the
  capability is valid now for downloading, its user's permissions could be loaded now, the file is a visible
  file of that user, in the version and with the digest the capability was signed for, the permissions
  still are those the content was made with, and the bytes have that digest.
\<close>

theorem download_serves_its_capability:
  assumes d: "download_request sg urlsplit c w live tok s = Inr (row, data)"
  shows "\<exists>cl perms. verify_token sg urlsplit c Download tok (clock s) = Some cl \<and> live (c_sub cl) = Inr perms
    \<and> row \<in> set (files s) \<and> visible (clock s) row \<and> f_user row = c_sub cl \<and> f_id row = c_object cl
    \<and> c_version cl = Some (f_version row) \<and> c_sha cl = Some (f_sha row)
    \<and> (\<forall>a. f_access row = Some a \<longrightarrow> check_access (Some a) (c_sub cl) perms)
    \<and> w_digest w data = f_sha row \<and> length data \<le> MAX_FILE_BYTES"
proof -
  obtain cl perms where v: "verify_token sg urlsplit c Download tok (clock s) = Some cl" "live (c_sub cl) = Inr perms"
    and b: "download_bytes w cl perms s = Inr (row, data)"
    using d by (auto simp: download_request_def request_claims_def split: option.splits sum.splits)
  let ?w = "w\<lparr>w_auth := Some \<lparr>auth_user = c_sub cl, auth_permissions = perms\<rparr>\<rparr>"
  have g: "get_file ?w (c_object cl) (c_sub cl) s = Inr (Some row)"
    and m: "c_version cl = Some (f_version row)" "c_sha cl = Some (f_sha row)"
      "w_digest w data = f_sha row" "length data \<le> MAX_FILE_BYTES"
    using b by (auto simp: download_bytes_def Let_def split: sum.splits option.splits if_splits)
  note row = find_file_Some [OF get_file_row(1) [OF g]]
  have "check_access (Some a) (c_sub cl) perms" if "f_access row = Some a" for a
    using get_file_row(2) [OF g] that row(3)
    by (auto simp: authorize_file_def res_simps is_ok_def split: if_splits sum.splits)
  then show ?thesis using v m row by blast
qed

definition whole_seconds :: "int \<Rightarrow> int" where
  "whole_seconds t = t div 1000000 * 1000000"

text \<open>
  What the JWT library documents: a token decodes with the key it was signed with, for its own audience,
  from the second of its issue until the second of its expiry, to the claims that were encoded.
\<close>

definition signs_and_verifies :: "'tok signer \<Rightarrow> bool" where
  "signs_and_verifies sg \<longleftrightarrow> (\<forall>cl key now. c_issued cl \<le> now \<and> now < whole_seconds (c_expires cl)
     \<longrightarrow> (\<exists>cl'. sg_decode sg (sg_encode sg cl key) key (c_audience cl) now = Some cl'
           \<and> c_sub cl' = c_sub cl \<and> c_object cl' = c_object cl \<and> c_version cl' = c_version cl \<and> c_sha cl' = c_sha cl))"

lemma find_own_row:
  assumes "distinct (map f_id (files s))" and "row \<in> set (files s)" and "visible (clock s) row"
  shows "find_file (f_id row) (f_user row) s = Some row"
proof -
  let ?P = "\<lambda>r. f_id r = f_id row \<and> f_user r = f_user row \<and> visible (clock s) r"
  have "List.find ?P (files s) \<noteq> None" using assms by (auto simp: find_None_iff)
  then obtain r where r: "List.find ?P (files s) = Some r" by blast
  have "r \<in> set (files s)" "f_id r = f_id row" using find_SomeD [OF r] by auto
  then have "r = row" using assms(1,2) by (metis distinct_map inj_onD)
  then show ?thesis using r by (simp add: find_file_def)
qed


lemma collect_retired_keeps:
  "files (collect_retired unlinks commits user s) = files s"
  "clock (collect_retired unlinks commits user s) = clock s"
  "p \<notin> g_path ` set (retired s) \<Longrightarrow> disk (collect_retired unlinks commits user s) p = disk s p"
proof -
  have "files (foldl (collect_one unlinks commits) s ps) = files s \<and> clock (foldl (collect_one unlinks commits) s ps) = clock s
      \<and> (p \<notin> g_path ` set (retired s) \<longrightarrow> disk (foldl (collect_one unlinks commits) s ps) p = disk s p)" for ps
  proof (induction ps arbitrary: s)
    case (Cons q ps)
    let ?t = "collect_one unlinks commits s q"
    have "files ?t = files s" "clock ?t = clock s" "g_path ` set (retired ?t) \<subseteq> g_path ` set (retired s)"
      by (auto simp: collect_one_def Let_def commit_def unlink_def)
    moreover have "disk ?t p = disk s p" if "p \<notin> g_path ` set (retired s)"
      using that by (auto simp: collect_one_def Let_def commit_def unlink_def)
    ultimately show ?case using Cons.IH [of ?t] by auto
  qed simp
  then show "files (collect_retired unlinks commits user s) = files s"
    "clock (collect_retired unlinks commits user s) = clock s"
    "p \<notin> g_path ` set (retired s) \<Longrightarrow> disk (collect_retired unlinks commits user s) p = disk s p"
    by (simp_all add: collect_retired_def)
qed

lemma update_cases:
  assumes "update_transaction w token fid user blob tool expected s = (s', Inr row')"
  obtains row access where "find_file fid user s = Some row" and "expected = None \<or> expected = Some (f_sha row)"
    and "replace_blob w token row access blob tool s = (s', Inr row')"
  using assms by (auto simp: update_transaction_def split: if_splits option.splits sum.splits)

text \<open>
  C39: An edit replaces the version it was made from. When \<open>materialize_for_update\<close> returns, the file it
  replaced had, at the instant of the replacement, still the digest of the bytes that were edited, whatever
  other calls did between; the file now has the edited bytes, readable under the next version number, and no
  other file changed. So two concurrent edits never overwrite each other.
\<close>

theorem edit_replaces_what_was_read:
  assumes run: "reach resolve root digest False y" "reach resolve root digest False y'"
    and w: "fits resolve root digest False w'" and fresh: "fresh_version token fid user (sys_store y')"
    and mean: "meanwhile (sys_store y) = sys_store y'"
    and m: "materialize_for_update w w' token commits fid user tool body meanwhile (sys_store y) = (s', Inr (Some row'))"
  shows "\<exists>row data data' row0 b t. materialize_blob w fid user (sys_store y) = Inr (data, row) \<and> body data = Some data'
    \<and> find_file fid user (sys_store y') = Some row0 \<and> disk (sys_store y') (f_path row0) = Some (b, t) \<and> digest b = digest data
    \<and> f_version row' = Suc (f_version row0) \<and> f_sha row' = digest data' \<and> find_file fid user s' = Some row'
    \<and> disk s' (f_path row') = Some (data', clock s')
    \<and> (\<forall>r\<in>set (files (sys_store y')). f_id r \<noteq> fid \<longrightarrow> r \<in> set (files s'))"
proof -
  let ?s = "sys_store y'"
  obtain data row where mat: "materialize_blob w fid user (sys_store y) = Inr (data, row)"
    using m by (auto simp: materialize_for_update_def split: sum.splits)
  obtain data' where body: "body data = Some data'"
    using m mat by (auto simp: materialize_for_update_def split: option.splits)
  obtain s1 where up: "update_transaction w' token fid user data' tool (Some (f_sha row)) ?s = (s1, Inr row')"
    and s': "s' = collect_retired (w_unlink w') commits (Some user) s1"
    using m mat body mean by (auto simp: materialize_for_update_def update_file_blob_def res_simps split: prod.splits sum.splits)
  obtain row0 access where row0: "find_file fid user ?s = Some row0" "f_sha row = f_sha row0"
    and rep: "replace_blob w' token row0 access data' tool ?s = (s1, Inr row')"
    using up by (rule update_cases) auto
  note f0 = find_file_Some [OF row0(1)]
  have g: "get_file w fid user (sys_store y) = Inr (Some row)" and read: "\<exists>t. disk (sys_store y) (f_path row) = Some (data, t)"
    using mat by (auto simp: materialize_blob_def res_simps res_bind_def split: sum.splits option.splits)
  note f = find_file_Some [OF get_file_row(1) [OF g]]
  have "digest data = f_sha row"
    using reach_intact [OF run(1)] f(1,4) read unfolding intact_def by fastforce
  moreover obtain b t where b: "disk ?s (f_path row0) = Some (b, t)" "digest b = f_sha row0"
    using reach_intact [OF run(2)] f0(1,4) unfolding intact_def by blast
  ultimately have bytes: "digest b = digest data" using row0(2) by simp
  have o1: "ok digest False s1" by (rule update_ok [OF reach_store_ok [OF run(2), THEN conjunct1] w fresh up])
  have lost: "w_commit w' \<noteq> CommitLost" using w by (simp add: fits_def)
  from rep show ?thesis
  proof (cases rule: replace_blob_cases)
    case (replaced row'')
    have r': "row'' = row'" "disk s1 (version_path row0 token) = Some (data', clock ?s)" using replaced(8) [OF lost] by simp_all
    have fields: "f_version row' = Suc (f_version row0)" "f_sha row' = digest data'" "f_path row' = version_path row0 token"
      "f_id row' = fid" "f_user row' = user" "visible (clock s1) row'"
      using replaced(1,5) r'(1) w f0 by (auto simp: fits_def visible_def)
    have new: "row' \<in> set (files s1)" and others: "\<forall>r\<in>set (files ?s). f_id r \<noteq> fid \<longrightarrow> r \<in> set (files s1)"
      unfolding replaced(2) r'(1) using f0(1,2) by force+
    have "f_path row' \<notin> g_path ` set (retired s1)" using o1 new unfolding ok_def tables_ok_def by force
    then have at: "disk s' (f_path row') = Some (data', clock s')"
      using r'(2) replaced(5) unfolding s' by (simp add: collect_retired_keeps fields(3))
    have "find_file fid user s1 = Some row'"
      using find_own_row [OF _ new fields(6)] o1 fields(4,5) by (simp add: ok_def tables_ok_def)
    then have "find_file fid user s' = Some row'" unfolding s' by (simp add: find_file_def collect_retired_keeps)
    moreover have "\<forall>r\<in>set (files ?s). f_id r \<noteq> fid \<longrightarrow> r \<in> set (files s')"
      using others unfolding s' by (simp add: collect_retired_keeps)
    ultimately show ?thesis using mat body row0(1) b(1) bytes fields(1,2) at by blast
  qed simp
qed

section \<open>A run\<close>

definition demo_caller :: auth_context where
  "demo_caller = \<lparr>auth_user = ''ann'', auth_permissions = \<lparr>perm_user = ''ann'', perm_admin = False, perm_scenarios = []\<rparr>\<rparr>"

definition demo_world :: world where
  "demo_world = \<lparr>w_resolve = \<lambda>p. p, w_root = [''data''], w_digest = \<lambda>b. b, w_guess = \<lambda>_. None, w_auth = Some demo_caller,
     w_load = \<lambda>_. Inr (auth_permissions demo_caller), w_write = WriteDone, w_commit = CommitDone, w_unlink = \<lambda>_. True\<rparr>"

definition demo_id :: string where
  "demo_id = ''file_aaaaaaaaaaaaaaaaaaaaaaaaaa''"

definition demo_row :: file_row where
  "demo_row = \<lparr>f_id = demo_id, f_user = ''ann'', f_basename = ''a.csv'', f_mime = ''text/csv'', f_size = 3, f_sha = ''1,2'',
     f_path = [''data'', ''ann'', ''blobs'', demo_id], f_created = 0, f_updated = 0, f_expires = None, f_deleted = None,
     f_source = ''user_upload'', f_tool = None, f_version = 1, f_provenance = [], f_access = None\<rparr>"

definition demo_system :: system where
  "demo_system = \<lparr>sys_store = (empty_store 0)\<lparr>files := [demo_row], disk := (\<lambda>_. None)(f_path demo_row := Some (''1,2'', 0))\<rparr>,
     requests = [], completions = [], delivered = []\<rparr>"

lemma demo_names:
  "generate_file_id (replicate 26 0) = demo_id" "valid_basename ''a.csv''" "validate_mime_type ''text/csv'' = Some ''text/csv''"
  "is_valid_file_id demo_id"
  "blob_path (\<lambda>p. p) [''data''] ''ann'' demo_id = Inr [''data'', ''ann'', ''blobs'', demo_id]"
  by code_simp+

lemma demo_fits: "fits (\<lambda>p. p) [''data''] (\<lambda>b. b) False demo_world"
  by (simp add: fits_def demo_world_def)

lemma demo_create:
  "create_file demo_world (replicate 26 0) ''ann'' ''a.csv'' ''1,2'' ''user_upload'' None None (Some ''text/csv'') [] None None
     (empty_store 0) = (sys_store demo_system, Inr demo_row)"
  by (simp add: create_file_def create_access_def upload_check_def insert_file_def Let_def demo_world_def demo_names demo_row_def
    demo_system_def empty_store_def quota_used_def write_atomic_def commit_def MAX_FILE_BYTES_def MAX_QUOTA_BYTES_def)

lemma demo_reach: "reach (\<lambda>p. p) [''data''] (\<lambda>b. b) False demo_system"
proof -
  let ?y = "\<lparr>sys_store = empty_store 0, requests = [], completions = [], delivered = []\<rparr>"
  have "fresh_file (\<lambda>p. p) [''data''] (replicate 26 0) ''ann'' (sys_store ?y)"
    by (simp add: fresh_file_def empty_store_def referenced_def)
  then have "reach (\<lambda>p. p) [''data''] (\<lambda>b. b) False (?y\<lparr>sys_store := sys_store demo_system\<rparr>)"
    by (rule reach.created [OF reach.started demo_fits]) (simp only: system.simps, rule demo_create)
  then show ?thesis by (simp add: demo_system_def)
qed

theorem storage_of_a_user_bounded_witness:
  "live_used ''ann'' (sys_store demo_system) = 3 \<and> 3 \<le> MAX_QUOTA_BYTES
    \<and> quota_used ''ann'' None (sys_store demo_system) \<le> MAX_QUOTA_BYTES + MAX_FILE_BYTES"
  using storage_of_a_user_bounded [OF demo_reach, of "''ann''"]
  by (simp add: live_used_def demo_system_def demo_row_def empty_store_def)

lemma demo_found: "get_file (w\<lparr>w_auth := a\<rparr>) demo_id ''ann'' (sys_store demo_system) = Inr (Some demo_row)"
  by (simp add: get_file_def demo_names find_file_def demo_system_def demo_row_def empty_store_def visible_def authorize_file_def)


definition demo_signer :: "(claims \<times> string) signer" where
  "demo_signer = \<lparr>sg_hmac = \<lambda>k l. k @ l, sg_encode = \<lambda>cl key. (cl, key), sg_decode = \<lambda>tok key aud now.
     if snd tok = key \<and> c_audience (fst tok) = aud \<and> now < whole_seconds (c_expires (fst tok)) then Some (fst tok) else None\<rparr>"

definition demo_site :: site where
  "demo_site = \<lparr>site_key = replicate 32 (CHR ''k''), site_base = ''https://x'', site_auth_mode = None\<rparr>"

definition demo_split :: "string \<Rightarrow> base_url" where
  "demo_split t = \<lparr>url_scheme = ''https'', url_host = Some ''x'', url_user = None, url_password = None, url_query = [], url_fragment = []\<rparr>"

definition demo_token :: "claims \<times> string" where
  "demo_token = (\<lparr>c_sub = ''ann'', c_object = demo_id, c_audience = purpose_label Download, c_issued = 0, c_expires = 900000000,
     c_version = Some 1, c_sha = Some ''1,2'', c_size = None\<rparr>, token_key demo_signer demo_site Download)"

lemma demo_configured: "require_configuration demo_split demo_site = Inr ''https://x''"
  by code_simp

lemma demo_signs: "signs_and_verifies demo_signer"
  by (simp add: signs_and_verifies_def demo_signer_def)

lemma demo_descriptor: "artifact_descriptor demo_signer demo_split demo_site demo_row 0
    = Inr ((''https://x'', Download, demo_token), 900000000)"
  by (simp add: artifact_descriptor_def transfer_url_def make_token_def demo_configured demo_row_def DEFAULT_TTL_SECONDS_def
    demo_signer_def demo_token_def seconds_def res_simps)

lemma demo_download:
  "download_request demo_signer demo_split demo_site demo_world (w_load demo_world) demo_token (sys_store demo_system)
    = Inr (demo_row, ''1,2'')"
proof -
  have "verify_token demo_signer demo_split demo_site Download demo_token 0 = Some (fst demo_token)"
    by (simp add: verify_token_def demo_configured demo_token_def demo_signer_def whole_seconds_def)
  moreover have "clock (sys_store demo_system) = 0" by (simp add: demo_system_def empty_store_def)
  moreover have "disk (sys_store demo_system) (f_path demo_row) = Some (''1,2'', 0)" by (simp add: demo_system_def)
  moreover have "w_digest demo_world = (\<lambda>b. b)" "w_load demo_world = (\<lambda>_. Inr (auth_permissions demo_caller))"
    by (simp_all add: demo_world_def)
  moreover have "f_version demo_row = 1" "f_sha demo_row = ''1,2''" by (simp_all add: demo_row_def)
  moreover have "c_sub (fst demo_token) = ''ann''" "c_object (fst demo_token) = demo_id" "c_version (fst demo_token) = Some 1"
    "c_sha (fst demo_token) = Some ''1,2''"
    by (simp_all add: demo_token_def)
  ultimately show ?thesis
    by (simp add: download_request_def request_claims_def download_bytes_def demo_found MAX_FILE_BYTES_def)
qed

theorem download_serves_its_capability_witness:
  "\<exists>cl. verify_token demo_signer demo_split demo_site Download demo_token 0 = Some cl \<and> c_object cl = demo_id \<and> c_sha cl = Some ''1,2''"
proof -
  have "clock (sys_store demo_system) = 0" "f_id demo_row = demo_id" "f_sha demo_row = ''1,2''"
    by (simp_all add: demo_system_def empty_store_def demo_row_def)
  then show ?thesis using download_serves_its_capability [OF demo_download] by auto
qed


lemma demo_fresh_version: "fresh_version ''ab'' demo_id ''ann'' (sys_store demo_system)"
proof -
  have "version_path demo_row ''ab'' \<noteq> f_path demo_row" by (simp add: version_path_def demo_row_def)
  then show ?thesis
    by (simp add: fresh_version_def is_hex_def is_digit_def demo_system_def empty_store_def referenced_def find_file_def demo_row_def)
qed

lemma demo_edit:
  "\<exists>row'. snd (materialize_for_update demo_world demo_world ''ab'' (\<lambda>_. CommitDone) demo_id ''ann'' None (\<lambda>_. Some ''9'') (\<lambda>s. s)
     (sys_store demo_system)) = Inr (Some row')"
proof -
  have g: "get_file demo_world demo_id ''ann'' (sys_store demo_system) = Inr (Some demo_row)"
    using demo_found [where w = demo_world and a = "w_auth demo_world"] by simp
  have "\<exists>row' s'. update_transaction demo_world ''ab'' demo_id ''ann'' ''9'' None (Some ''1,2'') (sys_store demo_system) = (s', Inr row')"
    by (simp add: update_transaction_def demo_names MAX_FILE_BYTES_def find_file_def demo_system_def demo_row_def empty_store_def visible_def
      authorize_file_def demo_world_def demo_caller_def replace_blob_def Let_def quota_used_def MAX_QUOTA_BYTES_def commit_def write_atomic_def)
  then obtain row' s' where u: "update_transaction demo_world ''ab'' demo_id ''ann'' ''9'' None (Some ''1,2'') (sys_store demo_system)
      = (s', Inr row')" by blast
  have "disk (sys_store demo_system) (f_path demo_row) = Some (''1,2'', 0)" "f_sha demo_row = ''1,2''"
    by (simp_all add: demo_system_def demo_row_def)
  then show ?thesis by (simp add: materialize_for_update_def materialize_blob_def g res_simps update_file_blob_def u)
qed

theorem edit_replaces_what_was_read_witness:
  "\<exists>row'. snd (materialize_for_update demo_world demo_world ''ab'' (\<lambda>_. CommitDone) demo_id ''ann'' None (\<lambda>_. Some ''9'') (\<lambda>s. s)
     (sys_store demo_system)) = Inr (Some row') \<and> f_sha row' = ''9''"
proof -
  let ?m = "materialize_for_update demo_world demo_world ''ab'' (\<lambda>_. CommitDone) demo_id ''ann'' None (\<lambda>_. Some ''9'') (\<lambda>s. s)
     (sys_store demo_system)"
  obtain row' where r: "snd ?m = Inr (Some row')" using demo_edit by blast
  then have "?m = (fst ?m, Inr (Some row'))" by (metis prod.collapse)
  from edit_replaces_what_was_read [OF demo_reach demo_reach demo_fits demo_fresh_version _ this]
  have "f_sha row' = ''9''" by auto
  then show ?thesis using r by blast
qed

section \<open>Where the code falls short\<close>

text \<open>
  When the server commits but the client sees the commit fail, the handler unlinks the blob of a row that
  exists: the file is listed and cannot be read. The theorems on contents therefore exclude such commits.
\<close>

lemma lost_commit_loses_blob:
  "\<exists>s'. create_file (demo_world\<lparr>w_commit := CommitLost\<rparr>) (replicate 26 0) ''ann'' ''a.csv'' ''1,2'' ''user_upload'' None None
      (Some ''text/csv'') [] None None (empty_store 0) = (s', Inl DatabaseFault)
    \<and> find_file demo_id ''ann'' s' = Some demo_row \<and> disk s' (f_path demo_row) = None"
  by (simp add: create_file_def create_access_def upload_check_def insert_file_def Let_def demo_world_def demo_names demo_row_def
    find_file_def visible_def try_unlink_def unlink_def
    empty_store_def quota_used_def write_atomic_def commit_def MAX_FILE_BYTES_def MAX_QUOTA_BYTES_def)

text \<open>The pattern of an identifier lets a final line feed through.\<close>

lemma file_id_with_line_feed: "is_valid_file_id (demo_id @ [CHR 0x0A])"
  by code_simp

end
