(* ===== verification/UploadSafety.thy ===== *)
theory UploadSafety
  imports ArtifactSafety
begin

text \<open>
  Uploads in every run of the artifact store: a request that is in flight owns its reservation, what an
  upload delivered never changes afterwards, and its completions, however many run at once, register one
  file that holds exactly the delivered bytes.
\<close>

section \<open>The upload invariant\<close>

text \<open>What a reservation never changes.\<close>

definition same_upload :: "upload_row \<Rightarrow> upload_row \<Rightarrow> bool" where
  "same_upload u v \<longleftrightarrow> u_id u = u_id v \<and> u_user u = u_user v \<and> u_path u = u_path v \<and> u_size u = u_size v
     \<and> u_basename u = u_basename v \<and> u_mime u = u_mime v \<and> u_expires u = u_expires v"

definition request_ok :: "store \<Rightarrow> (string \<times> path \<times> string) list \<Rightarrow> handler \<Rightarrow> bool" where
  "request_ok s del h \<longleftrightarrow> u_id (h_row h) \<notin> fst ` set del
     \<and> last (u_path (h_row h)) = u_id (h_row h)
     \<and> (h_replaced h \<longrightarrow> length (h_received h) = u_size (h_row h))
     \<and> (\<forall>u\<in>set (uploads s). u_id u = u_id (h_row h) \<longrightarrow> u_state u = Receiving \<and> same_upload u (h_row h)
          \<and> (h_replaced h \<and> clock s < u_expires u \<longrightarrow> (\<exists>t. disk s (u_path (h_row h)) = Some (h_received h, t))))"

definition delivery_ok :: "store \<Rightarrow> string \<times> path \<times> string \<Rightarrow> bool" where
  "delivery_ok s d \<longleftrightarrow> (case d of (i, p, b) \<Rightarrow> staged_like p \<and> last p = i
     \<and> (\<forall>x t. disk s p = Some (x, t) \<longrightarrow> x = b)
     \<and> (\<forall>u\<in>set (uploads s). u_id u = i \<longrightarrow> u_state u \<in> {Uploaded, Complete} \<and> u_path u = p \<and> u_size u = length b
          \<and> (u_state u = Uploaded \<and> clock s < u_expires u \<longrightarrow> disk s p \<noteq> None)))"

definition completion_ok :: "store \<Rightarrow> (string \<times> path \<times> string) list \<Rightarrow> upload_row \<times> string option \<Rightarrow> bool" where
  "completion_ok s del c \<longleftrightarrow> (case c of (u, r) \<Rightarrow>
     (\<exists>d. (u_id u, u_path u, d) \<in> set del \<and> length d = u_size u \<and> (\<forall>x. r = Some x \<longrightarrow> x = d))
     \<and> (\<forall>v\<in>set (uploads s). u_id v = u_id u \<longrightarrow> same_upload v u))"

text \<open>The file an upload was completed with, as long as it is the first version.\<close>

definition file_of :: "(string \<Rightarrow> string) \<Rightarrow> (string \<times> path \<times> string) list \<Rightarrow> upload_row \<Rightarrow> file_row \<Rightarrow> bool" where
  "file_of digest del u row \<longleftrightarrow> f_user row = u_user u
     \<and> (f_version row = 1 \<longrightarrow> (\<forall>p d. (u_id u, p, d) \<in> set del \<longrightarrow> f_sha row = digest d \<and> f_size row = length d))"

definition upload_ok :: "(string \<Rightarrow> string) \<Rightarrow> store \<Rightarrow> (string \<times> path \<times> string) list \<Rightarrow> upload_row \<Rightarrow> bool" where
  "upload_ok digest s del u \<longleftrightarrow> (u_state u \<in> {Uploaded, Complete} \<longrightarrow> u_id u \<in> fst ` set del)
     \<and> (\<forall>fid. u_file u = Some fid \<longrightarrow> u_state u = Complete \<and> fid \<in> f_id ` set (files s)
          \<and> (\<forall>row\<in>set (files s). f_id row = fid \<longrightarrow> file_of digest del u row)
          \<and> (\<forall>v\<in>set (uploads s). u_file v = Some fid \<longrightarrow> u_id v = u_id u))"

definition transfer_inv :: "(string \<Rightarrow> string) \<Rightarrow> system \<Rightarrow> bool" where
  "transfer_inv digest y \<longleftrightarrow> distinct (map (\<lambda>h. u_id (h_row h)) (requests y))
     \<and> distinct (map fst (delivered y))
     \<and> (\<forall>row\<in>set (files (sys_store y)). 1 \<le> f_version row)
     \<and> (\<forall>h\<in>set (requests y). request_ok (sys_store y) (delivered y) h)
     \<and> (\<forall>d\<in>set (delivered y). delivery_ok (sys_store y) d)
     \<and> (\<forall>c\<in>set (completions y). completion_ok (sys_store y) (delivered y) c)
     \<and> (\<forall>u\<in>set (uploads (sys_store y)). upload_ok digest (sys_store y) (delivered y) u)"

lemma same_upload_refl [simp]: "same_upload u u"
  by (simp add: same_upload_def)

lemma same_upload_trans: "same_upload u v \<Longrightarrow> same_upload v w \<Longrightarrow> same_upload u w"
  by (simp add: same_upload_def)

section \<open>Steps that leave uploads alone\<close>

text \<open>
  Steps on files and collections: reservations may go, and forget a file that went; no state changes;
  staged bytes go only where no live reservation points; a file keeps its owner and its first version.
\<close>

lemma inv_frame:
  assumes i: "transfer_inv digest y"
    and u: "uploads s' = map g (filter R (uploads (sys_store y)))" "\<And>u. g u = u \<or> g u = u\<lparr>u_file := None\<rparr>"
    and f: "\<And>row'. row' \<in> set (files s') \<Longrightarrow> 1 \<le> f_version row' \<and>
        (f_id row' \<notin> f_id ` set (files (sys_store y))
         \<or> (\<exists>row\<in>set (files (sys_store y)). f_id row = f_id row' \<and> f_user row = f_user row'
              \<and> (f_version row' = 1 \<longrightarrow> f_version row = 1 \<and> f_sha row = f_sha row' \<and> f_size row = f_size row')))"
    and fk: "\<And>u fid. u \<in> set (uploads s') \<Longrightarrow> u_file u = Some fid \<Longrightarrow> fid \<in> f_id ` set (files s')"
    and c: "clock (sys_store y) \<le> clock s'"
    and d: "\<And>p. staged_like p \<Longrightarrow> disk s' p = disk (sys_store y) p
        \<or> disk s' p = None \<and> (\<forall>u\<in>set (uploads s'). u_path u = p \<longrightarrow> \<not> clock s' < u_expires u)"
    and h: "\<And>h. h \<in> set (requests y) \<Longrightarrow> staged_like (u_path (h_row h))"
  shows "transfer_inv digest (y\<lparr>sys_store := s'\<rparr>)"
proof -
  let ?s = "sys_store y"
  have old: "\<exists>u\<in>set (uploads ?s). u' = g u \<and> same_upload u' u \<and> u_state u' = u_state u \<and> u_expires u' = u_expires u
      \<and> (u_file u' = None \<or> u_file u' = u_file u)" if u': "u' \<in> set (uploads s')" for u'
  proof -
    obtain v where v: "v \<in> set (uploads ?s)" "u' = g v" using u' u(1) by auto
    then show ?thesis using u(2) [of v] by (intro bexI [of _ v]) (auto simp: same_upload_def)
  qed
  have "request_ok s' (delivered y) h" if hin: "h \<in> set (requests y)" for h
  proof -
    have rok: "request_ok ?s (delivered y) h" using i hin by (auto simp: transfer_inv_def)
    have "u_state u = Receiving \<and> same_upload u (h_row h)
        \<and> (h_replaced h \<and> clock s' < u_expires u \<longrightarrow> (\<exists>t. disk s' (u_path (h_row h)) = Some (h_received h, t)))"
      if uin: "u \<in> set (uploads s')" and eq: "u_id u = u_id (h_row h)" for u
    proof -
      obtain v where v: "v \<in> set (uploads ?s)" "same_upload u v" "u_state u = u_state v" using old [OF uin] by blast
      have w: "u_state v = Receiving" "same_upload v (h_row h)"
        "h_replaced h \<and> clock ?s < u_expires v \<longrightarrow> (\<exists>t. disk ?s (u_path (h_row h)) = Some (h_received h, t))"
        using rok v eq unfolding request_ok_def by (auto simp: same_upload_def)
      have path: "u_path u = u_path (h_row h)" "u_expires u = u_expires v" using v(2) w(2) by (auto simp: same_upload_def)
      then show ?thesis
        using v w d [OF h [OF hin]] uin c by (auto simp: same_upload_def)
    qed
    then show ?thesis using rok unfolding request_ok_def by blast
  qed
  moreover have "delivery_ok s' e" if ein: "e \<in> set (delivered y)" for e
  proof -
    obtain k p b where e: "e = (k, p, b)" by (cases e)
    have dok: "delivery_ok ?s (k, p, b)" using i ein e by (auto simp: transfer_inv_def)
    then have st: "staged_like p" by (simp add: delivery_ok_def)
    have "u_state u \<in> {Uploaded, Complete} \<and> u_path u = p \<and> u_size u = length b
        \<and> (u_state u = Uploaded \<and> clock s' < u_expires u \<longrightarrow> disk s' p \<noteq> None)"
      if uin: "u \<in> set (uploads s')" and eq: "u_id u = k" for u
    proof -
      obtain v where v: "v \<in> set (uploads ?s)" "same_upload u v" "u_state u = u_state v" using old [OF uin] by blast
      then have "u_state v \<in> {Uploaded, Complete} \<and> u_path v = p \<and> u_size v = length b
        \<and> (u_state v = Uploaded \<and> clock ?s < u_expires v \<longrightarrow> disk ?s p \<noteq> None)"
        using dok eq by (auto simp: delivery_ok_def same_upload_def)
      then show ?thesis using v d [OF st] uin c by (auto simp: same_upload_def)
    qed
    moreover have "x = b" if "disk s' p = Some (x, t)" for x t
    proof -
      have "disk ?s p = Some (x, t)" using that d [OF st] by auto
      then show ?thesis using dok unfolding delivery_ok_def by blast
    qed
    ultimately show ?thesis using dok unfolding e delivery_ok_def by blast
  qed
  moreover have "completion_ok s' (delivered y) e" if ein: "e \<in> set (completions y)" for e
  proof -
    obtain v r where e: "e = (v, r)" by (cases e)
    have vok: "completion_ok ?s (delivered y) (v, r)" using i ein e by (auto simp: transfer_inv_def)
    have "same_upload u v" if uin: "u \<in> set (uploads s')" and eq: "u_id u = u_id v" for u
    proof -
      obtain w where w: "w \<in> set (uploads ?s)" "same_upload u w" using old [OF uin] by blast
      then have "same_upload w v" using vok eq by (auto simp: completion_ok_def same_upload_def)
      then show ?thesis using w(2) same_upload_trans by blast
    qed
    then show ?thesis using vok unfolding e completion_ok_def prod.case by blast
  qed
  moreover have "upload_ok digest s' (delivered y) u" if uin: "u \<in> set (uploads s')" for u
  proof -
    obtain v where v: "v \<in> set (uploads ?s)" "same_upload u v" "u_state u = u_state v" "u_file u = None \<or> u_file u = u_file v"
      using old [OF uin] by blast
    have vok: "upload_ok digest ?s (delivered y) v" using i v(1) by (auto simp: transfer_inv_def)
    have "u_state u = Complete \<and> fid \<in> f_id ` set (files s') \<and> (\<forall>row\<in>set (files s'). f_id row = fid \<longrightarrow> file_of digest (delivered y) u row)
        \<and> (\<forall>w\<in>set (uploads s'). u_file w = Some fid \<longrightarrow> u_id w = u_id u)" if fid: "u_file u = Some fid" for fid
    proof -
      have vf: "u_file v = Some fid" using v(4) fid by simp
      then have known: "u_state v = Complete" "fid \<in> f_id ` set (files ?s)"
        "\<forall>row\<in>set (files ?s). f_id row = fid \<longrightarrow> file_of digest (delivered y) v row"
        "\<forall>w\<in>set (uploads ?s). u_file w = Some fid \<longrightarrow> u_id w = u_id v"
        using vok by (auto simp: upload_ok_def)
      have "file_of digest (delivered y) u row'" if rin: "row' \<in> set (files s')" and rid: "f_id row' = fid" for row'
      proof -
        obtain row where "row \<in> set (files ?s)" "f_id row = fid" "f_user row = f_user row'"
          "f_version row' = 1 \<longrightarrow> f_version row = 1 \<and> f_sha row = f_sha row' \<and> f_size row = f_size row'"
          using f [OF rin] rid known(2) by metis
        then show ?thesis using known(3) v(2) by (fastforce simp: file_of_def same_upload_def)
      qed
      moreover have "u_id w = u_id u" if "w \<in> set (uploads s')" "u_file w = Some fid" for w
        using old [OF that(1)] that(2) known(4) v(2) by (metis option.distinct(1) same_upload_def)
      ultimately show ?thesis using known(1) v(3) fk [OF uin fid] by simp
    qed
    then show ?thesis using vok v(2,3) unfolding upload_ok_def same_upload_def by metis
  qed
  moreover have "\<forall>row\<in>set (files s'). 1 \<le> f_version row" using f by blast
  ultimately show ?thesis using i unfolding transfer_inv_def by simp
qed


section \<open>Transactions on files\<close>

lemma tables_paths:
  assumes "ok digest lost s"
  shows "row \<in> set (files s) \<Longrightarrow> blob_like (f_path row)"
    and "u \<in> set (uploads s) \<Longrightarrow> staged_like (u_path u) \<and> last (u_path u) = u_id u"
    and "g \<in> set (retired s) \<Longrightarrow> blob_like (g_path g)"
    and "u \<in> set (uploads s) \<Longrightarrow> v \<in> set (uploads s) \<Longrightarrow> u_id u = u_id v \<Longrightarrow> u = v"
  using assms by (auto simp: ok_def tables_ok_def distinct_map dest: inj_onD)

lemma blob_disk:
  "(\<And>p. \<not> blob_like p \<Longrightarrow> f p = g p) \<Longrightarrow> staged_like p \<Longrightarrow> f p = g p"
  using blob_not_staged by blast

text \<open>A frame for steps on files that keep every reservation.\<close>

lemma inv_files:
  assumes i: "transfer_inv digest y" and st: "in_flight_staged y"
    and u: "uploads s' = uploads (sys_store y)"
    and f: "\<And>row'. row' \<in> set (files s') \<Longrightarrow> 1 \<le> f_version row' \<and>
        (f_id row' \<notin> f_id ` set (files (sys_store y))
         \<or> (\<exists>row\<in>set (files (sys_store y)). f_id row = f_id row' \<and> f_user row = f_user row'
              \<and> (f_version row' = 1 \<longrightarrow> f_version row = 1 \<and> f_sha row = f_sha row' \<and> f_size row = f_size row')))"
    and ids: "f_id ` set (files (sys_store y)) \<subseteq> f_id ` set (files s')"
    and c: "clock (sys_store y) \<le> clock s'"
    and d: "\<And>p. staged_like p \<Longrightarrow> disk s' p = disk (sys_store y) p
        \<or> disk s' p = None \<and> (\<forall>u\<in>set (uploads s'). u_path u = p \<longrightarrow> \<not> clock s' < u_expires u)"
  shows "transfer_inv digest (y\<lparr>sys_store := s'\<rparr>)"
proof (rule inv_frame [OF i, where g = id and R = "\<lambda>_. True"])
  show "fid \<in> f_id ` set (files s')" if "u \<in> set (uploads s')" "u_file u = Some fid" for u fid
    using that i ids unfolding transfer_inv_def upload_ok_def u by blast
  show "staged_like (u_path (h_row h))" if "h \<in> set (requests y)" for h
    using st that by (simp add: in_flight_staged_def)
qed (use u f c d in auto)

lemma same_row: "row \<in> set (files s) \<Longrightarrow> \<forall>r\<in>set (files s). 1 \<le> f_version r \<Longrightarrow>
  1 \<le> f_version row \<and> (f_id row \<notin> f_id ` set (files s) \<or> (\<exists>r\<in>set (files s). f_id r = f_id row \<and> f_user r = f_user row
     \<and> (f_version row = 1 \<longrightarrow> f_version r = 1 \<and> f_sha r = f_sha row \<and> f_size r = f_size row)))"
  by blast

lemma inv_same_rows:
  assumes i: "transfer_inv digest y" and st: "in_flight_staged y"
    and u: "uploads s' = uploads (sys_store y)" and f: "files s' = files (sys_store y)"
    and c: "clock (sys_store y) \<le> clock s'"
    and d: "\<And>p. staged_like p \<Longrightarrow> disk s' p = disk (sys_store y) p
        \<or> disk s' p = None \<and> (\<forall>u\<in>set (uploads s'). u_path u = p \<longrightarrow> \<not> clock s' < u_expires u)"
  shows "transfer_inv digest (y\<lparr>sys_store := s'\<rparr>)"
proof (rule inv_files [OF i st u _ _ c d])
  have vs: "\<forall>r\<in>set (files (sys_store y)). 1 \<le> f_version r" using i by (simp add: transfer_inv_def)
  show "1 \<le> f_version row' \<and> (f_id row' \<notin> f_id ` set (files (sys_store y))
         \<or> (\<exists>row\<in>set (files (sys_store y)). f_id row = f_id row' \<and> f_user row = f_user row'
              \<and> (f_version row' = 1 \<longrightarrow> f_version row = 1 \<and> f_sha row = f_sha row' \<and> f_size row = f_size row')))"
    if "row' \<in> set (files s')" for row'
    using same_row [OF _ vs] that unfolding f by blast
qed (simp_all add: f)

lemma create_inv:
  assumes i: "transfer_inv digest y" and st: "in_flight_staged y" and w: "fits resolve root digest lost w"
    and c: "create_file w draws user basename blob source tool expires mime provenance access None (sys_store y) = (s', r)"
  shows "transfer_inv digest (y\<lparr>sys_store := s'\<rparr>)"
proof (cases "s' = sys_store y")
  case True
  then show ?thesis using i by simp
next
  case False
  then obtain row where row: "insert_file w row blob None (sys_store y) = (s', r)" "f_version row = 1"
    "blob_path (w_resolve w) (w_root w) user (generate_file_id draws) = Inr (f_path row)"
    using c by (auto simp: create_file_def upload_check_def Let_def split: if_splits option.splits sum.splits)
  have away: "p \<noteq> f_path row" if "staged_like p" for p
    using blob_path_like [OF row(3)] blob_not_staged that by blast
  have vs: "\<forall>r\<in>set (files (sys_store y)). 1 \<le> f_version r" using i by (simp add: transfer_inv_def)
  from row(1) show ?thesis
  proof (cases rule: insert_file_cases)
    case unchanged
    show ?thesis
      by (rule inv_same_rows [OF i st]) (use unchanged away in auto)
  next
    case inserted
    have "1 \<le> f_version row' \<and> (f_id row' \<notin> f_id ` set (files (sys_store y))
         \<or> (\<exists>row\<in>set (files (sys_store y)). f_id row = f_id row' \<and> f_user row = f_user row'
              \<and> (f_version row' = 1 \<longrightarrow> f_version row = 1 \<and> f_sha row = f_sha row' \<and> f_size row = f_size row')))"
      if "row' \<in> set (files s')" for row'
      using that inserted(1,5) row(2) same_row [OF _ vs, of row'] by auto
    then show ?thesis
      using inserted away by (intro inv_files [OF i st]) (auto simp: completed_uploads_def)
  qed
qed

lemma ids_of_map:
  "fs' = map g fs \<Longrightarrow> (\<And>r. f_id (g r) = f_id r) \<Longrightarrow> f_id ` set fs \<subseteq> f_id ` set fs'"
  by (simp add: image_image)

lemma update_inv:
  assumes i: "transfer_inv digest y" and st: "in_flight_staged y" and o: "ok digest lost (sys_store y)"
    and f: "fresh_version token fid user (sys_store y)"
    and c: "update_transaction w token fid user blob tool expected (sys_store y) = (s', r)"
  shows "transfer_inv digest (y\<lparr>sys_store := s'\<rparr>)"
proof (cases "s' = sys_store y")
  case True
  then show ?thesis using i by simp
next
  case False
  let ?s = "sys_store y"
  obtain row access where row: "find_file fid user ?s = Some row" "replace_blob w token row access blob tool ?s = (s', r)"
    using False c by (auto simp: update_transaction_def split: if_splits option.splits sum.splits)
  note found = find_file_Some [OF row(1)]
  have "blob_like (version_path row token)"
    using tables_paths(1) [OF o found(1)] f version_path_like by (auto simp: fresh_version_def)
  then have away: "p \<noteq> version_path row token" if "staged_like p" for p
    using that blob_not_staged by blast
  have vs: "\<forall>r\<in>set (files ?s). 1 \<le> f_version r" using i by (simp add: transfer_inv_def)
  from row(2) show ?thesis
  proof (cases rule: replace_blob_cases)
    case unchanged
    show ?thesis by (rule inv_same_rows [OF i st]) (use unchanged away in auto)
  next
    case (replaced row')
    have row': "f_id row' = f_id row" "f_user row' = f_user row" "f_version row' = Suc (f_version row)"
      by (simp_all add: replaced(1))
    show ?thesis
    proof (rule inv_files [OF i st])
      show "f_id ` set (files ?s) \<subseteq> f_id ` set (files s')"
        by (rule ids_of_map [OF replaced(2)]) (simp add: row'(1))
      show "1 \<le> f_version x \<and> (f_id x \<notin> f_id ` set (files ?s)
         \<or> (\<exists>row\<in>set (files ?s). f_id row = f_id x \<and> f_user row = f_user x
              \<and> (f_version x = 1 \<longrightarrow> f_version row = 1 \<and> f_sha row = f_sha x \<and> f_size row = f_size x)))"
        if xin: "x \<in> set (files s')" for x
      proof (cases "x = row'")
        case True
        then show ?thesis using row' found(1) vs by force
      next
        case False
        then have "x \<in> set (files ?s)" using xin unfolding replaced(2) by (auto split: if_splits)
        then show ?thesis using same_row [OF _ vs] by blast
      qed
    qed (use replaced away in auto)
  qed
qed

lemma delete_inv:
  assumes i: "transfer_inv digest y" and st: "in_flight_staged y"
  shows "transfer_inv digest (y\<lparr>sys_store := fst (soft_delete fid user (sys_store y))\<rparr>)"
proof (rule inv_files [OF i st])
  let ?s = "sys_store y" and ?s' = "fst (soft_delete fid user (sys_store y))"
  have vs: "\<forall>r\<in>set (files ?s). 1 \<le> f_version r" using i by (simp add: transfer_inv_def)
  have f: "files ?s' = map (\<lambda>row. if f_id row = fid \<and> f_user row = user \<and> f_deleted row = None
      then row\<lparr>f_deleted := Some (clock ?s)\<rparr> else row) (files ?s)"
    by (simp add: soft_delete_def Let_def)
  show "f_id ` set (files ?s) \<subseteq> f_id ` set (files ?s')" by (rule ids_of_map [OF f]) simp
  show "1 \<le> f_version x \<and> (f_id x \<notin> f_id ` set (files ?s)
         \<or> (\<exists>row\<in>set (files ?s). f_id row = f_id x \<and> f_user row = f_user x
              \<and> (f_version x = 1 \<longrightarrow> f_version row = 1 \<and> f_sha row = f_sha x \<and> f_size row = f_size x)))"
    if xin: "x \<in> set (files ?s')" for x
  proof -
    obtain r where "r \<in> set (files ?s)" "f_id r = f_id x" "f_user r = f_user x" "f_version r = f_version x"
      "f_sha r = f_sha x" "f_size r = f_size x"
      using xin unfolding f by (auto split: if_splits)
    then show ?thesis using vs by fastforce
  qed
qed (simp_all add: soft_delete_def Let_def)

lemma collect_one_inv:
  assumes i: "transfer_inv digest y" and st: "in_flight_staged y" and o: "ok digest lost (sys_store y)"
  shows "transfer_inv digest (y\<lparr>sys_store := collect_one unlinks commits (sys_store y) p\<rparr>)"
proof (rule inv_same_rows [OF i st])
  fix q assume "staged_like q"
  then have "p \<in> g_path ` set (retired (sys_store y)) \<Longrightarrow> q \<noteq> p"
    using tables_paths(3) [OF o] blob_not_staged by blast
  then show "disk (collect_one unlinks commits (sys_store y) p) q = disk (sys_store y) q
      \<or> disk (collect_one unlinks commits (sys_store y) p) q = None
        \<and> (\<forall>u\<in>set (uploads (collect_one unlinks commits (sys_store y) p)). u_path u = q
             \<longrightarrow> \<not> clock (collect_one unlinks commits (sys_store y) p) < u_expires u)"
    by (auto simp: collect_one_def commit_def unlink_def Let_def)
qed (auto simp: collect_one_def commit_def unlink_def Let_def)

lemma sweep_inv:
  assumes i: "transfer_inv digest y" and st: "in_flight_staged y"
  shows "transfer_inv digest (y\<lparr>sys_store := reconcile_orphans resolve root symlink unlinks (sys_store y)\<rparr>)"
proof (rule inv_same_rows [OF i st])
  let ?s' = "reconcile_orphans resolve root symlink unlinks (sys_store y)"
  show "disk ?s' q = disk (sys_store y) q \<or> disk ?s' q = None \<and> (\<forall>u\<in>set (uploads ?s'). u_path u = q \<longrightarrow> \<not> clock ?s' < u_expires u)" for q
  proof (cases "q \<in> referenced (sys_store y)")
    case True
    then show ?thesis using reconcile_keeps by blast
  next
    case False
    then have "u_path u \<noteq> q" if "u \<in> set (uploads ?s')" for u
      using that by (auto simp: referenced_def reconcile_orphans_def Let_def)
    moreover have "disk ?s' q = disk (sys_store y) q \<or> disk ?s' q = None"
      by (auto simp: reconcile_orphans_def Let_def split: option.splits)
    ultimately show ?thesis by blast
  qed
qed (simp_all add: reconcile_orphans_def Let_def)

lemma tick_inv:
  assumes "transfer_inv digest y" and "in_flight_staged y" and "clock (sys_store y) \<le> now"
  shows "transfer_inv digest (y\<lparr>sys_store := (sys_store y)\<lparr>clock := now\<rparr>\<rparr>)"
  by (rule inv_same_rows [OF assms(1,2)]) (use assms(3) in auto)

section \<open>Collection of files and uploads\<close>

lemma gc_file_inv:
  assumes i: "transfer_inv digest y" and st: "in_flight_staged y" and o: "ok digest lost (sys_store y)"
  shows "transfer_inv digest (y\<lparr>sys_store := commit c (sys_store y) (fst (gc_file unlinks fid (sys_store y)))\<rparr>)"
proof (cases "List.find (\<lambda>row. f_id row = fid \<and> gone (clock (sys_store y)) row) (files (sys_store y))")
  case None
  then show ?thesis using i by (simp add: gc_file_def commit_def)
next
  case (Some row)
  let ?s = "sys_store y" and ?t = "fst (gc_file unlinks fid (sys_store y))"
  let ?s' = "commit c ?s ?t" and ?both = "unlinks (f_path row) \<and> unlinks (receiving (f_path row))"
  have row: "row \<in> set (files ?s)" using find_SomeD [OF Some] by blast
  have vs: "\<forall>r\<in>set (files ?s). 1 \<le> f_version r" using i by (simp add: transfer_inv_def)
  have away: "q \<noteq> f_path row" "q \<noteq> receiving (f_path row)" if "staged_like q" for q
    using that tables_paths(1) [OF o row] blob_not_staged staged_not_receiving by blast+
  have t: "clock ?t = clock ?s"
    "uploads ?t = (if ?both then map (\<lambda>u. if u_file u = Some fid then u\<lparr>u_file := None\<rparr> else u) (uploads ?s) else uploads ?s)"
    "files ?t = (if ?both then filter (\<lambda>r. f_id r \<noteq> fid) (files ?s)
       else map (\<lambda>r. if f_id r = fid then r\<lparr>f_deleted := (case f_deleted r of None \<Rightarrow> Some (clock ?s) | Some t \<Rightarrow> Some t)\<rparr> else r) (files ?s))"
    "q \<noteq> f_path row \<Longrightarrow> q \<noteq> receiving (f_path row) \<Longrightarrow> disk ?t q = disk ?s q" for q
    using Some by (auto simp: gc_file_def Let_def unlink_def)
  have d: "clock ?s' = clock ?s" "staged_like q \<Longrightarrow> disk ?s' q = disk ?s q" for q
    using t(1,4) away by (auto simp: commit_def)
  show ?thesis
  proof (cases "c \<noteq> CommitFailed \<and> ?both")
    case True
    then have tables: "uploads ?s' = map (\<lambda>u. if u_file u = Some fid then u\<lparr>u_file := None\<rparr> else u) (filter (\<lambda>_. True) (uploads ?s))"
      "files ?s' = filter (\<lambda>r. f_id r \<noteq> fid) (files ?s)"
      using t(2,3) by (simp_all add: commit_def)
    show ?thesis
    proof (rule inv_frame [OF i tables(1)])
      show "k \<in> f_id ` set (files ?s')" if uin: "u \<in> set (uploads ?s')" and uf: "u_file u = Some k" for u k
      proof -
        obtain v where v: "v \<in> set (uploads ?s)" "u_file v = Some k" "k \<noteq> fid"
          using uin uf unfolding tables(1) by (auto split: if_splits)
        then have "k \<in> f_id ` set (files ?s)" using i unfolding transfer_inv_def upload_ok_def by blast
        then show ?thesis using v(3) unfolding tables(2) by auto
      qed
      show "1 \<le> f_version x \<and> (f_id x \<notin> f_id ` set (files ?s)
         \<or> (\<exists>row\<in>set (files ?s). f_id row = f_id x \<and> f_user row = f_user x
              \<and> (f_version x = 1 \<longrightarrow> f_version row = 1 \<and> f_sha row = f_sha x \<and> f_size row = f_size x)))"
        if "x \<in> set (files ?s')" for x
        using that same_row [OF _ vs] unfolding tables(2) by simp
      show "staged_like (u_path (h_row h))" if "h \<in> set (requests y)" for h
        using st that by (simp add: in_flight_staged_def)
    qed (use d in auto)
  next
    case False
    then obtain g where g: "files ?s' = map g (files ?s)" "\<And>r. f_id (g r) = f_id r \<and> f_user (g r) = f_user r
        \<and> f_version (g r) = f_version r \<and> f_sha (g r) = f_sha r \<and> f_size (g r) = f_size r" and u: "uploads ?s' = uploads ?s"
    proof (cases "c = CommitFailed")
      case True
      then show thesis by (intro that [of id]) (simp_all add: commit_def)
    next
      case not_failed: False
      then have nb: "\<not> ?both" using False by blast
      have c: "?s' = ?t" using not_failed by (simp add: commit_def)
      show thesis
      proof (rule that [of "\<lambda>r. if f_id r = fid
          then r\<lparr>f_deleted := (case f_deleted r of None \<Rightarrow> Some (clock ?s) | Some t \<Rightarrow> Some t)\<rparr> else r"])
        show "files ?s' = map (\<lambda>r. if f_id r = fid
          then r\<lparr>f_deleted := (case f_deleted r of None \<Rightarrow> Some (clock ?s) | Some t \<Rightarrow> Some t)\<rparr> else r) (files ?s)"
          unfolding c t(3) using nb by (simp only: if_False)
        show "uploads ?s' = uploads ?s" unfolding c t(2) using nb by (simp only: if_False)
      qed auto
    qed
    show ?thesis
    proof (rule inv_files [OF i st u])
      show "f_id ` set (files ?s) \<subseteq> f_id ` set (files ?s')" by (rule ids_of_map [OF g(1)]) (simp add: g(2))
      show "1 \<le> f_version x \<and> (f_id x \<notin> f_id ` set (files ?s)
         \<or> (\<exists>row\<in>set (files ?s). f_id row = f_id x \<and> f_user row = f_user x
              \<and> (f_version x = 1 \<longrightarrow> f_version row = 1 \<and> f_sha row = f_sha x \<and> f_size row = f_size x)))"
        if xin: "x \<in> set (files ?s')" for x
      proof -
        obtain r where "r \<in> set (files ?s)" "x = g r" using xin unfolding g(1) by auto
        then show ?thesis using g(2) vs by metis
      qed
    qed (use d in auto)
  qed
qed

lemma gc_upload_inv:
  assumes i: "transfer_inv digest y" and st: "in_flight_staged y" and o: "ok digest lost (sys_store y)"
  shows "transfer_inv digest (y\<lparr>sys_store := commit c (sys_store y) (gc_upload unlinks uid (sys_store y))\<rparr>)"
proof (cases "List.find (\<lambda>row. u_id row = uid \<and> u_expires row \<le> clock (sys_store y)) (uploads (sys_store y))")
  case None
  then show ?thesis using i by (simp add: gc_upload_def commit_def)
next
  case (Some row)
  let ?s = "sys_store y" and ?t = "gc_upload unlinks uid (sys_store y)"
  let ?s' = "commit c ?s ?t" and ?both = "unlinks (u_path row) \<and> unlinks (receiving (u_path row))"
  have row: "row \<in> set (uploads ?s)" "u_expires row \<le> clock ?s" using find_SomeD [OF Some] by blast+
  have vs: "\<forall>r\<in>set (files ?s). 1 \<le> f_version r" using i by (simp add: transfer_inv_def)
  have t: "clock ?t = clock ?s" "files ?t = files ?s"
    "uploads ?t = (if ?both then filter (\<lambda>r. u_id r \<noteq> uid) (uploads ?s) else uploads ?s)"
    "q \<noteq> u_path row \<Longrightarrow> q \<noteq> receiving (u_path row) \<Longrightarrow> disk ?t q = disk ?s q"
    "disk ?t (u_path row) = disk ?s (u_path row) \<or> disk ?t (u_path row) = None" for q
    using Some by (auto simp: gc_upload_def Let_def unlink_def)
  have s': "clock ?s' = clock ?s" "files ?s' = files ?s" "disk ?s' = disk ?t"
    "uploads ?s' = map id (filter (\<lambda>r. c = CommitFailed \<or> \<not> ?both \<or> u_id r \<noteq> uid) (uploads ?s))"
    using t by (auto simp: commit_def)
  show ?thesis
  proof (rule inv_frame [OF i s'(4)])
    show "k \<in> f_id ` set (files ?s')" if uin: "u \<in> set (uploads ?s')" and uf: "u_file u = Some k" for u k
    proof -
      have "u \<in> set (uploads ?s)" using uin unfolding s'(4) by auto
      then show ?thesis using i uf unfolding transfer_inv_def upload_ok_def s'(2) by blast
    qed
    show "1 \<le> f_version x \<and> (f_id x \<notin> f_id ` set (files ?s)
         \<or> (\<exists>row\<in>set (files ?s). f_id row = f_id x \<and> f_user row = f_user x
              \<and> (f_version x = 1 \<longrightarrow> f_version row = 1 \<and> f_sha row = f_sha x \<and> f_size row = f_size x)))"
      if "x \<in> set (files ?s')" for x
      using that same_row [OF _ vs] unfolding s'(2) by simp
    show "staged_like (u_path (h_row h))" if "h \<in> set (requests y)" for h
      using st that by (simp add: in_flight_staged_def)
    show "disk ?s' p = disk ?s p \<or> disk ?s' p = None \<and> (\<forall>u\<in>set (uploads ?s'). u_path u = p \<longrightarrow> \<not> clock ?s' < u_expires u)"
      if p: "staged_like p" for p
    proof (cases "p = u_path row")
      case True
      have "\<not> clock ?s' < u_expires u" if uin: "u \<in> set (uploads ?s')" and up: "u_path u = p" for u
      proof -
        have u: "u \<in> set (uploads ?s)" using uin unfolding s'(4) by auto
        then have "u_id u = u_id row" using tables_paths(2) [OF o] row(1) up True by metis
        then have "u = row" using tables_paths(4) [OF o u row(1)] by blast
        then show ?thesis using row(2) s'(1) by simp
      qed
      then show ?thesis using t(5) True s'(3) by metis
    next
      case False
      then show ?thesis using t(4) staged_not_receiving [OF p] s'(3) by metis
    qed
  qed (simp_all add: s'(1))
qed

section \<open>Steps of a request\<close>

text \<open>What each part of the invariant needs of a step that changes reservations, requests or deliveries.\<close>

lemma request_mono:
  assumes "request_ok s del h" and "u_id (h_row h) \<notin> fst ` set del'"
    and "\<And>u'. u' \<in> set (uploads s') \<Longrightarrow> u_id u' = u_id (h_row h)
      \<Longrightarrow> \<exists>u\<in>set (uploads s). same_upload u' u \<and> (u_state u = Receiving \<longrightarrow> u_state u' = Receiving)"
    and "clock s' = clock s" and "disk s' (u_path (h_row h)) = disk s (u_path (h_row h))"
  shows "request_ok s' del' h"
proof -
  have "u_state u' = Receiving \<and> same_upload u' (h_row h)
      \<and> (h_replaced h \<and> clock s' < u_expires u' \<longrightarrow> (\<exists>t. disk s' (u_path (h_row h)) = Some (h_received h, t)))"
    if u': "u' \<in> set (uploads s')" "u_id u' = u_id (h_row h)" for u'
  proof -
    obtain u where u: "u \<in> set (uploads s)" "same_upload u' u" "u_state u = Receiving \<longrightarrow> u_state u' = Receiving"
      using assms(3) [OF u'] by blast
    have "u_id u = u_id (h_row h)" "u_expires u = u_expires u'" using u(2) u'(2) by (simp_all add: same_upload_def)
    then have "u_state u = Receiving" "same_upload u (h_row h)"
      "h_replaced h \<and> clock s < u_expires u' \<longrightarrow> (\<exists>t. disk s (u_path (h_row h)) = Some (h_received h, t))"
      using assms(1) u(1) unfolding request_ok_def by metis+
    then show ?thesis using u(2,3) assms(4,5) same_upload_trans by auto
  qed
  then show ?thesis using assms(1,2) unfolding request_ok_def by blast
qed

lemma delivery_mono:
  assumes "delivery_ok s (k, p, b)"
    and "\<And>u'. u' \<in> set (uploads s') \<Longrightarrow> u_id u' = k \<Longrightarrow> \<exists>u\<in>set (uploads s). same_upload u' u
      \<and> (u_state u \<in> {Uploaded, Complete} \<longrightarrow> u_state u' = u_state u)"
    and "clock s' = clock s" and "disk s' p = disk s p"
  shows "delivery_ok s' (k, p, b)"
proof -
  have "u_state u' \<in> {Uploaded, Complete} \<and> u_path u' = p \<and> u_size u' = length b
      \<and> (u_state u' = Uploaded \<and> clock s' < u_expires u' \<longrightarrow> disk s' p \<noteq> None)"
    if u': "u' \<in> set (uploads s')" "u_id u' = k" for u'
  proof -
    obtain u where u: "u \<in> set (uploads s)" "same_upload u' u" "u_state u \<in> {Uploaded, Complete} \<longrightarrow> u_state u' = u_state u"
      using assms(2) [OF u'] by blast
    have e: "u_id u = k" "u_path u = u_path u'" "u_size u = u_size u'" "u_expires u = u_expires u'"
      using u(2) u'(2) by (simp_all add: same_upload_def)
    then have "u_state u \<in> {Uploaded, Complete} \<and> u_path u = p \<and> u_size u = length b
      \<and> (u_state u = Uploaded \<and> clock s < u_expires u \<longrightarrow> disk s p \<noteq> None)"
      using assms(1) u(1) unfolding delivery_ok_def by blast
    then show ?thesis using u(3) e assms(3,4) by metis
  qed
  then show ?thesis using assms(1,4) unfolding delivery_ok_def by simp
qed

lemma completion_mono:
  assumes "completion_ok s del c" and "set del \<subseteq> set del'"
    and "\<And>u'. u' \<in> set (uploads s') \<Longrightarrow> u_id u' = u_id (fst c) \<Longrightarrow> \<exists>u\<in>set (uploads s). same_upload u' u"
  shows "completion_ok s' del' c"
proof -
  obtain u r where c: "c = (u, r)" by (cases c)
  have "same_upload v' u" if v': "v' \<in> set (uploads s')" "u_id v' = u_id u" for v'
  proof -
    obtain v where v: "v \<in> set (uploads s)" "same_upload v' v" using assms(3) v' c by auto
    then have "same_upload v u" using assms(1) v'(2) by (auto simp: c completion_ok_def same_upload_def)
    then show ?thesis using v(2) same_upload_trans by blast
  qed
  then show ?thesis using assms(1,2) unfolding c completion_ok_def by blast
qed

lemma upload_mono:
  assumes "upload_ok digest s del u" and "same_upload u' u" and "u_file u' = u_file u"
    and "u_state u' \<in> {Uploaded, Complete} \<Longrightarrow> u_id u \<in> fst ` set del'" and "u_state u = Complete \<Longrightarrow> u_state u' = Complete"
    and "files s' = files s"
    and "\<And>v'. v' \<in> set (uploads s') \<Longrightarrow> u_file v' \<noteq> None \<Longrightarrow> \<exists>v\<in>set (uploads s). u_id v = u_id v' \<and> u_file v = u_file v'"
    and "\<And>p d. u_file u \<noteq> None \<Longrightarrow> (u_id u, p, d) \<in> set del' \<Longrightarrow> (u_id u, p, d) \<in> set del"
  shows "upload_ok digest s' del' u'"
proof -
  have e: "u_id u' = u_id u" "u_user u' = u_user u" using assms(2) by (simp_all add: same_upload_def)
  have "u_state u' = Complete \<and> fid \<in> f_id ` set (files s') \<and> (\<forall>row\<in>set (files s'). f_id row = fid \<longrightarrow> file_of digest del' u' row)
        \<and> (\<forall>w\<in>set (uploads s'). u_file w = Some fid \<longrightarrow> u_id w = u_id u')" if f: "u_file u' = Some fid" for fid
  proof -
    have k: "u_state u = Complete" "fid \<in> f_id ` set (files s)" "\<forall>row\<in>set (files s). f_id row = fid \<longrightarrow> file_of digest del u row"
      "\<forall>w\<in>set (uploads s). u_file w = Some fid \<longrightarrow> u_id w = u_id u"
      using assms(1) f unfolding upload_ok_def assms(3) by blast+
    have "file_of digest del' u' row" if "file_of digest del u row" for row
    proof -
      have "u_file u \<noteq> None" by (metis assms(3) f option.distinct(1))
      then show ?thesis using that assms(8) unfolding file_of_def e by metis
    qed
    then show ?thesis using k assms(5,6,7) e by (metis option.distinct(1))
  qed
  then show ?thesis using assms(4) unfolding upload_ok_def e(1) by blast
qed

lemma invD:
  assumes "transfer_inv digest y"
  shows "distinct (map (\<lambda>h. u_id (h_row h)) (requests y))" "distinct (map fst (delivered y))"
    "\<And>row. row \<in> set (files (sys_store y)) \<Longrightarrow> 1 \<le> f_version row"
    "\<And>h. h \<in> set (requests y) \<Longrightarrow> request_ok (sys_store y) (delivered y) h"
    "\<And>d. d \<in> set (delivered y) \<Longrightarrow> delivery_ok (sys_store y) d"
    "\<And>c. c \<in> set (completions y) \<Longrightarrow> completion_ok (sys_store y) (delivered y) c"
    "\<And>u. u \<in> set (uploads (sys_store y)) \<Longrightarrow> upload_ok digest (sys_store y) (delivered y) u"
  using assms by (auto simp: transfer_inv_def)

text \<open>
  A step that changes the states of reservations, but of no delivered one, and that keeps files, clock
  and staged bytes.
\<close>

lemma inv_states:
  assumes i: "transfer_inv digest y"
    and u: "uploads s' = map g (uploads (sys_store y))"
      "\<And>u. same_upload (g u) u \<and> u_file (g u) = u_file u"
      "\<And>u. u_state u \<in> {Uploaded, Complete} \<Longrightarrow> u_state (g u) = u_state u"
      "\<And>u. u_state (g u) \<in> {Uploaded, Complete} \<Longrightarrow> u_state u \<in> {Uploaded, Complete}"
    and f: "files s' = files (sys_store y)" and c: "clock s' = clock (sys_store y)"
    and hs: "distinct (map (\<lambda>h. u_id (h_row h)) hs)"
      "\<And>h. h \<in> set hs \<Longrightarrow> request_ok s' (delivered y) h"
    and d: "\<And>k p b. (k, p, b) \<in> set (delivered y) \<Longrightarrow> disk s' p = disk (sys_store y) p"
  shows "transfer_inv digest (y\<lparr>sys_store := s', requests := hs\<rparr>)"
proof -
  let ?s = "sys_store y"
  note I = invD [OF i]
  have old: "\<exists>u\<in>set (uploads ?s). same_upload u' u \<and> u_file u' = u_file u
      \<and> (u_state u \<in> {Uploaded, Complete} \<longrightarrow> u_state u' = u_state u)" if uin: "u' \<in> set (uploads s')" for u'
  proof -
    obtain v where "v \<in> set (uploads ?s)" "u' = g v" using uin unfolding u(1) by auto
    then show ?thesis using u(2,3) by blast
  qed
  have "delivery_ok s' e" if ein: "e \<in> set (delivered y)" for e
  proof -
    obtain k p b where e: "e = (k, p, b)" by (cases e)
    show ?thesis unfolding e
      by (rule delivery_mono [OF I(5) [OF ein, unfolded e] _ c d]) (use old ein e in auto)
  qed
  moreover have "completion_ok s' (delivered y) e" if "e \<in> set (completions y)" for e
    by (rule completion_mono [OF I(6) [OF that]]) (use old in auto)
  moreover have "upload_ok digest s' (delivered y) u'" if uin: "u' \<in> set (uploads s')" for u'
  proof -
    obtain v where v: "v \<in> set (uploads ?s)" "u' = g v" using uin unfolding u(1) by auto
    have vs: "u_state v \<in> {Uploaded, Complete} \<longrightarrow> u_id v \<in> fst ` set (delivered y)"
      using I(7) [OF v(1)] by (simp add: upload_ok_def)
    have st: "u_state u' \<in> {Uploaded, Complete} \<Longrightarrow> u_id v \<in> fst ` set (delivered y)"
      "u_state v = Complete \<Longrightarrow> u_state u' = Complete"
      using vs u(3) [of v] u(4) [of v] v(2) by auto
    have vv: "same_upload u' v" "u_file u' = u_file v" using u(2) [of v] v(2) by simp_all
    have owner: "\<exists>w\<in>set (uploads ?s). u_id w = u_id v' \<and> u_file w = u_file v'" if "v' \<in> set (uploads s')" for v'
      using old [OF that] by (auto simp: same_upload_def)
    show ?thesis by (rule upload_mono [OF I(7) [OF v(1)] vv st f]) (use owner in auto)
  qed
  ultimately show ?thesis using I(2,3) hs f unfolding transfer_inv_def by simp
qed

text \<open>The staged path of a request is nobody else's.\<close>

lemma request_path_apart:
  assumes i: "transfer_inv digest y" and st: "in_flight_staged y" and h: "h \<in> set (requests y)"
  shows "(k, p, b) \<in> set (delivered y) \<Longrightarrow> p \<noteq> u_path (h_row h) \<and> p \<noteq> receiving (u_path (h_row h))"
    and "h' \<in> set (requests y) \<Longrightarrow> u_id (h_row h') \<noteq> u_id (h_row h)
      \<Longrightarrow> u_path (h_row h') \<noteq> u_path (h_row h) \<and> u_path (h_row h') \<noteq> receiving (u_path (h_row h))"
proof -
  note I = invD [OF i]
  have r: "request_ok (sys_store y) (delivered y) h" using I(4) [OF h] .
  show "p \<noteq> u_path (h_row h) \<and> p \<noteq> receiving (u_path (h_row h))" if d: "(k, p, b) \<in> set (delivered y)"
  proof -
    have "staged_like p" "last p = k" using I(5) [OF d] by (simp_all add: delivery_ok_def)
    moreover have "k \<in> fst ` set (delivered y)" using d by force
    ultimately show ?thesis using r staged_not_receiving unfolding request_ok_def by metis
  qed
  show "u_path (h_row h') \<noteq> u_path (h_row h) \<and> u_path (h_row h') \<noteq> receiving (u_path (h_row h))"
    if h': "h' \<in> set (requests y)" "u_id (h_row h') \<noteq> u_id (h_row h)"
    using I(4) [OF h'(1)] r h' st staged_not_receiving unfolding request_ok_def in_flight_staged_def by metis
qed

lemma requests_split:
  assumes d: "distinct (map (\<lambda>h. u_id (h_row h)) (hs @ h # hs'))"
  shows "distinct (map (\<lambda>h. u_id (h_row h)) (hs @ hs'))"
    and "x \<in> set (hs @ hs') \<Longrightarrow> u_id (h_row x) \<noteq> u_id (h_row h)"
    and "h_row h2 = h_row h \<Longrightarrow> distinct (map (\<lambda>h. u_id (h_row h)) (hs @ h2 # hs'))"
proof -
  show "u_id (h_row x) \<noteq> u_id (h_row h)" if "x \<in> set (hs @ hs')"
  proof -
    have "u_id (h_row h) \<notin> (\<lambda>h. u_id (h_row h)) ` set (hs @ hs')" using d by auto
    then show ?thesis using that by (metis imageI)
  qed
qed (use d in auto)

lemma request_disk_inv:
  assumes i: "transfer_inv digest y" and st: "in_flight_staged y" and hs: "requests y = hs @ h # hs'"
    and d: "\<And>p. p \<noteq> u_path (h_row h) \<Longrightarrow> p \<noteq> receiving (u_path (h_row h)) \<Longrightarrow> f p = disk (sys_store y) p"
    and h2: "h_row h2 = h_row h" and new: "request_ok ((sys_store y)\<lparr>disk := f\<rparr>) (delivered y) h2"
  shows "transfer_inv digest (y\<lparr>sys_store := (sys_store y)\<lparr>disk := f\<rparr>, requests := hs @ h2 # hs'\<rparr>)"
proof (rule inv_states [OF i, where g = id])
  let ?s' = "(sys_store y)\<lparr>disk := f\<rparr>"
  note I = invD [OF i]
  have hin: "h \<in> set (requests y)" using hs by simp
  note dist = requests_split [OF I(1) [unfolded hs]]
  show "distinct (map (\<lambda>h. u_id (h_row h)) (hs @ h2 # hs'))" using dist(3) [OF h2] .
  show "request_ok ?s' (delivered y) x" if xin: "x \<in> set (hs @ h2 # hs')" for x
  proof (cases "x = h2")
    case True
    then show ?thesis using new by simp
  next
    case False
    then have x: "x \<in> set (hs @ hs')" using xin by auto
    then have xr: "x \<in> set (requests y)" using hs by auto
    have path: "u_path (h_row x) \<noteq> u_path (h_row h)" "u_path (h_row x) \<noteq> receiving (u_path (h_row h))"
      using request_path_apart(2) [OF i st hin xr dist(2) [OF x]] by auto
    show ?thesis
    proof (rule request_mono [OF I(4) [OF xr]])
      show "u_id (h_row x) \<notin> fst ` set (delivered y)" using I(4) [OF xr] by (simp add: request_ok_def)
      show "disk ?s' (u_path (h_row x)) = disk (sys_store y) (u_path (h_row x))" using d path by simp
    qed (auto intro: same_upload_refl)
  qed
  show "disk ?s' p = disk (sys_store y) p" if "(k, p, b) \<in> set (delivered y)" for k p b
    using d request_path_apart(1) [OF i st hin that] by simp
qed simp_all

lemma open_inv:
  assumes i: "transfer_inv digest y" and st: "in_flight_staged y" and hs: "requests y = hs @ h # hs'" and nr: "\<not> h_replaced h"
  shows "transfer_inv digest (y\<lparr>sys_store := open_temporary h (sys_store y)\<rparr>)"
proof -
  let ?f = "(disk (sys_store y))(receiving (u_path (h_row h)) := Some ([], clock (sys_store y)))"
  have h: "request_ok (sys_store y) (delivered y) h" using invD(4) [OF i] hs by simp
  have "request_ok ((sys_store y)\<lparr>disk := ?f\<rparr>) (delivered y) h" using h nr by (simp add: request_ok_def)
  then have "transfer_inv digest (y\<lparr>sys_store := (sys_store y)\<lparr>disk := ?f\<rparr>, requests := hs @ h # hs'\<rparr>)"
    using request_disk_inv [OF i st hs, of ?f h] by simp
  then show ?thesis by (simp add: open_temporary_def hs [symmetric])
qed

lemma receive_inv:
  assumes i: "transfer_inv digest y" and st: "in_flight_staged y" and hs: "requests y = hs @ h # hs'" and nr: "\<not> h_replaced h"
    and c: "receive_chunk chunk h (sys_store y) = Some (s', h')"
  shows "transfer_inv digest (y\<lparr>sys_store := s', requests := hs @ h' # hs'\<rparr>)"
proof -
  let ?f = "(disk (sys_store y))(receiving (u_path (h_row h)) := Some (h_received h @ chunk, clock (sys_store y)))"
  have s': "s' = (sys_store y)\<lparr>disk := ?f\<rparr>" "h' = h\<lparr>h_received := h_received h @ chunk\<rparr>"
    using c by (auto simp: receive_chunk_def Let_def split: if_splits)
  have h: "request_ok (sys_store y) (delivered y) h" using invD(4) [OF i] hs by simp
  have "request_ok ((sys_store y)\<lparr>disk := ?f\<rparr>) (delivered y) h'" using h nr by (simp add: request_ok_def s'(2))
  then show ?thesis unfolding s'(1) by (intro request_disk_inv [OF i st hs]) (auto simp: s'(2))
qed

lemma place_inv:
  assumes i: "transfer_inv digest y" and st: "in_flight_staged y" and hs: "requests y = hs @ h # hs'"
    and c: "place_bytes h (sys_store y) = Some (s', h')"
  shows "transfer_inv digest (y\<lparr>sys_store := s', requests := hs @ h' # hs'\<rparr>)"
proof -
  let ?p = "u_path (h_row h)"
  let ?f = "(disk (sys_store y))(receiving ?p := None, ?p := Some (h_received h, clock (sys_store y)))"
  have s': "s' = (sys_store y)\<lparr>disk := ?f\<rparr>" "h' = h\<lparr>h_replaced := True\<rparr>" "length (h_received h) = u_size (h_row h)"
    using c by (auto simp: place_bytes_def Let_def split: if_splits)
  have h: "request_ok (sys_store y) (delivered y) h" using invD(4) [OF i] hs by simp
  have "request_ok ((sys_store y)\<lparr>disk := ?f\<rparr>) (delivered y) h'" using h by (simp add: request_ok_def s'(2,3))
  then show ?thesis unfolding s'(1) by (intro request_disk_inv [OF i st hs]) (auto simp: s'(2))
qed

lemma drop_request_inv:
  assumes i: "transfer_inv digest y" and hs: "requests y = hs @ h # hs'"
  shows "transfer_inv digest (y\<lparr>requests := hs @ hs'\<rparr>)"
  using i requests_split(1) [of hs h hs'] hs by (auto simp: transfer_inv_def)

lemma abandon_inv:
  assumes i: "transfer_inv digest y" and st: "in_flight_staged y" and hs: "requests y = hs @ h # hs'"
  shows "transfer_inv digest (y\<lparr>sys_store := abandon_upload unlinks h (sys_store y), requests := hs @ hs'\<rparr>)"
proof -
  let ?s' = "abandon_upload unlinks h (sys_store y)"
  let ?g = "\<lambda>u. if u_id u = u_id (h_row h) \<and> u_user u = u_user (h_row h) \<and> u_state u = Receiving
      then u\<lparr>u_state := Pending\<rparr> else u"
  note I = invD [OF i]
  have hin: "h \<in> set (requests y)" using hs by simp
  note dist = requests_split [OF I(1) [unfolded hs]]
  have u: "uploads ?s' = map ?g (uploads (sys_store y))"
    by (simp add: abandon_upload_def Let_def unlink_def)
  have rest: "files ?s' = files (sys_store y)" "clock ?s' = clock (sys_store y)"
    by (simp_all add: abandon_upload_def Let_def unlink_def)
  show ?thesis
  proof (rule inv_states [OF i u])
    show "request_ok ?s' (delivered y) x" if xin: "x \<in> set (hs @ hs')" for x
    proof -
      have xr: "x \<in> set (requests y)" using xin hs by auto
      have ne: "u_id (h_row x) \<noteq> u_id (h_row h)" using dist(2) [OF xin] .
      have path: "u_path (h_row x) \<noteq> u_path (h_row h)" "u_path (h_row x) \<noteq> receiving (u_path (h_row h))"
        using request_path_apart(2) [OF i st hin xr ne] by auto
      show ?thesis
      proof (rule request_mono [OF I(4) [OF xr]])
        show "u_id (h_row x) \<notin> fst ` set (delivered y)" using I(4) [OF xr] by (simp add: request_ok_def)
        show "disk ?s' (u_path (h_row x)) = disk (sys_store y) (u_path (h_row x))" using abandon_disk path by blast
        show "\<exists>u\<in>set (uploads (sys_store y)). same_upload u' u \<and> (u_state u = Receiving \<longrightarrow> u_state u' = Receiving)"
          if uin: "u' \<in> set (uploads ?s')" and eq: "u_id u' = u_id (h_row x)" for u'
        proof -
          obtain v where v: "v \<in> set (uploads (sys_store y))" "u' = ?g v" using uin unfolding u by auto
          then have "u' = v" using eq ne by (auto split: if_splits)
          then show ?thesis using v(1) same_upload_refl by blast
        qed
      qed (use rest in auto)
    qed
    show "disk ?s' p = disk (sys_store y) p" if "(k, p, b) \<in> set (delivered y)" for k p b
      using abandon_disk request_path_apart(1) [OF i st hin that] by blast
  qed (use dist(1) rest in \<open>auto simp: same_upload_def split: if_splits\<close>)
qed

lemma claim_inv:
  assumes i: "transfer_inv digest y" and o: "ok digest lost (sys_store y)"
  shows "transfer_inv digest (y\<lparr>sys_store := fst (claim_upload uid user (sys_store y))\<rparr>)"
    and "claim_upload uid user (sys_store y) = (s', Some u)
      \<Longrightarrow> transfer_inv digest (y\<lparr>sys_store := s', requests := start_request u # requests y\<rparr>)"
proof -
  let ?s = "sys_store y" and ?s' = "fst (claim_upload uid user (sys_store y))"
  let ?g = "\<lambda>u. if u_id u = uid \<and> u_user u = user \<and> u_state u = Pending \<and> clock ?s < u_expires u
      then u\<lparr>u_state := Receiving\<rparr> else u"
  note I = invD [OF i]
  have u: "uploads ?s' = map ?g (uploads ?s)" by (simp add: claim_upload_def Let_def)
  have rest: "files ?s' = files ?s" "clock ?s' = clock ?s" "disk ?s' = disk ?s"
    by (simp_all add: claim_upload_def Let_def)
  have old: "request_ok ?s' (delivered y) x" if xin: "x \<in> set (requests y)" for x
  proof (rule request_mono [OF I(4) [OF xin]])
    show "u_id (h_row x) \<notin> fst ` set (delivered y)" using I(4) [OF xin] by (simp add: request_ok_def)
    show "\<exists>u\<in>set (uploads ?s). same_upload u' u \<and> (u_state u = Receiving \<longrightarrow> u_state u' = Receiving)"
      if uin: "u' \<in> set (uploads ?s')" for u'
    proof -
      obtain v where "v \<in> set (uploads ?s)" "u' = ?g v" using uin unfolding u by auto
      then show ?thesis by (intro bexI [of _ v]) (auto simp: same_upload_def)
    qed
  qed (use rest in auto)
  have main: "transfer_inv digest (y\<lparr>sys_store := ?s', requests := hs\<rparr>)"
    if "distinct (map (\<lambda>h. u_id (h_row h)) hs)" "\<And>h. h \<in> set hs \<Longrightarrow> request_ok ?s' (delivered y) h" for hs
    by (rule inv_states [OF i u]) (use that rest in \<open>auto simp: same_upload_def split: if_splits\<close>)
  have "y\<lparr>sys_store := ?s', requests := requests y\<rparr> = y\<lparr>sys_store := ?s'\<rparr>" by simp
  then show "transfer_inv digest (y\<lparr>sys_store := ?s'\<rparr>)" using main [OF I(1) old] by simp
  show "transfer_inv digest (y\<lparr>sys_store := s', requests := start_request u # requests y\<rparr>)"
    if c: "claim_upload uid user ?s = (s', Some u)"
  proof -
    have s': "s' = ?s'" using c by simp
    obtain u0 where u0: "u0 \<in> set (uploads ?s)" "u = u0\<lparr>u_state := Receiving\<rparr>" "u_id u0 = uid" "u_user u0 = user"
      "u_state u0 = Pending" "clock ?s < u_expires u0"
      using claim_row [OF c] by blast
    have fresh: "u_id (h_row x) \<noteq> uid" if "x \<in> set (requests y)" for x
      using I(4) [OF that] u0(1,3,5) by (auto simp: request_ok_def)
    have undelivered: "uid \<notin> fst ` set (delivered y)"
    proof
      assume "uid \<in> fst ` set (delivered y)"
      then obtain p b where "(uid, p, b) \<in> set (delivered y)" by auto
      then show False using I(5) u0(1,3,5) by (fastforce simp: delivery_ok_def)
    qed
    have one: "v = u0" if "v \<in> set (uploads ?s)" "u_id v = uid" for v
      using tables_paths(4) [OF o that(1) u0(1)] that(2) u0(3) by simp
    have "w = u" if win: "w \<in> set (uploads ?s')" and wid: "u_id w = uid" for w
    proof -
      obtain v where v: "v \<in> set (uploads ?s)" "w = ?g v" using win unfolding u by auto
      then have "v = u0" using one wid by (auto split: if_splits)
      then show ?thesis using v(2) u0 by simp
    qed
    moreover have row: "u_id u = uid" "u_state u = Receiving" using u0(2,3) by simp_all
    ultimately have "\<forall>w\<in>set (uploads ?s'). u_id w = u_id u \<longrightarrow> u_state w = Receiving \<and> same_upload w u"
      by (metis same_upload_refl)
    moreover have "last (u_path u) = uid" using tables_paths(2) [OF o u0(1)] u0(2,3) by simp
    ultimately have new: "request_ok ?s' (delivered y) (start_request u)"
      using undelivered row(1) by (simp add: request_ok_def start_request_def)
    have "distinct (map (\<lambda>h. u_id (h_row h)) (start_request u # requests y))"
    proof -
      have "u_id (h_row (start_request u)) \<notin> (\<lambda>h. u_id (h_row h)) ` set (requests y)"
        using fresh row(1) by (force simp: start_request_def)
      then show ?thesis using I(1) by simp
    qed
    then show ?thesis unfolding s' using main [of "start_request u # requests y"] old new by auto
  qed
qed

lemma mark_inv:
  assumes i: "transfer_inv digest y" and st: "in_flight_staged y" and o: "ok digest lost (sys_store y)"
    and hs: "requests y = hs @ h # hs'" and rp: "h_replaced h" and c: "mark_uploaded h (sys_store y) = (s', hit)"
  shows "transfer_inv digest (y\<lparr>sys_store := s', requests := hs @ hs',
    delivered := (if hit then (u_id (h_row h), u_path (h_row h), h_received h) # delivered y else delivered y)\<rparr>)"
proof (cases hit)
  case False
  let ?hit = "\<lambda>u. u_id u = u_id (h_row h) \<and> u_user u = u_user (h_row h) \<and> u_state u = Receiving \<and> clock (sys_store y) < u_expires u"
  have "map (\<lambda>u. if ?hit u then u\<lparr>u_state := Uploaded\<rparr> else u) (uploads (sys_store y)) = uploads (sys_store y)"
    using c False by (intro map_idI) (auto simp: mark_uploaded_def Let_def list_ex_iff)
  then have "s' = sys_store y" using c by (simp add: mark_uploaded_def Let_def)
  then show ?thesis using drop_request_inv [OF i hs] False by simp
next
  case True
  let ?s = "sys_store y" and ?id = "u_id (h_row h)" and ?p = "u_path (h_row h)"
  let ?hit = "\<lambda>u. u_id u = ?id \<and> u_user u = u_user (h_row h) \<and> u_state u = Receiving \<and> clock ?s < u_expires u"
  let ?g = "\<lambda>u. if ?hit u then u\<lparr>u_state := Uploaded\<rparr> else u"
  let ?del = "(?id, ?p, h_received h) # delivered y"
  note I = invD [OF i]
  have hin: "h \<in> set (requests y)" using hs by simp
  note dist = requests_split [OF I(1) [unfolded hs]]
  have h: "request_ok ?s (delivered y) h" using I(4) [OF hin] .
  have u: "uploads s' = map ?g (uploads ?s)" and rest: "files s' = files ?s" "clock s' = clock ?s" "disk s' = disk ?s"
    using c by (auto simp: mark_uploaded_def Let_def)
  obtain u0 where u0: "u0 \<in> set (uploads ?s)" "?hit u0"
    using c True by (auto simp: mark_uploaded_def Let_def list_ex_iff)
  have one: "v = u0" if "v \<in> set (uploads ?s)" "u_id v = ?id" for v
    using tables_paths(4) [OF o that(1) u0(1)] that(2) u0(2) by simp
  have bytes: "\<exists>t. disk ?s ?p = Some (h_received h, t)" "length (h_received h) = u_size (h_row h)" "same_upload u0 (h_row h)"
    using h u0 rp unfolding request_ok_def by auto
  have staged: "staged_like ?p" "last ?p = ?id" using st hin h by (auto simp: in_flight_staged_def request_ok_def)
  have fresh: "?id \<notin> fst ` set (delivered y)" using h by (simp add: request_ok_def)
  have other: "\<exists>v\<in>set (uploads ?s). u' = v" if uin: "u' \<in> set (uploads s')" and ne: "u_id u' \<noteq> ?id" for u'
  proof -
    obtain v where v: "v \<in> set (uploads ?s)" "u' = ?g v" using uin unfolding u by auto
    then have "u' = v" using ne by (auto split: if_splits)
    then show ?thesis using v(1) by blast
  qed
  have mine: "u' = u0\<lparr>u_state := Uploaded\<rparr>" if uin: "u' \<in> set (uploads s')" and eq: "u_id u' = ?id" for u'
  proof -
    obtain v where v: "v \<in> set (uploads ?s)" "u' = ?g v" using uin unfolding u by auto
    then have "v = u0" using one eq by (auto split: if_splits)
    then show ?thesis using v(2) u0(2) by simp
  qed
  have "request_ok s' ?del x" if xin: "x \<in> set (hs @ hs')" for x
  proof -
    have xr: "x \<in> set (requests y)" using xin hs by auto
    have ne: "u_id (h_row x) \<noteq> ?id" using dist(2) [OF xin] .
    show ?thesis
    proof (rule request_mono [OF I(4) [OF xr]])
      show "u_id (h_row x) \<notin> fst ` set ?del" using I(4) [OF xr] ne by (simp add: request_ok_def)
      show "\<exists>u\<in>set (uploads ?s). same_upload u' u \<and> (u_state u = Receiving \<longrightarrow> u_state u' = Receiving)"
        if "u' \<in> set (uploads s')" "u_id u' = u_id (h_row x)" for u'
        using other [OF that(1)] that(2) ne same_upload_refl by metis
    qed (use rest in auto)
  qed
  moreover have "delivery_ok s' e" if ein: "e \<in> set ?del" for e
  proof (cases "e = (?id, ?p, h_received h)")
    case True
    have "u_state u' \<in> {Uploaded, Complete} \<and> u_path u' = ?p \<and> u_size u' = length (h_received h)
        \<and> (u_state u' = Uploaded \<and> clock s' < u_expires u' \<longrightarrow> disk s' ?p \<noteq> None)"
      if "u' \<in> set (uploads s')" "u_id u' = ?id" for u'
      using mine [OF that] bytes rest by (auto simp: same_upload_def)
    then show ?thesis using True staged bytes(1) rest(3) by (auto simp: delivery_ok_def)
  next
    case False
    then have e: "e \<in> set (delivered y)" using ein by simp
    obtain k p b where kpb: "e = (k, p, b)" by (cases e)
    have ne: "k \<noteq> ?id" using e fresh kpb by force
    show ?thesis unfolding kpb
    proof (rule delivery_mono [OF I(5) [OF e, unfolded kpb]])
      show "\<exists>u\<in>set (uploads ?s). same_upload u' u \<and> (u_state u \<in> {Uploaded, Complete} \<longrightarrow> u_state u' = u_state u)"
        if "u' \<in> set (uploads s')" "u_id u' = k" for u'
        using other [OF that(1)] that(2) ne same_upload_refl by metis
    qed (use rest in auto)
  qed
  moreover have "completion_ok s' ?del e" if ein: "e \<in> set (completions y)" for e
  proof (rule completion_mono [OF I(6) [OF ein]])
    show "\<exists>u\<in>set (uploads ?s). same_upload u' u" if uin: "u' \<in> set (uploads s')" for u'
    proof -
      obtain v where "v \<in> set (uploads ?s)" "u' = ?g v" using uin unfolding u by auto
      then show ?thesis by (intro bexI [of _ v]) (auto simp: same_upload_def)
    qed
  qed auto
  moreover have "upload_ok digest s' ?del u'" if uin: "u' \<in> set (uploads s')" for u'
  proof -
    obtain v where v: "v \<in> set (uploads ?s)" "u' = ?g v" using uin unfolding u by auto
    have vok: "upload_ok digest ?s (delivered y) v" using I(7) [OF v(1)] .
    have vv: "same_upload u' v" "u_file u' = u_file v" using v(2) by (auto simp: same_upload_def)
    have s1: "u_id v \<in> fst ` set ?del" if "u_state u' \<in> {Uploaded, Complete}"
      using that v(2) vok by (auto simp: upload_ok_def split: if_splits)
    have s2: "u_state u' = Complete" if "u_state v = Complete" using that v(2) by auto
    have owner: "\<exists>w\<in>set (uploads ?s). u_id w = u_id v' \<and> u_file w = u_file v'" if win: "v' \<in> set (uploads s')" for v'
    proof -
      obtain w where "w \<in> set (uploads ?s)" "v' = ?g w" using win unfolding u by auto
      then show ?thesis by (intro bexI [of _ w]) auto
    qed
    have kept: "(u_id v, p, d) \<in> set (delivered y)" if "u_file v \<noteq> None" "(u_id v, p, d) \<in> set ?del" for p d
    proof -
      have "u_state v = Complete" using vok that(1) by (auto simp: upload_ok_def)
      then have "u_id v \<noteq> ?id" using one [OF v(1)] u0(2) by auto
      then show ?thesis using that(2) by simp
    qed
    show ?thesis by (rule upload_mono [OF vok vv s1 s2 rest(1)]) (use owner kept in auto)
  qed
  ultimately show ?thesis using I(2,3) dist(1) fresh rest(1) True unfolding transfer_inv_def by simp
qed

section \<open>Reservations and completions\<close>

lemma reserve_store:
  assumes "reserve_upload w token user filename mime n s = (s', r)" and "s' \<noteq> s"
  obtains row where "s' = s\<lparr>uploads := uploads s @ [row]\<rparr>" and "u_id row = ''upload_'' @ token" and "u_state row = Pending"
    and "u_file row = None"
proof -
  obtain root where "user_root (w_resolve w) (w_root w) user = Inr root"
    using assms by (auto simp: reserve_upload_def split: sum.splits)
  then show thesis
    using assms by (intro that) (auto simp: reserve_upload_def Let_def commit_same_tables split: if_splits)
qed

lemma reserve_inv:
  assumes i: "transfer_inv digest y" and new: "''upload_'' @ token \<notin> used_ids y"
    and c: "reserve_upload w token user filename mime n (sys_store y) = (s', r)"
  shows "transfer_inv digest (y\<lparr>sys_store := s'\<rparr>)"
proof (cases "s' = sys_store y")
  case True
  then show ?thesis using i by simp
next
  case False
  let ?s = "sys_store y"
  obtain row where row: "s' = ?s\<lparr>uploads := uploads ?s @ [row]\<rparr>" "u_id row = ''upload_'' @ token" "u_state row = Pending"
    "u_file row = None"
    using reserve_store [OF c False] by blast
  note I = invD [OF i]
  have ids: "u_id row \<notin> u_id ` set (uploads ?s)" "h \<in> set (requests y) \<Longrightarrow> u_id (h_row h) \<noteq> u_id row"
    "e \<in> set (completions y) \<Longrightarrow> u_id (fst e) \<noteq> u_id row" "d \<in> set (delivered y) \<Longrightarrow> fst d \<noteq> u_id row" for h e d
    using new unfolding row(2) [symmetric] used_ids_def by (metis (no_types, lifting) UnCI imageI)+
  have old: "v \<in> set (uploads ?s)" if "v \<in> set (uploads s')" "u_id v \<noteq> u_id row" for v
    using that row(1) by auto
  have "request_ok s' (delivered y) h" if hin: "h \<in> set (requests y)" for h
  proof (rule request_mono [OF I(4) [OF hin]])
    show "u_id (h_row h) \<notin> fst ` set (delivered y)" using I(4) [OF hin] by (simp add: request_ok_def)
    show "\<exists>u\<in>set (uploads ?s). same_upload u' u \<and> (u_state u = Receiving \<longrightarrow> u_state u' = Receiving)"
      if "u' \<in> set (uploads s')" "u_id u' = u_id (h_row h)" for u'
      using old [OF that(1)] that(2) ids(2) [OF hin] same_upload_refl by metis
  qed (simp_all add: row(1))
  moreover have "delivery_ok s' d" if din: "d \<in> set (delivered y)" for d
  proof -
    obtain k p b where d: "d = (k, p, b)" by (cases d)
    show ?thesis unfolding d
    proof (rule delivery_mono [OF I(5) [OF din, unfolded d]])
      show "\<exists>u\<in>set (uploads ?s). same_upload u' u \<and> (u_state u \<in> {Uploaded, Complete} \<longrightarrow> u_state u' = u_state u)"
        if "u' \<in> set (uploads s')" "u_id u' = k" for u'
        using old [OF that(1)] that(2) ids(4) [OF din] d same_upload_refl by (metis fst_conv)
    qed (simp_all add: row(1))
  qed
  moreover have "completion_ok s' (delivered y) e" if ein: "e \<in> set (completions y)" for e
  proof (rule completion_mono [OF I(6) [OF ein]])
    show "\<exists>u\<in>set (uploads ?s). same_upload u' u" if "u' \<in> set (uploads s')" "u_id u' = u_id (fst e)" for u'
      using old [OF that(1)] that(2) ids(3) [OF ein] same_upload_refl by metis
  qed simp
  moreover have "upload_ok digest s' (delivered y) u" if uin: "u \<in> set (uploads s')" for u
  proof (cases "u \<in> set (uploads ?s)")
    case True
    show ?thesis
    proof (rule upload_mono [OF I(7) [OF True]])
      show "\<exists>v\<in>set (uploads ?s). u_id v = u_id v' \<and> u_file v = u_file v'" if "v' \<in> set (uploads s')" "u_file v' \<noteq> None" for v'
        using that row(1,4) by auto
    qed (use I(7) [OF True] row(1) in \<open>auto simp: upload_ok_def\<close>)
  next
    case False
    then show ?thesis using uin row by (simp add: upload_ok_def)
  qed
  ultimately show ?thesis using I(1,2,3) row(1) unfolding transfer_inv_def by simp
qed

lemma delivered_unique:
  assumes "transfer_inv digest y" and "(k, p, b) \<in> set (delivered y)" and "(k, p', b') \<in> set (delivered y)"
  shows "p' = p" and "b' = b"
proof -
  have "distinct (map fst (delivered y))" using invD(2) [OF assms(1)] .
  then have "(k, p, b) = (k, p', b')" using assms(2,3) by (metis distinct_map fst_conv inj_onD)
  then show "p' = p" "b' = b" by simp_all
qed

lemma start_completion_inv:
  assumes i: "transfer_inv digest y" and o: "ok digest lost (sys_store y)"
    and u: "get_upload uid user (sys_store y) = Inr u" and st: "u_state u = Uploaded"
  shows "transfer_inv digest (y\<lparr>completions := (u, None) # completions y\<rparr>)"
proof -
  note I = invD [OF i]
  have "find_upload uid user (sys_store y) = Some u" using u by (simp add: get_upload_def res_simps)
  then have uin: "u \<in> set (uploads (sys_store y))" by (auto simp: find_upload_def dest: find_SomeD)
  then have "u_id u \<in> fst ` set (delivered y)" using I(7) st unfolding upload_ok_def by blast
  then obtain p d where d: "(u_id u, p, d) \<in> set (delivered y)" by auto
  then have "u_path u = p" "u_size u = length d" using I(5) [OF d] uin by (auto simp: delivery_ok_def)
  moreover have "same_upload v u" if "v \<in> set (uploads (sys_store y))" "u_id v = u_id u" for v
    using tables_paths(4) [OF o that(1) uin that(2)] by simp
  ultimately have "completion_ok (sys_store y) (delivered y) (u, None)"
    using d by (auto simp: completion_ok_def)
  then show ?thesis using i by (simp add: transfer_inv_def)
qed

lemma read_bytes_inv:
  assumes i: "transfer_inv digest y" and cs: "completions y = cs @ (u, None) # cs'"
    and at: "disk (sys_store y) (u_path u) = Some (data, t)" and n: "length (take (Suc MAX_FILE_BYTES) data) = u_size u"
  shows "transfer_inv digest (y\<lparr>completions := cs @ (u, Some (take (Suc MAX_FILE_BYTES) data)) # cs'\<rparr>)"
proof -
  note I = invD [OF i]
  have "completion_ok (sys_store y) (delivered y) (u, None)" using I(6) cs by simp
  then obtain d where d: "(u_id u, u_path u, d) \<in> set (delivered y)" "length d = u_size u"
    and v: "\<forall>v\<in>set (uploads (sys_store y)). u_id v = u_id u \<longrightarrow> same_upload v u"
    by (auto simp: completion_ok_def)
  have "data = d" using I(5) [OF d(1)] at by (auto simp: delivery_ok_def)
  then have "take (Suc MAX_FILE_BYTES) data = d" using n d(2) by simp
  then have "completion_ok (sys_store y) (delivered y) (u, Some (take (Suc MAX_FILE_BYTES) data))"
    using d v by (auto simp: completion_ok_def)
  then show ?thesis using i by (auto simp: transfer_inv_def cs)
qed

lemma drop_completion_inv:
  "transfer_inv digest y \<Longrightarrow> completions y = cs @ c # cs' \<Longrightarrow> transfer_inv digest (y\<lparr>completions := cs @ cs'\<rparr>)"
  by (auto simp: transfer_inv_def)

text \<open>The staged bytes of a completed upload may go.\<close>

lemma unstage_inv:
  assumes i: "transfer_inv digest y" and d: "(k, p, b) \<in> set (delivered y)"
    and complete: "\<And>u. u \<in> set (uploads (sys_store y)) \<Longrightarrow> u_id u = k \<Longrightarrow> u_state u = Complete"
  shows "transfer_inv digest (y\<lparr>sys_store := unlink p (sys_store y)\<rparr>)"
proof -
  let ?s = "sys_store y"
  note I = invD [OF i]
  have last: "last p = k" using I(5) [OF d] by (simp add: delivery_ok_def)
  have "request_ok (unlink p ?s) (delivered y) h" if hin: "h \<in> set (requests y)" for h
  proof -
    have r: "request_ok ?s (delivered y) h" using I(4) [OF hin] .
    have "k \<in> fst ` set (delivered y)" using d by force
    then have "u_path (h_row h) \<noteq> p" using r last unfolding request_ok_def by metis
    then show ?thesis using r by (simp add: request_ok_def unlink_def)
  qed
  moreover have "delivery_ok (unlink p ?s) e" if ein: "e \<in> set (delivered y)" for e
  proof -
    obtain k' p' b' where e: "e = (k', p', b')" by (cases e)
    have ok: "delivery_ok ?s (k', p', b')" using I(5) ein e by simp
    show ?thesis
    proof (cases "p' = p")
      case True
      then have "k' = k" using ok last by (simp add: delivery_ok_def)
      then have "\<forall>u\<in>set (uploads ?s). u_id u = k' \<longrightarrow> u_state u = Complete" using complete by blast
      then show ?thesis using ok unfolding e True by (auto simp: delivery_ok_def unlink_def)
    next
      case False
      then show ?thesis using ok unfolding e by (simp add: delivery_ok_def unlink_def)
    qed
  qed
  moreover have "completion_ok (unlink p ?s) (delivered y) e" if "e \<in> set (completions y)" for e
    using I(6) [OF that] by (simp add: completion_ok_def unlink_def split: prod.splits)
  moreover have "upload_ok digest (unlink p ?s) (delivered y) u" if "u \<in> set (uploads ?s)" for u
    using I(7) [OF that] by (simp add: upload_ok_def unlink_def)
  ultimately show ?thesis using I(1,2,3) unfolding transfer_inv_def by (simp add: unlink_def)
qed

lemma upload_check_Some:
  assumes "upload_check (Some uid) user n s = Inr found"
  obtains v where "v \<in> set (uploads s)" and "u_id v = uid" and "u_user v = user" and "clock s < u_expires v"
    and "case found of None \<Rightarrow> u_state v = Uploaded \<and> u_size v = n
      | Some row \<Rightarrow> u_state v = Complete \<and> u_file v = Some (f_id row) \<and> row \<in> set (files s) \<and> visible (clock s) row"
proof -
  obtain v where v: "find_upload uid user s = Some v"
    using assms by (auto simp: upload_check_def split: option.splits)
  note found = find_SomeD [OF v [unfolded find_upload_def]]
  have "case found of None \<Rightarrow> u_state v = Uploaded \<and> u_size v = n
      | Some row \<Rightarrow> u_state v = Complete \<and> u_file v = Some (f_id row) \<and> row \<in> set (files s) \<and> visible (clock s) row"
    using assms v find_file_Some by (cases found) (fastforce simp: upload_check_def Option.bind_eq_Some_conv split: if_splits option.splits)+
  then show thesis using that found by blast
qed

lemma create_file_cases:
  assumes c: "create_file w draws user basename blob source tool expires mime provenance access upload s = (s1, r1)"
  obtains (no) e where "s1 = s" and "r1 = Inl e"
    | (again) row where "upload_check upload user (length blob) s = Inr (Some row)" and "s1 = s" and "r1 = Inr row"
    | (new) row where "upload_check upload user (length blob) s = Inr None" and "insert_file w row blob upload s = (s1, r1)"
      and "f_id row = generate_file_id draws" and "f_user row = user" and "f_version row = 1" and "f_size row = length blob"
      and "f_sha row = w_digest w blob" and "f_basename row = basename"
      and "blob_path (w_resolve w) (w_root w) user (generate_file_id draws) = Inr (f_path row)"
proof (cases "\<exists>e. s1 = s \<and> r1 = Inl e")
  case True
  then show thesis using that(1) by blast
next
  case False
  have ne: "\<not> (s1 = s \<and> r1 = Inl e)" for e using False by blast
  show thesis
  proof (cases "upload_check upload user (length blob) s")
    case (Inl e)
    then show thesis using c ne by (auto simp: create_file_def Let_def split: if_splits option.splits sum.splits)
  next
    case (Inr found)
    show thesis
    proof (cases found)
      case None
      have "\<exists>row. insert_file w row blob upload s = (s1, r1) \<and> f_id row = generate_file_id draws \<and> f_user row = user
          \<and> f_version row = 1 \<and> f_size row = length blob \<and> f_sha row = w_digest w blob \<and> f_basename row = basename
          \<and> blob_path (w_resolve w) (w_root w) user (generate_file_id draws) = Inr (f_path row)"
        using c ne by (auto simp: create_file_def Let_def Inr None split: if_splits option.splits sum.splits)
      then show thesis using that(3) Inr None by blast
    next
      case (Some row)
      have "s1 = s \<and> r1 = Inr row"
        using c ne by (auto simp: create_file_def Let_def Inr Some split: if_splits option.splits sum.splits)
      then show thesis using that(2) Inr Some by blast
    qed
  qed
qed

lemma register_cases:
  assumes r: "register_staged w draws u blob s = (s', r)"
  obtains (refused) e where "s' = s" and "r = Inl e"
  | (repeated) row where "upload_check (Some (u_id u)) (u_user u) (length blob) s = Inr (Some row)"
      and "s' = s \<or> s' = unlink (u_path u) s" and "r = Inr row \<or> s' = s \<and> r = Inl DatabaseFault"
  | (fresh) row s1 r1 where "upload_check (Some (u_id u)) (u_user u) (length blob) s = Inr None"
      and "insert_file w row blob (Some (u_id u)) s = (s1, r1)"
      and "f_id row = generate_file_id draws" and "f_user row = u_user u" and "f_version row = 1" and "f_size row = length blob"
      and "f_sha row = w_digest w blob" and "f_basename row = u_basename u"
      and "blob_path (w_resolve w) (w_root w) (u_user u) (generate_file_id draws) = Inr (f_path row)"
      and "s' = s1 \<or> is_ok r1 \<and> s' = unlink (u_path u) s1" and "r = r1"
proof -
  obtain s1 r1 where c: "create_file w draws (u_user u) (u_basename u) blob ''user_upload'' None
      (Some (clock s + seconds (24 * 3600))) (Some (u_mime u)) [] None (Some (u_id u)) s = (s1, r1)"
    by fastforce
  have s': "s' = s1 \<or> is_ok r1 \<and> s' = unlink (u_path u) s1" "r = r1"
    using r c by (auto simp: register_staged_def try_unlink_def split: sum.splits if_splits)
  from c show thesis
  proof (cases rule: create_file_cases)
    case no
    then show thesis using s' that(1) by auto
  next
    case (again row)
    then show thesis using s' by (intro that(2) [of row]) auto
  next
    case (new row)
    then show thesis using s' by (intro that(3) [of row s1 r1]) auto
  qed
qed

lemma insert_upload_inv:
  assumes i: "transfer_inv digest y" and st: "in_flight_staged y" and o: "ok digest lost (sys_store y)"
    and d: "(k, p, blob) \<in> set (delivered y)"
    and v: "v \<in> set (uploads (sys_store y))" "u_id v = k" "u_state v = Uploaded"
    and row: "f_user row = u_user v" "f_version row = 1" "f_size row = length blob" "f_sha row = digest blob" "blob_like (f_path row)"
    and r: "insert_file w row blob (Some k) (sys_store y) = (s1, r1)"
  shows "transfer_inv digest (y\<lparr>sys_store := s1\<rparr>)"
    and "is_ok r1 \<Longrightarrow> u \<in> set (uploads s1) \<Longrightarrow> u_id u = k \<Longrightarrow> u_state u = Complete"
proof -
  let ?s = "sys_store y"
  note I = invD [OF i]
  show "u_state u = Complete" if okr: "is_ok r1" and uin: "u \<in> set (uploads s1)" and uk: "u_id u = k"
    using r
  proof (cases rule: insert_file_cases)
    case inserted
    then obtain w where w: "u = complete_row k (f_id row) w" using uin by (auto simp: completed_uploads_def)
    have "u_id u = u_id w" by (simp add: w complete_row_def)
    then show ?thesis using uk by (simp add: w complete_row_def)
  qed (use okr in blast)
  have away: "q \<noteq> f_path row" if "staged_like q" for q using that row(5) blob_not_staged by blast
  from r show "transfer_inv digest (y\<lparr>sys_store := s1\<rparr>)"
  proof (cases rule: insert_file_cases)
    case unchanged
    show ?thesis by (rule inv_same_rows [OF i st]) (use unchanged away in auto)
  next
    case inserted
    let ?g = "complete_row k (f_id row)"
    have u: "uploads s1 = map ?g (uploads ?s)" using inserted(2) by (simp add: completed_uploads_def)
    have disk: "disk s1 q = disk ?s q" if "staged_like q" for q using inserted(7) away that by blast
    have one: "w = v" if "w \<in> set (uploads ?s)" "u_id w = k" for w
      using tables_paths(4) [OF o that(1) v(1)] that(2) v(2) by simp
    have old: "\<exists>w\<in>set (uploads ?s). u' = ?g w" if "u' \<in> set (uploads s1)" for u'
      using that unfolding u by auto
    have same: "same_upload (?g w) w" for w by (simp add: complete_row_def same_upload_def)
    have kd: "k \<in> fst ` set (delivered y)" using d by force
    have "request_ok s1 (delivered y) h" if hin: "h \<in> set (requests y)" for h
    proof (rule request_mono [OF I(4) [OF hin]])
      show "u_id (h_row h) \<notin> fst ` set (delivered y)" using I(4) [OF hin] by (simp add: request_ok_def)
      then have ne: "u_id (h_row h) \<noteq> k" using kd by blast
      show "\<exists>u\<in>set (uploads ?s). same_upload u' u \<and> (u_state u = Receiving \<longrightarrow> u_state u' = Receiving)"
        if uin: "u' \<in> set (uploads s1)" and eq: "u_id u' = u_id (h_row h)" for u'
      proof -
        obtain w where w: "w \<in> set (uploads ?s)" "u' = ?g w" using old [OF uin] by blast
        then have "u' = w" using eq ne by (auto simp: complete_row_def split: if_splits)
        then show ?thesis using w(1) same_upload_refl by blast
      qed
      show "disk s1 (u_path (h_row h)) = disk ?s (u_path (h_row h))"
        using st hin disk by (simp add: in_flight_staged_def)
    qed (rule inserted(4))
    moreover have "delivery_ok s1 e" if ein: "e \<in> set (delivered y)" for e
    proof -
      obtain k' p' b' where e: "e = (k', p', b')" by (cases e)
      have eok: "delivery_ok ?s (k', p', b')" using I(5) ein e by simp
      have "u_state u' \<in> {Uploaded, Complete} \<and> u_path u' = p' \<and> u_size u' = length b'
          \<and> (u_state u' = Uploaded \<and> clock s1 < u_expires u' \<longrightarrow> disk s1 p' \<noteq> None)"
        if uin: "u' \<in> set (uploads s1)" and eq: "u_id u' = k'" for u'
      proof -
        obtain w where w: "w \<in> set (uploads ?s)" "u' = ?g w" using old [OF uin] by blast
        have "u_state w \<in> {Uploaded, Complete} \<and> u_path w = p' \<and> u_size w = length b'
          \<and> (u_state w = Uploaded \<and> clock ?s < u_expires w \<longrightarrow> disk ?s p' \<noteq> None)"
          using eok w eq same [of w] by (auto simp: delivery_ok_def same_upload_def)
        then show ?thesis using w(2) disk [of p'] eok inserted(4) by (auto simp: complete_row_def delivery_ok_def)
      qed
      then show ?thesis using eok disk [of p'] unfolding e delivery_ok_def by simp
    qed
    moreover have "completion_ok s1 (delivered y) e" if "e \<in> set (completions y)" for e
      by (rule completion_mono [OF I(6) [OF that]]) (use old same in blast)+
    moreover have "upload_ok digest s1 (delivered y) u'" if uin: "u' \<in> set (uploads s1)" for u'
    proof -
      obtain w where w: "w \<in> set (uploads ?s)" "u' = ?g w" using old [OF uin] by blast
      have wok: "upload_ok digest ?s (delivered y) w" using I(7) [OF w(1)] .
      have known: "fid \<in> f_id ` set (files ?s)" if "x \<in> set (uploads ?s)" "u_file x = Some fid" for x fid
        using I(7) [OF that(1)] that(2) by (simp add: upload_ok_def)
      have files: "files s1 = files ?s @ [row]" "f_id row \<notin> f_id ` set (files ?s)" using inserted(1,5) by auto
      show ?thesis
      proof (cases "u_id w = k")
        case True
        then have wv: "w = v" using one w(1) by blast
        then have u': "u_id u' = k" "u_user u' = u_user v" "u_state u' = Complete" "u_file u' = Some (f_id row)"
          using w(2) v(2) by (simp_all add: complete_row_def)
        have uniq: "x = row" if xin: "x \<in> set (files s1)" and xf: "f_id x = f_id row" for x
        proof (rule ccontr)
          assume "x \<noteq> row"
          then have "x \<in> set (files ?s)" using xin files(1) by simp
          then have "f_id row \<in> f_id ` set (files ?s)" using xf by (metis imageI)
          then show False using files(2) by blast
        qed
        have "file_of digest (delivered y) u' row"
          unfolding file_of_def using row u'(1,2) delivered_unique(2) [OF i d] by auto
        then have own: "\<forall>x\<in>set (files s1). f_id x = f_id row \<longrightarrow> file_of digest (delivered y) u' x"
          using uniq by metis
        have "u_id x = k" if xin: "x \<in> set (uploads s1)" and xf: "u_file x = Some (f_id row)" for x
        proof -
          obtain z where z: "z \<in> set (uploads ?s)" "x = ?g z" using old [OF xin] by blast
          then show ?thesis using xf known [OF z(1)] files(2) by (auto simp: complete_row_def split: if_splits)
        qed
        then have one_upload: "\<forall>x\<in>set (uploads s1). u_file x = Some (f_id row) \<longrightarrow> u_id x = k" by blast
        have mem: "f_id row \<in> f_id ` set (files s1)" using files(1) by simp
        show ?thesis unfolding upload_ok_def u' using own one_upload mem kd by simp
      next
        case False
        then have uw: "u' = w" using w(2) by (simp add: complete_row_def)
        have "file_of digest (delivered y) w x" if "u_file w = Some (f_id x)" "x \<in> set (files s1)" for x
          using that wok known [OF w(1) that(1)] files by (auto simp: upload_ok_def)
        moreover have "u_id x = u_id w" if xin: "x \<in> set (uploads s1)" and xf: "u_file x = Some fid" and wf: "u_file w = Some fid" for x fid
        proof -
          obtain z where z: "z \<in> set (uploads ?s)" "x = ?g z" using old [OF xin] by blast
          have "fid \<noteq> f_id row" using known [OF w(1) wf] files(2) by blast
          then have "x = z" using z(2) xf by (auto simp: complete_row_def split: if_splits)
          then show ?thesis using wok wf z(1) xf by (simp add: upload_ok_def)
        qed
        ultimately show ?thesis using wok files uw by (auto simp: upload_ok_def)
      qed
    qed
    moreover have "\<forall>x\<in>set (files s1). 1 \<le> f_version x" using I(3) row(2) inserted(1) by auto
    ultimately show ?thesis using I(1,2) unfolding transfer_inv_def by simp
  qed
qed

lemma register_inv:
  assumes i: "transfer_inv digest y" and st: "in_flight_staged y" and o: "ok digest lost (sys_store y)"
    and cs: "completions y = cs @ (u, Some blob) # cs'" and w: "fits resolve root digest lost w"
    and r: "register_staged w draws u blob (sys_store y) = (s', r)"
  shows "transfer_inv digest (y\<lparr>sys_store := s', completions := cs @ cs'\<rparr>)"
proof -
  let ?s = "sys_store y"
  have "completion_ok ?s (delivered y) (u, Some blob)" using invD(6) [OF i] by (simp add: cs)
  then have d: "(u_id u, u_path u, blob) \<in> set (delivered y)" by (auto simp: completion_ok_def)
  have "transfer_inv digest (y\<lparr>sys_store := s'\<rparr>)"
    using r
  proof (cases rule: register_cases)
    case refused
    then show ?thesis using i by simp
  next
    case (repeated row)
    obtain v where v: "v \<in> set (uploads ?s)" "u_id v = u_id u" "u_state v = Complete"
      using repeated(1) by (auto elim!: upload_check_Some)
    have "u_state x = Complete" if "x \<in> set (uploads ?s)" "u_id x = u_id u" for x
      using tables_paths(4) [OF o that(1) v(1)] that(2) v(2,3) by simp
    then have "transfer_inv digest (y\<lparr>sys_store := unlink (u_path u) ?s\<rparr>)" by (rule unstage_inv [OF i d])
    then show ?thesis using repeated(2) i by auto
  next
    case (fresh row s1 r1)
    obtain v where v: "v \<in> set (uploads ?s)" "u_id v = u_id u" "u_user v = u_user u" "u_state v = Uploaded"
      using fresh(1) by (auto elim!: upload_check_Some)
    have row: "f_user row = u_user v" "f_sha row = digest blob" "blob_like (f_path row)"
      using fresh(4,7) v(3) w blob_path_like [OF fresh(9)] by (simp_all add: fits_def)
    note ins = insert_upload_inv [OF i st o d v(1,2,4) row(1) fresh(5,6) row(2,3) fresh(2)]
    show ?thesis
    proof (cases "s' = s1")
      case True
      then show ?thesis using ins(1) by simp
    next
      case False
      then have okr: "is_ok r1" and s': "s' = unlink (u_path u) s1" using fresh(10) by auto
      have "transfer_inv digest ((y\<lparr>sys_store := s1\<rparr>)\<lparr>sys_store := unlink (u_path u) (sys_store (y\<lparr>sys_store := s1\<rparr>))\<rparr>)"
        by (rule unstage_inv [OF ins(1)]) (use d ins(2) [OF okr] in auto)
      then show ?thesis by (simp add: s')
    qed
  qed
  then have "transfer_inv digest ((y\<lparr>sys_store := s'\<rparr>)\<lparr>completions := cs @ cs'\<rparr>)"
    by (rule drop_completion_inv) (simp add: cs)
  then show ?thesis by simp
qed

section \<open>Every run\<close>

lemma reach_inv: "reach resolve root digest lost y \<Longrightarrow> transfer_inv digest y"
proof (induction rule: reach.induct)
  case (started now)
  then show ?case by (simp add: transfer_inv_def empty_store_def)
next
  case (ticked y now)
  then show ?case using tick_inv reach_store_ok by blast
next
  case (reserved y w token n user filename mime s' r)
  then show ?case using reserve_inv by blast
next
  case (created y w draws user basename blob source tool expires mime provenance access s' r)
  have "in_flight_staged y" using reach_store_ok [OF created.hyps(1)] by blast
  then show ?case by (rule create_inv [OF created.IH _ created.hyps(2,4)])
next
  case (updated y w token fid user blob tool expected s' r)
  then show ?case using update_inv reach_store_ok by blast
next
  case (deleted y fid user)
  then show ?case using delete_inv reach_store_ok by blast
next
  case (collected y p unlinks commits)
  then show ?case using collect_one_inv reach_store_ok by blast
next
  case (file_collected y c unlinks fid)
  then show ?case using gc_file_inv reach_store_ok by blast
next
  case (upload_collected y c unlinks uid)
  then show ?case using gc_upload_inv reach_store_ok by blast
next
  case (swept y symlink unlinks)
  then show ?case using sweep_inv reach_store_ok by blast
next
  case (claimed y uid user s' u)
  then show ?case using claim_inv(2) reach_store_ok by blast
next
  case (claim_cancelled y uid user)
  then show ?case using claim_inv(1) reach_store_ok by blast
next
  case (opened y hs h hs')
  then show ?case using open_inv reach_store_ok by blast
next
  case (received y hs h hs' chunk s' h')
  then show ?case using receive_inv reach_store_ok by blast
next
  case (placed y hs h hs' s' h')
  then show ?case using place_inv reach_store_ok by blast
next
  case (marked y hs h hs' s' hit)
  then show ?case using mark_inv reach_store_ok by blast
next
  case (mark_failed y hs h hs')
  then show ?case using drop_request_inv by blast
next
  case (abandoned y hs h hs' unlinks)
  then show ?case using abandon_inv reach_store_ok by blast
next
  case (completion_started y uid user u)
  then show ?case using start_completion_inv reach_store_ok by blast
next
  case (bytes_read y cs u cs' data t)
  then show ?case using read_bytes_inv by blast
next
  case (registered y cs u blob cs' w draws s' r)
  then show ?case using register_inv reach_store_ok by blast
next
  case (completion_ended y cs c cs')
  then show ?case using drop_completion_inv by blast
qed

text \<open>
  C40: A completed upload is one file with the bytes that were received. In every state of every run, the
  file an upload was completed with exists, belongs to the uploader and to no other upload, and in its first
  version has the digest and size of the bytes the upload request delivered, which are as many as were
  reserved; and completing the upload again, by whatever completion still in flight, registers no further
  file and returns that one if it returns a file.
\<close>

theorem completed_upload_is_one_file:
  assumes run: "reach resolve root digest lost y"
    and u: "u \<in> set (uploads (sys_store y))" "u_file u = Some fid"
  shows "u_state u = Complete
    \<and> (\<exists>row\<in>set (files (sys_store y)). f_id row = fid \<and> f_user row = u_user u
         \<and> (\<exists>d. (u_id u, u_path u, d) \<in> set (delivered y) \<and> length d = u_size u
              \<and> (f_version row = 1 \<longrightarrow> f_sha row = digest d \<and> f_size row = length d)))
    \<and> (\<forall>v\<in>set (uploads (sys_store y)). u_file v = Some fid \<longrightarrow> v = u)
    \<and> (\<forall>u' w draws blob. u_id u' = u_id u \<longrightarrow>
         (case register_staged w draws u' blob (sys_store y) of
            (s', r) \<Rightarrow> files s' = files (sys_store y) \<and> (\<forall>row. r = Inr row \<longrightarrow> row \<in> set (files s') \<and> f_id row = fid)))"
proof (intro conjI ballI allI impI)
  let ?s = "sys_store y"
  note o = reach_store_ok [OF run, THEN conjunct1] and i = reach_inv [OF run]
  have uok: "upload_ok digest ?s (delivered y) u" by (rule invD(7) [OF i u(1)])
  show c: "u_state u = Complete" using uok u(2) by (simp add: upload_ok_def)
  obtain row where row: "row \<in> set (files ?s)" "f_id row = fid" "file_of digest (delivered y) u row"
    using uok u(2) by (auto simp: upload_ok_def)
  have "u_id u \<in> fst ` set (delivered y)" using uok c by (simp add: upload_ok_def)
  then obtain p d where d: "(u_id u, p, d) \<in> set (delivered y)" by force
  have "u_path u = p" "u_size u = length d" using invD(5) [OF i d] u(1) by (auto simp: delivery_ok_def)
  then show "\<exists>row\<in>set (files ?s). f_id row = fid \<and> f_user row = u_user u
      \<and> (\<exists>d. (u_id u, u_path u, d) \<in> set (delivered y) \<and> length d = u_size u
           \<and> (f_version row = 1 \<longrightarrow> f_sha row = digest d \<and> f_size row = length d))"
    using row d by (auto simp: file_of_def)
  show "v = u" if vin: "v \<in> set (uploads ?s)" and vf: "u_file v = Some fid" for v
  proof -
    have "\<forall>v\<in>set (uploads ?s). u_file v = Some fid \<longrightarrow> u_id v = u_id u" using uok u(2) by (simp add: upload_ok_def)
    then have "u_id v = u_id u" using vin vf by blast
    then show ?thesis by (rule tables_paths(4) [OF o vin u(1)])
  qed
  show "case register_staged w draws u' blob ?s of
      (s', r) \<Rightarrow> files s' = files ?s \<and> (\<forall>row. r = Inr row \<longrightarrow> row \<in> set (files s') \<and> f_id row = fid)"
    if same: "u_id u' = u_id u" for u' w draws blob
  proof -
    obtain s' r where r: "register_staged w draws u' blob ?s = (s', r)" by fastforce
    have only: "v = u" if "v \<in> set (uploads ?s)" "u_id v = u_id u'" for v
      using tables_paths(4) [OF o that(1) u(1)] that(2) same by simp
    from r show ?thesis
    proof (cases rule: register_cases)
      case refused
      then show ?thesis using r by simp
    next
      case (repeated row)
      then obtain v where "v \<in> set (uploads ?s)" "u_id v = u_id u'" "u_file v = Some (f_id row)" "row \<in> set (files ?s)"
        by (auto elim!: upload_check_Some)
      then have "f_id row = fid" "row \<in> set (files ?s)" using only u(2) by auto
      then show ?thesis using repeated(2,3) r by (auto simp: unlink_def)
    next
      case (fresh row s1 r1)
      then obtain v where "v \<in> set (uploads ?s)" "u_id v = u_id u'" "u_state v = Uploaded" by (auto elim!: upload_check_Some)
      then show ?thesis using only c by fastforce
    qed
  qed
qed

section \<open>A run\<close>

definition demo_path :: path where
  "demo_path = [''data'', ''ann'', ''artifact_staging'', ''upload_ab'']"

definition demo_upload :: "upload_state \<Rightarrow> string option \<Rightarrow> upload_row" where
  "demo_upload st fid = \<lparr>u_id = ''upload_ab'', u_user = ''ann'', u_basename = ''a.csv'', u_mime = ''text/csv'', u_size = 2,
     u_path = demo_path, u_state = st, u_file = fid, u_expires = 900000000\<rparr>"

definition demo_store :: "upload_state \<Rightarrow> string option \<Rightarrow> file_row list \<Rightarrow> (path \<Rightarrow> (string \<times> int) option) \<Rightarrow> store" where
  "demo_store st fid fs d = \<lparr>files = fs, uploads = [demo_upload st fid], retired = [], disk = d, clock = 0\<rparr>"

definition demo_handler :: "string \<Rightarrow> bool \<Rightarrow> handler" where
  "demo_handler got placed = \<lparr>h_row = demo_upload Receiving None, h_received = got, h_replaced = placed\<rparr>"

definition demo_file :: file_row where
  "demo_file = \<lparr>f_id = demo_id, f_user = ''ann'', f_basename = ''a.csv'', f_mime = ''text/csv'', f_size = 2, f_sha = ''hi'',
     f_path = [''data'', ''ann'', ''blobs'', demo_id], f_created = 0, f_updated = 0, f_expires = Some 86400000000, f_deleted = None,
     f_source = ''user_upload'', f_tool = None, f_version = 1, f_provenance = [], f_access = None\<rparr>"

definition demo_disk :: "nat \<Rightarrow> path \<Rightarrow> (string \<times> int) option" where
  "demo_disk n = (if n = 0 then \<lambda>_. None else if n = 1 then (\<lambda>_. None)(receiving demo_path := Some (''hi'', 0))
     else (\<lambda>_. None)(receiving demo_path := Some (''hi'', 0), receiving demo_path := None, demo_path := Some (''hi'', 0)))"

abbreviation demo_run :: "system \<Rightarrow> bool" where
  "demo_run \<equiv> reach (\<lambda>p. p) [''data''] (\<lambda>b. b) False"

lemma demo_world_fields:
  "w_resolve demo_world = (\<lambda>p. p)" "w_root demo_world = [''data'']" "w_digest demo_world = (\<lambda>b. b)"
  by (simp_all add: demo_world_def)

lemma demo_reserved: "demo_run \<lparr>sys_store = demo_store Pending None [] (demo_disk 0), requests = [], completions = [], delivered = []\<rparr>"
proof -
  let ?y = "\<lparr>sys_store = empty_store 0, requests = [], completions = [], delivered = []\<rparr>"
  have "reserve_upload demo_world ''ab'' ''ann'' ''a.csv'' ''text/csv'' 2 (sys_store ?y)
      = (demo_store Pending None [] (demo_disk 0), Inr (demo_upload Pending None))"
    by (simp add: reserve_upload_def user_root_def demo_world_def empty_store_def quota_used_def MAX_QUOTA_BYTES_def commit_def
      demo_store_def demo_upload_def demo_path_def demo_disk_def seconds_def DEFAULT_TTL_SECONDS_def Let_def)
  from reach.reserved [OF reach.started demo_fits _ _ _ _ _ this]
  show ?thesis by (simp add: is_hex_def is_digit_def used_ids_def empty_store_def MAX_FILE_BYTES_def)
qed

lemma demo_claimed: "demo_run \<lparr>sys_store = demo_store Receiving None [] (demo_disk 0), requests = [demo_handler [] False],
    completions = [], delivered = []\<rparr>"
proof -
  have "claim_upload ''upload_ab'' ''ann'' (demo_store Pending None [] (demo_disk 0))
      = (demo_store Receiving None [] (demo_disk 0), Some (demo_upload Receiving None))"
    by (simp add: claim_upload_def demo_store_def demo_upload_def)
  with reach.claimed [OF demo_reserved] show ?thesis by (simp add: start_request_def demo_handler_def)
qed

lemma demo_received: "demo_run \<lparr>sys_store = demo_store Receiving None [] (demo_disk 1), requests = [demo_handler ''hi'' False],
    completions = [], delivered = []\<rparr>"
proof -
  have "receive_chunk ''hi'' (demo_handler [] False) (demo_store Receiving None [] (demo_disk 0))
      = Some (demo_store Receiving None [] (demo_disk 1), demo_handler ''hi'' False)"
    by (simp add: receive_chunk_def Let_def demo_handler_def demo_store_def demo_disk_def demo_upload_def)
  with reach.received [OF demo_claimed, of "[]" "demo_handler [] False" "[]"]
  show ?thesis by (simp add: demo_handler_def)
qed

lemma demo_placed: "demo_run \<lparr>sys_store = demo_store Receiving None [] (demo_disk 2), requests = [demo_handler ''hi'' True],
    completions = [], delivered = []\<rparr>"
proof -
  have "place_bytes (demo_handler ''hi'' False) (demo_store Receiving None [] (demo_disk 1))
      = Some (demo_store Receiving None [] (demo_disk 2), demo_handler ''hi'' True)"
    by (simp add: place_bytes_def Let_def demo_handler_def demo_store_def demo_disk_def demo_upload_def)
  with reach.placed [OF demo_received, of "[]" "demo_handler ''hi'' False" "[]"]
  show ?thesis by (simp add: demo_handler_def)
qed

lemma demo_marked: "demo_run \<lparr>sys_store = demo_store Uploaded None [] (demo_disk 2), requests = [],
    completions = [], delivered = [(''upload_ab'', demo_path, ''hi'')]\<rparr>"
proof -
  have "mark_uploaded (demo_handler ''hi'' True) (demo_store Receiving None [] (demo_disk 2))
      = (demo_store Uploaded None [] (demo_disk 2), True)"
    by (simp add: mark_uploaded_def demo_handler_def demo_store_def demo_upload_def)
  from reach.marked [OF demo_placed, of "[]" "demo_handler ''hi'' True" "[]", OF _ _, simplified, OF _ this]
  show ?thesis by (simp add: demo_handler_def demo_upload_def)
qed

lemma demo_read: "demo_run \<lparr>sys_store = demo_store Uploaded None [] (demo_disk 2), requests = [],
    completions = [(demo_upload Uploaded None, Some ''hi'')], delivered = [(''upload_ab'', demo_path, ''hi'')]\<rparr>"
proof -
  have "get_upload ''upload_ab'' ''ann'' (demo_store Uploaded None [] (demo_disk 2)) = Inr (demo_upload Uploaded None)"
    by (simp add: get_upload_def find_upload_def demo_store_def demo_upload_def res_simps)
  with reach.completion_started [OF demo_marked, of "''upload_ab''" "''ann''" "demo_upload Uploaded None"]
  have r: "demo_run \<lparr>sys_store = demo_store Uploaded None [] (demo_disk 2), requests = [],
    completions = [(demo_upload Uploaded None, None)], delivered = [(''upload_ab'', demo_path, ''hi'')]\<rparr>"
    by (simp add: demo_upload_def)
  have "disk (demo_store Uploaded None [] (demo_disk 2)) (u_path (demo_upload Uploaded None)) = Some (''hi'', 0)"
    by (simp add: demo_store_def demo_disk_def demo_upload_def)
  with reach.bytes_read [OF r, of "[]" "demo_upload Uploaded None" "[]" "''hi''" 0]
  show ?thesis by (simp add: MAX_FILE_BYTES_def demo_upload_def)
qed

definition demo_done :: system where
  "demo_done = \<lparr>sys_store = demo_store Complete (Some demo_id) [demo_file]
     ((demo_disk 2)(f_path demo_file := Some (''hi'', 0), demo_path := None)), requests = [], completions = [],
     delivered = [(''upload_ab'', demo_path, ''hi'')]\<rparr>"

lemma demo_registered: "demo_run demo_done"
proof -
  let ?s = "demo_store Uploaded None [] (demo_disk 2)"
  have check: "upload_check (Some ''upload_ab'') ''ann'' 2 ?s = Inr None"
    by (simp add: upload_check_def find_upload_def demo_store_def demo_upload_def)
  have "insert_file demo_world demo_file ''hi'' (Some ''upload_ab'') ?s
      = (demo_store Complete (Some demo_id) [demo_file] ((demo_disk 2)(f_path demo_file := Some (''hi'', 0))), Inr demo_file)"
    by (simp add: insert_file_def Let_def demo_world_def demo_store_def quota_used_def demo_upload_def MAX_QUOTA_BYTES_def
      write_atomic_def commit_def complete_row_def demo_file_def)
  then have "create_file demo_world (replicate 26 0) ''ann'' ''a.csv'' ''hi'' ''user_upload'' None (Some 86400000000)
      (Some ''text/csv'') [] None (Some ''upload_ab'') ?s
    = (demo_store Complete (Some demo_id) [demo_file] ((demo_disk 2)(f_path demo_file := Some (''hi'', 0))), Inr demo_file)"
    using check unfolding demo_file_def
    by (simp add: create_file_def create_access_def demo_names MAX_FILE_BYTES_def demo_world_fields Let_def demo_store_def numeral_2_eq_2)
  then have "register_staged demo_world (replicate 26 0) (demo_upload Uploaded None) ''hi'' ?s
    = (sys_store demo_done, Inr demo_file)"
    by (simp add: register_staged_def demo_upload_def seconds_def demo_store_def try_unlink_def unlink_def demo_world_def demo_done_def)
  moreover have "fresh_file (\<lambda>p. p) [''data''] (replicate 26 0) ''ann'' ?s"
    by (simp add: fresh_file_def demo_names demo_store_def demo_upload_def referenced_def demo_path_def)
  ultimately show ?thesis
    using reach.registered [OF demo_read _ demo_fits, of "[]" "demo_upload Uploaded None" "''hi''" "[]" "replicate 26 0"]
    by (simp add: demo_upload_def demo_done_def)
qed

theorem completed_upload_is_one_file_witness:
  "\<exists>row\<in>set (files (sys_store demo_done)). f_id row = demo_id \<and> f_user row = ''ann''"
proof -
  let ?u = "demo_upload Complete (Some demo_id)"
  have u: "?u \<in> set (uploads (sys_store demo_done))" "u_file ?u = Some demo_id"
    by (simp_all add: demo_done_def demo_store_def demo_upload_def)
  obtain row where "row \<in> set (files (sys_store demo_done))" "f_id row = demo_id" "f_user row = u_user ?u"
    using completed_upload_is_one_file [OF demo_registered u] by blast
  then show ?thesis by (intro bexI [of _ row]) (simp_all add: demo_upload_def)
qed

end
