(* ===== verification/Spec2Isabelle.thy ===== *)
theory Spec2Isabelle
  imports Prelude PyText Periods Graphs Expressions CatalogueModel Catalogue Validation Transformer
    Permissions ScenarioRegistry Resolver ScopeFilters
    ToolArgs ContextValidation Gate RetrieverSql Retriever Engine ReadTools
    Inspection Formatter Concurrency Bindings Checks Ingestion LoadSafety Schedule Watcher
    Datasets Artifacts Transfers ArtifactSafety UploadSafety
begin

text \<open>
  A verification library of the Precis reporting server (\<open>src/precis_mcp/\<close>).

  The server answers financial reporting questions over a warehouse through tool calls, and fills that
  warehouse from source systems. The library models the two paths end to end: a tool call from its
  arguments to the cells of its report, and a load from its trigger to the live table.

  \<^bold>\<open>The reporting path.\<close> A call enters the gate (\<open>dispatch.py\<close>), which coerces its arguments, fills
  defaults, expands scenario references and checks permissions. A report tool
  (\<open>tools/read_tools.py\<close>) turns the arguments into a request. The engine (\<open>engine/__init__.py\<close>) has the
  resolver plan it, confines it to the security scope, has the retriever run its queries and the
  transformer compute derived metrics and comparisons. The theories, in the order of the code:

    \<^item> \<open>Prelude\<close> and \<open>PyText\<close>: results and exceptions as sums, dictionaries in insertion order, the
      text operations of Python on strings of characters.
    \<^item> \<open>Periods\<close>: \<open>engine/period_codes.py\<close>, the shifts of \<open>engine/resolver.py\<close> and the inverse remap of
      \<open>engine/retriever.py\<close>. The codes sort by time and the remap undoes the shift.
    \<^item> \<open>Graphs\<close>: Kahn's algorithm in its three variants (\<open>_has_cycle\<close>, the metric order, the order of
      computed scenarios). Each stops, orders correctly and reports exactly the cycles.
    \<^item> \<open>Expressions\<close>: formulas as syntax trees, their names and their evaluation with missing values.
    \<^item> \<open>CatalogueModel\<close>, \<open>Catalogue\<close>, \<open>Validation\<close>: \<open>engine/catalogue.py\<close>, the data, its
      normalisation and the closure of dimension parents, and \<open>validate_catalogue\<close>. A validated
      statement resolves.
    \<^item> \<open>ScenarioRegistry\<close>: \<open>engine/scenario_registry.py\<close>, keys, dependencies and the reporting
      vocabulary with its permission filter.
    \<^item> \<open>Resolver\<close>: \<open>engine/resolver.py\<close>, stage by stage. The plan covers its formulas, reads the
      requested scenarios and orders its metrics.
    \<^item> \<open>Permissions\<close>: \<open>auth.py\<close>. \<open>ScopeFilters\<close>: \<open>engine/filter_resolver.py\<close>,
      \<open>engine/scope_enforcer.py\<close> and \<open>scope_resolver.py\<close>, with the sets of members they allow.
    \<^item> \<open>ToolArgs\<close>, \<open>ContextValidation\<close>, \<open>Gate\<close>: \<open>dispatch.py\<close> and \<open>engine/context_validation.py\<close>.
    \<^item> \<open>RetrieverSql\<close>, \<open>Retriever\<close>: \<open>engine/retriever.py\<close> and \<open>engine/ibis_retriever.py\<close>. A query is a
      syntax tree with the rows it selects; the federated rollup is shown equal to grouping.
    \<^item> \<open>Transformer\<close>: \<open>engine/transformer.py\<close>. \<open>Engine\<close>, \<open>ReadTools\<close>: the composition, up to the
      theorem that a report reads only permitted rows. \<open>Formatter\<close>: \<open>engine/formatter.py\<close>, the rows of
      the response and the whole of \<open>execute_report\<close>.
    \<^item> \<open>Inspection\<close>: \<open>engine/inspect.py\<close> and \<open>inspect_rows\<close> of \<open>tools/read_tools.py\<close>, the listing of the
      rows behind a figure. Each row it reads is one the caller may read, and its output is bounded.
    \<^item> \<open>Concurrency\<close>: \<open>concurrency.py\<close>, a step relation over all interleavings of calls, timeouts and
      cancellations; the locale of a pool of slots is interpreted on the pools of the users and the
      global pool.

  \<^bold>\<open>The ingestion path.\<close> The cron scheduler or the file watcher starts a run of a binding; the run extracts
  from the source into the staging twin of a live table, validates the shape, runs the data-quality
  checks and swaps the result into the live table, with a row of history and a lock around it.

    \<^item> \<open>Bindings\<close>: \<open>ingestion/registry.py\<close>. What a loaded registry guarantees of every binding.
    \<^item> \<open>Checks\<close>: \<open>ingestion/checks.py\<close>. What a passed reconciliation means; the gate fails closed.
    \<^item> \<open>Ingestion\<close>: \<open>run_binding\<close> of \<open>ingestion/orchestrator.py\<close> with \<open>ibis_executor.py\<close>, \<open>validate.py\<close>,
      \<open>swap.py\<close>, \<open>load_history.py\<close> and \<open>pg_lock.py\<close>. An action takes the state of the world (warehouse,
      history, locks) to a new state with a value or an exception, so effects made before an exception
      remain.
    \<^item> \<open>LoadSafety\<close>: what a run guarantees whatever fails. The locale \<open>column_store\<close> states the documented
      effect of the warehouse statements and is interpreted on a warehouse in memory; the locale \<open>kept\<close>
      of relations between states that actions keep is interpreted on the four relations the proofs use.
      The abstract view of a run is a single step that publishes the whole extract or nothing.
    \<^item> \<open>Schedule\<close>: \<open>ingestion/period_selection.py\<close> and \<open>ingestion/scheduler.py\<close>. The months a tick selects, and
      that a tick leaves no due window without an attempt.
    \<^item> \<open>Watcher\<close>: \<open>ingestion/watcher.py\<close> and \<open>ingestion/period_inference.py\<close>. Each new file starts one load.

  \<^bold>\<open>Results and files.\<close> What a tool returned can be used again: its result as a snapshot, and what the
  user uploads or a tool produces as a file.

    \<^item> \<open>Datasets\<close>: \<open>datasets.py\<close>. Snapshots go to their owner only, while the grants are unchanged; they
      stay within their caps.
    \<^item> \<open>Artifacts\<close>: \<open>artifacts/ids.py\<close> and \<open>artifacts/registry.py\<close>, three tables, the blobs and the clock;
      every operation takes the outcomes of its writes, unlinks and commits.
    \<^item> \<open>Transfers\<close>: \<open>artifacts/tokens.py\<close>, \<open>uploads.py\<close>, \<open>routes.py\<close> and \<open>policy.py\<close>.
    \<^item> \<open>ArtifactSafety\<close>: the store under every interleaving of its operations, as a step relation: its quota holds, its
      blobs are intact, links serve what they name and edits are not lost. \<open>UploadSafety\<close>: a completed upload
      is one file with the bytes that were received.

  \<^bold>\<open>Parameters.\<close> Code outside the repository is an argument of the definitions that use it: the warehouse
  and its statements, the rows a query returns, PostgreSQL and its failures, \<open>json.loads\<close>, Python's expression
  parser and \<open>str\<close> of a value, the calendar, \<open>re.search\<close> with a pattern from the configuration, the cron library,
  object stores and file readers, SHA-256 and JWT, Redis and its encoding, the extension hooks of the engine. Theorems that need more of them than
  their type says so in a named hypothesis, and their witness instantiates it.

  \<^bold>\<open>Bounds and fuel.\<close> Recursion is structural or has a proved measure. The one exception is the
  recursion over generated comparisons (\<open>collect_computed_deps\<close>), which has fuel 2: the sides of a
  comparison are real or shifted scenarios, so the fuel suffices for every registry the loader builds, as
  \<open>Resolver\<close> shows. The watermark has the limit of 240 months of the code. Numbers are unbounded as in Python; floats of the checks are an abstract record of operations.
  Characters are 8-bit, so the decimal digits of other alphabets that \<open>isdigit\<close> accepts are not represented.

  \<^bold>\<open>Where the code falls short.\<close> Some theorems show a behaviour the code does not intend, on a concrete or
  general input: \<open>merged_query_breaks_comparison\<close> and \<open>year_report_merges_prior_scenarios\<close> (\<open>Resolver\<close>),
  \<open>alias_vs_breaks_vocabulary\<close> (\<open>ScenarioRegistry\<close>), \<open>lock_keys_on_one_leaf_unite\<close> (\<open>ScopeFilters\<close>),
  \<open>fork_target_shadowed_by_alias\<close> (\<open>Engine\<close>), the last section of \<open>LoadSafety\<close>,
  \<open>adjustment_period_stops_watermark\<close> (\<open>Schedule\<close>), \<open>normalise_period_lax\<close> and
  \<open>watched_snapshot_stops_watcher\<close> (\<open>Watcher\<close>), \<open>lost_commit_loses_blob\<close> (\<open>ArtifactSafety\<close>),
  \<open>null_scenario_reads_everything\<close> and \<open>default_limit_ignores_maximum\<close> (\<open>Inspection\<close>).

  \<^bold>\<open>Not modelled.\<close> Presentation (tables, charts, Excel), the tools that wrap the artifact store and the import of
  attachments, the scenario table, backup, HTTP transport and verification of access tokens, administration, provisioning, telemetry, the generator of sample data, the
  readers of file formats, and the wording of messages: input and output around the logic above, or work
  of libraries. The text of SQL is not built, only its structure, except in the data-quality checks,
  whose queries are their configuration. Of the tools that list the catalogue, the arguments and the
  gate are modelled and their bodies are not.
\<close>

end
